(* ===== verification/Prelude.thy ===== *)
theory Prelude
  imports Main "HOL-Library.Sublist"
begin

text \<open>
  What every component shares.  Go strings are byte strings, so a \<^typ>\<open>string\<close>
  (a list of 8-bit \<^typ>\<open>char\<close>s) is exactly a Go string and \<^const>\<open>length\<close> is Go's
  \<open>len\<close>.  The functions of Go's packages \<open>strings\<close>, \<open>unicode\<close>, \<open>path/filepath\<close> (the
  POSIX build) and \<open>net\<close> that the modelled code calls are written out here, under names
  close to Go's.  Two limits, which hold for every theory of the development:
  \<open>to_lower\<close> and \<open>equal_fold\<close> fold the ASCII letters only, and a Go \<open>int\<close> is an
  \<^typ>\<open>int\<close> where no claim depends on its width (\<open>i64\<close> writes the wrap-around out
  where one does).
\<close>

subsection \<open>Collections of facts\<close>

named_theorems go_simps \<open>unfoldings of the Go library functions\<close>

subsection \<open>Bytes\<close>

abbreviation bslash :: char where "bslash \<equiv> CHR 0x5C"
abbreviation dquote :: char where "dquote \<equiv> CHR 0x22"
abbreviation squote :: char where "squote \<equiv> CHR 0x27"
abbreviation btick :: char where "btick \<equiv> CHR 0x60"
abbreviation newline_c :: char where "newline_c \<equiv> CHR 0x0A"
abbreviation cr_c :: char where "cr_c \<equiv> CHR 0x0D"
abbreviation tab_c :: char where "tab_c \<equiv> CHR 0x09"

definition byte :: "char \<Rightarrow> int" where
  "byte c = of_char c"

lemma byte_bounds [simp]: "byte c < 256" "0 \<le> byte c"
proof -
  have "byte c = byte c mod 256" by (simp add: byte_def)
  then show "byte c < 256" "0 \<le> byte c" by presburger+
qed

definition is_digit :: "char \<Rightarrow> bool" where
  "is_digit c \<longleftrightarrow> c \<in> set ''0123456789''"

text \<open>\<open>unicode.IsSpace(rune(c))\<close> for a single byte: the Latin-1 white space.\<close>

definition is_space_byte :: "char \<Rightarrow> bool" where
  "is_space_byte c \<longleftrightarrow> c \<in> {CHR 0x09, CHR 0x0A, CHR 0x0B, CHR 0x0C, CHR 0x0D,
                               CHR '' '', CHR 0x85, CHR 0xA0}"

definition lower_char :: "char \<Rightarrow> char" where
  "lower_char c = (if 65 \<le> byte c \<and> byte c \<le> 90 then char_of (byte c + 32) else c)"

definition upper_char :: "char \<Rightarrow> char" where
  "upper_char c = (if 97 \<le> byte c \<and> byte c \<le> 122 then char_of (byte c - 32) else c)"

text \<open>\<open>strings.ToLower\<close>, \<open>strings.ToUpper\<close> and \<open>strings.EqualFold\<close> on ASCII letters.\<close>

definition to_lower :: "string \<Rightarrow> string" where
  "to_lower = map lower_char"

definition to_upper :: "string \<Rightarrow> string" where
  "to_upper = map upper_char"

definition equal_fold :: "string \<Rightarrow> string \<Rightarrow> bool" where
  "equal_fold s t \<longleftrightarrow> to_lower s = to_lower t"

lemma lower_char_idem [simp]: "lower_char (lower_char c) = lower_char c"
  by (auto simp: lower_char_def byte_def)

lemma to_lower_idem [simp]: "to_lower (to_lower s) = to_lower s"
  by (simp add: to_lower_def)

lemma to_lower_Nil [simp]: "to_lower [] = []"
  by (simp add: to_lower_def)

lemma length_to_lower [simp]: "length (to_lower s) = length s"
  by (simp add: to_lower_def)


subsection \<open>Prefixes, suffixes, searching and splitting\<close>

definition trim_prefix :: "string \<Rightarrow> string \<Rightarrow> string" where
  "trim_prefix p s = (if prefix p s then drop (length p) s else s)"

definition trim_suffix :: "string \<Rightarrow> string \<Rightarrow> string" where
  "trim_suffix p s = (if suffix p s then take (length s - length p) s else s)"

text \<open>\<open>strings.Contains\<close> and \<open>strings.IndexByte\<close>.\<close>

fun contains :: "string \<Rightarrow> string \<Rightarrow> bool" where
  "contains [] sub = (sub = [])"
| "contains (c # s) sub = (prefix sub (c # s) \<or> contains s sub)"

fun index_byte :: "string \<Rightarrow> char \<Rightarrow> nat option" where
  "index_byte [] c = None"
| "index_byte (d # s) c = (if d = c then Some 0 else map_option Suc (index_byte s c))"

text \<open>\<open>strings.Cut\<close> at a one-byte separator: what is before it, after it, and whether it was there.\<close>

fun cut :: "string \<Rightarrow> char \<Rightarrow> string \<times> string \<times> bool" where
  "cut [] c = ([], [], False)"
| "cut (d # s) c =
     (if d = c then ([], s, True)
      else (case cut s c of (a, b, f) \<Rightarrow> (d # a, b, f)))"

text \<open>\<open>strings.Split\<close> at a one-byte separator: always at least one part.\<close>

fun split_byte :: "string \<Rightarrow> char \<Rightarrow> string list" where
  "split_byte [] c = [[]]"
| "split_byte (d # s) c =
     (if d = c then [] # split_byte s c
      else (case split_byte s c of [] \<Rightarrow> [[d]] | p # ps \<Rightarrow> (d # p) # ps))"

text \<open>\<open>strings.Join\<close> with a one-byte separator.\<close>

fun join_byte :: "char \<Rightarrow> string list \<Rightarrow> string" where
  "join_byte c [] = []"
| "join_byte c [x] = x"
| "join_byte c (x # y # xs) = x @ c # join_byte c (y # xs)"

text \<open>\<open>strings.TrimLeft(s, "c")\<close> for a one-byte cutset.\<close>

definition trim_left_byte :: "char \<Rightarrow> string \<Rightarrow> string" where
  "trim_left_byte c s = dropWhile (\<lambda>d. d = c) s"

definition replace_byte :: "char \<Rightarrow> char \<Rightarrow> string \<Rightarrow> string" where
  "replace_byte a b s = map (\<lambda>c. if c = a then b else c) s"

text \<open>
  \<open>strings.TrimSpace\<close>.  Go trims the runes for which \<open>unicode.IsSpace\<close> holds; these are
  their UTF-8 encodings.  Matching whole encodings at either end is what decoding a rune
  there does, because no encoding is a proper prefix or suffix of another rune's.
\<close>

definition space_seqs :: "string list" where
  "space_seqs =
     [[CHR 0x09], [CHR 0x0A], [CHR 0x0B], [CHR 0x0C], [CHR 0x0D], [CHR '' ''],
      [CHR 0xC2, CHR 0x85], [CHR 0xC2, CHR 0xA0], [CHR 0xE1, CHR 0x9A, CHR 0x80],
      [CHR 0xE2, CHR 0x80, CHR 0x80], [CHR 0xE2, CHR 0x80, CHR 0x81],
      [CHR 0xE2, CHR 0x80, CHR 0x82], [CHR 0xE2, CHR 0x80, CHR 0x83],
      [CHR 0xE2, CHR 0x80, CHR 0x84], [CHR 0xE2, CHR 0x80, CHR 0x85],
      [CHR 0xE2, CHR 0x80, CHR 0x86], [CHR 0xE2, CHR 0x80, CHR 0x87],
      [CHR 0xE2, CHR 0x80, CHR 0x88], [CHR 0xE2, CHR 0x80, CHR 0x89],
      [CHR 0xE2, CHR 0x80, CHR 0x8A], [CHR 0xE2, CHR 0x80, CHR 0xA8],
      [CHR 0xE2, CHR 0x80, CHR 0xA9], [CHR 0xE2, CHR 0x80, CHR 0xAF],
      [CHR 0xE2, CHR 0x81, CHR 0x9F], [CHR 0xE3, CHR 0x80, CHR 0x80]]"

lemma space_seqs_ne: "w \<in> set space_seqs \<Longrightarrow> w \<noteq> []"
  by (auto simp: space_seqs_def)

text \<open>One white-space rune off the front, over any list of non-empty sequences.\<close>

fun strip_one :: "string list \<Rightarrow> string \<Rightarrow> string option" where
  "strip_one [] s = None"
| "strip_one (w # ws) s =
     (if w \<noteq> [] \<and> prefix w s then Some (drop (length w) s) else strip_one ws s)"

lemma strip_one_suffix: "strip_one ws s = Some t \<Longrightarrow> \<exists>u. u \<noteq> [] \<and> s = u @ t"
  by (induction ws s rule: strip_one.induct) (fastforce simp: prefix_def split: if_splits)+

lemma strip_one_shorter: "strip_one ws s = Some t \<Longrightarrow> length t < length s"
  by (auto dest!: strip_one_suffix)

function strip_all :: "string list \<Rightarrow> string \<Rightarrow> string" where
  "strip_all ws s = (case strip_one ws s of None \<Rightarrow> s | Some t \<Rightarrow> strip_all ws t)"
  by pat_completeness auto
termination
  by (relation "measure (\<lambda>(ws, s). length s)") (auto dest: strip_one_shorter)

declare strip_all.simps [simp del]

definition trim_left_space :: "string \<Rightarrow> string" where
  "trim_left_space s = strip_all space_seqs s"

definition trim_right_space :: "string \<Rightarrow> string" where
  "trim_right_space s = rev (strip_all (map rev space_seqs) (rev s))"

definition trim_space :: "string \<Rightarrow> string" where
  "trim_space s = trim_right_space (trim_left_space s)"

lemma strip_all_suffix: "\<exists>u. s = u @ strip_all ws s"
proof (induction ws s rule: strip_all.induct)
  case (1 ws s)
  show ?case
  proof (cases "strip_one ws s")
    case None
    then show ?thesis by (simp add: strip_all.simps)
  next
    case (Some t)
    then obtain u where "s = u @ t" using strip_one_suffix by blast
    moreover obtain v where "t = v @ strip_all ws t" using "1.IH" Some by blast
    ultimately have "s = (u @ v) @ strip_all ws t" by simp
    with Some show ?thesis by (subst strip_all.simps) auto
  qed
qed

lemma strip_all_fixed: "strip_one ws (strip_all ws s) = None"
proof (induction ws s rule: strip_all.induct)
  case (1 ws s)
  then show ?case by (cases "strip_one ws s") (simp_all add: strip_all.simps [of ws s])
qed

lemma strip_all_None: "strip_one ws s = None \<Longrightarrow> strip_all ws s = s"
  by (simp add: strip_all.simps)

lemma trim_space_sublist: "\<exists>u v. s = u @ trim_space s @ v"
proof -
  obtain u where u: "s = u @ trim_left_space s"
    unfolding trim_left_space_def using strip_all_suffix by blast
  obtain v where "rev (trim_left_space s) = v @ strip_all (map rev space_seqs) (rev (trim_left_space s))"
    using strip_all_suffix by blast
  then have "trim_left_space s = trim_space s @ rev v"
    unfolding trim_space_def trim_right_space_def by (metis rev_append rev_rev_ident)
  with u show ?thesis by metis
qed

lemma length_trim_space_le: "length (trim_space s) \<le> length s"
  using trim_space_sublist [of s] by (metis le_add1 le_add2 length_append le_trans)

lemma set_trim_space: "set (trim_space s) \<subseteq> set s"
  using trim_space_sublist [of s] by (metis Un_iff set_append subsetI)

subsection \<open>Lemmas on searching and splitting\<close>

lemma cut_absent: "c \<notin> set s \<Longrightarrow> cut s c = (s, [], False)"
  by (induction s) auto

lemma cut_present: "c \<notin> set a \<Longrightarrow> cut (a @ c # b) c = (a, b, True)"
  by (induction a) auto

lemma cut_fst_notin: "cut s c = (a, b, f) \<Longrightarrow> c \<notin> set a"
  by (induction s arbitrary: a) (auto split: if_splits prod.splits)

lemma split_byte_ne [simp]: "split_byte s c \<noteq> []"
  by (induction s) (auto split: list.splits)

lemma split_byte_absent: "c \<notin> set s \<Longrightarrow> split_byte s c = [s]"
  by (induction s) auto

lemma split_byte_append:
  "c \<notin> set a \<Longrightarrow> split_byte (a @ c # b) c = a # split_byte b c"
  by (induction a) auto

lemma split_byte_no_sep: "e \<in> set (split_byte s c) \<Longrightarrow> c \<notin> set e"
  by (induction s arbitrary: e) (auto split: list.splits if_splits)

lemma split_join_byte:
  "list_all (\<lambda>e. c \<notin> set e) es \<Longrightarrow> es \<noteq> [] \<Longrightarrow> split_byte (join_byte c es) c = es"
  by (induction c es rule: join_byte.induct) (auto simp: split_byte_absent split_byte_append)

lemma join_byte_extend:
  "join_byte c ((a # x) # xs) = a # join_byte c (x # xs)"
  "xs \<noteq> [] \<Longrightarrow> join_byte c ([] # xs) = c # join_byte c xs"
  by (cases xs; simp)+

lemma join_split_byte [simp]: "join_byte c (split_byte s c) = s"
proof (induction s)
  case (Cons d s)
  obtain p ps where "split_byte s c = p # ps" using split_byte_ne by (metis neq_Nil_conv)
  with Cons show ?case by (simp add: join_byte_extend)
qed simp

lemma contains_iff_sublist: "contains s sub \<longleftrightarrow> (\<exists>u v. s = u @ sub @ v)"
proof (induction s)
  case Nil
  then show ?case by auto
next
  case (Cons c s)
  have "(\<exists>u v. c # s = u @ sub @ v) \<longleftrightarrow> prefix sub (c # s) \<or> (\<exists>u v. s = u @ sub @ v)"
    by (metis append_Cons append_Nil neq_Nil_conv list.inject prefix_def)
  with Cons show ?case by simp
qed

lemma index_byte_None [simp]: "index_byte s c = None \<longleftrightarrow> c \<notin> set s"
  by (induction s) auto


subsection \<open>\<open>path/filepath\<close>\<close>

text \<open>\<open>filepath.Base\<close>: the last element, trailing slashes removed first.\<close>

definition path_base :: "string \<Rightarrow> string" where
  "path_base s =
     (if s = [] then ''.''
      else let u = rev (takeWhile (\<lambda>c. c \<noteq> CHR ''/'') (dropWhile (\<lambda>c. c = CHR ''/'') (rev s)))
           in if u = [] then ''/'' else u)"

lemma path_base_ne [simp]: "path_base s \<noteq> []"
  by (simp add: path_base_def Let_def)

definition visible :: "char \<Rightarrow> bool" where
  "visible c \<longleftrightarrow> 0x21 \<le> byte c \<and> byte c \<le> 0x7E"

lemma strip_one_None: "\<forall>w \<in> set ws. w \<noteq> [] \<and> hd w \<noteq> c \<Longrightarrow> strip_one ws (c # s) = None"
  by (induction ws) (auto simp: neq_Nil_conv prefix_Cons)

lemma space_seqs_edges:
  "visible c \<Longrightarrow> \<forall>w \<in> set space_seqs. w \<noteq> [] \<and> hd w \<noteq> c"
  "visible c \<Longrightarrow> \<forall>w \<in> set (map rev space_seqs). w \<noteq> [] \<and> hd w \<noteq> c"
proof -
  have "\<forall>w \<in> set space_seqs. w \<noteq> [] \<and> \<not> visible (hd w) \<and> \<not> visible (last w)"
    by code_simp
  then show "visible c \<Longrightarrow> \<forall>w \<in> set space_seqs. w \<noteq> [] \<and> hd w \<noteq> c"
    "visible c \<Longrightarrow> \<forall>w \<in> set (map rev space_seqs). w \<noteq> [] \<and> hd w \<noteq> c"
    by (auto simp: hd_rev)
qed

text \<open>A string with visible ASCII bytes at both ends is its own trimmed form.\<close>

lemma trim_space_id:
  assumes "s \<noteq> []" "visible (hd s)" "visible (last s)"
  shows "trim_space s = s"
proof -
  have "strip_one space_seqs s = None"
    using strip_one_None [OF space_seqs_edges(1) [OF assms(2)], of "tl s"] assms(1) by simp
  then have l: "trim_left_space s = s" by (simp add: trim_left_space_def strip_all_None)
  have "rev s = last s # tl (rev s)" using assms(1) by (cases s rule: rev_cases) auto
  then have "strip_one (map rev space_seqs) (rev s) = None"
    using strip_one_None [OF space_seqs_edges(2) [OF assms(3)], of "tl (rev s)"] by metis
  with l show ?thesis by (simp add: trim_space_def trim_right_space_def strip_all_None)
qed

lemma visible_quote [simp]: "visible squote"
  by (simp add: visible_def byte_def)

subsection \<open>Machine integers\<close>

text \<open>Go's \<open>int\<close> is 64 bits wide: every sum and difference is wrapped into its range.\<close>

definition i64 :: "int \<Rightarrow> int" where
  "i64 x = (x + 2 ^ 63) mod 2 ^ 64 - 2 ^ 63"

definition max_i64 :: int where
  "max_i64 = 2 ^ 63 - 1"

lemma i64_id [simp]: "- (2 ^ 63) \<le> x \<Longrightarrow> x < 2 ^ 63 \<Longrightarrow> i64 x = x"
  by (simp add: i64_def)

lemma i64_nonneg [simp]: "0 \<le> x \<Longrightarrow> x \<le> max_i64 \<Longrightarrow> i64 x = x"
  by (simp add: max_i64_def)

lemma i64_range: "- (2 ^ 63) \<le> i64 x" "i64 x \<le> max_i64"
  by (simp_all add: i64_def max_i64_def)

text \<open>\<open>strconv.Itoa\<close>, the verb \<open>%d\<close>.\<close>

fun decimal :: "nat \<Rightarrow> string" where
  "decimal n = (if n < 10 then [char_of (48 + n)] else decimal (n div 10) @ [char_of (48 + n mod 10)])"

declare decimal.simps [simp del]

definition itoa :: "int \<Rightarrow> string" where
  "itoa x = (if x < 0 then CHR ''-'' # decimal (nat (- x)) else decimal (nat x))"

subsection \<open>Searching\<close>

lemma find_SomeD: "find P xs = Some x \<Longrightarrow> x \<in> set xs \<and> P x"
  by (auto simp: find_Some_iff)

text \<open>\<open>strings.ReplaceAll\<close> for a text that is not empty.\<close>

function replace_all :: "string \<Rightarrow> string \<Rightarrow> string \<Rightarrow> string" where
  "replace_all old new [] = []"
| "replace_all old new (c # s) =
     (if old \<noteq> [] \<and> prefix old (c # s) then new @ replace_all old new (drop (length old) (c # s))
      else c # replace_all old new s)"
  by pat_completeness auto
termination
  by (relation "measure (\<lambda>(old, new, s). length s)") auto

end
