(* ===== verification/ExecLex.thy ===== *)
theory ExecLex
  imports Prelude
begin

text \<open>
  The strict lexer of \<open>internal/execpolicy\<close> (\<open>lexer.go\<close>) and the ANSI-C quoting decoder
  (\<open>ansic.go\<close>).  The byte loops walk the remaining input; the byte index is carried only
  where an error reports it.
\<close>

section \<open>Tokens and errors\<close>

datatype token_kind = Word | Pipe | AndIf | OrIf | Redirect

record token =
  tk_kind :: token_kind
  tk_text :: string

text \<open>
  The errors of the package, one constructor per message; \<open>Slice_panic\<close> stands for a Go
  slice expression out of range, which \<open>ExecList\<close> proves unreachable.
\<close>

datatype exec_error =
    Trailing_escape
  | Expansion_rejected nat
  | Standalone_amp
  | Unterminated_quote
  | Empty_command
  | Operator_without_segment
  | Redirect_before_executable
  | Redirect_missing_target string
  | Newline_rejected
  | Backtick_rejected
  | Unterminated_ansic
  | Command_subst_rejected
  | Subshell_rejected
  | Background_rejected
  | Heredoc_rejected
  | Process_subst_rejected
  | Ps_comment_rejected
  | Ps_subexpression_rejected
  | Ps_brace_variable_rejected
  | Ps_array_or_here_string_rejected
  | Ps_script_block_rejected
  | Ps_input_redirect_rejected
  | Ps_call_operator_rejected
  | Ps_stream_merge_unreadable string
  | Slice_panic

section \<open>The lexer\<close>

text \<open>\<open>forbiddenExpansionAt(raw, i)\<close> on the input from byte \<open>i\<close> on.\<close>

fun forbidden_expansion_at :: "string \<Rightarrow> bool" where
  "forbidden_expansion_at [] = False"
| "forbidden_expansion_at (c # rest) =
     (if c \<in> {CHR ''$'', btick, CHR ''*'', CHR ''?'', CHR ''[''} then True
      else if c = CHR ''%'' then index_byte rest (CHR ''%'') \<noteq> None
      else False)"

definition is_digits :: "string \<Rightarrow> bool" where
  "is_digits s \<longleftrightarrow> s \<noteq> [] \<and> list_all is_digit s"

text \<open>The closure \<open>flushWord\<close>: an empty word is not emitted.\<close>

definition flush_word :: "token list \<Rightarrow> string \<Rightarrow> token list" where
  "flush_word toks w = (if w \<noteq> [] then toks @ [\<lparr>tk_kind = Word, tk_text = w\<rparr>] else toks)"

text \<open>
  The operator that starts with the byte \<open>c\<close> (already consumed): a doubled byte, then an
  ampersand with the digits after it.  The result is the operator and the rest of the input.
\<close>

definition redirect_op :: "char \<Rightarrow> string \<Rightarrow> string \<times> string" where
  "redirect_op c rest =
     (let (op, r1) = (case rest of
                        d # r \<Rightarrow> if d = c then ([c, c], r) else ([c], rest)
                      | [] \<Rightarrow> ([c], rest))
      in case r1 of
           d # r \<Rightarrow> if d = CHR ''&''
                    then (op @ [CHR ''&''] @ takeWhile is_digit r, dropWhile is_digit r)
                    else (op, r1)
         | [] \<Rightarrow> (op, r1))"

lemma redirect_op_append: "redirect_op c rest = (op, r) \<Longrightarrow> c # rest = op @ r"
  by (auto simp: redirect_op_def Let_def split: list.splits if_splits prod.splits)

lemma redirect_op_ne: "redirect_op c rest = (op, r) \<Longrightarrow> op \<noteq> []"
  by (auto simp: redirect_op_def Let_def split: list.splits if_splits prod.splits)

lemma redirect_op_length: "redirect_op c rest = (op, r) \<Longrightarrow> length r \<le> length rest"
proof -
  assume a: "redirect_op c rest = (op, r)"
  from redirect_op_append [OF a] have "Suc (length rest) = length op + length r"
    by (metis length_Cons length_append)
  moreover from redirect_op_ne [OF a] have "0 < length op" by simp
  ultimately show ?thesis by linarith
qed

text \<open>
  The main loop of \<open>Lex\<close>.  \<open>q\<close> is the open quote, \<open>w\<close> the word being built, \<open>i\<close> the byte
  index of the head of the input.
\<close>

function lex_loop ::
    "char option \<Rightarrow> token list \<Rightarrow> string \<Rightarrow> nat \<Rightarrow> string \<Rightarrow> exec_error + token list" where
  "lex_loop (Some q) toks w i [] = Inl Unterminated_quote"
| "lex_loop None toks w i [] =
     (let toks' = flush_word toks w in if toks' = [] then Inl Empty_command else Inr toks')"
| "lex_loop (Some q) toks w i (c # rest) =
     (if c = q then lex_loop None toks w (i + 1) rest
      else if c = bslash \<and> q = dquote then
        (case rest of
           [] \<Rightarrow> Inl Trailing_escape
         | x # rest' \<Rightarrow> lex_loop (Some q) toks (w @ [x]) (i + 2) rest')
      else if forbidden_expansion_at (c # rest) then Inl (Expansion_rejected i)
      else lex_loop (Some q) toks (w @ [c]) (i + 1) rest)"
| "lex_loop None toks w i (c # rest) =
     (if is_space_byte c then lex_loop None (flush_word toks w) [] (i + 1) rest
      else if c = squote \<or> c = dquote then lex_loop (Some c) toks w (i + 1) rest
      else if c = bslash then
        (case rest of
           [] \<Rightarrow> Inl Trailing_escape
         | x # rest' \<Rightarrow> lex_loop None toks (w @ [x]) (i + 2) rest')
      else if c = CHR ''&'' then
        (case rest of
           [] \<Rightarrow> Inl Standalone_amp
         | x # rest' \<Rightarrow>
             if x = CHR ''&''
             then lex_loop None (flush_word toks w @ [\<lparr>tk_kind = AndIf, tk_text = ''&&''\<rparr>]) []
                    (i + 2) rest'
             else Inl Standalone_amp)
      else if c = CHR ''|'' then
        (case rest of
           [] \<Rightarrow> lex_loop None (flush_word toks w @ [\<lparr>tk_kind = Pipe, tk_text = ''|''\<rparr>]) []
                    (i + 1) rest
         | x # rest' \<Rightarrow>
             if x = CHR ''|''
             then lex_loop None (flush_word toks w @ [\<lparr>tk_kind = OrIf, tk_text = ''||''\<rparr>]) []
                    (i + 2) rest'
             else lex_loop None (flush_word toks w @ [\<lparr>tk_kind = Pipe, tk_text = ''|''\<rparr>]) []
                    (i + 1) rest)
      else if c = CHR ''>'' \<or> c = CHR ''<'' then
        lex_loop None
          ((if is_digits w then toks else flush_word toks w)
             @ [\<lparr>tk_kind = Redirect,
                 tk_text = (if is_digits w then w else []) @ fst (redirect_op c rest)\<rparr>])
          [] (i + length (fst (redirect_op c rest))) (snd (redirect_op c rest))
      else if forbidden_expansion_at (c # rest) then Inl (Expansion_rejected i)
      else lex_loop None toks (w @ [c]) (i + 1) rest)"
  by pat_completeness auto
termination
  by (relation "measure (\<lambda>(q, toks, w, i, s). length s)")
     (auto simp: less_Suc_eq_le intro: redirect_op_length [OF prod.collapse [symmetric]])

definition Lex :: "string \<Rightarrow> exec_error + token list" where
  "Lex raw = lex_loop None [] [] 0 raw"


section \<open>Accepting runs\<close>

text \<open>
  \<open>lexes q toks w s r\<close>: from the state (\<open>q\<close>, \<open>toks\<close>, \<open>w\<close>) the lexer accepts the input \<open>s\<close>
  with the tokens \<open>r\<close>.  One rule per branch of the loop that does not fail; it exists so that
  facts about accepted inputs are rule inductions.
\<close>

abbreviation lex_specials :: "char set" where
  "lex_specials \<equiv> {squote, dquote, bslash, CHR ''&'', CHR ''|'', CHR ''>'', CHR ''<''}"

inductive lexes :: "char option \<Rightarrow> token list \<Rightarrow> string \<Rightarrow> string \<Rightarrow> token list \<Rightarrow> bool" where
  stop: "flush_word toks w \<noteq> [] \<Longrightarrow> lexes None toks w [] (flush_word toks w)"
| close: "lexes None toks w s r \<Longrightarrow> lexes (Some q) toks w (q # s) r"
| quoted_escape: "lexes (Some dquote) toks (w @ [x]) s r \<Longrightarrow>
    lexes (Some dquote) toks w (bslash # x # s) r"
| quoted: "c \<noteq> q \<Longrightarrow> \<not> (c = bslash \<and> q = dquote) \<Longrightarrow> \<not> forbidden_expansion_at (c # s) \<Longrightarrow>
    lexes (Some q) toks (w @ [c]) s r \<Longrightarrow> lexes (Some q) toks w (c # s) r"
| space: "is_space_byte c \<Longrightarrow> lexes None (flush_word toks w) [] s r \<Longrightarrow>
    lexes None toks w (c # s) r"
| open_quote: "c = squote \<or> c = dquote \<Longrightarrow> lexes (Some c) toks w s r \<Longrightarrow>
    lexes None toks w (c # s) r"
| escape: "lexes None toks (w @ [x]) s r \<Longrightarrow> lexes None toks w (bslash # x # s) r"
| and_if: "lexes None (flush_word toks w @ [\<lparr>tk_kind = AndIf, tk_text = ''&&''\<rparr>]) [] s r \<Longrightarrow>
    lexes None toks w (CHR ''&'' # CHR ''&'' # s) r"
| or_if: "lexes None (flush_word toks w @ [\<lparr>tk_kind = OrIf, tk_text = ''||''\<rparr>]) [] s r \<Longrightarrow>
    lexes None toks w (CHR ''|'' # CHR ''|'' # s) r"
| pipe: "s = [] \<or> hd s \<noteq> CHR ''|'' \<Longrightarrow>
    lexes None (flush_word toks w @ [\<lparr>tk_kind = Pipe, tk_text = ''|''\<rparr>]) [] s r \<Longrightarrow>
    lexes None toks w (CHR ''|'' # s) r"
| redirect: "c = CHR ''>'' \<or> c = CHR ''<'' \<Longrightarrow>
    lexes None
      ((if is_digits w then toks else flush_word toks w)
         @ [\<lparr>tk_kind = Redirect,
             tk_text = (if is_digits w then w else []) @ fst (redirect_op c s)\<rparr>])
      [] (snd (redirect_op c s)) r \<Longrightarrow>
    lexes None toks w (c # s) r"
| plain: "\<not> is_space_byte c \<Longrightarrow> c \<notin> lex_specials \<Longrightarrow> \<not> forbidden_expansion_at (c # s) \<Longrightarrow>
    lexes None toks (w @ [c]) s r \<Longrightarrow> lexes None toks w (c # s) r"

lemma special_not_space [simp]:
  "\<not> is_space_byte squote" "\<not> is_space_byte dquote" "\<not> is_space_byte bslash"
  "\<not> is_space_byte (CHR ''&'')" "\<not> is_space_byte (CHR ''|'')" "\<not> is_space_byte (CHR ''>'')"
  "\<not> is_space_byte (CHR ''<'')"
  by (simp_all add: is_space_byte_def)

declare forbidden_expansion_at.simps(2) [simp del]

lemma lex_loop_lexes: "lex_loop q toks w i s = Inr r \<Longrightarrow> lexes q toks w s r"
proof (induction q toks w i s rule: lex_loop.induct)
  case (1 q toks w i)
  then show ?case by simp
next
  case (2 toks w i)
  then show ?case by (auto simp: Let_def intro: lexes.stop split: if_splits)
next
  case (3 q toks w i c rest)
  show ?case
  proof (cases "c = q")
    case True
    with 3 show ?thesis by (auto intro: lexes.close)
  next
    case nq: False
    show ?thesis
    proof (cases "c = bslash \<and> q = dquote")
      case True
      with 3 nq show ?thesis by (cases rest) (auto intro: lexes.quoted_escape)
    next
      case False
      with 3 nq show ?thesis by (auto intro!: lexes.quoted split: if_splits)
    qed
  qed
next
  case (4 toks w i c rest)
  consider (space) "is_space_byte c" | (quote) "c = squote \<or> c = dquote" | (esc) "c = bslash"
    | (amp) "c = CHR ''&''" | (bar) "c = CHR ''|''" | (redir) "c = CHR ''>'' \<or> c = CHR ''<''"
    | (plain) "\<not> is_space_byte c" "c \<notin> lex_specials"
    by blast
  then show ?case
  proof cases
    case space
    with "4.prems" "4.IH"(1) show ?thesis by (auto intro: lexes.space)
  next
    case quote
    then have "\<not> is_space_byte c" by auto
    with "4.prems" "4.IH"(2) quote show ?thesis by (auto intro: lexes.open_quote)
  next
    case esc
    with "4.prems" "4.IH"(3) show ?thesis by (cases rest) (auto intro: lexes.escape)
  next
    case amp
    with "4.prems" "4.IH"(4) show ?thesis
      by (cases rest) (auto intro: lexes.and_if split: if_splits)
  next
    case bar
    show ?thesis
    proof (cases "rest \<noteq> [] \<and> hd rest = CHR ''|''")
      case True
      then obtain s' where "rest = CHR ''|'' # s'" by (cases rest) auto
      with "4.prems" "4.IH"(6) bar show ?thesis by (simp add: lexes.or_if)
    next
      case False
      with "4.prems" "4.IH"(5,7) bar
      have "lexes None (flush_word toks w @ [\<lparr>tk_kind = Pipe, tk_text = ''|''\<rparr>]) [] rest r"
        by (cases rest) simp_all
      with False bar show ?thesis by (auto intro: lexes.pipe)
    qed
  next
    case redir
    then have "\<not> is_space_byte c" "\<not> (c = squote \<or> c = dquote)" "c \<noteq> bslash" "c \<noteq> CHR ''&''"
      "c \<noteq> CHR ''|''" by auto
    note branch = redir this
    show ?thesis
      using "4.prems" "4.IH"(8) branch
      by (intro lexes.redirect) (simp_all split del: if_split)
  next
    case plain
    with "4.prems" "4.IH"(9) show ?thesis by (auto intro!: lexes.plain split: if_splits)
  qed
qed

lemma Lex_lexes: "Lex raw = Inr r \<Longrightarrow> lexes None [] [] raw r"
  unfolding Lex_def by (rule lex_loop_lexes)

section \<open>What the lexer refuses\<close>

text \<open>The expansion and glob bytes, apart from the percent sign, which needs a partner.\<close>

definition expansion_bytes :: "char set" where
  "expansion_bytes = {CHR ''$'', btick, CHR ''*'', CHR ''?'', CHR ''[''}"

text \<open>Every expansion byte of the input directly follows a backslash (\<open>p\<close>: the byte before did).\<close>

fun escaped_only :: "bool \<Rightarrow> string \<Rightarrow> bool" where
  "escaped_only p [] = True"
| "escaped_only p (c # s) = ((c \<in> expansion_bytes \<longrightarrow> p) \<and> escaped_only (c = bslash) s)"

lemma escaped_only_weaken: "escaped_only False s \<Longrightarrow> escaped_only p s"
  by (cases s) auto

lemma forbidden_expansion_byte: "\<not> forbidden_expansion_at (c # s) \<Longrightarrow> c \<notin> expansion_bytes"
  by (auto simp add: expansion_bytes_def forbidden_expansion_at.simps)

lemma special_not_expansion: "c \<in> lex_specials \<Longrightarrow> c \<notin> expansion_bytes"
  by (auto simp: expansion_bytes_def)

lemma space_not_expansion: "is_space_byte c \<Longrightarrow> c \<notin> expansion_bytes"
  by (auto simp: is_space_byte_def expansion_bytes_def)

lemma digit_not_expansion: "is_digit c \<Longrightarrow> c \<notin> expansion_bytes"
  by (auto simp: is_digit_def expansion_bytes_def)

lemma escaped_only_append:
  "\<forall>c \<in> set u. c \<notin> expansion_bytes \<Longrightarrow> escaped_only False s \<Longrightarrow> escaped_only p (u @ s)"
  by (induction u arbitrary: p) (auto intro: escaped_only_weaken)

lemma escaped_only_cons:
  "c \<notin> expansion_bytes \<Longrightarrow> escaped_only False s \<Longrightarrow> escaped_only p (c # s)"
  by (simp add: escaped_only_weaken)

lemma redirect_op_bytes:
  "redirect_op c rest = (op, r) \<Longrightarrow> d \<in> set op \<Longrightarrow> d = c \<or> d = CHR ''&'' \<or> is_digit d"
  by (auto simp: redirect_op_def Let_def dest: set_takeWhileD split: list.splits if_splits)

lemma escaped_only_redirect:
  assumes "escaped_only False (snd (redirect_op c rest))" "c \<in> lex_specials"
  shows "escaped_only p (c # rest)"
proof -
  obtain op r where o: "redirect_op c rest = (op, r)" by fastforce
  with assms(1) have r: "escaped_only False r" by simp
  have "\<forall>d \<in> set op. d \<notin> expansion_bytes"
    using redirect_op_bytes [OF o] special_not_expansion [OF assms(2)] digit_not_expansion
      special_not_expansion [of "CHR ''&''"] by blast
  then show ?thesis
    unfolding redirect_op_append [OF o] by (rule escaped_only_append [OF _ r])
qed

lemma lexes_escaped_only:
  "lexes q toks w s r \<Longrightarrow> (\<forall>c. q = Some c \<longrightarrow> c = squote \<or> c = dquote) \<Longrightarrow> escaped_only False s"
proof (induction rule: lexes.induct)
  case (redirect c s w toks r)
  then show ?case by (intro escaped_only_redirect) auto
next
  case (plain c s toks w r)
  then show ?case by (simp add: escaped_only_cons forbidden_expansion_byte)
next
  case (space c toks w s r)
  then show ?case by (intro escaped_only_cons) (auto dest: space_not_expansion)
next
  case (quoted c q s toks w r)
  then show ?case by (intro escaped_only_cons) (auto dest: forbidden_expansion_byte)
next
  case (close toks w s r q)
  then have "q \<notin> expansion_bytes" by (auto simp: special_not_expansion)
  with close show ?case by (intro escaped_only_cons) auto
next
  case (open_quote c toks w s r)
  then have "c \<notin> expansion_bytes" by (auto simp: special_not_expansion)
  with open_quote show ?case by (intro escaped_only_cons) auto
qed (simp_all add: escaped_only_weaken special_not_expansion)

lemma escaped_only_at:
  "escaped_only p (u @ c # v) \<Longrightarrow> c \<in> expansion_bytes \<Longrightarrow> (if u = [] then p else last u = bslash)"
  by (induction u arbitrary: p) auto

text \<open>
  Wherever the accepted input has one of the bytes \<open>$\<close>, backtick, \<open>*\<close>, \<open>?\<close> and \<open>[\<close>, quoted
  or not, the byte before it is a backslash: no shell expansion or glob reaches the rule
  engine unless it was written as a literal.
\<close>

theorem Lex_expansion_escaped:
  assumes "Lex raw = Inr toks" "raw = u @ c # v" "c \<in> {CHR ''$'', btick, CHR ''*'', CHR ''?'', CHR ''[''}"
  shows "u \<noteq> [] \<and> last u = bslash"
proof -
  from assms(1) have "escaped_only False raw"
    by (intro lexes_escaped_only [OF Lex_lexes]) auto
  then show ?thesis
    using escaped_only_at [of False u c v] assms(2,3) by (auto simp: expansion_bytes_def split: if_splits)
qed

theorem Lex_expansion_escaped_witness:
  "Lex (''echo '' @ [bslash] @ ''$HOME'')
     = Inr [\<lparr>tk_kind = Word, tk_text = ''echo''\<rparr>, \<lparr>tk_kind = Word, tk_text = ''$HOME''\<rparr>]
   \<and> last (''echo '' @ [bslash]) = bslash"
proof -
  have l: "Lex (''echo '' @ [bslash] @ ''$HOME'')
     = Inr [\<lparr>tk_kind = Word, tk_text = ''echo''\<rparr>, \<lparr>tk_kind = Word, tk_text = ''$HOME''\<rparr>]"
    by code_simp
  from l Lex_expansion_escaped [OF l, of "''echo '' @ [bslash]" "CHR ''$''" "''HOME''"]
  show ?thesis by simp
qed

section \<open>Token shapes\<close>

definition token_ok :: "token \<Rightarrow> bool" where
  "token_ok t = (case tk_kind t of
       Word \<Rightarrow> tk_text t \<noteq> []
     | Pipe \<Rightarrow> tk_text t = ''|''
     | AndIf \<Rightarrow> tk_text t = ''&&''
     | OrIf \<Rightarrow> tk_text t = ''||''
     | Redirect \<Rightarrow> (case dropWhile is_digit (tk_text t) of
                      [] \<Rightarrow> False | c # _ \<Rightarrow> c = CHR ''<'' \<or> c = CHR ''>''))"

lemma flush_word_ok: "list_all token_ok toks \<Longrightarrow> list_all token_ok (flush_word toks w)"
  by (simp add: flush_word_def token_ok_def)

lemma redirect_op_head: "\<exists>t. fst (redirect_op c s) = c # t"
  by (auto simp: redirect_op_def Let_def split: list.splits)

lemma not_digit_angle [simp]: "\<not> is_digit (CHR ''<'')" "\<not> is_digit (CHR ''>'')"
  by (simp_all add: is_digit_def)

lemma redirect_token_ok:
  assumes "c = CHR ''>'' \<or> c = CHR ''<''"
  shows "token_ok \<lparr>tk_kind = Redirect, tk_text = (if is_digits w then w else []) @ fst (redirect_op c s)\<rparr>"
proof -
  obtain t where t: "fst (redirect_op c s) = c # t" using redirect_op_head by blast
  have "dropWhile is_digit w = []" if "is_digits w"
    using that by (simp add: is_digits_def list_all_iff)
  with assms t show ?thesis
    by (auto simp: token_ok_def is_digits_def list_all_iff dropWhile_append)
qed

lemma lexes_token_ok: "lexes q toks w s r \<Longrightarrow> list_all token_ok toks \<Longrightarrow> list_all token_ok r"
proof (induction rule: lexes.induct)
  case (redirect c w toks s r)
  then have "list_all token_ok (if is_digits w then toks else flush_word toks w)"
    by (simp add: flush_word_ok)
  with redirect redirect_token_ok [of c w s] show ?case by simp
qed (simp_all add: flush_word_ok token_ok_def)

lemma lexes_nonempty: "lexes q toks w s r \<Longrightarrow> r \<noteq> []"
  by (induction rule: lexes.induct) simp_all

text \<open>
  The lexer's output is never empty and every token is well formed: a word has at least
  one byte, a control operator has its own spelling, and a redirection is a run of digits
  followed by an angle bracket.
\<close>

theorem Lex_token_ok: "Lex raw = Inr toks \<Longrightarrow> toks \<noteq> [] \<and> list_all token_ok toks"
  using lexes_nonempty [OF Lex_lexes] lexes_token_ok [OF Lex_lexes] by simp

section \<open>Quoting words and lexing them back\<close>

definition quote_word :: "string \<Rightarrow> string" where
  "quote_word w = squote # w @ [squote]"

fun quote_words :: "string list \<Rightarrow> string" where
  "quote_words [] = []"
| "quote_words [w] = quote_word w"
| "quote_words (w # ws) = quote_word w @ CHR '' '' # quote_words ws"

definition word_safe :: "string \<Rightarrow> bool" where
  "word_safe w \<longleftrightarrow> w \<noteq> [] \<and> set w \<inter> (expansion_bytes \<union> {CHR ''%'', squote}) = {}"

definition word_token :: "string \<Rightarrow> token" where
  "word_token w = \<lparr>tk_kind = Word, tk_text = w\<rparr>"

lemma lex_in_squote:
  "set w \<inter> (expansion_bytes \<union> {CHR ''%'', squote}) = {} \<Longrightarrow>
   lex_loop (Some squote) toks v i (w @ squote # s) = lex_loop None toks (v @ w) (i + length w + 1) s"
proof (induction w arbitrary: v i)
  case Nil
  then show ?case by simp
next
  case (Cons c w)
  then have "\<not> forbidden_expansion_at (c # w @ squote # s)" "c \<noteq> squote"
    by (auto simp: forbidden_expansion_at.simps expansion_bytes_def)
  with Cons show ?case by (simp add: ac_simps)
qed

lemma lex_quote_word:
  "word_safe w \<Longrightarrow> lex_loop None toks [] i (quote_word w @ s) = lex_loop None toks w (i + length w + 2) s"
  using lex_in_squote [of w toks "[]" "Suc i" s]
  by (auto simp: quote_word_def word_safe_def)

lemma flush_word_token: "w \<noteq> [] \<Longrightarrow> flush_word toks w = toks @ [word_token w]"
  by (simp add: flush_word_def word_token_def)

lemma space_is_space [simp]: "is_space_byte (CHR '' '')"
  by (simp add: is_space_byte_def)

lemma lex_quote_words:
  "ws \<noteq> [] \<Longrightarrow> \<forall>w \<in> set ws. word_safe w \<Longrightarrow>
   lex_loop None toks [] i (quote_words ws) = Inr (toks @ map word_token ws)"
proof (induction ws arbitrary: toks i rule: quote_words.induct)
  case 1
  then show ?case by simp
next
  case (2 w)
  then have "w \<noteq> []" by (simp add: word_safe_def)
  with 2 lex_quote_word [of w toks i "[]"] show ?case by (simp add: flush_word_token)
next
  case (3 w v vs)
  then have "w \<noteq> []" by (simp add: word_safe_def)
  with 3 lex_quote_word [of w toks i "CHR '' '' # quote_words (v # vs)"] show ?case
    by (simp add: flush_word_token)
qed

text \<open>
  Quoting is inverted: words without expansion bytes, percent signs and single quotes,
  each put between single quotes and joined by spaces, lex back to exactly those words.
\<close>

theorem Lex_quote_words:
  "ws \<noteq> [] \<Longrightarrow> \<forall>w \<in> set ws. word_safe w \<Longrightarrow> Lex (quote_words ws) = Inr (map word_token ws)"
  by (simp add: Lex_def lex_quote_words)

theorem Lex_token_ok_witness:
  "token_ok \<lparr>tk_kind = Redirect, tk_text = ''2>>''\<rparr>
   \<and> Lex ''go 2>>x'' = Inr [word_token ''go'', \<lparr>tk_kind = Redirect, tk_text = ''2>>''\<rparr>, word_token ''x'']"
proof -
  have l: "Lex ''go 2>>x''
      = Inr [word_token ''go'', \<lparr>tk_kind = Redirect, tk_text = ''2>>''\<rparr>, word_token ''x'']"
    by code_simp
  from l Lex_token_ok [OF l] show ?thesis by simp
qed

theorem Lex_quote_words_witness:
  "Lex (quote_words [''rm'', ''a b'']) = Inr [word_token ''rm'', word_token ''a b'']"
proof -
  have "word_safe ''rm''" "word_safe ''a b''" by code_simp+
  then show ?thesis using Lex_quote_words [of "[''rm'', ''a b'']"] by simp
qed

end
