(* ===== verification/ExecParse.thy ===== *)
theory ExecParse
  imports ExecLex
begin

text \<open>
  The structured command parser of \<open>internal/execpolicy/parser.go\<close>: the strict lexer's
  tokens become segments (program, arguments, redirections) joined by pipes.
\<close>

section \<open>Data\<close>

record redirect_spec =
  rd_operator :: string
  rd_target :: string

record segment =
  seg_program :: string
  seg_args :: "string list"
  seg_redirects :: "redirect_spec list"
  seg_text :: string

record command =
  cmd_segments :: "segment list"
  cmd_control :: token_kind

text \<open>The zero values \<open>Segment{}\<close> and \<open>Command{}\<close>; the zero \<open>TokenKind\<close> is \<open>Word\<close>.\<close>

definition empty_segment :: segment where
  "empty_segment = \<lparr>seg_program = [], seg_args = [], seg_redirects = [], seg_text = []\<rparr>"

section \<open>Program names\<close>

definition normalize_program :: "string \<Rightarrow> string" where
  "normalize_program raw =
     trim_suffix ''.exe'' (to_lower (path_base (replace_byte bslash (CHR ''/'') raw)))"

section \<open>The parser\<close>

text \<open>The closure \<open>flushSegment\<close> on the accumulated segments.\<close>

definition flush_segment :: "segment list \<Rightarrow> segment \<Rightarrow> exec_error + segment list" where
  "flush_segment segs seg =
     (if seg_program seg = [] then Inl Operator_without_segment else Inr (segs @ [seg]))"

definition add_redirect :: "segment \<Rightarrow> string \<Rightarrow> string \<Rightarrow> segment" where
  "add_redirect seg op target =
     seg\<lparr>seg_redirects := seg_redirects seg @ [\<lparr>rd_operator = op, rd_target = target\<rparr>]\<rparr>"

fun parse_loop ::
    "segment list \<Rightarrow> segment \<Rightarrow> token_kind \<Rightarrow> token list \<Rightarrow> exec_error + command" where
  "parse_loop segs seg ctl [] =
     (case flush_segment segs seg of
        Inl e \<Rightarrow> Inl e
      | Inr segs' \<Rightarrow> Inr \<lparr>cmd_segments = segs', cmd_control = ctl\<rparr>)"
| "parse_loop segs seg ctl (tok # toks) =
     (case tk_kind tok of
        Word \<Rightarrow>
          if seg_program seg = []
          then parse_loop segs (seg\<lparr>seg_program := normalize_program (tk_text tok)\<rparr>) ctl toks
          else parse_loop segs (seg\<lparr>seg_args := seg_args seg @ [tk_text tok]\<rparr>) ctl toks
      | Redirect \<Rightarrow>
          if seg_program seg = [] then Inl Redirect_before_executable
          else if contains (tk_text tok) ''&''
          then parse_loop segs (add_redirect seg (tk_text tok) []) ctl toks
          else (case toks of
                  [] \<Rightarrow> Inl (Redirect_missing_target (tk_text tok))
                | t # toks' \<Rightarrow>
                    if tk_kind t \<noteq> Word then Inl (Redirect_missing_target (tk_text tok))
                    else parse_loop segs (add_redirect seg (tk_text tok) (tk_text t)) ctl toks')
      | Pipe \<Rightarrow>
          (case flush_segment segs seg of
             Inl e \<Rightarrow> Inl e
           | Inr segs' \<Rightarrow> parse_loop segs' empty_segment ctl toks)
      | _ \<Rightarrow>
          (case flush_segment segs seg of
             Inl e \<Rightarrow> Inl e
           | Inr segs' \<Rightarrow> parse_loop segs' empty_segment (tk_kind tok) toks))"

definition Parse :: "string \<Rightarrow> exec_error + command" where
  "Parse raw =
     (case Lex raw of
        Inl e \<Rightarrow> Inl e
      | Inr toks \<Rightarrow> parse_loop [] empty_segment Word toks)"

section \<open>What a parsed command satisfies\<close>

text \<open>
  A segment under construction: its program, once there is one, is a word of the command with
  directories, case and the suffix \<open>.exe\<close> taken off; a redirection without a target has an
  operator with an ampersand; the verbatim text, which only the list readers fill, is empty.
\<close>

definition redirects_ok :: "segment \<Rightarrow> bool" where
  "redirects_ok seg \<longleftrightarrow> seg_text seg = []
     \<and> (seg_program seg \<noteq> [] \<longrightarrow> (\<exists>w. seg_program seg = normalize_program w))
     \<and> (\<forall>rd \<in> set (seg_redirects seg). rd_target rd = [] \<longrightarrow> contains (rd_operator rd) ''&'')"

definition segment_ok :: "segment \<Rightarrow> bool" where
  "segment_ok seg \<longleftrightarrow> seg_program seg \<noteq> [] \<and> redirects_ok seg"

lemma flush_segment_Inr:
  "flush_segment segs seg = Inr segs' \<longleftrightarrow> seg_program seg \<noteq> [] \<and> segs' = segs @ [seg]"
  by (auto simp: flush_segment_def)

lemma redirects_ok_simps [simp]:
  "redirects_ok empty_segment"
  "redirects_ok seg \<Longrightarrow> redirects_ok (seg\<lparr>seg_program := normalize_program w\<rparr>)"
  "redirects_ok (seg\<lparr>seg_args := as\<rparr>) = redirects_ok seg"
  "redirects_ok (add_redirect seg op t) \<longleftrightarrow> redirects_ok seg \<and> (t = [] \<longrightarrow> contains op ''&'')"
  by (auto simp: redirects_ok_def empty_segment_def add_redirect_def)

lemma parse_loop_ok:
  "parse_loop segs seg ctl toks = Inr cmd \<Longrightarrow> list_all token_ok toks \<Longrightarrow>
   \<forall>s \<in> set segs. segment_ok s \<Longrightarrow> redirects_ok seg \<Longrightarrow> ctl \<in> {AndIf, OrIf, Word} \<Longrightarrow>
   cmd_control cmd \<in> {AndIf, OrIf, Word} \<and> cmd_segments cmd \<noteq> [] \<and> (\<forall>s \<in> set (cmd_segments cmd). segment_ok s)"
proof (induction segs seg ctl toks rule: parse_loop.induct)
  case (1 segs seg ctl)
  then show ?case by (auto simp: flush_segment_Inr segment_ok_def split: sum.splits)
next
  case (2 segs seg ctl tok toks)
  have toks: "list_all token_ok toks" using "2.prems"(2) by simp
  show ?case
  proof (cases "tk_kind tok")
    case Word
    show ?thesis
    proof (cases "seg_program seg = []")
      case True
      with Word "2.prems" "2.IH"(1) toks show ?thesis by simp
    next
      case False
      with Word "2.prems" "2.IH"(2) toks show ?thesis by simp
    qed
  next
    case Redirect
    show ?thesis
    proof (cases "contains (tk_text tok) ''&''")
      case True
      then have "seg_program seg \<noteq> []" using Redirect "2.prems"(1) by (cases "seg_program seg = []") auto
      moreover from this have "parse_loop segs (add_redirect seg (tk_text tok) []) ctl toks = Inr cmd"
        using True Redirect "2.prems"(1) by simp
      moreover have "redirects_ok (add_redirect seg (tk_text tok) [])" using True "2.prems"(4) by simp
      ultimately show ?thesis using True Redirect "2.prems"(3,5) "2.IH"(6) toks by blast
    next
      case False
      with Redirect "2.prems"(1) obtain t toks' where t: "toks = t # toks'" "tk_kind t = Word"
        "seg_program seg \<noteq> []"
        by (cases toks) (auto split: if_splits)
      then have "tk_text t \<noteq> []" using "2.prems"(2) by (simp add: token_ok_def)
      with t Redirect False "2.prems" "2.IH"(7) show ?thesis by simp
    qed
  next
    case Pipe
    with "2.prems"(1) have f: "flush_segment segs seg = Inr (segs @ [seg])"
      and p: "seg_program seg \<noteq> []"
      by (auto simp: flush_segment_def split: if_splits)
    with Pipe "2.prems" "2.IH"(3) toks show ?thesis by (simp add: segment_ok_def)
  next
    case AndIf
    with "2.prems"(1) have f: "flush_segment segs seg = Inr (segs @ [seg])"
      and p: "seg_program seg \<noteq> []"
      by (auto simp: flush_segment_def split: if_splits)
    with AndIf "2.prems" "2.IH"(4) toks show ?thesis by (simp add: segment_ok_def)
  next
    case OrIf
    with "2.prems"(1) have f: "flush_segment segs seg = Inr (segs @ [seg])"
      and p: "seg_program seg \<noteq> []"
      by (auto simp: flush_segment_def split: if_splits)
    with OrIf "2.prems" "2.IH"(5) toks show ?thesis by (simp add: segment_ok_def)
  qed
qed

text \<open>
  C39: A parsed command has at least one segment.  Every segment has a program, which is a word
  with directories, case and the suffix \<open>.exe\<close> taken off, and no verbatim text; a redirection
  without a target has an operator with an ampersand in it.  The control token is one of \<open>&&\<close> and
  \<open>||\<close>, or the zero value.
\<close>

theorem Parse_ok:
  assumes "Parse raw = Inr cmd"
  shows "cmd_segments cmd \<noteq> [] \<and> cmd_control cmd \<in> {AndIf, OrIf, Word}
     \<and> (\<forall>seg \<in> set (cmd_segments cmd). seg_program seg \<noteq> []
       \<and> (\<exists>w. seg_program seg = normalize_program w) \<and> seg_text seg = []
       \<and> (\<forall>rd \<in> set (seg_redirects seg). rd_target rd = [] \<longrightarrow> contains (rd_operator rd) ''&''))"
proof -
  from assms obtain toks where l: "Lex raw = Inr toks" and p: "parse_loop [] empty_segment Word toks = Inr cmd"
    by (auto simp: Parse_def split: sum.splits)
  have "cmd_control cmd \<in> {AndIf, OrIf, Word} \<and> cmd_segments cmd \<noteq> [] \<and> (\<forall>s \<in> set (cmd_segments cmd). segment_ok s)"
    by (rule parse_loop_ok [OF p lexes_token_ok [OF Lex_lexes [OF l]]]) simp_all
  then show ?thesis by (auto simp: segment_ok_def redirects_ok_def)
qed

theorem Parse_ok_witness:
  "\<exists>cmd. Parse ''cat <a 2>&1 | wc'' = Inr cmd \<and> length (cmd_segments cmd) = 2
     \<and> cmd_control cmd \<in> {AndIf, OrIf, Word}
     \<and> (\<forall>seg \<in> set (cmd_segments cmd). seg_program seg \<noteq> [])"
proof -
  let ?cmd = "\<lparr>cmd_segments =
       [\<lparr>seg_program = ''cat'', seg_args = [],
         seg_redirects = [\<lparr>rd_operator = ''<'', rd_target = ''a''\<rparr>, \<lparr>rd_operator = ''2>&1'', rd_target = []\<rparr>],
         seg_text = []\<rparr>,
        \<lparr>seg_program = ''wc'', seg_args = [], seg_redirects = [], seg_text = []\<rparr>],
       cmd_control = Word\<rparr>"
  have p: "Parse ''cat <a 2>&1 | wc'' = Inr ?cmd" by code_simp
  from Parse_ok [OF p] p show ?thesis by (intro exI [of _ ?cmd]) simp
qed

section \<open>Simple commands\<close>

definition simple_command :: "string \<Rightarrow> string list \<Rightarrow> command" where
  "simple_command p args =
     \<lparr>cmd_segments = [\<lparr>seg_program = normalize_program p, seg_args = args,
                      seg_redirects = [], seg_text = []\<rparr>],
      cmd_control = Word\<rparr>"

lemma word_token_simps [simp]: "tk_kind (word_token w) = Word" "tk_text (word_token w) = w"
  by (simp_all add: word_token_def)

lemma parse_loop_words:
  "seg_program seg \<noteq> [] \<Longrightarrow> parse_loop segs seg ctl (map word_token ws)
     = Inr \<lparr>cmd_segments = segs @ [seg\<lparr>seg_args := seg_args seg @ ws\<rparr>], cmd_control = ctl\<rparr>"
  by (induction ws arbitrary: seg) (simp_all add: flush_segment_def)

lemma Parse_quoted:
  "ws \<noteq> [] \<Longrightarrow> \<forall>w \<in> set ws. word_safe w \<Longrightarrow>
   Parse (quote_words ws) = parse_loop [] empty_segment Word (map word_token ws)"
  by (simp add: Parse_def Lex_def lex_quote_words)

text \<open>
  A command written as quoted words parses to one segment with the normalised first word
  as its program and the other words, unchanged, as its arguments.
\<close>

theorem Parse_simple_command:
  assumes "normalize_program p \<noteq> []" "\<forall>w \<in> set (p # args). word_safe w"
  shows "Parse (quote_words (p # args)) = Inr (simple_command p args)"
proof -
  have "Parse (quote_words (p # args)) = parse_loop [] empty_segment Word (map word_token (p # args))"
    by (rule Parse_quoted) (use assms(2) in auto)
  then show ?thesis
    using assms(1) parse_loop_words [of "empty_segment\<lparr>seg_program := normalize_program p\<rparr>" "[]" Word args]
    by (simp add: empty_segment_def simple_command_def)
qed

theorem Parse_simple_command_witness:
  "Parse (quote_words [''/usr/bin/GO.exe'', ''test'', ''./...'']) = Inr (simple_command ''go'' [''test'', ''./...''])"
proof -
  have n: "normalize_program ''/usr/bin/GO.exe'' = ''go''" "normalize_program ''go'' = ''go''" by code_simp+
  have "word_safe ''/usr/bin/GO.exe''" "word_safe ''test''" "word_safe ''./...''" by code_simp+
  then show ?thesis
    using Parse_simple_command [of "''/usr/bin/GO.exe''" "[''test'', ''./...'']"] n
    by (simp add: simple_command_def)
qed

text \<open>
  The strict parser has no target for \<open>>&word\<close> either: the word becomes an argument, although a
  shell writes the file it names.
\<close>

theorem dup_to_word_is_argument:
  "Parse ''go test >&out'' = Inr \<lparr>cmd_segments =
     [\<lparr>seg_program = ''go'', seg_args = [''test'', ''out''],
       seg_redirects = [\<lparr>rd_operator = ''>&'', rd_target = []\<rparr>], seg_text = []\<rparr>], cmd_control = Word\<rparr>"
  by code_simp

text \<open>
  A first word whose normalised name is empty is dropped: the command is read as if its
  second word were the program, although a shell runs the first.  Every path that ends in
  \<open>/.exe\<close> is such a word.
\<close>

theorem Parse_drops_nameless_program:
  assumes "normalize_program w = []" "word_safe w" "ws \<noteq> []" "\<forall>v \<in> set ws. word_safe v"
  shows "Parse (quote_words (w # ws)) = Parse (quote_words ws)"
  using assms by (simp add: Parse_quoted empty_segment_def)

theorem Parse_drops_nameless_program_witness:
  "normalize_program ''/tmp/.exe'' = []
   \<and> Parse (quote_words [''/tmp/.exe'', ''go'', ''test'']) = Inr (simple_command ''go'' [''test''])"
proof -
  have n: "normalize_program ''/tmp/.exe'' = []" by code_simp
  have "word_safe ''/tmp/.exe''" "word_safe ''go''" "word_safe ''test''" by code_simp+
  moreover have "Parse (quote_words [''go'', ''test'']) = Inr (simple_command ''go'' [''test''])" by code_simp
  ultimately show ?thesis
    using Parse_drops_nameless_program [OF n, of "[''go'', ''test'']"] n by simp
qed

end
