(* ===== verification/ExecPolicy.thy ===== *)
theory ExecPolicy
  imports ExecParse
begin

text \<open>
  The rule engine of \<open>internal/execpolicy/policy.go\<close>: \<open>Evaluate\<close> maps a parsed command and
  a rule table to a verdict.  The two nested loops with their early returns are two recursive
  functions; an early return is the left summand.
\<close>

section \<open>Data\<close>

record rule =
  ru_id :: string
  ru_program :: string
  ru_prefix :: "string list"
  ru_decision :: string
  ru_deny_flags :: "string list"
  ru_justification :: string

record policy_result =
  pr_verdict :: string
  pr_rule_id :: string
  pr_justification :: string
  pr_matched_prefix :: "string list"
  pr_reason :: string

text \<open>The zero value \<open>Result{}\<close>, which the code tells from a set one by its empty rule id.\<close>

definition empty_result :: policy_result where
  "empty_result = \<lparr>pr_verdict = [], pr_rule_id = [], pr_justification = [],
                   pr_matched_prefix = [], pr_reason = []\<rparr>"

definition hard :: "string \<Rightarrow> string \<Rightarrow> string \<Rightarrow> policy_result" where
  "hard rid reason just =
     \<lparr>pr_verdict = ''hard_deny'', pr_rule_id = rid, pr_justification = just,
      pr_matched_prefix = [], pr_reason = reason\<rparr>"

section \<open>Matching\<close>

fun has_prefix_args :: "string list \<Rightarrow> string list \<Rightarrow> bool" where
  "has_prefix_args args [] = True"
| "has_prefix_args [] (p # ps) = False"
| "has_prefix_args (a # args) (p # ps) = (a = p \<and> has_prefix_args args ps)"

text \<open>
  The inner loop of \<open>containsAny\<close> for one flag, already cut into \<open>name\<close>, \<open>want\<close> and
  \<open>hasValue\<close>.  The head of the remaining list is \<open>args[i+1]\<close>.
\<close>

fun flag_matches :: "string \<Rightarrow> string \<Rightarrow> bool \<Rightarrow> string list \<Rightarrow> bool" where
  "flag_matches name want has_value [] = False"
| "flag_matches name want has_value (arg # args) =
     (case cut (trim_left_byte (CHR ''-'') arg) (CHR ''='') of
        (arg_name, arg_val, arg_has_value) \<Rightarrow>
          if arg_name \<noteq> trim_left_byte (CHR ''-'') name then flag_matches name want has_value args
          else if \<not> has_value then True
          else if \<not> arg_has_value \<and> args = [] then flag_matches name want has_value args
          else
            let v = (if arg_has_value then arg_val else hd args)
            in if \<exists>part \<in> set (split_byte v (CHR '','')). trim_space part = want then True
               else flag_matches name want has_value args)"

definition contains_any :: "string list \<Rightarrow> string list \<Rightarrow> bool" where
  "contains_any args flags \<longleftrightarrow>
     (\<exists>flag \<in> set flags.
        case cut flag (CHR ''='') of (name, want, has_value) \<Rightarrow>
          flag_matches name want has_value args)"

section \<open>Evaluation\<close>

definition rule_applies :: "rule \<Rightarrow> segment \<Rightarrow> bool" where
  "rule_applies r seg \<longleftrightarrow>
     normalize_program (ru_program r) = seg_program seg
     \<and> has_prefix_args (seg_args seg) (ru_prefix r)"

definition candidate_result :: "segment \<Rightarrow> rule \<Rightarrow> policy_result" where
  "candidate_result seg r =
     \<lparr>pr_verdict = to_lower (ru_decision r), pr_rule_id = ru_id r,
      pr_justification = ru_justification r,
      pr_matched_prefix = seg_program seg # ru_prefix r, pr_reason = ru_justification r\<rparr>"

text \<open>Whether the code replaces \<open>old\<close> by \<open>new\<close>: nothing recorded yet, or prompt over allow.\<close>

definition supersedes :: "policy_result \<Rightarrow> policy_result \<Rightarrow> bool" where
  "supersedes new old \<longleftrightarrow>
     pr_rule_id old = [] \<or> (pr_verdict new = ''prompt'' \<and> pr_verdict old = ''allow'')"

fun eval_rules ::
    "segment \<Rightarrow> bool \<Rightarrow> policy_result \<Rightarrow> rule list \<Rightarrow> policy_result + (bool \<times> policy_result)" where
  "eval_rules seg matched best [] = Inr (matched, best)"
| "eval_rules seg matched best (r # rs) =
     (if \<not> rule_applies r seg then eval_rules seg matched best rs
      else
        let decision = to_lower (ru_decision r) in
        if decision = ''deny'' then
          (if \<not> contains_any (seg_args seg) (ru_deny_flags r)
           then eval_rules seg matched best rs
           else Inl (hard (ru_id r) ''deny flag matched'' (ru_justification r)))
        else if decision \<noteq> ''allow'' \<and> decision \<noteq> ''prompt''
        then Inl (hard (ru_id r) ''unknown execpolicy verdict'' (ru_justification r))
        else
          let cand = candidate_result seg r in
          eval_rules seg True (if supersedes cand best then cand else best) rs)"

fun eval_segments :: "rule list \<Rightarrow> policy_result \<Rightarrow> segment list \<Rightarrow> policy_result" where
  "eval_segments rules overall [] = overall"
| "eval_segments rules overall (seg # segs) =
     (case eval_rules seg False empty_result rules of
        Inl res \<Rightarrow> res
      | Inr (matched, best) \<Rightarrow>
          if \<not> matched
          then hard ''unmatched-segment''
                 ''an executable segment has no matching allow/prompt rule'' []
          else eval_segments rules (if supersedes best overall then best else overall) segs)"

definition Evaluate :: "command \<Rightarrow> rule list \<Rightarrow> policy_result" where
  "Evaluate cmd rules =
     (if cmd_segments cmd = [] then hard ''empty-command'' ''no executable segment'' []
      else if cmd_control cmd = AndIf \<or> cmd_control cmd = OrIf
      then hard ''control-token'' ''&&/|| are parsed but not executable in A1'' []
      else eval_segments rules empty_result (cmd_segments cmd))"

section \<open>An order-free specification of the verdict\<close>

definition rule_decides :: "string \<Rightarrow> segment \<Rightarrow> rule \<Rightarrow> bool" where
  "rule_decides d seg r \<longleftrightarrow> rule_applies r seg \<and> to_lower (ru_decision r) = d"

text \<open>A rule that stops the evaluation: a deny rule whose flag is present, or an unknown decision.\<close>

definition rule_blocks :: "segment \<Rightarrow> rule \<Rightarrow> bool" where
  "rule_blocks seg r \<longleftrightarrow>
     (rule_decides ''deny'' seg r \<and> contains_any (seg_args seg) (ru_deny_flags r))
     \<or> (rule_applies r seg \<and> to_lower (ru_decision r) \<notin> {''deny'', ''allow'', ''prompt''})"

definition rule_admits :: "segment \<Rightarrow> rule \<Rightarrow> bool" where
  "rule_admits seg r \<longleftrightarrow> rule_decides ''allow'' seg r \<or> rule_decides ''prompt'' seg r"

definition segment_denied :: "rule list \<Rightarrow> segment \<Rightarrow> bool" where
  "segment_denied rules seg \<longleftrightarrow>
     (\<exists>r \<in> set rules. rule_blocks seg r) \<or> (\<forall>r \<in> set rules. \<not> rule_admits seg r)"

definition segment_prompts :: "rule list \<Rightarrow> segment \<Rightarrow> bool" where
  "segment_prompts rules seg \<longleftrightarrow> (\<exists>r \<in> set rules. rule_decides ''prompt'' seg r)"

definition verdict_spec :: "command \<Rightarrow> rule list \<Rightarrow> string" where
  "verdict_spec cmd rules =
     (if cmd_segments cmd = [] \<or> cmd_control cmd \<in> {AndIf, OrIf}
         \<or> (\<exists>seg \<in> set (cmd_segments cmd). segment_denied rules seg) then ''hard_deny''
      else if \<exists>seg \<in> set (cmd_segments cmd). segment_prompts rules seg then ''prompt''
      else ''allow'')"

lemma hard_verdict [simp]: "pr_verdict (hard a b c) = ''hard_deny''"
  by (simp add: hard_def)

lemma candidate_verdict [simp]:
  "pr_verdict (candidate_result seg r) = to_lower (ru_decision r)"
  "pr_rule_id (candidate_result seg r) = ru_id r"
  by (simp_all add: candidate_result_def)

lemmas rule_defs = rule_decides_def rule_blocks_def rule_admits_def


definition block_reason :: "rule \<Rightarrow> string" where
  "block_reason r =
     (if to_lower (ru_decision r) = ''deny'' then ''deny flag matched''
      else ''unknown execpolicy verdict'')"

text \<open>The loop body in the terms of the specification.\<close>

lemma eval_rules_Cons:
  "eval_rules seg m b (r # rs) =
     (if rule_blocks seg r then Inl (hard (ru_id r) (block_reason r) (ru_justification r))
      else if rule_admits seg r
      then eval_rules seg True
             (if supersedes (candidate_result seg r) b then candidate_result seg r else b) rs
      else eval_rules seg m b rs)"
proof -
  consider "\<not> rule_applies r seg" | "rule_applies r seg" "to_lower (ru_decision r) = ''deny''"
    | "rule_applies r seg" "to_lower (ru_decision r) = ''allow''"
    | "rule_applies r seg" "to_lower (ru_decision r) = ''prompt''"
    | "rule_applies r seg" "to_lower (ru_decision r) \<notin> {''deny'', ''allow'', ''prompt''}"
    by blast
  then show ?thesis
    by cases (simp_all add: Let_def rule_defs block_reason_def)
qed

lemma not_blocks_and_admits: "rule_blocks seg r \<Longrightarrow> \<not> rule_admits seg r"
  by (auto simp: rule_defs)

declare eval_rules.simps(2) [simp del]
declare eval_rules_Cons [simp]

lemma eval_rules_Inl: "eval_rules seg m b rs = Inl res \<Longrightarrow> pr_verdict res = ''hard_deny''"
  by (induction rs arbitrary: m b) (auto split: if_splits)

lemma eval_rules_Inl_blocks: "eval_rules seg m b rs = Inl res \<Longrightarrow> \<exists>r \<in> set rs. rule_blocks seg r"
  by (induction rs arbitrary: m b) (auto split: if_splits)

lemma eval_rules_Inr:
  "eval_rules seg m b rs = Inr (m', b') \<Longrightarrow>
     (\<forall>r \<in> set rs. \<not> rule_blocks seg r) \<and> (m' \<longleftrightarrow> m \<or> (\<exists>r \<in> set rs. rule_admits seg r))"
  by (induction rs arbitrary: m b) (auto split: if_splits)

text \<open>What is recorded so far: nothing, or an allow or prompt result.\<close>

definition recorded :: "policy_result \<Rightarrow> bool" where
  "recorded b \<longleftrightarrow> pr_verdict b \<in> {''allow'', ''prompt''}"


lemma supersedes_recorded:
  "rule_admits seg r \<Longrightarrow> recorded b \<or> b = empty_result \<Longrightarrow>
   recorded (if supersedes (candidate_result seg r) b then candidate_result seg r else b)"
  by (auto simp: recorded_def rule_defs supersedes_def empty_result_def)

lemma eval_rules_recorded:
  "eval_rules seg m b rs = Inr (m', b') \<Longrightarrow> if m then recorded b else b = empty_result \<Longrightarrow>
   if m' then recorded b' else b' = empty_result"
proof (induction rs arbitrary: m b)
  case Nil
  then show ?case by auto
next
  case (Cons r rs)
  show ?case
  proof (cases "rule_admits seg r")
    case True
    with Cons.prems(2) have "recorded (if supersedes (candidate_result seg r) b then candidate_result seg r else b)"
      by (intro supersedes_recorded) (auto split: if_splits)
    with Cons.prems True not_blocks_and_admits show ?thesis
      by (intro Cons.IH [of True]) (auto split: if_splits)
  next
    case False
    with Cons.prems have "eval_rules seg m b rs = Inr (m', b')" by (simp split: if_splits)
    from Cons.IH [OF this Cons.prems(2)] show ?thesis .
  qed
qed

text \<open>With rule identifiers, a recorded result is never taken for an empty one.\<close>

definition tracked :: "bool \<Rightarrow> bool \<Rightarrow> policy_result \<Rightarrow> bool" where
  "tracked m p b \<longleftrightarrow>
     (if m then recorded b \<and> pr_rule_id b \<noteq> [] \<and> (pr_verdict b = ''prompt'' \<longleftrightarrow> p)
      else b = empty_result \<and> \<not> p)"

lemma tracked_step:
  assumes "rule_admits seg r" "ru_id r \<noteq> []" "tracked m p b"
  shows "tracked True (p \<or> rule_decides ''prompt'' seg r)
           (if supersedes (candidate_result seg r) b then candidate_result seg r else b)"
  using assms by (cases m) (auto simp: tracked_def recorded_def rule_defs supersedes_def empty_result_def)

lemma eval_rules_tracked:
  "eval_rules seg m b rs = Inr (m', b') \<Longrightarrow> \<forall>r \<in> set rs. ru_id r \<noteq> [] \<Longrightarrow> tracked m p b \<Longrightarrow>
   tracked m' (p \<or> (\<exists>r \<in> set rs. rule_decides ''prompt'' seg r)) b'"
proof (induction rs arbitrary: m b p)
  case Nil
  then show ?case by simp
next
  case (Cons r rs)
  show ?case
  proof (cases "rule_admits seg r")
    case True
    let ?b = "if supersedes (candidate_result seg r) b then candidate_result seg r else b"
    have "tracked True (p \<or> rule_decides ''prompt'' seg r) ?b"
      using True Cons.prems by (intro tracked_step) auto
    moreover have "eval_rules seg True ?b rs = Inr (m', b')"
      using True Cons.prems(1) not_blocks_and_admits by (auto split: if_splits)
    ultimately show ?thesis
      using Cons.IH [of True ?b "p \<or> rule_decides ''prompt'' seg r"] Cons.prems(2)
      by (simp add: disj_assoc)
  next
    case False
    then have "\<not> rule_decides ''prompt'' seg r" by (simp add: rule_admits_def)
    with False Cons show ?thesis by (simp split: if_splits)
  qed
qed

lemma eval_segments_denied:
  "pr_verdict overall \<noteq> ''hard_deny'' \<Longrightarrow>
   pr_verdict (eval_segments rules overall segs) = ''hard_deny''
     \<longleftrightarrow> (\<exists>seg \<in> set segs. segment_denied rules seg)"
proof (induction segs arbitrary: overall)
  case Nil
  then show ?case by simp
next
  case (Cons seg segs)
  show ?case
  proof (cases "eval_rules seg False empty_result rules")
    case (Inl res)
    then have "pr_verdict res = ''hard_deny''" by (rule eval_rules_Inl)
    moreover have "segment_denied rules seg"
      using eval_rules_Inl_blocks [OF Inl] by (simp add: segment_denied_def)
    ultimately show ?thesis using Inl by simp
  next
    case (Inr mb)
    then obtain m' b' where i: "eval_rules seg False empty_result rules = Inr (m', b')" by (cases mb) auto
    from eval_rules_Inr [OF i] have d: "segment_denied rules seg \<longleftrightarrow> \<not> m'"
      by (auto simp: segment_denied_def)
    show ?thesis
    proof (cases m')
      case True
      with eval_rules_recorded [OF i] have "recorded b'" by simp
      then have "pr_verdict (if supersedes b' overall then b' else overall) \<noteq> ''hard_deny''"
        using Cons.prems by (auto simp: recorded_def)
      from Cons.IH [OF this] i d True show ?thesis by simp
    next
      case False
      with i d show ?thesis by simp
    qed
  qed
qed

lemma not_denied_Inr:
  assumes "\<not> segment_denied rules seg"
  shows "\<exists>b'. eval_rules seg False empty_result rules = Inr (True, b')"
proof (cases "eval_rules seg False empty_result rules")
  case (Inl res)
  with eval_rules_Inl_blocks assms show ?thesis by (auto simp: segment_denied_def)
next
  case (Inr mb)
  then obtain m' b' where i: "eval_rules seg False empty_result rules = Inr (m', b')" by (cases mb) auto
  with eval_rules_Inr [OF i] assms show ?thesis by (auto simp: segment_denied_def)
qed

lemma eval_segments_tracked:
  assumes "\<forall>r \<in> set rules. ru_id r \<noteq> []"
  shows "tracked m p overall \<Longrightarrow> \<forall>seg \<in> set segs. \<not> segment_denied rules seg \<Longrightarrow>
     tracked (m \<or> segs \<noteq> []) (p \<or> (\<exists>seg \<in> set segs. segment_prompts rules seg))
       (eval_segments rules overall segs)"
proof (induction segs arbitrary: m p overall)
  case Nil
  then show ?case by simp
next
  case (Cons seg segs)
  have nb: "\<not> segment_denied rules seg" using Cons.prems by simp
  obtain b' where i: "eval_rules seg False empty_result rules = Inr (True, b')"
    using not_denied_Inr [OF nb] by blast
  have "tracked False False empty_result" by (simp add: tracked_def)
  from eval_rules_tracked [OF i assms this]
  have t: "tracked True (segment_prompts rules seg) b'" by (simp add: segment_prompts_def)
  have "tracked True (p \<or> segment_prompts rules seg) (if supersedes b' overall then b' else overall)"
    using t Cons.prems(1) by (cases m) (auto simp: tracked_def supersedes_def recorded_def empty_result_def)
  from Cons.IH [OF this] Cons.prems(2) i show ?case by (simp add: disj_assoc)
qed


lemma evaluate_denied:
  "pr_verdict (Evaluate cmd rules) = ''hard_deny'' \<longleftrightarrow>
     cmd_segments cmd = [] \<or> cmd_control cmd = AndIf \<or> cmd_control cmd = OrIf
     \<or> (\<exists>seg \<in> set (cmd_segments cmd). segment_denied rules seg)"
  using eval_segments_denied [of empty_result rules "cmd_segments cmd"]
  by (simp add: Evaluate_def empty_result_def)

lemma evaluate_verdict_spec:
  assumes ids: "\<forall>r \<in> set rules. ru_id r \<noteq> []"
  shows "pr_verdict (Evaluate cmd rules) = verdict_spec cmd rules"
proof (cases "pr_verdict (Evaluate cmd rules) = ''hard_deny''")
  case True
  then show ?thesis using evaluate_denied [of cmd rules] by (auto simp: verdict_spec_def)
next
  case False
  with evaluate_denied [of cmd rules]
  have ne: "cmd_segments cmd \<noteq> []" and nc: "cmd_control cmd \<notin> {AndIf, OrIf}"
    and nd: "\<forall>seg \<in> set (cmd_segments cmd). \<not> segment_denied rules seg" by auto
  have "tracked False False empty_result" by (simp add: tracked_def)
  from eval_segments_tracked [OF ids this nd] ne
  have "tracked True (\<exists>seg \<in> set (cmd_segments cmd). segment_prompts rules seg)
          (eval_segments rules empty_result (cmd_segments cmd))" by simp
  with ne nc nd show ?thesis
    by (auto simp: Evaluate_def verdict_spec_def tracked_def recorded_def)
qed


text \<open>
  With an identifier on every rule, the verdict is the order-free one: a hard denial where
  a segment is denied, else a prompt where some rule prompts for some segment, else an allow.
  A cautious rule is never hidden by a permissive one, before or after it.
\<close>

theorem Evaluate_verdict:
  "\<forall>r \<in> set rules. ru_id r \<noteq> [] \<Longrightarrow> pr_verdict (Evaluate cmd rules) = verdict_spec cmd rules"
  by (rule evaluate_verdict_spec)

text \<open>
  The order of the rules and their repetition do not matter: two tables with the same
  rules, each with an identifier, give the same verdict for every command.
\<close>

theorem Evaluate_order_irrelevant:
  assumes "set rules = set rules'" "\<forall>r \<in> set rules. ru_id r \<noteq> []"
  shows "pr_verdict (Evaluate cmd rules) = pr_verdict (Evaluate cmd rules')"
proof -
  have "segment_denied rules = segment_denied rules'" "segment_prompts rules = segment_prompts rules'"
    using assms(1) by (auto simp: segment_denied_def segment_prompts_def fun_eq_iff)
  then have "verdict_spec cmd rules = verdict_spec cmd rules'" by (simp add: verdict_spec_def)
  moreover have "\<forall>r \<in> set rules'. ru_id r \<noteq> []" using assms by simp
  ultimately show ?thesis using evaluate_verdict_spec assms(2) by metis
qed

text \<open>
  Without identifiers the order does matter: an allow rule after a prompt rule for the
  same command hides it, because an empty identifier is read as "nothing recorded".
\<close>

theorem Evaluate_idless_allow_hides_prompt:
  assumes "cmd_segments cmd = [seg]" "cmd_control cmd = Word"
    and "rule_decides ''prompt'' seg r" "rule_decides ''allow'' seg s" "ru_id r = []"
  shows "pr_verdict (Evaluate cmd [r, s]) = ''allow'' \<and> verdict_spec cmd [r, s] = ''prompt''"
proof -
  from assms have "\<not> rule_blocks seg r" "\<not> rule_blocks seg s" "rule_admits seg r" "rule_admits seg s"
    by (auto simp: rule_defs)
  with assms show ?thesis
    by (auto simp: Evaluate_def verdict_spec_def segment_denied_def segment_prompts_def supersedes_def
        empty_result_def rule_decides_def)
qed

section \<open>Deny flags\<close>

lemma flag_matches_append: "flag_matches n w h vs \<Longrightarrow> flag_matches n w h (us @ vs)"
proof (induction us)
  case (Cons u us)
  then show ?case by (auto simp: Let_def split: prod.splits)
qed simp

definition dashes :: "nat \<Rightarrow> string" where
  "dashes n = replicate n (CHR ''-'')"

lemma trim_dashes: "s = [] \<or> hd s \<noteq> CHR ''-'' \<Longrightarrow> trim_left_byte (CHR ''-'') (dashes n @ s) = s"
  by (induction n) (cases s; simp add: trim_left_byte_def dashes_def)+

lemma cut_dashes: "CHR ''='' \<notin> set name \<Longrightarrow> cut (dashes n @ name @ CHR ''='' # v) (CHR ''='') = (dashes n @ name, v, True)"
  using cut_present [of "CHR ''=''" "dashes n @ name" v] by (auto simp: dashes_def)

text \<open>
  A deny flag with a value is found in every spelling: any number of dashes on either
  side, the value joined with an equals sign or given as the next argument, alone or as an
  element of a comma list, with white space around it, at any position.
\<close>

theorem contains_any_spellings:
  assumes "CHR ''='' \<notin> set name" "name \<noteq> []" "hd name \<noteq> CHR ''-''"
    and "\<exists>part \<in> set (split_byte v (CHR '','')). trim_space part = want"
  shows "contains_any (us @ (dashes i @ name @ CHR ''='' # v) # vs) [dashes j @ name @ CHR ''='' # want]
    \<and> contains_any (us @ (dashes i @ name) # v # vs) [dashes j @ name @ CHR ''='' # want]"
proof -
  have t: "trim_left_byte (CHR ''-'') (dashes k @ name) = name"
      "trim_left_byte (CHR ''-'') (dashes k @ name @ CHR ''='' # x) = name @ CHR ''='' # x" for k x
    using assms(2,3) by (auto intro!: trim_dashes simp: hd_append)
  have c: "cut name (CHR ''='') = (name, [], False)" "cut (name @ CHR ''='' # v) (CHR ''='') = (name, v, True)"
    using assms(1) by (simp_all add: cut_absent cut_present)
  have "flag_matches (dashes j @ name) want True ((dashes i @ name @ CHR ''='' # v) # vs)"
    "flag_matches (dashes j @ name) want True ((dashes i @ name) # v # vs)"
    using assms(4) by (simp_all add: t c Let_def)
  from this [THEN flag_matches_append, of us] show ?thesis
    using cut_dashes [OF assms(1), of j want] by (simp_all add: contains_any_def)
qed

section \<open>Witnesses\<close>

text \<open>The rule table and a command of \<open>config.example.yaml\<close>.\<close>

definition sample_rules :: "rule list" where
  "sample_rules =
     [\<lparr>ru_id = ''no-real-e2e'', ru_program = ''go'', ru_prefix = [''test''], ru_decision = ''deny'',
       ru_deny_flags = [''-tags=e2e_real''], ru_justification = ''real E2E''\<rparr>,
      \<lparr>ru_id = ''go-test'', ru_program = ''go'', ru_prefix = [''test''], ru_decision = ''allow'',
       ru_deny_flags = [], ru_justification = ''ordinary Go tests are safe''\<rparr>]"

definition nameless_rule :: "string \<Rightarrow> rule" where
  "nameless_rule d = \<lparr>ru_id = [], ru_program = ''rm'', ru_prefix = [], ru_decision = d,
     ru_deny_flags = [], ru_justification = []\<rparr>"

lemma sample_rules_ids: "\<forall>r \<in> set sample_rules. ru_id r \<noteq> []"
  by (simp add: sample_rules_def)

theorem Evaluate_verdict_witness:
  "pr_verdict (Evaluate (simple_command ''go'' [''test'', ''-tags'', ''e2e_real'']) sample_rules) = ''hard_deny''
   \<and> pr_verdict (Evaluate (simple_command ''go'' [''test'']) sample_rules) = ''allow''"
proof -
  have "verdict_spec (simple_command ''go'' [''test'', ''-tags'', ''e2e_real'']) sample_rules = ''hard_deny''"
    "verdict_spec (simple_command ''go'' [''test'']) sample_rules = ''allow''"
    by code_simp+
  then show ?thesis by (simp add: Evaluate_verdict [OF sample_rules_ids])
qed

theorem Evaluate_order_irrelevant_witness:
  "pr_verdict (Evaluate (simple_command ''go'' [''test'']) sample_rules)
     = pr_verdict (Evaluate (simple_command ''go'' [''test'']) (rev sample_rules))
   \<and> pr_verdict (Evaluate (simple_command ''go'' [''test'']) (rev sample_rules)) = ''allow''"
proof -
  have "pr_verdict (Evaluate (simple_command ''go'' [''test'']) (rev sample_rules)) = ''allow''"
    by code_simp
  then show ?thesis
    using Evaluate_order_irrelevant [of sample_rules "rev sample_rules"] sample_rules_ids by simp
qed

theorem Evaluate_idless_allow_hides_prompt_witness:
  "pr_verdict (Evaluate (simple_command ''rm'' [''-r'', ''x'']) [nameless_rule ''prompt'', nameless_rule ''allow''])
     = ''allow''"
proof -
  obtain seg where s: "cmd_segments (simple_command ''rm'' [''-r'', ''x'']) = [seg]"
      "cmd_control (simple_command ''rm'' [''-r'', ''x'']) = Word"
    and n: "seg_program seg = normalize_program ''rm''"
    by (simp add: simple_command_def)
  have d: "rule_decides ''prompt'' seg (nameless_rule ''prompt'')"
    "rule_decides ''allow'' seg (nameless_rule ''allow'')"
    using n by (simp_all add: rule_decides_def rule_applies_def nameless_rule_def to_lower_def lower_char_def byte_def)
  from Evaluate_idless_allow_hides_prompt [OF s d] show ?thesis by (simp add: nameless_rule_def)
qed

theorem contains_any_spellings_witness:
  "contains_any [''test'', ''-tags'', ''a, e2e_real''] [''--tags=e2e_real'']"
proof -
  have t: "\<exists>part \<in> set (split_byte ''a, e2e_real'' (CHR '','')). trim_space part = ''e2e_real''"
    by code_simp
  have "CHR ''='' \<notin> set ''tags''" "''tags'' \<noteq> []" "hd ''tags'' \<noteq> CHR ''-''" by simp_all
  from contains_any_spellings [OF this t, of "[''test'']" 1 "[]" 2]
  show ?thesis by (simp add: dashes_def numeral_2_eq_2)
qed

end
