(* ===== verification/Ansic.thy ===== *)
theory Ansic
  imports ExecLex
begin

text \<open>
  The ANSI-C quoting decoder of \<open>internal/execpolicy/ansic.go\<close>, shared by the two shell
  readers: \<open>$'...'\<close> spans to the bytes bash produces.
\<close>

section \<open>Digits\<close>

definition is_hex_digit :: "char \<Rightarrow> bool" where
  "is_hex_digit b \<longleftrightarrow> is_digit b \<or> (97 \<le> byte b \<and> byte b \<le> 102) \<or> (65 \<le> byte b \<and> byte b \<le> 70)"

definition hex_value :: "char \<Rightarrow> int" where
  "hex_value b =
     (if is_digit b then byte b - 48
      else if 97 \<le> byte b \<and> byte b \<le> 102 then byte b - 97 + 10
      else byte b - 65 + 10)"

definition is_octal_digit :: "char \<Rightarrow> bool" where
  "is_octal_digit b \<longleftrightarrow> 48 \<le> byte b \<and> byte b \<le> 55"

definition number :: "int \<Rightarrow> string \<Rightarrow> int" where
  "number base ds = foldl (\<lambda>v d. v * base + hex_value d) 0 ds"

section \<open>Runes\<close>

text \<open>
  \<open>string(rune(v))\<close>: the conversion to a 32-bit rune, then UTF-8, with the replacement
  character for everything that is not a Unicode scalar value.
\<close>

definition utf8_rune :: "int \<Rightarrow> string" where
  "utf8_rune v =
     (let r = v mod 2 ^ 32 in
      if 0x10FFFF < r \<or> (0xD800 \<le> r \<and> r \<le> 0xDFFF) then [CHR 0xEF, CHR 0xBF, CHR 0xBD]
      else if r < 0x80 then [char_of r]
      else if r < 0x800 then [char_of (0xC0 + r div 64), char_of (0x80 + r mod 64)]
      else if r < 0x10000 then
        [char_of (0xE0 + r div 4096), char_of (0x80 + r div 64 mod 64), char_of (0x80 + r mod 64)]
      else
        [char_of (0xF0 + r div 262144), char_of (0x80 + r div 4096 mod 64),
         char_of (0x80 + r div 64 mod 64), char_of (0x80 + r mod 64)])"

section \<open>Escapes\<close>

definition ansic_simple_escapes :: "char \<Rightarrow> char option" where
  "ansic_simple_escapes c =
     map_of [(CHR ''a'', CHR 0x07), (CHR ''b'', CHR 0x08), (CHR ''e'', CHR 0x1B), (CHR ''E'', CHR 0x1B),
             (CHR ''f'', CHR 0x0C), (CHR ''n'', CHR 0x0A), (CHR ''r'', CHR 0x0D), (CHR ''t'', CHR 0x09),
             (CHR ''v'', CHR 0x0B), (bslash, bslash), (squote, squote), (dquote, dquote),
             (CHR ''?'', CHR ''?'')] c"

text \<open>
  \<open>decodeANSICEscape\<close>: the text of the escape at the head of \<open>s\<close> (whose first byte is the
  backslash) and the number of bytes it consumes.
\<close>

definition decode_ansic_escape :: "string \<Rightarrow> string \<times> nat" where
  "decode_ansic_escape s =
     (case s of
        b # c # rest \<Rightarrow>
          (case ansic_simple_escapes c of
             Some x \<Rightarrow> ([x], 2)
           | None \<Rightarrow>
               if c = CHR ''x'' then
                 (let ds = takeWhile is_hex_digit (take 2 rest) in
                  if ds = [] then (take 2 s, 2) else ([char_of (number 16 ds)], 2 + length ds))
               else if c = CHR ''u'' \<or> c = CHR ''U'' then
                 (let ds = takeWhile is_hex_digit (take (if c = CHR ''U'' then 8 else 4) rest) in
                  if ds = [] then (take 2 s, 2) else (utf8_rune (number 16 ds), 2 + length ds))
               else if c = CHR ''c'' then
                 (case rest of [] \<Rightarrow> (take 2 s, 2) | x # _ \<Rightarrow> ([char_of (byte x mod 32)], 3))
               else if is_octal_digit c then
                 (let ds = takeWhile is_octal_digit (take 3 (c # rest)) in
                  ([char_of (number 8 ds mod 256)], 1 + length ds))
               else (take 2 s, 2))
      | _ \<Rightarrow> (s, length s))"

lemma decode_ansic_escape_pos: "s \<noteq> [] \<Longrightarrow> 0 < snd (decode_ansic_escape s)"
  by (auto simp: decode_ansic_escape_def Let_def split: list.splits option.splits)

text \<open>\<open>DecodeANSICSpan\<close> on the input after the opening quote: the literal and what follows.\<close>

function ansic_span :: "string \<Rightarrow> string \<Rightarrow> (string \<times> string) option" where
  "ansic_span b [] = None"
| "ansic_span b (c # rest) =
     (if c = squote then Some (b, rest)
      else if c \<noteq> bslash \<or> rest = [] then ansic_span (b @ [c]) rest
      else ansic_span (b @ fst (decode_ansic_escape (c # rest)))
             (drop (snd (decode_ansic_escape (c # rest))) (c # rest)))"
  by pat_completeness auto
termination
proof (relation "measure (\<lambda>(b, s). length s)", goal_cases)
  case (3 b c rest)
  then show ?case using decode_ansic_escape_pos [of "c # rest"] by simp
qed auto

definition DecodeANSICSpan :: "string \<Rightarrow> (string \<times> string) option" where
  "DecodeANSICSpan s = ansic_span [] s"

lemma ansic_span_suffix: "ansic_span b s = Some (lit, r) \<Longrightarrow> \<exists>u. u \<noteq> [] \<and> s = u @ r"
proof (induction b s rule: ansic_span.induct)
  case (2 b c rest)
  let ?k = "snd (decode_ansic_escape (c # rest))"
  consider "c = squote" | "c \<noteq> squote" "c \<noteq> bslash \<or> rest = []" | "c \<noteq> squote" "c = bslash" "rest \<noteq> []"
    by blast
  then show ?case
  proof cases
    case 1
    with "2.prems" show ?thesis by (intro exI [of _ "[c]"]) simp
  next
    case 2
    with "2.prems" "2.IH"(1) obtain u where "u \<noteq> []" "rest = u @ r" by auto
    then show ?thesis by (intro exI [of _ "c # u"]) simp
  next
    case 3
    with "2.prems" "2.IH"(2) obtain u where u: "u \<noteq> []" "drop ?k (c # rest) = u @ r" by auto
    have "c # rest = take ?k (c # rest) @ u @ r"
      using u(2) append_take_drop_id [of ?k "c # rest"] by simp
    with u(1) show ?thesis by (intro exI [of _ "take ?k (c # rest) @ u"]) simp
  qed
qed simp

lemma DecodeANSICSpan_length: "DecodeANSICSpan s = Some (lit, r) \<Longrightarrow> length r < length s"
  unfolding DecodeANSICSpan_def by (auto dest!: ansic_span_suffix)

text \<open>\<open>DecodeANSIC\<close>: every span of a command, and whether there was one.\<close>

function decode_ansic_loop :: "string \<Rightarrow> bool \<Rightarrow> string \<Rightarrow> string \<times> bool" where
  "decode_ansic_loop out dec [] = (out, dec)"
| "decode_ansic_loop out dec (c # rest) =
     (case (if c = CHR ''$'' \<and> rest \<noteq> [] \<and> hd rest = squote
            then DecodeANSICSpan (tl rest) else None) of
        Some (lit, r) \<Rightarrow> decode_ansic_loop (out @ lit) True r
      | None \<Rightarrow> decode_ansic_loop (out @ [c]) dec rest)"
  by pat_completeness auto
termination
  by (relation "measure (\<lambda>(out, dec, s). length s)")
     (auto dest!: DecodeANSICSpan_length split: if_splits)

definition DecodeANSIC :: "string \<Rightarrow> string \<times> bool" where
  "DecodeANSIC cmd =
     (if \<not> contains cmd (CHR ''$'' # [squote]) then (cmd, False) else decode_ansic_loop [] False cmd)"

section \<open>Where the span ends\<close>

text \<open>
  The shell's own rule for the end of a \<open>$'...'\<close> span: a backslash protects the byte after it,
  and the first unprotected quote closes the span, whatever the escapes stand for.
\<close>

fun shell_span :: "string \<Rightarrow> string option" where
  "shell_span [] = None"
| "shell_span (c # s) =
     (if c = squote then Some s
      else if c = bslash then (case s of [] \<Rightarrow> None | _ # s' \<Rightarrow> shell_span s')
      else shell_span s)"

text \<open>A control escape is ambiguous when the byte it takes is the quote or the backslash.\<close>

fun ctrl_quote :: "string \<Rightarrow> bool" where
  "ctrl_quote [] = False"
| "ctrl_quote (c # s) = (take 3 (c # s) \<in> {[bslash, CHR ''c'', squote], [bslash, CHR ''c'', bslash]} \<or> ctrl_quote s)"

lemma ctrl_quote_append: "\<not> ctrl_quote (u @ s) \<Longrightarrow> \<not> ctrl_quote s"
  by (induction u) auto

lemma byte_quotes: "byte squote = 39" "byte bslash = 92"
  by (simp_all add: byte_def)

lemma octal_plain: "is_octal_digit c \<Longrightarrow> c \<noteq> squote \<and> c \<noteq> bslash"
  and hex_plain: "is_hex_digit c \<Longrightarrow> c \<noteq> squote \<and> c \<noteq> bslash"
  by (auto simp: is_octal_digit_def is_hex_digit_def is_digit_def byte_quotes)

lemma digits_prefix:
  assumes "\<And>x. P x \<Longrightarrow> x \<noteq> squote \<and> x \<noteq> bslash"
  shows "\<exists>r. rest = takeWhile P (take k rest) @ r \<and> squote \<notin> set (takeWhile P (take k rest))
      \<and> bslash \<notin> set (takeWhile P (take k rest))"
proof (intro exI conjI)
  have "take k rest = takeWhile P (take k rest) @ dropWhile P (take k rest)" by simp
  then show "rest = takeWhile P (take k rest) @ dropWhile P (take k rest) @ drop k rest"
    by (metis append_assoc append_take_drop_id)
  show "squote \<notin> set (takeWhile P (take k rest))" "bslash \<notin> set (takeWhile P (take k rest))"
    using assms [of squote] assms [of bslash] by (auto dest: set_takeWhileD)
qed

lemma escape_extent:
  assumes "\<not> ctrl_quote (bslash # c # rest)"
  obtains ds r where "rest = ds @ r" "snd (decode_ansic_escape (bslash # c # rest)) = 2 + length ds"
    "squote \<notin> set ds" "bslash \<notin> set ds"
proof -
  note case_of = that
  let ?s = "bslash # c # rest"
  let ?hex = "\<lambda>k. takeWhile is_hex_digit (take k rest)"
  have two: thesis if "snd (decode_ansic_escape ?s) = 2"
    using case_of [of "[]" rest] that by simp
  show ?thesis
  proof (cases "ansic_simple_escapes c")
    case (Some x)
    then show ?thesis by (intro two) (simp add: decode_ansic_escape_def)
  next
    case None
    consider (x) "c = CHR ''x''" | (u) "c = CHR ''u'' \<or> c = CHR ''U''" | (c) "c = CHR ''c''"
      | (oct) "is_octal_digit c" "c \<notin> {CHR ''x'', CHR ''u'', CHR ''U'', CHR ''c''}"
      | (other) "c \<notin> {CHR ''x'', CHR ''u'', CHR ''U'', CHR ''c''}" "\<not> is_octal_digit c" by blast
    then show ?thesis
    proof cases
      case x
      from digits_prefix [of is_hex_digit rest 2] hex_plain obtain r where r: "rest = ?hex 2 @ r"
        "squote \<notin> set (?hex 2)" "bslash \<notin> set (?hex 2)" by blast
      show ?thesis
        by (rule case_of [OF r(1) _ r(2,3)]) (simp add: decode_ansic_escape_def ansic_simple_escapes_def x Let_def)
    next
      case u
      let ?k = "if c = CHR ''U'' then 8 else 4"
      from digits_prefix [of is_hex_digit rest ?k] hex_plain obtain r where r: "rest = ?hex ?k @ r"
        "squote \<notin> set (?hex ?k)" "bslash \<notin> set (?hex ?k)" by blast
      have c: "c \<noteq> CHR ''x''" using u by auto
      show ?thesis
        by (rule case_of [OF r(1) _ r(2,3)]) (use c u in \<open>simp add: decode_ansic_escape_def None Let_def\<close>)
    next
      case c
      show ?thesis
      proof (cases rest)
        case Nil
        then show ?thesis by (intro two) (simp add: decode_ansic_escape_def ansic_simple_escapes_def c)
      next
        case (Cons x r)
        with assms c have "x \<noteq> squote" "x \<noteq> bslash" by auto
        then show ?thesis
          by (intro case_of [of "[x]" r]) (simp_all add: decode_ansic_escape_def ansic_simple_escapes_def c Cons)
      qed
    next
      case oct
      let ?ds = "takeWhile is_octal_digit (take 2 rest)"
      from digits_prefix [of is_octal_digit rest 2] octal_plain obtain r where r: "rest = ?ds @ r"
        "squote \<notin> set ?ds" "bslash \<notin> set ?ds" by blast
      have "takeWhile is_octal_digit (take 3 (c # rest)) = c # ?ds"
        using oct(1) by (simp add: numeral_3_eq_3 numeral_2_eq_2)
      then show ?thesis
        by (intro case_of [OF r(1) _ r(2,3)]) (use oct in \<open>simp add: decode_ansic_escape_def None Let_def\<close>)
    next
      case other
      then show ?thesis by (intro two) (simp add: decode_ansic_escape_def None)
    qed
  qed
qed

lemma shell_span_skip: "squote \<notin> set ds \<Longrightarrow> bslash \<notin> set ds \<Longrightarrow> shell_span (ds @ r) = shell_span r"
  by (induction ds) auto

lemma ansic_span_end:
  "\<not> ctrl_quote s \<Longrightarrow> ansic_span b s = Some (lit, r) \<Longrightarrow> shell_span s = Some r"
  "\<not> ctrl_quote s \<Longrightarrow> ansic_span b s = None \<Longrightarrow> shell_span s = None"
proof (induction b s rule: ansic_span.induct)
  case (2 b c rest)
  {
    case 1
    consider "c = squote" | "c \<noteq> squote" "c \<noteq> bslash \<or> rest = []" | "c = bslash" "rest \<noteq> []"
      by blast
    then show ?case
    proof cases
      case 3
      then obtain x rest' where rest: "rest = x # rest'" by (cases rest) auto
      from escape_extent [of x rest'] "1" 3 rest obtain ds r' where ds: "rest' = ds @ r'"
        "snd (decode_ansic_escape (bslash # rest)) = 2 + length ds" "squote \<notin> set ds" "bslash \<notin> set ds"
        by metis
      have d: "drop (snd (decode_ansic_escape (c # rest))) (c # rest) = r'"
        using ds(1,2) 3 rest by simp
      have nq: "\<not> ctrl_quote r'" using "1"(1) rest ds(1) ctrl_quote_append [of "c # x # ds" r'] by simp
      show ?thesis using "2.IH"(3) [unfolded d] nq "1" 3 d rest ds shell_span_skip [of ds r'] by simp
    qed (use "1" "2.IH"(1) in auto)
  next
    case 2
    consider "c = squote" | "c \<noteq> squote" "c \<noteq> bslash \<or> rest = []" | "c = bslash" "rest \<noteq> []"
      by blast
    then show ?case
    proof cases
      case 3
      then obtain x rest' where rest: "rest = x # rest'" by (cases rest) auto
      from escape_extent [of x rest'] "2" 3 rest obtain ds r' where ds: "rest' = ds @ r'"
        "snd (decode_ansic_escape (bslash # rest)) = 2 + length ds" "squote \<notin> set ds" "bslash \<notin> set ds"
        by metis
      have d: "drop (snd (decode_ansic_escape (c # rest))) (c # rest) = r'"
        using ds(1,2) 3 rest by simp
      have nq: "\<not> ctrl_quote r'" using "2"(1) rest ds(1) ctrl_quote_append [of "c # x # ds" r'] by simp
      show ?thesis using "2.IH"(4) [unfolded d] nq "2" 3 d rest ds shell_span_skip [of ds r'] by simp
    qed (use "2" "2.IH"(2) in auto)
  }
qed auto

text \<open>
  When no control escape takes a quote or a backslash, the decoder finds the end of a
  \<open>$'...'\<close> span exactly where the shell does, and finds none when the shell finds none.
\<close>

theorem DecodeANSICSpan_end:
  assumes "\<not> ctrl_quote s"
  shows "map_option snd (DecodeANSICSpan s) = shell_span s"
  using ansic_span_end [OF assms, of "[]"] unfolding DecodeANSICSpan_def
  by (cases "ansic_span [] s") auto

lemma DecodeANSICSpan_end_witness:
  "map_option snd (DecodeANSICSpan (''a'' @ [bslash] @ ''x2e'' @ [bslash, squote, squote] @ '';b''))
     = Some '';b''"
  using DecodeANSICSpan_end [of "''a'' @ [bslash] @ ''x2e'' @ [bslash, squote, squote] @ '';b''"] by simp

text \<open>Every byte can be spelled as a hexadecimal escape.\<close>

definition hex_digit :: "nat \<Rightarrow> char" where
  "hex_digit n = ''0123456789abcdef'' ! n"

definition hex_escape :: "char \<Rightarrow> string" where
  "hex_escape c = [bslash, CHR ''x'', hex_digit (nat (byte c div 16)), hex_digit (nat (byte c mod 16))]"

lemma hex_digit_value: "n < 16 \<Longrightarrow> is_hex_digit (hex_digit n) \<and> hex_value (hex_digit n) = int n"
proof -
  have "\<forall>n \<in> set [0..<16]. is_hex_digit (hex_digit n) \<and> hex_value (hex_digit n) = int n"
    by code_simp
  then show "n < 16 \<Longrightarrow> ?thesis" by simp
qed

lemma decode_hex_escape: "decode_ansic_escape (hex_escape c @ s) = ([c], 4)"
proof -
  have b: "0 \<le> byte c" "byte c < 256" by (simp_all add: byte_bounds)
  have "byte c div 16 < 16" "byte c mod 16 < 16" using b by presburger+
  then have "nat (byte c div 16) < 16" "nat (byte c mod 16) < 16" by simp_all
  note h = hex_digit_value [OF this(1)] hex_digit_value [OF this(2)]
  have "byte c div 16 * 16 + byte c mod 16 = byte c" by simp
  then have "number 16 [hex_digit (nat (byte c div 16)), hex_digit (nat (byte c mod 16))] = byte c"
    using h b by (simp add: number_def)
  then show ?thesis using h
    by (simp add: hex_escape_def decode_ansic_escape_def Let_def ansic_simple_escapes_def byte_def)
qed

lemma ansic_span_escape:
  assumes "s = bslash # s'" "s' \<noteq> []" "decode_ansic_escape s = (w, k)"
  shows "ansic_span b s = ansic_span (b @ w) (drop k s)"
  using assms(2,3) unfolding assms(1) by simp

lemma ansic_span_hex: "ansic_span b (concat (map hex_escape w) @ squote # r) = Some (b @ w, r)"
proof (induction w arbitrary: b)
  case (Cons c w)
  let ?t = "concat (map hex_escape w) @ squote # r"
  have s: "hex_escape c @ ?t = bslash # tl (hex_escape c @ ?t)" "tl (hex_escape c @ ?t) \<noteq> []"
    "drop 4 (hex_escape c @ ?t) = ?t"
    by (simp_all add: hex_escape_def)
  have "ansic_span b (hex_escape c @ ?t) = ansic_span (b @ [c]) ?t"
    using ansic_span_escape [OF s(1,2) decode_hex_escape] s(3) by simp
  then show ?case using Cons.IH by simp
qed simp

lemma decode_ansic_loop_plain:
  "CHR ''$'' \<notin> set s \<Longrightarrow> decode_ansic_loop out dec (s @ t) = decode_ansic_loop (out @ s) dec t"
  by (induction s arbitrary: out) auto

text \<open>
  Writing any bytes of a command as hexadecimal escapes in a \<open>$'...'\<close> span hides nothing:
  the decoder gives back exactly the bytes that were written, and reports that it decoded.
\<close>

theorem DecodeANSIC_reveals:
  assumes "CHR ''$'' \<notin> set pre" "CHR ''$'' \<notin> set post"
  shows "DecodeANSIC (pre @ CHR ''$'' # squote # concat (map hex_escape w) @ squote # post)
           = (pre @ w @ post, True)"
proof -
  let ?span = "concat (map hex_escape w) @ squote # post"
  have "contains (pre @ CHR ''$'' # squote # ?span) (CHR ''$'' # [squote])"
    unfolding contains_iff_sublist by (metis append_Cons append_Nil sublist_appendI)
  moreover have "DecodeANSICSpan ?span = Some (w, post)"
    using ansic_span_hex [of "[]" w post] by (simp add: DecodeANSICSpan_def)
  then have "decode_ansic_loop pre False (CHR ''$'' # squote # ?span) = decode_ansic_loop (pre @ w) True post"
    by simp
  ultimately show ?thesis
    using decode_ansic_loop_plain [OF assms(1), of "[]" False] decode_ansic_loop_plain [OF assms(2), of _ _ "[]"]
    by (simp add: DecodeANSIC_def)
qed

lemma DecodeANSIC_reveals_witness:
  "DecodeANSIC (''cat '' @ CHR ''$'' # squote # concat (map hex_escape ''.ssh'') @ squote # ''/id_rsa'')
     = (''cat '' @ ''.ssh'' @ ''/id_rsa'', True)"
  using DecodeANSIC_reveals [of "''cat ''" "''/id_rsa''" "''.ssh''"] by simp

end
