(* ===== verification/ListScanner.thy ===== *)
theory ListScanner
  imports Ansic ExecParse
begin

text \<open>
  What the two command-list readers of \<open>internal/execpolicy\<close> share: the scanner's state
  (\<open>listScanner\<close> in \<open>commandlist.go\<close>, \<open>psScanner\<close> in \<open>powershell.go\<close>, which has the same
  fields), the flushing methods both repeat word for word, and the interface
  \<open>segment_scanner\<close>, whose lemmas hold of every reader built on them.

  The index \<open>i\<close> into \<open>raw\<close> is the remaining input, an argument of every method that moves
  it.  \<open>ls_src\<close> is \<open>raw[segFrom:i]\<close>, \<^const>\<open>None\<close> standing for \<open>segFrom = -1\<close>, so every
  method that moves \<open>i\<close> calls \<open>advance\<close> with the bytes it passes.
\<close>

section \<open>The scanner's state\<close>

record lscan =
  ls_segs :: "segment list"
  ls_word :: string
  ls_in_word :: bool
  ls_words :: "string list"
  ls_redirs :: "redirect_spec list"
  ls_src :: "string option"
  ls_pending :: "nat option"

definition init_lscan :: lscan where
  "init_lscan = \<lparr>ls_segs = [], ls_word = [], ls_in_word = False, ls_words = [], ls_redirs = [],
                 ls_src = None, ls_pending = None\<rparr>"

definition advance :: "string \<Rightarrow> lscan \<Rightarrow> lscan" where
  "advance bs st = st\<lparr>ls_src := map_option (\<lambda>u. u @ bs) (ls_src st)\<rparr>"

section \<open>Methods\<close>

definition start_token :: "lscan \<Rightarrow> lscan" where
  "start_token st = (if ls_src st = None then st\<lparr>ls_src := Some []\<rparr> else st)"

definition write_word :: "string \<Rightarrow> lscan \<Rightarrow> lscan" where
  "write_word bs st = st\<lparr>ls_word := ls_word st @ bs, ls_in_word := True\<rparr>"

text \<open>\<open>flushWord\<close>.  The slice update is guarded as Go guards it, by a panic.\<close>

definition flush_list_word :: "lscan \<Rightarrow> exec_error + lscan" where
  "flush_list_word st =
     (if \<not> ls_in_word st then Inr st
      else
        let w = ls_word st; st' = st\<lparr>ls_word := [], ls_in_word := False\<rparr>
        in case ls_pending st of
             Some k \<Rightarrow>
               (if k < length (ls_redirs st)
                then Inr (st'\<lparr>ls_redirs := (ls_redirs st)[k := (ls_redirs st ! k)\<lparr>rd_target := w\<rparr>],
                              ls_pending := None\<rparr>)
                else Inl Slice_panic)
           | None \<Rightarrow> Inr (st'\<lparr>ls_words := ls_words st @ [w]\<rparr>))"

definition push_redirect :: "string \<Rightarrow> lscan \<Rightarrow> lscan" where
  "push_redirect op st =
     st\<lparr>ls_redirs := ls_redirs st @ [\<lparr>rd_operator = op, rd_target = []\<rparr>],
        ls_pending := Some (length (ls_redirs st))\<rparr>"

text \<open>\<open>flushSegment\<close> after its call of \<open>flushWord\<close>, and with it.\<close>

definition close_segment :: "lscan \<Rightarrow> exec_error + lscan" where
  "close_segment st =
     (case ls_pending st of
        Some k \<Rightarrow>
          (if k < length (ls_redirs st)
           then Inl (Redirect_missing_target (rd_operator (ls_redirs st ! k)))
           else Inl Slice_panic)
      | None \<Rightarrow>
          (case ls_words st of
             [] \<Rightarrow> Inl Operator_without_segment
           | p # args \<Rightarrow>
               (case ls_src st of
                  None \<Rightarrow> Inl Slice_panic
                | Some src \<Rightarrow>
                    Inr (st\<lparr>ls_segs := ls_segs st @
                             [\<lparr>seg_program = normalize_program p, seg_args = args,
                               seg_redirects = ls_redirs st, seg_text = trim_space src\<rparr>],
                            ls_words := [], ls_redirs := [], ls_src := None\<rparr>))))"

definition flush_list_segment :: "lscan \<Rightarrow> exec_error + lscan" where
  "flush_list_segment st =
     (case flush_list_word st of Inl e \<Rightarrow> Inl e | Inr st' \<Rightarrow> close_segment st')"

definition is_redirect_word_boundary :: "char \<Rightarrow> bool" where
  "is_redirect_word_boundary b \<longleftrightarrow>
     b \<in> {CHR 0x00, CHR '' '', tab_c, newline_c, cr_c, CHR '';'', CHR ''|'', CHR ''&'', CHR ''<'',
          CHR ''>'', btick, CHR ''('', CHR '')''}"

text \<open>\<open>byteAtOrZero\<close> and \<open>peek\<close> at the head of the remaining input.\<close>

definition head_or_zero :: "string \<Rightarrow> char" where
  "head_or_zero s = (case s of [] \<Rightarrow> CHR 0x00 | c # _ \<Rightarrow> c)"

definition add_plain_redirect :: "string \<Rightarrow> lscan \<Rightarrow> lscan" where
  "add_plain_redirect op st =
     st\<lparr>ls_redirs := ls_redirs st @ [\<lparr>rd_operator = op, rd_target = []\<rparr>]\<rparr>"

text \<open>\<open>finish\<close>: a trailing separator leaves nothing to flush.\<close>

definition list_finish :: "lscan \<Rightarrow> exec_error + lscan" where
  "list_finish st =
     (case flush_list_word st of
        Inl e \<Rightarrow> Inl e
      | Inr st' \<Rightarrow>
          (case ls_pending st' of
             Some k \<Rightarrow>
               (if k < length (ls_redirs st')
                then Inl (Redirect_missing_target (rd_operator (ls_redirs st' ! k)))
                else Inl Slice_panic)
           | None \<Rightarrow>
               if ls_words st' = []
               then (if ls_redirs st' \<noteq> [] then Inl Redirect_before_executable else Inr st')
               else flush_list_segment st'))"

section \<open>The source slice\<close>

lemma head_or_zero_Cons: "head_or_zero s = c \<Longrightarrow> c \<noteq> CHR 0x00 \<Longrightarrow> s = c # tl s"
  by (cases s) (auto simp: head_or_zero_def)

text \<open>
  An iteration consumes at least its byte.  \<open>consumed\<close> also says what happens to the source
  slice: it is dropped, kept and extended, or started with the bytes consumed.
\<close>

definition src_step :: "lscan \<Rightarrow> string \<Rightarrow> lscan \<Rightarrow> bool" where
  "src_step st u st' \<longleftrightarrow>
     ls_src st' = None \<or> ls_src st' = map_option (\<lambda>v. v @ u) (ls_src st)
     \<or> (ls_src st = None \<and> ls_src st' = Some u)"

lemma advance_simps [simp]:
  "ls_segs (advance u st) = ls_segs st" "ls_word (advance u st) = ls_word st"
  "ls_in_word (advance u st) = ls_in_word st" "ls_words (advance u st) = ls_words st"
  "ls_redirs (advance u st) = ls_redirs st" "ls_pending (advance u st) = ls_pending st"
  "ls_src (advance u st) = map_option (\<lambda>v. v @ u) (ls_src st)"
  by (simp_all add: advance_def)

lemma start_token_src [simp]:
  "ls_src (start_token st) = (case ls_src st of None \<Rightarrow> Some [] | Some v \<Rightarrow> Some v)"
  by (auto simp: start_token_def split: option.splits)

lemma write_word_src [simp]: "ls_src (write_word w st) = ls_src st"
  by (simp add: write_word_def)

lemma redirect_src [simp]:
  "ls_src (push_redirect op st) = ls_src st" "ls_src (add_plain_redirect op st) = ls_src st"
  by (simp_all add: push_redirect_def add_plain_redirect_def)

lemma flush_list_word_src: "flush_list_word st = Inr st' \<Longrightarrow> ls_src st' = ls_src st"
  by (auto simp: flush_list_word_def Let_def split: if_splits option.splits)

lemma close_segment_src: "close_segment st = Inr st' \<Longrightarrow> ls_src st' = None"
  by (auto simp: close_segment_def split: if_splits option.splits list.splits)

lemma flush_list_segment_src: "flush_list_segment st = Inr st' \<Longrightarrow> ls_src st' = None"
  by (auto simp: flush_list_segment_def close_segment_src split: sum.splits)

lemma src_step_start: "src_step st u (advance u (start_token st))"
  by (auto simp: src_step_def split: option.splits)

lemma src_step_eq: "ls_src st1 = ls_src st1' \<Longrightarrow> ls_src st2 = ls_src st2' \<Longrightarrow>
    src_step st1 u st2 = src_step st1' u st2'"
  by (simp add: src_step_def)

lemma src_step_None: "ls_src st' = None \<Longrightarrow> src_step st u st'"
  by (simp add: src_step_def)

lemma src_step_keep: "ls_src st' = ls_src st \<Longrightarrow> src_step st u (advance u st')"
  by (simp add: src_step_def)

lemma src_start:
  "ls_src st' = map_option (\<lambda>v. v @ u) (ls_src (start_token st)) \<Longrightarrow> src_step st u st'"
  by (auto simp: src_step_def split: option.splits)

lemma advance_advance: "advance v (advance u st) = advance (u @ v) st"
  by (cases "ls_src st") (simp_all add: advance_def)

lemma write_write: "write_word v (write_word u st) = write_word (u @ v) st"
  by (simp add: write_word_def)

lemma write_advance: "write_word v (advance u st) = advance u (write_word v st)"
  by (simp add: write_word_def advance_def)

lemma advance_Nil: "advance [] st = st"
  by (cases "ls_src st") (simp_all add: advance_def)

lemmas reading_simps = advance_advance write_write write_advance advance_Nil

lemma start_token_idem [simp]: "ls_src st \<noteq> None \<Longrightarrow> start_token st = st"
  by (simp add: start_token_def)

lemma start_token_write [simp]: "start_token (write_word w st) = write_word w (start_token st)"
  by (simp add: start_token_def write_word_def)

lemma start_token_twice [simp]:
  "start_token (start_token st) = start_token st"
  "start_token (advance u (start_token st)) = advance u (start_token st)"
  "start_token (advance u (write_word w (start_token st))) = advance u (write_word w (start_token st))"
  by (auto simp: start_token_def advance_def write_word_def)

section \<open>Well-formed states\<close>

definition lscan_ok :: "lscan \<Rightarrow> bool" where
  "lscan_ok st \<longleftrightarrow>
     (\<forall>k. ls_pending st = Some k \<longrightarrow> k < length (ls_redirs st))
     \<and> (ls_in_word st \<or> ls_words st \<noteq> [] \<longrightarrow> ls_src st \<noteq> None)"

text \<open>A result that is no panic and, when it is a state, a well-formed one.\<close>

definition ok_result :: "exec_error + lscan \<Rightarrow> bool" where
  "ok_result res = (case res of Inl e \<Rightarrow> e \<noteq> Slice_panic | Inr st \<Rightarrow> lscan_ok st)"

definition ok_pair :: "exec_error + lscan \<times> string \<Rightarrow> bool" where
  "ok_pair res = (case res of Inl e \<Rightarrow> e \<noteq> Slice_panic | Inr (st, r) \<Rightarrow> lscan_ok st)"

lemmas ok_defs = lscan_ok_def ok_result_def ok_pair_def

lemma lscan_ok_ops [simp]:
  "lscan_ok (advance u st) = lscan_ok st"
  "lscan_ok st \<Longrightarrow> lscan_ok (write_word w (start_token st))"
  "lscan_ok st \<Longrightarrow> lscan_ok (start_token st)"
  "lscan_ok st \<Longrightarrow> lscan_ok (push_redirect op st)"
  "lscan_ok st \<Longrightarrow> lscan_ok (add_plain_redirect op st)"
  "lscan_ok st \<Longrightarrow> lscan_ok (st\<lparr>ls_word := [], ls_in_word := False\<rparr>)"
  by (auto simp: lscan_ok_def write_word_def start_token_def push_redirect_def add_plain_redirect_def
      split: option.splits)

lemma lscan_ok_init [simp]: "lscan_ok init_lscan"
  by (simp add: lscan_ok_def init_lscan_def)

lemma flush_list_word_ok: "lscan_ok st \<Longrightarrow> ok_result (flush_list_word st)"
  by (auto simp: ok_defs flush_list_word_def Let_def split: option.splits)

lemma flush_list_word_done:
  "flush_list_word st = Inr st' \<Longrightarrow> \<not> ls_in_word st'"
  by (auto simp: flush_list_word_def Let_def split: if_splits option.splits)

lemma close_segment_ok: "lscan_ok st \<Longrightarrow> \<not> ls_in_word st \<Longrightarrow> ok_result (close_segment st)"
  by (auto simp: ok_defs close_segment_def split: option.splits list.splits)

lemma flush_list_segment_ok: "lscan_ok st \<Longrightarrow> ok_result (flush_list_segment st)"
proof -
  assume ok: "lscan_ok st"
  show ?thesis
  proof (cases "flush_list_word st")
    case (Inl e)
    with flush_list_word_ok [OF ok] show ?thesis by (simp add: flush_list_segment_def ok_result_def)
  next
    case (Inr st')
    with flush_list_word_ok [OF ok] have "lscan_ok st'" by (simp add: ok_result_def)
    with close_segment_ok flush_list_word_done [OF Inr] Inr show ?thesis
      by (simp add: flush_list_segment_def)
  qed
qed

lemma list_finish_ok: "lscan_ok st \<Longrightarrow> ok_result (list_finish st)"
proof -
  assume ok: "lscan_ok st"
  show ?thesis
  proof (cases "flush_list_word st")
    case (Inl e)
    with flush_list_word_ok [OF ok] show ?thesis by (simp add: list_finish_def ok_result_def)
  next
    case (Inr st')
    with flush_list_word_ok [OF ok] have ok': "lscan_ok st'" by (simp add: ok_result_def)
    then have "ls_pending st' = Some k \<Longrightarrow> k < length (ls_redirs st')" for k
      by (simp add: lscan_ok_def)
    with Inr flush_list_segment_ok [OF ok'] ok' show ?thesis
      by (auto simp: list_finish_def ok_result_def split: option.splits)
  qed
qed

section \<open>Segments are slices of the command\<close>

text \<open>The texts occur in the string one after the other, without overlap.\<close>

fun slices :: "string list \<Rightarrow> string \<Rightarrow> bool" where
  "slices [] s = True"
| "slices (t # ts) s = (\<exists>u v. s = u @ t @ v \<and> slices ts v)"

lemma slices_append: "slices ts s \<Longrightarrow> slices ts (s @ v)"
  by (induction ts arbitrary: s) fastforce+

lemma slices_snoc: "slices ts a \<Longrightarrow> slices (ts @ [t]) (a @ u @ t @ v)"
proof (induction ts arbitrary: a)
  case Nil
  show ?case by (simp, intro exI [of _ "a @ u"] exI [of _ v]) simp
next
  case (Cons x ts)
  then obtain p q where "a = p @ x @ q" "slices ts q" by auto
  with Cons.IH [of q] show ?case by (simp, intro exI [of _ p] exI [of _ "q @ u @ t @ v"]) simp
qed

definition seg_texts :: "lscan \<Rightarrow> string list" where
  "seg_texts st = List.map seg_text (ls_segs st)"

text \<open>What a step does to the segments: none is added, or the current slice becomes one.\<close>

definition segs_step :: "lscan \<Rightarrow> lscan \<Rightarrow> bool" where
  "segs_step st st' \<longleftrightarrow> ls_segs st' = ls_segs st
     \<or> (\<exists>v. ls_src st = Some v \<and> seg_texts st' = seg_texts st @ [trim_space v] \<and> ls_src st' = None)"

lemma segs_simps [simp]:
  "ls_segs (start_token st) = ls_segs st" "ls_segs (write_word w st) = ls_segs st"
  "ls_segs (push_redirect op st) = ls_segs st" "ls_segs (add_plain_redirect op st) = ls_segs st"
  by (simp_all add: start_token_def write_word_def push_redirect_def add_plain_redirect_def)

lemma flush_list_word_segs: "flush_list_word st = Inr st' \<Longrightarrow> ls_segs st' = ls_segs st"
  by (auto simp: flush_list_word_def Let_def split: if_splits option.splits)

lemma flush_list_segment_segs:
  assumes "flush_list_segment st = Inr st'"
  shows "\<exists>v. ls_src st = Some v \<and> seg_texts st' = seg_texts st @ [trim_space v] \<and> ls_src st' = None"
proof -
  from assms obtain st1 where f: "flush_list_word st = Inr st1" and c: "close_segment st1 = Inr st'"
    by (auto simp: flush_list_segment_def split: sum.splits)
  from c obtain v where "ls_src st1 = Some v" "seg_texts st' = seg_texts st1 @ [trim_space v]" "ls_src st' = None"
    by (auto simp: close_segment_def seg_texts_def split: option.splits list.splits if_splits)
  with flush_list_word_src [OF f] flush_list_word_segs [OF f] show ?thesis
    by (intro exI [of _ v]) (simp add: seg_texts_def)
qed

text \<open>The read part of the command is the texts of the segments, then the current slice.\<close>

definition src_inv :: "string \<Rightarrow> lscan \<Rightarrow> bool" where
  "src_inv pre st \<longleftrightarrow> (\<exists>a b. pre = a @ b \<and> slices (seg_texts st) a \<and> (ls_src st = None \<or> ls_src st = Some b))"

lemma src_inv_None: "slices (seg_texts st) pre \<Longrightarrow> ls_src st = None \<Longrightarrow> src_inv pre st"
  unfolding src_inv_def by (intro exI [of _ pre] exI [of _ "[]"]) simp

lemma slices_close: "slices ts a \<Longrightarrow> slices (ts @ [trim_space b]) (a @ b @ u)"
  using trim_space_sublist [of b] slices_snoc by (metis append_assoc)

lemma src_inv_finish: "list_finish st = Inr st' \<Longrightarrow> src_inv raw st \<Longrightarrow> slices (seg_texts st') raw"
proof -
  assume fin: "list_finish st = Inr st'" and inv: "src_inv raw st"
  from fin obtain st1 where f: "flush_list_word st = Inr st1" and c: "st' = st1 \<or> flush_list_segment st1 = Inr st'"
    by (auto simp: list_finish_def split: sum.splits option.splits if_splits)
  from inv obtain a b where ab: "raw = a @ b" "slices (seg_texts st) a" "ls_src st = None \<or> ls_src st = Some b"
    by (auto simp: src_inv_def)
  have same: "seg_texts st1 = seg_texts st" "ls_src st1 = ls_src st"
    using flush_list_word_segs [OF f] flush_list_word_src [OF f] by (simp_all add: seg_texts_def)
  from c show ?thesis
  proof
    assume "st' = st1"
    with ab same show ?thesis by (simp add: slices_append)
  next
    assume "flush_list_segment st1 = Inr st'"
    from flush_list_segment_segs [OF this] ab same slices_close [of "seg_texts st" a b "[]"] show ?thesis by auto
  qed
qed

lemma src_inv_init: "src_inv [] init_lscan"
  by (intro src_inv_None) (simp_all add: seg_texts_def init_lscan_def)

section \<open>Inside a segment\<close>

text \<open>A state inside a segment: the words, the redirections and the source slice so far.\<close>

definition in_segment :: "string list \<Rightarrow> redirect_spec list \<Rightarrow> string \<Rightarrow> lscan" where
  "in_segment ws rds src = \<lparr>ls_segs = [], ls_word = [], ls_in_word = False, ls_words = ws,
     ls_redirs = rds, ls_src = Some src, ls_pending = None\<rparr>"

definition in_word :: "string list \<Rightarrow> redirect_spec list \<Rightarrow> string \<Rightarrow> string \<Rightarrow> lscan" where
  "in_word ws rds src w = \<lparr>ls_segs = [], ls_word = w, ls_in_word = True, ls_words = ws,
     ls_redirs = rds, ls_src = Some src, ls_pending = None\<rparr>"

lemma in_segment_word:
  "advance u (write_word w (start_token (in_segment ws rds src))) = in_word ws rds (src @ u) w"
  "advance u (write_word w (start_token init_lscan)) = in_word [] [] u w"
  "advance u (in_segment ws rds src) = in_segment ws rds (src @ u)"
  by (simp_all add: in_segment_def in_word_def advance_def write_word_def start_token_def init_lscan_def)

lemma in_word_flush: "flush_list_word (in_word ws rds src w) = Inr (in_segment (ws @ [w]) rds src)"
  by (simp add: flush_list_word_def in_word_def in_segment_def)

lemma in_segment_flush:
  "flush_list_segment (in_segment (p # args) rds src) = Inr (init_lscan\<lparr>ls_segs :=
     [\<lparr>seg_program = normalize_program p, seg_args = args, seg_redirects = rds,
       seg_text = trim_space src\<rparr>]\<rparr>)"
  by (simp add: flush_list_segment_def close_segment_def flush_list_word_def in_segment_def init_lscan_def)

lemma in_segment_finish:
  assumes "ws @ [w] = p # args"
  shows "list_finish (in_word ws rds src w) = Inr (init_lscan\<lparr>ls_segs :=
     [\<lparr>seg_program = normalize_program p, seg_args = args, seg_redirects = rds,
       seg_text = trim_space src\<rparr>]\<rparr>)"
proof -
  have "ls_pending (in_segment (p # args) rds src) = None" "ls_words (in_segment (p # args) rds src) = p # args"
    by (simp_all add: in_segment_def)
  then show ?thesis unfolding list_finish_def in_word_flush assms by (simp add: in_segment_flush)
qed

section \<open>The interface of a reader\<close>

text \<open>
  A reader is one iteration of its loop (\<open>step\<close>), the loop (\<open>run\<close>) and the function the rest
  of the program calls (\<open>parse\<close>).  An iteration keeps the state well formed, consumes at least
  one byte, and adds a segment only by closing the current slice.
\<close>

locale segment_scanner =
  fixes step :: "lscan \<Rightarrow> char \<Rightarrow> string \<Rightarrow> exec_error + lscan \<times> string"
    and run :: "lscan \<Rightarrow> string \<Rightarrow> exec_error + lscan"
    and parse :: "string \<Rightarrow> exec_error + segment list"
  assumes run_Nil: "run st [] = Inr st"
    and run_Cons: "run st (c # rest) = (case step st c rest of Inl e \<Rightarrow> Inl e | Inr (st', r) \<Rightarrow> run st' r)"
    and parse_run: "parse raw = (case run init_lscan raw of
        Inl e \<Rightarrow> Inl e
      | Inr st \<Rightarrow> (case list_finish st of
            Inl e \<Rightarrow> Inl e
          | Inr st' \<Rightarrow> if ls_segs st' = [] then Inl Empty_command else Inr (ls_segs st')))"
    and step_ok: "lscan_ok st \<Longrightarrow> ok_pair (step st c rest)"
    and step_consumes: "step st c rest = Inr (st', r) \<Longrightarrow> \<exists>u. u \<noteq> [] \<and> c # rest = u @ r \<and> src_step st u st'"
    and step_segs: "step st c rest = Inr (st', r) \<Longrightarrow> segs_step st st'"
begin

lemma step_shorter: "step st c rest = Inr (st', r) \<Longrightarrow> length r < Suc (length rest)"
  by (drule step_consumes) (auto simp: Cons_eq_append_conv)

text \<open>Induction on an accepting run.\<close>

lemma run_induct [consumes 1, case_names end_of_input iterate]:
  assumes "run st s = Inr st'"
    and "\<And>st. st = st' \<Longrightarrow> P st []"
    and "\<And>st c rest st1 r. step st c rest = Inr (st1, r) \<Longrightarrow> run st1 r = Inr st' \<Longrightarrow> P st1 r \<Longrightarrow> P st (c # rest)"
  shows "P st s"
  using assms(1)
proof (induction s arbitrary: st rule: length_induct)
  case (1 s)
  show ?case
  proof (cases s)
    case Nil
    with "1.prems" show ?thesis by (simp add: run_Nil assms(2))
  next
    case (Cons c rest)
    with "1.prems" obtain st1 r where step: "step st c rest = Inr (st1, r)" "run st1 r = Inr st'"
      by (auto simp: run_Cons split: sum.splits prod.splits)
    with "1.IH" step_shorter [OF step(1)] Cons have "P st1 r" by simp
    with assms(3) [OF step] Cons show ?thesis by simp
  qed
qed

lemma run_ok: "lscan_ok st \<Longrightarrow> ok_result (run st s)"
proof (induction s arbitrary: st rule: length_induct)
  case (1 s)
  show ?case
  proof (cases s)
    case Nil
    with "1.prems" show ?thesis by (simp add: run_Nil ok_result_def)
  next
    case (Cons c rest)
    show ?thesis
    proof (cases "step st c rest")
      case (Inl e)
      with step_ok [OF "1.prems", of c rest] Cons show ?thesis
        by (simp add: run_Cons ok_pair_def ok_result_def)
    next
      case (Inr p)
      obtain st1 r where p: "p = (st1, r)" by fastforce
      with Inr step_ok [OF "1.prems", of c rest] have "lscan_ok st1" by (simp add: ok_pair_def)
      with "1.IH" step_shorter [of st c rest st1 r] Inr p Cons have "ok_result (run st1 r)" by simp
      with Inr p Cons show ?thesis by (simp add: run_Cons)
    qed
  qed
qed

lemma parse_no_panic: "parse raw \<noteq> Inl Slice_panic"
proof (cases "run init_lscan raw")
  case (Inl e)
  with run_ok [of init_lscan raw] show ?thesis by (simp add: parse_run ok_result_def)
next
  case (Inr st)
  with run_ok [of init_lscan raw] list_finish_ok [of st] show ?thesis
    by (auto simp: parse_run ok_result_def split: sum.splits)
qed

lemma parse_accepts:
  assumes "parse raw = Inr segs"
  obtains st st' where "run init_lscan raw = Inr st" "list_finish st = Inr st'" "ls_segs st' = segs" "segs \<noteq> []"
  using assms by (auto simp: parse_run split: sum.splits if_splits)

lemma src_inv_step:
  assumes "step st c rest = Inr (st', r)" "src_inv pre st"
  obtains u where "c # rest = u @ r" "src_inv (pre @ u) st'"
proof -
  from step_consumes [OF assms(1)] obtain u where u: "c # rest = u @ r" "src_step st u st'" by blast
  from assms(2) obtain a b where ab: "pre = a @ b" "slices (seg_texts st) a" "ls_src st = None \<or> ls_src st = Some b"
    by (auto simp: src_inv_def)
  from step_segs [OF assms(1)] consider (keep) "seg_texts st' = seg_texts st"
    | (close) v where "ls_src st = Some v" "seg_texts st' = seg_texts st @ [trim_space v]" "ls_src st' = None"
    by (auto simp: segs_step_def seg_texts_def)
  then have "src_inv (pre @ u) st'"
  proof cases
    case keep
    from u(2) consider "ls_src st' = None" | "ls_src st = Some b" "ls_src st' = Some (b @ u)"
      | "ls_src st = None" "ls_src st' = Some u"
      using ab(3) by (auto simp: src_step_def)
    then show ?thesis
    proof cases
      case 1
      with ab keep show ?thesis by (intro src_inv_None) (simp_all add: slices_append)
    next
      case 2
      with ab keep show ?thesis unfolding src_inv_def by (intro exI [of _ a] exI [of _ "b @ u"]) simp
    next
      case 3
      with ab keep show ?thesis unfolding src_inv_def
        by (intro exI [of _ pre] exI [of _ u]) (simp add: slices_append)
    qed
  next
    case close
    with ab show ?thesis by (intro src_inv_None) (simp_all add: slices_close)
  qed
  with u(1) show ?thesis by (rule that)
qed


lemma src_inv_run: "run st s = Inr st' \<Longrightarrow> src_inv pre st \<Longrightarrow> src_inv (pre @ s) st'"
proof (induction arbitrary: pre rule: run_induct)
  case (iterate st c rest st1 r)
  from src_inv_step [OF iterate(1,4)] obtain u where "c # rest = u @ r" "src_inv (pre @ u) st1" .
  with iterate(3) show ?case by fastforce
qed simp

lemma parse_slices: "parse raw = Inr segs \<Longrightarrow> segs \<noteq> [] \<and> slices (List.map seg_text segs) raw"
proof -
  assume "parse raw = Inr segs"
  then obtain st st' where r: "run init_lscan raw = Inr st" "list_finish st = Inr st'" "ls_segs st' = segs" "segs \<noteq> []"
    by (rule parse_accepts)
  from src_inv_finish [OF r(2) src_inv_run [OF r(1) src_inv_init, simplified]] r(3,4) show ?thesis
    by (simp add: seg_texts_def)
qed

end

end
