(* ===== verification/ExecList.thy ===== *)
theory ExecList
  imports ListScanner
begin

text \<open>
  The lenient command-list reader of \<open>internal/execpolicy/commandlist.go\<close>: it splits a POSIX
  command line into the segments a shell would run.
\<close>

section \<open>Methods of the POSIX reader\<close>

text \<open>The loop of \<open>scanQuoted\<close>, after the opening quote.\<close>

fun quoted_loop :: "char \<Rightarrow> lscan \<Rightarrow> string \<Rightarrow> exec_error + lscan \<times> string" where
  "quoted_loop q st [] = Inl Unterminated_quote"
| "quoted_loop q st (c # rest) =
     (if c = q then Inr (advance [c] st, rest)
      else if q = dquote \<and> c = btick then Inl Backtick_rejected
      else if q = dquote \<and> c = CHR ''$'' \<and> rest \<noteq> [] \<and> hd rest = CHR ''('' then Inl Command_subst_rejected
      else if c = bslash \<and> q = dquote then
        (case rest of
           [] \<Rightarrow> Inl Trailing_escape
         | x # rest' \<Rightarrow> quoted_loop q (advance [c, x] (write_word [x] st)) rest')
      else quoted_loop q (advance [c] (write_word [c] st)) rest)"

definition scan_quoted :: "char \<Rightarrow> lscan \<Rightarrow> string \<Rightarrow> exec_error + lscan \<times> string" where
  "scan_quoted q st rest = quoted_loop q (advance [q] (write_word [] (start_token st))) rest"

text \<open>\<open>scanAmpersand\<close> on the input after the ampersand.\<close>

definition scan_ampersand :: "lscan \<Rightarrow> string \<Rightarrow> exec_error + lscan \<times> string" where
  "scan_ampersand st rest =
     (case rest of
        d # r \<Rightarrow>
          if d = CHR ''&'' then
            (case flush_list_segment st of Inl e \<Rightarrow> Inl e | Inr st' \<Rightarrow> Inr (advance ''&&'' st', r))
          else if d = CHR ''>'' then
            (let st' = advance ''&>'' (start_token st)
             in if r \<noteq> [] \<and> hd r = CHR ''>''
                then Inr (push_redirect ''&>>'' (advance ''>'' st'), tl r)
                else Inr (push_redirect ''&>'' st', r))
          else Inl Background_rejected
      | [] \<Rightarrow> Inl Background_rejected)"

text \<open>\<open>scanRedirect\<close> after the file descriptor was split off; \<open>rest\<close> follows the first angle bracket.\<close>

definition redirect_tail :: "string \<Rightarrow> char \<Rightarrow> lscan \<Rightarrow> string \<Rightarrow> exec_error + lscan \<times> string" where
  "redirect_tail fd c st rest =
     (let doubled = (head_or_zero rest = c);
          op = (if doubled then [c, c] else [c]);
          st1 = advance op (start_token st);
          r1 = (if doubled then tl rest else rest)
      in if doubled \<and> c = CHR ''<'' then Inl Heredoc_rejected
         else if head_or_zero r1 = CHR ''('' then Inl Process_subst_rejected
         else if head_or_zero r1 = CHR ''&'' then
           (let r2 = tl r1; ds = takeWhile is_digit r2; r3 = dropWhile is_digit r2
            in if ds \<noteq> [] \<and> is_redirect_word_boundary (head_or_zero r3)
               then Inr (advance (CHR ''&'' # ds) (add_plain_redirect (fd @ op @ CHR ''&'' # ds) st1), r3)
               else if head_or_zero r2 = CHR ''-''
               then Inr (advance ''&-'' (add_plain_redirect (fd @ op @ ''&-'') st1), tl r2)
               else Inr (push_redirect (fd @ op @ ''&'') (advance ''&'' st1), r2))
         else Inr (push_redirect (fd @ op) st1, r1))"

definition scan_redirect :: "char \<Rightarrow> lscan \<Rightarrow> string \<Rightarrow> exec_error + lscan \<times> string" where
  "scan_redirect c st rest =
     (if ls_in_word st \<and> is_digits (ls_word st)
      then redirect_tail (ls_word st) c (st\<lparr>ls_word := [], ls_in_word := False\<rparr>) rest
      else (case flush_list_word st of Inl e \<Rightarrow> Inl e | Inr st' \<Rightarrow> redirect_tail [] c st' rest))"

section \<open>The loop\<close>

text \<open>One iteration of the loop of \<open>run\<close> at the byte \<open>c\<close>; the result is the remaining input.\<close>

definition list_step :: "lscan \<Rightarrow> char \<Rightarrow> string \<Rightarrow> exec_error + lscan \<times> string" where
  "list_step st c rest =
     (if c = squote \<or> c = dquote then scan_quoted c st rest
      else if c = bslash then
        (case rest of
           [] \<Rightarrow> Inl Trailing_escape
         | x # r \<Rightarrow> Inr (advance [c, x] (write_word [x] (start_token st)), r))
      else if c = CHR '' '' \<or> c = tab_c then
        (case flush_list_word st of Inl e \<Rightarrow> Inl e | Inr st' \<Rightarrow> Inr (advance [c] st', rest))
      else if c = newline_c \<or> c = cr_c then Inl Newline_rejected
      else if c = btick then Inl Backtick_rejected
      else if c = CHR ''$'' \<and> head_or_zero rest = squote then
        (case DecodeANSICSpan (tl rest) of
           None \<Rightarrow> Inl Unterminated_ansic
         | Some (lit, r) \<Rightarrow>
             Inr (advance (take (Suc (length rest) - length r) (c # rest))
                    (write_word lit (start_token st)), r))
      else if c = CHR ''$'' \<and> head_or_zero rest = CHR ''('' then Inl Command_subst_rejected
      else if c = CHR ''('' \<or> c = CHR '')'' then Inl Subshell_rejected
      else if c = CHR '';'' then
        (case flush_list_segment st of Inl e \<Rightarrow> Inl e | Inr st' \<Rightarrow> Inr (advance [c] st', rest))
      else if c = CHR ''|'' then
        (case flush_list_segment st of
           Inl e \<Rightarrow> Inl e
         | Inr st' \<Rightarrow>
             if head_or_zero rest = CHR ''|'' then Inr (advance ''||'' st', tl rest)
             else Inr (advance ''|'' st', rest))
      else if c = CHR ''&'' then scan_ampersand st rest
      else if c = CHR ''>'' \<or> c = CHR ''<'' then scan_redirect c st rest
      else Inr (advance [c] (write_word [c] (start_token st)), rest))"

lemma quoted_loop_consumes:
  "quoted_loop q st s = Inr (st', r) \<Longrightarrow>
     \<exists>u. u \<noteq> [] \<and> s = u @ r \<and> ls_src st' = map_option (\<lambda>v. v @ u) (ls_src st)"
proof (induction q st s rule: quoted_loop.induct)
  case (2 q st c rest)
  show ?case
  proof (cases "c = q")
    case True
    with "2.prems" show ?thesis by (intro exI [of _ "[c]"]) auto
  next
    case ncq: False
    show ?thesis
    proof (cases "c = bslash \<and> q = dquote")
      case True
      with "2.prems" ncq obtain x rest' where r: "rest = x # rest'" by (cases rest) auto
      with True ncq "2.prems" "2.IH"(1) obtain u where
        "u \<noteq> [] \<and> rest' = u @ r \<and> ls_src st' = map_option (\<lambda>v. v @ u) (ls_src (advance [c, x] (write_word [x] st)))"
        by auto
      with r show ?thesis
        by (intro exI [of _ "c # x # u"]) (auto simp: write_word_def option.map_comp comp_def)
    next
      case False
      with ncq "2.prems" "2.IH"(2) obtain u where
        "u \<noteq> [] \<and> rest = u @ r \<and> ls_src st' = map_option (\<lambda>v. v @ u) (ls_src (advance [c] (write_word [c] st)))"
        by (auto split: if_splits)
      then show ?thesis
        by (intro exI [of _ "c # u"]) (auto simp: write_word_def option.map_comp comp_def)
    qed
  qed
qed simp

lemma scan_quoted_consumes:
  "scan_quoted q st rest = Inr (st', r) \<Longrightarrow> \<exists>u. u \<noteq> [] \<and> q # rest = u @ r \<and> src_step st u st'"
proof -
  assume a: "scan_quoted q st rest = Inr (st', r)"
  then obtain u where "rest = u @ r"
    "ls_src st' = map_option (\<lambda>v. v @ u) (ls_src (advance [q] (write_word [] (start_token st))))"
    unfolding scan_quoted_def by (blast dest: quoted_loop_consumes)
  then show ?thesis
    by (intro exI [of _ "q # u"]) (auto intro!: src_start simp: option.map_comp comp_def)
qed

lemma redirect_tail_consumes:
  assumes "redirect_tail fd c st rest = Inr (st', r)" "c = CHR ''>'' \<or> c = CHR ''<''"
  shows "\<exists>u. u \<noteq> [] \<and> c # rest = u @ r \<and> src_step st u st'"
proof -
  define op r1 where "op = (if head_or_zero rest = c then [c, c] else [c])"
    and "r1 = (if head_or_zero rest = c then tl rest else rest)"
  note defs = op_def r1_def
  have s1: "c # rest = op @ r1"
    using head_or_zero_Cons [of rest c] assms(2) by (auto simp: defs)
  have ne: "op \<noteq> []" by (simp add: defs)
  have amp: "r1 = CHR ''&'' # tl r1" if "head_or_zero r1 = CHR ''&''"
    by (rule head_or_zero_Cons [OF that]) simp
  have minus: "tl r1 = CHR ''-'' # tl (tl r1)" if "head_or_zero (tl r1) = CHR ''-''"
    by (rule head_or_zero_Cons [OF that]) simp
  let ?st1 = "advance op (start_token st)"
  consider (plain) "r = r1" "ls_src st' = ls_src ?st1"
    | (dup) "head_or_zero r1 = CHR ''&''" "r = dropWhile is_digit (tl r1)"
        "ls_src st' = ls_src (advance (CHR ''&'' # takeWhile is_digit (tl r1)) ?st1)"
    | (close) "head_or_zero r1 = CHR ''&''" "head_or_zero (tl r1) = CHR ''-''" "r = tl (tl r1)"
        "ls_src st' = ls_src (advance ''&-'' ?st1)"
    | (word) "head_or_zero r1 = CHR ''&''" "r = tl r1" "ls_src st' = ls_src (advance ''&'' ?st1)"
    using assms(1) unfolding redirect_tail_def Let_def op_def [symmetric] r1_def [symmetric]
    by (auto split: if_splits)
  then obtain u where u: "op @ r1 = (op @ u) @ r" "ls_src st' = ls_src (advance u ?st1)"
  proof cases
    case plain
    then show ?thesis by (intro that [of "[]"]) (auto split: option.splits)
  next
    case dup
    from dup(2) have "r1 = (CHR ''&'' # takeWhile is_digit (tl r1)) @ r"
      by (subst amp [OF dup(1)]) simp
    with dup(3) show ?thesis by (intro that) simp_all
  next
    case close
    from close(3) have "r1 = ''&-'' @ r"
      by (subst amp [OF close(1)], subst minus [OF close(2)]) simp
    with close(4) show ?thesis by (intro that [of "''&-''"]) simp_all
  next
    case word
    from word(2) have "r1 = ''&'' @ r" by (subst amp [OF word(1)]) simp
    with word(3) show ?thesis by (intro that [of "''&''"]) simp_all
  qed
  then show ?thesis
    using s1 ne by (intro exI [of _ "op @ u"]) (auto intro!: src_start simp: option.map_comp comp_def)
qed

lemma scan_redirect_consumes:
  assumes "scan_redirect c st rest = Inr (st', r)" "c = CHR ''>'' \<or> c = CHR ''<''"
  shows "\<exists>u. u \<noteq> [] \<and> c # rest = u @ r \<and> src_step st u st'"
proof -
  obtain fd st0 where t: "redirect_tail fd c st0 rest = Inr (st', r)" and s: "ls_src st0 = ls_src st"
  proof (cases "ls_in_word st \<and> is_digits (ls_word st)")
    case True
    with assms(1) show ?thesis
      by (intro that [of "ls_word st" "st\<lparr>ls_word := [], ls_in_word := False\<rparr>"])
         (simp_all add: scan_redirect_def)
  next
    case False
    with assms(1) obtain st0 where "flush_list_word st = Inr st0" "redirect_tail [] c st0 rest = Inr (st', r)"
      by (auto simp: scan_redirect_def split: sum.splits)
    then show ?thesis by (intro that [of "[]" st0]) (simp_all add: flush_list_word_src)
  qed
  from redirect_tail_consumes [OF t assms(2)] show ?thesis unfolding src_step_def s .
qed

lemma scan_ampersand_consumes:
  assumes "scan_ampersand st rest = Inr (st', r)"
  shows "\<exists>u. u \<noteq> [] \<and> CHR ''&'' # rest = u @ r \<and> src_step st u st'"
proof -
  from assms obtain d t where rest: "rest = d # t" by (cases rest) (auto simp: scan_ampersand_def)
  consider (and_if) st1 where "d = CHR ''&''" "flush_list_segment st = Inr st1" "st' = advance ''&&'' st1" "r = t"
    | (append) "d = CHR ''>''" "t = CHR ''>'' # r" "st' = push_redirect ''&>>'' (advance ''>'' (advance ''&>'' (start_token st)))"
    | (wr) "d = CHR ''>''" "t = r" "st' = push_redirect ''&>'' (advance ''&>'' (start_token st))"
    using assms rest by (cases t) (auto simp: scan_ampersand_def Let_def split: if_splits sum.splits)
  then show ?thesis
  proof cases
    case and_if
    then show ?thesis using rest
      by (intro exI [of _ "''&&''"]) (auto intro!: src_step_None simp: flush_list_segment_src)
  next
    case append
    then show ?thesis using rest
      by (intro exI [of _ "''&>>''"]) (auto intro!: src_start simp: option.map_comp comp_def)
  next
    case wr
    then show ?thesis using rest by (intro exI [of _ "''&>''"]) (auto intro!: src_start)
  qed
qed

lemma list_step_consumes:
  assumes "list_step st c rest = Inr (st', r)"
  shows "\<exists>u. u \<noteq> [] \<and> c # rest = u @ r \<and> src_step st u st'"
proof -
  consider (quote) "c = squote \<or> c = dquote" | (esc) "c = bslash" | (blank) "c = CHR '' '' \<or> c = tab_c"
    | (ansic) "c = CHR ''$''" "head_or_zero rest = squote" | (semi) "c = CHR '';''"
    | (bar) "c = CHR ''|''" | (amp) "c = CHR ''&''" | (redir) "c = CHR ''>'' \<or> c = CHR ''<''"
    | (plain) "r = rest" "st' = advance [c] (write_word [c] (start_token st))"
    using assms by (auto simp: list_step_def split: if_splits)
  then show ?thesis
  proof cases
    case quote
    with assms have "scan_quoted c st rest = Inr (st', r)" by (auto simp: list_step_def)
    then show ?thesis by (rule scan_quoted_consumes)
  next
    case esc
    with assms obtain x where "rest = x # r" "st' = advance [c, x] (write_word [x] (start_token st))"
      by (cases rest) (auto simp: list_step_def)
    then show ?thesis by (intro exI [of _ "[c, x]"]) (auto intro!: src_start)
  next
    case blank
    with assms obtain st1 where "flush_list_word st = Inr st1" "st' = advance [c] st1" "r = rest"
      by (auto simp: list_step_def split: sum.splits)
    then show ?thesis
      by (intro exI [of _ "[c]"]) (auto intro!: src_step_keep dest: flush_list_word_src)
  next
    case ansic
    with assms obtain lit where d: "DecodeANSICSpan (tl rest) = Some (lit, r)"
      and st': "st' = advance (take (Suc (length rest) - length r) (c # rest)) (write_word lit (start_token st))"
      by (auto simp: list_step_def split: option.splits)
    from d obtain u where u: "tl rest = u @ r"
      unfolding DecodeANSICSpan_def by (blast dest: ansic_span_suffix)
    have "rest = squote # tl rest" using head_or_zero_Cons [OF ansic(2)] by simp
    then have e: "c # rest = (c # squote # u) @ r" using u by simp
    then have "take (Suc (length rest) - length r) (c # rest) = c # squote # u"
      by (metis append_eq_conv_conj diff_add_inverse2 length_Cons length_append)
    with e st' show ?thesis by (intro exI [of _ "c # squote # u"]) (auto intro!: src_start)
  next
    case semi
    with assms obtain st1 where "flush_list_segment st = Inr st1" "st' = advance [c] st1" "r = rest"
      by (auto simp: list_step_def split: sum.splits)
    then show ?thesis
      by (intro exI [of _ "[c]"]) (auto intro!: src_step_None simp: flush_list_segment_src)
  next
    case bar
    show ?thesis
    proof (cases "head_or_zero rest = CHR ''|''")
      case True
      with assms bar obtain st1 where "flush_list_segment st = Inr st1" "st' = advance ''||'' st1" "r = tl rest"
        by (auto simp: list_step_def split: sum.splits)
      then show ?thesis using head_or_zero_Cons [OF True] bar
        by (intro exI [of _ "''||''"]) (auto intro!: src_step_None simp: flush_list_segment_src)
    next
      case False
      with assms bar obtain st1 where "flush_list_segment st = Inr st1" "st' = advance ''|'' st1" "r = rest"
        by (auto simp: list_step_def split: sum.splits)
      then show ?thesis using bar
        by (intro exI [of _ "''|''"]) (auto intro!: src_step_None simp: flush_list_segment_src)
    qed
  next
    case amp
    with assms have "scan_ampersand st rest = Inr (st', r)" by (simp add: list_step_def)
    with amp show ?thesis by (simp add: scan_ampersand_consumes)
  next
    case redir
    with assms have "scan_redirect c st rest = Inr (st', r)" by (auto simp: list_step_def)
    with redir show ?thesis by (simp add: scan_redirect_consumes)
  next
    case plain
    then show ?thesis by (intro exI [of _ "[c]"]) (auto intro!: src_start)
  qed
qed

lemma list_step_length: "list_step st c rest = Inr (st', r) \<Longrightarrow> length r < Suc (length rest)"
  by (drule list_step_consumes) (auto simp: Cons_eq_append_conv)

function list_run :: "lscan \<Rightarrow> string \<Rightarrow> exec_error + lscan" where
  "list_run st [] = Inr st"
| "list_run st (c # rest) =
     (case list_step st c rest of Inl e \<Rightarrow> Inl e | Inr (st', r) \<Rightarrow> list_run st' r)"
  by pat_completeness auto
termination
  by (relation "measure (\<lambda>(st, s). length s)") (auto dest: list_step_length)

definition scan_list :: "lscan \<Rightarrow> string \<Rightarrow> exec_error + segment list" where
  "scan_list st s =
     (case list_run st s of
        Inl e \<Rightarrow> Inl e
      | Inr st' \<Rightarrow> (case list_finish st' of Inl e \<Rightarrow> Inl e | Inr st'' \<Rightarrow> Inr (ls_segs st'')))"

definition ParseCommandList :: "string \<Rightarrow> exec_error + segment list" where
  "ParseCommandList raw =
     (case scan_list init_lscan raw of
        Inl e \<Rightarrow> Inl e
      | Inr segs \<Rightarrow> if segs = [] then Inl Empty_command else Inr segs)"

section \<open>The reader meets the interface\<close>

lemma quoted_loop_ok: "lscan_ok st \<Longrightarrow> ls_src st \<noteq> None \<Longrightarrow> ok_pair (quoted_loop q st s)"
proof (induction q st s rule: quoted_loop.induct)
  case (1 q st)
  then show ?case by (simp add: ok_pair_def)
next
  case (2 q st c rest)
  have w: "lscan_ok (write_word x st)" "ls_src (write_word x st) \<noteq> None" for x
    using "2.prems" by (simp_all add: lscan_ok_def write_word_def)
  consider "c = q" | "c \<noteq> q" "q = dquote \<and> c = btick \<or> q = dquote \<and> c = CHR ''$'' \<and> rest \<noteq> [] \<and> hd rest = CHR ''(''"
    | "c \<noteq> q" "\<not> (q = dquote \<and> c = btick)" "\<not> (q = dquote \<and> c = CHR ''$'' \<and> rest \<noteq> [] \<and> hd rest = CHR ''('')"
    by blast
  then show ?case
  proof cases
    case 1
    with "2.prems" show ?thesis by (simp add: ok_pair_def)
  next
    case 2
    then show ?thesis by (auto simp: ok_pair_def)
  next
    case 3
    show ?thesis
    proof (cases "c = bslash \<and> q = dquote")
      case True
      show ?thesis
      proof (cases rest)
        case Nil
        with True 3 show ?thesis by (simp add: ok_pair_def)
      next
        case (Cons x rest')
        then show ?thesis using "2.IH"(1) [OF 3 True Cons] w True 3 by simp
      qed
    next
      case False
      then show ?thesis using "2.IH"(2) [OF 3 False] w 3 by auto
    qed
  qed
qed

lemma scan_quoted_ok: "lscan_ok st \<Longrightarrow> ok_pair (scan_quoted q st rest)"
  unfolding scan_quoted_def by (intro quoted_loop_ok) (auto split: option.splits)

lemma redirect_tail_ok: "lscan_ok st \<Longrightarrow> ok_pair (redirect_tail fd c st rest)"
  by (auto simp: redirect_tail_def Let_def ok_pair_def)

lemma scan_redirect_ok: "lscan_ok st \<Longrightarrow> ok_pair (scan_redirect c st rest)"
  using flush_list_word_ok [of st] redirect_tail_ok
  by (auto simp: scan_redirect_def ok_result_def ok_pair_def [of "Inl _"] split: sum.splits)

lemma scan_ampersand_ok: "lscan_ok st \<Longrightarrow> ok_pair (scan_ampersand st rest)"
  using flush_list_segment_ok [of st]
  by (auto simp: scan_ampersand_def ok_result_def ok_pair_def Let_def split: sum.splits list.splits)

text \<open>The cases of one iteration.\<close>

lemma list_step_cases [case_names quote escape_end escape blank newline backtick ansic subst paren semi bar amp redir plain]:
  obtains "c = squote \<or> c = dquote" "list_step st c rest = scan_quoted c st rest"
  | "c = bslash" "rest = []" "list_step st c rest = Inl Trailing_escape"
  | x r where "c = bslash" "rest = x # r"
      "list_step st c rest = Inr (advance [c, x] (write_word [x] (start_token st)), r)"
  | "c = CHR '' '' \<or> c = tab_c" "list_step st c rest =
       (case flush_list_word st of Inl e \<Rightarrow> Inl e | Inr st' \<Rightarrow> Inr (advance [c] st', rest))"
  | "c = newline_c \<or> c = cr_c" "list_step st c rest = Inl Newline_rejected"
  | "c = btick" "list_step st c rest = Inl Backtick_rejected"
  | "c = CHR ''$''" "head_or_zero rest = squote" "list_step st c rest =
       (case DecodeANSICSpan (tl rest) of
           None \<Rightarrow> Inl Unterminated_ansic
         | Some (lit, r) \<Rightarrow>
             Inr (advance (take (Suc (length rest) - length r) (c # rest))
                    (write_word lit (start_token st)), r))"
  | "c = CHR ''$''" "head_or_zero rest = CHR ''(''" "list_step st c rest = Inl Command_subst_rejected"
  | "c = CHR ''('' \<or> c = CHR '')''" "list_step st c rest = Inl Subshell_rejected"
  | "c = CHR '';''" "list_step st c rest =
       (case flush_list_segment st of Inl e \<Rightarrow> Inl e | Inr st' \<Rightarrow> Inr (advance [c] st', rest))"
  | "c = CHR ''|''" "list_step st c rest =
       (case flush_list_segment st of
           Inl e \<Rightarrow> Inl e
         | Inr st' \<Rightarrow>
             if head_or_zero rest = CHR ''|'' then Inr (advance ''||'' st', tl rest)
             else Inr (advance ''|'' st', rest))"
  | "c = CHR ''&''" "list_step st c rest = scan_ampersand st rest"
  | "c = CHR ''>'' \<or> c = CHR ''<''" "list_step st c rest = scan_redirect c st rest"
  | "c \<notin> {squote, dquote, bslash, CHR '' '', tab_c, newline_c, cr_c, btick, CHR ''('', CHR '')'',
           CHR '';'', CHR ''|'', CHR ''&'', CHR ''>'', CHR ''<''}"
      "c = CHR ''$'' \<longrightarrow> head_or_zero rest \<noteq> squote \<and> head_or_zero rest \<noteq> CHR ''(''"
      "list_step st c rest = Inr (advance [c] (write_word [c] (start_token st)), rest)"
proof -
  let ?named = "{squote, dquote, bslash, CHR '' '', tab_c, newline_c, cr_c, btick, CHR ''('', CHR '')'',
                 CHR '';'', CHR ''|'', CHR ''&'', CHR ''>'', CHR ''<''}"
  note case_of = that
  show ?thesis
  proof (cases "c \<in> ?named")
    case True
    then show ?thesis unfolding insert_iff empty_iff
    proof (elim disjE FalseE, goal_cases)
      case 1 then show ?thesis by (intro case_of(1)) (auto simp: list_step_def)
    next
      case 2 then show ?thesis by (intro case_of(1)) (auto simp: list_step_def)
    next
      case 3 then show ?thesis by (cases rest) (auto intro: case_of(2,3) simp: list_step_def)
    next
      case 4 then show ?thesis by (intro case_of(4)) (auto simp: list_step_def)
    next
      case 5 then show ?thesis by (intro case_of(4)) (auto simp: list_step_def)
    next
      case 6 then show ?thesis by (intro case_of(5)) (auto simp: list_step_def)
    next
      case 7 then show ?thesis by (intro case_of(5)) (auto simp: list_step_def)
    next
      case 8 then show ?thesis by (intro case_of(6)) (auto simp: list_step_def)
    next
      case 9 then show ?thesis by (intro case_of(9)) (auto simp: list_step_def)
    next
      case 10 then show ?thesis by (intro case_of(9)) (auto simp: list_step_def)
    next
      case 11 then show ?thesis by (intro case_of(10)) (auto simp: list_step_def)
    next
      case 12 then show ?thesis by (intro case_of(11)) (auto simp: list_step_def)
    next
      case 13 then show ?thesis by (intro case_of(12)) (auto simp: list_step_def)
    next
      case 14 then show ?thesis by (intro case_of(13)) (auto simp: list_step_def)
    next
      case 15 then show ?thesis by (intro case_of(13)) (auto simp: list_step_def)
    qed
  next
    case False
    consider "c = CHR ''$''" "head_or_zero rest = squote" | "c = CHR ''$''" "head_or_zero rest = CHR ''(''"
      | "c = CHR ''$'' \<longrightarrow> head_or_zero rest \<noteq> squote \<and> head_or_zero rest \<noteq> CHR ''(''" by blast
    then show ?thesis
    proof cases
      case 1 then show ?thesis by (intro case_of(7)) (auto simp: list_step_def split: option.splits)
    next
      case 2 then show ?thesis by (intro case_of(8)) (simp_all add: list_step_def)
    next
      case 3 with False show ?thesis by (intro case_of(14)) (auto simp: list_step_def)
    qed
  qed
qed

lemma list_step_ok: "lscan_ok st \<Longrightarrow> ok_pair (list_step st c rest)"
proof (cases rule: list_step_cases [of c st rest])
  case blank
  assume ok: "lscan_ok st"
  from flush_list_word_ok [OF ok] blank show ?thesis
    by (auto simp: ok_result_def ok_pair_def split: sum.splits)
next
  case semi
  assume ok: "lscan_ok st"
  from flush_list_segment_ok [OF ok] semi show ?thesis
    by (auto simp: ok_result_def ok_pair_def split: sum.splits)
next
  case bar
  assume ok: "lscan_ok st"
  from flush_list_segment_ok [OF ok] bar show ?thesis
    by (auto simp: ok_result_def ok_pair_def split: sum.splits)
next
  case ansic
  assume ok: "lscan_ok st"
  from ansic ok show ?thesis by (auto simp: ok_pair_def split: option.splits)
qed (simp_all add: scan_quoted_ok scan_ampersand_ok scan_redirect_ok, simp_all add: ok_pair_def)

lemma quoted_loop_segs: "quoted_loop q st s = Inr (st', r) \<Longrightarrow> ls_segs st' = ls_segs st"
proof (induction q st s rule: quoted_loop.induct)
  case (2 q st c rest)
  consider "c = q" | "c \<noteq> q" "c = bslash \<and> q = dquote" | "c \<noteq> q" "\<not> (c = bslash \<and> q = dquote)" by blast
  then show ?case
  proof cases
    case 2
    with "2.prems" obtain x rest' where "rest = x # rest'" by (cases rest) auto
    with 2 "2.prems" "2.IH"(1) show ?thesis by auto
  next
    case 3
    with "2.prems" "2.IH"(2) show ?thesis by (auto split: if_splits)
  qed (use "2.prems" in auto)
qed simp

lemma list_step_segs:
  assumes "list_step st c rest = Inr (st', r)"
  shows "segs_step st st'"
proof -
  have keep: "ls_segs st' = ls_segs st \<Longrightarrow> ?thesis" by (simp add: segs_step_def)
  have flush: "?thesis" if "flush_list_segment st = Inr st1" "st' = advance u st1" for st1 u
    using flush_list_segment_segs [OF that(1)] that(2) by (auto simp: segs_step_def seg_texts_def)
  show ?thesis
  proof (cases rule: list_step_cases [of c st rest])
    case quote
    with assms show ?thesis by (intro keep) (auto simp: scan_quoted_def dest!: quoted_loop_segs)
  next
    case (escape x r')
    with assms show ?thesis by (intro keep) auto
  next
    case blank
    with assms show ?thesis by (intro keep) (auto simp: flush_list_word_segs split: sum.splits)
  next
    case ansic
    with assms show ?thesis by (intro keep) (auto split: option.splits)
  next
    case semi
    with assms obtain st1 where "flush_list_segment st = Inr st1" "st' = advance [c] st1"
      by (auto split: sum.splits)
    then show ?thesis by (rule flush)
  next
    case bar
    with assms obtain st1 u where "flush_list_segment st = Inr st1" "st' = advance u st1"
      by (auto split: sum.splits if_splits)
    then show ?thesis by (rule flush)
  next
    case amp
    with assms have "scan_ampersand st rest = Inr (st', r)" by simp
    then consider "ls_segs st' = ls_segs st" | st1 where "flush_list_segment st = Inr st1" "st' = advance ''&&'' st1"
      by (cases rest) (auto simp: scan_ampersand_def Let_def split: if_splits sum.splits)
    then show ?thesis using keep flush by cases blast+
  next
    case redir
    with assms have "scan_redirect c st rest = Inr (st', r)" by simp
    then show ?thesis
      by (intro keep) (auto simp: scan_redirect_def redirect_tail_def Let_def flush_list_word_segs split: if_splits sum.splits)
  next
    case plain
    with assms show ?thesis by (intro keep) auto
  qed (use assms in simp_all)
qed

lemma ParseCommandList_def': "ParseCommandList raw = (case list_run init_lscan raw of
    Inl e \<Rightarrow> Inl e
  | Inr st \<Rightarrow> (case list_finish st of
      Inl e \<Rightarrow> Inl e
    | Inr st' \<Rightarrow> if ls_segs st' = [] then Inl Empty_command else Inr (ls_segs st')))"
  by (auto simp: ParseCommandList_def scan_list_def split: sum.splits)

interpretation posix: segment_scanner list_step list_run ParseCommandList
  by unfold_locales
     (simp_all add: ParseCommandList_def' list_step_ok list_step_consumes list_step_segs)

text \<open>
  The command-list reader never panics: on every input, the index of the redirection that
  awaits its target is in range whenever it is used, and the source slice of a segment is cut
  only after its first token has been seen.
\<close>

theorem ParseCommandList_no_panic: "ParseCommandList raw \<noteq> Inl Slice_panic"
  by (rule posix.parse_no_panic)

end
