(* ===== verification/ExecListProps.thy ===== *)
theory ExecListProps
  imports ExecList
begin

text \<open>
  What the command-list reader guarantees: no expansion that a shell would perform survives an
  accepted command, each segment is a slice of the command, quoted words come back unchanged.
\<close>

declare reading_simps [simp]

section \<open>A shell's reading of the text\<close>

datatype shell_state = Unquoted | Comment | Single_quoted | Double_quoted | Dollar_quoted

text \<open>
  The token recognition of a POSIX shell with \<open>$'...'\<close> quoting, stated without the reader: a
  number sign at the start of a token opens a comment that ends with the line; a backslash and
  a newline outside single quotes are a continued line and no text at all; any other backslash
  quotes the next character; a \<open>$'...'\<close> span ends at the first quote that no backslash precedes,
  whatever the escape in front of it.  \<open>shell_expands\<close> asks whether the shell comes to a backtick
  or a \<open>$(\<close> where it performs command substitution: unquoted or between double quotes.  A
  \<open>${\<close> there counts too, since the shell reads the word of such an expansion by rules of its
  own.  The flag says that a token may start here.
\<close>

fun past_continuations :: "string \<Rightarrow> string" where
  "past_continuations (b # n # s) = (if b = bslash \<and> n = newline_c then past_continuations s else b # n # s)"
| "past_continuations s = s"

definition substitution_at :: "char \<Rightarrow> string \<Rightarrow> bool" where
  "substitution_at c s \<longleftrightarrow> c = btick \<or> c = CHR ''$'' \<and> head_or_zero (past_continuations s) \<in> {CHR ''('', CHR ''{''}"

definition token_break :: "char \<Rightarrow> bool" where
  "token_break c \<longleftrightarrow> c \<in> {CHR '' '', tab_c, newline_c, CHR '';'', CHR ''|'', CHR ''&'', CHR ''<'', CHR ''>'', CHR ''('', CHR '')''}"

fun shell_expands :: "shell_state \<Rightarrow> bool \<Rightarrow> string \<Rightarrow> bool" where
  "shell_expands m start [] = False"
| "shell_expands Comment start (c # s) =
     (if c = newline_c then shell_expands Unquoted True s else shell_expands Comment start s)"
| "shell_expands Single_quoted start (c # s) =
     (if c = squote then shell_expands Unquoted False s else shell_expands Single_quoted start s)"
| "shell_expands Dollar_quoted start (c # s) =
     (if c = squote then shell_expands Unquoted False s
      else if c = bslash then (case s of [] \<Rightarrow> False | _ # s' \<Rightarrow> shell_expands Dollar_quoted start s')
      else shell_expands Dollar_quoted start s)"
| "shell_expands Double_quoted start (c # s) =
     (if c = dquote then shell_expands Unquoted False s
      else if c = bslash then (case s of [] \<Rightarrow> False | _ # s' \<Rightarrow> shell_expands Double_quoted start s')
      else substitution_at c s \<or> shell_expands Double_quoted start s)"
| "shell_expands Unquoted start (c # s) =
     (if start \<and> c = CHR ''#'' then shell_expands Comment True s
      else if c = squote then shell_expands Single_quoted False s
      else if c = dquote then shell_expands Double_quoted False s
      else if c = bslash then
        (case s of [] \<Rightarrow> False | d # s' \<Rightarrow> shell_expands Unquoted (start \<and> d = newline_c) s')
      else if c = CHR ''$'' \<and> head_or_zero s = squote then shell_expands Dollar_quoted False (tl s)
      else substitution_at c s \<or> shell_expands Unquoted (token_break c) s)"

text \<open>
  The same with comments and continued lines taken for text, which is what the reader does.  On
  one line it finds no less than the shell does.
\<close>

datatype shell_quote = Bare | Single | Double | Ansi

fun live_text :: "shell_quote \<Rightarrow> string \<Rightarrow> bool" where
  "live_text m [] = False"
| "live_text Single (c # s) = live_text (if c = squote then Bare else Single) s"
| "live_text Ansi (c # s) =
     (if c = squote then live_text Bare s
      else if c = bslash then (case s of [] \<Rightarrow> False | _ # s' \<Rightarrow> live_text Ansi s')
      else live_text Ansi s)"
| "live_text Double (c # s) =
     (if c = dquote then live_text Bare s
      else if c = bslash then (case s of [] \<Rightarrow> False | _ # s' \<Rightarrow> live_text Double s')
      else c = btick \<or> c = CHR ''$'' \<and> head_or_zero s = CHR ''('' \<or> live_text Double s)"
| "live_text Bare (c # s) =
     (if c = squote then live_text Single s
      else if c = dquote then live_text Double s
      else if c = bslash then (case s of [] \<Rightarrow> False | _ # s' \<Rightarrow> live_text Bare s')
      else if c = CHR ''$'' \<and> head_or_zero s = squote then live_text Ansi (tl s)
      else c = btick \<or> c = CHR ''$'' \<and> head_or_zero s = CHR ''('' \<or> live_text Bare s)"

lemma no_continuations: "newline_c \<notin> set s \<Longrightarrow> past_continuations s = s"
  by (induction s rule: past_continuations.induct) auto

lemma substitution_on_one_line:
  "newline_c \<notin> set s \<Longrightarrow> \<not> contains (c # s) ''${'' \<Longrightarrow>
     substitution_at c s \<longleftrightarrow> c = btick \<or> c = CHR ''$'' \<and> head_or_zero s = CHR ''(''"
  by (cases s) (auto simp: substitution_at_def no_continuations head_or_zero_def)

lemma comment_on_one_line: "newline_c \<notin> set s \<Longrightarrow> \<not> shell_expands Comment start s"
  by (induction s) auto

fun quote_of :: "shell_state \<Rightarrow> shell_quote" where
  "quote_of Single_quoted = Single"
| "quote_of Double_quoted = Double"
| "quote_of Dollar_quoted = Ansi"
| "quote_of m = Bare"

lemma shell_expands_live:
  "shell_expands m start s \<Longrightarrow> newline_c \<notin> set s \<Longrightarrow> \<not> contains s ''${'' \<Longrightarrow> live_text (quote_of m) s"
proof (induction m start s rule: shell_expands.induct)
  case (2 start c s)
  then have "newline_c \<notin> set s" "shell_expands Comment start s" by auto
  then show ?case using comment_on_one_line by blast
next
  case (5 start c s)
  show ?case
  proof (cases "c \<in> {dquote, bslash}")
    case True
    then show ?thesis using 5 by (auto split: if_splits list.splits)
  next
    case False
    with 5 substitution_on_one_line [of s c] show ?thesis by auto
  qed
next
  case (6 start c s)
  have nl: "newline_c \<notin> set s" using "6.prems"(2) by simp
  have tail: "\<not> contains s ''${''" using "6.prems"(3) by simp
  show ?case
  proof (cases "start \<and> c = CHR ''#''")
    case True
    with "6.prems"(1) comment_on_one_line [OF nl] show ?thesis by simp
  next
    case nc: False
    show ?thesis
    proof (cases "c \<in> {squote, dquote, bslash} \<or> c = CHR ''$'' \<and> head_or_zero s = squote")
      case True
      then show ?thesis using 6 nc nl tail by (cases s) (auto split: if_splits)
    next
      case False
      then have "substitution_at c s \<or> shell_expands Unquoted (token_break c) s"
        using "6.prems"(1) nc by (auto split: if_splits)
      moreover have "substitution_at c s \<longleftrightarrow> c = btick \<or> c = CHR ''$'' \<and> head_or_zero s = CHR ''(''"
        using substitution_on_one_line [OF nl "6.prems"(3)] .
      ultimately show ?thesis using "6.IH" nc nl tail False by auto
    qed
  qed
qed (auto split: if_splits list.splits)

lemma live_text_span: "shell_span s = Some r \<Longrightarrow> live_text Ansi s = live_text Bare r"
  by (induction s rule: shell_span.induct) (auto split: if_splits list.splits)

lemma live_text_plain:
  "\<forall>c \<in> set u. c \<notin> {squote, dquote, bslash, btick, CHR ''$''} \<Longrightarrow>
     live_text Bare (u @ r) = live_text Bare r"
  by (induction u) auto

lemma quoted_loop_expands:
  "quoted_loop q st s = Inr (st', r) \<Longrightarrow> q = squote \<or> q = dquote \<Longrightarrow>
     live_text (if q = squote then Single else Double) s = live_text Bare r"
proof (induction q st s rule: quoted_loop.induct)
  case (2 q st c rest)
  show ?case
  proof (cases "c = q")
    case True
    with "2.prems" show ?thesis by auto
  next
    case ncq: False
    show ?thesis
    proof (cases "q = dquote")
      case True
      show ?thesis
      proof (cases "c = bslash")
        case bs: True
        with "2.prems" ncq obtain x rest' where "rest = x # rest'" by (cases rest) auto
        then show ?thesis using "2.IH"(1) "2.prems" ncq True bs by simp
      next
        case False
        then have "c \<noteq> btick" "\<not> (c = CHR ''$'' \<and> head_or_zero rest = CHR ''('')"
          "quoted_loop q (advance [c] (write_word [c] st)) rest = Inr (st', r)"
          using "2.prems" ncq True by (auto simp: head_or_zero_def split: if_splits list.splits)
        moreover from this(2) have "\<not> (q = dquote \<and> c = CHR ''$'' \<and> rest \<noteq> [] \<and> hd rest = CHR ''('')"
          by (auto simp: head_or_zero_def split: list.splits)
        ultimately show ?thesis using "2.IH"(2) ncq True False by auto
      qed
    next
      case False
      then show ?thesis using "2.IH"(2) "2.prems" ncq by auto
    qed
  qed
qed simp

lemma redirect_tail_expands:
  assumes "redirect_tail fd c st rest = Inr (st', r)" "c = CHR ''>'' \<or> c = CHR ''<''"
  shows "live_text Bare (c # rest) = live_text Bare r"
proof -
  define r1 where "r1 = (if head_or_zero rest = c then tl rest else rest)"
  have plain: "live_text Bare (x # s) = live_text Bare s" if "x \<in> {CHR ''<'', CHR ''>'', CHR ''&'', CHR ''-''}" for x s
    using that by auto
  have c: "c \<in> {CHR ''<'', CHR ''>'', CHR ''&'', CHR ''-''}" "c \<noteq> CHR 0x00" using assms(2) by auto
  have s1: "live_text Bare (c # rest) = live_text Bare r1"
  proof (cases "head_or_zero rest = c")
    case True
    have "live_text Bare rest = live_text Bare (tl rest)"
      using plain [OF c(1), of "tl rest"] head_or_zero_Cons [OF True c(2)] by metis
    with plain [OF c(1), of rest] True show ?thesis unfolding r1_def by metis
  next
    case False
    with plain [OF c(1), of rest] show ?thesis unfolding r1_def by metis
  qed
  have amp: "live_text Bare r1 = live_text Bare (tl r1)" if "head_or_zero r1 = CHR ''&''"
    using head_or_zero_Cons [OF that] plain [of "CHR ''&''" "tl r1"] by simp
  have minus: "live_text Bare (tl r1) = live_text Bare (tl (tl r1))" if "head_or_zero (tl r1) = CHR ''-''"
    using head_or_zero_Cons [OF that] plain [of "CHR ''-''" "tl (tl r1)"] by simp
  have digits: "live_text Bare (tl r1) = live_text Bare (dropWhile is_digit (tl r1))"
  proof -
    have "is_digit x \<Longrightarrow> x \<notin> {squote, dquote, bslash, btick, CHR ''$''}" for x
      by (auto simp: is_digit_def byte_def)
    then have "\<forall>x \<in> set (takeWhile is_digit (tl r1)). x \<notin> {squote, dquote, bslash, btick, CHR ''$''}"
      by (meson set_takeWhileD)
    from live_text_plain [OF this, of "dropWhile is_digit (tl r1)"] show ?thesis by simp
  qed
  consider "r = r1" | "head_or_zero r1 = CHR ''&''" "r = dropWhile is_digit (tl r1)"
    | "head_or_zero r1 = CHR ''&''" "head_or_zero (tl r1) = CHR ''-''" "r = tl (tl r1)"
    | "head_or_zero r1 = CHR ''&''" "r = tl r1"
    using assms(1) unfolding redirect_tail_def Let_def r1_def [symmetric] by (auto split: if_splits)
  then show ?thesis using s1 amp minus digits by cases auto
qed

lemma scan_ampersand_input:
  assumes "scan_ampersand st rest = Inr (st', r)"
  shows "rest = CHR ''&'' # r \<or> rest = CHR ''>'' # CHR ''>'' # r \<or> rest = CHR ''>'' # r"
proof -
  from assms obtain d t where rest: "rest = d # t" by (cases rest) (auto simp: scan_ampersand_def)
  then consider "d = CHR ''&''" "r = t" | "d = CHR ''>''" "t = CHR ''>'' # r" | "d = CHR ''>''" "t = r"
    using assms by (cases t) (auto simp: scan_ampersand_def Let_def split: if_splits sum.splits)
  then show ?thesis using rest by cases auto
qed

lemma list_step_expands:
  assumes "list_step st c rest = Inr (st', r)" "\<not> ctrl_quote rest"
  shows "live_text Bare (c # rest) = live_text Bare r"
  using assms(1)
proof (cases rule: list_step_cases [of c st rest])
  case quote
  then have "quoted_loop c (advance [c] (write_word [] (start_token st))) rest = Inr (st', r)"
    using assms(1) by (simp add: scan_quoted_def)
  from quoted_loop_expands [OF this] quote(1) show ?thesis by auto
next
  case (escape x r')
  with assms(1) show ?thesis by simp
next
  case blank
  with assms(1) show ?thesis by (auto split: sum.splits)
next
  case ansic
  with assms(1) obtain lit where d: "DecodeANSICSpan (tl rest) = Some (lit, r)"
    by (auto split: option.splits)
  have "\<not> ctrl_quote (tl rest)" using assms(2) by (cases rest) auto
  with ansic_span_end(1) d have "shell_span (tl rest) = Some r" unfolding DecodeANSICSpan_def by blast
  with ansic show ?thesis by (simp add: live_text_span)
next
  case semi
  with assms(1) show ?thesis by (auto split: sum.splits)
next
  case bar
  have "rest = CHR ''|'' # tl rest" if "head_or_zero rest = CHR ''|''"
    by (rule head_or_zero_Cons [OF that]) simp
  moreover have "live_text Bare (CHR ''|'' # s) = live_text Bare s" for s by simp
  ultimately show ?thesis using bar assms(1) by (auto split: sum.splits if_splits)
next
  case amp
  then have "scan_ampersand st rest = Inr (st', r)" using assms(1) by simp
  then have "rest = CHR ''&'' # r \<or> rest = CHR ''>'' # CHR ''>'' # r \<or> rest = CHR ''>'' # r"
    by (rule scan_ampersand_input)
  with amp(1) show ?thesis by (elim disjE) simp_all
next
  case redir
  then have "scan_redirect c st rest = Inr (st', r)" using assms(1) by simp
  then obtain fd st0 where "redirect_tail fd c st0 rest = Inr (st', r)"
    by (auto simp: scan_redirect_def split: if_splits sum.splits)
  from redirect_tail_expands [OF this] redir show ?thesis by blast
next
  case plain
  then have "r = rest" using assms(1) by simp
  with plain show ?thesis by auto
qed simp_all

lemma list_run_expands:
  "list_run st s = Inr st' \<Longrightarrow> \<not> ctrl_quote s \<Longrightarrow> \<not> live_text Bare s"
proof (induction st s rule: list_run.induct)
  case (2 st c rest)
  from "2.prems"(1) obtain st1 r where step: "list_step st c rest = Inr (st1, r)" "list_run st1 r = Inr st'"
    by (auto split: sum.splits prod.splits)
  from list_step_consumes [OF step(1)] "2.prems"(2) have "\<not> ctrl_quote r"
    by (metis ctrl_quote_append)
  with "2.IH" step have "\<not> live_text Bare r" by blast
  moreover have "\<not> ctrl_quote rest" using "2.prems"(2) by simp
  ultimately show ?case using list_step_expands [OF step(1)] by blast
qed simp

lemma ParseCommandList_run:
  "ParseCommandList raw = Inr segs \<Longrightarrow>
     segs \<noteq> [] \<and> (\<exists>st st'. list_run init_lscan raw = Inr st \<and> list_finish st = Inr st' \<and> ls_segs st' = segs)"
  by (auto simp: ParseCommandList_def scan_list_def split: sum.splits if_splits)

text \<open>
  C10: A command list of one line that is accepted has no live command substitution: the shell
  comes to no backtick and no \<open>$(\<close> where it would run a command, be it unquoted or between double
  quotes.  Left out are the lists on which the reader and a shell part: those with a newline
  (comments and continued lines, see below), those with a parameter expansion in braces, whose
  word has quoting rules of its own, and those with a \<open>$'...'\<close> span whose control escape takes
  a quote or a backslash.
\<close>

theorem ParseCommandList_no_expansion:
  assumes "ParseCommandList raw = Inr segs"
    and "newline_c \<notin> set raw" "\<not> contains raw ''${''" "\<not> ctrl_quote raw"
  shows "\<not> shell_expands Unquoted True raw"
  using ParseCommandList_run [OF assms(1)] list_run_expands [OF _ assms(4)] shell_expands_live [OF _ assms(2,3)]
  by fastforce

lemma ParseCommandList_no_expansion_witness:
  "\<not> shell_expands Unquoted True (''echo '' @ [squote] @ ''$(id)'' @ [squote] @ '' '' @ [bslash, btick])"
proof (rule ParseCommandList_no_expansion)
  show "ParseCommandList (''echo '' @ [squote] @ ''$(id)'' @ [squote] @ '' '' @ [bslash, btick])
    = Inr [\<lparr>seg_program = ''echo'', seg_args = [''$(id)'', [btick]], seg_redirects = [],
            seg_text = ''echo '' @ [squote] @ ''$(id)'' @ [squote] @ '' '' @ [bslash, btick]\<rparr>]"
    by code_simp
qed code_simp+

text \<open>
  The exclusions are needed.  Between double quotes a continued line can stand between the dollar
  sign and the parenthesis: the reader sees neither, and the shell runs the command.
\<close>

theorem continued_line_hides_substitution:
  "let raw = ''echo '' @ [dquote] @ ''$'' @ [bslash, newline_c] @ ''(id)'' @ [dquote]
   in shell_expands Unquoted True raw
     \<and> map_sum id (map seg_args) (ParseCommandList raw) = Inr [[''$'' @ [newline_c] @ ''(id)'']]"
  by code_simp

text \<open>
  An apostrophe in a comment opens a quotation for the reader, which a later comment closes: what
  stands between them is data to the reader and code to the shell.
\<close>

theorem comment_hides_substitution:
  "let raw = ''echo a # it'' @ [squote] @ ''s'' @ [newline_c] @ ''echo $(id) # it'' @ [squote] @ ''s''
   in shell_expands Unquoted True raw \<and> (\<exists>segs. ParseCommandList raw = Inr segs)"
proof -
  have "\<not> (case ParseCommandList (''echo a # it'' @ [squote] @ ''s'' @ [newline_c] @ ''echo $(id) # it'' @ [squote] @ ''s'')
      of Inl e \<Rightarrow> True | Inr segs \<Rightarrow> False)"
    "shell_expands Unquoted True (''echo a # it'' @ [squote] @ ''s'' @ [newline_c] @ ''echo $(id) # it'' @ [squote] @ ''s'')"
    by code_simp+
  then show ?thesis by (auto simp: Let_def split: sum.splits)
qed

text \<open>
  The word of a parameter expansion between double quotes may hold double quotes of its own, and
  apostrophes there quote nothing: shells run the command in \<open>"${x:-"'$(id)'"}"\<close>, the reader
  takes it for single-quoted text.
\<close>

theorem braced_word_is_accepted:
  "map_sum id (map seg_args) (ParseCommandList (''echo '' @ [dquote] @ ''${x:-'' @ [dquote, squote] @ ''$(id)''
       @ [squote, dquote] @ ''}'' @ [dquote])) = Inr [[''${x:-$(id)}'']]"
  by code_simp

section \<open>Reading words back\<close>

lemma quoted_loop_single:
  "squote \<notin> set w \<Longrightarrow> quoted_loop squote st (w @ squote # s)
     = Inr (advance (w @ [squote]) (if w = [] then st else write_word w st), s)"
proof (induction w arbitrary: st)
  case (Cons c w)
  then show ?case by (cases w) auto
qed simp

text \<open>A quoted word and a plain word are read in one go.\<close>

lemma list_run_quote_word:
  assumes "squote \<notin> set w"
  shows "list_run st (quote_word w @ s) = list_run (advance (quote_word w) (write_word w (start_token st))) s"
proof -
  have "list_step st squote (w @ squote # s)
      = Inr (advance (quote_word w) (write_word w (start_token st)), s)"
    using assms by (auto simp: list_step_def scan_quoted_def quoted_loop_single quote_word_def)
  then show ?thesis by (simp add: quote_word_def)
qed

definition plain_word :: "string \<Rightarrow> bool" where
  "plain_word w \<longleftrightarrow> w \<noteq> [] \<and> (\<forall>c \<in> set w. visible c \<and> c \<notin> {squote, dquote, bslash, btick, CHR ''$'',
     CHR ''('', CHR '')'', CHR '';'', CHR ''|'', CHR ''&'', CHR ''>'', CHR ''<''})"

lemma list_step_plain:
  "visible c \<Longrightarrow> c \<notin> {squote, dquote, bslash, btick, CHR ''$'', CHR ''('', CHR '')'', CHR '';'',
     CHR ''|'', CHR ''&'', CHR ''>'', CHR ''<''} \<Longrightarrow>
   list_step st c rest = Inr (advance [c] (write_word [c] (start_token st)), rest)"
proof -
  assume v: "visible c" and n: "c \<notin> {squote, dquote, bslash, btick, CHR ''$'', CHR ''('', CHR '')'',
     CHR '';'', CHR ''|'', CHR ''&'', CHR ''>'', CHR ''<''}"
  have "c \<notin> {CHR '' '', tab_c, newline_c, cr_c}" using v by (auto simp: visible_def byte_def)
  with n show ?thesis by (simp add: list_step_def)
qed

lemma list_run_plain_word:
  "plain_word w \<Longrightarrow> list_run st (w @ s) = list_run (advance w (write_word w (start_token st))) s"
proof (induction w arbitrary: st)
  case (Cons c w)
  from Cons.prems have c: "list_step st c (w @ s) = Inr (advance [c] (write_word [c] (start_token st)), w @ s)"
    by (intro list_step_plain) (auto simp: plain_word_def)
  show ?case
  proof (cases w)
    case Nil
    then show ?thesis using c by simp
  next
    case (Cons d v)
    then have "plain_word w" using Cons.prems by (auto simp: plain_word_def)
    with Cons.IH c show ?thesis by simp
  qed
qed (simp add: plain_word_def)

lemma list_run_blank:
  "list_run st (CHR '' '' # s) =
     (case flush_list_word st of Inl e \<Rightarrow> Inl e | Inr st' \<Rightarrow> list_run (advance '' '' st') s)"
  by (auto simp: list_step_def split: sum.splits)

lemma list_run_quote_words:
  "args \<noteq> [] \<Longrightarrow> \<forall>w \<in> set args. squote \<notin> set w \<Longrightarrow>
     list_run (in_segment ws rds src) (quote_words args)
       = Inr (in_word (ws @ butlast args) rds (src @ quote_words args) (last args))"
proof (induction args arbitrary: ws src rule: quote_words.induct)
  case (2 w)
  then show ?case using list_run_quote_word [of w "in_segment ws rds src" "[]"]
    by (simp add: in_segment_word)
next
  case (3 w v vs)
  then show ?case using list_run_quote_word [of w "in_segment ws rds src" "CHR '' '' # quote_words (v # vs)"]
    by (simp add: in_segment_word list_run_blank in_word_flush del: list_run.simps)
qed simp

lemma quote_words_ends: "ws \<noteq> [] \<Longrightarrow> quote_words ws \<noteq> [] \<and> hd (quote_words ws) = squote \<and> last (quote_words ws) = squote"
  by (induction ws rule: quote_words.induct) (simp_all add: quote_word_def)

text \<open>
  Quoting is inverted by the list reader too: any words without single quotes, each put
  between single quotes and joined by spaces, are read as one segment whose program is the
  normalised first word, whose arguments are the other words unchanged, and whose text is the
  whole command.
\<close>

theorem ParseCommandList_quoted:
  assumes "\<forall>w \<in> set (p # args). squote \<notin> set w"
  shows "ParseCommandList (quote_words (p # args)) =
     Inr [\<lparr>seg_program = normalize_program p, seg_args = args, seg_redirects = [],
           seg_text = quote_words (p # args)\<rparr>]"
proof -
  have t: "trim_space (quote_words (p # args)) = quote_words (p # args)"
    using quote_words_ends [of "p # args"] by (intro trim_space_id) simp_all
  have "list_run init_lscan (quote_words (p # args)) = Inr (in_word (butlast (p # args)) []
      (quote_words (p # args)) (last (p # args)))"
  proof (cases args)
    case Nil
    then show ?thesis using assms list_run_quote_word [of p init_lscan "[]"] by (simp add: in_segment_word)
  next
    case (Cons a as)
    with assms show ?thesis
      using list_run_quote_word [of p init_lscan "CHR '' '' # quote_words args"]
        list_run_quote_words [of args "[p]" "[]" "quote_word p @ '' ''"]
      by (simp add: in_segment_word list_run_blank in_word_flush del: list_run.simps)
  qed
  then show ?thesis using t by (simp add: ParseCommandList_def scan_list_def
        in_segment_finish [OF append_butlast_last_id [of "p # args"]] del: quote_words.simps butlast.simps last.simps)
qed

lemma ParseCommandList_quoted_witness:
  "ParseCommandList (quote_words [''/bin/sh'', ''-c'', ''a; b | $(c)''])
     = Inr [\<lparr>seg_program = ''sh'', seg_args = [''-c'', ''a; b | $(c)''], seg_redirects = [],
             seg_text = quote_words [''/bin/sh'', ''-c'', ''a; b | $(c)'']\<rparr>]"
proof -
  have "normalize_program ''/bin/sh'' = ''sh''" by code_simp
  then show ?thesis using ParseCommandList_quoted [of "''/bin/sh''" "[''-c'', ''a; b | $(c)'']"] by simp
qed

section \<open>Two readings that differ from the shell's\<close>

lemma ansic_span_plain: "squote \<notin> set t \<Longrightarrow> bslash \<notin> set t \<Longrightarrow> ansic_span b (t @ squote # r) = Some (b @ t, r)"
  by (induction t arbitrary: b) auto

text \<open>
  A control escape that takes the closing quote hides a command.  After \<open>$'\c\<close> a quote ends
  the span for the shell, which then runs what follows; the reader takes the quote as the
  escape's operand and reads everything up to the next quote as one argument of the first program.
\<close>

theorem control_escape_hides_command:
  assumes "plain_word p" "squote \<notin> set t" "bslash \<notin> set t"
  shows "ParseCommandList (p @ '' $'' @ squote # bslash # CHR ''c'' # squote # t @ [squote]) =
       Inr [\<lparr>seg_program = normalize_program p, seg_args = [CHR 0x07 # t], seg_redirects = [],
             seg_text = p @ '' $'' @ squote # bslash # CHR ''c'' # squote # t @ [squote]\<rparr>]
     \<and> shell_span (bslash # CHR ''c'' # squote # t @ [squote]) = Some (t @ [squote])"
proof
  let ?body = "bslash # CHR ''c'' # squote # t @ [squote]"
  let ?span = "CHR ''$'' # squote # ?body"
  have "char_of (7::int) = CHR 0x07" by code_simp
  then have esc: "decode_ansic_escape ?body = ([CHR 0x07], 3)"
    by (simp add: decode_ansic_escape_def ansic_simple_escapes_def byte_def)
  have "ansic_span [] ?body = Some (CHR 0x07 # t, [])"
    using ansic_span_escape [OF refl _ esc, of "[]"] ansic_span_plain [OF assms(2,3), of "[CHR 0x07]" "[]"]
    by simp
  then have "list_step st (CHR ''$'') (squote # ?body)
      = Inr (advance ?span (write_word (CHR 0x07 # t) (start_token st)), [])" for st
    by (simp add: list_step_def head_or_zero_def DecodeANSICSpan_def)
  then have span: "list_run st ?span = Inr (advance ?span (write_word (CHR 0x07 # t) (start_token st)))" for st
    by simp
  have "list_run init_lscan (p @ CHR '' '' # ?span) = Inr (in_word [p] [] (p @ CHR '' '' # ?span) (CHR 0x07 # t))"
    using list_run_plain_word [OF assms(1), of init_lscan "CHR '' '' # ?span"] span
    by (simp add: in_segment_word list_run_blank in_word_flush del: list_run.simps)
  moreover have "trim_space (p @ CHR '' '' # ?span) = p @ CHR '' '' # ?span"
    using assms(1) by (intro trim_space_id) (cases p, auto simp: plain_word_def)
  ultimately show "ParseCommandList (p @ '' $'' @ squote # ?body) =
       Inr [\<lparr>seg_program = normalize_program p, seg_args = [CHR 0x07 # t], seg_redirects = [],
             seg_text = p @ '' $'' @ squote # ?body\<rparr>]"
    by (simp add: ParseCommandList_def scan_list_def in_segment_finish [of "[p]" _ p "[CHR 0x07 # t]"])
  show "shell_span ?body = Some (t @ [squote])" by simp
qed

lemma control_escape_hides_command_witness:
  "\<exists>txt. ParseCommandList (''echo $'' @ squote # bslash # CHR ''c'' # squote # ''; rm -rf / #'' @ [squote]) =
       Inr [\<lparr>seg_program = ''echo'', seg_args = [CHR 0x07 # ''; rm -rf / #''], seg_redirects = [], seg_text = txt\<rparr>]"
proof -
  have "plain_word ''echo''" "normalize_program ''echo'' = ''echo''" by code_simp+
  then show ?thesis using control_escape_hides_command [of "''echo''" "''; rm -rf / #''"] by auto
qed

text \<open>A redirection in the middle of a command, glued to the word before it.\<close>

lemma head_of_plain: "plain_word f \<Longrightarrow> f = hd f # tl f \<and> hd f \<notin> {CHR ''>'', CHR ''('', CHR ''&'', CHR ''<''}"
  by (cases f) (auto simp: plain_word_def)

lemma head_or_zero_plain: "plain_word f \<Longrightarrow> head_or_zero f \<notin> {CHR ''>'', CHR ''('', CHR ''&'', CHR ''<''}"
  by (cases f) (auto simp: head_or_zero_def plain_word_def)

text \<open>
  The reader and the shell disagree on \<open>&>\<close> written right after a word.  For
  \<open>p w&>f\<close> the word before the operator is not flushed: it becomes the start of the target, so
  the redirection is read as going to \<open>wf\<close> and the argument is lost; \<open>p w>f\<close> is read as the shell
  does, with the argument \<open>w\<close> and the target \<open>f\<close>.
\<close>

theorem glued_ampersand_redirect:
  assumes "plain_word p" "plain_word w" "plain_word f" "\<not> is_digits w"
  shows "ParseCommandList (p @ '' '' @ w @ ''&>'' @ f) =
       Inr [\<lparr>seg_program = normalize_program p, seg_args = [],
             seg_redirects = [\<lparr>rd_operator = ''&>'', rd_target = w @ f\<rparr>], seg_text = p @ '' '' @ w @ ''&>'' @ f\<rparr>]
     \<and> ParseCommandList (p @ '' '' @ w @ ''>'' @ f) =
       Inr [\<lparr>seg_program = normalize_program p, seg_args = [w],
             seg_redirects = [\<lparr>rd_operator = ''>'', rd_target = f\<rparr>], seg_text = p @ '' '' @ w @ ''>'' @ f\<rparr>]"
proof
  have p: "list_run init_lscan (p @ CHR '' '' # w @ s) = list_run (in_word [p] [] (p @ CHR '' '' # w) w) s" for s
    using list_run_plain_word [OF assms(1), of init_lscan "CHR '' '' # w @ s"]
      list_run_plain_word [OF assms(2), of "in_segment [p] [] (p @ '' '')" s]
    by (simp add: in_segment_word list_run_blank in_word_flush del: list_run.simps)
  have trim: "trim_space (p @ CHR '' '' # w @ u @ f) = p @ CHR '' '' # w @ u @ f" for u
    using assms(1,3) by (intro trim_space_id) (cases p, auto simp: plain_word_def)
  let ?rd = "\<lambda>op. \<lparr>rd_operator = op, rd_target = []\<rparr>"
  let ?amp = "in_word [p] [?rd ''&>''] (p @ CHR '' '' # w @ ''&>'') w\<lparr>ls_pending := Some 0\<rparr>"
  let ?gt = "in_segment [p, w] [?rd ''>''] (p @ CHR '' '' # w @ ''>'')\<lparr>ls_pending := Some 0\<rparr>"
  have "list_step (in_word [p] [] (p @ CHR '' '' # w) w) (CHR ''&'') (CHR ''>'' # f) = Inr (?amp, f)"
    using head_of_plain [OF assms(3)]
    by (cases f) (simp_all add: list_step_def scan_ampersand_def push_redirect_def advance_def in_word_def start_token_def)
  then have run: "list_run init_lscan (p @ CHR '' '' # w @ ''&>'' @ f)
      = Inr (advance f (write_word f ?amp))"
    using p [of "''&>'' @ f"] list_run_plain_word [OF assms(3), of ?amp "[]"]
    by (simp add: in_word_def start_token_def)
  then show "ParseCommandList (p @ '' '' @ w @ ''&>'' @ f) =
       Inr [\<lparr>seg_program = normalize_program p, seg_args = [],
             seg_redirects = [\<lparr>rd_operator = ''&>'', rd_target = w @ f\<rparr>], seg_text = p @ '' '' @ w @ ''&>'' @ f\<rparr>]"
    using trim [of "''&>''"]
    by (simp add: ParseCommandList_def scan_list_def list_finish_def flush_list_word_def in_word_def write_word_def
        flush_list_segment_def close_segment_def init_lscan_def advance_def)
  have "list_step (in_word [p] [] (p @ CHR '' '' # w) w) (CHR ''>'') f = Inr (?gt, f)"
    using head_or_zero_plain [OF assms(3)] assms(4)
    by (simp add: list_step_def scan_redirect_def in_word_flush)
       (simp add: redirect_tail_def Let_def push_redirect_def advance_def in_word_def in_segment_def start_token_def)
  then have "list_run init_lscan (p @ CHR '' '' # w @ ''>'' @ f) = Inr (advance f (write_word f ?gt))"
    using p [of "''>'' @ f"] list_run_plain_word [OF assms(3), of ?gt "[]"]
    by (simp add: in_segment_def start_token_def)
  then show "ParseCommandList (p @ '' '' @ w @ ''>'' @ f) =
       Inr [\<lparr>seg_program = normalize_program p, seg_args = [w],
             seg_redirects = [\<lparr>rd_operator = ''>'', rd_target = f\<rparr>], seg_text = p @ '' '' @ w @ ''>'' @ f\<rparr>]"
    using trim [of "''>''"]
    by (simp add: ParseCommandList_def scan_list_def list_finish_def flush_list_word_def in_segment_def write_word_def
        flush_list_segment_def close_segment_def init_lscan_def advance_def)
qed

lemma glued_ampersand_redirect_witness:
  "\<exists>txt. ParseCommandList ''echo x&>.ssh/authorized_keys'' =
       Inr [\<lparr>seg_program = ''echo'', seg_args = [],
             seg_redirects = [\<lparr>rd_operator = ''&>'', rd_target = ''x.ssh/authorized_keys''\<rparr>], seg_text = txt\<rparr>]"
proof -
  have "plain_word ''echo''" "plain_word ''x''" "plain_word ''.ssh/authorized_keys''" "\<not> is_digits ''x''"
    "normalize_program ''echo'' = ''echo''" by code_simp+
  then show ?thesis using glued_ampersand_redirect [of "''echo''" "''x''" "''.ssh/authorized_keys''"] by auto
qed

section \<open>Segments are slices of the command\<close>

text \<open>
  The texts of the segments of an accepted command list are pieces of the command itself,
  in the order they were written and without overlap: no segment's text is made up or counted twice.
\<close>

theorem ParseCommandList_slices:
  assumes "ParseCommandList raw = Inr segs"
  shows "segs \<noteq> [] \<and> slices (List.map seg_text segs) raw"
  using assms by (rule posix.parse_slices)

lemma ParseCommandList_slices_witness:
  "slices [''cd /x'', ''make all''] ''cd /x && make all''"
proof -
  have "ParseCommandList ''cd /x && make all''
     = Inr [\<lparr>seg_program = ''cd'', seg_args = [''/x''], seg_redirects = [], seg_text = ''cd /x''\<rparr>,
            \<lparr>seg_program = ''make'', seg_args = [''all''], seg_redirects = [], seg_text = ''make all''\<rparr>]"
    by code_simp
  from ParseCommandList_slices [OF this] show ?thesis by (simp only: list.map segment.simps)
qed

end
