(* ===== verification/ExecPwsh.thy ===== *)
theory ExecPwsh
  imports ExecListProps
begin

text \<open>
  The PowerShell command-list reader (\<open>powershell.go\<close>) and the choice of the reader by the
  interpreter (\<open>CommandLanguage\<close>, \<open>ParseCommandListFor\<close> in \<open>commandlist.go\<close>).  The scanner's
  state and flushing methods are those of \<open>ListScanner\<close>.
\<close>

section \<open>Methods\<close>

text \<open>The loop of \<open>scanSingleQuoted\<close> after the opening quote; a doubled quote is a literal quote.\<close>

fun ps_single_loop :: "lscan \<Rightarrow> string \<Rightarrow> exec_error + lscan \<times> string" where
  "ps_single_loop st [] = Inl Unterminated_quote"
| "ps_single_loop st (c # rest) =
     (if c = squote then
        (case rest of
           d # r \<Rightarrow>
             if d = squote then ps_single_loop (advance [c, d] (write_word [squote] st)) r
             else Inr (advance [c] st, rest)
         | [] \<Rightarrow> Inr (advance [c] st, rest))
      else ps_single_loop (advance [c] (write_word [c] st)) rest)"

definition ps_single_quoted :: "lscan \<Rightarrow> string \<Rightarrow> exec_error + lscan \<times> string" where
  "ps_single_quoted st rest = ps_single_loop (advance [squote] (write_word [] (start_token st))) rest"

text \<open>The loop of \<open>scanDoubleQuoted\<close>.\<close>

fun ps_double_loop :: "lscan \<Rightarrow> string \<Rightarrow> exec_error + lscan \<times> string" where
  "ps_double_loop st [] = Inl Unterminated_quote"
| "ps_double_loop st (c # rest) =
     (if c = btick then
        (case rest of
           [] \<Rightarrow> Inl Trailing_escape
         | x # r \<Rightarrow> ps_double_loop (advance [c, x] (write_word [x] st)) r)
      else if c = CHR ''$'' \<and> head_or_zero rest = CHR ''('' then Inl Ps_subexpression_rejected
      else if c = dquote then
        (case rest of
           d # r \<Rightarrow>
             if d = dquote then ps_double_loop (advance [c, d] (write_word [dquote] st)) r
             else Inr (advance [c] st, rest)
         | [] \<Rightarrow> Inr (advance [c] st, rest))
      else ps_double_loop (advance [c] (write_word [c] st)) rest)"

definition ps_double_quoted :: "lscan \<Rightarrow> string \<Rightarrow> exec_error + lscan \<times> string" where
  "ps_double_quoted st rest = ps_double_loop (advance [dquote] (write_word [] (start_token st))) rest"

definition stream_digit :: "char \<Rightarrow> bool" where
  "stream_digit c \<longleftrightarrow> 49 \<le> byte c \<and> byte c \<le> 54"

definition is_powershell_stream :: "string \<Rightarrow> bool" where
  "is_powershell_stream w \<longleftrightarrow> w = ''*'' \<or> (length w = 1 \<and> stream_digit (hd w))"

text \<open>\<open>scanRedirect\<close> on the input after the angle bracket.\<close>

definition ps_redirect_tail :: "string \<Rightarrow> lscan \<Rightarrow> string \<Rightarrow> exec_error + lscan \<times> string" where
  "ps_redirect_tail stream st rest =
     (let doubled = (head_or_zero rest = CHR ''>'');
          op = (if doubled then ''>>'' else ''>'');
          st1 = advance op (start_token st);
          r1 = (if doubled then tl rest else rest)
      in if head_or_zero r1 = CHR ''&'' then
           (case tl r1 of
              d # r2 \<Rightarrow>
                if stream_digit d \<and> is_redirect_word_boundary (head_or_zero r2)
                then Inr (advance [CHR ''&'', d] (add_plain_redirect (stream @ op @ [CHR ''&'', d]) st1), r2)
                else Inl (Ps_stream_merge_unreadable (stream @ op))
            | [] \<Rightarrow> Inl (Ps_stream_merge_unreadable (stream @ op)))
         else Inr (push_redirect (stream @ op) st1, r1))"

definition ps_redirect :: "lscan \<Rightarrow> string \<Rightarrow> exec_error + lscan \<times> string" where
  "ps_redirect st rest =
     (if ls_in_word st \<and> is_powershell_stream (ls_word st)
      then ps_redirect_tail (ls_word st) (st\<lparr>ls_word := [], ls_in_word := False\<rparr>) rest
      else (case flush_list_word st of Inl e \<Rightarrow> Inl e | Inr st' \<Rightarrow> ps_redirect_tail [] st' rest))"

section \<open>The loop\<close>

definition ps_step :: "lscan \<Rightarrow> char \<Rightarrow> string \<Rightarrow> exec_error + lscan \<times> string" where
  "ps_step st c rest =
     (if c = btick then
        (case rest of
           [] \<Rightarrow> Inl Trailing_escape
         | x # r \<Rightarrow> Inr (advance [c, x] (write_word [x] (start_token st)), r))
      else if c = squote then ps_single_quoted st rest
      else if c = dquote then ps_double_quoted st rest
      else if c = CHR '' '' \<or> c = tab_c then
        (case flush_list_word st of Inl e \<Rightarrow> Inl e | Inr st' \<Rightarrow> Inr (advance [c] st', rest))
      else if c = newline_c \<or> c = cr_c then Inl Newline_rejected
      else if c = CHR ''#'' then Inl Ps_comment_rejected
      else if c = CHR ''$'' \<and> head_or_zero rest = CHR ''('' then Inl Ps_subexpression_rejected
      else if c = CHR ''$'' \<and> head_or_zero rest = CHR ''{'' then Inl Ps_brace_variable_rejected
      else if c = CHR ''@'' \<and> head_or_zero rest \<in> {CHR ''('', dquote, squote}
      then Inl Ps_array_or_here_string_rejected
      else if c = CHR ''('' \<or> c = CHR '')'' then Inl Subshell_rejected
      else if c = CHR ''{'' \<or> c = CHR ''}'' then Inl Ps_script_block_rejected
      else if c = CHR ''<'' then Inl Ps_input_redirect_rejected
      else if c = CHR '';'' then
        (case flush_list_segment st of Inl e \<Rightarrow> Inl e | Inr st' \<Rightarrow> Inr (advance [c] st', rest))
      else if c = CHR ''|'' then
        (case flush_list_segment st of
           Inl e \<Rightarrow> Inl e
         | Inr st' \<Rightarrow>
             if head_or_zero rest = CHR ''|'' then Inr (advance ''||'' st', tl rest)
             else Inr (advance ''|'' st', rest))
      else if c = CHR ''&'' then
        (if head_or_zero rest \<noteq> CHR ''&'' then Inl Ps_call_operator_rejected
         else (case flush_list_segment st of
                 Inl e \<Rightarrow> Inl e
               | Inr st' \<Rightarrow> Inr (advance ''&&'' st', tl rest)))
      else if c = CHR ''>'' then ps_redirect st rest
      else Inr (advance [c] (write_word [c] (start_token st)), rest))"

lemma ps_step_cases [case_names escape single double blank semi bar amp redir plain refused]:
  assumes "ps_step st c rest = res"
  obtains x r where "c = btick" "rest = x # r" "res = Inr (advance [c, x] (write_word [x] (start_token st)), r)"
  | "c = squote" "res = ps_single_quoted st rest"
  | "c = dquote" "res = ps_double_quoted st rest"
  | "c = CHR '' '' \<or> c = tab_c" "res =
       (case flush_list_word st of Inl e \<Rightarrow> Inl e | Inr st' \<Rightarrow> Inr (advance [c] st', rest))"
  | "c = CHR '';''" "res =
       (case flush_list_segment st of Inl e \<Rightarrow> Inl e | Inr st' \<Rightarrow> Inr (advance [c] st', rest))"
  | "c = CHR ''|''" "res =
       (case flush_list_segment st of
           Inl e \<Rightarrow> Inl e
         | Inr st' \<Rightarrow>
             if head_or_zero rest = CHR ''|'' then Inr (advance ''||'' st', tl rest)
             else Inr (advance ''|'' st', rest))"
  | "c = CHR ''&''" "head_or_zero rest = CHR ''&''" "res =
       (case flush_list_segment st of Inl e \<Rightarrow> Inl e | Inr st' \<Rightarrow> Inr (advance ''&&'' st', tl rest))"
  | "c = CHR ''>''" "res = ps_redirect st rest"
  | "c \<notin> {btick, squote, dquote, CHR ''('', CHR '')''}"
      "c = CHR ''$'' \<or> c = CHR ''@'' \<longrightarrow> head_or_zero rest \<noteq> CHR ''(''"
      "res = Inr (advance [c] (write_word [c] (start_token st)), rest)"
  | e where "res = Inl e" "e \<noteq> Slice_panic"
proof -
  note case_of = that
  consider (named) "c \<in> {btick, squote, dquote, CHR '' '', tab_c, CHR '';'', CHR ''|'', CHR ''&'', CHR ''>''}"
    | (refused) e where "c \<notin> {btick, squote, dquote, CHR '' '', tab_c, CHR '';'', CHR ''|'', CHR ''&'', CHR ''>''}"
        "res = Inl e" "e \<noteq> Slice_panic"
    | (plain) "c \<notin> {btick, squote, dquote, CHR ''('', CHR '')''}"
      "c = CHR ''$'' \<or> c = CHR ''@'' \<longrightarrow> head_or_zero rest \<noteq> CHR ''(''"
      "res = Inr (advance [c] (write_word [c] (start_token st)), rest)"
  proof (cases "c \<in> {btick, squote, dquote, CHR '' '', tab_c, CHR '';'', CHR ''|'', CHR ''&'', CHR ''>''}")
    case False
    note n = False
    show ?thesis
    proof (cases "c \<in> {newline_c, cr_c, CHR ''#'', CHR ''('', CHR '')'', CHR ''{'', CHR ''}'', CHR ''<''}
        \<or> c = CHR ''$'' \<and> head_or_zero rest \<in> {CHR ''('', CHR ''{''}
        \<or> c = CHR ''@'' \<and> head_or_zero rest \<in> {CHR ''('', dquote, squote}")
      case True
      then have "\<exists>e. res = Inl e \<and> e \<noteq> Slice_panic"
        using n assms unfolding ps_step_def by (elim disjE insertE) auto
      then obtain e where "res = Inl e" "e \<noteq> Slice_panic" by blast
      with n show ?thesis by (rule that(2))
    next
      case False
      have off: "(c = CHR ''$'' \<and> head_or_zero rest = CHR ''('') = False"
        "(c = CHR ''$'' \<and> head_or_zero rest = CHR ''{'') = False"
        "(c = CHR ''@'' \<and> (head_or_zero rest = CHR ''('' \<or> head_or_zero rest = dquote
           \<or> head_or_zero rest = squote)) = False"
        using False by auto
      from False have m: "c \<notin> {newline_c, cr_c, CHR ''#'', CHR ''('', CHR '')'', CHR ''{'', CHR ''}'', CHR ''<''}"
        by blast
      have "res = Inr (advance [c] (write_word [c] (start_token st)), rest)"
        unfolding assms [symmetric] ps_step_def using n m by (simp add: off)
      with n m off(1,3) show ?thesis by (intro that(3)) auto
    qed
  qed (use that in blast)
  then show ?thesis
  proof cases
    case named
    then show ?thesis unfolding insert_iff empty_iff
    proof (elim disjE FalseE, goal_cases)
      case 1 then show ?thesis using assms by (cases rest) (auto intro: case_of(1,10) simp: ps_step_def)
    next
      case 2 then show ?thesis using assms by (intro case_of(2)) (auto simp: ps_step_def)
    next
      case 3 then show ?thesis using assms by (intro case_of(3)) (auto simp: ps_step_def)
    next
      case 4 then show ?thesis using assms by (intro case_of(4)) (auto simp: ps_step_def)
    next
      case 5 then show ?thesis using assms by (intro case_of(4)) (auto simp: ps_step_def)
    next
      case 6 then show ?thesis using assms by (intro case_of(5)) (auto simp: ps_step_def)
    next
      case 7 then show ?thesis using assms by (intro case_of(6)) (auto simp: ps_step_def)
    next
      case 8 then show ?thesis using assms
        by (cases "head_or_zero rest = CHR ''&''") (auto intro: case_of(7,10) simp: ps_step_def)
    next
      case 9 then show ?thesis using assms by (intro case_of(8)) (auto simp: ps_step_def)
    qed
  next
    case refused
    then show ?thesis by (intro case_of(10))
  next
    case plain
    then show ?thesis by (intro case_of(9))
  qed
qed

section \<open>The loops and the interface\<close>

text \<open>What a quoted run does, whatever its content: it only writes the word and moves on.\<close>

definition word_only :: "lscan \<Rightarrow> string \<Rightarrow> lscan \<Rightarrow> bool" where
  "word_only st u st' \<longleftrightarrow> (\<exists>w b. st' = advance u (st\<lparr>ls_word := w, ls_in_word := b\<rparr>))"

lemma word_only_refl: "word_only st u (advance u st)"
  unfolding word_only_def by (intro exI [of _ "ls_word st"] exI [of _ "ls_in_word st"]) simp

lemma word_only_write: "word_only (advance u (write_word w st)) v st' \<Longrightarrow> word_only st (u @ v) st'"
  by (fastforce simp: word_only_def write_word_def advance_def option.map_comp comp_def)

lemma ps_single_loop_reads:
  "ps_single_loop st s = Inr (st', r) \<Longrightarrow> \<exists>u. u \<noteq> [] \<and> s = u @ r \<and> word_only st u st'"
proof (induction st s rule: ps_single_loop.induct)
  case (2 st c rest)
  consider (ends) "c = squote" "r = rest" "st' = advance [c] st"
    | (doubled) r' where "c = squote" "rest = squote # r'"
        "ps_single_loop (advance [c, squote] (write_word [squote] st)) r' = Inr (st', r)"
    | (other) "c \<noteq> squote" "ps_single_loop (advance [c] (write_word [c] st)) rest = Inr (st', r)"
    using "2.prems" by (cases rest) (auto split: if_splits)
  then show ?case
  proof cases
    case ends
    then show ?thesis using word_only_refl by (intro exI [of _ "[c]"]) auto
  next
    case doubled
    with "2.IH"(1) obtain u where "u \<noteq> [] \<and> r' = u @ r \<and> word_only (advance [c, squote] (write_word [squote] st)) u st'"
      by auto
    with doubled word_only_write show ?thesis by (intro exI [of _ "c # squote # u"]) fastforce
  next
    case other
    with "2.IH"(2) obtain u where "u \<noteq> [] \<and> rest = u @ r \<and> word_only (advance [c] (write_word [c] st)) u st'"
      by auto
    with other word_only_write show ?thesis by (intro exI [of _ "c # u"]) fastforce
  qed
qed simp

lemma ps_double_loop_reads:
  "ps_double_loop st s = Inr (st', r) \<Longrightarrow> \<exists>u. u \<noteq> [] \<and> s = u @ r \<and> word_only st u st'"
proof (induction st s rule: ps_double_loop.induct)
  case (2 st c rest)
  consider (escape) x r' where "c = btick" "rest = x # r'"
        "ps_double_loop (advance [c, x] (write_word [x] st)) r' = Inr (st', r)"
    | (ends) "c = dquote" "r = rest" "st' = advance [c] st"
    | (doubled) r' where "c = dquote" "rest = dquote # r'"
        "ps_double_loop (advance [c, dquote] (write_word [dquote] st)) r' = Inr (st', r)"
    | (other) "c \<noteq> btick" "\<not> (c = CHR ''$'' \<and> head_or_zero rest = CHR ''('')" "c \<noteq> dquote"
        "ps_double_loop (advance [c] (write_word [c] st)) rest = Inr (st', r)"
    using "2.prems" by (cases rest) (auto split: if_splits)
  then show ?case
  proof cases
    case escape
    with "2.IH"(1) obtain u where "u \<noteq> [] \<and> r' = u @ r \<and> word_only (advance [c, x] (write_word [x] st)) u st'"
      by auto
    with escape word_only_write show ?thesis by (intro exI [of _ "c # x # u"]) fastforce
  next
    case ends
    then show ?thesis using word_only_refl by (intro exI [of _ "[c]"]) auto
  next
    case doubled
    with "2.IH"(2) obtain u where "u \<noteq> [] \<and> r' = u @ r \<and> word_only (advance [c, dquote] (write_word [dquote] st)) u st'"
      by auto
    with doubled word_only_write show ?thesis by (intro exI [of _ "c # dquote # u"]) fastforce
  next
    case other
    with "2.IH"(3) obtain u where "u \<noteq> [] \<and> rest = u @ r \<and> word_only (advance [c] (write_word [c] st)) u st'"
      by auto
    with other word_only_write show ?thesis by (intro exI [of _ "c # u"]) fastforce
  qed
qed simp

lemma ps_single_loop_no_panic: "ps_single_loop st s \<noteq> Inl Slice_panic"
  by (induction st s rule: ps_single_loop.induct) (auto split: list.splits)

lemma ps_double_loop_no_panic: "ps_double_loop st s \<noteq> Inl Slice_panic"
  by (induction st s rule: ps_double_loop.induct) (auto split: list.splits)

lemma word_only_start:
  assumes "word_only (advance v (write_word w (start_token st))) u st'"
  shows "src_step st (v @ u) st'" "ls_segs st' = ls_segs st" "lscan_ok st \<Longrightarrow> lscan_ok st'"
proof -
  from assms obtain w' b where st': "st' = advance u ((advance v (write_word w (start_token st)))\<lparr>ls_word := w', ls_in_word := b\<rparr>)"
    by (auto simp: word_only_def)
  then show "src_step st (v @ u) st'"
    by (auto intro!: src_start simp: option.map_comp comp_def)
  from st' show "ls_segs st' = ls_segs st" "lscan_ok st \<Longrightarrow> lscan_ok st'"
    by (auto simp: lscan_ok_def write_word_def start_token_def split: option.splits if_splits)
qed

lemma ps_quoted_reads:
  assumes "ps_single_quoted st rest = Inr (st', r) \<and> c = squote \<or> ps_double_quoted st rest = Inr (st', r) \<and> c = dquote"
  obtains u where "u \<noteq> []" "rest = u @ r" "word_only (advance [c] (write_word [] (start_token st))) u st'"
  using assms ps_single_loop_reads ps_double_loop_reads
  unfolding ps_single_quoted_def ps_double_quoted_def by blast

lemma ps_redirect_tail_reads:
  assumes "ps_redirect_tail stream st rest = Inr (st', r)"
  obtains u op where "CHR ''>'' # rest = u @ r" "u \<noteq> []"
    "st' = advance u (push_redirect op (start_token st)) \<or> st' = advance u (add_plain_redirect op (start_token st))"
proof -
  note result = that
  define op r1 where "op = (if head_or_zero rest = CHR ''>'' then ''>>'' else ''>'')"
    and "r1 = (if head_or_zero rest = CHR ''>'' then tl rest else rest)"
  have s1: "CHR ''>'' # rest = op @ r1"
    using head_or_zero_Cons [of rest "CHR ''>''"] by (auto simp: op_def r1_def)
  have swap: "push_redirect o' (advance v st0) = advance v (push_redirect o' st0)"
    "add_plain_redirect o' (advance v st0) = advance v (add_plain_redirect o' st0)" for o' v st0
    by (simp_all add: push_redirect_def add_plain_redirect_def advance_def)
  consider (plain) "r = r1" "st' = push_redirect (stream @ op) (advance op (start_token st))"
    | (merge) d where "head_or_zero r1 = CHR ''&''" "tl r1 = d # r"
        "st' = advance [CHR ''&'', d] (add_plain_redirect (stream @ op @ [CHR ''&'', d]) (advance op (start_token st)))"
    using assms unfolding ps_redirect_tail_def Let_def op_def [symmetric] r1_def [symmetric]
    by (auto split: if_splits list.splits)
  then show ?thesis
  proof cases
    case plain
    with s1 swap show ?thesis by (intro result [of op "stream @ op"]) (auto simp: op_def)
  next
    case merge
    have "r1 = CHR ''&'' # tl r1" by (rule head_or_zero_Cons [OF merge(1)]) simp
    with merge(2) have "r1 = CHR ''&'' # d # r" by simp
    with s1 merge(3) swap show ?thesis
      by (intro result [of "op @ [CHR ''&'', d]" "stream @ op @ [CHR ''&'', d]"]) (auto simp: op_def)
  qed
qed

lemma ps_redirect_tail_no_panic: "ps_redirect_tail stream st rest \<noteq> Inl Slice_panic"
  by (auto simp: ps_redirect_tail_def Let_def split: list.splits)

lemma ps_redirect_reads:
  assumes "ps_redirect st rest = Inr (st', r)"
  obtains u op st0 where "CHR ''>'' # rest = u @ r" "u \<noteq> []" "ls_src st0 = ls_src st" "ls_segs st0 = ls_segs st"
    "lscan_ok st \<Longrightarrow> lscan_ok st0"
    "st' = advance u (push_redirect op (start_token st0)) \<or> st' = advance u (add_plain_redirect op (start_token st0))"
proof (cases "ls_in_word st \<and> is_powershell_stream (ls_word st)")
  case True
  with assms have "ps_redirect_tail (ls_word st) (st\<lparr>ls_word := [], ls_in_word := False\<rparr>) rest = Inr (st', r)"
    by (simp add: ps_redirect_def)
  from ps_redirect_tail_reads [OF this] obtain u op where "CHR ''>'' # rest = u @ r" "u \<noteq> []"
    "st' = advance u (push_redirect op (start_token (st\<lparr>ls_word := [], ls_in_word := False\<rparr>)))
      \<or> st' = advance u (add_plain_redirect op (start_token (st\<lparr>ls_word := [], ls_in_word := False\<rparr>)))" .
  then show ?thesis by (intro that [of u "st\<lparr>ls_word := [], ls_in_word := False\<rparr>" op]) simp_all
next
  case False
  with assms obtain st0 where f: "flush_list_word st = Inr st0" and t: "ps_redirect_tail [] st0 rest = Inr (st', r)"
    by (auto simp: ps_redirect_def split: sum.splits)
  from ps_redirect_tail_reads [OF t] obtain u op where "CHR ''>'' # rest = u @ r" "u \<noteq> []"
    "st' = advance u (push_redirect op (start_token st0)) \<or> st' = advance u (add_plain_redirect op (start_token st0))" .
  moreover have "lscan_ok st \<Longrightarrow> lscan_ok st0" using flush_list_word_ok [of st] f by (simp add: ok_result_def)
  ultimately show ?thesis
    using flush_list_word_src [OF f] flush_list_word_segs [OF f] by (intro that [of u st0 op])
qed

lemma ps_redirect_ok: "lscan_ok st \<Longrightarrow> ok_pair (ps_redirect st rest)"
proof (cases "ps_redirect st rest")
  case (Inl e)
  assume "lscan_ok st"
  with Inl flush_list_word_ok [of st] ps_redirect_tail_no_panic show ?thesis
    by (auto simp: ps_redirect_def ok_result_def ok_pair_def split: if_splits sum.splits)
next
  case (Inr p)
  assume ok: "lscan_ok st"
  obtain st' r where p: "p = (st', r)" by fastforce
  from ps_redirect_reads [of st rest st' r] Inr p ok show ?thesis
    by (metis (no_types, lifting) ok_pair_def lscan_ok_ops(1,3,4,5) sum.case(2) case_prod_conv)
qed

lemma ps_flush_reads:
  assumes "flush_list_segment st = Inr st1"
  shows "src_step st u (advance u' st1)" "segs_step st (advance u' st1)"
  using flush_list_segment_segs [OF assms] flush_list_segment_src [OF assms]
  by (auto simp: segs_step_def seg_texts_def intro!: src_step_None)

lemma ps_step_reads:
  assumes "ps_step st c rest = Inr (st', r)"
  shows "(\<exists>u. u \<noteq> [] \<and> c # rest = u @ r \<and> src_step st u st') \<and> segs_step st st'"
proof -
  have keep: "ls_segs s' = ls_segs s \<Longrightarrow> segs_step s s'" for s s' by (simp add: segs_step_def)
  have quoted: ?thesis if "ps_single_quoted st rest = Inr (st', r) \<and> c = squote
      \<or> ps_double_quoted st rest = Inr (st', r) \<and> c = dquote"
  proof -
    from ps_quoted_reads [OF that] obtain u where u: "u \<noteq> []" "rest = u @ r"
      "word_only (advance [c] (write_word [] (start_token st))) u st'" .
    from word_only_start [OF u(3)] u(1,2) keep show ?thesis
      by (intro conjI exI [of _ "[c] @ u"]) auto
  qed
  show ?thesis
    using assms
  proof (cases rule: ps_step_cases)
    case (escape x r')
    then show ?thesis by (intro conjI exI [of _ "[c, x]"] keep) (auto intro!: src_start)
  next
    case blank
    then obtain st1 where f: "flush_list_word st = Inr st1" "st' = advance [c] st1" "r = rest"
      by (auto split: sum.splits)
    then show ?thesis
      using flush_list_word_src [OF f(1)] flush_list_word_segs [OF f(1)]
      by (intro conjI exI [of _ "[c]"] keep) (auto intro!: src_step_keep)
  next
    case semi
    then obtain st1 where f: "flush_list_segment st = Inr st1" "st' = advance [c] st1" "r = rest"
      by (auto split: sum.splits)
    then show ?thesis using ps_flush_reads [OF f(1)] by (intro conjI exI [of _ "[c]"]) auto
  next
    case bar
    then obtain st1 where f: "flush_list_segment st = Inr st1"
      and st': "if head_or_zero rest = CHR ''|'' then st' = advance ''||'' st1 \<and> r = tl rest
                else st' = advance ''|'' st1 \<and> r = rest"
      by (auto split: sum.splits if_splits)
    have two: "rest = CHR ''|'' # tl rest" if "head_or_zero rest = CHR ''|''"
      by (rule head_or_zero_Cons [OF that]) simp
    show ?thesis
    proof (cases "head_or_zero rest = CHR ''|''")
      case True
      with st' two bar ps_flush_reads [OF f] show ?thesis by (intro conjI exI [of _ "''||''"]) auto
    next
      case False
      with st' bar ps_flush_reads [OF f] show ?thesis by (intro conjI exI [of _ "''|''"]) auto
    qed
  next
    case amp
    then obtain st1 where f: "flush_list_segment st = Inr st1" "st' = advance ''&&'' st1" "r = tl rest"
      by (auto split: sum.splits)
    have "rest = CHR ''&'' # tl rest" by (rule head_or_zero_Cons [OF amp(2)]) simp
    with f amp ps_flush_reads [OF f(1)] show ?thesis by (intro conjI exI [of _ "''&&''"]) auto
  next
    case redir
    then have "ps_redirect st rest = Inr (st', r)" by simp
    from ps_redirect_reads [OF this] obtain u op st0 where r: "CHR ''>'' # rest = u @ r" "u \<noteq> []"
      "ls_src st0 = ls_src st" "ls_segs st0 = ls_segs st"
      "st' = advance u (push_redirect op (start_token st0)) \<or> st' = advance u (add_plain_redirect op (start_token st0))"
      by blast
    then have "ls_src st' = map_option (\<lambda>v. v @ u) (ls_src (start_token st))" "ls_segs st' = ls_segs st"
      by auto
    with r(1,2) redir(1) keep show ?thesis by (blast intro: src_start)
  next
    case plain
    then show ?thesis by (intro conjI exI [of _ "[c]"] keep) (auto intro!: src_start)
  qed (use quoted in auto)
qed

lemma ps_step_ok:
  assumes ok: "lscan_ok st"
  shows "ok_pair (ps_step st c rest)"
proof -
  have quoted: "ok_pair res" if "res = ps_single_quoted st rest \<and> c = squote \<or> res = ps_double_quoted st rest \<and> c = dquote" for res
  proof (cases res)
    case (Inl e)
    have "res \<noteq> Inl Slice_panic"
      using that
      by (elim disjE conjE)
         (simp_all add: ps_single_quoted_def ps_double_quoted_def ps_single_loop_no_panic ps_double_loop_no_panic)
    with Inl show ?thesis by (simp add: ok_pair_def)
  next
    case (Inr p)
    obtain st' r where p: "p = (st', r)" by fastforce
    with Inr that have "ps_single_quoted st rest = Inr (st', r) \<and> c = squote
      \<or> ps_double_quoted st rest = Inr (st', r) \<and> c = dquote" by auto
    from ps_quoted_reads [OF this] obtain u where
      "word_only (advance [c] (write_word [] (start_token st))) u st'" by blast
    with word_only_start(3) ok Inr p show ?thesis by (simp add: ok_pair_def)
  qed
  show ?thesis
    using refl [of "ps_step st c rest"]
  proof (cases rule: ps_step_cases)
    case single
    then show ?thesis using quoted by simp
  next
    case double
    then show ?thesis using quoted by simp
  next
    case (escape x r)
    then show ?thesis using ok by (simp add: ok_pair_def)
  next
    case blank
    then show ?thesis using flush_list_word_ok [OF ok] by (auto simp: ok_result_def ok_pair_def split: sum.splits)
  next
    case semi
    then show ?thesis using flush_list_segment_ok [OF ok] by (auto simp: ok_result_def ok_pair_def split: sum.splits)
  next
    case bar
    then show ?thesis using flush_list_segment_ok [OF ok] by (auto simp: ok_result_def ok_pair_def split: sum.splits)
  next
    case amp
    then show ?thesis using flush_list_segment_ok [OF ok] by (auto simp: ok_result_def ok_pair_def split: sum.splits)
  next
    case redir
    then show ?thesis using ps_redirect_ok [OF ok] by simp
  next
    case plain
    then show ?thesis using ok by (simp add: ok_pair_def)
  next
    case (refused e)
    then show ?thesis by (simp add: ok_pair_def)
  qed
qed

lemma ps_step_length: "ps_step st c rest = Inr (st', r) \<Longrightarrow> length r < Suc (length rest)"
  using ps_step_reads [of st c rest st' r] by (auto simp: Cons_eq_append_conv)

function ps_run :: "lscan \<Rightarrow> string \<Rightarrow> exec_error + lscan" where
  "ps_run st [] = Inr st"
| "ps_run st (c # rest) =
     (case ps_step st c rest of Inl e \<Rightarrow> Inl e | Inr (st', r) \<Rightarrow> ps_run st' r)"
  by pat_completeness auto
termination
  by (relation "measure (\<lambda>(st, s). length s)") (auto dest: ps_step_length)

definition ParsePowerShellCommandList :: "string \<Rightarrow> exec_error + segment list" where
  "ParsePowerShellCommandList raw =
     (case ps_run init_lscan raw of
        Inl e \<Rightarrow> Inl e
      | Inr st \<Rightarrow>
          (case list_finish st of
             Inl e \<Rightarrow> Inl e
           | Inr st' \<Rightarrow> if ls_segs st' = [] then Inl Empty_command else Inr (ls_segs st')))"

interpretation pwsh: segment_scanner ps_step ps_run ParsePowerShellCommandList
proof
  fix st c rest st' r
  assume "ps_step st c rest = Inr (st', r)"
  from ps_step_reads [OF this] show "\<exists>u. u \<noteq> [] \<and> c # rest = u @ r \<and> src_step st u st'" "segs_step st st'"
    by blast+
qed (simp_all add: ps_step_ok ParsePowerShellCommandList_def)

section \<open>The choice of the reader\<close>

definition LanguagePOSIX :: string where "LanguagePOSIX = ''''"
definition LanguagePowerShell :: string where "LanguagePowerShell = ''powershell''"
definition LanguageCmd :: string where "LanguageCmd = ''cmd''"

definition CommandLanguage :: "string \<Rightarrow> string" where
  "CommandLanguage interpreter =
     (if interpreter = ''powershell'' \<or> interpreter = ''pwsh'' then LanguagePowerShell
      else if interpreter = ''cmd'' then LanguageCmd
      else LanguagePOSIX)"

definition ParseCommandListFor :: "string \<Rightarrow> string \<Rightarrow> exec_error + segment list" where
  "ParseCommandListFor interpreter raw =
     (if CommandLanguage interpreter = LanguagePowerShell then ParsePowerShellCommandList raw
      else ParseCommandList raw)"

text \<open>
  Whichever interpreter a command is for, reading it never panics, and when it is accepted
  it has at least one segment and the segments' texts are consecutive, non-overlapping slices of
  the command.
\<close>

theorem ParseCommandListFor_contract:
  "ParseCommandListFor interpreter raw \<noteq> Inl Slice_panic
   \<and> (case ParseCommandListFor interpreter raw of
        Inl e \<Rightarrow> True
      | Inr segs \<Rightarrow> segs \<noteq> [] \<and> slices (List.map seg_text segs) raw)"
proof (cases "CommandLanguage interpreter = LanguagePowerShell")
  case True
  then show ?thesis using pwsh.parse_no_panic pwsh.parse_slices
    by (auto simp: ParseCommandListFor_def split: sum.splits)
next
  case False
  then show ?thesis using posix.parse_no_panic posix.parse_slices
    by (auto simp: ParseCommandListFor_def split: sum.splits)
qed

section \<open>No live subexpression\<close>

text \<open>
  Whether \<open>$(\<close>, or outside quotes \<open>@(\<close> or a bracket, stands where PowerShell would run it:
  a backtick protects the next byte, single quotes protect everything, a doubled quote inside
  quotes is a quote character.
\<close>

datatype ps_quote = Ps_bare | Ps_single | Ps_double

fun ps_expands :: "ps_quote \<Rightarrow> string \<Rightarrow> bool" where
  "ps_expands m [] = False"
| "ps_expands Ps_single (c # s) =
     (if c = squote then
        (case s of [] \<Rightarrow> False | d # s' \<Rightarrow> if d = squote then ps_expands Ps_single s' else ps_expands Ps_bare (d # s'))
      else ps_expands Ps_single s)"
| "ps_expands Ps_double (c # s) =
     (if c = btick then (case s of [] \<Rightarrow> False | _ # s' \<Rightarrow> ps_expands Ps_double s')
      else if c = dquote then
        (case s of [] \<Rightarrow> False | d # s' \<Rightarrow> if d = dquote then ps_expands Ps_double s' else ps_expands Ps_bare (d # s'))
      else c = CHR ''$'' \<and> head_or_zero s = CHR ''('' \<or> ps_expands Ps_double s)"
| "ps_expands Ps_bare (c # s) =
     (if c = btick then (case s of [] \<Rightarrow> False | _ # s' \<Rightarrow> ps_expands Ps_bare s')
      else if c = squote then ps_expands Ps_single s
      else if c = dquote then ps_expands Ps_double s
      else c \<in> {CHR ''('', CHR '')'', CHR ''{'', CHR ''}''} \<or> ps_expands Ps_bare s)"

lemma ps_expands_Nil_case [simp]: "(case s of [] \<Rightarrow> False | d # s' \<Rightarrow> ps_expands Ps_bare (d # s')) = ps_expands Ps_bare s"
  by (cases s) simp_all

lemma ps_single_loop_expands:
  "ps_single_loop st s = Inr (st', r) \<Longrightarrow> ps_expands Ps_single s = ps_expands Ps_bare r"
proof (induction st s rule: ps_single_loop.induct)
  case (2 st c rest)
  show ?case
  proof (cases "c = squote")
    case True
    with 2 show ?thesis by (cases rest) (auto split: if_splits)
  next
    case False
    with 2 show ?thesis by simp
  qed
qed simp

lemma ps_double_loop_expands:
  "ps_double_loop st s = Inr (st', r) \<Longrightarrow> ps_expands Ps_double s = ps_expands Ps_bare r"
proof (induction st s rule: ps_double_loop.induct)
  case (2 st c rest)
  consider "c = btick" | "c = dquote" | "c \<noteq> btick" "c \<noteq> dquote" by blast
  then show ?case
  proof cases
    case 1
    with "2.prems" obtain x r' where "rest = x # r'" by (cases rest) auto
    with 1 2 show ?thesis by simp
  next
    case 2
    with "2.prems" "2.IH"(2) show ?thesis by (cases rest) (auto split: if_splits)
  next
    case 3
    with "2.prems" have "\<not> (c = CHR ''$'' \<and> head_or_zero rest = CHR ''('')"
      "ps_double_loop (advance [c] (write_word [c] st)) rest = Inr (st', r)" by (auto split: if_splits)
    with 3 "2.IH"(3) show ?thesis by auto
  qed
qed simp

lemma ps_redirect_tail_input:
  assumes "ps_redirect_tail stream st rest = Inr (st', r)"
  shows "\<exists>u. CHR ''>'' # rest = u @ r \<and> (\<forall>c \<in> set u. c = CHR ''>'' \<or> c = CHR ''&'' \<or> stream_digit c)"
proof -
  define r1 where "r1 = (if head_or_zero rest = CHR ''>'' then tl rest else rest)"
  have s1: "\<exists>v. CHR ''>'' # rest = v @ r1 \<and> set v = {CHR ''>''}"
    using head_or_zero_Cons [of rest "CHR ''>''"] unfolding r1_def
    by (cases "head_or_zero rest = CHR ''>''") (auto intro: exI [of _ "''>>''"] exI [of _ "''>''"])
  consider "r = r1" | d where "head_or_zero r1 = CHR ''&''" "tl r1 = d # r" "stream_digit d"
    using assms unfolding ps_redirect_tail_def Let_def r1_def [symmetric]
    by (auto split: if_splits list.splits)
  then show ?thesis
  proof cases
    case 1
    with s1 show ?thesis by auto
  next
    case 2
    have "r1 = CHR ''&'' # tl r1" by (rule head_or_zero_Cons [OF 2(1)]) simp
    with 2(2) have "r1 = [CHR ''&'', d] @ r" by simp
    with s1 obtain v where "CHR ''>'' # rest = (v @ [CHR ''&'', d]) @ r" "set v = {CHR ''>''}" by auto
    with 2(3) show ?thesis by (intro exI [of _ "v @ [CHR ''&'', d]"]) auto
  qed
qed

lemma ps_expands_plain:
  "\<forall>c \<in> set u. c = CHR ''>'' \<or> c = CHR ''&'' \<or> stream_digit c \<Longrightarrow> ps_expands Ps_bare (u @ r) = ps_expands Ps_bare r"
proof (induction u)
  case (Cons c u)
  have "stream_digit c \<Longrightarrow> c \<notin> {btick, squote, dquote, CHR ''('', CHR '')'', CHR ''{'', CHR ''}''}"
    by (auto simp: stream_digit_def byte_def)
  with Cons.prems have "c \<notin> {btick, squote, dquote, CHR ''('', CHR '')'', CHR ''{'', CHR ''}''}" by auto
  with Cons show ?case by simp
qed simp

lemma ps_step_expands:
  assumes "ps_step st c rest = Inr (st', r)"
  shows "ps_expands Ps_bare (c # rest) = ps_expands Ps_bare r"
  using assms
proof (cases rule: ps_step_cases)
  case single
  then have "ps_single_loop (advance [squote] (write_word [] (start_token st))) rest = Inr (st', r)"
    by (simp add: ps_single_quoted_def)
  from ps_single_loop_expands [OF this] single show ?thesis by simp
next
  case double
  then have "ps_double_loop (advance [dquote] (write_word [] (start_token st))) rest = Inr (st', r)"
    by (simp add: ps_double_quoted_def)
  from ps_double_loop_expands [OF this] double show ?thesis by simp
next
  case blank
  then show ?thesis by (auto split: sum.splits)
next
  case semi
  then show ?thesis by (auto split: sum.splits)
next
  case bar
  have "ps_expands Ps_bare rest = ps_expands Ps_bare (tl rest)" if "head_or_zero rest = CHR ''|''"
    using head_or_zero_Cons [OF that] by (cases rest) (auto simp: head_or_zero_def)
  with bar show ?thesis by (auto split: sum.splits if_splits)
next
  case amp
  then have "ps_expands Ps_bare rest = ps_expands Ps_bare (tl rest)"
    by (cases rest) (auto simp: head_or_zero_def)
  with amp show ?thesis by (auto split: sum.splits)
next
  case redir
  then have "ps_redirect st rest = Inr (st', r)" by simp
  then obtain stream st0 where "ps_redirect_tail stream st0 rest = Inr (st', r)"
    by (auto simp: ps_redirect_def split: if_splits sum.splits)
  from ps_redirect_tail_input [OF this] redir(1) ps_expands_plain show ?thesis by metis
next
  case plain
  have "ps_step st c rest \<noteq> Inr (st', r)" if "c = CHR ''{'' \<or> c = CHR ''}''"
    using that by (elim disjE) (simp_all add: ps_step_def)
  with assms have "c \<notin> {CHR ''{'', CHR ''}''}" by blast
  with plain show ?thesis by auto
qed simp_all

text \<open>
  An accepted PowerShell command list has no live subexpression, grouping or script block:
  no bracket stands bare, and no \<open>$(\<close> stands inside double quotes.
\<close>

theorem ParsePowerShell_no_expansion:
  assumes "ParsePowerShellCommandList raw = Inr segs"
  shows "\<not> ps_expands Ps_bare raw"
proof -
  from assms obtain st where "ps_run init_lscan raw = Inr st" by (rule pwsh.parse_accepts)
  then show ?thesis
  proof (induction rule: pwsh.run_induct)
    case (iterate st c rest st1 r)
    with ps_step_expands [OF iterate(1)] show ?case by simp
  qed simp
qed

lemma ParsePowerShell_no_expansion_witness:
  "\<not> ps_expands Ps_bare (''Write-Host '' @ [squote] @ ''$(x)'' @ [squote, CHR '' '', btick, CHR ''(''])"
proof (rule ParsePowerShell_no_expansion)
  show "ParsePowerShellCommandList (''Write-Host '' @ [squote] @ ''$(x)'' @ [squote, CHR '' '', btick, CHR ''(''])
    = Inr [\<lparr>seg_program = ''write-host'', seg_args = [''$(x)'', ''(''], seg_redirects = [],
            seg_text = ''Write-Host '' @ [squote] @ ''$(x)'' @ [squote, CHR '' '', btick, CHR ''('']\<rparr>]"
    by code_simp
qed

section \<open>Backslashes\<close>

definition ps_plain_word :: "string \<Rightarrow> bool" where
  "ps_plain_word w \<longleftrightarrow> w \<noteq> [] \<and> (\<forall>c \<in> set w. visible c \<and> c \<notin> {btick, squote, dquote, CHR ''#'', CHR ''$'', CHR ''@'',
     CHR ''('', CHR '')'', CHR ''{'', CHR ''}'', CHR ''<'', CHR '';'', CHR ''|'', CHR ''&'', CHR ''>''})"

lemma ps_step_plain:
  assumes "visible c" and n: "c \<notin> {btick, squote, dquote, CHR ''#'', CHR ''$'', CHR ''@'',
     CHR ''('', CHR '')'', CHR ''{'', CHR ''}'', CHR ''<'', CHR '';'', CHR ''|'', CHR ''&'', CHR ''>''}"
  shows "ps_step st c rest = Inr (advance [c] (write_word [c] (start_token st)), rest)"
proof -
  have "c \<notin> {CHR '' '', tab_c, newline_c, cr_c}" using assms(1) by (auto simp: visible_def byte_def)
  with n show ?thesis by (simp add: ps_step_def)
qed

lemma ps_run_plain_word:
  "ps_plain_word w \<Longrightarrow> ps_run st (w @ s) = ps_run (advance w (write_word w (start_token st))) s"
proof (induction w arbitrary: st)
  case (Cons c w)
  from Cons.prems have c: "ps_step st c (w @ s) = Inr (advance [c] (write_word [c] (start_token st)), w @ s)"
    by (intro ps_step_plain) (auto simp: ps_plain_word_def)
  show ?case
  proof (cases w)
    case Nil
    then show ?thesis using c by simp
  next
    case (Cons d v)
    then have "ps_plain_word w" using Cons.prems by (auto simp: ps_plain_word_def)
    with Cons.IH c show ?thesis by simp
  qed
qed (simp add: ps_plain_word_def)

lemma ps_run_blank:
  "ps_run st (CHR '' '' # s) =
     (case flush_list_word st of Inl e \<Rightarrow> Inl e | Inr st' \<Rightarrow> ps_run (advance '' '' st') s)"
  by (auto simp: ps_step_def split: sum.splits)

lemma ps_read_two:
  assumes "ps_plain_word p" "ps_plain_word w"
  shows "ParsePowerShellCommandList (p @ '' '' @ w)
    = Inr [\<lparr>seg_program = normalize_program p, seg_args = [w], seg_redirects = [], seg_text = p @ '' '' @ w\<rparr>]"
proof -
  have "ps_run init_lscan (p @ CHR '' '' # w) = Inr (in_word [p] [] (p @ CHR '' '' # w) w)"
    using ps_run_plain_word [OF assms(1), of init_lscan "CHR '' '' # w"]
      ps_run_plain_word [OF assms(2), of "in_segment [p] [] (p @ '' '')" "[]"]
    by (simp add: in_segment_word ps_run_blank in_word_flush del: ps_run.simps(2))
  moreover have "trim_space (p @ CHR '' '' # w) = p @ CHR '' '' # w"
    using assms by (intro trim_space_id) (cases p, auto simp: ps_plain_word_def)
  ultimately show ?thesis
    by (simp add: ParsePowerShellCommandList_def in_segment_finish [of "[p]" _ p "[w]"])
qed

lemma posix_read_escaped:
  assumes "plain_word p" "plain_word x" "plain_word y"
  shows "ParseCommandList (p @ '' '' @ x @ bslash # y)
    = Inr [\<lparr>seg_program = normalize_program p, seg_args = [x @ y], seg_redirects = [],
           seg_text = p @ '' '' @ x @ bslash # y\<rparr>]"
proof -
  obtain c y' where y: "y = c # y'" using assms(3) by (cases y) (auto simp: plain_word_def)
  have rest: "list_run (in_word [p] [] (p @ CHR '' '' # x) x) (bslash # y)
      = Inr (in_word [p] [] (p @ CHR '' '' # x @ bslash # y) (x @ y))"
  proof (cases "y' = []")
    case True
    with y show ?thesis
      by (simp add: list_step_def) (simp add: in_word_def advance_def write_word_def start_token_def)
  next
    case False
    then have "plain_word y'" using assms(3) y by (auto simp: plain_word_def)
    from list_run_plain_word [OF this, of _ "[]"] y show ?thesis
      by (simp add: list_step_def) (simp add: in_word_def advance_def write_word_def start_token_def)
  qed
  have "list_run init_lscan (p @ CHR '' '' # x @ bslash # y) = Inr (in_word [p] [] (p @ CHR '' '' # x @ bslash # y) (x @ y))"
    using list_run_plain_word [OF assms(1), of init_lscan "CHR '' '' # x @ bslash # y"]
      list_run_plain_word [OF assms(2), of "in_segment [p] [] (p @ '' '')" "bslash # y"] rest
    by (simp add: in_segment_word list_run_blank in_word_flush del: list_run.simps(2))
  moreover have "trim_space (p @ CHR '' '' # x @ bslash # y) = p @ CHR '' '' # x @ bslash # y"
    using assms by (intro trim_space_id) (cases p, auto simp: plain_word_def)
  ultimately show ?thesis
    by (simp add: ParseCommandList_def scan_list_def in_segment_finish [of "[p]" _ p "[x @ y]"])
qed

text \<open>
  The reader follows the interpreter on the backslash.  A Windows path \<open>x\y\<close> is one
  argument that keeps its separator when the interpreter is PowerShell, and an escape that
  dissolves it, leaving \<open>xy\<close>, for every interpreter read as POSIX.
\<close>

theorem ParseCommandListFor_backslash:
  assumes "plain_word p" "ps_plain_word p" "plain_word x" "ps_plain_word x" "plain_word y" "ps_plain_word y"
  shows "\<exists>txt. ParseCommandListFor interpreter (p @ '' '' @ x @ bslash # y) =
     Inr [\<lparr>seg_program = normalize_program p,
           seg_args = [if interpreter \<in> {''powershell'', ''pwsh''} then x @ bslash # y else x @ y],
           seg_redirects = [], seg_text = txt\<rparr>]"
proof -
  have "ps_plain_word (x @ bslash # y)"
    using assms(4,6) by (auto simp: ps_plain_word_def visible_def byte_def)
  from ps_read_two [OF assms(2) this] posix_read_escaped [OF assms(1,3,5)] show ?thesis
    by (auto simp: ParseCommandListFor_def CommandLanguage_def LanguagePowerShell_def LanguageCmd_def LanguagePOSIX_def)
qed

lemma ParseCommandListFor_backslash_witness:
  "\<exists>txt. ParseCommandListFor ''pwsh'' (''del '' @ ''C:'' @ bslash # ''temp'') =
     Inr [\<lparr>seg_program = ''del'', seg_args = [''C:'' @ bslash # ''temp''], seg_redirects = [], seg_text = txt\<rparr>]"
proof -
  have "plain_word ''del''" "ps_plain_word ''del''" "plain_word ''C:''" "ps_plain_word ''C:''"
    "plain_word ''temp''" "ps_plain_word ''temp''" "normalize_program ''del'' = ''del''" by code_simp+
  then show ?thesis using ParseCommandListFor_backslash [of "''del''" "''C:''" "''temp''" "''pwsh''"] by auto
qed

end
