(* ===== verification/LoopGuard.thy ===== *)
theory LoopGuard
  imports Complex_Main Prelude "HOL-Library.Char_ord" "HOL-Library.List_Lexorder"
begin

text \<open>
  The stop conditions of the agent loop, \<open>internal/loopguard\<close>: the gates and their handler
  (\<open>loopguard.go\<close>), the token and time budgets (\<open>budget.go\<close>), the repetition detector
  (\<open>repetition.go\<close>) and the budget of tool calls (\<open>toolbudget.go\<close>).  A method that changes its
  receiver returns the new receiver; the mutexes make each method one step.  A text that is
  formatted from numbers is a constructor of \<open>notice\<close> with those numbers.
\<close>

section \<open>Observations and results\<close>

datatype action = ActionContinue | ActionModifyPrompt | ActionStop

record tool_call =
  tc_name :: string
  tc_args_hash :: string

record observation =
  ob_iteration :: int
  ob_elapsed :: int
  ob_prompt :: int
  ob_completion :: int
  ob_calls :: "tool_call list"

datatype notice =
    Text string
  | Tokens_exhausted int int
  | Deadline_reached int int
  | Repetition_stopped string int
  | Repetition_warned string int
  | Repetition_detected int

record result =
  rs_action :: action
  rs_reason :: notice
  rs_continuation :: notice
  rs_gate :: string

definition zero_result :: result where
  "zero_result = \<lparr>rs_action = ActionContinue, rs_reason = Text [], rs_continuation = Text [], rs_gate = []\<rparr>"

definition stop_result :: "notice \<Rightarrow> result" where
  "stop_result reason = zero_result\<lparr>rs_action := ActionStop, rs_reason := reason\<rparr>"

section \<open>The handler\<close>

text \<open>
  \<open>Handler.Evaluate\<close> calls the gates through their interface, so it is a function of the
  interface's methods: \<open>check\<close> answers for one iteration and returns the gate's next state.
\<close>

fun eval_gates :: "('g \<Rightarrow> observation \<Rightarrow> result \<times> 'g) \<Rightarrow> ('g \<Rightarrow> string) \<Rightarrow>
    result \<Rightarrow> 'g list \<Rightarrow> observation \<Rightarrow> result \<times> 'g list" where
  "eval_gates check name nudge [] obs = (nudge, [])"
| "eval_gates check name nudge (g # gs) obs =
     (let (res, g') = check g obs
      in case rs_action res of
           ActionStop \<Rightarrow> (res\<lparr>rs_gate := name g\<rparr>, g' # gs)
         | ActionModifyPrompt \<Rightarrow>
             (let (r, gs') = eval_gates check name
                    (if rs_action nudge = ActionContinue then res\<lparr>rs_gate := name g\<rparr> else nudge) gs obs
              in (r, g' # gs'))
         | ActionContinue \<Rightarrow>
             (let (r, gs') = eval_gates check name nudge gs obs in (r, g' # gs')))"

text \<open>\<open>NewHandler\<close>: a nil interface value is \<^const>\<open>None\<close>; the sort is stable.\<close>

definition new_handler :: "('g \<Rightarrow> int) \<Rightarrow> 'g option list \<Rightarrow> 'g list" where
  "new_handler priority gs = sort_key priority (concat (map (\<lambda>g. case g of None \<Rightarrow> [] | Some x \<Rightarrow> [x]) gs))"

section \<open>Token budget\<close>

record token_gate =
  tg_max :: int
  tg_prompt :: int
  tg_completion :: int
  tg_last_prompt :: int
  tg_observed_once :: bool

definition NewTokenBudgetGate :: "int \<Rightarrow> token_gate option" where
  "NewTokenBudgetGate max_total =
     (if max_total \<le> 0 then None
      else Some \<lparr>tg_max = max_total, tg_prompt = 0, tg_completion = 0, tg_last_prompt = 0,
                 tg_observed_once = False\<rparr>)"

definition Used :: "token_gate option \<Rightarrow> int" where
  "Used g = (case g of None \<Rightarrow> 0 | Some t \<Rightarrow> i64 (tg_prompt t + tg_completion t))"

definition Max :: "token_gate option \<Rightarrow> int" where
  "Max g = (case g of None \<Rightarrow> 0 | Some t \<Rightarrow> tg_max t)"

text \<open>The accumulation of \<open>TokenBudgetGate.Check\<close> and the check itself.\<close>

definition token_observe :: "token_gate \<Rightarrow> observation \<Rightarrow> token_gate" where
  "token_observe t obs =
     (if ob_prompt obs > 0 \<or> ob_completion obs > 0
      then let growth = i64 (ob_prompt obs - tg_last_prompt t);
               t1 = (if \<not> tg_observed_once t then t\<lparr>tg_prompt := ob_prompt obs, tg_observed_once := True\<rparr>
                     else if growth > 0 then t\<lparr>tg_prompt := i64 (tg_prompt t + growth)\<rparr>
                     else t)
           in t1\<lparr>tg_last_prompt := ob_prompt obs,
                  tg_completion := i64 (tg_completion t + ob_completion obs)\<rparr>
      else t)"

definition token_check :: "token_gate \<Rightarrow> observation \<Rightarrow> result \<times> token_gate" where
  "token_check t obs =
     (let t' = token_observe t obs; total = i64 (tg_prompt t' + tg_completion t')
      in (if total < tg_max t' then zero_result else stop_result (Tokens_exhausted total (tg_max t')), t'))"

section \<open>Deadline\<close>

text \<open>A duration is a number of nanoseconds; a \<open>DeadlineGate\<close> is its limit.\<close>

definition NewDeadlineGate :: "int \<Rightarrow> int option" where
  "NewDeadlineGate limit = (if limit \<le> 0 then None else Some limit)"

definition deadline_check :: "int option \<Rightarrow> observation \<Rightarrow> result" where
  "deadline_check g obs =
     (case g of
        None \<Rightarrow> zero_result
      | Some limit \<Rightarrow>
          if ob_elapsed obs < limit then zero_result
          else stop_result (Deadline_reached (ob_elapsed obs) limit))"

section \<open>Repetition\<close>

text \<open>
  The similarity is computed in double precision.  \<open>double\<close> rounds a rational number between
  0 and 1 to the nearest double, ties to even: the number is scaled by a power of two into
  the range where a double has unit spacing, rounded, and scaled back.
\<close>

definition round_even :: "rat \<Rightarrow> int" where
  "round_even x =
     (let f = \<lfloor>x\<rfloor>; d = x - of_int f
      in if d < 1 / 2 then f else if d > 1 / 2 then f + 1 else if even f then f else f + 1)"

fun norm_shift :: "nat \<Rightarrow> rat \<Rightarrow> nat" where
  "norm_shift 0 x = 0"
| "norm_shift (Suc fuel) x = (if 1 \<le> x then 0 else Suc (norm_shift fuel (2 * x)))"

definition double :: "rat \<Rightarrow> rat" where
  "double x =
     (if x = 0 then 0
      else let k = 52 + norm_shift 1022 x in of_int (round_even (x * 2 ^ k)) / 2 ^ k)"

definition signature :: "tool_call \<Rightarrow> string" where
  "signature c = tc_name c @ '':'' @ tc_args_hash c"

definition repetition_similarity :: "tool_call list \<Rightarrow> rat" where
  "repetition_similarity window =
     (if length window \<le> 1 then 0
      else let seen = length (remdups (map signature window))
           in double (1 - double (of_int (int seen - 1) / of_int (int (length window) - 1))))"

record stage =
  sg_after :: int
  sg_stop :: bool
  sg_prompt :: string

definition DefaultRepetitionWindow :: int where "DefaultRepetitionWindow = 3"
definition DefaultRepetitionThreshold :: rat where "DefaultRepetitionThreshold = 1"

definition DefaultRepetitionStages :: "stage list" where
  "DefaultRepetitionStages =
     [\<lparr>sg_after = 3, sg_stop = False, sg_prompt = []\<rparr>, \<lparr>sg_after = 4, sg_stop = True, sg_prompt = []\<rparr>]"

record repetition_config =
  rc_window :: int
  rc_threshold :: rat
  rc_stages :: "stage list"

record repetition_gate =
  rg_window :: int
  rg_threshold :: rat
  rg_stages :: "stage list"
  rg_history :: "tool_call list"
  rg_hits :: int

definition NewRepetitionGate :: "repetition_config \<Rightarrow> repetition_gate" where
  "NewRepetitionGate cfg =
     (let w1 = (if rc_window cfg \<le> 0 then DefaultRepetitionWindow else rc_window cfg);
          w2 = (if w1 < 2 then 2 else w1);
          th = (if rc_threshold cfg \<le> 0 then DefaultRepetitionThreshold else rc_threshold cfg);
          st = (if rc_stages cfg = [] then DefaultRepetitionStages else rc_stages cfg)
      in \<lparr>rg_window = w2, rg_threshold = th, rg_stages = sort_key sg_after st, rg_history = [], rg_hits = 0\<rparr>)"

text \<open>\<open>activeStage\<close> scans from the last stage to the first.\<close>

definition active_stage :: "repetition_gate \<Rightarrow> stage option" where
  "active_stage g = find (\<lambda>s. rg_hits g \<ge> sg_after s) (rev (rg_stages g))"

definition last_calls :: "nat \<Rightarrow> tool_call list \<Rightarrow> tool_call list" where
  "last_calls n h = drop (length h - n) h"

definition detect :: "repetition_gate \<Rightarrow> bool" where
  "detect g =
     (if int (length (rg_history g)) < rg_window g then False
      else repetition_similarity (last_calls (nat (rg_window g)) (rg_history g)) \<ge> rg_threshold g)"

definition push_calls :: "repetition_gate \<Rightarrow> tool_call list \<Rightarrow> repetition_gate" where
  "push_calls g calls =
     (let h = rg_history g @ calls; m = rg_window g * 2
      in g\<lparr>rg_history := (if int (length h) > m then last_calls (nat m) h else h)\<rparr>)"

definition repetition_check :: "repetition_gate \<Rightarrow> observation \<Rightarrow> result \<times> repetition_gate" where
  "repetition_check g obs =
     (let g1 = push_calls g (ob_calls obs)
      in if \<not> detect g1 then (zero_result, g1\<lparr>rg_hits := 0\<rparr>)
         else
           let hits = (if rg_hits g = 0 then rg_window g else i64 (rg_hits g + 1));
               g2 = g1\<lparr>rg_hits := hits\<rparr>
           in case active_stage g2 of
                None \<Rightarrow> (zero_result, g2)
              | Some s \<Rightarrow>
                  (let name = tc_name (last (rg_history g2))
                   in if sg_stop s
                      then (stop_result (if sg_prompt s = [] then Repetition_stopped name hits
                                         else Text (sg_prompt s)), g2)
                      else (zero_result\<lparr>rs_action := ActionModifyPrompt, rs_reason := Repetition_detected hits,
                              rs_continuation := (if sg_prompt s = [] then Repetition_warned name hits
                                                  else Text (sg_prompt s))\<rparr>, g2)))"

text \<open>\<open>HashArgs\<close>; \<open>sha256_hex\<close> is the hexadecimal SHA-256 digest of the standard library.\<close>

definition HashArgs :: "(string \<Rightarrow> string) \<Rightarrow> string \<Rightarrow> string" where
  "HashArgs sha256_hex args = take 16 (sha256_hex (if length args > 2048 then take 2048 args else args))"

section \<open>The gates of the package\<close>

text \<open>
  A value of the interface \<open>Gate\<close>.  A nil pointer stored in the interface is a gate too: it
  has a name and a priority, and its \<open>Check\<close> answers with the zero result.
\<close>

datatype gate =
    TokenBudget "token_gate option"
  | Deadline "int option"
  | Repetition repetition_gate

fun gate_name :: "gate \<Rightarrow> string" where
  "gate_name (TokenBudget t) = ''token-budget''"
| "gate_name (Deadline d) = ''deadline''"
| "gate_name (Repetition r) = ''repetition''"

fun gate_priority :: "gate \<Rightarrow> int" where
  "gate_priority (TokenBudget t) = 20"
| "gate_priority (Deadline d) = 30"
| "gate_priority (Repetition r) = 5"

fun gate_check :: "gate \<Rightarrow> observation \<Rightarrow> result \<times> gate" where
  "gate_check (TokenBudget None) obs = (zero_result, TokenBudget None)"
| "gate_check (TokenBudget (Some t)) obs = map_prod id (TokenBudget \<circ> Some) (token_check t obs)"
| "gate_check (Deadline d) obs = (deadline_check d obs, Deadline d)"
| "gate_check (Repetition r) obs = map_prod id Repetition (repetition_check r obs)"

definition NewHandler :: "gate option list \<Rightarrow> gate list" where
  "NewHandler gs = new_handler gate_priority gs"

definition Evaluate_gates :: "gate list option \<Rightarrow> observation \<Rightarrow> result \<times> gate list option" where
  "Evaluate_gates h obs =
     (case h of
        None \<Rightarrow> (zero_result, None)
      | Some gs \<Rightarrow> map_prod id Some (eval_gates gate_check gate_name zero_result gs obs))"

definition handler_len :: "gate list option \<Rightarrow> int" where
  "handler_len h = (case h of None \<Rightarrow> 0 | Some gs \<Rightarrow> int (length gs))"

definition handler_names :: "gate list option \<Rightarrow> string list" where
  "handler_names h = (case h of None \<Rightarrow> [] | Some gs \<Rightarrow> map gate_name gs)"

record stop_error =
  se_gate :: string
  se_reason :: notice

definition NewStopError :: "result \<Rightarrow> stop_error option" where
  "NewStopError res =
     (if rs_action res \<noteq> ActionStop then None else Some \<lparr>se_gate = rs_gate res, se_reason = rs_reason res\<rparr>)"

section \<open>Tool budget\<close>

record tool_budget =
  tb_per_tool :: "(string \<times> int) list"
  tb_max_total :: int
  tb_counts :: "string \<Rightarrow> int"
  tb_total :: int

datatype refusal = Tool_budget_reached string int | Total_budget_reached int string

definition NewToolBudget :: "(string \<times> int) list \<Rightarrow> int \<Rightarrow> tool_budget option" where
  "NewToolBudget per_tool max_total =
     (let pt = filter (\<lambda>(name, limit). name \<noteq> [] \<and> limit > 0) per_tool
      in if pt = [] \<and> max_total \<le> 0 then None
         else Some \<lparr>tb_per_tool = pt, tb_max_total = max_total, tb_counts = (\<lambda>_. 0), tb_total = 0\<rparr>)"

definition spent_limit :: "tool_budget \<Rightarrow> string \<Rightarrow> int option" where
  "spent_limit b name =
     (case map_of (tb_per_tool b) name of
        Some limit \<Rightarrow> if tb_counts b name \<ge> limit then Some limit else None
      | None \<Rightarrow> None)"

definition budget_consume :: "tool_budget \<Rightarrow> string \<Rightarrow> refusal option \<times> tool_budget" where
  "budget_consume b name =
     (case spent_limit b name of
        Some limit \<Rightarrow> (Some (Tool_budget_reached name limit), b)
      | None \<Rightarrow>
          if tb_max_total b > 0 \<and> tb_total b \<ge> tb_max_total b
          then (Some (Total_budget_reached (tb_max_total b) name), b)
          else (None, b\<lparr>tb_counts := (tb_counts b)(name := i64 (tb_counts b name + 1)),
                         tb_total := i64 (tb_total b + 1)\<rparr>))"

text \<open>Every method is safe on a nil budget: \<^const>\<open>None\<close> allows everything.\<close>

definition Consume :: "tool_budget option \<Rightarrow> string \<Rightarrow> refusal option \<times> tool_budget option" where
  "Consume b name = (case b of None \<Rightarrow> (None, None) | Some t \<Rightarrow> map_prod id Some (budget_consume t name))"

definition budget_used :: "tool_budget option \<Rightarrow> string \<Rightarrow> int" where
  "budget_used b name = (case b of None \<Rightarrow> 0 | Some t \<Rightarrow> tb_counts t name)"

definition budget_total :: "tool_budget option \<Rightarrow> int" where
  "budget_total b = (case b of None \<Rightarrow> 0 | Some t \<Rightarrow> tb_total t)"

definition Describe :: "tool_budget option \<Rightarrow> string" where
  "Describe b =
     (case b of
        None \<Rightarrow> ''no tool budget''
      | Some t \<Rightarrow>
          join_byte (CHR '' '') ((if tb_max_total t > 0 then [''total<='' @ itoa (tb_max_total t)] else []) @
            map (\<lambda>name. name @ ''<='' @ itoa (the (map_of (tb_per_tool t) name)))
              (sort (map fst (tb_per_tool t)))))"

end
