(* ===== verification/LoopGuardProps.thy ===== *)
theory LoopGuardProps
  imports LoopGuard
begin

text \<open>
  What the loop guard guarantees: the handler's verdict through the interface of a gate, the
  accounting of the token budget, the schedule of the repetition detector and the limits the
  tool budget enforces.
\<close>

section \<open>The interface of a gate\<close>

definition stops :: "('g \<Rightarrow> observation \<Rightarrow> result \<times> 'g) \<Rightarrow> observation \<Rightarrow> 'g \<Rightarrow> bool" where
  "stops check obs g \<longleftrightarrow> rs_action (fst (check g obs)) = ActionStop"

definition nudges :: "('g \<Rightarrow> observation \<Rightarrow> result \<times> 'g) \<Rightarrow> observation \<Rightarrow> 'g \<Rightarrow> bool" where
  "nudges check obs g \<longleftrightarrow> rs_action (fst (check g obs)) = ActionModifyPrompt"

text \<open>What one iteration must decide: the first stop, else the first nudge, else nothing.\<close>

definition verdict :: "('g \<Rightarrow> observation \<Rightarrow> result \<times> 'g) \<Rightarrow> ('g \<Rightarrow> string) \<Rightarrow> 'g list \<Rightarrow> observation \<Rightarrow> result" where
  "verdict check name gs obs =
     (case find (stops check obs) gs of
        Some g \<Rightarrow> (fst (check g obs))\<lparr>rs_gate := name g\<rparr>
      | None \<Rightarrow>
          (case find (nudges check obs) gs of
             Some g \<Rightarrow> (fst (check g obs))\<lparr>rs_gate := name g\<rparr>
           | None \<Rightarrow> zero_result))"

text \<open>Which gates have advanced: those up to the first that stops.\<close>

definition advanced :: "('g \<Rightarrow> observation \<Rightarrow> result \<times> 'g) \<Rightarrow> 'g list \<Rightarrow> observation \<Rightarrow> 'g list" where
  "advanced check gs obs =
     map (\<lambda>g. snd (check g obs)) (takeWhile (\<lambda>g. \<not> stops check obs g) gs)
     @ (case dropWhile (\<lambda>g. \<not> stops check obs g) gs of [] \<Rightarrow> [] | g # rest \<Rightarrow> snd (check g obs) # rest)"

lemma eval_gates_nudge:
  "rs_action nudge \<noteq> ActionContinue \<Longrightarrow> eval_gates check name nudge gs obs =
     ((case find (stops check obs) gs of Some g \<Rightarrow> (fst (check g obs))\<lparr>rs_gate := name g\<rparr> | None \<Rightarrow> nudge),
      advanced check gs obs)"
  by (induction gs)
     (auto simp: stops_def advanced_def Let_def split: prod.splits action.splits)

lemma eval_gates_verdict:
  "eval_gates check name zero_result gs obs = (verdict check name gs obs, advanced check gs obs)"
proof (induction gs)
  case Nil
  then show ?case by (simp add: verdict_def advanced_def)
next
  case (Cons g gs)
  obtain r g' where c: "check g obs = (r, g')" by fastforce
  show ?case
  proof (cases "rs_action r")
    case ActionContinue
    with c have "\<not> stops check obs g" "\<not> nudges check obs g" by (simp_all add: stops_def nudges_def)
    with Cons c ActionContinue show ?thesis by (simp add: verdict_def advanced_def split: option.split)
  next
    case ActionStop
    with c have "stops check obs g" by (simp add: stops_def)
    with c ActionStop show ?thesis by (simp add: verdict_def advanced_def)
  next
    case ActionModifyPrompt
    then have "rs_action (r\<lparr>rs_gate := name g\<rparr>) \<noteq> ActionContinue" by simp
    moreover have "\<not> stops check obs g" "nudges check obs g"
      using ActionModifyPrompt c by (simp_all add: stops_def nudges_def)
    ultimately show ?thesis
      using eval_gates_nudge [of "r\<lparr>rs_gate := name g\<rparr>" check name gs obs] ActionModifyPrompt c
      by (simp add: verdict_def advanced_def zero_result_def split: option.splits)
  qed
qed

text \<open>
  A gate keeps its name, its priority and its own invariant whatever it observes, and an answer
  without an opinion is the zero result.
\<close>

locale gate_interface =
  fixes check :: "'g \<Rightarrow> observation \<Rightarrow> result \<times> 'g"
    and name :: "'g \<Rightarrow> string"
    and priority :: "'g \<Rightarrow> int"
    and ok :: "'g \<Rightarrow> bool"
  assumes check_ok: "ok g \<Longrightarrow> ok (snd (check g obs))"
    and name_fixed: "name (snd (check g obs)) = name g"
    and priority_fixed: "priority (snd (check g obs)) = priority g"
    and continue_empty: "rs_action (fst (check g obs)) = ActionContinue \<Longrightarrow> fst (check g obs) = zero_result"
begin

lemma advanced_map:
  assumes "\<And>g. f (snd (check g obs)) = f g"
  shows "map f (advanced check gs obs) = map f gs"
proof -
  let ?p = "\<lambda>g. \<not> stops check obs g"
  have "map f (advanced check gs obs) = map f (takeWhile ?p gs) @ map f (dropWhile ?p gs)"
    by (simp add: advanced_def assms comp_def split: list.split)
  then show ?thesis by (metis map_append takeWhile_dropWhile_id)
qed

lemma names_fixed: "map name (advanced check gs obs) = map name gs"
  by (rule advanced_map) (rule name_fixed)

lemma priorities_fixed: "map priority (advanced check gs obs) = map priority gs"
  by (rule advanced_map) (rule priority_fixed)

lemma advanced_ok: "\<forall>g \<in> set gs. ok g \<Longrightarrow> \<forall>g \<in> set (advanced check gs obs). ok g"
  by (auto simp: advanced_def check_ok dest: set_takeWhileD split: list.splits)
     (metis (no_types, lifting) check_ok list.set_intros set_dropWhileD)+

text \<open>A turn: one evaluation per observation.\<close>

lemma turn_ok:
  "\<forall>g \<in> set gs. ok g \<Longrightarrow> \<forall>g \<in> set (fold (\<lambda>obs gs. advanced check gs obs) os gs). ok g"
proof (induction os arbitrary: gs)
  case (Cons a os)
  from Cons.IH [OF advanced_ok [OF Cons.prems]] show ?case by simp
qed simp

lemma turn_fixed:
  "map name (fold (\<lambda>obs gs. advanced check gs obs) os gs) = map name gs
   \<and> map priority (fold (\<lambda>obs gs. advanced check gs obs) os gs) = map priority gs"
  by (induction os arbitrary: gs) (simp_all add: names_fixed priorities_fixed)

lemma verdict_named:
  "rs_action (verdict check name gs obs) \<noteq> ActionContinue \<Longrightarrow>
     \<exists>g \<in> set gs. rs_gate (verdict check name gs obs) = name g
       \<and> rs_action (verdict check name gs obs) = rs_action (fst (check g obs))"
  by (auto simp: verdict_def zero_result_def dest!: find_SomeD split: option.splits)

lemma new_handler_sorted: "sorted (map priority (new_handler priority gs))"
  by (simp add: new_handler_def)

end

definition gate_ok :: "gate \<Rightarrow> bool" where
  "gate_ok g = (case g of
       TokenBudget t \<Rightarrow> (case t of None \<Rightarrow> True | Some b \<Rightarrow> 0 < tg_max b)
     | Deadline d \<Rightarrow> (case d of None \<Rightarrow> True | Some l \<Rightarrow> 0 < l)
     | Repetition r \<Rightarrow> 2 \<le> rg_window r \<and> int (length (rg_history r)) \<le> 2 * rg_window r)"

lemma push_calls_simps [simp]:
  "rg_window (push_calls g cs) = rg_window g" "rg_threshold (push_calls g cs) = rg_threshold g"
  "rg_stages (push_calls g cs) = rg_stages g" "rg_hits (push_calls g cs) = rg_hits g"
  by (simp_all add: push_calls_def Let_def)

lemma push_calls_bound: "0 \<le> rg_window g \<Longrightarrow> int (length (rg_history (push_calls g cs))) \<le> 2 * rg_window g"
  by (auto simp: push_calls_def Let_def last_calls_def)

lemma repetition_check_state:
  "rg_window (snd (repetition_check g obs)) = rg_window g"
  "rg_history (snd (repetition_check g obs)) = rg_history (push_calls g (ob_calls obs))"
  by (simp_all add: repetition_check_def Let_def split: option.splits)

interpretation gates: gate_interface gate_check gate_name gate_priority gate_ok
proof
  fix g obs
  have "gate_ok (Repetition (snd (repetition_check r obs)))" if "2 \<le> rg_window r" for r
    using that push_calls_bound [of r "ob_calls obs"]
    by (simp add: gate_ok_def repetition_check_state)
  then show "gate_ok (snd (gate_check g obs))" if "gate_ok g"
    using that
    by (cases "(g, obs)" rule: gate_check.cases)
       (auto simp: gate_ok_def token_check_def token_observe_def Let_def)
  show "gate_name (snd (gate_check g obs)) = gate_name g"
    by (cases "(g, obs)" rule: gate_check.cases) simp_all
  show "gate_priority (snd (gate_check g obs)) = gate_priority g"
    by (cases "(g, obs)" rule: gate_check.cases) simp_all
  show "rs_action (fst (gate_check g obs)) = ActionContinue \<Longrightarrow> fst (gate_check g obs) = zero_result"
    by (cases "(g, obs)" rule: gate_check.cases)
       (auto simp: token_check_def deadline_check_def repetition_check_def Let_def stop_result_def
          split: option.splits if_splits)
qed

text \<open>
  One evaluation answers with the first gate, in order, that stops; else with the first
  that nudges; else with the zero result.  A stop wins over an earlier nudge, the answer carries
  the deciding gate's name, and the gates after the first stop are not consulted: only the
  gates up to it change their state.
\<close>

theorem Evaluate_verdict_first_stop:
  "Evaluate_gates (Some gs) obs
     = (verdict gate_check gate_name gs obs, Some (advanced gate_check gs obs))
   \<and> map gate_name (advanced gate_check gs obs) = map gate_name gs"
  by (simp add: Evaluate_gates_def eval_gates_verdict gates.names_fixed)

definition turn :: "gate list \<Rightarrow> observation list \<Rightarrow> gate list" where
  "turn gs os = fold (\<lambda>obs gs. the (snd (Evaluate_gates (Some gs) obs))) os gs"

lemma turn_advanced: "turn gs os = fold (\<lambda>obs gs. advanced gate_check gs obs) os gs"
  by (simp add: turn_def Evaluate_gates_def eval_gates_verdict)

text \<open>
  However long a turn, the handler's gates stay in order of priority, and the repetition
  gate remembers at most two windows of calls.
\<close>

theorem turn_bounded:
  assumes "\<forall>g. Some g \<in> set gs \<longrightarrow> gate_ok g"
  shows "sorted (map gate_priority (turn (NewHandler gs) os))
    \<and> (\<forall>r. Repetition r \<in> set (turn (NewHandler gs) os) \<longrightarrow> int (length (rg_history r)) \<le> 2 * rg_window r)"
proof -
  have "\<forall>g \<in> set (NewHandler gs). gate_ok g"
    using assms by (auto simp: NewHandler_def new_handler_def split: option.splits)
  from gates.turn_ok [OF this, of os] have "\<forall>g \<in> set (turn (NewHandler gs) os). gate_ok g"
    by (simp add: turn_advanced)
  then show ?thesis
    using gates.turn_fixed [of os "NewHandler gs"] gates.new_handler_sorted [of gs]
    by (auto simp: turn_advanced NewHandler_def gate_ok_def)
qed

lemma turn_bounded_witness:
  "rs_action (fst (Evaluate_gates (Some (turn (NewHandler
       [None, Some (Deadline (NewDeadlineGate 5)), Some (Repetition (NewRepetitionGate \<lparr>rc_window = 0, rc_threshold = 0, rc_stages = []\<rparr>))])
       [])) \<lparr>ob_iteration = 0, ob_elapsed = 9, ob_prompt = 0, ob_completion = 0, ob_calls = []\<rparr>)) = ActionStop
   \<and> sorted (map gate_priority (turn (NewHandler
       [None, Some (Deadline (NewDeadlineGate 5)), Some (Repetition (NewRepetitionGate \<lparr>rc_window = 0, rc_threshold = 0, rc_stages = []\<rparr>))]) []))"
proof
  let ?gs = "[None, Some (Deadline (NewDeadlineGate 5)), Some (Repetition (NewRepetitionGate \<lparr>rc_window = 0, rc_threshold = 0, rc_stages = []\<rparr>))]"
  have "\<forall>g. Some g \<in> set ?gs \<longrightarrow> gate_ok g"
    by (auto simp: gate_ok_def NewDeadlineGate_def NewRepetitionGate_def DefaultRepetitionWindow_def Let_def)
  from turn_bounded [OF this, of "[]"] show "sorted (map gate_priority (turn (NewHandler ?gs) []))" by blast
  show "rs_action (fst (Evaluate_gates (Some (turn (NewHandler ?gs) []))
     \<lparr>ob_iteration = 0, ob_elapsed = 9, ob_prompt = 0, ob_completion = 0, ob_calls = []\<rparr>)) = ActionStop"
    by (simp add: turn_def NewHandler_def new_handler_def Evaluate_gates_def NewDeadlineGate_def
        deadline_check_def stop_result_def repetition_check_def push_calls_def detect_def
        NewRepetitionGate_def DefaultRepetitionWindow_def zero_result_def Let_def)
qed

section \<open>What the token budget counts\<close>

text \<open>The growth of the prompt over the observations that report any tokens, in unbounded integers.\<close>

definition reports :: "observation \<Rightarrow> bool" where
  "reports obs \<longleftrightarrow> ob_prompt obs > 0 \<or> ob_completion obs > 0"

fun prompt_growth :: "int \<Rightarrow> observation list \<Rightarrow> int" where
  "prompt_growth seen [] = 0"
| "prompt_growth seen (obs # os) =
     (if reports obs then max 0 (ob_prompt obs - seen) + prompt_growth (ob_prompt obs) os
      else prompt_growth seen os)"

definition completions :: "observation list \<Rightarrow> int" where
  "completions os = sum_list (map ob_completion os)"

definition counts_ok :: "observation list \<Rightarrow> bool" where
  "counts_ok os \<longleftrightarrow> (\<forall>obs \<in> set os. 0 \<le> ob_prompt obs \<and> 0 \<le> ob_completion obs)
     \<and> sum_list (map ob_prompt os) + completions os \<le> max_i64"

lemma sum_list_nonneg: "\<forall>x \<in> set xs. 0 \<le> f x \<Longrightarrow> 0 \<le> sum_list (map f xs)" for f :: "'a \<Rightarrow> int"
  by (induction xs) auto

lemma prompt_growth_bounds:
  "\<forall>obs \<in> set os. 0 \<le> ob_prompt obs \<Longrightarrow> 0 \<le> seen \<Longrightarrow>
     0 \<le> prompt_growth seen os \<and> prompt_growth seen os \<le> sum_list (map ob_prompt os)"
proof (induction os arbitrary: seen)
  case (Cons obs os)
  from Cons.prems Cons.IH [of "ob_prompt obs"] Cons.IH [of seen] show ?case by auto
qed simp

lemma token_observe_spent:
  assumes "0 \<le> ob_prompt obs" "0 \<le> ob_completion obs" "0 \<le> tg_prompt t" "0 \<le> tg_completion t"
    "0 \<le> tg_last_prompt t" "tg_last_prompt t \<le> max_i64" "\<not> tg_observed_once t \<Longrightarrow> tg_prompt t = 0 \<and> tg_last_prompt t = 0"
    "tg_prompt t + tg_completion t + ob_prompt obs + ob_completion obs \<le> max_i64"
  shows "token_observe t obs = (if reports obs then
      t\<lparr>tg_prompt := tg_prompt t + max 0 (ob_prompt obs - tg_last_prompt t), tg_observed_once := True,
        tg_last_prompt := ob_prompt obs, tg_completion := tg_completion t + ob_completion obs\<rparr> else t)"
proof -
  have "i64 (ob_prompt obs - tg_last_prompt t) = ob_prompt obs - tg_last_prompt t"
    using assms by (intro i64_id) (simp_all add: max_i64_def)
  moreover have "i64 (tg_completion t + ob_completion obs) = tg_completion t + ob_completion obs"
    using assms by (intro i64_nonneg) simp_all
  moreover have "i64 (tg_prompt t + (ob_prompt obs - tg_last_prompt t)) = tg_prompt t + (ob_prompt obs - tg_last_prompt t)"
    if "ob_prompt obs - tg_last_prompt t > 0"
    using assms that by (intro i64_nonneg) simp_all
  ultimately show ?thesis
    using assms by (cases "tg_observed_once t") (auto simp: token_observe_def reports_def Let_def max_def)
qed

lemma token_run_spent:
  assumes "\<forall>obs \<in> set os. 0 \<le> ob_prompt obs \<and> 0 \<le> ob_completion obs" "0 \<le> tg_prompt t" "0 \<le> tg_completion t"
    "0 \<le> tg_last_prompt t" "tg_last_prompt t \<le> max_i64" "\<not> tg_observed_once t \<Longrightarrow> tg_prompt t = 0 \<and> tg_last_prompt t = 0"
    "tg_prompt t + tg_completion t + sum_list (map ob_prompt os) + completions os \<le> max_i64"
  shows "tg_prompt (fold (\<lambda>obs t. token_observe t obs) os t) = tg_prompt t + prompt_growth (tg_last_prompt t) os
    \<and> tg_completion (fold (\<lambda>obs t. token_observe t obs) os t) = tg_completion t + completions os
    \<and> tg_max (fold (\<lambda>obs t. token_observe t obs) os t) = tg_max t"
  using assms
proof (induction os arbitrary: t)
  case (Cons obs os)
  have rest: "0 \<le> sum_list (map ob_prompt os)" "0 \<le> completions os"
    using Cons.prems(1) by (auto simp: completions_def intro!: sum_list_nonneg)
  have step: "token_observe t obs = (if reports obs then
      t\<lparr>tg_prompt := tg_prompt t + max 0 (ob_prompt obs - tg_last_prompt t), tg_observed_once := True,
        tg_last_prompt := ob_prompt obs, tg_completion := tg_completion t + ob_completion obs\<rparr> else t)"
    using Cons.prems rest by (intro token_observe_spent) (auto simp: completions_def)
  show ?case
  proof (cases "reports obs")
    case True
    have "max 0 (ob_prompt obs - tg_last_prompt t) \<le> ob_prompt obs" using Cons.prems by auto
    then show ?thesis
      using Cons.IH [of "token_observe t obs"] Cons.prems rest step True by (auto simp: completions_def)
  next
    case False
    then have "ob_prompt obs = 0" "ob_completion obs = 0" using Cons.prems(1) by (auto simp: reports_def)
    then show ?thesis using Cons.IH [of t] Cons.prems step False by (simp add: completions_def)
  qed
qed (simp add: completions_def)

lemma fresh_gate: "NewTokenBudgetGate m = Some t \<Longrightarrow> t = \<lparr>tg_max = m, tg_prompt = 0, tg_completion = 0,
    tg_last_prompt = 0, tg_observed_once = False\<rparr> \<and> 0 < m"
  by (auto simp: NewTokenBudgetGate_def split: if_splits)

text \<open>
  The token budget counts every completion once and the prompt by its growth: after any
  observations whose counts do not overflow, the tokens used are the sum of the completions plus
  the growth of the prompt between reporting observations, and the next check stops the turn
  exactly when the count including it has reached the maximum.
\<close>

theorem TokenBudget_accounting:
  assumes "NewTokenBudgetGate m = Some t" "counts_ok (os @ [obs])"
  shows "Used (Some (fold (\<lambda>obs t. token_observe t obs) os t)) = prompt_growth 0 os + completions os
    \<and> (rs_action (fst (token_check (fold (\<lambda>obs t. token_observe t obs) os t) obs)) = ActionStop
         \<longleftrightarrow> m \<le> prompt_growth 0 (os @ [obs]) + completions (os @ [obs]))"
proof
  note t = fresh_gate [OF assms(1)]
  have nn: "\<forall>x \<in> set (os @ [obs]). 0 \<le> ob_prompt x \<and> 0 \<le> ob_completion x"
    and le: "sum_list (map ob_prompt (os @ [obs])) + completions (os @ [obs]) \<le> max_i64"
    using assms(2) by (simp_all add: counts_ok_def)
  have cs: "0 \<le> completions os" "0 \<le> completions (os @ [obs])" "completions os \<le> completions (os @ [obs])"
    "sum_list (map ob_prompt os) \<le> sum_list (map ob_prompt (os @ [obs]))"
    using nn sum_list_nonneg [of os ob_completion] sum_list_nonneg [of "os @ [obs]" ob_completion]
    by (auto simp: completions_def)
  have g: "0 \<le> prompt_growth 0 os" "prompt_growth 0 os \<le> sum_list (map ob_prompt os)"
    "0 \<le> prompt_growth 0 (os @ [obs])" "prompt_growth 0 (os @ [obs]) \<le> sum_list (map ob_prompt (os @ [obs]))"
    using prompt_growth_bounds [of os 0] prompt_growth_bounds [of "os @ [obs]" 0] nn by auto
  have r1: "tg_prompt (fold (\<lambda>obs t. token_observe t obs) os t) = prompt_growth 0 os
      \<and> tg_completion (fold (\<lambda>obs t. token_observe t obs) os t) = completions os"
    using token_run_spent [of os t] t nn le cs by (simp add: max_i64_def)
  with g cs le show "Used (Some (fold (\<lambda>obs t. token_observe t obs) os t)) = prompt_growth 0 os + completions os"
    by (simp add: Used_def)
  have r2: "tg_prompt (fold (\<lambda>obs t. token_observe t obs) (os @ [obs]) t) = prompt_growth 0 (os @ [obs])
      \<and> tg_completion (fold (\<lambda>obs t. token_observe t obs) (os @ [obs]) t) = completions (os @ [obs])
      \<and> tg_max (fold (\<lambda>obs t. token_observe t obs) (os @ [obs]) t) = m"
    using token_run_spent [of "os @ [obs]" t] t nn le by (simp add: max_i64_def)
  have "i64 (prompt_growth 0 (os @ [obs]) + completions (os @ [obs])) = prompt_growth 0 (os @ [obs]) + completions (os @ [obs])"
    using g cs le by (intro i64_nonneg) simp_all
  with r2 show "rs_action (fst (token_check (fold (\<lambda>obs t. token_observe t obs) os t) obs)) = ActionStop
         \<longleftrightarrow> m \<le> prompt_growth 0 (os @ [obs]) + completions (os @ [obs])"
    by (auto simp: token_check_def Let_def stop_result_def zero_result_def)
qed

definition tokens :: "int \<Rightarrow> int \<Rightarrow> observation" where
  "tokens p c = \<lparr>ob_iteration = 0, ob_elapsed = 0, ob_prompt = p, ob_completion = c, ob_calls = []\<rparr>"

lemma TokenBudget_accounting_witness:
  "\<exists>t. NewTokenBudgetGate 150 = Some t
     \<and> rs_action (fst (token_check (fold (\<lambda>obs t. token_observe t obs) [tokens 100 10] t) (tokens 130 10))) = ActionStop"
proof -
  obtain t where t: "NewTokenBudgetGate 150 = Some t" by (simp add: NewTokenBudgetGate_def)
  have "counts_ok ([tokens 100 10] @ [tokens 130 10])" by (simp add: counts_ok_def tokens_def completions_def max_i64_def)
  from TokenBudget_accounting [OF t this] t show ?thesis
    by (simp add: tokens_def completions_def reports_def)
qed

text \<open>
  A call that reports completion tokens but no prompt tokens makes the budget count the
  whole prompt a second time: the next call that reports the unchanged prompt is taken as growth.
\<close>

theorem TokenBudget_recounts_prompt:
  assumes "NewTokenBudgetGate m = Some t" "0 < p" "0 < c" "2 * p + c \<le> max_i64"
  shows "Used (Some (fold (\<lambda>obs t. token_observe t obs) [tokens p 0, tokens 0 c, tokens p 0] t)) = 2 * p + c
    \<and> Used (Some (fold (\<lambda>obs t. token_observe t obs) [tokens p 0, tokens p c, tokens p 0] t)) = p + c"
proof -
  have "i64 (- p) = - p" using assms(2-4) by (intro i64_id) (simp_all add: max_i64_def)
  then show ?thesis
    using fresh_gate [OF assms(1)] assms(2-4)
    by (simp add: token_observe_def tokens_def Used_def Let_def)
qed

lemma TokenBudget_recounts_prompt_witness:
  "\<exists>t. Used (Some (fold (\<lambda>obs t. token_observe t obs) [tokens 100 0, tokens 0 1, tokens 100 0] t)) = 201"
proof -
  obtain t where t: "NewTokenBudgetGate 150 = Some t" by (simp add: NewTokenBudgetGate_def)
  from TokenBudget_recounts_prompt [OF t, of 100 1] show ?thesis by (auto simp: max_i64_def)
qed

section \<open>Repetition\<close>

definition one_call :: "tool_call \<Rightarrow> observation" where
  "one_call c = \<lparr>ob_iteration = 0, ob_elapsed = 0, ob_prompt = 0, ob_completion = 0, ob_calls = [c]\<rparr>"

text \<open>The gate after \<open>n\<close> iterations that each made the one call \<open>c\<close>.\<close>

definition after_calls :: "nat \<Rightarrow> tool_call \<Rightarrow> repetition_gate \<Rightarrow> repetition_gate" where
  "after_calls n c g = ((\<lambda>g. snd (repetition_check g (one_call c))) ^^ n) g"

lemma after_calls_Suc: "after_calls (Suc n) c g = snd (repetition_check (after_calls n c g) (one_call c))"
  by (simp add: after_calls_def)

lemma remdups_replicate: "0 < n \<Longrightarrow> remdups (replicate n x) = [x]"
  by (induction n) (auto simp: set_replicate_conv_if)

lemma double_one [simp]: "double 1 = 1"
  by code_simp

lemma double_zero [simp]: "double 0 = 0"
  by (simp add: double_def)

lemma similarity_same: "2 \<le> n \<Longrightarrow> repetition_similarity (replicate n c) = 1"
  by (simp add: repetition_similarity_def remdups_replicate Let_def)

text \<open>A fresh gate with a window of \<open>w\<close> and any ladder of stages.\<close>

definition fresh_repetition :: "int \<Rightarrow> repetition_gate \<Rightarrow> bool" where
  "fresh_repetition w g \<longleftrightarrow> rg_window g = w \<and> 2 \<le> w \<and> w \<le> 2 ^ 61 \<and> rg_threshold g \<le> 1
     \<and> rg_history g = [] \<and> rg_hits g = 0"

lemma same_calls_state:
  assumes "fresh_repetition w g" "int n \<le> 2 ^ 62"
  shows "after_calls n c g = g\<lparr>rg_history := replicate (min n (nat (2 * w))) c,
     rg_hits := (if int n < w then 0 else int n)\<rparr>"
  using assms(2)
proof (induction n)
  case 0
  then show ?case using assms(1) by (simp add: after_calls_def fresh_repetition_def)
next
  case (Suc n)
  have w: "rg_window g = w" "2 \<le> w" "rg_threshold g \<le> 1" "rg_hits g = 0" using assms(1) by (simp_all add: fresh_repetition_def)
  let ?h = "\<lambda>n. replicate (min n (nat (2 * w))) c"
  let ?g = "g\<lparr>rg_history := ?h n, rg_hits := (if int n < w then 0 else int n)\<rparr>"
  have g: "after_calls n c g = ?g" using Suc by simp
  have push: "push_calls ?g [c] = ?g\<lparr>rg_history := ?h (Suc n)\<rparr>"
  proof (cases "int n < 2 * w")
    case True
    then have "min n (nat (2 * w)) = n" "min (Suc n) (nat (2 * w)) = Suc n" by auto
    then show ?thesis using True w by (simp add: push_calls_def Let_def replicate_append_same)
  next
    case False
    then have "min n (nat (2 * w)) = nat (2 * w)" "min (Suc n) (nat (2 * w)) = nat (2 * w)" by auto
    then show ?thesis using w by (simp add: push_calls_def last_calls_def Let_def replicate_append_same mult.commute)
  qed
  have det: "detect (?g\<lparr>rg_history := ?h (Suc n)\<rparr>) \<longleftrightarrow> w \<le> int (Suc n)"
  proof (cases "w \<le> int (Suc n)")
    case True
    then have "last_calls (nat w) (?h (Suc n)) = replicate (nat w) c" using w by (auto simp: last_calls_def)
    moreover have "2 \<le> nat w" using w by simp
    ultimately show ?thesis using True w by (auto simp: detect_def similarity_same)
  next
    case False
    then show ?thesis using w by (auto simp: detect_def)
  qed
  have hits: "i64 (int n + 1) = int n + 1" using Suc.prems by (intro i64_nonneg) (simp_all add: max_i64_def)
  have chk: "snd (repetition_check ?g (one_call c)) = ?g\<lparr>rg_history := ?h (Suc n),
      rg_hits := (if int (Suc n) < w then 0 else int (Suc n))\<rparr>"
    using push det w hits
    by (auto simp: repetition_check_def Let_def one_call_def split: option.splits)
  show ?case unfolding after_calls_Suc g chk by simp
qed

text \<open>
  A model stuck on one call is caught on schedule.  Whatever the window (and any threshold
  of at most 1), after \<open>n\<close> iterations that each repeat the same call the hit counter reads zero
  while the window is not full and exactly \<open>n\<close> from then on; with the default configuration the
  third repetition answers with a nudge and the fourth ends the turn.
\<close>

theorem repetition_schedule:
  assumes "fresh_repetition w g" "int n \<le> 2 ^ 62"
  shows "rg_hits (after_calls n c g) = (if int n < w then 0 else int n)
    \<and> (let d = NewRepetitionGate \<lparr>rc_window = 0, rc_threshold = 0, rc_stages = []\<rparr>
       in rs_action (fst (repetition_check (after_calls n c d) (one_call c)))
            = (if n < 2 then ActionContinue else if n = 2 then ActionModifyPrompt else ActionStop))"
proof
  show "rg_hits (after_calls n c g) = (if int n < w then 0 else int n)"
    using same_calls_state [OF assms] by simp
  define d where "d = NewRepetitionGate \<lparr>rc_window = 0, rc_threshold = 0, rc_stages = []\<rparr>"
  have d: "fresh_repetition 3 d" "rg_stages d = DefaultRepetitionStages"
    by (simp_all add: d_def fresh_repetition_def NewRepetitionGate_def DefaultRepetitionWindow_def
        DefaultRepetitionThreshold_def DefaultRepetitionStages_def Let_def)
  have "int (Suc n) \<le> 2 ^ 62 + 1" using assms(2) by simp
  define g' where "g' = after_calls n c d"
  have g': "g' = d\<lparr>rg_history := replicate (min n 6) c, rg_hits := (if int n < 3 then 0 else int n)\<rparr>"
    using same_calls_state [OF d(1) assms(2), of c] by (simp add: g'_def)
  have push: "rg_history (push_calls g' [c]) = replicate (min (Suc n) 6) c"
  proof (cases "n < 6")
    case True
    then have "min n 6 = n" "min (Suc n) 6 = Suc n" by auto
    then show ?thesis using True g' d(1)
      by (simp add: push_calls_def Let_def replicate_append_same fresh_repetition_def)
  next
    case False
    then have "min n 6 = 6" "min (Suc n) 6 = 6" by auto
    then show ?thesis using g' d(1)
      by (simp add: push_calls_def last_calls_def Let_def replicate_append_same fresh_repetition_def)
  qed
  have det: "detect (push_calls g' [c]) \<longleftrightarrow> 2 \<le> n"
  proof (cases "2 \<le> n")
    case True
    then have "min (Suc n) 6 - (min (Suc n) 6 - 3) = 3" by auto
    then have "last_calls 3 (replicate (min (Suc n) 6) c) = replicate 3 c"
      by (simp only: last_calls_def length_replicate drop_replicate)
    then show ?thesis using True d(1) g' push by (auto simp: detect_def fresh_repetition_def similarity_same)
  next
    case False
    then show ?thesis using d(1) g' push by (auto simp: detect_def fresh_repetition_def)
  qed
  have hits: "i64 (int n + 1) = int n + 1" using assms(2) by (intro i64_nonneg) (simp_all add: max_i64_def)
  have "rs_action (fst (repetition_check g' (one_call c)))
      = (if n < 2 then ActionContinue else if n = 2 then ActionModifyPrompt else ActionStop)"
    using g' d det hits
    by (auto simp: repetition_check_def Let_def one_call_def active_stage_def DefaultRepetitionStages_def
        zero_result_def stop_result_def fresh_repetition_def)
  then show "let d = NewRepetitionGate \<lparr>rc_window = 0, rc_threshold = 0, rc_stages = []\<rparr>
       in rs_action (fst (repetition_check (after_calls n c d) (one_call c)))
            = (if n < 2 then ActionContinue else if n = 2 then ActionModifyPrompt else ActionStop)"
    by (simp add: g'_def d_def Let_def)
qed

lemma repetition_schedule_witness:
  "rg_hits (after_calls 5 \<lparr>tc_name = ''fs_read'', tc_args_hash = ''00''\<rparr>
      (NewRepetitionGate \<lparr>rc_window = 4, rc_threshold = 1 / 2, rc_stages = []\<rparr>)) = 5"
proof -
  have "fresh_repetition 4 (NewRepetitionGate \<lparr>rc_window = 4, rc_threshold = 1 / 2, rc_stages = []\<rparr>)"
    by (simp add: fresh_repetition_def NewRepetitionGate_def Let_def)
  from repetition_schedule [OF this, of 5] show ?thesis by simp
qed

text \<open>The default window of three.\<close>

lemma length_three: "length xs = 3 \<Longrightarrow> \<exists>a b c. xs = [a, b, c]"
  by (auto simp: numeral_3_eq_3 length_Suc_conv)

lemma similarity_three: "repetition_similarity [a, b, c] \<ge> 1 \<longleftrightarrow> signature a = signature b \<and> signature b = signature c"
proof -
  have half: "double (1 / 2) = 1 / 2" by code_simp
  show ?thesis
    by (cases "signature a = signature b"; cases "signature b = signature c"; cases "signature a = signature c")
       (auto simp: repetition_similarity_def Let_def half)
qed

text \<open>
  The default gate does not cry wolf: when it answers anything but continue, the last three
  calls of the turn had one and the same name and arguments hash (up to the signature that joins
  them), and a stop comes only at the fourth hit or later.
\<close>

theorem repetition_no_false_alarm:
  assumes "rg_window g = DefaultRepetitionWindow" "rg_threshold g = DefaultRepetitionThreshold"
    "rg_stages g = DefaultRepetitionStages"
    "rs_action (fst (repetition_check g obs)) \<noteq> ActionContinue"
  shows "\<exists>h a b c. rg_history (push_calls g (ob_calls obs)) = h @ [a, b, c]
      \<and> signature a = signature b \<and> signature b = signature c
      \<and> (rs_action (fst (repetition_check g obs)) = ActionStop \<longrightarrow> 4 \<le> rg_hits (snd (repetition_check g obs)))"
proof -
  let ?g = "push_calls g (ob_calls obs)"
  let ?h = "rg_history ?g"
  have det: "detect ?g" by (rule ccontr) (use assms(4) in \<open>simp add: repetition_check_def zero_result_def Let_def\<close>)
  then have len: "3 \<le> length ?h" and sim: "repetition_similarity (last_calls 3 ?h) \<ge> 1"
    using assms(1,2) by (auto simp: detect_def DefaultRepetitionWindow_def DefaultRepetitionThreshold_def split: if_splits)
  have "length (drop (length ?h - 3) ?h) = 3" using len by simp
  then obtain a b c where abc: "drop (length ?h - 3) ?h = [a, b, c]"
    using length_three by blast
  then have whole: "?h = take (length ?h - 3) ?h @ [a, b, c]" by (simp only: abc [symmetric] append_take_drop_id)
  have "last_calls 3 ?h = [a, b, c]" unfolding last_calls_def by (rule abc)
  with sim have same: "signature a = signature b \<and> signature b = signature c" by (simp only: similarity_three)
  have "4 \<le> rg_hits (snd (repetition_check g obs))" if "rs_action (fst (repetition_check g obs)) = ActionStop"
  proof (rule ccontr)
    define hits where "hits = (if rg_hits g = 0 then rg_window g else i64 (rg_hits g + 1))"
    let ?g2 = "?g\<lparr>rg_hits := hits\<rparr>"
    have chk: "repetition_check g obs = (case active_stage ?g2 of
        None \<Rightarrow> (zero_result, ?g2)
      | Some s \<Rightarrow>
          (let name = tc_name (last (rg_history ?g2))
           in if sg_stop s
              then (stop_result (if sg_prompt s = [] then Repetition_stopped name hits
                                 else Text (sg_prompt s)), ?g2)
              else (zero_result\<lparr>rs_action := ActionModifyPrompt, rs_reason := Repetition_detected hits,
                      rs_continuation := (if sg_prompt s = [] then Repetition_warned name hits
                                          else Text (sg_prompt s))\<rparr>, ?g2)))"
      by (simp only: repetition_check_def Let_def hits_def det not_True_eq_False if_False)
    assume "\<not> 4 \<le> rg_hits (snd (repetition_check g obs))"
    then have "\<not> 4 \<le> hits" by (simp add: chk Let_def split: option.splits if_splits)
    then have "active_stage ?g2 = (if 3 \<le> hits then Some \<lparr>sg_after = 3, sg_stop = False, sg_prompt = []\<rparr> else None)"
      using assms(3) by (simp add: active_stage_def DefaultRepetitionStages_def)
    with that show False by (simp add: chk zero_result_def Let_def split: if_splits)
  qed
  then have "rs_action (fst (repetition_check g obs)) = ActionStop \<longrightarrow> 4 \<le> rg_hits (snd (repetition_check g obs))"
    by (rule impI)
  with whole same show ?thesis by (metis (no_types, lifting))
qed

lemma repetition_no_false_alarm_witness:
  "let g = NewRepetitionGate \<lparr>rc_window = 0, rc_threshold = 0, rc_stages = []\<rparr>;
       c = \<lparr>tc_name = ''ls'', tc_args_hash = ''00''\<rparr>
   in \<exists>h a b d. rg_history (push_calls g [c, c, c]) = h @ [a, b, d] \<and> signature a = signature b"
proof -
  define g c where "g = NewRepetitionGate \<lparr>rc_window = 0, rc_threshold = 0, rc_stages = []\<rparr>"
    and "c = \<lparr>tc_name = ''ls'', tc_args_hash = ''00''\<rparr>"
  have g: "rg_window g = DefaultRepetitionWindow" "rg_threshold g = DefaultRepetitionThreshold"
    "rg_stages g = DefaultRepetitionStages"
    by (simp_all add: g_def NewRepetitionGate_def DefaultRepetitionWindow_def DefaultRepetitionStages_def Let_def)
  let ?obs = "(one_call c)\<lparr>ob_calls := [c, c, c]\<rparr>"
  have "repetition_similarity [c, c, c] = 1" using similarity_same [of 3 c] by (simp add: numeral_3_eq_3)
  then have "rs_action (fst (repetition_check g ?obs)) \<noteq> ActionContinue"
    by (simp add: repetition_check_def push_calls_def detect_def last_calls_def g_def NewRepetitionGate_def
        DefaultRepetitionWindow_def DefaultRepetitionThreshold_def DefaultRepetitionStages_def active_stage_def
        zero_result_def Let_def)
  from repetition_no_false_alarm [OF g this] show ?thesis unfolding Let_def g_def [symmetric] c_def [symmetric] by auto
qed

section \<open>Tool budget over a turn\<close>

text \<open>A turn's calls: whether each was allowed, and the budget afterwards.\<close>

fun consume_all :: "tool_budget \<Rightarrow> string list \<Rightarrow> bool list \<times> tool_budget" where
  "consume_all b [] = ([], b)"
| "consume_all b (n # ns) =
     (let (r, b1) = budget_consume b n; (rs, b2) = consume_all b1 ns in ((r = None) # rs, b2))"

definition granted :: "bool list \<Rightarrow> string list \<Rightarrow> string list" where
  "granted rs ns = map snd (filter fst (zip rs ns))"

definition budget_ok :: "tool_budget \<Rightarrow> bool" where
  "budget_ok b \<longleftrightarrow> (\<forall>n. 0 \<le> tb_counts b n \<and> tb_counts b n \<le> tb_total b)
     \<and> (tb_max_total b > 0 \<longrightarrow> tb_total b \<le> tb_max_total b)
     \<and> (\<forall>n limit. map_of (tb_per_tool b) n = Some limit \<longrightarrow> tb_counts b n \<le> limit)"

lemma budget_consume_cases:
  obtains r where "budget_consume b n = (Some r, b)"
  | "budget_consume b n = (None, b\<lparr>tb_counts := (tb_counts b)(n := i64 (tb_counts b n + 1)), tb_total := i64 (tb_total b + 1)\<rparr>)"
    "\<forall>limit. map_of (tb_per_tool b) n = Some limit \<longrightarrow> tb_counts b n < limit"
    "tb_max_total b > 0 \<longrightarrow> tb_total b < tb_max_total b"
  by (cases "spent_limit b n"; cases "tb_max_total b > 0 \<and> tb_total b \<ge> tb_max_total b")
     (auto simp: budget_consume_def spent_limit_def split: option.splits if_splits)

lemma budget_consume_step:
  assumes "budget_ok b" "0 \<le> tb_total b" "tb_total b < max_i64" "budget_consume b n = (r, b')"
  shows "budget_ok b' \<and> tb_per_tool b' = tb_per_tool b \<and> tb_max_total b' = tb_max_total b
    \<and> (if r = None
       then tb_total b' = tb_total b + 1 \<and> tb_counts b' = (tb_counts b)(n := tb_counts b n + 1)
         \<and> (\<forall>limit. map_of (tb_per_tool b) n = Some limit \<longrightarrow> tb_counts b n < limit)
         \<and> (tb_max_total b > 0 \<longrightarrow> tb_total b < tb_max_total b)
       else b' = b)"
proof (cases rule: budget_consume_cases [of b n])
  case (1 r')
  with assms show ?thesis by auto
next
  case 2
  have "0 \<le> tb_counts b n" "tb_counts b n \<le> tb_total b" using assms(1) by (auto simp: budget_ok_def)
  then have "i64 (tb_counts b n + 1) = tb_counts b n + 1" "i64 (tb_total b + 1) = tb_total b + 1"
    using assms(2,3) by (auto intro!: i64_nonneg)
  with 2(1) assms(4) have b': "r = None" "b' = b\<lparr>tb_counts := (tb_counts b)(n := tb_counts b n + 1), tb_total := tb_total b + 1\<rparr>"
    by simp_all
  have "0 \<le> tb_counts b m \<and> tb_counts b m \<le> tb_total b" for m using assms(1) by (simp add: budget_ok_def)
  then have "0 \<le> tb_counts b' m \<and> tb_counts b' m \<le> tb_total b'" for m
    unfolding b'(2) by (cases "m = n") (force simp: add_increasing2)+
  moreover have "tb_counts b' m \<le> limit" if "map_of (tb_per_tool b') m = Some limit" for m limit
    using that assms(1) 2(2) by (cases "m = n") (auto simp: b'(2) budget_ok_def)
  moreover have "tb_max_total b' > 0 \<longrightarrow> tb_total b' \<le> tb_max_total b'" using 2(3) by (auto simp: b'(2))
  ultimately have "budget_ok b'" by (simp add: budget_ok_def)
  with 2(2,3) b' show ?thesis by simp
qed

lemma consume_all_counts:
  assumes "budget_ok b" "0 \<le> tb_total b" "tb_total b + int (length ns) \<le> max_i64" "consume_all b ns = (rs, b')"
  shows "length rs = length ns \<and> budget_ok b' \<and> tb_per_tool b' = tb_per_tool b \<and> tb_max_total b' = tb_max_total b
    \<and> tb_total b' = tb_total b + int (length (granted rs ns))
    \<and> (\<forall>m. tb_counts b' m = tb_counts b m + int (count_list (granted rs ns) m))"
  using assms
proof (induction ns arbitrary: b rs b')
  case (Cons n ns)
  obtain r b1 where r: "budget_consume b n = (r, b1)" by fastforce
  obtain rs1 where rs: "consume_all b1 ns = (rs1, b')" "rs = (r = None) # rs1"
    using Cons.prems(4) r by (auto simp: Let_def split: prod.splits)
  have step: "budget_ok b1 \<and> tb_per_tool b1 = tb_per_tool b \<and> tb_max_total b1 = tb_max_total b
    \<and> (if r = None
       then tb_total b1 = tb_total b + 1 \<and> tb_counts b1 = (tb_counts b)(n := tb_counts b n + 1)
         \<and> (\<forall>limit. map_of (tb_per_tool b) n = Some limit \<longrightarrow> tb_counts b n < limit)
         \<and> (tb_max_total b > 0 \<longrightarrow> tb_total b < tb_max_total b)
       else b1 = b)"
    using Cons.prems by (intro budget_consume_step r) auto
  then have "0 \<le> tb_total b1" "tb_total b1 + int (length ns) \<le> max_i64"
    using Cons.prems by (auto split: if_splits)
  from Cons.IH [OF _ this rs(1)] step rs(2) show ?case
    by (auto simp: granted_def split: if_splits)
qed (simp add: granted_def)

text \<open>
  C38: The tool budget over a whole turn.  From a fresh budget, after any calls in any order, no
  limited tool has run more often than its limit and the turn not more often than its total;
  the counters equal the number of calls that were allowed, per tool and in all; and a further
  call is refused exactly when its tool or the turn has reached a limit, changing nothing.
\<close>

theorem ToolBudget_enforced:
  assumes "NewToolBudget per_tool max_total = Some b" "consume_all b ns = (rs, b')" "int (length ns) < max_i64"
  shows "(\<forall>n limit. map_of (tb_per_tool b) n = Some limit \<longrightarrow> int (count_list (granted rs ns) n) \<le> limit)
    \<and> (max_total > 0 \<longrightarrow> int (length (granted rs ns)) \<le> max_total)
    \<and> budget_total (Some b') = int (length (granted rs ns))
    \<and> (\<forall>n. budget_used (Some b') n = int (count_list (granted rs ns) n))
    \<and> (\<forall>n. case Consume (Some b') n of
          (None, _) \<Rightarrow> \<not> (\<exists>limit. map_of (tb_per_tool b) n = Some limit \<and> limit \<le> budget_used (Some b') n)
             \<and> \<not> (0 < max_total \<and> max_total \<le> budget_total (Some b'))
        | (Some _, b'') \<Rightarrow> b'' = Some b' \<and>
            ((\<exists>limit. map_of (tb_per_tool b) n = Some limit \<and> limit \<le> budget_used (Some b') n)
             \<or> 0 < max_total \<and> max_total \<le> budget_total (Some b')))"
proof -
  from assms(1) have b: "tb_counts b = (\<lambda>_. 0)" "tb_total b = 0" "tb_max_total b = max_total"
    "tb_per_tool b = filter (\<lambda>(name, limit). name \<noteq> [] \<and> limit > 0) per_tool"
    by (auto simp: NewToolBudget_def Let_def split: if_splits)
  have pos: "0 < limit" if "map_of (tb_per_tool b) n = Some limit" for n limit
    using map_of_SomeD [OF that] b(4) by auto
  have "0 \<le> limit" if "map_of (tb_per_tool b) n = Some limit" for n limit
    using pos [OF that] by simp
  then have "budget_ok b" by (simp add: budget_ok_def b(1-3))
  with consume_all_counts [OF _ _ _ assms(2)] b(1-3) assms(3)
  have c: "budget_ok b'" "tb_per_tool b' = tb_per_tool b" "tb_max_total b' = max_total"
    "tb_total b' = int (length (granted rs ns))" "\<And>m. tb_counts b' m = int (count_list (granted rs ns) m)"
    by simp_all
  have refuse: "case Consume (Some b') n of
          (None, _) \<Rightarrow> \<not> (\<exists>limit. map_of (tb_per_tool b) n = Some limit \<and> limit \<le> budget_used (Some b') n)
             \<and> \<not> (0 < max_total \<and> max_total \<le> budget_total (Some b'))
        | (Some _, b'') \<Rightarrow> b'' = Some b' \<and>
            ((\<exists>limit. map_of (tb_per_tool b) n = Some limit \<and> limit \<le> budget_used (Some b') n)
             \<or> 0 < max_total \<and> max_total \<le> budget_total (Some b'))" for n
    unfolding Consume_def budget_consume_def spent_limit_def budget_used_def budget_total_def c(2,3) [symmetric]
    by (auto split: option.splits)
  have lim: "int (count_list (granted rs ns) n) \<le> limit" if "map_of (tb_per_tool b) n = Some limit" for n limit
  proof -
    have "tb_counts b' n \<le> limit" using c(1) that unfolding budget_ok_def c(2) by blast
    then show ?thesis by (simp only: c(5))
  qed
  have tot: "int (length (granted rs ns)) \<le> max_total" if "max_total > 0"
    using c(1,3,4) that by (simp add: budget_ok_def)
  show ?thesis
    by (intro conjI allI impI refuse) (simp_all add: lim tot budget_total_def budget_used_def c)
qed

lemma ToolBudget_enforced_witness:
  "\<exists>b b'. NewToolBudget [(''sh'', 1)] 2 = Some b
     \<and> consume_all b [''sh'', ''sh'', ''ls'', ''ls''] = ([True, False, True, False], b')
     \<and> budget_total (Some b') = 2 \<and> budget_used (Some b') ''sh'' = 1"
proof -
  obtain b where b: "NewToolBudget [(''sh'', 1)] 2 = Some b" by (simp add: NewToolBudget_def)
  obtain rs b' where r: "consume_all b [''sh'', ''sh'', ''ls'', ''ls''] = (rs, b')" by fastforce
  with b have rs: "rs = [True, False, True, False]"
    by (auto simp: NewToolBudget_def budget_consume_def spent_limit_def max_i64_def)
  from ToolBudget_enforced [OF b r] b r rs show ?thesis by (auto simp: granted_def max_i64_def)
qed

end
