(* ===== verification/TurnGuard.thy ===== *)
theory TurnGuard
  imports LoopGuardProps
begin

text \<open>
  The loop guard of one turn, \<open>internal/agent/orchestrator/loopguard.go\<close>: the configuration, the
  per-turn state, and the two middleware hooks that consult the gates and the tool budget.  The
  messages are those of the agent framework, reduced to what the hooks read; the clock is the
  argument \<open>elapsed\<close>; \<open>sha\<close> is the SHA-256 digest of the standard library.
\<close>

section \<open>Messages\<close>

record usage =
  us_prompt :: int
  us_completion :: int

text \<open>A message: its tool calls as name and arguments, its token usage if it carries one, its text.\<close>

record chat_message =
  cm_role :: string
  cm_content :: notice
  cm_tool_calls :: "(string \<times> string) list"
  cm_usage :: "usage option"

definition user_message :: "notice \<Rightarrow> chat_message" where
  "user_message text = \<lparr>cm_role = ''user'', cm_content = text, cm_tool_calls = [], cm_usage = None\<rparr>"

text \<open>The messages of a state are pointers; \<^const>\<open>None\<close> is a nil one.\<close>

definition calls_of :: "(string \<Rightarrow> string) \<Rightarrow> chat_message option \<Rightarrow> tool_call list" where
  "calls_of sha msg =
     (case msg of
        None \<Rightarrow> []
      | Some m \<Rightarrow> [\<lparr>tc_name = name, tc_args_hash = HashArgs sha args\<rparr>. (name, args) \<leftarrow> cm_tool_calls m, name \<noteq> []])"

definition collect_tool_calls :: "(string \<Rightarrow> string) \<Rightarrow> chat_message option list \<Rightarrow> nat \<Rightarrow> tool_call list" where
  "collect_tool_calls sha msgs from_idx = concat (map (calls_of sha) (drop from_idx msgs))"

definition usage_of :: "chat_message option \<Rightarrow> usage option" where
  "usage_of msg = (case msg of None \<Rightarrow> None | Some m \<Rightarrow> cm_usage m)"

definition latest_usage :: "chat_message option list \<Rightarrow> nat \<Rightarrow> int \<times> int" where
  "latest_usage msgs from_idx =
     (case find (\<lambda>m. usage_of m \<noteq> None) (rev (drop from_idx msgs)) of
        None \<Rightarrow> (0, 0)
      | Some m \<Rightarrow> (us_prompt (the (usage_of m)), us_completion (the (usage_of m))))"

section \<open>Configuration\<close>

record guard_config =
  gc_repetition_enabled :: bool
  gc_repetition_window :: int
  gc_warn_after :: int
  gc_stop_after :: int
  gc_max_tool_calls :: int
  gc_per_tool :: "(string \<times> int) list"
  gc_turn_timeout :: int
  gc_max_turn_tokens :: int

definition config_enabled :: "guard_config \<Rightarrow> bool" where
  "config_enabled cfg \<longleftrightarrow> gc_repetition_enabled cfg \<or> gc_max_tool_calls cfg > 0 \<or> gc_per_tool cfg \<noteq> []
     \<or> gc_turn_timeout cfg > 0 \<or> gc_max_turn_tokens cfg > 0"

definition config_stages :: "guard_config \<Rightarrow> stage list" where
  "config_stages cfg =
     (if gc_warn_after cfg > 0 then [\<lparr>sg_after = gc_warn_after cfg, sg_stop = False, sg_prompt = []\<rparr>] else [])
     @ (if gc_stop_after cfg > 0 then [\<lparr>sg_after = gc_stop_after cfg, sg_stop = True, sg_prompt = []\<rparr>] else [])"

text \<open>\<open>buildHandler\<close>: the typed nil gates are dropped before they become interface values.\<close>

definition build_handler :: "guard_config \<Rightarrow> gate list" where
  "build_handler cfg = NewHandler
     ((if gc_repetition_enabled cfg
       then [Some (Repetition (NewRepetitionGate
               \<lparr>rc_window = gc_repetition_window cfg, rc_threshold = 0, rc_stages = config_stages cfg\<rparr>))]
       else [])
      @ (case NewTokenBudgetGate (gc_max_turn_tokens cfg) of None \<Rightarrow> [] | Some t \<Rightarrow> [Some (TokenBudget (Some t))])
      @ (case NewDeadlineGate (gc_turn_timeout cfg) of None \<Rightarrow> [] | Some d \<Rightarrow> [Some (Deadline (Some d))]))"

definition build_tool_budget :: "guard_config \<Rightarrow> tool_budget option" where
  "build_tool_budget cfg = NewToolBudget (gc_per_tool cfg) (gc_max_tool_calls cfg)"

section \<open>The guard of a turn\<close>

record turn_guard =
  gd_gates :: "gate list"
  gd_budget :: "tool_budget option"
  gd_iteration :: int
  gd_seen :: nat
  gd_nudges :: "string \<Rightarrow> int"

definition max_nudges_per_gate :: int where
  "max_nudges_per_gate = 2"

text \<open>\<open>WithLoopGuard\<close>: no guard is bound when the configuration asks for none.\<close>

definition WithLoopGuard :: "guard_config \<Rightarrow> turn_guard option" where
  "WithLoopGuard cfg =
     (if \<not> config_enabled cfg then None
      else Some \<lparr>gd_gates = build_handler cfg, gd_budget = build_tool_budget cfg,
                 gd_iteration = 0, gd_seen = 0, gd_nudges = (\<lambda>_. 0)\<rparr>)"

definition observation_of :: "(string \<Rightarrow> string) \<Rightarrow> int \<Rightarrow> turn_guard \<Rightarrow> chat_message option list \<Rightarrow> observation" where
  "observation_of sha elapsed g msgs =
     \<lparr>ob_iteration = gd_iteration g, ob_elapsed = elapsed,
      ob_prompt = fst (latest_usage msgs (gd_seen g)), ob_completion = snd (latest_usage msgs (gd_seen g)),
      ob_calls = collect_tool_calls sha msgs (gd_seen g)\<rparr>"

definition observe :: "(string \<Rightarrow> string) \<Rightarrow> int \<Rightarrow> turn_guard \<Rightarrow> chat_message option list \<Rightarrow> result \<times> turn_guard" where
  "observe sha elapsed g msgs =
     (let (res, gs) = Evaluate_gates (Some (gd_gates g)) (observation_of sha elapsed g msgs);
          g1 = g\<lparr>gd_gates := the gs, gd_iteration := gd_iteration g + 1, gd_seen := length msgs\<rparr>
      in if rs_action res \<noteq> ActionModifyPrompt then (res, g1)
         else if gd_nudges g (rs_gate res) \<ge> max_nudges_per_gate then (zero_result, g1)
         else (res, g1\<lparr>gd_nudges := (gd_nudges g)(rs_gate res := gd_nudges g (rs_gate res) + 1)\<rparr>))"

text \<open>\<open>BeforeModelRewriteState\<close>: a stop is an error, a nudge becomes a user message.\<close>

definition before_model :: "(string \<Rightarrow> string) \<Rightarrow> int \<Rightarrow> turn_guard option \<Rightarrow> chat_message option list
    \<Rightarrow> (stop_error + chat_message option list) \<times> turn_guard option" where
  "before_model sha elapsed bound msgs =
     (case bound of
        None \<Rightarrow> (Inr msgs, None)
      | Some g \<Rightarrow>
          (let (res, g1) = observe sha elapsed g msgs
           in case rs_action res of
                ActionStop \<Rightarrow> (Inl (the (NewStopError res)), Some g1)
              | ActionModifyPrompt \<Rightarrow> (Inr (msgs @ [Some (user_message (rs_continuation res))]), Some g1)
              | ActionContinue \<Rightarrow> (Inr msgs, Some g1)))"

text \<open>
  \<open>WrapInvokableToolCall\<close>: the wrapped endpoint.  A refusal is the tool's result; otherwise the
  endpoint, code outside this file, is called with the arguments.
\<close>

definition wrap_tool_call :: "turn_guard option \<Rightarrow> string \<Rightarrow> (string \<Rightarrow> 'r) \<Rightarrow> string \<Rightarrow> (refusal + 'r) \<times> turn_guard option" where
  "wrap_tool_call bound name endpoint args =
     (case bound of
        None \<Rightarrow> (Inr (endpoint args), None)
      | Some g \<Rightarrow>
          if gd_budget g = None \<or> name = [] then (Inr (endpoint args), Some g)
          else (case Consume (gd_budget g) name of
                  (None, b) \<Rightarrow> (Inr (endpoint args), Some (g\<lparr>gd_budget := b\<rparr>))
                | (Some r, b) \<Rightarrow> (Inl r, Some (g\<lparr>gd_budget := b\<rparr>))))"

section \<open>Every tool call is observed once\<close>

text \<open>A turn as seen by the guard: at each iteration the clock and the messages.\<close>

fun observe_all :: "(string \<Rightarrow> string) \<Rightarrow> turn_guard \<Rightarrow> (int \<times> chat_message option list) list
    \<Rightarrow> result list \<times> turn_guard" where
  "observe_all sha g [] = ([], g)"
| "observe_all sha g ((t, msgs) # its) =
     (let (r, g1) = observe sha t g msgs; (rs, g2) = observe_all sha g1 its in (r # rs, g2))"

fun observed_calls :: "(string \<Rightarrow> string) \<Rightarrow> turn_guard \<Rightarrow> (int \<times> chat_message option list) list \<Rightarrow> tool_call list" where
  "observed_calls sha g [] = []"
| "observed_calls sha g ((t, msgs) # its) =
     ob_calls (observation_of sha t g msgs) @ observed_calls sha (snd (observe sha t g msgs)) its"

fun grows :: "'m list \<Rightarrow> 'm list list \<Rightarrow> bool" where
  "grows prev [] = True"
| "grows prev (m # ms) = (prefix prev m \<and> grows m ms)"

lemma observe_seen: "gd_seen (snd (observe sha t g msgs)) = length msgs"
  by (simp add: observe_def Let_def split: prod.splits)

lemma collect_append:
  "collect_tool_calls sha (prev @ new) (length prev) = concat (map (calls_of sha) new)"
  by (simp add: collect_tool_calls_def)

lemma observed_calls_growing:
  "gd_seen g = length prev \<Longrightarrow> grows prev (map snd its) \<Longrightarrow>
     concat (map (calls_of sha) prev) @ observed_calls sha g its
       = concat (map (calls_of sha) (last (prev # map snd its)))"
proof (induction its arbitrary: g prev)
  case (Cons it its)
  obtain t msgs where it: "it = (t, msgs)" by fastforce
  with Cons.prems(2) obtain new where new: "msgs = prev @ new" "grows msgs (map snd its)"
    by (auto simp: prefix_def)
  have "ob_calls (observation_of sha t g msgs) = concat (map (calls_of sha) new)"
    using Cons.prems(1) new(1) by (simp add: observation_of_def collect_append)
  with Cons.IH [OF observe_seen new(2), of sha t g] it new(1) show ?case by simp
qed simp

text \<open>
  While the history only grows, the gates see every tool call of the turn exactly once and
  in order: the calls handed to them over the iterations, put together, are the calls of the
  last history.
\<close>

theorem observe_each_call_once:
  assumes "WithLoopGuard cfg = Some g" "its \<noteq> []" "grows [] (map snd its)"
  shows "observed_calls sha g its = collect_tool_calls sha (snd (last its)) 0"
proof -
  have "gd_seen g = length []" using assms(1) by (auto simp: WithLoopGuard_def split: if_splits)
  from observed_calls_growing [OF this, of its sha] assms(2,3) show ?thesis
    by (simp add: collect_tool_calls_def last_map)
qed

section \<open>Nudges are bounded\<close>

lemma observe_nudges:
  assumes "observe sha t g msgs = (r, g1)"
  shows "if rs_action r = ActionModifyPrompt
    then gd_nudges g (rs_gate r) < max_nudges_per_gate
      \<and> gd_nudges g1 = (gd_nudges g)(rs_gate r := gd_nudges g (rs_gate r) + 1)
    else gd_nudges g1 = gd_nudges g"
  using assms by (auto simp: observe_def Let_def zero_result_def split: prod.splits if_splits)

definition nudge_count :: "string \<Rightarrow> result list \<Rightarrow> int" where
  "nudge_count n rs = int (length (filter (\<lambda>r. rs_action r = ActionModifyPrompt \<and> rs_gate r = n) rs))"

lemma observe_all_nudges:
  "observe_all sha g its = (rs, g') \<Longrightarrow> \<forall>n. gd_nudges g n \<le> max_nudges_per_gate \<Longrightarrow>
     gd_nudges g n + nudge_count n rs = gd_nudges g' n \<and> gd_nudges g' n \<le> max_nudges_per_gate"
proof (induction its arbitrary: g rs)
  case (Cons it its)
  obtain t msgs where it: "it = (t, msgs)" by fastforce
  obtain r g1 where o: "observe sha t g msgs = (r, g1)" by fastforce
  obtain rs1 where rs: "observe_all sha g1 its = (rs1, g')" "rs = r # rs1"
    using Cons.prems(1) it o by (auto simp: Let_def split: prod.splits)
  have le: "\<forall>n. gd_nudges g1 n \<le> max_nudges_per_gate"
    using observe_nudges [OF o] Cons.prems(2) by (auto split: if_splits)
  from Cons.IH [OF rs(1) le] observe_nudges [OF o] rs(2) show ?case
    by (auto simp: nudge_count_def split: if_splits)
qed (simp add: nudge_count_def)

text \<open>
  No gate injects more than two continuation messages into a turn, however many iterations
  it has.
\<close>

theorem nudges_bounded:
  assumes "WithLoopGuard cfg = Some g"
  shows "nudge_count n (fst (observe_all sha g its)) \<le> 2"
proof -
  obtain rs g' where r: "observe_all sha g its = (rs, g')" by fastforce
  have "gd_nudges g = (\<lambda>_. 0)" using assms by (auto simp: WithLoopGuard_def split: if_splits)
  with observe_all_nudges [OF r, of n] r show ?thesis by (simp add: max_nudges_per_gate_def)
qed

definition sample_config :: guard_config where
  "sample_config = \<lparr>gc_repetition_enabled = True, gc_repetition_window = 0, gc_warn_after = 0, gc_stop_after = 0,
     gc_max_tool_calls = 0, gc_per_tool = [], gc_turn_timeout = 0, gc_max_turn_tokens = 0\<rparr>"

definition sample_message :: "chat_message option" where
  "sample_message = Some \<lparr>cm_role = ''assistant'', cm_content = Text [], cm_tool_calls = [(''ls'', ''{}'')], cm_usage = None\<rparr>"

lemma nudges_bounded_witness:
  "\<exists>g. WithLoopGuard sample_config = Some g \<and> nudge_count ''repetition'' (fst (observe_all id g [(0, [sample_message])])) \<le> 2"
proof -
  obtain g where g: "WithLoopGuard sample_config = Some g" by (simp add: WithLoopGuard_def config_enabled_def sample_config_def)
  from nudges_bounded [OF g] g show ?thesis by blast
qed

lemma observe_each_call_once_witness:
  "\<exists>g. WithLoopGuard sample_config = Some g \<and>
     observed_calls id g [(0, [sample_message]), (1, [sample_message, None, sample_message])]
       = [\<lparr>tc_name = ''ls'', tc_args_hash = ''{}''\<rparr>, \<lparr>tc_name = ''ls'', tc_args_hash = ''{}''\<rparr>]"
proof -
  obtain g where g: "WithLoopGuard sample_config = Some g" by (simp add: WithLoopGuard_def config_enabled_def sample_config_def)
  from observe_each_call_once [OF g, of "[(0, [sample_message]), (1, [sample_message, None, sample_message])]" id] g
  show ?thesis by (simp add: collect_tool_calls_def calls_of_def sample_message_def HashArgs_def)
qed

section \<open>A new turn and the calls of earlier turns\<close>

lemma last_calls_last: "n \<le> m \<Longrightarrow> last_calls n (last_calls m h) = last_calls n h"
proof -
  assume "n \<le> m"
  then have "length h - (length h - m + n) + (length h - m) = length h - n" by auto
  then show ?thesis by (simp add: last_calls_def)
qed

lemma last_calls_suffix: "length w = n \<Longrightarrow> last_calls n (h @ w) = w"
  by (simp add: last_calls_def)

text \<open>
  The guard is built for one turn, but its first observation reads the whole history: when
  the three last tool calls of the session are identical, a new turn that has made no call yet
  starts with the warning that it repeats itself.
\<close>

theorem new_turn_counts_history:
  assumes "WithLoopGuard sample_config = Some g" "collect_tool_calls sha msgs 0 = h @ [c, c, c]"
  shows "rs_action (fst (observe sha elapsed g msgs)) = ActionModifyPrompt"
proof -
  define r where "r = NewRepetitionGate \<lparr>rc_window = 0, rc_threshold = 0, rc_stages = []\<rparr>"
  have g: "gd_gates g = [Repetition r]" "gd_seen g = 0" "gd_nudges g = (\<lambda>_. 0)"
    using assms(1)
    by (auto simp: WithLoopGuard_def config_enabled_def sample_config_def build_handler_def NewHandler_def
        new_handler_def config_stages_def NewTokenBudgetGate_def NewDeadlineGate_def r_def)
  have r: "rg_window r = 3" "rg_threshold r = 1" "rg_stages r = DefaultRepetitionStages" "rg_history r = []" "rg_hits r = 0"
    by (simp_all add: r_def NewRepetitionGate_def DefaultRepetitionWindow_def DefaultRepetitionThreshold_def
        DefaultRepetitionStages_def Let_def)
  let ?r = "push_calls r (h @ [c, c, c])"
  have h: "rg_history ?r = (if 6 < length (h @ [c, c, c]) then last_calls 6 (h @ [c, c, c]) else h @ [c, c, c])"
    using r by (simp add: push_calls_def Let_def)
  have "last_calls 3 (rg_history ?r) = [c, c, c]"
    unfolding h using last_calls_last [of 3 6 "h @ [c, c, c]"] last_calls_suffix [of "[c, c, c]" 3 h] by auto
  moreover have "3 \<le> length (rg_history ?r)" unfolding h by (auto simp: last_calls_def)
  moreover have "repetition_similarity [c, c, c] = 1" using similarity_same [of 3 c] by (simp add: numeral_3_eq_3)
  ultimately have "detect ?r" using r by (simp add: detect_def)
  then have "rs_action (fst (repetition_check r (observation_of sha elapsed g msgs))) = ActionModifyPrompt"
    using r g(2) assms(2)
    by (simp add: repetition_check_def observation_of_def active_stage_def DefaultRepetitionStages_def Let_def)
  moreover obtain res r' where "repetition_check r (observation_of sha elapsed g msgs) = (res, r')" by fastforce
  ultimately show ?thesis
    using g by (simp add: observe_def Evaluate_gates_def zero_result_def max_nudges_per_gate_def Let_def)
qed

lemma new_turn_counts_history_witness:
  "\<exists>g. WithLoopGuard sample_config = Some g
     \<and> rs_action (fst (observe id 0 g [sample_message, sample_message, sample_message,
           Some (user_message (Text ''thanks, now something else''))])) = ActionModifyPrompt"
proof -
  obtain g where g: "WithLoopGuard sample_config = Some g" by (simp add: WithLoopGuard_def config_enabled_def sample_config_def)
  have "collect_tool_calls id [sample_message, sample_message, sample_message, Some (user_message (Text ''thanks, now something else''))] 0
      = [] @ [\<lparr>tc_name = ''ls'', tc_args_hash = ''{}''\<rparr>, \<lparr>tc_name = ''ls'', tc_args_hash = ''{}''\<rparr>, \<lparr>tc_name = ''ls'', tc_args_hash = ''{}''\<rparr>]"
    by (simp add: collect_tool_calls_def calls_of_def sample_message_def user_message_def HashArgs_def)
  from new_turn_counts_history [OF g this] g show ?thesis by blast
qed

end
