(* ===== verification/NetPolicy.thy ===== *)
theory NetPolicy
  imports Prelude "HOL-Library.Word"
begin

text \<open>
  The host policy of outbound network access, \<open>internal/netpolicy/policy.go\<close>: rules on host
  names, rules on methods within a host, the check of resolved addresses and the runtime grant.
  Host names are ASCII.  \<open>net.SplitHostPort\<close> and the predicates of \<open>net.IP\<close> are those of Go's
  standard library, written out on bytes.
\<close>

unbundle bit_operations_syntax

section \<open>Splitting host and port\<close>

definition last_index_byte :: "string \<Rightarrow> char \<Rightarrow> nat option" where
  "last_index_byte s c = map_option (\<lambda>k. length s - 1 - k) (index_byte (rev s) c)"

text \<open>The host of \<open>net.SplitHostPort\<close>; \<^const>\<open>None\<close> is its error.\<close>

definition split_host_port :: "string \<Rightarrow> string option" where
  "split_host_port hp =
     (case last_index_byte hp (CHR '':'') of
        None \<Rightarrow> None
      | Some i \<Rightarrow>
          if hd hp = CHR ''['' then
            (case index_byte hp (CHR '']'') of
               None \<Rightarrow> None
             | Some e \<Rightarrow>
                 if e + 1 \<noteq> i then None
                 else if CHR ''['' \<in> set (drop 1 hp) then None
                 else if CHR '']'' \<in> set (drop (e + 1) hp) then None
                 else Some (take (e - 1) (drop 1 hp)))
          else if CHR '':'' \<in> set (take i hp) then None
          else if CHR ''['' \<in> set hp \<or> CHR '']'' \<in> set hp then None
          else Some (take i hp))"

definition normalize_host :: "string \<Rightarrow> string" where
  "normalize_host raw =
     (let host = trim_space (to_lower raw);
          h = (case split_host_port host of Some x \<Rightarrow> x | None \<Rightarrow> host)
      in trim_suffix ''.'' h)"

definition NormalizeHost :: "string \<Rightarrow> string" where
  "NormalizeHost raw = normalize_host raw"

definition host_matches :: "string \<Rightarrow> string \<Rightarrow> bool" where
  "host_matches pat host =
     (let p = normalize_host pat
      in if p = [] then False
         else if prefix ''.'' p
         then (let sfx = trim_prefix ''.'' p in host \<noteq> sfx \<and> suffix (''.'' @ sfx) host)
         else host = p)"

section \<open>Policy\<close>

text \<open>An address is a \<open>net.IP\<close>: bytes, or nil.\<close>

type_synonym ip = "8 word list option"

datatype net_reason = Reason string | Private_address ip

record decision =
  dc_allowed :: bool
  dc_rule :: string
  dc_reason :: net_reason

record method_rule =
  mr_host :: string
  mr_methods :: "string list"
  mr_allow :: bool

record net_policy =
  np_default :: string
  np_allow :: "string list"
  np_deny :: "string list"
  np_allow_private :: bool
  np_methods :: "method_rule list"

definition decide :: "bool \<Rightarrow> string \<Rightarrow> net_reason \<Rightarrow> decision" where
  "decide allowed rule reason = \<lparr>dc_allowed = allowed, dc_rule = rule, dc_reason = reason\<rparr>"

definition CheckHost :: "net_policy \<Rightarrow> string \<Rightarrow> decision" where
  "CheckHost p raw =
     (let host = normalize_host raw
      in if host = [] then decide False [] (Reason ''empty host'')
         else case find (\<lambda>pat. host_matches pat host) (np_deny p) of
           Some pat \<Rightarrow> decide False (''deny:'' @ pat) (Reason ''host denied by deny rule'')
         | None \<Rightarrow>
             (case find (\<lambda>pat. host_matches pat host) (np_allow p) of
                Some pat \<Rightarrow> decide True (''allow:'' @ pat) (Reason ''host allowed'')
              | None \<Rightarrow>
                  if equal_fold (np_default p) ''allow''
                  then decide True ''default:allow'' (Reason ''host allowed by default'')
                  else decide False ''default:deny'' (Reason ''host denied by default'')))"

definition method_matches :: "method_rule \<Rightarrow> string \<Rightarrow> string \<Rightarrow> bool" where
  "method_matches r host method \<longleftrightarrow> host_matches (mr_host r) host
     \<and> (mr_methods r = [] \<or> (\<exists>m \<in> set (mr_methods r). equal_fold (trim_space m) method))"

definition CheckRequest :: "net_policy \<Rightarrow> string \<Rightarrow> string \<Rightarrow> decision" where
  "CheckRequest p host method =
     (let d = CheckHost p host
      in if \<not> dc_allowed d \<or> method = [] then d
         else case find (\<lambda>r. method_matches r (normalize_host host) method) (np_methods p) of
           None \<Rightarrow> d
         | Some r \<Rightarrow>
             decide (mr_allow r)
               (''method-'' @ (if mr_allow r then ''allow'' else ''deny'') @ '':'' @ mr_host r @ '' '' @ to_upper method)
               (Reason (''method '' @ to_upper method @ '' '' @ (if mr_allow r then ''allowed'' else ''denied'')
                  @ '' by a method rule for '' @ mr_host r)))"

definition GrantHost :: "net_policy \<Rightarrow> string \<Rightarrow> net_policy \<times> bool" where
  "GrantHost p host =
     (let h = normalize_host host
      in if h = [] then (p, False)
         else if \<exists>pat \<in> set (np_deny p). host_matches pat h then (p, False)
         else (p\<lparr>np_allow := np_allow p @ [h]\<rparr>, True))"

section \<open>Addresses\<close>

definition v4_in_v6_prefix :: "8 word list" where
  "v4_in_v6_prefix = replicate 10 0 @ [0xFF, 0xFF]"

definition to4 :: "8 word list \<Rightarrow> 8 word list option" where
  "to4 ip =
     (if length ip = 4 then Some ip
      else if length ip = 16 \<and> take 12 ip = v4_in_v6_prefix then Some (drop 12 ip)
      else None)"

definition is_loopback :: "8 word list \<Rightarrow> bool" where
  "is_loopback ip = (case to4 ip of
       Some a \<Rightarrow> a ! 0 = 127
     | None \<Rightarrow> ip = replicate 15 0 @ [1])"

definition is_private :: "8 word list \<Rightarrow> bool" where
  "is_private ip = (case to4 ip of
       Some a \<Rightarrow> a ! 0 = 10 \<or> (a ! 0 = 172 \<and> a ! 1 AND 0xF0 = 16) \<or> (a ! 0 = 192 \<and> a ! 1 = 168)
     | None \<Rightarrow> length ip = 16 \<and> ip ! 0 AND 0xFE = 0xFC)"

definition is_link_local_unicast :: "8 word list \<Rightarrow> bool" where
  "is_link_local_unicast ip = (case to4 ip of
       Some a \<Rightarrow> a ! 0 = 169 \<and> a ! 1 = 254
     | None \<Rightarrow> length ip = 16 \<and> ip ! 0 = 0xFE \<and> ip ! 1 AND 0xC0 = 0x80)"

definition is_link_local_multicast :: "8 word list \<Rightarrow> bool" where
  "is_link_local_multicast ip = (case to4 ip of
       Some a \<Rightarrow> a ! 0 = 224 \<and> a ! 1 = 0 \<and> a ! 2 = 0
     | None \<Rightarrow> length ip = 16 \<and> ip ! 0 = 0xFF \<and> ip ! 1 AND 0x0F = 0x02)"

definition is_unspecified :: "8 word list \<Rightarrow> bool" where
  "is_unspecified ip \<longleftrightarrow> ip = replicate 4 0 \<or> ip = v4_in_v6_prefix @ replicate 4 0 \<or> ip = replicate 16 0"

definition local_address :: "8 word list \<Rightarrow> bool" where
  "local_address a \<longleftrightarrow> is_loopback a \<or> is_private a \<or> is_link_local_unicast a \<or> is_link_local_multicast a
     \<or> is_unspecified a"

fun check_addresses :: "net_policy \<Rightarrow> ip list \<Rightarrow> decision" where
  "check_addresses p [] = decide True ''resolved-ip-check'' (Reason ''all resolved addresses allowed'')"
| "check_addresses p (ip # ips) =
     (case ip of
        None \<Rightarrow> decide False [] (Reason ''DNS returned invalid address'')
      | Some a \<Rightarrow>
          if \<not> np_allow_private p \<and> local_address a
          then decide False ''ip-range-deny'' (Private_address ip)
          else check_addresses p ips)"

definition check_ip_ranges :: "net_policy \<Rightarrow> ip list \<Rightarrow> decision" where
  "check_ip_ranges p ips =
     (if ips = [] then decide False [] (Reason ''DNS returned no addresses'') else check_addresses p ips)"

definition CheckResolvedIPs :: "net_policy \<Rightarrow> string \<Rightarrow> ip list \<Rightarrow> decision" where
  "CheckResolvedIPs p host ips =
     (let d = CheckHost p host in if \<not> dc_allowed d then d else check_ip_ranges p ips)"

section \<open>Host rules\<close>

definition denied :: "net_policy \<Rightarrow> string \<Rightarrow> bool" where
  "denied p host \<longleftrightarrow> (\<exists>pat \<in> set (np_deny p). host_matches pat host)"

definition listed :: "net_policy \<Rightarrow> string \<Rightarrow> bool" where
  "listed p host \<longleftrightarrow> (\<exists>pat \<in> set (np_allow p). host_matches pat host)"

lemma decide_simps [simp]:
  "dc_allowed (decide a r e) = a" "dc_rule (decide a r e) = r" "dc_reason (decide a r e) = e"
  by (simp_all add: decide_def)

lemma find_None_ex: "find P xs = None \<longleftrightarrow> \<not> (\<exists>x \<in> set xs. P x)"
  by (induction xs) auto

lemma find_Some_ex: "find P xs = Some x \<Longrightarrow> \<exists>x \<in> set xs. P x"
  by (induction xs) (auto split: if_splits)

lemma find_append_absent: "\<not> P y \<Longrightarrow> find P (xs @ [y]) = find P xs"
  by (induction xs) auto

lemma CheckHost_allowed:
  "dc_allowed (CheckHost p raw) \<longleftrightarrow> normalize_host raw \<noteq> [] \<and> \<not> denied p (normalize_host raw)
     \<and> (listed p (normalize_host raw) \<or> equal_fold (np_default p) ''allow'')"
  by (auto simp: CheckHost_def Let_def denied_def listed_def find_None_ex split: option.splits dest!: find_Some_ex)

text \<open>
  A request is let through exactly when its host has a name, no deny pattern matches it,
  an allow pattern matches it or the default is to allow, and, for a known method, the first
  method rule that speaks to the host and the method, if there is one, allows it.  In
  particular a deny pattern is final whatever the allow list, the default and the method rules say.
\<close>

theorem CheckRequest_allowed:
  "dc_allowed (CheckRequest p host method) \<longleftrightarrow>
     normalize_host host \<noteq> [] \<and> \<not> denied p (normalize_host host)
     \<and> (listed p (normalize_host host) \<or> equal_fold (np_default p) ''allow'')
     \<and> (method = [] \<or> (case find (\<lambda>r. method_matches r (normalize_host host) method) (np_methods p) of
          None \<Rightarrow> True | Some r \<Rightarrow> mr_allow r))"
  using CheckHost_allowed [of p host]
  by (auto simp: CheckRequest_def Let_def split: option.splits)

section \<open>Resolved addresses\<close>

text \<open>The address ranges in dotted form.\<close>

definition local_v4 :: "8 word \<Rightarrow> 8 word \<Rightarrow> 8 word \<Rightarrow> 8 word \<Rightarrow> bool" where
  "local_v4 a b c d \<longleftrightarrow> a = 127 \<or> a = 10 \<or> (a = 172 \<and> 16 \<le> b \<and> b \<le> 31) \<or> (a = 192 \<and> b = 168)
     \<or> (a = 169 \<and> b = 254) \<or> (a = 224 \<and> b = 0 \<and> c = 0) \<or> (a = 0 \<and> b = 0 \<and> c = 0 \<and> d = 0)"

lemma high_nibble: "(b :: 8 word) AND 0xF0 = 16 \<longleftrightarrow> 16 \<le> b \<and> b \<le> 31"
proof -
  have "\<forall>n \<in> set [0..<256]. ((word_of_nat n :: 8 word) AND 0xF0 = 16) = (16 \<le> (word_of_nat n :: 8 word) \<and> (word_of_nat n :: 8 word) \<le> 31)"
    by code_simp
  moreover have "unat b \<in> set [0..<256]" using unsigned_less [of b] by simp
  ultimately have "((word_of_nat (unat b) :: 8 word) AND 0xF0 = 16)
      = (16 \<le> (word_of_nat (unat b) :: 8 word) \<and> (word_of_nat (unat b) :: 8 word) \<le> 31)" by blast
  then show ?thesis by simp
qed

lemma local_address_v4: "local_address [a, b, c, d] \<longleftrightarrow> local_v4 a b c d"
  by (auto simp: local_address_def local_v4_def is_loopback_def is_private_def is_link_local_unicast_def
      is_link_local_multicast_def is_unspecified_def to4_def high_nibble v4_in_v6_prefix_def numeral_eq_Suc)

lemma local_address_mapped: "local_address (v4_in_v6_prefix @ [a, b, c, d]) \<longleftrightarrow> local_v4 a b c d"
  by (auto simp: local_address_def local_v4_def is_loopback_def is_private_def is_link_local_unicast_def
      is_link_local_multicast_def is_unspecified_def to4_def high_nibble v4_in_v6_prefix_def numeral_eq_Suc)

lemma check_addresses_allowed:
  "dc_allowed (check_addresses p ips) \<longleftrightarrow> (\<forall>ip \<in> set ips. \<exists>a. ip = Some a \<and> (np_allow_private p \<or> \<not> local_address a))"
  by (induction ips) (auto split: option.splits)

text \<open>
  C25: No rule on names reaches a local address.  When a host is admitted together with its
  resolved addresses and private addresses are not allowed, there is at least one address, none
  is nil, and no IPv4 address among them, in its 4-byte or its IPv6-mapped form, is loopback,
  private, link-local or unspecified; nor is the IPv6 loopback, unspecified, unique-local
  (fc00::/7) or link-local (fe80::/10) address.
\<close>

theorem CheckResolvedIPs_no_local:
  assumes "dc_allowed (CheckResolvedIPs p host ips)" "\<not> np_allow_private p"
  shows "ips \<noteq> [] \<and> None \<notin> set ips \<and> dc_allowed (CheckHost p host)
    \<and> (\<forall>a b c d. Some [a, b, c, d] \<in> set ips \<or> Some (v4_in_v6_prefix @ [a, b, c, d]) \<in> set ips \<longrightarrow> \<not> local_v4 a b c d)
    \<and> Some (replicate 15 0 @ [1]) \<notin> set ips \<and> Some (replicate 16 0) \<notin> set ips
    \<and> (\<forall>v. Some v \<in> set ips \<and> length v = 16 \<and> to4 v = None \<longrightarrow>
          v ! 0 AND 0xFE \<noteq> 0xFC \<and> \<not> (v ! 0 = 0xFE \<and> v ! 1 AND 0xC0 = 0x80))"
proof -
  from assms(1) have h: "dc_allowed (CheckHost p host)" "ips \<noteq> []" "dc_allowed (check_addresses p ips)"
    by (auto simp: CheckResolvedIPs_def check_ip_ranges_def Let_def split: if_splits)
  then have ok: "\<exists>a. ip = Some a \<and> \<not> local_address a" if "ip \<in> set ips" for ip
    using assms(2) that by (simp add: check_addresses_allowed)
  have "local_address (replicate 15 0 @ [1])" "local_address (replicate 16 0)"
    by code_simp+
  moreover have "local_address v" if "to4 v = None" "length v = 16"
      "v ! 0 AND 0xFE = 0xFC \<or> v ! 0 = 0xFE \<and> v ! 1 AND 0xC0 = 0x80" for v
    using that by (auto simp: local_address_def is_private_def is_link_local_unicast_def)
  ultimately have local6: "Some (replicate 15 0 @ [1]) \<notin> set ips" "Some (replicate 16 0) \<notin> set ips"
    "\<And>v. Some v \<in> set ips \<Longrightarrow> to4 v = None \<Longrightarrow> length v = 16 \<Longrightarrow>
       \<not> (v ! 0 AND 0xFE = 0xFC \<or> v ! 0 = 0xFE \<and> v ! 1 AND 0xC0 = 0x80)"
    using ok by blast+
  have local4: "\<not> local_v4 a b c d"
    if "Some [a, b, c, d] \<in> set ips \<or> Some (v4_in_v6_prefix @ [a, b, c, d]) \<in> set ips" for a b c d
    using that ok local_address_v4 local_address_mapped by blast
  have "None \<notin> set ips" using ok by blast
  with h local6 local4 show ?thesis by blast
qed

definition sample_policy :: net_policy where
  "sample_policy = \<lparr>np_default = [], np_allow = [''.github.com''], np_deny = [''evil.github.com''], np_allow_private = False,
     np_methods = []\<rparr>"

lemma CheckResolvedIPs_no_local_witness:
  "dc_allowed (CheckResolvedIPs sample_policy ''API.GitHub.com:443'' [Some [140, 82, 112, 3]])
   \<and> \<not> local_v4 140 82 112 3
   \<and> \<not> dc_allowed (CheckResolvedIPs sample_policy ''api.github.com'' [Some [169, 254, 169, 254]])"
proof -
  have a: "dc_allowed (CheckResolvedIPs sample_policy ''API.GitHub.com:443'' [Some [140, 82, 112, 3]])"
    and d: "\<not> dc_allowed (CheckResolvedIPs sample_policy ''api.github.com'' [Some [169, 254, 169, 254]])"
    by code_simp+
  have "\<not> np_allow_private sample_policy" by (simp add: sample_policy_def)
  from CheckResolvedIPs_no_local [OF a this] have "\<not> local_v4 140 82 112 3" by simp
  with a d show ?thesis by blast
qed

section \<open>Runtime grants\<close>

text \<open>
  What a runtime grant does.  It is refused exactly for an empty or a denied host.  A
  granted host that is in normal form and does not start with a dot is admitted from then on,
  every other host keeps its verdict, and the address check is untouched.
\<close>

theorem GrantHost_one_name:
  assumes "normalize_host (normalize_host h) = normalize_host h" "\<not> prefix ''.'' (normalize_host h)"
  shows "(snd (GrantHost p h) \<longleftrightarrow> normalize_host h \<noteq> [] \<and> \<not> denied p (normalize_host h))
    \<and> (snd (GrantHost p h) \<longrightarrow> dc_allowed (CheckHost (fst (GrantHost p h)) h))
    \<and> (\<forall>h'. normalize_host h' \<noteq> normalize_host h \<longrightarrow> CheckHost (fst (GrantHost p h)) h' = CheckHost p h')
    \<and> check_addresses (fst (GrantHost p h)) ips = check_addresses p ips"
proof (cases "normalize_host h \<noteq> [] \<and> \<not> denied p (normalize_host h)")
  case True
  then have g: "GrantHost p h = (p\<lparr>np_allow := np_allow p @ [normalize_host h]\<rparr>, True)"
    by (auto simp: GrantHost_def Let_def denied_def)
  have self: "host_matches (normalize_host h) host \<longleftrightarrow> host = normalize_host h" for host
    using True assms by (simp add: host_matches_def Let_def)
  have "check_addresses (p\<lparr>np_allow := np_allow p @ [normalize_host h]\<rparr>) ips = check_addresses p ips"
    by (induction ips) (simp_all split: option.splits)
  moreover have "CheckHost (p\<lparr>np_allow := np_allow p @ [normalize_host h]\<rparr>) h' = CheckHost p h'"
    if "normalize_host h' \<noteq> normalize_host h" for h'
  proof -
    have "find (\<lambda>pat. host_matches pat (normalize_host h')) (np_allow p @ [normalize_host h])
        = find (\<lambda>pat. host_matches pat (normalize_host h')) (np_allow p)"
      using that self [of "normalize_host h'"] by (intro find_append_absent) blast
    then show ?thesis by (simp add: CheckHost_def Let_def cong: option.case_cong)
  qed
  moreover have "dc_allowed (CheckHost (p\<lparr>np_allow := np_allow p @ [normalize_host h]\<rparr>) h)"
    using True self by (auto simp: CheckHost_allowed denied_def listed_def)
  ultimately show ?thesis using g True by simp
next
  case False
  then have "GrantHost p h = (p, False)" by (auto simp: GrantHost_def Let_def denied_def)
  with False show ?thesis by simp
qed

lemma GrantHost_one_name_witness:
  "dc_allowed (CheckHost (fst (GrantHost sample_policy ''PyPI.org.'')) ''pypi.org'')
   \<and> \<not> dc_allowed (CheckHost (fst (GrantHost sample_policy ''PyPI.org.'')) ''files.pypi.org'')"
proof -
  have n: "normalize_host ''PyPI.org.'' = ''pypi.org''" "normalize_host ''pypi.org'' = ''pypi.org''" "snd (GrantHost sample_policy ''PyPI.org.'')"
    "normalize_host ''files.pypi.org'' = ''files.pypi.org''" "\<not> dc_allowed (CheckHost sample_policy ''files.pypi.org'')"
    "dc_allowed (CheckHost (fst (GrantHost sample_policy ''PyPI.org.'')) ''pypi.org'')"
    by code_simp+
  have "\<forall>h'. normalize_host h' \<noteq> ''pypi.org'' \<longrightarrow>
      CheckHost (fst (GrantHost sample_policy ''PyPI.org.'')) h' = CheckHost sample_policy h'"
    using GrantHost_one_name [of "''PyPI.org.''" sample_policy "[]"] n(1,2) by simp
  then have "CheckHost (fst (GrantHost sample_policy ''PyPI.org.'')) ''files.pypi.org'' = CheckHost sample_policy ''files.pypi.org''"
    using n(4) by simp
  with n(5,6) show ?thesis by simp
qed

text \<open>
  A grant is not always one name: granting a host that starts with a dot admits every
  subdomain of it that no deny pattern matches.
\<close>

theorem GrantHost_dot_widens:
  assumes "normalize_host h = ''.'' @ s" "normalize_host (''.'' @ s) = ''.'' @ s" "snd (GrantHost p h)"
    "normalize_host sub = l @ ''.'' @ s" "l \<noteq> []" "\<not> denied p (normalize_host sub)"
  shows "dc_allowed (CheckHost (fst (GrantHost p h)) sub)"
proof -
  have g: "GrantHost p h = (p\<lparr>np_allow := np_allow p @ [''.'' @ s]\<rparr>, True)"
    using assms(1,3) by (auto simp: GrantHost_def Let_def split: if_splits)
  have "host_matches (''.'' @ s) (l @ ''.'' @ s)"
    using assms(2,5) by (auto simp: host_matches_def Let_def trim_prefix_def suffix_def)
  then show ?thesis using assms(4,6) g by (auto simp: CheckHost_allowed denied_def listed_def)
qed

lemma GrantHost_dot_widens_witness:
  "dc_allowed (CheckHost (fst (GrantHost sample_policy ''.pypi.org'')) ''files.pypi.org'')"
proof (rule GrantHost_dot_widens [where s = "''pypi.org''" and l = "''files''"])
  show "normalize_host ''.pypi.org'' = ''.'' @ ''pypi.org''" "normalize_host (''.'' @ ''pypi.org'') = ''.'' @ ''pypi.org''"
    "snd (GrantHost sample_policy ''.pypi.org'')" "normalize_host ''files.pypi.org'' = ''files'' @ ''.'' @ ''pypi.org''"
    "\<not> denied sample_policy (normalize_host ''files.pypi.org'')"
    by code_simp+
qed simp

end
