(* ===== verification/Difflib.thy ===== *)
theory Difflib
  imports Prelude
begin

text \<open>
  The line differ shared by the tools and the terminal interface, \<open>internal/difflib\<close>: the table
  of longest common subsequences, the edit script read back from it, its compact rendering and
  the splitting into lines.
\<close>

section \<open>Lines\<close>

text \<open>\<open>strings.ReplaceAll(s, "\r\n", "\n")\<close>.\<close>

fun fold_crlf :: "string \<Rightarrow> string" where
  "fold_crlf [] = []"
| "fold_crlf [c] = [c]"
| "fold_crlf (c # d # s) =
     (if c = cr_c \<and> d = newline_c then newline_c # fold_crlf s else c # fold_crlf (d # s))"

definition SplitLines :: "string \<Rightarrow> string list" where
  "SplitLines s =
     (let s1 = replace_byte cr_c newline_c (fold_crlf s)
      in if s1 = [] then []
         else let lines = split_byte s1 newline_c
              in if lines \<noteq> [] \<and> last lines = [] then butlast lines else lines)"

section \<open>The edit script\<close>

datatype op_kind = Equal | Delete | Insert

record op =
  op_kind :: op_kind
  op_line :: string
  op_old :: nat
  op_new :: nat

text \<open>
  One row of the table from the row above it.  \<open>dp_cells x ys prev left\<close> are the cells from
  column \<open>j\<close> on, where \<open>prev\<close> starts with \<open>dp[i-1][j-1]\<close> and \<open>left\<close> is \<open>dp[i][j-1]\<close>.
\<close>

fun dp_cells :: "string \<Rightarrow> string list \<Rightarrow> nat list \<Rightarrow> nat \<Rightarrow> nat list" where
  "dp_cells x (y # ys) (diag # up # prev) left =
     (let v = (if x = y then diag + 1 else if up \<ge> left then up else left)
      in v # dp_cells x ys (up # prev) v)"
| "dp_cells x ys prev left = []"

fun dp_rows :: "string list \<Rightarrow> string list \<Rightarrow> nat list \<Rightarrow> nat list list" where
  "dp_rows [] lb prev = []"
| "dp_rows (x # la) lb prev = (let row = 0 # dp_cells x lb prev 0 in row # dp_rows la lb row)"

definition dp_table :: "string list \<Rightarrow> string list \<Rightarrow> nat list list" where
  "dp_table la lb = (let zero = replicate (length lb + 1) 0 in zero # dp_rows la lb zero)"

text \<open>The loop that reads the script back; \<open>acc\<close> is the script after the current position.\<close>

function backtrack :: "string list \<Rightarrow> string list \<Rightarrow> nat list list \<Rightarrow> nat \<Rightarrow> nat \<Rightarrow> op list \<Rightarrow> op list" where
  "backtrack la lb dp i j acc =
     (if i = 0 \<and> j = 0 then acc
      else if i > 0 \<and> j > 0 \<and> la ! (i - 1) = lb ! (j - 1)
      then backtrack la lb dp (i - 1) (j - 1)
             (\<lparr>op_kind = Equal, op_line = la ! (i - 1), op_old = i, op_new = j\<rparr> # acc)
      else if j > 0 \<and> (i = 0 \<or> dp ! i ! (j - 1) \<ge> dp ! (i - 1) ! j)
      then backtrack la lb dp i (j - 1)
             (\<lparr>op_kind = Insert, op_line = lb ! (j - 1), op_old = 0, op_new = j\<rparr> # acc)
      else backtrack la lb dp (i - 1) j
             (\<lparr>op_kind = Delete, op_line = la ! (i - 1), op_old = i, op_new = 0\<rparr> # acc))"
  by pat_completeness auto
termination
  by (relation "measure (\<lambda>(la, lb, dp, i, j, acc). i + j)") auto

declare backtrack.simps [simp del]

definition Compute :: "string \<Rightarrow> string \<Rightarrow> op list" where
  "Compute a b =
     (let la = SplitLines a; lb = SplitLines b
      in backtrack la lb (dp_table la lb) (length la) (length lb) [])"

fun Compact :: "op list \<Rightarrow> string" where
  "Compact [] = []"
| "Compact (x # ops) =
     (case op_kind x of
        Delete \<Rightarrow> ''-'' @ op_line x @ [newline_c]
      | Insert \<Rightarrow> ''+'' @ op_line x @ [newline_c]
      | Equal \<Rightarrow> []) @ Compact ops"

section \<open>The table holds the lengths of longest common subsequences\<close>

fun lcs_len :: "string list \<Rightarrow> string list \<Rightarrow> nat \<Rightarrow> nat \<Rightarrow> nat" where
  "lcs_len la lb 0 j = 0"
| "lcs_len la lb (Suc i) 0 = 0"
| "lcs_len la lb (Suc i) (Suc j) =
     (if la ! i = lb ! j then lcs_len la lb i j + 1 else max (lcs_len la lb i (Suc j)) (lcs_len la lb (Suc i) j))"

lemma lcs_len_0 [simp]: "lcs_len la lb i 0 = 0"
  by (cases i) simp_all

definition lcs_row :: "string list \<Rightarrow> string list \<Rightarrow> nat \<Rightarrow> nat list" where
  "lcs_row la lb i = map (lcs_len la lb i) [0..<length lb + 1]"

lemma dp_cells_lcs:
  "i < length la \<Longrightarrow> j \<le> length lb \<Longrightarrow>
     dp_cells (la ! i) (drop j lb) (map (lcs_len la lb i) [j..<length lb + 1]) (lcs_len la lb (Suc i) j)
       = map (lcs_len la lb (Suc i)) [j + 1..<length lb + 1]"
proof (induction "length lb - j" arbitrary: j)
  case 0
  then show ?case by simp
next
  case (Suc k)
  then have j: "j < length lb" by simp
  then have d: "drop j lb = lb ! j # drop (Suc j) lb" by (simp add: Cons_nth_drop_Suc)
  have u: "[j..<length lb + 1] = j # [Suc j..<length lb + 1]" "[Suc j..<length lb + 1] = Suc j # [Suc (Suc j)..<length lb + 1]"
    using j by (simp_all add: upt_conv_Cons)
  have IH: "dp_cells (la ! i) (drop (Suc j) lb) (map (lcs_len la lb i) [Suc j..<length lb + 1]) (lcs_len la lb (Suc i) (Suc j))
      = map (lcs_len la lb (Suc i)) [Suc j + 1..<length lb + 1]"
    using Suc j by (intro Suc.hyps(1)) auto
  have v: "(if la ! i = lb ! j then lcs_len la lb i j + 1
       else if lcs_len la lb i (Suc j) \<ge> lcs_len la lb (Suc i) j then lcs_len la lb i (Suc j) else lcs_len la lb (Suc i) j)
      = lcs_len la lb (Suc i) (Suc j)"
    by (simp add: max_def)
  have "dp_cells (la ! i) (drop j lb) (map (lcs_len la lb i) [j..<length lb + 1]) (lcs_len la lb (Suc i) j)
      = lcs_len la lb (Suc i) (Suc j) # dp_cells (la ! i) (drop (Suc j) lb) (map (lcs_len la lb i) [Suc j..<length lb + 1]) (lcs_len la lb (Suc i) (Suc j))"
    unfolding d u(1) unfolding u(2) list.map dp_cells.simps(1) Let_def v ..
  also have "\<dots> = lcs_len la lb (Suc i) (Suc j) # map (lcs_len la lb (Suc i)) [Suc (Suc j)..<length lb + 1]"
    using IH by simp
  also have "\<dots> = map (lcs_len la lb (Suc i)) [j + 1..<length lb + 1]" using u(2) by simp
  finally show ?case .
qed

lemma lcs_row_step:
  "i < length la \<Longrightarrow> 0 # dp_cells (la ! i) lb (lcs_row la lb i) 0 = lcs_row la lb (Suc i)"
  using dp_cells_lcs [of i la 0 lb] by (simp add: lcs_row_def upt_conv_Cons del: upt_Suc)

lemma dp_rows_lcs:
  "i \<le> length la \<Longrightarrow> dp_rows (drop i la) lb (lcs_row la lb i) = map (lcs_row la lb) [Suc i..<length la + 1]"
proof (induction "length la - i" arbitrary: i)
  case 0
  then show ?case by simp
next
  case (Suc k)
  then have i: "i < length la" by simp
  then have d: "drop i la = la ! i # drop (Suc i) la" by (simp add: Cons_nth_drop_Suc)
  have "dp_rows (drop (Suc i) la) lb (lcs_row la lb (Suc i)) = map (lcs_row la lb) [Suc (Suc i)..<length la + 1]"
    using Suc i by (intro Suc.hyps(1)) auto
  then show ?case using i lcs_row_step [OF i, of lb] by (simp add: d Let_def upt_conv_Cons del: upt_Suc)
qed

lemma dp_table_lcs: "dp_table la lb = map (lcs_row la lb) [0..<length la + 1]"
proof -
  have z: "replicate (length lb + 1) 0 = lcs_row la lb 0"
  proof -
    have "lcs_len la lb 0 = (\<lambda>_. 0)" by (rule ext) simp
    then show ?thesis by (simp add: lcs_row_def map_replicate_const del: upt_Suc replicate_Suc)
  qed
  show ?thesis
    using dp_rows_lcs [of 0 la lb] unfolding dp_table_def z Let_def by (simp add: upt_conv_Cons del: upt_Suc)
qed

lemma dp_table_nth: "i \<le> length la \<Longrightarrow> j \<le> length lb \<Longrightarrow> dp_table la lb ! i ! j = lcs_len la lb i j"
  unfolding dp_table_lcs lcs_row_def by (simp del: upt_Suc add: nth_append)

section \<open>The script rewrites one text into the other\<close>

definition old_lines :: "op list \<Rightarrow> string list" where
  "old_lines ops = map op_line (filter (\<lambda>x. op_kind x \<noteq> Insert) ops)"

definition new_lines :: "op list \<Rightarrow> string list" where
  "new_lines ops = map op_line (filter (\<lambda>x. op_kind x \<noteq> Delete) ops)"

text \<open>The numbers a script starting after line \<open>i\<close> of the old text and line \<open>j\<close> of the new one must carry.\<close>

fun numbered :: "nat \<Rightarrow> nat \<Rightarrow> op list \<Rightarrow> bool" where
  "numbered i j [] = True"
| "numbered i j (x # ops) =
     (case op_kind x of
        Equal \<Rightarrow> op_old x = Suc i \<and> op_new x = Suc j \<and> numbered (Suc i) (Suc j) ops
      | Delete \<Rightarrow> op_old x = Suc i \<and> op_new x = 0 \<and> numbered (Suc i) j ops
      | Insert \<Rightarrow> op_old x = 0 \<and> op_new x = Suc j \<and> numbered i (Suc j) ops)"

definition equal_count :: "op list \<Rightarrow> nat" where
  "equal_count ops = length (filter (\<lambda>x. op_kind x = Equal) ops)"

lemma take_snoc: "i < length xs \<Longrightarrow> take (Suc i) xs = take i xs @ [xs ! i]"
  by (rule take_Suc_conv_app_nth)

lemma backtrack_script:
  assumes "i \<le> length la" "j \<le> length lb" "numbered i j acc"
    "\<And>i j. i \<le> length la \<Longrightarrow> j \<le> length lb \<Longrightarrow> dp ! i ! j = lcs_len la lb i j"
  shows "old_lines (backtrack la lb dp i j acc) = take i la @ old_lines acc
    \<and> new_lines (backtrack la lb dp i j acc) = take j lb @ new_lines acc
    \<and> numbered 0 0 (backtrack la lb dp i j acc)
    \<and> equal_count (backtrack la lb dp i j acc) = lcs_len la lb i j + equal_count acc"
  using assms(1-3)
proof (induction "i + j" arbitrary: i j acc rule: less_induct)
  case less
  consider (stop) "i = 0" "j = 0"
    | (equal) i' j' where "i = Suc i'" "j = Suc j'" "la ! i' = lb ! j'"
    | (ins) j' where "j = Suc j'" "i = 0 \<or> la ! (i - 1) \<noteq> lb ! j'" "i = 0 \<or> dp ! i ! j' \<ge> dp ! (i - 1) ! j"
    | (del) i' where "i = Suc i'" "j = 0 \<or> la ! i' \<noteq> lb ! (j - 1)" "j = 0 \<or> \<not> dp ! i ! (j - 1) \<ge> dp ! i' ! j"
    by (cases i; cases j) auto
  then show ?case
  proof cases
    case stop
    with less.prems(3) show ?thesis by (simp add: backtrack.simps)
  next
    case equal
    let ?op = "\<lparr>op_kind = Equal, op_line = la ! i', op_old = i, op_new = j\<rparr>"
    have b: "backtrack la lb dp i j acc = backtrack la lb dp i' j' (?op # acc)"
      using equal by (subst backtrack.simps) simp
    show ?thesis unfolding b using less.hyps [of i' j' "?op # acc"] less.prems equal
      by (simp add: old_lines_def new_lines_def equal_count_def take_snoc)
  next
    case ins
    let ?op = "\<lparr>op_kind = Insert, op_line = lb ! j', op_old = 0, op_new = j\<rparr>"
    have b: "backtrack la lb dp i j acc = backtrack la lb dp i j' (?op # acc)"
      using ins by (subst backtrack.simps) auto
    have "lcs_len la lb i j = lcs_len la lb i j'"
      using ins assms(4) less.prems(1,2) by (cases i) auto
    then show ?thesis unfolding b using less.hyps [of i j' "?op # acc"] less.prems ins
      by (simp add: old_lines_def new_lines_def equal_count_def take_snoc)
  next
    case del
    let ?op = "\<lparr>op_kind = Delete, op_line = la ! i', op_old = i, op_new = 0\<rparr>"
    have b: "backtrack la lb dp i j acc = backtrack la lb dp i' j (?op # acc)"
      using del by (subst backtrack.simps) auto
    have "lcs_len la lb i j = lcs_len la lb i' j"
      using del assms(4) less.prems(1,2) by (cases j) auto
    then show ?thesis unfolding b using less.hyps [of i' j "?op # acc"] less.prems del
      by (simp add: old_lines_def new_lines_def equal_count_def take_snoc)
  qed
qed

lemma Compute_script:
  "old_lines (Compute a b) = SplitLines a" "new_lines (Compute a b) = SplitLines b" "numbered 0 0 (Compute a b)"
  "equal_count (Compute a b) = lcs_len (SplitLines a) (SplitLines b) (length (SplitLines a)) (length (SplitLines b))"
  using backtrack_script [of "length (SplitLines a)" "SplitLines a" "length (SplitLines b)" "SplitLines b" "[]"
      "dp_table (SplitLines a) (SplitLines b)"] dp_table_nth
  by (simp_all add: Compute_def Let_def old_lines_def new_lines_def equal_count_def)

text \<open>
  The edit script is a patch: without its insertions it is the old text, without its
  deletions the new text, line for line, and every operation carries the line numbers it has in
  the two texts, zero on the side that does not apply.
\<close>

theorem Compute_patch:
  "old_lines (Compute a b) = SplitLines a \<and> new_lines (Compute a b) = SplitLines b \<and> numbered 0 0 (Compute a b)"
  by (simp add: Compute_script)

section \<open>The script is minimal\<close>

lemma subseq_snocD: "subseq zs (xs @ [x]) \<Longrightarrow> subseq zs xs \<or> (\<exists>ws. zs = ws @ [x] \<and> subseq ws xs)"
proof (induction xs arbitrary: zs)
  case Nil
  then show ?case by (cases zs) (auto split: if_splits dest: list_emb_Nil2)
next
  case (Cons a xs)
  show ?case
  proof (cases zs)
    case (Cons z zs')
    show ?thesis
    proof (cases "z = a")
      case True
      with Cons.prems Cons have "subseq zs' (xs @ [x])" by simp
      from Cons.IH [OF this] True Cons show ?thesis by (metis append_Cons subseq_Cons2)
    next
      case False
      with Cons.prems Cons have "subseq zs (xs @ [x])" by simp
      from Cons.IH [OF this] show ?thesis by (metis list_emb_Cons)
    qed
  qed simp
qed

lemma subseq_snoc_both: "subseq (ws @ [y]) (xs @ [x]) \<Longrightarrow> subseq ws xs"
proof -
  assume "subseq (ws @ [y]) (xs @ [x])"
  then have "subseq (ws @ [y]) xs \<or> subseq ws xs" using subseq_snocD [of "ws @ [y]" xs x] by auto
  moreover have "subseq ws (ws @ [y])" by (rule subseq_rev_drop_many) simp
  ultimately show ?thesis using subseq_order.order_trans by blast
qed

lemma lcs_len_max:
  "subseq zs (take i la) \<Longrightarrow> subseq zs (take j lb) \<Longrightarrow> i \<le> length la \<Longrightarrow> j \<le> length lb \<Longrightarrow>
     length zs \<le> lcs_len la lb i j"
proof (induction la lb i j arbitrary: zs rule: lcs_len.induct)
  case (3 la lb i j)
  have t: "take (Suc i) la = take i la @ [la ! i]" "take (Suc j) lb = take j lb @ [lb ! j]"
    using "3.prems"(3,4) by (simp_all add: take_snoc)
  note subs = "3.prems"(1,2) [unfolded t]
  show ?case
  proof (cases "la ! i = lb ! j")
    case True
    show ?thesis
    proof (cases zs rule: rev_cases)
      case (snoc ws y)
      have "subseq ws (take i la)" "subseq ws (take j lb)"
        using subseq_snoc_both [OF subs(1) [unfolded snoc]] subseq_snoc_both [OF subs(2) [unfolded snoc]] .
      with "3.IH"(1) [OF True] "3.prems"(3,4) have "length ws \<le> lcs_len la lb i j" by simp
      with True snoc show ?thesis by simp
    qed simp
  next
    case False
    then have "subseq zs (take i la) \<or> subseq zs (take j lb)"
      using subseq_snocD [OF subs(1)] subseq_snocD [OF subs(2)] by auto
    then have "length zs \<le> lcs_len la lb i (Suc j) \<or> length zs \<le> lcs_len la lb (Suc i) j"
      using "3.IH"(2) [OF False] "3.IH"(3) [OF False] "3.prems" by auto
    with False show ?thesis by auto
  qed
qed simp_all

definition changes :: "op list \<Rightarrow> nat" where
  "changes ops = length (filter (\<lambda>x. op_kind x \<noteq> Equal) ops)"

lemma script_counts:
  "length (old_lines ops) + length (new_lines ops) = changes ops + 2 * equal_count ops"
  by (induction ops) (auto simp: old_lines_def new_lines_def changes_def equal_count_def intro: op_kind.exhaust)

lemma equal_lines_common:
  "subseq (map op_line (filter (\<lambda>x. op_kind x = Equal) ops)) (old_lines ops)"
  "subseq (map op_line (filter (\<lambda>x. op_kind x = Equal) ops)) (new_lines ops)"
  by (induction ops) (auto simp: old_lines_def new_lines_def)

lemma Compute_changes:
  assumes "old_lines ops = SplitLines a" "new_lines ops = SplitLines b"
  shows "changes (Compute a b) \<le> changes ops"
proof -
  have "equal_count ops \<le> lcs_len (SplitLines a) (SplitLines b) (length (SplitLines a)) (length (SplitLines b))"
    using lcs_len_max [of _ "length (SplitLines a)" "SplitLines a" "length (SplitLines b)" "SplitLines b"]
      equal_lines_common [of ops] assms by (fastforce simp: equal_count_def)
  then show ?thesis
    using script_counts [of ops] script_counts [of "Compute a b"] assms Compute_script [of a b] by simp
qed

text \<open>
  C37: No script is shorter: every script whose old side is the old text and whose new side is
  the new text has at least as many deletions and insertions as the computed one; equal texts
  give a script without changes.
\<close>

theorem Compute_minimal:
  "(\<forall>ops. old_lines ops = SplitLines a \<and> new_lines ops = SplitLines b \<longrightarrow> changes (Compute a b) \<le> changes ops)
   \<and> changes (Compute a a) = 0"
proof
  show "\<forall>ops. old_lines ops = SplitLines a \<and> new_lines ops = SplitLines b \<longrightarrow> changes (Compute a b) \<le> changes ops"
    using Compute_changes by blast
  let ?ops = "map (\<lambda>l. \<lparr>op_kind = Equal, op_line = l, op_old = 0, op_new = 0\<rparr>) (SplitLines a)"
  have "old_lines ?ops = SplitLines a" "new_lines ?ops = SplitLines a" "changes ?ops = 0"
    by (simp_all add: old_lines_def new_lines_def changes_def comp_def filter_map)
  with Compute_changes [of ?ops a a] show "changes (Compute a a) = 0" by simp
qed

lemma Compute_minimal_witness:
  "\<exists>ops. old_lines ops = SplitLines ''x'' \<and> new_lines ops = SplitLines ''y'' \<and> changes (Compute ''x'' ''y'') \<le> changes ops"
proof -
  let ?ops = "[\<lparr>op_kind = Delete, op_line = ''x'', op_old = 1, op_new = 0\<rparr>, \<lparr>op_kind = Insert, op_line = ''y'', op_old = 0, op_new = 1\<rparr>]"
  have o: "old_lines ?ops = SplitLines ''x''" "new_lines ?ops = SplitLines ''y''" by code_simp+
  with Compute_minimal [of "''x''" "''y''"] show ?thesis by blast
qed

section \<open>Lines read back\<close>

definition unlines :: "string list \<Rightarrow> string" where
  "unlines ls = concat (map (\<lambda>l. l @ [newline_c]) ls)"

lemma fold_crlf_id: "cr_c \<notin> set s \<Longrightarrow> fold_crlf s = s"
  by (induction s rule: fold_crlf.induct) auto

lemma replace_byte_id: "a \<notin> set s \<Longrightarrow> replace_byte a b s = s"
  unfolding replace_byte_def by (induction s) auto

lemma split_unlines: "\<forall>l \<in> set ls. newline_c \<notin> set l \<Longrightarrow> split_byte (unlines ls) newline_c = ls @ [[]]"
  by (induction ls) (simp_all add: unlines_def split_byte_append)

lemma split_byte_parts: "l \<in> set (split_byte s c) \<Longrightarrow> c \<notin> set l"
  by (induction s arbitrary: l) (auto split: if_splits list.splits)

lemma split_byte_set: "l \<in> set (split_byte s c) \<Longrightarrow> set l \<subseteq> set s"
proof (induction s arbitrary: l)
  case (Cons d s)
  obtain p ps where "split_byte s c = p # ps" using split_byte_ne [of s c] by (cases "split_byte s c") auto
  with Cons show ?case by (fastforce split: if_splits)
qed simp

text \<open>
  Splitting and joining are inverse on lines: lines without line breaks, each ended by a
  newline, are read back exactly, empty lines at the end included; and no line that
  \<open>SplitLines\<close> returns contains a line break of any kind.
\<close>

theorem SplitLines_unlines:
  assumes "\<forall>l \<in> set ls. newline_c \<notin> set l \<and> cr_c \<notin> set l"
  shows "SplitLines (unlines ls) = ls \<and> (\<forall>l \<in> set (SplitLines s). newline_c \<notin> set l \<and> cr_c \<notin> set l)"
proof
  have "cr_c \<notin> set (unlines ls)" using assms by (auto simp: unlines_def)
  then have s1: "replace_byte cr_c newline_c (fold_crlf (unlines ls)) = unlines ls"
    by (simp add: fold_crlf_id replace_byte_id)
  have sp: "split_byte (unlines ls) newline_c = ls @ [[]]" using assms by (intro split_unlines) auto
  show "SplitLines (unlines ls) = ls"
  proof (cases "unlines ls = []")
    case True
    then have "ls = []" by (cases ls) (simp_all add: unlines_def)
    then show ?thesis by (simp add: SplitLines_def replace_byte_def unlines_def)
  next
    case False
    then show ?thesis by (simp add: SplitLines_def s1 sp Let_def)
  qed
  let ?s1 = "replace_byte cr_c newline_c (fold_crlf s)"
  have ncr: "cr_c \<notin> set ?s1" by (auto simp: replace_byte_def)
  have "l \<in> set (split_byte ?s1 newline_c)" if "l \<in> set (SplitLines s)" for l
    using that by (auto simp: SplitLines_def Let_def split: if_splits dest: in_set_butlastD)
  then show "\<forall>l \<in> set (SplitLines s). newline_c \<notin> set l \<and> cr_c \<notin> set l"
    using ncr split_byte_parts split_byte_set by blast
qed

lemma SplitLines_unlines_witness:
  "SplitLines (unlines [''a'', [], ''b'', []]) = [''a'', [], ''b'', []]"
  using SplitLines_unlines [of "[''a'', [], ''b'', []]"] by simp

end
