(* ===== verification/Lease.thy ===== *)
theory Lease
  imports Prelude
begin

text \<open>
  The key-value table of the store (\<open>internal/store/kv.go\<close>) and the leases kept in it
  (\<open>internal/store/lease.go\<close>).  The table is an association list with at most one row per
  key; \<open>kv_up\<close> says whether the database answers, so that the error branches of the
  callers are reachable.  The locale \<open>kv_interface\<close> is the interface \<open>KV\<close> of
  \<open>internal/approval/types.go\<close>, interpreted on this table.
\<close>

subsection \<open>The table\<close>

record kv_table =
  kv_rows :: "(string \<times> string) list"
  kv_up :: bool

definition upsert :: "string \<Rightarrow> string \<Rightarrow> (string \<times> string) list \<Rightarrow> (string \<times> string) list" where
  "upsert k v rows =
     (if k \<in> fst ` set rows then map (\<lambda>r. if fst r = k then (k, v) else r) rows else rows @ [(k, v)])"

definition KVSet :: "string \<Rightarrow> string \<Rightarrow> kv_table \<Rightarrow> kv_table option" where
  "KVSet k v tbl = (if kv_up tbl then Some (tbl\<lparr>kv_rows := upsert k v (kv_rows tbl)\<rparr>) else None)"

text \<open>\<open>None\<close> is the error; \<open>Some None\<close> is \<open>ok = false\<close>.\<close>

definition KVGet :: "kv_table \<Rightarrow> string \<Rightarrow> string option option" where
  "KVGet tbl k = (if kv_up tbl then Some (map_of (kv_rows tbl) k) else None)"

lemma map_of_upsert: "map_of (upsert k v rows) i = (if i = k then Some v else map_of rows i)"
proof -
  have "map_of (map (\<lambda>r. if fst r = k then (k, v) else r) rows) i
      = (if i = k then map_option (\<lambda>_. v) (map_of rows k) else map_of rows i)"
    by (induction rows) auto
  moreover have "k \<in> fst ` set rows \<Longrightarrow> map_option (\<lambda>_. v) (map_of rows k) = Some v"
    by (cases "map_of rows k") (auto simp: map_of_eq_None_iff)
  moreover have "map_of (rows @ [(k, v)]) i = (if i = k then Some v else map_of rows i)"
    if "k \<notin> fst ` set rows"
    using that by (induction rows) auto
  ultimately show ?thesis
    by (cases "k \<in> fst ` set rows") (simp_all only: upsert_def if_True if_False not_False_eq_True simp_thms)
qed

locale kv_interface =
  fixes get :: "'s \<Rightarrow> string \<Rightarrow> string option option"
    and set_key :: "string \<Rightarrow> string \<Rightarrow> 's \<Rightarrow> 's option"
  assumes get_same: "set_key k v s = Some s' \<Longrightarrow> get s' k = Some (Some v)"
    and get_other: "set_key k v s = Some s' \<Longrightarrow> i \<noteq> k \<Longrightarrow> get s' i = get s i"
begin

text \<open>Writing one key twice keeps the second value.\<close>

lemma last_write:
  assumes "set_key k v s = Some s1" "set_key k w s1 = Some s2"
  shows "get s2 k = Some (Some w)" "i \<noteq> k \<Longrightarrow> get s2 i = get s i"
  using assms get_same get_other by metis+

end

interpretation kv: kv_interface KVGet KVSet
  by unfold_locales (auto simp: KVSet_def KVGet_def map_of_upsert split: if_splits)

subsection \<open>Numbers in text\<close>

definition digits_value :: "string \<Rightarrow> int" where
  "digits_value ds = foldl (\<lambda>a c. a * 10 + (byte c - 48)) 0 ds"

lemma digits_value_snoc [simp]: "digits_value (ds @ [c]) = digits_value ds * 10 + (byte c - 48)"
  by (simp add: digits_value_def)

lemma digit_char: "n < 10 \<Longrightarrow> is_digit (char_of (48 + n)) \<and> byte (char_of (48 + n)) = 48 + int n"
proof -
  have "list_all (\<lambda>n. is_digit (char_of (48 + n)) \<and> byte (char_of (48 + n)) = 48 + int n) [0..<10]"
    by code_simp
  then show "n < 10 \<Longrightarrow> ?thesis" by (simp add: list_all_iff)
qed

lemma decimal_value: "digits_value (decimal n) = int n"
proof (induction n rule: decimal.induct)
  case (1 n)
  show ?case
  proof (cases "n < 10")
    case True
    then show ?thesis using digit_char [of n] by (simp add: decimal.simps [of n] digits_value_def)
  next
    case False
    have "int n = int (n div 10 * 10 + n mod 10)" by simp
    then have "int n = int (n div 10) * 10 + int (n mod 10)" by (simp only: of_nat_add of_nat_mult of_nat_numeral)
    with False 1 digit_char [of "n mod 10"] show ?thesis by (simp add: decimal.simps [of n])
  qed
qed

lemma decimal_digits: "list_all is_digit (decimal n)"
proof (induction n rule: decimal.induct)
  case (1 n)
  with digit_char [of n] digit_char [of "n mod 10"] show ?case by (auto simp: decimal.simps [of n])
qed

lemma decimal_ne [simp]: "decimal n \<noteq> []"
  by (simp add: decimal.simps [of n])

text \<open>\<open>strconv.ParseInt(s, 10, 64)\<close>: \<open>None\<close> for a syntax or a range error.\<close>

definition sign_split :: "string \<Rightarrow> bool \<times> string" where
  "sign_split s =
     (case s of [] \<Rightarrow> (False, [])
      | c # r \<Rightarrow> if c = CHR ''-'' then (True, r) else if c = CHR ''+'' then (False, r) else (False, s))"

definition ParseInt :: "string \<Rightarrow> int option" where
  "ParseInt s =
     (let (neg, ds) = sign_split s; v = (if neg then - digits_value ds else digits_value ds)
      in if ds = [] \<or> \<not> list_all is_digit ds then None
         else if - (2 ^ 63) \<le> v \<and> v \<le> max_i64 then Some v else None)"

text \<open>SQLite's \<open>CAST(text AS INTEGER)\<close>: the longest numeric prefix, 0 without one, clamped.\<close>

definition cast_integer :: "string \<Rightarrow> int" where
  "cast_integer s =
     (let (neg, r) = sign_split (dropWhile (\<lambda>c. c \<in> set [CHR '' '', CHR 0x09, CHR 0x0A, CHR 0x0B, CHR 0x0C, CHR 0x0D]) s);
          ds = takeWhile is_digit r; v = (if neg then - digits_value ds else digits_value ds)
      in max (- (2 ^ 63)) (min max_i64 v))"

lemma itoa_split: "sign_split (itoa x) = (x < 0, decimal (nat (if x < 0 then - x else x)))"
proof (cases "x < 0")
  case False
  obtain c r where c: "decimal (nat x) = c # r" using decimal_ne by (cases "decimal (nat x)") blast+
  with decimal_digits [of "nat x"] have "is_digit c" by simp
  then have "c \<noteq> CHR ''-''" "c \<noteq> CHR ''+''" by (auto simp: is_digit_def)
  with c False show ?thesis by (simp add: sign_split_def itoa_def)
qed (simp add: sign_split_def itoa_def)

lemma ParseInt_itoa: "- (2 ^ 63) \<le> x \<Longrightarrow> x \<le> max_i64 \<Longrightarrow> ParseInt (itoa x) = Some x"
  by (simp add: ParseInt_def itoa_split decimal_value decimal_digits)

lemma itoa_head: "\<exists>c r. itoa x = c # r \<and> (is_digit c \<or> c = CHR ''-'')"
proof (cases "x < 0")
  case False
  obtain c r where "decimal (nat x) = c # r" using decimal_ne by (cases "decimal (nat x)") blast+
  with decimal_digits [of "nat x"] False show ?thesis by (auto simp: itoa_def)
qed (auto simp: itoa_def)

lemma cast_itoa: "- (2 ^ 63) \<le> x \<Longrightarrow> x \<le> max_i64 \<Longrightarrow> cast_integer (itoa x) = x"
proof -
  assume x: "- (2 ^ 63) \<le> x" "x \<le> max_i64"
  obtain c r where c: "itoa x = c # r" "is_digit c \<or> c = CHR ''-''" using itoa_head by blast
  then have "dropWhile (\<lambda>c. c \<in> set [CHR '' '', CHR 0x09, CHR 0x0A, CHR 0x0B, CHR 0x0C, CHR 0x0D]) (itoa x) = itoa x"
    by (auto simp: is_digit_def)
  moreover have tw: "takeWhile is_digit (decimal n) = decimal n" for n
    using decimal_digits [of n] by (simp add: list_all_iff)
  ultimately show ?thesis
    unfolding cast_integer_def Let_def using x by (simp only: itoa_split prod.case tw decimal_value) auto
qed

subsection \<open>Leases\<close>

definition leasePrefix :: string where
  "leasePrefix = ''lease:''"

definition LeaseRetired :: int where
  "LeaseRetired = 2 ^ 62 - 1"

datatype lease_error = Empty_name | Non_positive_ttl string int | Db_error

text \<open>\<open>ClaimLease\<close>: the \<open>ttl\<close> is a \<open>time.Duration\<close> in nanoseconds, \<open>now\<close> a Unix time in seconds.\<close>

definition ClaimLease :: "string \<Rightarrow> int \<Rightarrow> int \<Rightarrow> kv_table \<Rightarrow> (lease_error + bool) \<times> kv_table" where
  "ClaimLease name ttl now tbl =
     (if name = [] then (Inl Empty_name, tbl)
      else if ttl \<le> 0 then (Inl (Non_positive_ttl name ttl), tbl)
      else if \<not> kv_up tbl then (Inl Db_error, tbl)
      else let k = leasePrefix @ name; v = itoa (i64 (now + ttl div 1000000000)) in
        case map_of (kv_rows tbl) k of
          None \<Rightarrow> (Inr True, tbl\<lparr>kv_rows := upsert k v (kv_rows tbl)\<rparr>)
        | Some old \<Rightarrow>
            if cast_integer old < now then (Inr True, tbl\<lparr>kv_rows := upsert k v (kv_rows tbl)\<rparr>)
            else (Inr False, tbl))"

definition RetireLease :: "string \<Rightarrow> kv_table \<Rightarrow> (lease_error + unit) \<times> kv_table" where
  "RetireLease name tbl =
     (if name = [] then (Inl Empty_name, tbl)
      else case KVSet (leasePrefix @ name) (itoa LeaseRetired) tbl of
             None \<Rightarrow> (Inl Db_error, tbl) | Some tbl' \<Rightarrow> (Inr (), tbl'))"

definition LeaseHeldUntil :: "string \<Rightarrow> kv_table \<Rightarrow> lease_error + int \<times> bool" where
  "LeaseHeldUntil name tbl =
     (case KVGet tbl (leasePrefix @ name) of
        None \<Rightarrow> Inl Db_error
      | Some None \<Rightarrow> Inr (0, False)
      | Some (Some raw) \<Rightarrow> (case ParseInt raw of None \<Rightarrow> Inr (0, True) | Some t \<Rightarrow> Inr (t, True)))"

text \<open>
  A history of calls by any number of processes, and how often it won the lease \<open>name\<close>.
\<close>

datatype lease_call = Claim_lease string int int | Retire_lease string

fun lease_step :: "lease_call \<Rightarrow> kv_table \<Rightarrow> kv_table" where
  "lease_step (Claim_lease name ttl now) tbl = snd (ClaimLease name ttl now tbl)"
| "lease_step (Retire_lease name) tbl = snd (RetireLease name tbl)"

fun wins_call :: "string \<Rightarrow> lease_call \<Rightarrow> kv_table \<Rightarrow> bool" where
  "wins_call name (Claim_lease other ttl now) tbl \<longleftrightarrow>
     other = name \<and> fst (ClaimLease other ttl now tbl) = Inr True"
| "wins_call name (Retire_lease other) tbl \<longleftrightarrow> False"

fun wins :: "string \<Rightarrow> lease_call list \<Rightarrow> kv_table \<Rightarrow> nat" where
  "wins name [] tbl = 0"
| "wins name (c # cs) tbl = (if wins_call name c tbl then 1 else 0) + wins name cs (lease_step c tbl)"

definition held :: "string \<Rightarrow> int \<Rightarrow> kv_table \<Rightarrow> bool" where
  "held name t tbl \<longleftrightarrow>
     (case map_of (kv_rows tbl) (leasePrefix @ name) of None \<Rightarrow> False | Some v \<Rightarrow> t \<le> cast_integer v)"

lemma ClaimLease_held:
  assumes "held name t tbl" "now \<le> t"
  shows "fst (ClaimLease name ttl now tbl) \<noteq> Inr True" "snd (ClaimLease name ttl now tbl) = tbl"
  using assms by (auto simp: ClaimLease_def held_def Let_def split: option.splits)

lemma ClaimLease_other:
  "other \<noteq> name \<Longrightarrow> held name t (snd (ClaimLease other ttl now tbl)) = held name t tbl"
  by (auto simp: ClaimLease_def held_def Let_def map_of_upsert split: option.splits)

lemma RetireLease_held: "held name t tbl \<Longrightarrow> t \<le> LeaseRetired \<Longrightarrow> held name t (snd (RetireLease other tbl))"
  by (auto simp: RetireLease_def held_def KVSet_def map_of_upsert cast_itoa LeaseRetired_def max_i64_def
           split: option.splits)

lemma ClaimLease_wins:
  assumes "fst (ClaimLease name ttl now tbl) = Inr True" "0 \<le> now" "now + ttl div 1000000000 \<le> max_i64"
  shows "held name (now + ttl div 1000000000) (snd (ClaimLease name ttl now tbl))"
proof -
  let ?u = "now + ttl div 1000000000"
  have "0 < ttl" using assms(1) by (auto simp: ClaimLease_def split: if_splits)
  then have "0 \<le> ?u" using assms(2) by (simp add: pos_imp_zdiv_nonneg_iff)
  then have "cast_integer (itoa (i64 ?u)) = ?u" using assms(3) by (simp add: cast_itoa)
  with assms(1) show ?thesis
    by (auto simp: ClaimLease_def held_def Let_def map_of_upsert split: option.splits if_splits)
qed

definition early :: "string \<Rightarrow> int \<Rightarrow> lease_call \<Rightarrow> bool" where
  "early name t c = (case c of Claim_lease n ttl now \<Rightarrow> n = name \<longrightarrow> now \<le> t | Retire_lease n \<Rightarrow> True)"

text \<open>While a lease is held, early calls do not win it and leave it held.\<close>

lemma lease_call_held:
  assumes "held name t tbl" "t \<le> LeaseRetired" "early name t c"
  shows "\<not> wins_call name c tbl" "held name t (lease_step c tbl)"
proof -
  have "\<not> wins_call name c tbl \<and> held name t (lease_step c tbl)"
  proof (cases c)
    case (Claim_lease other ttl now)
    with assms ClaimLease_held [OF assms(1)] show ?thesis
      by (cases "other = name") (auto simp: early_def ClaimLease_other)
  next
    case (Retire_lease other)
    with RetireLease_held [OF assms(1,2)] show ?thesis by simp
  qed
  then show "\<not> wins_call name c tbl" "held name t (lease_step c tbl)" by blast+
qed

lemma lease_calls_held:
  "held name t tbl \<Longrightarrow> t \<le> LeaseRetired \<Longrightarrow> list_all (early name t) cs \<Longrightarrow> wins name cs tbl = 0"
  by (induction cs arbitrary: tbl) (simp_all add: lease_call_held)

text \<open>
  C34: Leases exclude each other across processes: once a claim has won, no call of any process
  wins the same lease at a time up to and including the recorded expiry, and the expiry read
  back is the one recorded.
\<close>

theorem lease_exclusive:
  assumes "fst (ClaimLease name ttl now tbl) = Inr True" "0 \<le> now"
    "now + ttl div 1000000000 \<le> LeaseRetired"
    "list_all (early name (now + ttl div 1000000000)) cs"
  shows "wins name cs (snd (ClaimLease name ttl now tbl)) = 0
    \<and> LeaseHeldUntil name (snd (ClaimLease name ttl now tbl)) = Inr (now + ttl div 1000000000, True)"
proof -
  let ?u = "now + ttl div 1000000000"
  have u: "?u \<le> max_i64" using assms(3) by (simp add: LeaseRetired_def max_i64_def)
  have "0 < ttl" using assms(1) by (auto simp: ClaimLease_def split: if_splits)
  then have "0 \<le> ?u" using assms(2) by (simp add: pos_imp_zdiv_nonneg_iff)
  with u have "ParseInt (itoa (i64 ?u)) = Some ?u" by (simp add: ParseInt_itoa)
  with assms(1) have "LeaseHeldUntil name (snd (ClaimLease name ttl now tbl)) = Inr (?u, True)"
    by (auto simp: ClaimLease_def LeaseHeldUntil_def KVGet_def Let_def map_of_upsert
             split: option.splits if_splits)
  moreover have "wins name cs (snd (ClaimLease name ttl now tbl)) = 0"
    using lease_calls_held [OF ClaimLease_wins [OF assms(1,2) u] assms(3,4)] .
  ultimately show ?thesis by simp
qed

lemma lease_exclusive_witness:
  "let tbl = snd (ClaimLease ''m'' 60000000000 100 \<lparr>kv_rows = [], kv_up = True\<rparr>) in
     wins ''m'' [Claim_lease ''m'' 5 160, Claim_lease ''n'' 5 900] tbl = 0
     \<and> LeaseHeldUntil ''m'' tbl = Inr (160, True)"
  using lease_exclusive [of "''m''" 60000000000 100 "\<lparr>kv_rows = [], kv_up = True\<rparr>"
      "[Claim_lease ''m'' 5 160, Claim_lease ''n'' 5 900]"]
  by (simp add: ClaimLease_def Let_def early_def LeaseRetired_def)

text \<open>
  A retired lease is never granted again before the year the sentinel stands for, whatever
  is called in between.
\<close>

theorem retired_lease_stays:
  assumes "fst (RetireLease name tbl) = Inr ()" "list_all (early name LeaseRetired) cs"
  shows "wins name cs (snd (RetireLease name tbl)) = 0"
proof -
  have "held name LeaseRetired (snd (RetireLease name tbl))"
    using assms(1)
    by (auto simp: RetireLease_def held_def KVSet_def map_of_upsert cast_itoa LeaseRetired_def max_i64_def
             split: option.splits if_splits)
  with assms(2) show ?thesis using lease_calls_held by blast
qed

lemma retired_lease_stays_witness:
  "wins ''m'' [Claim_lease ''m'' 5 4000000000, Retire_lease ''m'', Claim_lease ''m'' 5 5000000000]
     (snd (RetireLease ''m'' \<lparr>kv_rows = [], kv_up = True\<rparr>)) = 0"
  by (rule retired_lease_stays)
     (simp_all add: RetireLease_def KVSet_def early_def LeaseRetired_def)

end
