(* ===== verification/WorkStore.thy ===== *)
theory WorkStore
  imports Prelude
begin

text \<open>
  The durable tasks of \<open>internal/task/work\<close>: the status machine and the records of
  \<open>types.go\<close>, and the tables and statements of \<open>store.go\<close>.  A table is the list of its
  rows in the order of insertion, foreign keys are enforced (the connection sets
  \<open>foreign_keys(ON)\<close>), and a write that fails leaves the tables as they were, because each
  operation is one transaction.  Times are Unix seconds.
\<close>

subsection \<open>The status machine\<close>

datatype status = Pending | Running | Completed | Failed | Cancelled | Other_status string

definition IsTerminal :: "status \<Rightarrow> bool" where
  "IsTerminal s \<longleftrightarrow> s = Completed \<or> s = Failed \<or> s = Cancelled"

definition KnownStatuses :: "status list" where
  "KnownStatuses = [Pending, Running, Completed, Failed, Cancelled]"

definition isKnown :: "status \<Rightarrow> bool" where
  "isKnown s \<longleftrightarrow> s \<in> set KnownStatuses"

fun legalTransitions :: "status \<Rightarrow> status list" where
  "legalTransitions Pending = [Running, Cancelled]"
| "legalTransitions Running = [Completed, Failed, Cancelled, Pending]"
| "legalTransitions _ = []"

datatype illegal = Unknown_target status | From_terminal status status | No_edge status status

definition CanTransitionTo :: "status \<Rightarrow> status \<Rightarrow> illegal option" where
  "CanTransitionTo s next =
     (if \<not> isKnown next then Some (Unknown_target next)
      else if IsTerminal s then Some (From_terminal s next)
      else if next \<notin> set (legalTransitions s) then Some (No_edge s next)
      else None)"

subsection \<open>Records\<close>

datatype condition_kind = ConditionNone | ConditionFileExists | ConditionGatePassed | Other_condition string

record condition =
  cd_kind :: condition_kind
  cd_target :: string

record checklist_item =
  ci_id :: int
  ci_content :: string
  ci_status :: string
  ci_verify :: condition

definition CompletionPct :: "checklist_item list \<Rightarrow> int" where
  "CompletionPct items =
     (if items = [] then 0
      else int (length (filter (\<lambda>i. ci_status i = ''done'') items)) * 100 div int (length items))"

record evidence =
  ev_id :: string
  ev_gate :: string
  ev_command :: string
  ev_cwd :: string
  ev_exit :: int
  ev_duration :: int
  ev_classification :: string
  ev_summary :: string
  ev_log :: string
  ev_recorded :: int

definition ClassificationFromExitCode :: "int \<Rightarrow> string" where
  "ClassificationFromExitCode c = (if c = 0 then ''pass'' else if c > 0 then ''fail'' else ''error'')"

record artifact =
  ar_id :: string
  ar_task :: string
  ar_label :: string
  ar_summary :: string
  ar_ref :: string
  ar_size :: int
  ar_created :: int

record timeline_entry =
  te_at :: int
  te_kind :: string
  te_summary :: string
  te_detail :: string

record work_row =
  wr_id :: string
  wr_title :: string
  wr_prompt :: string
  wr_status :: status
  wr_thread :: string
  wr_turn :: string
  wr_broker :: string
  wr_created :: int
  wr_updated :: int

record work_task = work_row +
  wt_checklist :: "checklist_item list"
  wt_gates :: "evidence list"
  wt_artifacts :: "artifact list"
  wt_timeline :: "timeline_entry list"

record work_summary =
  su_id :: string
  su_title :: string
  su_status :: status
  su_thread :: string
  su_turn :: string
  su_pct :: int
  su_gates :: int
  su_created :: int
  su_updated :: int

record artifact_policy =
  ap_quota :: int
  ap_ttl :: int
  ap_read :: int
  ap_max_read :: int

definition with_defaults :: "artifact_policy \<Rightarrow> artifact_policy" where
  "with_defaults p = \<lparr>
     ap_quota = (if ap_quota p \<le> 0 then 64 * 2 ^ 20 else ap_quota p),
     ap_ttl = (if ap_ttl p \<le> 0 then 7 * 24 * 3600 * 1000000000 else ap_ttl p),
     ap_read = (if ap_read p \<le> 0 then 64 * 2 ^ 10 else ap_read p),
     ap_max_read = (if ap_max_read p \<le> 0 then 2 ^ 20 else ap_max_read p)\<rparr>"

subsection \<open>Tables and statements\<close>

record work_db =
  db_tasks :: "work_row list"
  db_items :: "(string \<times> checklist_item) list"
  db_gates :: "(string \<times> evidence) list"
  db_artifacts :: "artifact list"
  db_timeline :: "(string \<times> timeline_entry) list"

definition empty_db :: work_db where
  "empty_db = \<lparr>db_tasks = [], db_items = [], db_gates = [], db_artifacts = [], db_timeline = []\<rparr>"

datatype store_failure =
    No_rows
  | Illegal illegal
  | Changed_concurrently
  | Constraint
  | Task_missing
  | Item_missing

abbreviation has_task :: "work_db \<Rightarrow> string \<Rightarrow> bool" where
  "has_task db tid \<equiv> tid \<in> wr_id ` set (db_tasks db)"

abbreviation work_row_of :: "work_db \<Rightarrow> string \<Rightarrow> work_row option" where
  "work_row_of db tid \<equiv> find (\<lambda>r. wr_id r = tid) (db_tasks db)"

text \<open>\<open>UPDATE task_work SET f WHERE id = tid\<close>.\<close>

definition on_task :: "string \<Rightarrow> (work_row \<Rightarrow> work_row) \<Rightarrow> work_db \<Rightarrow> work_db" where
  "on_task tid f db = db\<lparr>db_tasks := map (\<lambda>r. if wr_id r = tid then f r else r) (db_tasks db)\<rparr>"

definition touch :: "string \<Rightarrow> int \<Rightarrow> work_db \<Rightarrow> work_db" where
  "touch tid now = on_task tid (\<lambda>r. r\<lparr>wr_updated := now\<rparr>)"

definition add_timeline :: "string \<Rightarrow> timeline_entry \<Rightarrow> work_db \<Rightarrow> work_db" where
  "add_timeline tid e db = db\<lparr>db_timeline := db_timeline db @ [(tid, e)]\<rparr>"

text \<open>The primary key of \<open>task_work_checklist\<close> within one list of new items.\<close>

definition distinct_items :: "checklist_item list \<Rightarrow> bool" where
  "distinct_items items \<longleftrightarrow> distinct (map ci_id items)"

definition store_create :: "work_task \<Rightarrow> work_db \<Rightarrow> (store_failure + unit) \<times> work_db" where
  "store_create w db =
     (if has_task db (wr_id w) \<or> \<not> distinct_items (wt_checklist w) then (Inl Constraint, db)
      else (Inr (), db\<lparr>
        db_tasks := db_tasks db @ [work_row.truncate w],
        db_items := db_items db @ map (Pair (wr_id w)) (wt_checklist w),
        db_timeline := db_timeline db @ map (Pair (wr_id w)) (wt_timeline w)\<rparr>))"

definition items_of :: "work_db \<Rightarrow> string \<Rightarrow> checklist_item list" where
  "items_of db tid = sort_key ci_id (map snd (filter (\<lambda>p. fst p = tid) (db_items db)))"

definition gates_of :: "work_db \<Rightarrow> string \<Rightarrow> evidence list" where
  "gates_of db tid = sort_key ev_recorded (map snd (filter (\<lambda>p. fst p = tid) (db_gates db)))"

definition store_get :: "string \<Rightarrow> work_db \<Rightarrow> store_failure + work_task" where
  "store_get tid db =
     (case work_row_of db tid of
        None \<Rightarrow> Inl No_rows
      | Some r \<Rightarrow> Inr (work_row.extend r (work_task.fields
          (items_of db tid) (gates_of db tid)
          (sort_key ar_created (filter (\<lambda>a. ar_task a = tid) (db_artifacts db)))
          (map snd (filter (\<lambda>p. fst p = tid) (db_timeline db))))))"

text \<open>
  The listing: newest first by creation time and then by id, which \<open>created_at\<close> ties leave
  to the comparison of the id strings.
\<close>

fun string_less :: "string \<Rightarrow> string \<Rightarrow> bool" where
  "string_less _ [] = False"
| "string_less [] (_ # _) = True"
| "string_less (c # s) (d # t) = (byte c < byte d \<or> c = d \<and> string_less s t)"

definition newer :: "work_row \<Rightarrow> work_row \<Rightarrow> bool" where
  "newer r q \<longleftrightarrow> wr_created q < wr_created r \<or> wr_created r = wr_created q \<and> string_less (wr_id q) (wr_id r)"

fun insert_newest :: "work_row \<Rightarrow> work_row list \<Rightarrow> work_row list" where
  "insert_newest r [] = [r]"
| "insert_newest r (q # qs) = (if newer r q then r # q # qs else q # insert_newest r qs)"

definition summary_row :: "work_db \<Rightarrow> work_row \<Rightarrow> work_summary" where
  "summary_row db r = \<lparr>su_id = wr_id r, su_title = wr_title r, su_status = wr_status r,
     su_thread = wr_thread r, su_turn = wr_turn r,
     su_pct = (let items = filter (\<lambda>p. fst p = wr_id r) (db_items db) in
        if items = [] then 0
        else int (length (filter (\<lambda>p. ci_status (snd p) = ''done'') items)) * 100 div int (length items)),
     su_gates = int (length (filter (\<lambda>p. fst p = wr_id r) (db_gates db))),
     su_created = wr_created r, su_updated = wr_updated r\<rparr>"

definition store_list :: "int \<Rightarrow> string \<Rightarrow> work_db \<Rightarrow> work_summary list" where
  "store_list limit thread db =
     (let n = (if limit \<le> 0 \<or> limit > 200 then 50 else limit);
          rows = filter (\<lambda>r. thread = [] \<or> wr_thread r = thread) (db_tasks db)
      in map (summary_row db) (take (nat n) (fold insert_newest rows [])))"

definition Transition :: "string \<Rightarrow> status \<Rightarrow> string \<Rightarrow> string \<Rightarrow> int \<Rightarrow> work_db
    \<Rightarrow> (store_failure + unit) \<times> work_db" where
  "Transition tid next kind summary now db =
     (case work_row_of db tid of
        None \<Rightarrow> (Inl No_rows, db)
      | Some r \<Rightarrow>
          case CanTransitionTo (wr_status r) next of
            Some e \<Rightarrow> (Inl (Illegal e), db)
          | None \<Rightarrow>
              let hit = (\<lambda>q. wr_id q = tid \<and> wr_status q = wr_status r) in
              if length (filter hit (db_tasks db)) \<noteq> 1 then (Inl Changed_concurrently, db)
              else (Inr (), add_timeline tid \<lparr>te_at = now, te_kind = kind, te_summary = summary, te_detail = []\<rparr>
                 (db\<lparr>db_tasks := map (\<lambda>q. if hit q then q\<lparr>wr_status := next, wr_updated := now\<rparr> else q)
                                   (db_tasks db)\<rparr>)))"

definition AppendTimeline :: "string \<Rightarrow> timeline_entry \<Rightarrow> work_db \<Rightarrow> (store_failure + unit) \<times> work_db" where
  "AppendTimeline tid e db =
     (if \<not> has_task db tid then (Inl Constraint, db)
      else (Inr (), touch tid (te_at e) (add_timeline tid e db)))"

definition AttachBrokerTask :: "string \<Rightarrow> string \<Rightarrow> int \<Rightarrow> work_db \<Rightarrow> (store_failure + unit) \<times> work_db" where
  "AttachBrokerTask tid bid now db =
     (if length (filter (\<lambda>r. wr_id r = tid) (db_tasks db)) \<noteq> 1 then (Inl Task_missing, db)
      else (Inr (), on_task tid (\<lambda>r. r\<lparr>wr_broker := bid, wr_updated := now\<rparr>) db))"

definition SetChecklist :: "string \<Rightarrow> checklist_item list \<Rightarrow> int \<Rightarrow> work_db
    \<Rightarrow> (store_failure + unit) \<times> work_db" where
  "SetChecklist tid items now db =
     (if items \<noteq> [] \<and> (\<not> has_task db tid \<or> \<not> distinct_items items) then (Inl Constraint, db)
      else (Inr (), touch tid now (db\<lparr>db_items :=
              filter (\<lambda>p. fst p \<noteq> tid) (db_items db) @ map (Pair tid) items\<rparr>)))"

text \<open>\<open>COALESCE(MAX(item_id), 0) + 1\<close>.\<close>

definition next_item_id :: "work_db \<Rightarrow> string \<Rightarrow> int" where
  "next_item_id db tid =
     (case map (ci_id \<circ> snd) (filter (\<lambda>p. fst p = tid) (db_items db)) of
        [] \<Rightarrow> 1 | i # is \<Rightarrow> foldl max i is + 1)"

definition AddChecklistItem :: "string \<Rightarrow> string \<Rightarrow> int \<Rightarrow> work_db \<Rightarrow> (store_failure + int) \<times> work_db" where
  "AddChecklistItem tid content now db =
     (if \<not> has_task db tid then (Inl Constraint, db)
      else let i = next_item_id db tid in
        (Inr i, touch tid now (db\<lparr>db_items := db_items db @ [(tid, \<lparr>ci_id = i, ci_content = content,
           ci_status = ''pending'', ci_verify = \<lparr>cd_kind = ConditionNone, cd_target = []\<rparr>\<rparr>)]\<rparr>)))"

definition PatchChecklistItem :: "string \<Rightarrow> int \<Rightarrow> string \<Rightarrow> string \<Rightarrow> int \<Rightarrow> work_db
    \<Rightarrow> (store_failure + unit) \<times> work_db" where
  "PatchChecklistItem tid iid content st now db =
     (let hit = (\<lambda>p. fst p = tid \<and> ci_id (snd p) = iid) in
      if length (filter hit (db_items db)) \<noteq> 1 then (Inl Item_missing, db)
      else (Inr (), touch tid now (db\<lparr>db_items := map (\<lambda>p. if hit p
              then (tid, (snd p)\<lparr>ci_content := (if content = [] then ci_content (snd p) else content),
                                 ci_status := (if st = [] then ci_status (snd p) else st)\<rparr>)
              else p) (db_items db)\<rparr>)))"

text \<open>\<open>INSERT OR REPLACE\<close>: the row of the same gate is deleted and the new one inserted.\<close>

definition RecordGate :: "string \<Rightarrow> evidence \<Rightarrow> work_db \<Rightarrow> (store_failure + unit) \<times> work_db" where
  "RecordGate tid ev db =
     (if \<not> has_task db tid then (Inl Constraint, db)
      else (Inr (), add_timeline tid \<lparr>te_at = ev_recorded ev, te_kind = ''gate'',
               te_summary = ev_gate ev @ '': '' @ ev_classification ev, te_detail = []\<rparr>
             (db\<lparr>db_gates := filter (\<lambda>p. \<not> (fst p = tid \<and> ev_gate (snd p) = ev_gate ev)) (db_gates db)
                   @ [(tid, ev)]\<rparr>)))"

definition PutArtifact :: "artifact \<Rightarrow> work_db \<Rightarrow> (store_failure + unit) \<times> work_db" where
  "PutArtifact a db =
     (if \<not> has_task db (ar_task a) \<or> ar_id a \<in> ar_id ` set (db_artifacts db) then (Inl Constraint, db)
      else (Inr (), db\<lparr>db_artifacts := db_artifacts db @ [a]\<rparr>))"

definition GetArtifact :: "string \<Rightarrow> work_db \<Rightarrow> store_failure + artifact" where
  "GetArtifact aid db = (case find (\<lambda>a. ar_id a = aid) (db_artifacts db) of None \<Rightarrow> Inl No_rows | Some a \<Rightarrow> Inr a)"

definition ArtifactBytes :: "string \<Rightarrow> work_db \<Rightarrow> int" where
  "ArtifactBytes tid db = sum_list (map ar_size (filter (\<lambda>a. ar_task a = tid) (db_artifacts db)))"

definition DeleteArtifactsBefore :: "int \<Rightarrow> work_db \<Rightarrow> string list \<times> work_db" where
  "DeleteArtifactsBefore before db =
     (map ar_ref (filter (\<lambda>a. ar_created a < before) (db_artifacts db)),
      db\<lparr>db_artifacts := filter (\<lambda>a. \<not> ar_created a < before) (db_artifacts db)\<rparr>)"

definition runningIDs :: "work_db \<Rightarrow> string list" where
  "runningIDs db = map wr_id (sort_key wr_created (filter (\<lambda>r. wr_status r = Running) (db_tasks db)))"

end
