(* ===== verification/Utf8.thy ===== *)
theory Utf8
  imports Prelude
begin

text \<open>
  Go's view of a byte string as runes: \<open>for range\<close>, \<open>[]rune(s)\<close> and
  \<open>utf8.RuneCountInString\<close> decode one rune at a time, and a byte that starts no valid
  encoding is one rune of width 1 (\<open>U+FFFD\<close>).  A rune is kept as its UTF-8 encoding.
\<close>

definition in_range :: "int \<Rightarrow> int \<Rightarrow> char \<Rightarrow> bool" where
  "in_range lo hi c \<longleftrightarrow> lo \<le> byte c \<and> byte c \<le> hi"

abbreviation continuation :: "char \<Rightarrow> bool" where
  "continuation \<equiv> in_range 0x80 0xBF"

definition replacement_rune :: string where
  "replacement_rune = [CHR 0xEF, CHR 0xBF, CHR 0xBD]"

text \<open>The range of the second byte, by the first one, and the width of the encoding.\<close>

definition lead :: "char \<Rightarrow> nat \<times> int \<times> int" where
  "lead c =
     (if byte c < 0x80 then (1, 0, 0)
      else if in_range 0xC2 0xDF c then (2, 0x80, 0xBF)
      else if byte c = 0xE0 then (3, 0xA0, 0xBF)
      else if byte c = 0xED then (3, 0x80, 0x9F)
      else if in_range 0xE1 0xEF c then (3, 0x80, 0xBF)
      else if byte c = 0xF0 then (4, 0x90, 0xBF)
      else if in_range 0xF1 0xF3 c then (4, 0x80, 0xBF)
      else if byte c = 0xF4 then (4, 0x80, 0x8F)
      else (0, 0, 0))"

text \<open>The width of the valid encoding at the front of \<open>c # s\<close>, 0 when there is none.\<close>

definition valid_width :: "char \<Rightarrow> string \<Rightarrow> nat" where
  "valid_width c s =
     (case lead c of (n, lo, hi) \<Rightarrow>
        if n \<le> 1 then n
        else if n - 1 \<le> length s \<and> in_range lo hi (s ! 0) \<and> list_all continuation (take (n - 2) (drop 1 s)) then n
        else 0)"

text \<open>One rune off the front: its encoding (replaced when invalid) and the rest.\<close>

definition next_rune :: "char \<Rightarrow> string \<Rightarrow> string \<times> string" where
  "next_rune c s =
     (case valid_width c s of 0 \<Rightarrow> (replacement_rune, s) | Suc k \<Rightarrow> (c # take k s, drop k s))"

lemma next_rune_shorter: "length (snd (next_rune c s)) \<le> length s"
  by (simp add: next_rune_def split: nat.split)

lemma next_rune_rest: "(r, rest) = next_rune c s \<Longrightarrow> length rest \<le> length s"
  using next_rune_shorter [of c s] by (metis snd_conv)

function runes :: "string \<Rightarrow> string list" where
  "runes [] = []"
| "runes (c # s) = (case next_rune c s of (r, rest) \<Rightarrow> r # runes rest)"
  by pat_completeness auto
termination
  by (relation "measure length") (auto dest: next_rune_rest)

text \<open>\<open>utf8.RuneCountInString\<close>; \<open>string(rs)\<close> of a rune slice is \<^const>\<open>concat\<close>.\<close>

definition rune_count :: "string \<Rightarrow> nat" where
  "rune_count s = length (runes s)"

text \<open>A valid encoding is decoded as one rune, whatever follows it.\<close>

definition is_rune :: "string \<Rightarrow> bool" where
  "is_rune r \<longleftrightarrow> (\<exists>c k. r = c # k \<and> valid_width c k = Suc (length k))"

lemma valid_width_append:
  assumes "valid_width c k = Suc (length k)"
  shows "valid_width c (k @ s) = Suc (length k)"
proof (cases "lead c")
  case (fields n lo hi)
  show ?thesis
  proof (cases "n \<le> 1")
    case True
    with fields assms show ?thesis by (simp add: valid_width_def)
  next
    case False
    with fields assms have "n = Suc (length k)" "k \<noteq> []" "in_range lo hi (k ! 0)"
        "list_all continuation (take (n - 2) (drop 1 k))"
      by (auto simp: valid_width_def split: if_splits)
    moreover from this have "take (n - 2) (drop 1 (k @ s)) = take (n - 2) (drop 1 k)" by (cases k) simp_all
    ultimately show ?thesis using fields False by (simp add: valid_width_def nth_append)
  qed
qed

lemma valid_width_take:
  assumes "valid_width c s = Suc n"
  shows "valid_width c (take n s) = Suc n \<and> n \<le> length s"
proof (cases "lead c")
  case (fields m lo hi)
  show ?thesis
  proof (cases "m \<le> 1")
    case True
    with fields assms show ?thesis by (simp add: valid_width_def)
  next
    case False
    with fields assms have "m = Suc n" "n \<le> length s" "in_range lo hi (s ! 0)"
        "list_all continuation (take (m - 2) (drop 1 s))"
      by (auto simp: valid_width_def split: if_splits)
    moreover from this False have "take (m - 2) (drop 1 (take n s)) = take (m - 2) (drop 1 s)"
      by (simp add: drop_take)
    ultimately show ?thesis using fields False by (simp add: valid_width_def)
  qed
qed

lemma replacement_is_rune: "is_rune replacement_rune"
proof -
  have "valid_width (CHR 0xEF) [CHR 0xBF, CHR 0xBD] = 3" by code_simp
  then show ?thesis by (auto simp: is_rune_def replacement_rune_def)
qed

lemma next_rune_is_rune: "is_rune (fst (next_rune c s))"
proof (cases "valid_width c s")
  case 0
  then show ?thesis by (simp add: next_rune_def replacement_is_rune)
next
  case (Suc n)
  then show ?thesis using valid_width_take [OF Suc] by (auto simp: next_rune_def is_rune_def)
qed

lemma runes_are_runes: "r \<in> set (runes s) \<Longrightarrow> is_rune r"
proof (induction s rule: runes.induct)
  case (2 c s)
  obtain q rest where q: "next_rune c s = (q, rest)" by fastforce
  with next_rune_is_rune [of c s] 2 show ?case by auto
qed simp

lemma runes_rune_append: "is_rune r \<Longrightarrow> runes (r @ s) = r # runes s"
  by (auto simp: is_rune_def next_rune_def valid_width_append)

lemma runes_concat: "list_all is_rune rs \<Longrightarrow> runes (concat rs) = rs"
  by (induction rs) (simp_all add: runes_rune_append)

text \<open>Cutting after any number of runes never splits one.\<close>

lemma runes_take: "runes (concat (take n (runes s))) = take n (runes s)"
proof (rule runes_concat)
  show "list_all is_rune (take n (runes s))"
    using runes_are_runes set_take_subset [of n "runes s"] by (auto simp: list_all_iff)
qed

end
