(* ===== verification/WorkManager.thy ===== *)
theory WorkManager
  imports WorkStore Utf8
begin

text \<open>
  The manager of durable tasks (\<open>internal/task/work/manager.go\<close>), its completion gate
  (\<open>checklistgate.go\<close>), and the two halves of \<open>lifecycle.go\<close>: the mirror that carries the
  broker's transitions into the durable rows, and the recovery after a restart.  The
  dispatcher is an argument, an interface with a state of its own; \<open>None\<close> is the nil
  dispatcher.  Whether a path below the verification root names an existing file
  (\<open>SecureArtifactPath\<close> and \<open>os.Stat\<close>) is an argument too.  Random ids and times are passed
  in.
\<close>

subsection \<open>Texts\<close>

definition ellipsis :: string where
  "ellipsis = [CHR 0xE2, CHR 0x80, CHR 0xA6]"

definition truncate_text :: "string \<Rightarrow> int \<Rightarrow> string" where
  "truncate_text s n =
     (if n \<le> 0 then ellipsis
      else if int (rune_count s) \<le> n then s
      else concat (take (nat n) (runes s)) @ ellipsis)"

fun join_with :: "string \<Rightarrow> string list \<Rightarrow> string" where
  "join_with sep [] = []"
| "join_with sep [s] = s"
| "join_with sep (s # t # ss) = s @ sep @ join_with sep (t # ss)"

definition summarizeArtifact :: "string \<Rightarrow> string" where
  "summarizeArtifact content =
     (if CHR 0x00 \<in> set content then ''(binary)''
      else let first = takeWhile (\<lambda>c. c \<noteq> newline_c) content; trimmed = trim_space first
        in if trimmed = [] then ''(empty)''
           else if rune_count trimmed \<le> 120 then trimmed
           else concat (take 120 (runes trimmed)))"

definition summaryOf :: "work_task \<Rightarrow> work_summary" where
  "summaryOf t = \<lparr>su_id = wr_id t, su_title = wr_title t, su_status = wr_status t,
     su_thread = wr_thread t, su_turn = wr_turn t, su_pct = CompletionPct (wt_checklist t),
     su_gates = int (length (wt_gates t)), su_created = wr_created t, su_updated = wr_updated t\<rparr>"

subsection \<open>The completion gate\<close>

definition IsSet :: "condition \<Rightarrow> bool" where
  "IsSet c \<longleftrightarrow> cd_kind c \<noteq> ConditionNone \<and> trim_space (cd_target c) \<noteq> []"

text \<open>\<open>file_ok root target\<close>: the target names an existing path inside the root.\<close>

definition conditionSatisfied :: "(string \<Rightarrow> string \<Rightarrow> bool) \<Rightarrow> condition \<Rightarrow> string \<Rightarrow> evidence list \<Rightarrow> bool" where
  "conditionSatisfied file_ok c root gates =
     (case cd_kind c of
        ConditionFileExists \<Rightarrow> root \<noteq> [] \<and> file_ok root (cd_target c)
      | ConditionGatePassed \<Rightarrow>
          (case find (\<lambda>ev. ev_gate ev = cd_target c) gates of None \<Rightarrow> False | Some ev \<Rightarrow> ev_exit ev = 0)
      | _ \<Rightarrow> False)"

definition verify_item :: "(string \<Rightarrow> string \<Rightarrow> bool) \<Rightarrow> string \<Rightarrow> evidence list \<Rightarrow> checklist_item \<Rightarrow> checklist_item" where
  "verify_item file_ok root gates i =
     (if \<not> IsSet (ci_verify i) then i
      else if conditionSatisfied file_ok (ci_verify i) root gates then i\<lparr>ci_status := ''done''\<rparr>
      else i\<lparr>ci_status := ''pending''\<rparr>)"

definition VerifyChecklist :: "(string \<Rightarrow> string \<Rightarrow> bool) \<Rightarrow> checklist_item list \<Rightarrow> string \<Rightarrow> evidence list
    \<Rightarrow> checklist_item list" where
  "VerifyChecklist file_ok items root gates = map (verify_item file_ok root gates) items"

definition UnmetItems :: "checklist_item list \<Rightarrow> checklist_item list" where
  "UnmetItems items = filter (\<lambda>i. ci_status i \<noteq> ''done'') items"

definition UnmetSummary :: "checklist_item list \<Rightarrow> string" where
  "UnmetSummary items =
     (let unmet = UnmetItems items in
      if unmet = [] then []
      else itoa (int (length unmet)) @ '' unmet: ''
           @ join_with ''; '' (map (\<lambda>i. ''#'' @ itoa (ci_id i) @ '' '' @ ci_content i) unmet))"

definition checklistGate :: "(string \<Rightarrow> string \<Rightarrow> bool) \<Rightarrow> checklist_item list \<Rightarrow> string \<Rightarrow> evidence list
    \<Rightarrow> checklist_item list \<times> string" where
  "checklistGate file_ok items root gates =
     (let v = VerifyChecklist file_ok items root gates in (v, UnmetSummary v))"

definition incompleteNote :: "string \<Rightarrow> string" where
  "incompleteNote summary = ''completion refused: checklist '' @ summary"

subsection \<open>The manager\<close>

datatype work_error =
    Title_and_prompt_required
  | Store_error store_failure
  | Dispatcher_unavailable bool
  | Dispatch_failed string bool
  | Finish_status
  | Checklist_incomplete string bool
  | Cancel_broker_failed string

text \<open>The flag of a dispatch error says that the timeline entry could not be written either.\<close>

record create_req =
  rq_title :: string
  rq_prompt :: string
  rq_thread :: string
  rq_turn :: string
  rq_dispatch :: bool

type_synonym 'd submitter = "string \<Rightarrow> string \<Rightarrow> string \<Rightarrow> 'd \<Rightarrow> (string + string) \<times> 'd"
type_synonym 'd canceller = "string \<Rightarrow> 'd \<Rightarrow> (string + unit) \<times> 'd"

definition new_work_task :: "string \<Rightarrow> int \<Rightarrow> create_req \<Rightarrow> work_task" where
  "new_work_task tid now q = \<lparr>wr_id = tid, wr_title = rq_title q, wr_prompt = rq_prompt q,
     wr_status = Pending, wr_thread = rq_thread q, wr_turn = rq_turn q, wr_broker = [],
     wr_created = now, wr_updated = now, wt_checklist = [], wt_gates = [], wt_artifacts = [],
     wt_timeline = [\<lparr>te_at = now, te_kind = ''created'', te_summary = truncate_text (rq_title q) 160,
                     te_detail = []\<rparr>]\<rparr>"

definition dispatch_note :: "string \<Rightarrow> int \<Rightarrow> timeline_entry" where
  "dispatch_note err now =
     \<lparr>te_at = now, te_kind = ''dispatch_failed'', te_summary = truncate_text err 240, te_detail = []\<rparr>"

definition read_back :: "string \<Rightarrow> work_db \<Rightarrow> work_task option \<times> work_error option" where
  "read_back tid db = (case store_get tid db of Inl e \<Rightarrow> (None, Some (Store_error e)) | Inr t \<Rightarrow> (Some t, None))"

definition failed_step :: "(store_failure + 'a) \<Rightarrow> bool" where
  "failed_step r = (case r of Inl _ \<Rightarrow> True | Inr _ \<Rightarrow> False)"

text \<open>The answer is the pair of Go's \<open>(*WorkTask, error)\<close>: a failed dispatch returns both.\<close>

definition Create :: "string \<Rightarrow> int \<Rightarrow> create_req \<Rightarrow> 'd submitter option \<Rightarrow> work_db \<times> 'd
    \<Rightarrow> (work_task option \<times> work_error option) \<times> work_db \<times> 'd" where
  "Create tid now q submit st =
     (case st of (db, d) \<Rightarrow>
      if trim_space (rq_title q) = [] \<or> trim_space (rq_prompt q) = []
      then ((None, Some Title_and_prompt_required), db, d)
      else let w = new_work_task tid now q in
       case store_create w db of
         (Inl e, db1) \<Rightarrow> ((None, Some (Store_error e)), db1, d)
       | (Inr _, db1) \<Rightarrow>
           if \<not> rq_dispatch q then (read_back tid db1, db1, d)
           else case submit of
             None \<Rightarrow>
               (case AppendTimeline tid (dispatch_note ''dispatcher unavailable'' now) db1 of
                  (r, db2) \<Rightarrow> ((Some w, Some (Dispatcher_unavailable (failed_step r))), db2, d))
           | Some sub \<Rightarrow>
               (case sub ''work_task'' (rq_prompt q) tid d of
                  (Inl err, d1) \<Rightarrow>
                    (case AppendTimeline tid (dispatch_note err now) db1 of
                       (r, db2) \<Rightarrow> ((Some w, Some (Dispatch_failed err (failed_step r))), db2, d1))
                | (Inr bid, d1) \<Rightarrow>
                    (case AttachBrokerTask tid bid now db1 of
                       (Inl e, db2) \<Rightarrow> ((Some w, Some (Store_error e)), db2, d1)
                     | (Inr _, db2) \<Rightarrow> (read_back tid db2, db2, d1))))"

definition lift_store :: "(store_failure + 'a) \<times> work_db \<Rightarrow> (work_error + 'a) \<times> work_db" where
  "lift_store r = (case r of (Inl e, db) \<Rightarrow> (Inl (Store_error e), db) | (Inr x, db) \<Rightarrow> (Inr x, db))"

definition Start :: "string \<Rightarrow> int \<Rightarrow> work_db \<Rightarrow> (work_error + unit) \<times> work_db" where
  "Start tid now db = lift_store (Transition tid Running ''started'' ''task started'' now db)"

definition gateCompletion :: "(string \<Rightarrow> string \<Rightarrow> bool) \<Rightarrow> string \<Rightarrow> string \<Rightarrow> int \<Rightarrow> work_db
    \<Rightarrow> (work_error + unit) \<times> work_db" where
  "gateCompletion file_ok root tid now db =
     (case store_get tid db of
        Inl e \<Rightarrow> (Inl (Store_error e), db)
      | Inr t \<Rightarrow>
          if wt_checklist t = [] then (Inr (), db)
          else case checklistGate file_ok (wt_checklist t) root (wt_gates t) of
            (verified, unmet) \<Rightarrow>
              (case SetChecklist tid verified now db of
                 (Inl e, db1) \<Rightarrow> (Inl (Store_error e), db1)
               | (Inr _, db1) \<Rightarrow>
                   if unmet = [] then (Inr (), db1)
                   else case AppendTimeline tid \<lparr>te_at = now, te_kind = ''completion_blocked'',
                              te_summary = truncate_text (incompleteNote unmet) 240, te_detail = []\<rparr> db1 of
                     (r, db2) \<Rightarrow> (Inl (Checklist_incomplete unmet (failed_step r)), db2)))"

definition Finish :: "(string \<Rightarrow> string \<Rightarrow> bool) \<Rightarrow> string \<Rightarrow> string \<Rightarrow> status \<Rightarrow> string \<Rightarrow> int \<Rightarrow> work_db
    \<Rightarrow> (work_error + unit) \<times> work_db" where
  "Finish file_ok root tid st note now db =
     (if st \<noteq> Completed \<and> st \<noteq> Failed then (Inl Finish_status, db)
      else case (if st = Completed then gateCompletion file_ok root tid now db else (Inr (), db)) of
        (Inl e, db1) \<Rightarrow> (Inl e, db1)
      | (Inr _, db1) \<Rightarrow> lift_store (Transition tid st ''finished'' (truncate_text note 240) now db1))"

definition Cancel :: "string \<Rightarrow> string \<Rightarrow> int \<Rightarrow> 'd canceller option \<Rightarrow> work_db \<times> 'd
    \<Rightarrow> (work_error + work_task) \<times> work_db \<times> 'd" where
  "Cancel tid by_whom now cancel st =
     (case st of (db, d) \<Rightarrow>
      (case store_get tid db of
         Inl e \<Rightarrow> (Inl (Store_error e), db, d)
       | Inr t \<Rightarrow>
           (case (if wr_broker t \<noteq> [] then (case cancel of None \<Rightarrow> (Inr (), d) | Some c \<Rightarrow> c (wr_broker t) d)
                  else (Inr (), d)) of
              (Inl err, d1) \<Rightarrow> (Inl (Cancel_broker_failed err), db, d1)
            | (Inr _, d1) \<Rightarrow>
                (case Transition tid Cancelled ''cancelled'' (''cancelled by '' @ by_whom) now db of
                   (Inl e, db1) \<Rightarrow> (Inl (Store_error e), db1, d1)
                 | (Inr _, db1) \<Rightarrow>
                     (case store_get tid db1 of
                        Inl e \<Rightarrow> (Inl (Store_error e), db1, d1)
                      | Inr t1 \<Rightarrow> (Inr t1, db1, d1))))))"

text \<open>The three checklist operations of the manager: the statement, then the task read back.\<close>

definition read_after :: "string \<Rightarrow> (store_failure + 'a) \<times> work_db \<Rightarrow> (work_error + work_task) \<times> work_db" where
  "read_after tid r =
     (case r of
        (Inl e, db) \<Rightarrow> (Inl (Store_error e), db)
      | (Inr _, db) \<Rightarrow> (case store_get tid db of Inl e \<Rightarrow> (Inl (Store_error e), db) | Inr t \<Rightarrow> (Inr t, db)))"

definition mgr_set_checklist :: "string \<Rightarrow> checklist_item list \<Rightarrow> int \<Rightarrow> work_db \<Rightarrow> (work_error + work_task) \<times> work_db" where
  "mgr_set_checklist tid items now db = read_after tid (SetChecklist tid items now db)"

definition mgr_add_item :: "string \<Rightarrow> string \<Rightarrow> int \<Rightarrow> work_db \<Rightarrow> (work_error + work_task) \<times> work_db" where
  "mgr_add_item tid content now db = read_after tid (AddChecklistItem tid content now db)"

definition mgr_patch_item :: "string \<Rightarrow> int \<Rightarrow> string \<Rightarrow> string \<Rightarrow> int \<Rightarrow> work_db \<Rightarrow> (work_error + work_task) \<times> work_db" where
  "mgr_patch_item tid iid content st now db = read_after tid (PatchChecklistItem tid iid content st now db)"

subsection \<open>The mirror of the broker's transitions\<close>

text \<open>What \<open>report\<close> makes of an error: nothing for an illegal transition, a warning otherwise.\<close>

datatype report_outcome = Transitioned | Ignored | Reported work_error

definition report :: "(work_error + unit) \<Rightarrow> report_outcome" where
  "report r = (case r of Inr _ \<Rightarrow> Transitioned | Inl (Store_error (Illegal _)) \<Rightarrow> Ignored | Inl e \<Rightarrow> Reported e)"

definition mirror_running :: "string \<Rightarrow> int \<Rightarrow> work_db \<Rightarrow> report_outcome \<times> work_db" where
  "mirror_running tid now db = (case Start tid now db of (r, db1) \<Rightarrow> (report r, db1))"

definition mirror_terminal :: "(string \<Rightarrow> string \<Rightarrow> bool) \<Rightarrow> string \<Rightarrow> string \<Rightarrow> string \<Rightarrow> string \<Rightarrow> int \<Rightarrow> work_db
    \<Rightarrow> report_outcome \<times> work_db" where
  "mirror_terminal file_ok root tid st note now db =
     (let final = (if st = ''completed'' then Completed else Failed);
          note' = (if st = ''timeout'' \<and> note = [] then ''worker timed out'' else note)
      in case Finish file_ok root tid final note' now db of (r, db1) \<Rightarrow> (report r, db1))"

definition mirror_requeued :: "string \<Rightarrow> int \<Rightarrow> work_db \<Rightarrow> report_outcome \<times> work_db" where
  "mirror_requeued tid now db =
     (case lift_store (Transition tid Pending ''requeued'' ''attempt failed; returned to the queue'' now db) of
        (r, db1) \<Rightarrow> (report r, db1))"

subsection \<open>Recovery after a restart\<close>

text \<open>
  The loop over the ids: a row that has gone or that has ended meanwhile is skipped, any
  other failure stops the loop and is returned with the number of rows moved so far.
\<close>

fun recover_loop :: "string list \<Rightarrow> int \<Rightarrow> int \<Rightarrow> work_db \<Rightarrow> (int \<times> store_failure option) \<times> work_db" where
  "recover_loop [] moved now db = ((moved, None), db)"
| "recover_loop (tid # ids) moved now db =
     (case Transition tid Pending ''recovered'' ''process restarted while this task was running'' now db of
        (Inr _, db1) \<Rightarrow> recover_loop ids (moved + 1) now db1
      | (Inl No_rows, db1) \<Rightarrow> recover_loop ids moved now db1
      | (Inl (Illegal _), db1) \<Rightarrow> recover_loop ids moved now db1
      | (Inl e, db1) \<Rightarrow> ((moved, Some e), db1))"

definition RecoverInterrupted :: "int \<Rightarrow> work_db \<Rightarrow> (int \<times> store_failure option) \<times> work_db" where
  "RecoverInterrupted now db = recover_loop (runningIDs db) 0 now db"

subsection \<open>The dispatcher\<close>

text \<open>\<open>DispatcherRef\<close>: a dispatcher that is bound later; until then both calls are errors.\<close>

definition ref_submit :: "'d submitter option \<Rightarrow> 'd submitter" where
  "ref_submit bound kind inp parent d =
     (case bound of None \<Rightarrow> (Inl ''work: dispatcher unavailable'', d) | Some f \<Rightarrow> f kind inp parent d)"

definition ref_cancel :: "'d canceller option \<Rightarrow> 'd canceller" where
  "ref_cancel bound bid d =
     (case bound of None \<Rightarrow> (Inl ''work: dispatcher unavailable'', d) | Some f \<Rightarrow> f bid d)"

end
