(* ===== verification/TaskStore.thy ===== *)
theory TaskStore
  imports Prelude
begin

text \<open>
  The durable queue of tasks: the table \<open>tasks\<close> and the statements of
  \<open>internal/store/task.go\<close> over it.  A table is the list of its rows in the order they
  were inserted.  Every statement runs in a write transaction, so each operation here is
  one atomic step; the clock (\<open>time.Now().Unix()\<close>) and the random tid are arguments.  The
  database is taken to execute its statements: the only engine error modelled is the
  violation of the primary key.  \<open>table_step\<close> at the end is one statement issued by
  anyone, so an invariant of \<open>table_step\<close> holds under every interleaving of goroutines and
  processes on the same database.
\<close>

subsection \<open>Rows and statements\<close>

record task =
  tk_id :: string
  tk_type :: string
  tk_input :: string
  tk_status :: string
  tk_assigned :: string
  tk_result :: string
  tk_parent :: string
  tk_created :: int
  tk_updated :: int
  tk_deadline :: int
  tk_attempts :: int
  tk_worktree :: string

datatype store_error =
    Constraint_violation
  | Task_not_found
  | Not_pending
  | Not_running_or_owned
  | Not_cancellable

text \<open>\<open>UPDATE tasks SET f WHERE P\<close>: the new table and \<open>RowsAffected\<close>.\<close>

definition update_where :: "(task \<Rightarrow> bool) \<Rightarrow> (task \<Rightarrow> task) \<Rightarrow> task list \<Rightarrow> task list \<times> nat" where
  "update_where P f ts = (map (\<lambda>t. if P t then f t else t) ts, length (filter P ts))"

text \<open>A guarded update inside \<open>WriteTx\<close>: no row affected is an error, and rolls back.\<close>

definition guarded :: "store_error \<Rightarrow> (task \<Rightarrow> bool) \<Rightarrow> (task \<Rightarrow> task) \<Rightarrow> task list
    \<Rightarrow> (store_error + unit) \<times> task list" where
  "guarded e P f ts =
     (let (ts', n) = update_where P f ts in if n = 0 then (Inl e, ts) else (Inr (), ts'))"

definition CreateTask :: "string \<Rightarrow> int \<Rightarrow> string \<Rightarrow> string \<Rightarrow> string \<Rightarrow> task list
    \<Rightarrow> (store_error + string) \<times> task list" where
  "CreateTask tid now kind inp parent ts =
     (if tid \<in> tk_id ` set ts then (Inl Constraint_violation, ts)
      else (Inr tid, ts @ [\<lparr>tk_id = tid, tk_type = kind, tk_input = inp, tk_status = ''pending'',
              tk_assigned = [], tk_result = [], tk_parent = parent, tk_created = now,
              tk_updated = now, tk_deadline = 0, tk_attempts = 0, tk_worktree = []\<rparr>]))"

definition SetTaskWorktree :: "string \<Rightarrow> string \<Rightarrow> task list \<Rightarrow> (store_error + unit) \<times> task list" where
  "SetTaskWorktree tid wt = guarded Task_not_found (\<lambda>t. tk_id t = tid) (\<lambda>t. t\<lparr>tk_worktree := wt\<rparr>)"

definition ClaimTask :: "string \<Rightarrow> string \<Rightarrow> int \<Rightarrow> task list \<Rightarrow> (store_error + unit) \<times> task list" where
  "ClaimTask tid worker now = guarded Not_pending
     (\<lambda>t. tk_id t = tid \<and> tk_status t = ''pending'')
     (\<lambda>t. t\<lparr>tk_status := ''running'', tk_assigned := worker, tk_updated := now\<rparr>)"

definition SetTaskResult :: "string \<Rightarrow> string \<Rightarrow> string \<Rightarrow> int \<Rightarrow> task list
    \<Rightarrow> (store_error + unit) \<times> task list" where
  "SetTaskResult tid status res now = guarded Task_not_found (\<lambda>t. tk_id t = tid)
     (\<lambda>t. t\<lparr>tk_status := status, tk_result := res, tk_updated := now\<rparr>)"

definition GetTask :: "string \<Rightarrow> task list \<Rightarrow> store_error + task" where
  "GetTask tid ts = (case find (\<lambda>t. tk_id t = tid) ts of None \<Rightarrow> Inl Task_not_found | Some t \<Rightarrow> Inr t)"

definition TouchTask :: "string \<Rightarrow> int \<Rightarrow> task list \<Rightarrow> (store_error + unit) \<times> task list" where
  "TouchTask tid now = guarded Task_not_found (\<lambda>t. tk_id t = tid) (\<lambda>t. t\<lparr>tk_updated := now\<rparr>)"

definition ListStaleRunning :: "int \<Rightarrow> task list \<Rightarrow> task list" where
  "ListStaleRunning before ts =
     sort_key tk_created (filter (\<lambda>t. tk_status t = ''running'' \<and> tk_updated t < before) ts)"

definition RequeueTask :: "string \<Rightarrow> string \<Rightarrow> int \<Rightarrow> task list \<Rightarrow> (store_error + unit) \<times> task list" where
  "RequeueTask tid worker now = guarded Not_running_or_owned
     (\<lambda>t. tk_id t = tid \<and> tk_status t = ''running'' \<and> tk_assigned t = worker)
     (\<lambda>t. t\<lparr>tk_status := ''pending'', tk_result := [], tk_assigned := [],
            tk_attempts := tk_attempts t + 1, tk_updated := now\<rparr>)"

definition FinalizeTask :: "string \<Rightarrow> string \<Rightarrow> string \<Rightarrow> string \<Rightarrow> int \<Rightarrow> task list
    \<Rightarrow> (store_error + unit) \<times> task list" where
  "FinalizeTask tid worker status res now = guarded Not_running_or_owned
     (\<lambda>t. tk_id t = tid \<and> tk_status t = ''running'' \<and> tk_assigned t = worker)
     (\<lambda>t. t\<lparr>tk_status := status, tk_result := res, tk_updated := now\<rparr>)"

definition IncrementAttempts :: "string \<Rightarrow> task list \<Rightarrow> (store_error + unit) \<times> task list" where
  "IncrementAttempts tid = guarded Task_not_found (\<lambda>t. tk_id t = tid)
     (\<lambda>t. t\<lparr>tk_attempts := tk_attempts t + 1\<rparr>)"

text \<open>\<open>CancelTask\<close> asks for exactly one affected row.\<close>

definition CancelTask :: "string \<Rightarrow> int \<Rightarrow> task list \<Rightarrow> (store_error + unit) \<times> task list" where
  "CancelTask tid now ts =
     (let (ts', n) = update_where (\<lambda>t. tk_id t = tid \<and> tk_status t \<in> {''pending'', ''running''})
                       (\<lambda>t. t\<lparr>tk_status := ''cancelled'', tk_updated := now\<rparr>) ts
      in if n \<noteq> 1 then (Inl Not_cancellable, ts) else (Inr (), ts'))"

text \<open>The stale requeue is one statement: its guard re-reads the row it was found stale by.\<close>

definition requeued_stale :: "int \<Rightarrow> int \<Rightarrow> task \<Rightarrow> task" where
  "requeued_stale max_retries now t = t\<lparr>
     tk_attempts := tk_attempts t + 1,
     tk_status := (if tk_attempts t + 1 > max_retries then ''failed'' else ''pending''),
     tk_assigned := [],
     tk_result := (if tk_attempts t + 1 > max_retries then tk_result t else []),
     tk_updated := now\<rparr>"

definition RequeueStaleTask :: "string \<Rightarrow> int \<Rightarrow> int \<Rightarrow> int \<Rightarrow> task list \<Rightarrow> bool \<times> task list" where
  "RequeueStaleTask tid cutoff max_retries now ts =
     (let (ts', n) = update_where
            (\<lambda>t. tk_id t = tid \<and> tk_status t = ''running'' \<and> tk_updated t < cutoff)
            (requeued_stale max_retries now) ts
      in (n > 0, ts'))"

text \<open>\<open>ORDER BY created_at ASC LIMIT n\<close>: a negative limit is no limit in SQLite.\<close>

definition ListPending :: "int \<Rightarrow> task list \<Rightarrow> task list" where
  "ListPending limit ts =
     (let rows = sort_key tk_created (filter (\<lambda>t. tk_status t = ''pending'') ts)
      in if limit < 0 then rows else take (nat limit) rows)"

subsection \<open>What a statement does to one row\<close>

lemma update_where_simps [simp]:
  "fst (update_where P f ts) = map (\<lambda>t. if P t then f t else t) ts"
  "snd (update_where P f ts) = 0 \<longleftrightarrow> (\<forall>t \<in> set ts. \<not> P t)"
  by (simp_all add: update_where_def filter_empty_conv)

lemma guarded_iff:
  "guarded e P f ts =
     (if \<exists>t \<in> set ts. P t then (Inr (), map (\<lambda>t. if P t then f t else t) ts) else (Inl e, ts))"
  by (auto simp: guarded_def update_where_def filter_empty_conv)

text \<open>The table of a guarded statement is the pointwise update on either outcome.\<close>

lemma guarded_table: "snd (guarded e P f ts) = map (\<lambda>t. if P t then f t else t) ts"
  by (auto simp: guarded_iff intro: map_idI [symmetric])

lemma guarded_ok: "fst (guarded e P f ts) = Inr () \<longleftrightarrow> (\<exists>t \<in> set ts. P t)"
  by (simp add: guarded_iff)

definition unique_ids :: "task list \<Rightarrow> bool" where
  "unique_ids ts \<longleftrightarrow> distinct (map tk_id ts)"

abbreviation row :: "task list \<Rightarrow> string \<Rightarrow> task option" where
  "row ts tid \<equiv> find (\<lambda>t. tk_id t = tid) ts"

lemma row_Some: "unique_ids ts \<Longrightarrow> row ts tid = Some t \<longleftrightarrow> t \<in> set ts \<and> tk_id t = tid"
  by (induction ts) (auto simp: unique_ids_def)

lemma row_None: "row ts tid = None \<longleftrightarrow> tid \<notin> tk_id ` set ts"
  by (auto simp: find_None_iff)

lemma row_id: "row ts tid = Some t \<Longrightarrow> tk_id t = tid"
  by (auto simp: find_Some_iff)

lemma row_in: "row ts tid = Some t \<Longrightarrow> t \<in> set ts"
  by (auto simp: find_Some_iff)

lemma row_map:
  "(\<And>t. tk_id (g t) = tk_id t) \<Longrightarrow> row (map g ts) tid = map_option g (row ts tid)"
  by (induction ts) auto

lemma find_append: "find P (xs @ ys) = (case find P xs of None \<Rightarrow> find P ys | Some x \<Rightarrow> Some x)"
  by (induction xs) auto

lemma unique_ids_map: "(\<And>t. tk_id (g t) = tk_id t) \<Longrightarrow> unique_ids (map g ts) = unique_ids ts"
  by (simp add: unique_ids_def comp_def)

text \<open>Cancelling affects at most one row of a table with unique ids.\<close>

lemma row_absent [simp]: "tid \<notin> tk_id ` set ts \<Longrightarrow> row ts tid = None"
  by (simp add: row_None)

lemma filter_unique:
  "unique_ids ts \<Longrightarrow> length (filter (\<lambda>t. tk_id t = tid \<and> Q t) ts)
    = (case row ts tid of None \<Rightarrow> 0 | Some t \<Rightarrow> if Q t then 1 else 0)"
proof (induction ts)
  case (Cons t ts)
  have "filter (\<lambda>u. tk_id u = tk_id t \<and> Q u) ts = []" if "tk_id t \<notin> tk_id ` set ts"
    using that by (force simp: filter_empty_conv image_iff)
  with Cons show ?case by (auto simp: unique_ids_def)
qed simp

definition open_status :: "task \<Rightarrow> bool" where
  "open_status t \<longleftrightarrow> tk_status t = ''pending'' \<or> tk_status t = ''running''"

definition cancelled :: "string \<Rightarrow> int \<Rightarrow> task \<Rightarrow> task" where
  "cancelled tid now t =
     (if tk_id t = tid \<and> open_status t then t\<lparr>tk_status := ''cancelled'', tk_updated := now\<rparr> else t)"

lemma cancelled_closed: "tk_id (cancelled tid now t) = tid \<Longrightarrow> \<not> open_status (cancelled tid now t)"
  by (cases "tk_id t = tid"; cases "open_status t") (simp_all add: cancelled_def, simp add: open_status_def)

lemma CancelTask_open:
  "CancelTask tid now ts =
     (if length (filter (\<lambda>t. tk_id t = tid \<and> open_status t) ts) \<noteq> 1 then (Inl Not_cancellable, ts)
      else (Inr (), map (cancelled tid now) ts))"
proof -
  have "(\<lambda>t. tk_id t = tid \<and> tk_status t \<in> {''pending'', ''running''}) = (\<lambda>t. tk_id t = tid \<and> open_status t)"
    by (simp add: open_status_def)
  then show ?thesis
    by (simp only: CancelTask_def update_where_def Let_def prod.case cancelled_def [abs_def])
qed

lemma CancelTask_iff:
  assumes "unique_ids ts"
  shows "CancelTask tid now ts =
    (if (case row ts tid of None \<Rightarrow> False | Some t \<Rightarrow> open_status t)
     then (Inr (), map (cancelled tid now) ts) else (Inl Not_cancellable, ts))"
  by (simp add: CancelTask_open filter_unique [OF assms] split: option.split)

lemma CancelTask_table:
  assumes "unique_ids ts"
  shows "snd (CancelTask tid now ts) = map (cancelled tid now) ts"
proof (cases "\<exists>t \<in> set ts. tk_id t = tid \<and> open_status t")
  case True
  then obtain t where "t \<in> set ts" "tk_id t = tid" "open_status t" by blast
  with row_Some [OF assms, of tid t] show ?thesis by (simp add: CancelTask_iff [OF assms])
next
  case False
  then have "map (cancelled tid now) ts = ts"
    by (intro map_idI) (auto simp: cancelled_def)
  then show ?thesis by (simp add: CancelTask_iff [OF assms])
qed

subsection \<open>Statements under any interleaving\<close>

text \<open>
  One statement that the broker, or anybody else with the same code, may issue at any
  moment.  \<open>SetTaskResult\<close> and \<open>IncrementAttempts\<close> are not among them: nothing outside the
  tests calls them.
\<close>

inductive table_step :: "int \<Rightarrow> task list \<Rightarrow> task list \<Rightarrow> bool" for max_retries where
  create: "table_step max_retries ts (snd (CreateTask tid now kind inp parent ts))"
| attach: "table_step max_retries ts (snd (SetTaskWorktree tid wt ts))"
| claim: "table_step max_retries ts (snd (ClaimTask tid worker now ts))"
| touch: "table_step max_retries ts (snd (TouchTask tid now ts))"
| requeue: "table_step max_retries ts (snd (RequeueTask tid worker now ts))"
| finalize: "status \<in> {''completed'', ''failed'', ''timeout''} \<Longrightarrow>
    table_step max_retries ts (snd (FinalizeTask tid worker status res now ts))"
| cancel: "table_step max_retries ts (snd (CancelTask tid now ts))"
| stale: "table_step max_retries ts (snd (RequeueStaleTask tid cutoff max_retries now ts))"

abbreviation table_steps :: "int \<Rightarrow> task list \<Rightarrow> task list \<Rightarrow> bool" where
  "table_steps max_retries \<equiv> (table_step max_retries)\<^sup>*\<^sup>*"

inductive_cases table_stepE: "table_step max_retries ts ts'"

definition terminal_status :: "string \<Rightarrow> bool" where
  "terminal_status s \<longleftrightarrow> s \<in> {''completed'', ''failed'', ''timeout'', ''cancelled''}"

text \<open>How far a row has come within an attempt.\<close>

definition rank :: "task \<Rightarrow> nat" where
  "rank t = (if tk_status t = ''pending'' then 0 else if tk_status t = ''running'' then 1 else 2)"

definition row_ok :: "task \<Rightarrow> bool" where
  "row_ok t \<longleftrightarrow> (open_status t \<or> terminal_status (tk_status t)) \<and> 0 \<le> tk_attempts t
     \<and> (tk_status t = ''pending'' \<longrightarrow> tk_assigned t = [])"

text \<open>
  The only ways a row can change: its identity is fixed, the pair of its attempts and its
  rank never decreases, while the pair stays the same so do its status and its owner, and a
  row that is finished keeps its result as well.
\<close>

definition evolves :: "task \<Rightarrow> task \<Rightarrow> bool" where
  "evolves t u \<longleftrightarrow> tk_id u = tk_id t \<and> tk_type u = tk_type t \<and> tk_input u = tk_input t
     \<and> tk_parent u = tk_parent t \<and> tk_created u = tk_created t
     \<and> (tk_attempts t < tk_attempts u \<and> rank t < 2
        \<or> tk_attempts t = tk_attempts u \<and> rank t < rank u
        \<or> tk_attempts t = tk_attempts u \<and> tk_status t = tk_status u \<and> tk_assigned t = tk_assigned u
          \<and> (rank t = 2 \<longrightarrow> tk_result t = tk_result u))"

lemmas status_defs = evolves_def rank_def row_ok_def open_status_def terminal_status_def

lemma evolves_refl [simp]: "evolves t t"
  by (simp add: evolves_def)

lemma rank_le: "rank t \<le> 2"
  by (simp add: rank_def)

lemma rank_cong: "tk_status t = tk_status u \<Longrightarrow> rank t = rank u"
  by (simp add: rank_def)

lemma evolves_trans: "evolves t u \<Longrightarrow> evolves u v \<Longrightarrow> evolves t v"
  using rank_le [of v] rank_cong [of t u] rank_cong [of u v]
  unfolding evolves_def by (elim conjE disjE) auto

text \<open>A step rewrites the rows it keeps, and may append a fresh pending one.\<close>

definition rows_evolve :: "task list \<Rightarrow> task list \<Rightarrow> bool" where
  "rows_evolve ts ts' \<longleftrightarrow> (\<exists>g new. ts' = map g ts @ new \<and> (\<forall>t. row_ok t \<longrightarrow> evolves t (g t) \<and> row_ok (g t))
     \<and> (\<forall>t. tk_id (g t) = tk_id t)
     \<and> (\<forall>t \<in> set new. row_ok t \<and> tk_id t \<notin> tk_id ` set ts) \<and> unique_ids new)"

lemma rows_evolveI:
  "(\<And>t. tk_id (g t) = tk_id t) \<Longrightarrow> (\<And>t. row_ok t \<Longrightarrow> evolves t (g t) \<and> row_ok (g t))
    \<Longrightarrow> rows_evolve ts (map g ts)"
  unfolding rows_evolve_def by (rule exI [of _ g], rule exI [of _ "[]"]) (simp add: unique_ids_def)

lemma guarded_evolve:
  assumes "\<And>t. tk_id (f t) = tk_id t" "\<And>t. row_ok t \<Longrightarrow> P t \<Longrightarrow> evolves t (f t) \<and> row_ok (f t)"
  shows "rows_evolve ts (snd (guarded e P f ts))"
  unfolding guarded_table by (rule rows_evolveI) (simp_all add: assms)

lemma table_step_evolve:
  assumes "table_step m ts ts'" "unique_ids ts"
  shows "rows_evolve ts ts'"
  using assms(1)
proof (cases rule: table_step.cases)
  case (create tid now kind inp parent)
  show ?thesis
  proof (cases "tid \<in> tk_id ` set ts")
    case True
    with create show ?thesis using rows_evolveI [of id ts] by (simp add: CreateTask_def)
  next
    case False
    with create show ?thesis
      unfolding rows_evolve_def
      by (intro exI [of _ id] exI [of _ "drop (length ts) ts'"])
         (auto simp: CreateTask_def row_ok_def open_status_def unique_ids_def)
  qed
next
  case (attach tid wt)
  then show ?thesis unfolding SetTaskWorktree_def
    by (simp only:) (rule guarded_evolve; simp add: status_defs)
next
  case (claim tid worker now)
  then show ?thesis unfolding ClaimTask_def
    by (simp only:) (rule guarded_evolve; simp add: status_defs)
next
  case (touch tid now)
  then show ?thesis unfolding TouchTask_def
    by (simp only:) (rule guarded_evolve; simp add: status_defs)
next
  case (requeue tid worker now)
  then show ?thesis unfolding RequeueTask_def
    by (simp only:) (rule guarded_evolve; simp add: status_defs)
next
  case (finalize status tid worker res now)
  then show ?thesis unfolding FinalizeTask_def
    by (simp only:) (rule guarded_evolve; auto simp: status_defs)
next
  case (cancel tid now)
  then show ?thesis
    by (simp only: CancelTask_table [OF assms(2)])
       (rule rows_evolveI; auto simp: status_defs cancelled_def)
next
  case (stale tid cutoff now)
  then show ?thesis
    by (simp only: RequeueStaleTask_def Let_def case_prod_beta snd_conv update_where_simps)
       (rule rows_evolveI; simp add: status_defs requeued_stale_def)
qed

subsection \<open>Every history of statements\<close>

definition table_ok :: "task list \<Rightarrow> bool" where
  "table_ok ts \<longleftrightarrow> unique_ids ts \<and> (\<forall>t \<in> set ts. row_ok t)"

lemma table_ok_Nil [simp]: "table_ok []"
  by (simp add: table_ok_def unique_ids_def)

lemma rows_evolve_ok:
  assumes "rows_evolve ts ts'" "table_ok ts"
  shows "table_ok ts'"
    and "row ts tid = Some t \<Longrightarrow> \<exists>u. row ts' tid = Some u \<and> evolves t u"
proof -
  obtain g new where g: "ts' = map g ts @ new" "\<And>t. row_ok t \<Longrightarrow> evolves t (g t) \<and> row_ok (g t)"
      "\<And>t. tk_id (g t) = tk_id t"
    and new: "\<And>t. t \<in> set new \<Longrightarrow> row_ok t \<and> tk_id t \<notin> tk_id ` set ts" "unique_ids new"
    using assms(1) unfolding rows_evolve_def by blast
  have "map tk_id ts' = map tk_id ts @ map tk_id new" using g(1,3) by simp
  moreover have False if x: "x \<in> tk_id ` set ts" "x \<in> tk_id ` set new" for x
  proof -
    from x(2) obtain t where t: "t \<in> set new" "x = tk_id t" by blast
    show False using new(1) [OF t(1)] x(1) t(2) by simp
  qed
  ultimately have "unique_ids ts'"
    using assms(2) new(2) by (auto simp: table_ok_def unique_ids_def)
  with assms(2) g new(1) show "table_ok ts'" by (auto simp: table_ok_def)
  assume t: "row ts tid = Some t"
  then have "row (map g ts) tid = Some (g t)" by (simp add: row_map g(3))
  then have "row ts' tid = Some (g t)" by (simp add: g(1) find_append)
  moreover have "row_ok t" using t row_in assms(2) by (auto simp: table_ok_def)
  ultimately show "\<exists>u. row ts' tid = Some u \<and> evolves t u" using g(2) by blast
qed

lemma table_step_ok: "table_step m ts ts' \<Longrightarrow> table_ok ts \<Longrightarrow> table_ok ts'"
  using table_step_evolve rows_evolve_ok(1) table_ok_def by blast

lemma table_steps_ok: "table_steps m ts ts' \<Longrightarrow> table_ok ts \<Longrightarrow> table_ok ts'"
  by (induction rule: rtranclp_induct) (auto intro: table_step_ok)

lemma table_steps_row:
  assumes "table_steps m ts ts'" "table_ok ts" "row ts tid = Some t"
  shows "\<exists>u. row ts' tid = Some u \<and> evolves t u"
  using assms(1)
proof (induction rule: rtranclp_induct)
  case base
  with assms(3) show ?case by simp
next
  case (step ts' ts'')
  then obtain u where u: "row ts' tid = Some u" "evolves t u" by blast
  have "table_ok ts'" using step.hyps(1) assms(2) by (rule table_steps_ok)
  then obtain v where "row ts'' tid = Some v" "evolves u v"
    using rows_evolve_ok(2) [OF table_step_evolve, OF step.hyps(2) _ _ u(1)] by (auto simp: table_ok_def)
  with u(2) show ?case using evolves_trans by blast
qed

text \<open>
  A task that has ended stays ended: whatever statements anybody issues afterwards, its
  row keeps its status, its result, its owner and its attempts.
\<close>

theorem finished_task_stays:
  assumes "table_ok ts" "table_steps m ts ts'" "row ts tid = Some t" "terminal_status (tk_status t)"
  shows "\<exists>u. row ts' tid = Some u \<and> tk_status u = tk_status t \<and> tk_result u = tk_result t
      \<and> tk_assigned u = tk_assigned t \<and> tk_attempts u = tk_attempts t"
proof -
  obtain u where u: "row ts' tid = Some u" "evolves t u"
    using table_steps_row [OF assms(2,1,3)] by blast
  have "rank t = 2" using assms(4) by (auto simp: terminal_status_def rank_def)
  with u(2) rank_le [of u] have "tk_status u = tk_status t \<and> tk_result u = tk_result t
      \<and> tk_assigned u = tk_assigned t \<and> tk_attempts u = tk_attempts t"
    by (auto simp: evolves_def)
  with u(1) show ?thesis by blast
qed

definition sample_task :: "string \<Rightarrow> string \<Rightarrow> string \<Rightarrow> task" where
  "sample_task tid status worker = \<lparr>tk_id = tid, tk_type = ''note'', tk_input = ''x'', tk_status = status,
     tk_assigned = worker, tk_result = [], tk_parent = [], tk_created = 1, tk_updated = 1,
     tk_deadline = 0, tk_attempts = 0, tk_worktree = []\<rparr>"

lemma finished_task_stays_witness:
  "\<exists>u. row (snd (TouchTask ''a'' 9 [sample_task ''a'' ''failed'' ''w''])) ''a'' = Some u
     \<and> tk_status u = ''failed'' \<and> tk_result u = [] \<and> tk_assigned u = ''w'' \<and> tk_attempts u = 0"
proof -
  define t where "t = sample_task ''a'' ''failed'' ''w''"
  have "table_ok [t]" by (simp add: table_ok_def unique_ids_def status_defs sample_task_def t_def)
  moreover have "table_steps 3 [t] (snd (TouchTask ''a'' 9 [t]))" by (blast intro: table_step.touch)
  moreover have "row [t] ''a'' = Some t" by (simp add: sample_task_def t_def)
  moreover have "terminal_status (tk_status t)" by (simp add: terminal_status_def sample_task_def t_def)
  ultimately have "\<exists>u. row (snd (TouchTask ''a'' 9 [t])) ''a'' = Some u \<and> tk_status u = tk_status t
      \<and> tk_result u = tk_result t \<and> tk_assigned u = tk_assigned t \<and> tk_attempts u = tk_attempts t"
    by (rule finished_task_stays)
  then show ?thesis by (simp only: t_def) (simp add: sample_task_def)
qed

definition attempts_of :: "task list \<Rightarrow> string \<Rightarrow> int" where
  "attempts_of ts tid = (case row ts tid of None \<Rightarrow> 0 | Some t \<Rightarrow> tk_attempts t)"

lemma ClaimTask_ok:
  assumes "table_ok ts"
  shows "fst (ClaimTask tid w now ts) = Inr () \<longleftrightarrow> (\<exists>t. row ts tid = Some t \<and> tk_status t = ''pending'')"
  using assms by (auto simp: ClaimTask_def guarded_ok row_Some table_ok_def)

lemma ClaimTask_row:
  "row (snd (ClaimTask tid w now ts)) i = map_option (\<lambda>t. if tk_id t = tid \<and> tk_status t = ''pending''
     then t\<lparr>tk_status := ''running'', tk_assigned := w, tk_updated := now\<rparr> else t) (row ts i)"
  by (simp add: ClaimTask_def guarded_table row_map)

lemma FinalizeTask_ok:
  assumes "table_ok ts"
  shows "fst (FinalizeTask tid w s r now ts) = Inr ()
    \<longleftrightarrow> (\<exists>t. row ts tid = Some t \<and> tk_status t = ''running'' \<and> tk_assigned t = w)"
  using assms by (auto simp: FinalizeTask_def guarded_ok row_Some table_ok_def)

text \<open>
  C12: A task is in one pair of hands at a time: after a worker has claimed it, however the
  statements of workers, sweepers, cancellations and other processes interleave, nobody claims it
  again before an attempt has been used up, and until then no other worker's result is accepted.
  Anybody may still cancel it, after which nobody claims it either.
\<close>

theorem claim_exclusive:
  assumes "table_ok ts" "fst (ClaimTask tid w now ts) = Inr ()"
    "table_steps m (snd (ClaimTask tid w now ts)) ts'"
  shows "attempts_of ts tid < attempts_of ts' tid
    \<or> attempts_of ts tid = attempts_of ts' tid
      \<and> (\<forall>w' now'. fst (ClaimTask tid w' now' ts') \<noteq> Inr ())
      \<and> (\<forall>w' s r now'. fst (FinalizeTask tid w' s r now' ts') = Inr () \<longrightarrow> w' = w)"
proof -
  let ?ts1 = "snd (ClaimTask tid w now ts)"
  obtain t where t: "row ts tid = Some t" "tk_status t = ''pending''"
    using assms(1,2) by (auto simp: ClaimTask_ok)
  define t1 where "t1 = t\<lparr>tk_status := ''running'', tk_assigned := w, tk_updated := now\<rparr>"
  have r1: "row ?ts1 tid = Some t1"
    using t row_id [OF t(1)] by (simp add: ClaimTask_row t1_def)
  have ok1: "table_ok ?ts1" using table_step_ok [OF table_step.claim assms(1)] .
  obtain u where u: "row ts' tid = Some u" "evolves t1 u"
    using table_steps_row [OF assms(3) ok1 r1] by blast
  have ok': "table_ok ts'" using table_steps_ok [OF assms(3) ok1] .
  have "tk_attempts t < tk_attempts u \<or> tk_attempts t = tk_attempts u
      \<and> (rank u = 2 \<or> tk_status u = ''running'' \<and> tk_assigned u = w)"
    using u(2) rank_le [of u] by (auto simp: evolves_def t1_def rank_def split: if_splits)
  moreover have "rank u \<noteq> 2" if "tk_status u = ''pending'' \<or> tk_status u = ''running''"
    using that by (auto simp: rank_def)
  ultimately show ?thesis
    using t(1) u(1) by (auto simp: attempts_of_def ClaimTask_ok [OF ok'] FinalizeTask_ok [OF ok'])
qed

lemma claim_exclusive_witness:
  "let ts = [sample_task ''a'' ''pending'' []]; ts' = snd (TouchTask ''a'' 9 (snd (ClaimTask ''a'' ''w'' 5 ts))) in
     attempts_of ts ''a'' < attempts_of ts' ''a''
     \<or> attempts_of ts ''a'' = attempts_of ts' ''a''
       \<and> (\<forall>w' now'. fst (ClaimTask ''a'' w' now' ts') \<noteq> Inr ())
       \<and> (\<forall>w' s r now'. fst (FinalizeTask ''a'' w' s r now' ts') = Inr () \<longrightarrow> w' = ''w'')"
  unfolding Let_def
proof (rule claim_exclusive [of _ _ _ 5 3])
  show "table_ok [sample_task ''a'' ''pending'' []]"
    by (simp add: table_ok_def unique_ids_def status_defs sample_task_def)
  show "fst (ClaimTask ''a'' ''w'' 5 [sample_task ''a'' ''pending'' []]) = Inr ()"
    by code_simp
qed (blast intro: table_step.touch)

end
