(* ===== verification/Broker.thy ===== *)
theory Broker
  imports TaskStore
begin

text \<open>
  The task broker (\<open>internal/task/broker.go\<close>) over the table of \<open>TaskStore\<close>.  The state holds
  the table and the broker's own fields; the calls the broker makes on the work layer
  (\<open>WorkLifecycle\<close>) and on the version control (\<open>RemoveWorktree\<close>) are appended to logs, and
  what \<open>AddWorktree\<close> answers is an argument.  The clock is \<open>time.Now()\<close> in nanoseconds.
  A handler is one function here.  \<open>Claim\<close> is composed of its two halves, the statements
  that take the task and the best-effort attachment of a worktree, so that a call that runs
  between them can be modelled as well.
\<close>

subsection \<open>State\<close>

datatype work_call = OnRunning string | OnTerminal string string string | OnRequeued string

record broker =
  bk_tasks :: "task list"
  bk_max_retries :: int
  bk_timeout :: int
  bk_notify :: bool
  bk_vcs :: bool
  bk_repo :: string
  bk_created :: "string \<rightharpoonup> string"
  bk_work :: bool
  bk_calls :: "work_call list"
  bk_removed :: "string list"

datatype broker_error = Invalid_status | Not_owner | Store_error store_error

definition DurableTaskType :: string where
  "DurableTaskType = ''work_task''"

definition unix :: "int \<Rightarrow> int" where
  "unix ns = ns div 1000000000"

definition NewBroker :: "task list \<Rightarrow> int \<Rightarrow> int \<Rightarrow> broker" where
  "NewBroker ts max_retries timeout = \<lparr>bk_tasks = ts, bk_max_retries = max_retries, bk_timeout = timeout,
     bk_notify = False, bk_vcs = False, bk_repo = [], bk_created = Map.empty, bk_work = False,
     bk_calls = [], bk_removed = []\<rparr>"

definition SetVCS :: "bool \<Rightarrow> string \<Rightarrow> broker \<Rightarrow> broker" where
  "SetVCS v repo b = b\<lparr>bk_vcs := v, bk_repo := repo\<rparr>"

definition notify_work :: "task \<Rightarrow> (string \<Rightarrow> work_call) \<Rightarrow> broker \<Rightarrow> broker" where
  "notify_work t call b =
     (if \<not> bk_work b \<or> tk_type t \<noteq> DurableTaskType \<or> tk_parent t = [] then b
      else b\<lparr>bk_calls := bk_calls b @ [call (tk_parent t)]\<rparr>)"

text \<open>The channel holds one signal; a send that finds it full is dropped.\<close>

definition signal :: "broker \<Rightarrow> broker" where
  "signal b = b\<lparr>bk_notify := True\<rparr>"

subsection \<open>Handlers\<close>

definition Submit :: "string \<Rightarrow> int \<Rightarrow> string \<Rightarrow> string \<Rightarrow> string \<Rightarrow> broker
    \<Rightarrow> (broker_error + string) \<times> broker" where
  "Submit tid now kind inp parent b =
     (case CreateTask tid (unix now) kind inp parent (bk_tasks b) of
        (Inl e, ts) \<Rightarrow> (Inl (Store_error e), b\<lparr>bk_tasks := ts\<rparr>)
      | (Inr i, ts) \<Rightarrow> (Inr i, signal (b\<lparr>bk_tasks := ts\<rparr>)))"

definition claim_take :: "string \<Rightarrow> int \<Rightarrow> broker \<Rightarrow> (broker_error + task option) \<times> broker" where
  "claim_take worker now b =
     (case ListPending 1 (bk_tasks b) of
        [] \<Rightarrow> (Inr None, b)
      | t # _ \<Rightarrow>
         (case ClaimTask (tk_id t) worker (unix now) (bk_tasks b) of
            (Inl e, ts) \<Rightarrow> (Inl (Store_error e), b\<lparr>bk_tasks := ts\<rparr>)
          | (Inr _, ts) \<Rightarrow>
             (case GetTask (tk_id t) ts of
                Inl e \<Rightarrow> (Inl (Store_error e), b\<lparr>bk_tasks := ts\<rparr>)
              | Inr got \<Rightarrow> (Inr (Some got), b\<lparr>bk_tasks := ts\<rparr>))))"

text \<open>\<open>wt\<close> is the worktree \<open>AddWorktree\<close> returns, \<open>None\<close> its failure.\<close>

definition claim_attach :: "task \<Rightarrow> string option \<Rightarrow> broker \<Rightarrow> task \<times> broker" where
  "claim_attach got wt b =
     (if bk_vcs b \<and> bk_repo b \<noteq> [] \<and> tk_worktree got = []
      then (case wt of
              None \<Rightarrow> (got, b)
            | Some w \<Rightarrow>
               (case SetTaskWorktree (tk_id got) w (bk_tasks b) of
                  (Inl _, ts) \<Rightarrow> (got, b\<lparr>bk_tasks := ts\<rparr>)
                | (Inr _, ts) \<Rightarrow>
                    (got\<lparr>tk_worktree := w\<rparr>,
                     b\<lparr>bk_tasks := ts, bk_created := (bk_created b)(tk_id got \<mapsto> w)\<rparr>)))
      else (got, b))"

definition Claim :: "string \<Rightarrow> int \<Rightarrow> string option \<Rightarrow> broker \<Rightarrow> (broker_error + task option) \<times> broker" where
  "Claim worker now wt b =
     (case claim_take worker now b of
        (Inr (Some got), b1) \<Rightarrow>
          (let (got', b2) = claim_attach got wt b1
           in (Inr (Some got'), notify_work got' OnRunning b2))
      | r \<Rightarrow> r)"

definition reclaim_worktree :: "string \<Rightarrow> broker \<Rightarrow> broker" where
  "reclaim_worktree tid b =
     (case bk_created b tid of
        None \<Rightarrow> b
      | Some w \<Rightarrow>
          let b1 = b\<lparr>bk_created := (bk_created b)(tid := None)\<rparr>
          in if bk_vcs b1 then b1\<lparr>bk_removed := bk_removed b1 @ [w]\<rparr> else b1)"

definition owner_error :: "store_error \<Rightarrow> broker_error" where
  "owner_error e = (if e = Not_running_or_owned then Not_owner else Store_error e)"

definition RecordResult :: "string \<Rightarrow> string \<Rightarrow> string \<Rightarrow> string \<Rightarrow> int \<Rightarrow> broker
    \<Rightarrow> (broker_error + unit) \<times> broker" where
  "RecordResult tid worker status res now b =
     (if status \<notin> {''completed'', ''failed'', ''timeout''} then (Inl Invalid_status, b)
      else case GetTask tid (bk_tasks b) of
        Inl e \<Rightarrow> (Inl (Store_error e), b)
      | Inr t \<Rightarrow>
          if tk_status t \<noteq> ''running'' \<or> tk_assigned t \<noteq> worker then (Inl Not_owner, b)
          else if (status = ''failed'' \<or> status = ''timeout'') \<and> tk_attempts t < bk_max_retries b
          then (case RequeueTask tid worker (unix now) (bk_tasks b) of
                  (Inl e, ts) \<Rightarrow> (Inl (owner_error e), b\<lparr>bk_tasks := ts\<rparr>)
                | (Inr _, ts) \<Rightarrow> (Inr (), notify_work t OnRequeued (b\<lparr>bk_tasks := ts\<rparr>)))
          else (case FinalizeTask tid worker status res (unix now) (bk_tasks b) of
                  (Inl e, ts) \<Rightarrow> (Inl (owner_error e), b\<lparr>bk_tasks := ts\<rparr>)
                | (Inr _, ts) \<Rightarrow>
                    (Inr (), reclaim_worktree tid
                       (notify_work t (\<lambda>p. OnTerminal p status res) (b\<lparr>bk_tasks := ts\<rparr>)))))"

definition Heartbeat :: "string \<Rightarrow> int \<Rightarrow> broker \<Rightarrow> (broker_error + unit) \<times> broker" where
  "Heartbeat tid now b =
     (case TouchTask tid (unix now) (bk_tasks b) of
        (Inl e, ts) \<Rightarrow> (Inl (Store_error e), b\<lparr>bk_tasks := ts\<rparr>)
      | (Inr _, ts) \<Rightarrow> (Inr (), b\<lparr>bk_tasks := ts\<rparr>))"

definition Get :: "string \<Rightarrow> broker \<Rightarrow> broker_error + task" where
  "Get tid b = (case GetTask tid (bk_tasks b) of Inl e \<Rightarrow> Inl (Store_error e) | Inr t \<Rightarrow> Inr t)"

definition Cancel :: "string \<Rightarrow> int \<Rightarrow> broker \<Rightarrow> (broker_error + unit) \<times> broker" where
  "Cancel tid now b =
     (case CancelTask tid (unix now) (bk_tasks b) of
        (Inl e, ts) \<Rightarrow> (Inl (Store_error e), b\<lparr>bk_tasks := ts\<rparr>)
      | (Inr _, ts) \<Rightarrow> (Inr (), reclaim_worktree tid (b\<lparr>bk_tasks := ts\<rparr>)))"

text \<open>One iteration of the sweep; \<open>None\<close> continues it, \<open>Some e\<close> ends it with an error.\<close>

definition sweep_one :: "int \<Rightarrow> int \<Rightarrow> task \<Rightarrow> broker \<Rightarrow> broker_error option \<times> broker" where
  "sweep_one cutoff now t b =
     (let (changed, ts) = RequeueStaleTask (tk_id t) cutoff (bk_max_retries b) (unix now) (bk_tasks b);
          b1 = b\<lparr>bk_tasks := ts\<rparr>
      in if \<not> changed then (None, b1)
         else case GetTask (tk_id t) ts of
           Inl e \<Rightarrow> (Some (Store_error e), b1)
         | Inr t2 \<Rightarrow>
             (None, signal
                (if tk_status t2 = ''failed''
                 then notify_work t2 (\<lambda>p. OnTerminal p ''failed'' ''worker stopped heartbeating'')
                        (reclaim_worktree (tk_id t) b1)
                 else notify_work t2 OnRequeued b1)))"

fun sweep :: "int \<Rightarrow> int \<Rightarrow> task list \<Rightarrow> broker \<Rightarrow> broker_error option \<times> broker" where
  "sweep cutoff now [] b = (None, b)"
| "sweep cutoff now (t # ts) b =
     (case sweep_one cutoff now t b of
        (Some e, b1) \<Rightarrow> (Some e, b1)
      | (None, b1) \<Rightarrow> sweep cutoff now ts b1)"

definition RequeueStale :: "int \<Rightarrow> broker \<Rightarrow> broker_error option \<times> broker" where
  "RequeueStale now b =
     (let cutoff = unix (now - bk_timeout b)
      in sweep cutoff now (ListStaleRunning cutoff (bk_tasks b)) b)"

subsection \<open>Histories of requests\<close>

datatype request =
    R_submit string int string string string
  | R_claim string int "string option"
  | R_result string string string string int
  | R_heartbeat string int
  | R_cancel string int
  | R_sweep int
  | R_set_vcs bool string
  | R_receive

text \<open>\<open>R_receive\<close> is a receive from the channel \<open>Notify()\<close>.\<close>

fun serve :: "request \<Rightarrow> broker \<Rightarrow> broker" where
  "serve (R_submit tid now kind inp parent) b = snd (Submit tid now kind inp parent b)"
| "serve (R_claim worker now wt) b = snd (Claim worker now wt b)"
| "serve (R_result tid worker status res now) b = snd (RecordResult tid worker status res now b)"
| "serve (R_heartbeat tid now) b = snd (Heartbeat tid now b)"
| "serve (R_cancel tid now) b = snd (Cancel tid now b)"
| "serve (R_sweep now) b = snd (RequeueStale now b)"
| "serve (R_set_vcs v repo) b = SetVCS v repo b"
| "serve R_receive b = b\<lparr>bk_notify := False\<rparr>"

text \<open>The id of the task a request hands to a worker.\<close>

fun claimed_by :: "request \<Rightarrow> broker \<Rightarrow> string option" where
  "claimed_by (R_claim worker now wt) b =
     (case fst (Claim worker now wt b) of Inr (Some t) \<Rightarrow> Some (tk_id t) | _ \<Rightarrow> None)"
| "claimed_by _ b = None"

inductive reachable :: "broker \<Rightarrow> bool" where
  start: "reachable (NewBroker [] max_retries timeout)"
| work: "reachable b \<Longrightarrow> reachable (b\<lparr>bk_work := w\<rparr>)"
| step: "reachable b \<Longrightarrow> reachable (serve r b)"

end
