(* ===== verification/BrokerProps.thy ===== *)
theory BrokerProps
  imports Broker
begin

text \<open>
  What the broker guarantees.  Each handler is first brought into a normal form: on a
  well-formed table its guarded statements cannot fail, so it is one update of one row.
  From these follow the bound on retries and on hand-outs, the effect of a sweep, and the
  bookkeeping of the worktrees the broker creates, with the one interleaving that breaks it.
\<close>

subsection \<open>Normal forms\<close>

definition on_row :: "string \<Rightarrow> (task \<Rightarrow> task) \<Rightarrow> task list \<Rightarrow> task list" where
  "on_row tid f ts = map (\<lambda>t. if tk_id t = tid then f t else t) ts"

lemma on_row_lookup:
  "(\<And>t. tk_id (f t) = tk_id t) \<Longrightarrow> row (on_row tid f ts) i = map_option (\<lambda>t. if i = tid then f t else t) (row ts i)"
  unfolding on_row_def by (induction ts) auto

text \<open>On a table with unique ids, a guard on a row that passes may be dropped.\<close>

lemma guarded_on_row:
  assumes "table_ok ts" "row ts tid = Some t" "Q t"
  shows "guarded e (\<lambda>u. tk_id u = tid \<and> Q u) f ts = (Inr (), on_row tid f ts)"
proof -
  have "u = t" if "u \<in> set ts" "tk_id u = tid" for u
    using that assms(1,2) row_Some [of ts tid u] by (simp add: table_ok_def)
  with assms(3) have "(if tk_id u = tid \<and> Q u then f u else u) = (if tk_id u = tid then f u else u)"
    if "u \<in> set ts" for u using that by auto
  then show ?thesis
    using assms row_in [OF assms(2)] row_id [OF assms(2)]
    by (auto simp: guarded_iff on_row_def intro: map_cong)
qed

lemma guarded_id_row:
  "table_ok ts \<Longrightarrow> row ts tid = Some t \<Longrightarrow> guarded e (\<lambda>u. tk_id u = tid) f ts = (Inr (), on_row tid f ts)"
  using guarded_on_row [of ts tid t "\<lambda>_. True" e f] by simp

lemma guarded_absent: "row ts tid = None \<Longrightarrow> guarded e (\<lambda>u. tk_id u = tid \<and> Q u) f ts = (Inl e, ts)"
  by (auto simp: guarded_iff row_None)

definition claimed :: "string \<Rightarrow> int \<Rightarrow> task \<Rightarrow> task" where
  "claimed w now t = t\<lparr>tk_status := ''running'', tk_assigned := w, tk_updated := now\<rparr>"

lemma ListPending_head:
  assumes "ListPending 1 ts = t # r"
  shows "t \<in> set ts \<and> tk_status t = ''pending'' \<and> r = []
    \<and> (\<forall>u \<in> set ts. tk_status u = ''pending'' \<longrightarrow> tk_created t \<le> tk_created u)"
proof -
  let ?rows = "sort_key tk_created (filter (\<lambda>t. tk_status t = ''pending'') ts)"
  obtain rest where rest: "?rows = t # rest" "r = []"
    using assms by (cases ?rows) (auto simp: ListPending_def)
  have s: "set ?rows = set (filter (\<lambda>t. tk_status t = ''pending'') ts)" by (rule set_sort)
  have "sorted (map tk_created ?rows)" by (rule sorted_sort_key)
  then have "\<forall>u \<in> set rest. tk_created t \<le> tk_created u" using rest(1) by simp
  with s rest show ?thesis by (auto simp: set_eq_iff)
qed

lemma claim_take_cases:
  assumes "table_ok (bk_tasks b)"
  obtains (none) "claim_take w now b = (Inr None, b)" "ListPending 1 (bk_tasks b) = []"
  | (taken) t where "row (bk_tasks b) (tk_id t) = Some t" "tk_status t = ''pending''"
      "ListPending 1 (bk_tasks b) = [t]"
      "claim_take w now b = (Inr (Some (claimed w (unix now) t)),
         b\<lparr>bk_tasks := on_row (tk_id t) (claimed w (unix now)) (bk_tasks b)\<rparr>)"
proof (cases "ListPending 1 (bk_tasks b)")
  case Nil
  then show ?thesis by (intro none) (simp_all add: claim_take_def)
next
  case (Cons t r)
  note h = ListPending_head [OF Cons]
  then have r: "row (bk_tasks b) (tk_id t) = Some t"
    using assms row_Some by (auto simp: table_ok_def)
  have c: "ClaimTask (tk_id t) w (unix now) (bk_tasks b)
      = (Inr (), on_row (tk_id t) (claimed w (unix now)) (bk_tasks b))"
    unfolding ClaimTask_def claimed_def using guarded_on_row [OF assms r] h by simp
  have "row (on_row (tk_id t) (claimed w (unix now)) (bk_tasks b)) (tk_id t) = Some (claimed w (unix now) t)"
    by (subst on_row_lookup) (simp_all add: claimed_def r)
  with c Cons h r show ?thesis by (intro taken [of t]) (simp_all add: claim_take_def GetTask_def)
qed

lemma RecordResult_cases:
  assumes "table_ok (bk_tasks b)"
  obtains (refused) e where "RecordResult tid w s r now b = (Inl e, b)"
      "s \<notin> {''completed'', ''failed'', ''timeout''} \<or> row (bk_tasks b) tid = None
       \<or> (\<exists>t. row (bk_tasks b) tid = Some t \<and> (tk_status t \<noteq> ''running'' \<or> tk_assigned t \<noteq> w))"
  | (retried) t where "row (bk_tasks b) tid = Some t" "tk_status t = ''running''" "tk_assigned t = w"
      "s \<in> {''failed'', ''timeout''}" "tk_attempts t < bk_max_retries b"
      "RecordResult tid w s r now b = (Inr (), notify_work t OnRequeued (b\<lparr>bk_tasks := on_row tid
         (\<lambda>t. t\<lparr>tk_status := ''pending'', tk_result := [], tk_assigned := [],
                tk_attempts := tk_attempts t + 1, tk_updated := unix now\<rparr>) (bk_tasks b)\<rparr>))"
  | (ended) t where "row (bk_tasks b) tid = Some t" "tk_status t = ''running''" "tk_assigned t = w"
      "s = ''completed'' \<or> s \<in> {''failed'', ''timeout''} \<and> bk_max_retries b \<le> tk_attempts t"
      "RecordResult tid w s r now b = (Inr (), reclaim_worktree tid
         (notify_work t (\<lambda>p. OnTerminal p s r) (b\<lparr>bk_tasks := on_row tid
           (\<lambda>t. t\<lparr>tk_status := s, tk_result := r, tk_updated := unix now\<rparr>) (bk_tasks b)\<rparr>)))"
proof (cases "row (bk_tasks b) tid")
  case None
  then have "\<exists>e. RecordResult tid w s r now b = (Inl e, b)" by (simp add: RecordResult_def GetTask_def)
  with None show ?thesis using refused by blast
next
  case (Some t)
  show ?thesis
  proof (cases "s \<in> {''completed'', ''failed'', ''timeout''} \<and> tk_status t = ''running'' \<and> tk_assigned t = w")
    case False
    with Some have "\<exists>e. RecordResult tid w s r now b = (Inl e, b)" by (auto simp: RecordResult_def GetTask_def)
    with Some False show ?thesis using refused by blast
  next
    case True
    note g = guarded_on_row [OF assms Some, of "\<lambda>t. tk_status t = ''running'' \<and> tk_assigned t = w"]
    show ?thesis
    proof (cases "s \<in> {''failed'', ''timeout''} \<and> tk_attempts t < bk_max_retries b")
      case retry: True
      with True Some g show ?thesis
        by (intro retried [of t]) (auto simp: RecordResult_def GetTask_def RequeueTask_def)
    next
      case False
      with True Some g show ?thesis
        by (intro ended [of t]) (auto simp: RecordResult_def GetTask_def FinalizeTask_def)
    qed
  qed
qed

lemma Cancel_cases:
  assumes "table_ok (bk_tasks b)"
  obtains (refused) "Cancel tid now b = (Inl (Store_error Not_cancellable), b)"
      "\<forall>t. row (bk_tasks b) tid = Some t \<longrightarrow> \<not> open_status t"
  | (done_) t where "row (bk_tasks b) tid = Some t" "open_status t"
      "Cancel tid now b = (Inr (), reclaim_worktree tid (b\<lparr>bk_tasks := on_row tid
         (\<lambda>t. t\<lparr>tk_status := ''cancelled'', tk_updated := unix now\<rparr>) (bk_tasks b)\<rparr>))"
proof (cases "\<exists>t. row (bk_tasks b) tid = Some t \<and> open_status t")
  case True
  then obtain t where t: "row (bk_tasks b) tid = Some t" "open_status t" by blast
  have "u = t" if "u \<in> set (bk_tasks b)" "tk_id u = tid" for u
    using that assms row_Some [of "bk_tasks b" tid u] t(1) by (simp add: table_ok_def)
  with t(2) have "map (cancelled tid (unix now)) (bk_tasks b)
      = on_row tid (\<lambda>t. t\<lparr>tk_status := ''cancelled'', tk_updated := unix now\<rparr>) (bk_tasks b)"
    by (auto simp: on_row_def cancelled_def intro: map_cong)
  with t assms show ?thesis
    by (intro done_ [of t]) (simp_all add: Cancel_def CancelTask_iff table_ok_def)
next
  case False
  with assms show ?thesis
    by (intro refused) (auto simp: Cancel_def CancelTask_iff table_ok_def split: option.split)
qed

lemma Heartbeat_cases:
  assumes "table_ok (bk_tasks b)"
  obtains (refused) e where "Heartbeat tid now b = (Inl e, b)"
  | (touched) t where "row (bk_tasks b) tid = Some t"
      "Heartbeat tid now b = (Inr (), b\<lparr>bk_tasks := on_row tid (\<lambda>t. t\<lparr>tk_updated := unix now\<rparr>) (bk_tasks b)\<rparr>)"
proof (cases "row (bk_tasks b) tid")
  case None
  with guarded_absent [where ts = "bk_tasks b" and tid = tid and Q = "\<lambda>_. True"] show ?thesis
    by (intro refused) (simp add: Heartbeat_def TouchTask_def)
next
  case (Some t)
  with guarded_id_row [OF assms Some] show ?thesis
    by (intro touched [of t]) (simp_all add: Heartbeat_def TouchTask_def)
qed

lemma sweep_one_cases:
  assumes "table_ok (bk_tasks b)"
  obtains (skipped) "sweep_one cutoff now t b = (None, b)"
      "\<forall>u. row (bk_tasks b) (tk_id t) = Some u \<longrightarrow> \<not> (tk_status u = ''running'' \<and> tk_updated u < cutoff)"
  | (swept) u where "row (bk_tasks b) (tk_id t) = Some u" "tk_status u = ''running''" "tk_updated u < cutoff"
      "sweep_one cutoff now t b = (None, signal
         (let v = requeued_stale (bk_max_retries b) (unix now) u;
              b1 = b\<lparr>bk_tasks := on_row (tk_id t) (requeued_stale (bk_max_retries b) (unix now)) (bk_tasks b)\<rparr>
          in if tk_status v = ''failed''
             then notify_work v (\<lambda>p. OnTerminal p ''failed'' ''worker stopped heartbeating'')
                    (reclaim_worktree (tk_id t) b1)
             else notify_work v OnRequeued b1))"
proof (cases "\<exists>u. row (bk_tasks b) (tk_id t) = Some u \<and> tk_status u = ''running'' \<and> tk_updated u < cutoff")
  case True
  then obtain u where u: "row (bk_tasks b) (tk_id t) = Some u" "tk_status u = ''running''" "tk_updated u < cutoff"
    by blast
  let ?f = "requeued_stale (bk_max_retries b) (unix now)"
  have r: "RequeueStaleTask (tk_id t) cutoff (bk_max_retries b) (unix now) (bk_tasks b)
      = (True, on_row (tk_id t) ?f (bk_tasks b))"
    using guarded_on_row [OF assms u(1), of "\<lambda>u. tk_status u = ''running'' \<and> tk_updated u < cutoff" Task_not_found ?f] u
    by (auto simp: guarded_def RequeueStaleTask_def Let_def split: if_splits prod.splits)
  have "row (on_row (tk_id t) ?f (bk_tasks b)) (tk_id t) = Some (?f u)"
    by (subst on_row_lookup) (simp_all add: requeued_stale_def u)
  with u r show ?thesis by (intro swept [of u]) (simp_all add: sweep_one_def GetTask_def Let_def)
next
  case False
  have none: "\<not> (tk_id u = tk_id t \<and> tk_status u = ''running'' \<and> tk_updated u < cutoff)"
    if "u \<in> set (bk_tasks b)" for u
    using that False row_Some assms by (auto simp: table_ok_def)
  then have r: "RequeueStaleTask (tk_id t) cutoff (bk_max_retries b) (unix now) (bk_tasks b) = (False, bk_tasks b)"
    by (simp add: RequeueStaleTask_def update_where_def filter_empty_conv) (intro map_idI, auto dest: none)
  from False show ?thesis by (intro skipped) (auto simp: sweep_one_def r)
qed

subsection \<open>The invariant of the broker and the budget of a task\<close>

definition bounded :: "int \<Rightarrow> task \<Rightarrow> bool" where
  "bounded m t \<longleftrightarrow> row_ok t \<and> tk_attempts t \<le> max 0 m + (if open_status t then 0 else 1)"

definition created_ok :: "broker \<Rightarrow> bool" where
  "created_ok b \<longleftrightarrow> (\<forall>tid w. bk_created b tid = Some w \<longrightarrow>
     (\<exists>t. row (bk_tasks b) tid = Some t \<and> open_status t \<and> tk_worktree t = w))"

definition inv :: "broker \<Rightarrow> bool" where
  "inv b \<longleftrightarrow> unique_ids (bk_tasks b) \<and> (\<forall>t \<in> set (bk_tasks b). bounded (bk_max_retries b) t) \<and> created_ok b"

lemma inv_table: "inv b \<Longrightarrow> table_ok (bk_tasks b)"
  by (simp add: inv_def table_ok_def bounded_def)

lemma inv_bounded: "inv b \<Longrightarrow> row (bk_tasks b) tid = Some t \<Longrightarrow> bounded (bk_max_retries b) t"
  using row_in by (auto simp: inv_def)

text \<open>How often a task may still be handed out.\<close>

definition remaining :: "int \<Rightarrow> task option \<Rightarrow> int" where
  "remaining m r = (case r of
     None \<Rightarrow> max 0 m + 1
   | Some t \<Rightarrow> if tk_status t = ''pending'' then max 0 m - tk_attempts t + 1
               else if tk_status t = ''running'' then max 0 m - tk_attempts t else 0)"

lemma remaining_nonneg: "(\<And>t. r = Some t \<Longrightarrow> bounded m t) \<Longrightarrow> 0 \<le> remaining m r"
  by (auto simp: remaining_def bounded_def open_status_def split: option.split)

text \<open>A step keeps the invariant and pays for what it hands out.\<close>

definition effect :: "string option \<Rightarrow> broker \<Rightarrow> broker \<Rightarrow> bool" where
  "effect c b b' \<longleftrightarrow> bk_max_retries b' = bk_max_retries b \<and> inv b' \<and>
     (\<forall>i. remaining (bk_max_retries b) (row (bk_tasks b') i) + (if c = Some i then 1 else 0)
          \<le> remaining (bk_max_retries b) (row (bk_tasks b) i))"

lemma effect_refl: "inv b \<Longrightarrow> effect None b b"
  by (simp add: effect_def)

lemma effect_trans:
  assumes "effect c b b1" "effect None b1 b2"
  shows "effect c b b2"
proof -
  have "remaining (bk_max_retries b) (row (bk_tasks b2) i) + (if c = Some i then 1 else 0)
      \<le> remaining (bk_max_retries b) (row (bk_tasks b) i)" for i
    using assms unfolding effect_def by (elim conjE allE [of _ i]) simp
  with assms show ?thesis by (simp add: effect_def)
qed

lemma created_okD: "inv b \<Longrightarrow> bk_created b tid = Some w \<Longrightarrow>
    \<exists>t. row (bk_tasks b) tid = Some t \<and> open_status t \<and> tk_worktree t = w"
  unfolding inv_def created_ok_def by blast

lemma effect_same: "effect c b b1 \<Longrightarrow> bk_tasks b2 = bk_tasks b1 \<Longrightarrow> bk_created b2 = bk_created b1
    \<Longrightarrow> bk_max_retries b2 = bk_max_retries b1 \<Longrightarrow> effect c b b2"
  unfolding effect_def inv_def created_ok_def by (elim conjE) simp

lemma effect_on_row:
  assumes "inv b" "row (bk_tasks b) tid = Some t" "\<And>t. tk_id (f t) = tk_id t"
    and "bk_tasks b' = on_row tid f (bk_tasks b)" "bk_max_retries b' = bk_max_retries b"
    and "bounded (bk_max_retries b) (f t)"
    and "remaining (bk_max_retries b) (Some (f t)) + (if c = Some tid then 1 else 0)
           \<le> remaining (bk_max_retries b) (Some t)" "c = None \<or> c = Some tid"
    and "\<And>i w. bk_created b' i = Some w \<Longrightarrow>
           (if i = tid then open_status (f t) \<and> tk_worktree (f t) = w else bk_created b i = Some w)"
  shows "effect c b b'"
proof -
  have look: "row (bk_tasks b') i = (if i = tid then Some (f t) else row (bk_tasks b) i)" for i
    using assms(2) by (simp add: assms(4) on_row_lookup [OF assms(3)] option.map_ident)
  have u: "unique_ids (bk_tasks b')"
    using assms(1) by (simp add: assms(4) on_row_def inv_def) (subst unique_ids_map, simp_all add: assms(3))
  have "bounded (bk_max_retries b) u" if "u \<in> set (bk_tasks b')" for u
  proof -
    have "row (bk_tasks b') (tk_id u) = Some u" using that u by (simp add: row_Some)
    then show ?thesis using look [of "tk_id u"] assms(6) inv_bounded [OF assms(1)] by (auto split: if_splits)
  qed
  moreover have "created_ok b'" unfolding created_ok_def
  proof (intro allI impI)
    fix i w assume "bk_created b' i = Some w"
    from assms(9) [OF this] show "\<exists>t. row (bk_tasks b') i = Some t \<and> open_status t \<and> tk_worktree t = w"
      using assms(1) look by (auto simp: inv_def created_ok_def split: if_splits)
  qed
  ultimately have "inv b'" using u by (simp add: inv_def assms(5))
  with look assms(2,5,7,8) show ?thesis by (auto simp: effect_def)
qed

lemma notify_work_simps [simp]:
  "bk_tasks (notify_work t c b) = bk_tasks b" "bk_created (notify_work t c b) = bk_created b"
  "bk_max_retries (notify_work t c b) = bk_max_retries b" "bk_removed (notify_work t c b) = bk_removed b"
  "bk_vcs (notify_work t c b) = bk_vcs b"
  by (simp_all add: notify_work_def)

lemma signal_simps [simp]:
  "bk_tasks (signal b) = bk_tasks b" "bk_created (signal b) = bk_created b"
  "bk_max_retries (signal b) = bk_max_retries b" "bk_removed (signal b) = bk_removed b"
  by (simp_all add: signal_def)

lemma reclaim_simps [simp]:
  "bk_tasks (reclaim_worktree i b) = bk_tasks b" "bk_max_retries (reclaim_worktree i b) = bk_max_retries b"
  "bk_created (reclaim_worktree i b) = (bk_created b)(i := None)"
  by (auto simp: reclaim_worktree_def Let_def split: option.split)

lemmas budget_defs = bounded_def remaining_def row_ok_def open_status_def terminal_status_def

lemma created_row: "inv b \<Longrightarrow> bk_created b tid = Some w \<Longrightarrow> row (bk_tasks b) tid = Some t
    \<Longrightarrow> open_status t \<and> tk_worktree t = w"
  by (metis inv_def created_ok_def option.inject)

lemma effect_RecordResult:
  assumes "inv b" shows "effect None b (snd (RecordResult tid w s r now b))"
  using inv_table [OF assms]
proof (cases rule: RecordResult_cases [where tid = tid and w = w and s = s and r = r and now = now])
  case (refused e)
  then show ?thesis by (simp add: effect_refl assms)
next
  case (retried t)
  note bt = inv_bounded [OF assms retried(1)]
  show ?thesis unfolding retried(6)
    by (rule effect_on_row [OF assms retried(1)], simp_all add: fun_upd_def)
       (use bt retried created_row [OF assms _ retried(1)] in \<open>auto simp: budget_defs split: if_splits\<close>)
next
  case (ended t)
  note bt = inv_bounded [OF assms ended(1)]
  show ?thesis unfolding ended(5)
    by (rule effect_on_row [OF assms ended(1)], simp_all add: fun_upd_def)
       (use bt ended in \<open>auto simp: budget_defs split: if_splits\<close>)
qed

lemma effect_Cancel:
  assumes "inv b" shows "effect None b (snd (Cancel tid now b))"
  using inv_table [OF assms]
proof (cases rule: Cancel_cases [where tid = tid and now = now])
  case refused
  then show ?thesis by (simp add: effect_refl assms)
next
  case (done_ t)
  note bt = inv_bounded [OF assms done_(1)]
  show ?thesis unfolding done_(3)
    by (rule effect_on_row [OF assms done_(1)], simp_all add: fun_upd_def)
       (use bt done_ in \<open>auto simp: budget_defs split: if_splits\<close>)
qed

lemma effect_Heartbeat:
  assumes "inv b" shows "effect None b (snd (Heartbeat tid now b))"
  using inv_table [OF assms]
proof (cases rule: Heartbeat_cases [where tid = tid and now = now])
  case (refused e)
  then show ?thesis by (simp add: effect_refl assms)
next
  case (touched t)
  note bt = inv_bounded [OF assms touched(1)]
  show ?thesis unfolding touched(2)
    by (rule effect_on_row [OF assms touched(1)], simp_all)
       (use bt created_row [OF assms _ touched(1)] in \<open>auto simp: budget_defs split: if_splits\<close>)
qed

lemma effect_sweep_one:
  assumes "inv b" shows "effect None b (snd (sweep_one cutoff now t b))"
  using inv_table [OF assms]
proof (cases rule: sweep_one_cases [where cutoff = cutoff and now = now and t = t])
  case skipped
  then show ?thesis by (simp add: effect_refl assms)
next
  case (swept u)
  note bt = inv_bounded [OF assms swept(1)]
  show ?thesis unfolding swept(4) Let_def
    by (rule effect_on_row [OF assms swept(1), of "requeued_stale (bk_max_retries b) (unix now)"])
       (use bt swept created_row [OF assms _ swept(1)] in
         \<open>auto simp: requeued_stale_def budget_defs split: if_splits\<close>)
qed

lemma effect_sweep: "inv b \<Longrightarrow> effect None b (snd (sweep cutoff now ts b))"
proof (induction ts arbitrary: b)
  case Nil
  then show ?case by (simp add: effect_refl)
next
  case (Cons t ts)
  note one = effect_sweep_one [OF Cons.prems, of cutoff now t]
  then have "inv (snd (sweep_one cutoff now t b))" by (simp add: effect_def)
  from effect_trans [OF one Cons.IH [OF this]] one show ?case
    by (auto split: prod.split option.split)
qed

lemma effect_RequeueStale: "inv b \<Longrightarrow> effect None b (snd (RequeueStale now b))"
  by (simp add: RequeueStale_def Let_def effect_sweep)

lemma claim_attach_id: "tk_id (fst (claim_attach got wt b)) = tk_id got"
  by (auto simp: claim_attach_def split: option.split sum.split prod.split)

lemma effect_Claim:
  assumes "inv b"
  shows "effect (claimed_by (R_claim w now wt) b) b (snd (Claim w now wt b))"
  using inv_table [OF assms]
proof (cases rule: claim_take_cases [where w = w and now = now])
  case none
  then show ?thesis by (simp add: Claim_def effect_refl assms)
next
  case (taken t)
  let ?t1 = "claimed w (unix now) t" and ?ts = "on_row (tk_id t) (claimed w (unix now)) (bk_tasks b)"
  note bt = inv_bounded [OF assms taken(1)]
  have fid: "tk_id (claimed w n u) = tk_id u" for n u by (simp add: claimed_def)
  have r1: "row ?ts (tk_id t) = Some ?t1" using taken(1) by (simp add: on_row_lookup fid)
  have c: "claimed_by (R_claim w now wt) b = Some (tk_id t)"
    by (simp add: Claim_def taken(4) case_prod_beta Let_def claim_attach_id fid)
  have e1: "effect (Some (tk_id t)) b (b\<lparr>bk_tasks := ?ts\<rparr>)"
    by (rule effect_on_row [OF assms taken(1), of "claimed w (unix now)"])
       (use bt taken created_row [OF assms _ taken(1)] in
         \<open>auto simp: claimed_def budget_defs split: if_splits\<close>)
  have e2: "effect None b1 (snd (claim_attach ?t1 wt b1))" if b1: "b1 = b\<lparr>bk_tasks := ?ts\<rparr>" for b1
  proof -
    have i1: "inv b1" using e1 b1 by (simp add: effect_def)
    have r: "row (bk_tasks b1) (tk_id ?t1) = Some ?t1" using r1 b1 by (simp add: fid)
    note bt1 = inv_bounded [OF i1 r]
    have s: "SetTaskWorktree (tk_id ?t1) x (bk_tasks b1)
        = (Inr (), on_row (tk_id ?t1) (\<lambda>t. t\<lparr>tk_worktree := x\<rparr>) (bk_tasks b1))" for x
      unfolding SetTaskWorktree_def by (rule guarded_id_row [OF inv_table [OF i1] r])
    show ?thesis
    proof (cases "bk_vcs b1 \<and> bk_repo b1 \<noteq> [] \<and> tk_worktree ?t1 = [] \<and> wt \<noteq> None")
      case False
      then have "claim_attach ?t1 wt b1 = (?t1, b1)" by (auto simp: claim_attach_def)
      with effect_refl [OF i1] show ?thesis by simp
    next
      case True
      then obtain x where x: "wt = Some x" by blast
      from True show ?thesis unfolding x claim_attach_def
        by (simp only: if_True s option.case sum.case prod.case snd_conv simp_thms)
           (rule effect_on_row [OF i1 r, of "\<lambda>t. t\<lparr>tk_worktree := x\<rparr>"],
            use bt1 taken(2) in \<open>auto simp: claimed_def budget_defs split: if_splits\<close>)
    qed
  qed
  have "effect (Some (tk_id t)) b (snd (claim_attach ?t1 wt (b\<lparr>bk_tasks := ?ts\<rparr>)))"
    by (rule effect_trans [OF e1 e2 [OF refl]])
  then have "effect (Some (tk_id t)) b (snd (Claim w now wt b))"
    by (rule effect_same) (simp_all add: Claim_def taken(4) Let_def case_prod_beta)
  with c show ?thesis by simp
qed

lemma effect_Submit:
  assumes "inv b" shows "effect None b (snd (Submit tid now k i p b))"
proof (cases "tid \<in> tk_id ` set (bk_tasks b)")
  case True
  then show ?thesis
    by (auto simp: Submit_def CreateTask_def intro: effect_same [OF effect_refl [OF assms]])
next
  case False
  define t where "t = \<lparr>tk_id = tid, tk_type = k, tk_input = i, tk_status = ''pending'',
    tk_assigned = [], tk_result = [], tk_parent = p, tk_created = unix now,
    tk_updated = unix now, tk_deadline = 0, tk_attempts = 0, tk_worktree = []\<rparr>"
  have s: "snd (Submit tid now k i p b) = signal (b\<lparr>bk_tasks := bk_tasks b @ [t]\<rparr>)"
    using False by (simp add: Submit_def CreateTask_def t_def)
  have look: "row (bk_tasks b @ [t]) j = (if j = tid then Some t else row (bk_tasks b) j)" for j
    using False by (auto simp: find_append t_def split: option.split)
  have "created_ok (b\<lparr>bk_tasks := bk_tasks b @ [t]\<rparr>)"
    unfolding created_ok_def
  proof (intro allI impI)
    fix j w assume "bk_created (b\<lparr>bk_tasks := bk_tasks b @ [t]\<rparr>) j = Some w"
    then obtain u where u: "row (bk_tasks b) j = Some u" "open_status u \<and> tk_worktree u = w"
      using created_okD [OF assms] by auto
    have "j \<noteq> tid" using u(1) False by auto
    with u show "\<exists>t'. row (bk_tasks (b\<lparr>bk_tasks := bk_tasks b @ [t]\<rparr>)) j = Some t' \<and> open_status t' \<and> tk_worktree t' = w"
      using look [of j] by simp
  qed
  with assms False have "inv (b\<lparr>bk_tasks := bk_tasks b @ [t]\<rparr>)"
    by (auto simp: inv_def unique_ids_def budget_defs t_def)
  then have "effect None b (b\<lparr>bk_tasks := bk_tasks b @ [t]\<rparr>)"
    using look False by (auto simp: effect_def remaining_def t_def)
  then show ?thesis unfolding s by (rule effect_same) simp_all
qed

lemma effect_serve: "inv b \<Longrightarrow> effect (claimed_by r b) b (serve r b)"
  using effect_Submit effect_Claim effect_RecordResult effect_Heartbeat effect_Cancel
    effect_RequeueStale effect_same [OF effect_refl]
  by (cases r) (simp_all add: SetVCS_def)

lemma reachable_inv: "reachable b \<Longrightarrow> inv b"
proof (induction rule: reachable.induct)
  case (start m timeout)
  then show ?case by (simp add: inv_def created_ok_def NewBroker_def unique_ids_def)
next
  case (work b w)
  then show ?case by (simp add: inv_def created_ok_def)
next
  case (step b r)
  then show ?case using effect_serve [of b r] by (simp add: effect_def)
qed

subsection \<open>Histories of requests\<close>

definition serve_all :: "request list \<Rightarrow> broker \<Rightarrow> broker" where
  "serve_all rs b = fold serve rs b"

fun handed :: "string \<Rightarrow> request list \<Rightarrow> broker \<Rightarrow> nat" where
  "handed tid [] b = 0"
| "handed tid (r # rs) b = (if claimed_by r b = Some tid then 1 else 0) + handed tid rs (serve r b)"

lemma serve_all_simps [simp]: "serve_all [] b = b" "serve_all (r # rs) b = serve_all rs (serve r b)"
  by (simp_all add: serve_all_def)

lemma serve_all_inv: "inv b \<Longrightarrow> inv (serve_all rs b) \<and> bk_max_retries (serve_all rs b) = bk_max_retries b"
proof (induction rs arbitrary: b)
  case (Cons r rs)
  with effect_serve [of b r] show ?case by (simp add: effect_def)
qed simp

lemma handed_remaining:
  "inv b \<Longrightarrow> int (handed tid rs b) \<le> remaining (bk_max_retries b) (row (bk_tasks b) tid)"
proof (induction rs arbitrary: b)
  case Nil
  then show ?case using remaining_nonneg inv_bounded by simp
next
  case (Cons r rs)
  from effect_serve [OF Cons.prems, of r] have e: "inv (serve r b)"
      "bk_max_retries (serve r b) = bk_max_retries b"
      "remaining (bk_max_retries b) (row (bk_tasks (serve r b)) tid) + (if claimed_by r b = Some tid then 1 else 0)
        \<le> remaining (bk_max_retries b) (row (bk_tasks b) tid)"
    unfolding effect_def by (elim conjE allE [of _ tid], simp)+
  from Cons.IH [OF e(1)] e(2,3) show ?case by (auto split: if_splits)
qed

text \<open>
  C13: Retries are bounded: whatever requests arrive in whatever order, failures, timeouts, lost
  workers and cancellations included, no task is handed to a worker more than
  \<open>maxRetries + 1\<close> times, and no row counts more attempts than that.
\<close>

theorem handouts_bounded:
  "int (handed tid rs (NewBroker [] m timeout\<lparr>bk_work := w\<rparr>)) \<le> max 0 m + 1
   \<and> list_all (\<lambda>t. tk_attempts t \<le> max 0 m + 1) (bk_tasks (serve_all rs (NewBroker [] m timeout\<lparr>bk_work := w\<rparr>)))"
proof -
  let ?b = "NewBroker [] m timeout\<lparr>bk_work := w\<rparr>"
  have i: "inv ?b" using reachable_inv [OF reachable.work [OF reachable.start]] .
  have m: "bk_max_retries ?b = m" "row (bk_tasks ?b) tid = None" by (simp_all add: NewBroker_def)
  from handed_remaining [OF i, of tid rs] have "int (handed tid rs ?b) \<le> max 0 m + 1"
    by (simp only: m) (simp add: remaining_def)
  moreover have "tk_attempts t \<le> max 0 m + 1" if "t \<in> set (bk_tasks (serve_all rs ?b))" for t
  proof -
    have "bounded m t" using that serve_all_inv [OF i, of rs] by (auto simp: inv_def m)
    then show ?thesis by (auto simp: bounded_def split: if_splits)
  qed
  ultimately show ?thesis by (simp add: list_all_iff)
qed

subsection \<open>The sweep\<close>

definition stale_row :: "int \<Rightarrow> task \<Rightarrow> bool" where
  "stale_row cutoff t \<longleftrightarrow> tk_status t = ''running'' \<and> tk_updated t < cutoff"

lemma sweep_one_tasks:
  assumes "inv b"
  shows "fst (sweep_one cutoff now t b) = None"
    and "bk_tasks (snd (sweep_one cutoff now t b)) =
      map (\<lambda>u. if tk_id u = tk_id t \<and> stale_row cutoff u
               then requeued_stale (bk_max_retries b) (unix now) u else u) (bk_tasks b)"
proof -
  show "fst (sweep_one cutoff now t b) = None"
    using inv_table [OF assms]
    by (cases rule: sweep_one_cases [where cutoff = cutoff and now = now and t = t]) (simp_all add: Let_def)
  show "bk_tasks (snd (sweep_one cutoff now t b)) =
      map (\<lambda>u. if tk_id u = tk_id t \<and> stale_row cutoff u
               then requeued_stale (bk_max_retries b) (unix now) u else u) (bk_tasks b)"
    by (simp add: sweep_one_def RequeueStaleTask_def Let_def case_prod_beta update_where_def stale_row_def
             split: sum.split)
qed

lemma sweep_tasks:
  "inv b \<Longrightarrow> fst (sweep cutoff now ts b) = None \<and> bk_tasks (snd (sweep cutoff now ts b)) =
      map (\<lambda>u. if tk_id u \<in> tk_id ` set ts \<and> stale_row cutoff u
               then requeued_stale (bk_max_retries b) (unix now) u else u) (bk_tasks b)"
proof (induction ts arbitrary: b)
  case (Cons t ts)
  let ?b1 = "snd (sweep_one cutoff now t b)"
  note one = sweep_one_tasks [OF Cons.prems, of cutoff now t]
  have e: "inv ?b1" "bk_max_retries ?b1 = bk_max_retries b"
    using effect_sweep_one [OF Cons.prems, of cutoff now t] by (simp_all add: effect_def)
  have nr: "\<not> stale_row cutoff (requeued_stale m n u)" "tk_id (requeued_stale m n u) = tk_id u" for m n u
    by (simp_all add: stale_row_def requeued_stale_def)
  have "sweep cutoff now (t # ts) b = sweep cutoff now ts ?b1"
    using one(1) by (simp add: case_prod_beta)
  with Cons.IH [OF e(1)] show ?case by (auto simp: one(2) e(2) nr)
qed simp

text \<open>
  A sweep is one simultaneous update: every running task whose last heartbeat lies before
  the cutoff is returned to the queue with one more attempt, or ended when its retries are
  used up, no other row changes, and the sweep ends without an error.
\<close>

theorem sweep_is_one_update:
  assumes "reachable b"
  shows "fst (RequeueStale now b) = None \<and> bk_tasks (snd (RequeueStale now b)) =
    map (\<lambda>u. if tk_status u = ''running'' \<and> tk_updated u < unix (now - bk_timeout b)
             then requeued_stale (bk_max_retries b) (unix now) u else u) (bk_tasks b)"
proof -
  let ?c = "unix (now - bk_timeout b)"
  have "tk_id u \<in> tk_id ` set (ListStaleRunning ?c (bk_tasks b))"
    if "u \<in> set (bk_tasks b)" "stale_row ?c u" for u
    using that by (auto simp: ListStaleRunning_def stale_row_def)
  then have "map (\<lambda>u. if tk_id u \<in> tk_id ` set (ListStaleRunning ?c (bk_tasks b)) \<and> stale_row ?c u
        then requeued_stale (bk_max_retries b) (unix now) u else u) (bk_tasks b)
    = map (\<lambda>u. if stale_row ?c u then requeued_stale (bk_max_retries b) (unix now) u else u) (bk_tasks b)"
    by (auto intro: map_cong)
  with sweep_tasks [OF reachable_inv [OF assms], of ?c now "ListStaleRunning ?c (bk_tasks b)"]
  show ?thesis by (simp add: RequeueStale_def Let_def stale_row_def)
qed

definition sample_broker :: broker where
  "sample_broker = serve_all [R_set_vcs True ''r'', R_submit ''a'' 1000000000 ''work_task'' ''x'' ''wt-1'',
     R_claim ''w'' 2000000000 None] (NewBroker [] 3 30000000000\<lparr>bk_work := True\<rparr>)"

lemma reachable_serve_all: "reachable b \<Longrightarrow> reachable (serve_all rs b)"
  by (induction rs arbitrary: b) (auto intro: reachable.step)

lemma sample_broker_reachable: "reachable sample_broker"
  unfolding sample_broker_def by (intro reachable_serve_all reachable.intros)

lemma sweep_is_one_update_witness:
  "fst (RequeueStale 60000000000 sample_broker) = None
   \<and> bk_tasks (snd (RequeueStale 60000000000 sample_broker)) =
      map (\<lambda>u. if tk_status u = ''running'' \<and> tk_updated u < unix (60000000000 - bk_timeout sample_broker)
               then requeued_stale (bk_max_retries sample_broker) (unix 60000000000) u else u)
        (bk_tasks sample_broker)"
  by (rule sweep_is_one_update [OF sample_broker_reachable])

subsection \<open>Worktrees\<close>

text \<open>
  Between requests the broker only remembers worktrees that some task still needs: each one
  it created belongs to a task that is pending or running and carries that worktree, so every
  terminal transition has given its worktree back.
\<close>

theorem created_worktrees_in_use:
  assumes "reachable b" "bk_created b tid = Some w"
  shows "\<exists>t. row (bk_tasks b) tid = Some t \<and> tk_status t \<in> {''pending'', ''running''} \<and> tk_worktree t = w"
  using created_okD [OF reachable_inv [OF assms(1)] assms(2)] by (auto simp: open_status_def)

definition attached_broker :: broker where
  "attached_broker = serve_all [R_set_vcs True ''r'', R_submit ''a'' 1000000000 ''note'' ''x'' [],
     R_claim ''w'' 2000000000 (Some ''tree'')] (NewBroker [] 3 30000000000)"

lemma attached_created: "bk_created attached_broker ''a'' = Some ''tree''"
  by code_simp

lemma created_worktrees_in_use_witness:
  "\<exists>t. row (bk_tasks attached_broker) ''a'' = Some t \<and> tk_status t \<in> {''pending'', ''running''}
     \<and> tk_worktree t = ''tree''"
  by (rule created_worktrees_in_use [OF _ attached_created])
     (unfold attached_broker_def, intro reachable_serve_all reachable.intros)

text \<open>The statements behind the requests are statements of \<open>table_step\<close>.\<close>

lemma serve_table_steps: "table_steps (bk_max_retries b) (bk_tasks b) (bk_tasks (serve r b))"
proof -
  have sw: "table_steps (bk_max_retries b) (bk_tasks b) (bk_tasks (snd (sweep c now ts b)))" for c now ts b
  proof (induction ts arbitrary: b)
    case (Cons t ts)
    let ?b1 = "snd (sweep_one c now t b)"
    have "bk_tasks ?b1 = snd (RequeueStaleTask (tk_id t) c (bk_max_retries b) (unix now) (bk_tasks b))"
      by (simp add: sweep_one_def Let_def case_prod_beta split: sum.split)
    then have one: "table_steps (bk_max_retries b) (bk_tasks b) (bk_tasks ?b1)"
      using table_step.stale by (metis r_into_rtranclp)
    have "bk_max_retries ?b1 = bk_max_retries b"
      by (simp add: sweep_one_def Let_def case_prod_beta split: sum.split)
    with Cons.IH [of ?b1] one show ?case
      by (cases "sweep_one c now t b") (auto split: option.split)
  qed simp
  have cl: "table_steps (bk_max_retries b) (bk_tasks b) (bk_tasks (snd (Claim w now wt b)))" for w now wt
  proof -
    have "bk_tasks (snd (claim_take w now b)) = bk_tasks b
        \<or> (\<exists>i. bk_tasks (snd (claim_take w now b)) = snd (ClaimTask i w (unix now) (bk_tasks b)))"
      by (auto simp: claim_take_def split: list.split prod.split sum.split) (metis snd_conv)+
    then have a: "table_steps (bk_max_retries b) (bk_tasks b) (bk_tasks (snd (claim_take w now b)))"
      using table_step.claim by (metis r_into_rtranclp rtranclp.rtrancl_refl)
    have "bk_tasks (snd (claim_attach g wt c)) = bk_tasks c
        \<or> (\<exists>x. bk_tasks (snd (claim_attach g wt c)) = snd (SetTaskWorktree (tk_id g) x (bk_tasks c)))" for g c
      by (auto simp: claim_attach_def split: option.split prod.split sum.split) (metis snd_conv)+
    then have t: "table_steps m (bk_tasks c) (bk_tasks (snd (claim_attach g wt c)))" for m g c
      using table_step.attach by (metis r_into_rtranclp rtranclp.rtrancl_refl)
    show ?thesis
      using a t by (auto simp: Claim_def Let_def split: prod.split sum.split option.split)
        (metis (no_types, lifting) rtranclp_trans snd_conv)+
  qed
  show ?thesis
  proof (cases r)
    case (R_submit tid now k i p)
    then show ?thesis
      using table_step.create [of _ "bk_tasks b" tid "unix now" k i p]
      by (auto simp: Submit_def split: prod.split sum.split)
  next
    case (R_result tid w s res now)
    then show ?thesis
      using table_step.requeue [of _ "bk_tasks b" tid w "unix now"]
        table_step.finalize [of s _ "bk_tasks b" tid w res "unix now"]
      by (auto simp: RecordResult_def split: prod.split sum.split)
  next
    case (R_heartbeat tid now)
    then show ?thesis using table_step.touch [of _ "bk_tasks b" tid "unix now"]
      by (auto simp: Heartbeat_def split: prod.split sum.split)
  next
    case (R_cancel tid now)
    then show ?thesis using table_step.cancel [of _ "bk_tasks b" tid "unix now"]
      by (auto simp: Cancel_def split: prod.split sum.split)
  qed (simp_all add: cl sw RequeueStale_def Let_def SetVCS_def)
qed

definition ended_row :: "string \<Rightarrow> broker \<Rightarrow> bool" where
  "ended_row tid b \<longleftrightarrow> table_ok (bk_tasks b) \<and> (\<exists>t. row (bk_tasks b) tid = Some t \<and> terminal_status (tk_status t))"

lemma ended_row_steps:
  "ended_row tid b \<Longrightarrow> table_steps m (bk_tasks b) (bk_tasks b') \<Longrightarrow> ended_row tid b'"
proof -
  assume e: "ended_row tid b" and s: "table_steps m (bk_tasks b) (bk_tasks b')"
  obtain t where t: "row (bk_tasks b) tid = Some t" "terminal_status (tk_status t)"
    using e by (auto simp: ended_row_def)
  obtain u where u: "row (bk_tasks b') tid = Some u" "evolves t u"
    using table_steps_row [OF s _ t(1)] e by (auto simp: ended_row_def)
  have "rank t = 2" using t(2) by (auto simp: terminal_status_def rank_def)
  with u(2) rank_le [of u] have "tk_status u = tk_status t" by (auto simp: evolves_def)
  with e t(2) u(1) table_steps_ok [OF s] show ?thesis by (auto simp: ended_row_def)
qed

lemma sweep_one_created:
  assumes "ended_row tid b"
  shows "bk_created (snd (sweep_one c now t b)) tid = bk_created b tid"
    and "ended_row tid (snd (sweep_one c now t b))"
proof -
  have ok: "table_ok (bk_tasks b)" using assms by (simp add: ended_row_def)
  then show "bk_created (snd (sweep_one c now t b)) tid = bk_created b tid"
    using assms
    by (cases rule: sweep_one_cases [where cutoff = c and now = now and t = t])
       (auto simp: Let_def ended_row_def terminal_status_def)
  have "bk_tasks (snd (sweep_one c now t b))
      = snd (RequeueStaleTask (tk_id t) c (bk_max_retries b) (unix now) (bk_tasks b))"
    by (simp add: sweep_one_def Let_def case_prod_beta split: sum.split)
  then show "ended_row tid (snd (sweep_one c now t b))"
    using ended_row_steps [OF assms] table_step.stale by (metis r_into_rtranclp)
qed

lemma sweep_created: "ended_row tid b \<Longrightarrow> bk_created (snd (sweep c now ts b)) tid = bk_created b tid"
proof (induction ts arbitrary: b)
  case (Cons t ts)
  with sweep_one_created [OF Cons.prems, of c now t] show ?case
    by (cases "sweep_one c now t b") (auto split: option.split)
qed simp

lemma claim_attach_created:
  "i \<noteq> tk_id got \<Longrightarrow> bk_created (snd (claim_attach got wt b)) i = bk_created b i"
  by (auto simp: claim_attach_def split: option.split prod.split sum.split)

lemma serve_created:
  assumes "ended_row tid b"
  shows "bk_created (serve r b) tid = bk_created b tid"
proof -
  have ok: "table_ok (bk_tasks b)" using assms by (simp add: ended_row_def)
  show ?thesis
  proof (cases r)
    case (R_submit i now k inp p)
    then show ?thesis by (simp add: Submit_def split: prod.split sum.split)
  next
    case (R_claim w now wt)
    from ok show ?thesis
    proof (cases rule: claim_take_cases [where w = w and now = now])
      case none
      with R_claim show ?thesis by (simp add: Claim_def)
    next
      case (taken t)
      then have "tid \<noteq> tk_id t" using assms by (auto simp: ended_row_def terminal_status_def)
      then have "tid \<noteq> tk_id (claimed w (unix now) t)" by (simp add: claimed_def)
      with R_claim taken(4) show ?thesis
        by (simp add: Claim_def Let_def case_prod_beta claim_attach_created)
    qed
  next
    case (R_result i w s res now)
    from ok show ?thesis
      by (cases rule: RecordResult_cases [where tid = i and w = w and s = s and r = res and now = now])
         (use R_result assms in \<open>auto simp: ended_row_def terminal_status_def\<close>)
  next
    case (R_heartbeat i now)
    then show ?thesis by (simp add: Heartbeat_def split: prod.split sum.split)
  next
    case (R_cancel i now)
    from ok show ?thesis
      by (cases rule: Cancel_cases [where tid = i and now = now])
         (use R_cancel assms in \<open>auto simp: ended_row_def terminal_status_def open_status_def\<close>)
  next
    case (R_sweep now)
    then show ?thesis by (simp add: RequeueStale_def Let_def sweep_created [OF assms])
  qed (simp_all add: SetVCS_def)
qed

lemma serve_all_created:
  "ended_row tid b \<Longrightarrow> bk_created (serve_all rs b) tid = bk_created b tid \<and> ended_row tid (serve_all rs b)"
proof (induction rs arbitrary: b)
  case (Cons r rs)
  with serve_created [OF Cons.prems, of r] ended_row_steps [OF Cons.prems serve_table_steps, of r]
  show ?case by simp
qed simp

text \<open>
  The one interleaving that breaks this: when a task is cancelled after a worker has taken it
  and before the broker has attached the worktree it is creating, the worktree is recorded
  for a task that has already ended, and no later request ever gives it back.
\<close>

theorem cancel_during_claim_leaks:
  assumes "reachable b" "claim_take w now b = (Inr (Some got), b1)"
    and "Cancel (tk_id got) now' b1 = (Inr (), b2)"
    and "bk_vcs b2" "bk_repo b2 \<noteq> []" "tk_worktree got = []"
  shows "bk_created (serve_all rs (snd (claim_attach got (Some tree) b2))) (tk_id got) = Some tree
    \<and> (\<exists>t. row (bk_tasks (serve_all rs (snd (claim_attach got (Some tree) b2)))) (tk_id got) = Some t
           \<and> terminal_status (tk_status t))"
proof -
  let ?tid = "tk_id got"
  have okb: "table_ok (bk_tasks b)" using inv_table [OF reachable_inv [OF assms(1)]] .
  have "table_steps (bk_max_retries b) (bk_tasks b) (bk_tasks b1)"
    using okb assms(2)
  proof (cases rule: claim_take_cases [where w = w and now = now])
    case (taken t)
    then have "bk_tasks b1 = snd (ClaimTask (tk_id t) w (unix now) (bk_tasks b))"
      using assms(2) guarded_on_row [OF okb taken(1), of "\<lambda>t. tk_status t = ''pending''"]
      by (auto simp: ClaimTask_def claimed_def [abs_def])
    then show ?thesis using table_step.claim by (metis r_into_rtranclp)
  qed simp
  then have ok1: "table_ok (bk_tasks b1)" using table_steps_ok okb by blast
  have e2: "ended_row ?tid b2"
    using ok1
  proof (cases rule: Cancel_cases [where tid = ?tid and now = now'])
    case (done_ t)
    then have "bk_tasks b2 = on_row ?tid (\<lambda>t. t\<lparr>tk_status := ''cancelled'', tk_updated := unix now'\<rparr>) (bk_tasks b1)"
      using assms(3) by auto
    moreover have "table_ok (bk_tasks b2)"
    proof -
      have "bk_tasks b2 = snd (CancelTask ?tid (unix now') (bk_tasks b1))"
        using assms(3) by (auto simp: Cancel_def split: prod.splits sum.splits)
      then show ?thesis using table_step_ok [OF table_step.cancel ok1] by simp
    qed
    ultimately show ?thesis
      using done_(1) by (auto simp: ended_row_def on_row_lookup terminal_status_def)
  qed (use assms(3) in simp)
  then obtain u where u: "row (bk_tasks b2) ?tid = Some u" "table_ok (bk_tasks b2)"
    by (auto simp: ended_row_def)
  have s: "SetTaskWorktree ?tid tree (bk_tasks b2) = (Inr (), on_row ?tid (\<lambda>t. t\<lparr>tk_worktree := tree\<rparr>) (bk_tasks b2))"
    unfolding SetTaskWorktree_def by (rule guarded_id_row [OF u(2,1)])
  let ?b3 = "snd (claim_attach got (Some tree) b2)"
  have b3: "bk_created ?b3 ?tid = Some tree" "bk_tasks ?b3 = snd (SetTaskWorktree ?tid tree (bk_tasks b2))"
    using assms(4-6) s by (simp_all add: claim_attach_def)
  have "ended_row ?tid ?b3"
    using ended_row_steps [OF e2, of 0 ?b3] table_step.attach b3(2) by (metis r_into_rtranclp)
  from serve_all_created [OF this, of rs] b3(1) show ?thesis by (auto simp: ended_row_def)
qed

definition queued_broker :: broker where
  "queued_broker = serve_all [R_set_vcs True ''r'', R_submit ''a'' 1000000000 ''note'' ''x'' []]
     (NewBroker [] 3 30000000000)"

lemma cancel_during_claim_leaks_witness:
  "case claim_take ''w'' 2000000000 queued_broker of
     (Inr (Some got), b1) \<Rightarrow>
       bk_created (serve_all [R_sweep 90000000000] (snd (claim_attach got (Some ''tree'')
         (snd (Cancel (tk_id got) 3000000000 b1))))) (tk_id got) = Some ''tree''
   | _ \<Rightarrow> False"
proof -
  have r: "reachable queued_broker"
    unfolding queued_broker_def by (intro reachable_serve_all reachable.intros)
  define got where "got = claimed ''w'' 2 (hd (bk_tasks queued_broker))"
  define b1 where "b1 = snd (claim_take ''w'' 2000000000 queued_broker)"
  define b2 where "b2 = snd (Cancel (tk_id got) 3000000000 b1)"
  have c: "claim_take ''w'' 2000000000 queued_broker = (Inr (Some got), b1)"
    unfolding got_def b1_def prod_eq_iff by (simp, code_simp)
  have k: "Cancel (tk_id got) 3000000000 b1 = (Inr (), b2)"
    unfolding b2_def prod_eq_iff by (simp add: got_def b1_def, code_simp)
  have v: "bk_vcs b2" "bk_repo b2 \<noteq> []" "tk_worktree got = []"
    unfolding b2_def got_def b1_def by code_simp+
  from cancel_during_claim_leaks [OF r c k v, of "[R_sweep 90000000000]" "''tree''"]
  show ?thesis by (simp add: c k)
qed

end
