(* ===== verification/WorkSync.thy ===== *)
theory WorkSync
  imports WorkManager BrokerProps
begin

text \<open>
  The durable tasks together with the broker that runs them.  The manager submits a durable
  task to the broker and cancels it there; the broker reports its transitions back through
  the mirror.  The call of the mirror comes after the broker's own write, on the goroutine of
  whoever made the request, so other requests and other calls may come in between: the calls
  that were made and have not been carried out yet are part of the state, and any of them may
  be next.
\<close>

subsection \<open>The composed system\<close>

definition store_text :: "store_error \<Rightarrow> string" where
  "store_text e = (case e of
      Constraint_violation \<Rightarrow> ''UNIQUE constraint failed: tasks.id''
    | Task_not_found \<Rightarrow> ''task not found''
    | Not_pending \<Rightarrow> ''task not pending or not found''
    | Not_running_or_owned \<Rightarrow> ''task not running or not owned by worker''
    | Not_cancellable \<Rightarrow> ''task not cancellable or not found'')"

definition broker_text :: "broker_error \<Rightarrow> string" where
  "broker_text e = (case e of
      Invalid_status \<Rightarrow> ''task: invalid status''
    | Not_owner \<Rightarrow> ''task: not running or not owned by caller''
    | Broker.Store_error s \<Rightarrow> store_text s)"

text \<open>\<open>BrokerAdapter\<close>: the broker as a dispatcher; \<open>bid\<close> is the id the store draws.\<close>

definition adapter_submit :: "string \<Rightarrow> int \<Rightarrow> broker submitter" where
  "adapter_submit bid now kind inp parent b =
     (case Submit bid now kind inp parent b of
        (Inl e, b') \<Rightarrow> (Inl (broker_text e), b') | (Inr i, b') \<Rightarrow> (Inr i, b'))"

definition adapter_cancel :: "int \<Rightarrow> broker canceller" where
  "adapter_cancel now bid b =
     (case Broker.Cancel bid now b of
        (Inl e, b') \<Rightarrow> (Inl (broker_text e), b') | (Inr u, b') \<Rightarrow> (Inr u, b'))"

fun mirror_call :: "(string \<Rightarrow> string \<Rightarrow> bool) \<Rightarrow> string \<Rightarrow> int \<Rightarrow> work_call \<Rightarrow> work_db \<Rightarrow> work_db" where
  "mirror_call file_ok root now (OnRunning p) db = snd (mirror_running p now db)"
| "mirror_call file_ok root now (OnTerminal p s n) db = snd (mirror_terminal file_ok root p s n now db)"
| "mirror_call file_ok root now (OnRequeued p) db = snd (mirror_requeued p now db)"

definition deliver :: "(string \<Rightarrow> string \<Rightarrow> bool) \<Rightarrow> string \<Rightarrow> int \<Rightarrow> work_call list \<Rightarrow> work_db \<Rightarrow> work_db" where
  "deliver file_ok root now cs db = fold (mirror_call file_ok root now) cs db"

text \<open>A request whose calls are carried out at once.\<close>

definition sys_serve :: "(string \<Rightarrow> string \<Rightarrow> bool) \<Rightarrow> string \<Rightarrow> int \<Rightarrow> request
    \<Rightarrow> work_db \<times> broker \<Rightarrow> work_db \<times> broker" where
  "sys_serve file_ok root now r s =
     (case s of (db, b) \<Rightarrow> let b' = serve r b in
        (deliver file_ok root now (drop (length (bk_calls b)) (bk_calls b')) db, b'))"

text \<open>
  What reaches the broker from elsewhere: other kinds of tasks, and everything workers and
  the sweeper do.  Only the manager cancels.
\<close>

fun worker_request :: "request \<Rightarrow> bool" where
  "worker_request (R_submit tid now kind inp parent) \<longleftrightarrow> kind \<noteq> DurableTaskType"
| "worker_request (R_cancel tid now) \<longleftrightarrow> False"
| "worker_request _ \<longleftrightarrow> True"

fun call_task :: "work_call \<Rightarrow> string" where
  "call_task (OnRunning p) = p"
| "call_task (OnTerminal p s n) = p"
| "call_task (OnRequeued p) = p"

definition new_calls :: "broker \<Rightarrow> broker \<Rightarrow> work_call list" where
  "new_calls b b' = drop (length (bk_calls b)) (bk_calls b')"

text \<open>The operations of the manager on the checklists, and on the gates and artifacts.\<close>

inductive checklist_step :: "work_db \<Rightarrow> work_db \<Rightarrow> bool" where
  "checklist_step db (snd (mgr_set_checklist tid items now db))"
| "checklist_step db (snd (mgr_add_item tid content now db))"
| "checklist_step db (snd (mgr_patch_item tid iid content st now db))"

inductive evidence_step :: "work_db \<Rightarrow> work_db \<Rightarrow> bool" where
  "evidence_step db (snd (RecordGate tid ev db))"
| "evidence_step db (snd (PutArtifact a db))"
| "evidence_step db (snd (DeleteArtifactsBefore before db))"

text \<open>
  The process ends, with every call it had not carried out, and starts again: the rows of the
  broker stay as they are, since its workers are processes of their own.
\<close>

definition restarted :: "int \<Rightarrow> work_db \<times> broker \<Rightarrow> work_db \<times> broker" where
  "restarted now s =
     (case s of (db, b) \<Rightarrow>
        (snd (RecoverInterrupted now db),
         NewBroker (bk_tasks b) (bk_max_retries b) (bk_timeout b)\<lparr>bk_work := True\<rparr>))"

text \<open>
  The histories.  The flag says that a history is orderly so far: no checklist was touched, the
  process did not restart, and the calls about one task were carried out in the order in which
  they were made.
\<close>

inductive sys_reach :: "(string \<Rightarrow> string \<Rightarrow> bool) \<Rightarrow> string \<Rightarrow> bool \<Rightarrow> work_db \<times> broker \<Rightarrow> work_call list \<Rightarrow> bool"
  for file_ok root where
  start: "sys_reach file_ok root True (empty_db, NewBroker [] m timeout\<lparr>bk_work := True\<rparr>) []"
| create: "sys_reach file_ok root ord s q \<Longrightarrow> tid \<noteq> [] \<Longrightarrow> bid \<noteq> [] \<Longrightarrow>
    sys_reach file_ok root ord (snd (Create tid now req (Some (adapter_submit bid ns)) s)) q"
| cancel: "sys_reach file_ok root ord s q \<Longrightarrow>
    sys_reach file_ok root ord (snd (WorkManager.Cancel tid who now (Some (adapter_cancel ns)) s)) q"
| request: "sys_reach file_ok root ord (db, b) q \<Longrightarrow> worker_request r \<Longrightarrow>
    sys_reach file_ok root ord (db, serve r b) (q @ new_calls b (serve r b))"
| deliver: "sys_reach file_ok root ord (db, b) (q @ c # q') \<Longrightarrow>
    sys_reach file_ok root (ord \<and> call_task c \<notin> call_task ` set q) (mirror_call file_ok root now c db, b) (q @ q')"
| checklist: "sys_reach file_ok root ord (db, b) q \<Longrightarrow> checklist_step db db' \<Longrightarrow>
    sys_reach file_ok root False (db', b) q"
| evidence: "sys_reach file_ok root ord (db, b) q \<Longrightarrow> evidence_step db db' \<Longrightarrow>
    sys_reach file_ok root ord (db', b) q"
| restart: "sys_reach file_ok root ord s q \<Longrightarrow> sys_reach file_ok root False (restarted now s) []"

subsection \<open>The status a durable row should show\<close>

definition durable_of :: "string \<Rightarrow> status" where
  "durable_of s =
     (if s = ''pending'' then Pending else if s = ''running'' then Running
      else if s = ''completed'' then Completed else if s = ''cancelled'' then Cancelled else Failed)"

abbreviation durable :: "task \<Rightarrow> bool" where
  "durable t \<equiv> tk_type t = DurableTaskType \<and> tk_parent t \<noteq> []"

lemmas machine_defs = CanTransitionTo_def isKnown_def KnownStatuses_def IsTerminal_def durable_of_def

lemma work_row_in: "work_row_of db p = Some r \<Longrightarrow> r \<in> set (db_tasks db) \<and> wr_id r = p"
  by (auto simp: find_Some_iff)

lemma work_row_Some:
  "distinct (map wr_id ts) \<Longrightarrow> find (\<lambda>r. wr_id r = p) ts = Some r \<longleftrightarrow> r \<in> set ts \<and> wr_id r = p"
  by (induction ts) auto

lemma length_filter_eq: "distinct xs \<Longrightarrow> length (filter (\<lambda>x. x = p) xs) = (if p \<in> set xs then 1 else 0)"
  by (induction xs) auto

lemma find_map_rows:
  "(\<And>r. wr_id (g r) = wr_id r) \<Longrightarrow> find (\<lambda>r. wr_id r = p) (map g ts) = map_option g (find (\<lambda>r. wr_id r = p) ts)"
  by (induction ts) auto

text \<open>A legal transition of an existing row succeeds and changes that row only.\<close>

definition set_status :: "string \<Rightarrow> status \<Rightarrow> int \<Rightarrow> work_row \<Rightarrow> work_row" where
  "set_status p st now r = (if wr_id r = p then r\<lparr>wr_status := st, wr_updated := now\<rparr> else r)"

lemma set_status_simps [simp]:
  "wr_id (set_status p st now r) = wr_id r" "wr_broker (set_status p st now r) = wr_broker r"
  "wr_status (set_status p st now r) = (if wr_id r = p then st else wr_status r)"
  by (simp_all add: set_status_def)

lemma Transition_ok:
  assumes "distinct (map wr_id (db_tasks db))" "work_row_of db p = Some r"
    and "CanTransitionTo (wr_status r) st = None"
  shows "\<exists>tl. Transition p st kind summary now db
    = (Inr (), db\<lparr>db_tasks := map (set_status p st now) (db_tasks db), db_timeline := tl\<rparr>)"
proof -
  have r: "r \<in> set (db_tasks db)" "wr_id r = p" using work_row_in [OF assms(2)] by simp_all
  have u: "q = r" if "q \<in> set (db_tasks db)" "wr_id q = p" for q
    using assms(1) that r by (metis inj_onD distinct_map)
  let ?hit = "\<lambda>q. wr_id q = p \<and> wr_status q = wr_status r"
  have "filter ?hit (db_tasks db) = filter (\<lambda>q. wr_id q = p) (db_tasks db)"
    by (rule filter_cong) (auto dest: u)
  moreover have "map wr_id (filter (\<lambda>q. wr_id q = p) ts) = filter (\<lambda>x. x = p) (map wr_id ts)" for ts
    by (induction ts) auto
  then have "length (filter (\<lambda>q. wr_id q = p) (db_tasks db)) = length (filter (\<lambda>x. x = p) (map wr_id (db_tasks db)))"
    by (metis length_map)
  moreover have "p \<in> set (map wr_id (db_tasks db))" using r by auto
  ultimately have one: "length (filter ?hit (db_tasks db)) = 1"
    using length_filter_eq [OF assms(1), of p] by simp
  have m: "map (\<lambda>q. if ?hit q then q\<lparr>wr_status := st, wr_updated := now\<rparr> else q) (db_tasks db)
      = map (set_status p st now) (db_tasks db)"
    by (rule map_cong) (auto simp: set_status_def dest: u)
  let ?e = "\<lparr>te_at = now, te_kind = kind, te_summary = summary, te_detail = []\<rparr>"
  from one assms(2,3) have "Transition p st kind summary now db = (Inr (), add_timeline p ?e
      (db\<lparr>db_tasks := map (\<lambda>q. if ?hit q then q\<lparr>wr_status := st, wr_updated := now\<rparr> else q) (db_tasks db)\<rparr>))"
    by (simp add: Transition_def Let_def)
  then show ?thesis unfolding m
    by (intro exI [of _ "db_timeline db @ [(p, ?e)]"]) (simp add: add_timeline_def)
qed

subsection \<open>Statements that leave every status alone\<close>

definition same_rows :: "work_db \<Rightarrow> work_db \<Rightarrow> bool" where
  "same_rows db db' \<longleftrightarrow> (\<exists>g. db_tasks db' = map g (db_tasks db)
     \<and> (\<forall>r. wr_id (g r) = wr_id r \<and> wr_broker (g r) = wr_broker r \<and> wr_status (g r) = wr_status r))"

lemma same_rows_refl: "db_tasks db' = db_tasks db \<Longrightarrow> same_rows db db'"
  unfolding same_rows_def by (intro exI [of _ "\<lambda>r. r"]) simp

lemma same_rows_trans: "same_rows a b \<Longrightarrow> same_rows b c \<Longrightarrow> same_rows a c"
  unfolding same_rows_def by (elim exE conjE, rule_tac x = "ga \<circ> g" in exI) simp

lemma same_rows_touch: "db_tasks db' = db_tasks db \<Longrightarrow> same_rows db (WorkStore.touch p now db')"
  unfolding same_rows_def
  by (intro exI [of _ "\<lambda>r. if wr_id r = p then r\<lparr>wr_updated := now\<rparr> else r"])
     (simp add: WorkStore.touch_def on_task_def)

lemma same_rows_row:
  assumes "same_rows db db'" "work_row_of db p = Some r"
  shows "\<exists>q. work_row_of db' p = Some q \<and> wr_broker q = wr_broker r \<and> wr_status q = wr_status r"
proof -
  obtain g where g: "db_tasks db' = map g (db_tasks db)" "\<And>r. wr_id (g r) = wr_id r"
      "\<And>r. wr_broker (g r) = wr_broker r" "\<And>r. wr_status (g r) = wr_status r"
    using assms(1) unfolding same_rows_def by blast
  then show ?thesis using assms(2) find_map_rows [of g p "db_tasks db"] by simp
qed

lemma same_rows_gate: "same_rows db (snd (gateCompletion file_ok root p now db))"
proof -
  have sc: "same_rows db (snd (SetChecklist p v now db))" for v
    by (simp add: SetChecklist_def same_rows_refl same_rows_touch)
  have tl: "same_rows d (snd (AppendTimeline p e d))" for e d
    by (simp add: AppendTimeline_def same_rows_refl same_rows_touch add_timeline_def)
  show ?thesis
  proof (cases "store_get p db")
    case (Inr t)
    obtain v u where g: "checklistGate file_ok (wt_checklist t) root (wt_gates t) = (v, u)" by fastforce
    obtain r db1 where s: "SetChecklist p v now db = (r, db1)" by fastforce
    have 1: "same_rows db db1" using sc [of v] s by simp
    from Inr g s 1 same_rows_trans [OF 1 tl] show ?thesis
      by (cases r) (auto simp: gateCompletion_def same_rows_refl case_prod_beta)
  qed (simp add: gateCompletion_def same_rows_refl)
qed

lemma same_rows_steps:
  "checklist_step db db' \<Longrightarrow> same_rows db db'" "evidence_step db db' \<Longrightarrow> same_rows db db'"
  by (auto elim!: checklist_step.cases evidence_step.cases
      simp: mgr_set_checklist_def mgr_add_item_def mgr_patch_item_def read_after_def Let_def
        SetChecklist_def AddChecklistItem_def PatchChecklistItem_def RecordGate_def PutArtifact_def
        DeleteArtifactsBefore_def add_timeline_def same_rows_refl same_rows_touch
      split: prod.splits sum.splits)

lemma evidence_step_items: "evidence_step db db' \<Longrightarrow> db_items db' = db_items db"
  by (auto elim!: evidence_step.cases simp: RecordGate_def PutArtifact_def DeleteArtifactsBefore_def add_timeline_def)

subsection \<open>The rows a recovery returns to the queue\<close>

definition recovered_row :: "string list \<Rightarrow> int \<Rightarrow> work_row \<Rightarrow> work_row" where
  "recovered_row ids now r =
     (if wr_id r \<in> set ids then r\<lparr>wr_status := Pending, wr_updated := now\<rparr> else r)"

lemma recover_loop_rows:
  "distinct (map wr_id (db_tasks db)) \<Longrightarrow> distinct ids \<Longrightarrow>
   \<forall>i \<in> set ids. \<exists>r. work_row_of db i = Some r \<and> wr_status r = Running \<Longrightarrow>
   fst (recover_loop ids m now db) = (m + int (length ids), None)
   \<and> db_tasks (snd (recover_loop ids m now db)) = map (recovered_row ids now) (db_tasks db)"
proof (induction ids arbitrary: m db)
  case Nil
  then show ?case by (simp add: recovered_row_def [abs_def])
next
  case (Cons i ids)
  obtain r where r: "work_row_of db i = Some r" "wr_status r = Running" using Cons.prems(3) by auto
  have "CanTransitionTo (wr_status r) Pending = None" by (simp add: r(2) machine_defs)
  from Transition_ok [OF Cons.prems(1) r(1) this, of "''recovered''" "''process restarted while this task was running''" now]
  obtain tl where tl: "Transition i Pending ''recovered'' ''process restarted while this task was running'' now db
      = (Inr (), db\<lparr>db_tasks := map (set_status i Pending now) (db_tasks db), db_timeline := tl\<rparr>)" (is "_ = (_, ?db1)")
    by blast
  have d: "distinct (map wr_id (db_tasks ?db1))" using Cons.prems(1) by (simp add: comp_def)
  have "\<forall>j \<in> set ids. \<exists>r. work_row_of ?db1 j = Some r \<and> wr_status r = Running"
  proof
    fix j assume j: "j \<in> set ids"
    then obtain q where q: "work_row_of db j = Some q" "wr_status q = Running" using Cons.prems(3) by auto
    have "wr_id q \<noteq> i" using work_row_in [OF q(1)] j Cons.prems(2) by auto
    with q show "\<exists>r. work_row_of ?db1 j = Some r \<and> wr_status r = Running"
      using find_map_rows [of "set_status i Pending now" j "db_tasks db"] by simp
  qed
  from Cons.IH [OF d _ this, of "m + 1"] Cons.prems(2) tl show ?case
    by (auto simp: recovered_row_def set_status_def)
qed

lemma RecoverInterrupted_rows:
  assumes "distinct (map wr_id (db_tasks db))"
  shows "fst (RecoverInterrupted now db)
      = (int (length (filter (\<lambda>r. wr_status r = Running) (db_tasks db))), None)
    \<and> db_tasks (snd (RecoverInterrupted now db))
      = map (\<lambda>r. if wr_status r = Running then r\<lparr>wr_status := Pending, wr_updated := now\<rparr> else r) (db_tasks db)"
proof -
  let ?run = "filter (\<lambda>r. wr_status r = Running) (db_tasks db)"
  have s: "set (runningIDs db) = wr_id ` set ?run" by (simp add: runningIDs_def)
  have inj: "inj_on wr_id (set (db_tasks db))" using assms by (simp add: distinct_map)
  have dr: "distinct (map wr_id ?run)" using assms by (rule distinct_map_filter)
  have "distinct (runningIDs db)" using dr by (simp add: runningIDs_def distinct_map)
  moreover have "\<forall>i \<in> set (runningIDs db). \<exists>r. work_row_of db i = Some r \<and> wr_status r = Running"
    using s work_row_Some [OF assms] by auto
  moreover have "recovered_row (runningIDs db) now r
      = (if wr_status r = Running then r\<lparr>wr_status := Pending, wr_updated := now\<rparr> else r)"
    if r: "r \<in> set (db_tasks db)" for r
  proof -
    have "wr_id r \<in> set (runningIDs db) \<longleftrightarrow> wr_status r = Running"
      using s r inj_onD [OF inj] by auto
    then show ?thesis by (simp add: recovered_row_def)
  qed
  moreover have "length (runningIDs db) = length ?run" by (simp add: runningIDs_def)
  ultimately show ?thesis
    using recover_loop_rows [OF assms, of "runningIDs db" 0 now]
    by (simp add: RecoverInterrupted_def cong: map_cong)
qed

subsection \<open>What the mirror does to a row\<close>

fun call_target :: "work_call \<Rightarrow> status" where
  "call_target (OnRunning p) = Running"
| "call_target (OnTerminal p s n) = (if s = ''completed'' then Completed else Failed)"
| "call_target (OnRequeued p) = Pending"

definition advance :: "status \<Rightarrow> status \<Rightarrow> status" where
  "advance st next = (if CanTransitionTo st next = None then next else st)"

definition moved :: "string \<Rightarrow> status \<Rightarrow> int \<Rightarrow> work_row \<Rightarrow> work_row" where
  "moved p st now r = (if wr_id r = p \<and> CanTransitionTo (wr_status r) st = None
     then r\<lparr>wr_status := st, wr_updated := now\<rparr> else r)"

lemma moved_simps [simp]:
  "wr_id (moved p st now r) = wr_id r" "wr_broker (moved p st now r) = wr_broker r"
  "wr_status (moved p st now r) = (if wr_id r = p then advance (wr_status r) st else wr_status r)"
  by (simp_all add: moved_def advance_def)

lemma Transition_moved:
  assumes "distinct (map wr_id (db_tasks db))"
  shows "db_tasks (snd (Transition p st k sm now db)) = map (moved p st now) (db_tasks db)
    \<and> db_items (snd (Transition p st k sm now db)) = db_items db"
proof (cases "work_row_of db p")
  case None
  then have "map (moved p st now) (db_tasks db) = db_tasks db"
    by (auto simp: find_None_iff moved_def intro: map_idI)
  with None show ?thesis by (simp add: Transition_def)
next
  case (Some r)
  have one: "q = r" if "q \<in> set (db_tasks db)" "wr_id q = p" for q
    using Some that by (simp add: work_row_Some [OF assms]) (metis assms inj_onD distinct_map)
  show ?thesis
  proof (cases "CanTransitionTo (wr_status r) st")
    case None
    have "map (set_status p st now) (db_tasks db) = map (moved p st now) (db_tasks db)"
      by (rule map_cong) (use one None in \<open>auto simp: set_status_def moved_def\<close>)
    with Transition_ok [OF assms Some None, of k sm now] show ?thesis by auto
  next
    case illegal: (Some e)
    have "map (moved p st now) (db_tasks db) = db_tasks db"
      by (rule map_idI) (use one illegal in \<open>auto simp: moved_def\<close>)
    with Some illegal show ?thesis by (simp add: Transition_def)
  qed
qed

lemma has_task_row: "has_task db p \<Longrightarrow> \<exists>r. work_row_of db p = Some r"
  by (cases "work_row_of db p") (auto simp: find_None_iff)

lemma no_items_no_gate:
  assumes "work_row_of db p = Some r" "db_items db = []"
  shows "gateCompletion file_ok root p now db = (Inr (), db)"
proof -
  obtain t where "store_get p db = Inr t" "wt_checklist t = []"
    using assms by (simp add: store_get_def items_of_def work_row.extend_def work_task.fields_def)
  then show ?thesis by (simp add: gateCompletion_def)
qed

definition row_effect :: "work_call \<Rightarrow> work_db \<Rightarrow> work_db \<Rightarrow> bool" where
  "row_effect c db db' \<longleftrightarrow> (\<exists>g. db_tasks db' = map g (db_tasks db)
     \<and> (\<forall>r. wr_id (g r) = wr_id r \<and> wr_broker (g r) = wr_broker r)
     \<and> (\<forall>r. wr_id r \<noteq> call_task c \<longrightarrow> wr_status (g r) = wr_status r)
     \<and> (\<forall>r. wr_id r = call_task c \<longrightarrow> wr_status (g r) = advance (wr_status r) (call_target c)
          \<or> wr_status (g r) = wr_status r \<and> db_items db \<noteq> []))"

lemma row_effect_moved:
  assumes "same_rows db db1" "db_tasks db' = map (moved (call_task c) (call_target c) now) (db_tasks db1)"
  shows "row_effect c db db'"
proof -
  obtain g where g: "db_tasks db1 = map g (db_tasks db)"
      "\<And>r. wr_id (g r) = wr_id r" "\<And>r. wr_broker (g r) = wr_broker r" "\<And>r. wr_status (g r) = wr_status r"
    using assms(1) unfolding same_rows_def by blast
  show ?thesis
    unfolding row_effect_def
    by (rule exI [of _ "\<lambda>r. moved (call_task c) (call_target c) now (g r)"]) (simp add: assms(2) g)
qed

lemma same_rows_distinct: "same_rows db db' \<Longrightarrow> distinct (map wr_id (db_tasks db)) \<Longrightarrow> distinct (map wr_id (db_tasks db'))"
  by (auto simp: same_rows_def comp_def)

lemma lift_store_snd [simp]: "snd (lift_store r) = snd r"
  by (simp add: lift_store_def split: prod.split sum.split)

lemma mirror_call_effect:
  assumes "distinct (map wr_id (db_tasks db))"
  shows "row_effect c db (mirror_call file_ok root now c db)"
    and "db_items db = [] \<Longrightarrow> has_task db (call_task c) \<Longrightarrow> db_items (mirror_call file_ok root now c db) = []"
proof -
  note r = row_effect_moved [OF same_rows_refl [OF refl]]
  have "row_effect c db (mirror_call file_ok root now c db) \<and>
    (db_items db = [] \<longrightarrow> has_task db (call_task c) \<longrightarrow> db_items (mirror_call file_ok root now c db) = [])"
  proof (cases c)
    case (OnRunning p)
    then show ?thesis
      using Transition_moved [OF assms, of p Running "''started''" "''task started''" now]
      by (simp add: mirror_running_def Start_def case_prod_beta r [where now = now])
  next
    case (OnRequeued p)
    then show ?thesis
      using Transition_moved [OF assms, of p Pending "''requeued''" "''attempt failed; returned to the queue''" now]
      by (simp add: mirror_requeued_def case_prod_beta r [where now = now])
  next
    case (OnTerminal p s n)
    let ?st = "call_target c"
    let ?n = "if s = ''timeout'' \<and> n = [] then ''worker timed out'' else n"
    have m: "mirror_call file_ok root now c db = snd (Finish file_ok root p ?st ?n now db)"
      by (simp add: OnTerminal mirror_terminal_def case_prod_beta Let_def)
    have st: "?st = Completed \<or> ?st = Failed" by (simp add: OnTerminal)
    obtain gr db1 where g: "(if ?st = Completed then gateCompletion file_ok root p now db else (Inr (), db)) = (gr, db1)"
      by fastforce
    have s1: "same_rows db db1"
      using g same_rows_gate [of db file_ok root p now] same_rows_refl [OF refl, of db] by (auto split: if_splits)
    show ?thesis
    proof (cases gr)
      case (Inl e)
      then have f: "snd (Finish file_ok root p ?st ?n now db) = db1" using g st by (auto simp: Finish_def)
      have ne: "db_items db \<noteq> []" if h: "has_task db p"
      proof
        assume "db_items db = []"
        moreover obtain q where "work_row_of db p = Some q" using has_task_row [OF h] by blast
        ultimately have "gateCompletion file_ok root p now db = (Inr (), db)" by (intro no_items_no_gate)
        with g Inl show False by (auto split: if_splits)
      qed
      have "row_effect c db db1"
      proof (cases "has_task db p")
        case True
        with ne s1 show ?thesis unfolding same_rows_def row_effect_def by auto
      next
        case False
        obtain h where h: "db_tasks db1 = map h (db_tasks db)"
            "\<And>r. wr_id (h r) = wr_id r" "\<And>r. wr_broker (h r) = wr_broker r" "\<And>r. wr_status (h r) = wr_status r"
          using s1 unfolding same_rows_def by blast
        have "map (moved p ?st now) (db_tasks db1) = db_tasks db1"
          by (rule map_idI) (use False h(1,2) in \<open>auto simp: moved_def\<close>)
        then show ?thesis using row_effect_moved [OF s1, of db1 c now] OnTerminal by simp
      qed
      then show ?thesis unfolding m f using ne OnTerminal by auto
    next
      case (Inr u)
      have f: "snd (Finish file_ok root p ?st ?n now db) = snd (Transition p ?st ''finished'' (truncate_text ?n 240) now db1)"
        using g Inr st by (auto simp: Finish_def)
      note t = Transition_moved [OF same_rows_distinct [OF s1 assms], of p ?st "''finished''" "truncate_text ?n 240" now]
      have "db1 = db" if h: "db_items db = []" "has_task db p"
      proof -
        obtain q where "work_row_of db p = Some q" using has_task_row [OF h(2)] by blast
        from no_items_no_gate [OF this h(1)] g show ?thesis by (auto split: if_splits)
      qed
      with t row_effect_moved [OF s1, of _ c now] show ?thesis unfolding m f by (auto simp: OnTerminal)
    qed
  qed
  then show "row_effect c db (mirror_call file_ok root now c db)"
    and "db_items db = [] \<Longrightarrow> has_task db (call_task c) \<Longrightarrow> db_items (mirror_call file_ok root now c db) = []"
    by blast+
qed

subsection \<open>A durable row, the calls on their way to it, and its broker task\<close>

definition calls_to :: "string \<Rightarrow> work_call list \<Rightarrow> work_call list" where
  "calls_to p = filter (\<lambda>c. call_task c = p)"

abbreviation after_calls :: "status \<Rightarrow> work_call list \<Rightarrow> status" where
  "after_calls \<equiv> foldl (\<lambda>st c. advance st (call_target c))"

definition fits :: "bool \<Rightarrow> work_call list \<Rightarrow> status \<Rightarrow> string \<Rightarrow> bool" where
  "fits ord cs st bs \<longleftrightarrow> isKnown st \<and> (IsTerminal st \<longrightarrow> st = durable_of bs)
     \<and> (\<forall>p s n. OnTerminal p s n \<in> set cs \<longrightarrow> bs = s \<and> s \<in> {''completed'', ''failed'', ''timeout''})
     \<and> (ord \<longrightarrow> after_calls st cs = durable_of bs)"

lemma advance_terminal: "IsTerminal st \<Longrightarrow> advance st next = st"
  by (simp add: advance_def CanTransitionTo_def)

lemma after_calls_terminal: "IsTerminal st \<Longrightarrow> after_calls st cs = st"
  by (induction cs) (simp_all add: advance_terminal)

lemma fits_open: "fits ord cs st bs \<Longrightarrow> bs = ''pending'' \<or> bs = ''running'' \<Longrightarrow>
    (st = Pending \<or> st = Running) \<and> (\<forall>p s n. OnTerminal p s n \<notin> set cs)"
  by (auto simp: fits_def machine_defs)

lemma fits_call:
  assumes "fits ord cs st bs" "bs = ''pending'' \<or> bs = ''running''"
    and "CanTransitionTo (durable_of bs) (call_target c) = None" "call_target c = durable_of bs'"
    and "\<And>p s n. c = OnTerminal p s n \<Longrightarrow> bs' = s \<and> s \<in> {''completed'', ''failed'', ''timeout''}"
  shows "fits ord (cs @ [c]) st bs'"
proof -
  have st: "st = Pending \<or> st = Running" and no: "OnTerminal p s n \<notin> set cs" for p s n
    using fits_open [OF assms(1,2)] by blast+
  have "ord \<longrightarrow> after_calls st cs = durable_of bs" using assms(1) unfolding fits_def by blast
  then have "ord \<longrightarrow> after_calls st (cs @ [c]) = durable_of bs'" using assms(3,4) by (simp add: advance_def)
  moreover have "isKnown st" "\<not> IsTerminal st" using st by (auto simp: isKnown_def KnownStatuses_def IsTerminal_def)
  moreover have "bs' = s \<and> s \<in> {''completed'', ''failed'', ''timeout''}" if "OnTerminal p s n \<in> set (cs @ [c])" for p s n
    using that no [of p s n] assms(5) [of p s n] by auto
  ultimately show ?thesis unfolding fits_def by blast
qed

lemma fits_cancelled:
  assumes "fits ord cs st bs" "bs = ''pending'' \<or> bs = ''running''"
  shows "fits ord cs (advance st Cancelled) ''cancelled''"
proof -
  have st: "st = Pending \<or> st = Running" and no: "OnTerminal p s n \<notin> set cs" for p s n
    using fits_open [OF assms] by blast+
  have a: "advance st Cancelled = Cancelled" using st by (auto simp: advance_def machine_defs)
  have d: "durable_of ''cancelled'' = Cancelled" by (simp add: durable_of_def)
  have k: "isKnown Cancelled" "IsTerminal Cancelled" by (simp_all add: machine_defs)
  show ?thesis unfolding fits_def a d using k no after_calls_terminal [OF k(2)] by blast
qed

lemma fits_delivered:
  assumes "fits ord (cs @ c # cs') st bs" "st' = advance st (call_target c) \<or> st' = st \<and> \<not> ord"
  shows "fits (ord \<and> cs = []) (cs @ cs') st' bs"
proof -
  have f: "isKnown st" "IsTerminal st \<Longrightarrow> st = durable_of bs" "ord \<Longrightarrow> after_calls st (cs @ c # cs') = durable_of bs"
    and t: "\<And>p s n. OnTerminal p s n \<in> set (cs @ c # cs') \<Longrightarrow> bs = s \<and> s \<in> {''completed'', ''failed'', ''timeout''}"
    using assms(1) unfolding fits_def by blast+
  have kt: "isKnown (call_target c)" by (cases c) (simp_all add: isKnown_def KnownStatuses_def)
  have "st' = st \<or> st' = call_target c" using assms(2) by (auto simp: advance_def)
  then have "isKnown st'" using f(1) kt by blast
  moreover have "st' = durable_of bs" if i: "IsTerminal st'"
  proof (cases "st' = st")
    case False
    with \<open>st' = st \<or> st' = call_target c\<close> have c: "st' = call_target c" by blast
    with i obtain p s n where "c = OnTerminal p s n" by (cases c) (simp_all add: IsTerminal_def)
    with c t [of p s n] show ?thesis by (auto simp: durable_of_def)
  qed (use i f(2) in blast)
  moreover have "after_calls st' (cs @ cs') = durable_of bs" if "ord \<and> cs = []"
    using f(3) that assms(2) by auto
  moreover have "bs = s \<and> s \<in> {''completed'', ''failed'', ''timeout''}" if "OnTerminal p s n \<in> set (cs @ cs')" for p s n
    by (rule t [of p]) (use that in auto)
  ultimately show ?thesis unfolding fits_def by blast
qed

lemma fits_weaken: "fits ord cs st bs \<Longrightarrow> set cs' \<subseteq> set cs \<Longrightarrow> fits False cs' st bs"
  unfolding fits_def by blast

text \<open>The two layers, linked row by row.\<close>

definition in_step :: "bool \<Rightarrow> work_db \<Rightarrow> broker \<Rightarrow> work_call list \<Rightarrow> bool" where
  "in_step ord db b q \<longleftrightarrow> distinct (map wr_id (db_tasks db)) \<and> bk_work b \<and> (ord \<longrightarrow> db_items db = [])
     \<and> (\<forall>c \<in> set q. has_task db (call_task c))
     \<and> (\<forall>t \<in> set (bk_tasks b). durable t \<longrightarrow> tk_id t \<noteq> [] \<and> (\<exists>r. work_row_of db (tk_parent t) = Some r
          \<and> wr_broker r = tk_id t \<and> fits ord (calls_to (tk_parent t) q) (wr_status r) (tk_status t)))
     \<and> (\<forall>r \<in> set (db_tasks db). wr_broker r \<noteq> [] \<longrightarrow> (\<exists>t. row (bk_tasks b) (wr_broker r) = Some t
          \<and> durable t \<and> tk_parent t = wr_id r))"

lemma in_step_parts:
  assumes "in_step ord db b q"
  shows "distinct (map wr_id (db_tasks db))" "bk_work b" "ord \<Longrightarrow> db_items db = []"
    and "\<And>c. c \<in> set q \<Longrightarrow> has_task db (call_task c)"
    and "\<And>t. t \<in> set (bk_tasks b) \<Longrightarrow> durable t \<Longrightarrow> tk_id t \<noteq> []"
    and "\<And>t. t \<in> set (bk_tasks b) \<Longrightarrow> durable t \<Longrightarrow> \<exists>r. work_row_of db (tk_parent t) = Some r
          \<and> wr_broker r = tk_id t \<and> fits ord (calls_to (tk_parent t) q) (wr_status r) (tk_status t)"
    and "\<And>r. r \<in> set (db_tasks db) \<Longrightarrow> wr_broker r \<noteq> [] \<Longrightarrow> \<exists>t. row (bk_tasks b) (wr_broker r) = Some t
          \<and> durable t \<and> tk_parent t = wr_id r"
  using assms unfolding in_step_def by blast+

lemma broker_row_map: "(\<And>t. tk_id (F t) = tk_id t) \<Longrightarrow> row (map F ts) i = map_option F (row ts i)"
  by (induction ts) auto

text \<open>A step that keeps the links keeps the layers in step when it does so on each pair of rows.\<close>

lemma in_step_step:
  assumes s: "in_step ord db b q"
    and b': "bk_tasks b' = map F (bk_tasks b)" "bk_work b'"
    and F: "\<And>t. tk_id (F t) = tk_id t" "\<And>t. tk_type (F t) = tk_type t" "\<And>t. tk_parent (F t) = tk_parent t"
    and db': "db_tasks db' = map g (db_tasks db)" "ord' \<Longrightarrow> db_items db' = []"
    and g: "\<And>r. wr_id (g r) = wr_id r" "\<And>r. wr_broker (g r) = wr_broker r"
    and q': "\<And>c. c \<in> set q' \<Longrightarrow> has_task db (call_task c)"
    and fit: "\<And>t r. t \<in> set (bk_tasks b) \<Longrightarrow> durable t \<Longrightarrow> work_row_of db (tk_parent t) = Some r \<Longrightarrow>
      wr_broker r = tk_id t \<Longrightarrow> fits ord (calls_to (tk_parent t) q) (wr_status r) (tk_status t) \<Longrightarrow>
      fits ord' (calls_to (tk_parent t) q') (wr_status (g r)) (tk_status (F t))"
  shows "in_step ord' db' b' q'"
proof -
  note p = in_step_parts [OF s]
  have look: "work_row_of db' i = map_option g (work_row_of db i)" for i
    unfolding db'(1) by (rule find_map_rows) (rule g(1))
  have "map wr_id (db_tasks db') = map wr_id (db_tasks db)" using db'(1) g(1) by simp
  then have 1: "distinct (map wr_id (db_tasks db'))" "\<And>i. has_task db' i = has_task db i"
    using p(1) by (metis, metis list.set_map)
  have 2: "tk_id u \<noteq> [] \<and> (\<exists>r. work_row_of db' (tk_parent u) = Some r \<and> wr_broker r = tk_id u
      \<and> fits ord' (calls_to (tk_parent u) q') (wr_status r) (tk_status u))"
    if u: "u \<in> set (bk_tasks b')" "durable u" for u
  proof -
    obtain t where t: "t \<in> set (bk_tasks b)" "u = F t" using u(1) b'(1) by auto
    then have d: "durable t" using u(2) F by simp
    obtain r where r: "work_row_of db (tk_parent t) = Some r" "wr_broker r = tk_id t"
        "fits ord (calls_to (tk_parent t) q) (wr_status r) (tk_status t)"
      using p(6) [OF t(1) d] by blast
    from fit [OF t(1) d r] r p(5) [OF t(1) d] show ?thesis by (simp add: look t(2) F g)
  qed
  have 3: "\<exists>u. row (bk_tasks b') (wr_broker r) = Some u \<and> durable u \<and> tk_parent u = wr_id r"
    if r: "r \<in> set (db_tasks db')" "wr_broker r \<noteq> []" for r
  proof -
    obtain r0 where r0: "r0 \<in> set (db_tasks db)" "r = g r0" using r(1) db'(1) by auto
    with r(2) g obtain t where "row (bk_tasks b) (wr_broker r0) = Some t" "durable t" "tk_parent t = wr_id r0"
      using p(7) by force
    then show ?thesis using F by (simp add: r0(2) g b'(1) broker_row_map)
  qed
  show ?thesis
    unfolding in_step_def
  proof (intro conjI ballI impI)
    show "has_task db' (call_task c)" if "c \<in> set q'" for c unfolding 1(2) by (rule q' [OF that])
  qed (use 1(1) b'(2) db'(2) 2 3 in blast)+
qed

text \<open>Two durable tasks of the broker never share their durable row.\<close>

lemma in_step_own:
  assumes "in_step ord db b q" "t \<in> set (bk_tasks b)" "durable t" "u \<in> set (bk_tasks b)" "durable u"
    and "tk_parent t = tk_parent u"
  shows "tk_id t = tk_id u"
  using in_step_parts(6) [OF assms(1-3)] in_step_parts(6) [OF assms(1,4,5)] assms(6) by auto

lemma in_step_row:
  assumes s: "in_step ord db b q" "row (bk_tasks b) i = Some t" "table_ok (bk_tasks b)"
    and f: "\<And>t. tk_id (f t) = tk_id t" "\<And>t. tk_type (f t) = tk_type t" "\<And>t. tk_parent (f t) = tk_parent t"
    and b': "bk_tasks b' = on_row i f (bk_tasks b)" "bk_work b'"
    and cs: "\<And>c. c \<in> set cs \<Longrightarrow> durable t \<and> call_task c = tk_parent t"
    and hit: "\<And>st qs. durable t \<Longrightarrow> fits ord qs st (tk_status t) \<Longrightarrow> fits ord (qs @ cs) st (tk_status (f t))"
  shows "in_step ord db b' (q @ cs)"
proof (rule in_step_step [OF s(1), where F = "\<lambda>t. if tk_id t = i then f t else t" and g = "\<lambda>r. r"])
  note p = in_step_parts [OF s(1)]
  have t: "t \<in> set (bk_tasks b)" "tk_id t = i" using row_in [OF s(2)] row_id [OF s(2)] by simp_all
  have same: "u = t" if "u \<in> set (bk_tasks b)" "tk_id u = i" for u
    using that s(2) s(3) row_Some [of "bk_tasks b" i u] by (simp add: table_ok_def)
  show "has_task db (call_task c)" if c: "c \<in> set (q @ cs)" for c
  proof (cases "c \<in> set q")
    case False
    with c have "durable t" "call_task c = tk_parent t" using cs by auto
    then obtain r where "work_row_of db (call_task c) = Some r" using p(6) [OF t(1)] by metis
    from work_row_in [OF this] show ?thesis by (metis imageI)
  qed (rule p(4))
  fix u r
  assume u: "u \<in> set (bk_tasks b)" "durable u" "work_row_of db (tk_parent u) = Some r" "wr_broker r = tk_id u"
      "fits ord (calls_to (tk_parent u) q) (wr_status r) (tk_status u)"
  show "fits ord (calls_to (tk_parent u) (q @ cs)) (wr_status r) (tk_status (if tk_id u = i then f u else u))"
  proof (cases "tk_id u = i")
    case True
    then have ut: "u = t" using same u(1) by simp
    have "calls_to (tk_parent u) cs = cs" unfolding ut calls_to_def using cs by simp
    with hit [of "calls_to (tk_parent u) q" "wr_status r"] u(2,5) True ut show ?thesis by (simp add: calls_to_def)
  next
    case False
    have "calls_to (tk_parent u) cs = []"
      unfolding calls_to_def using cs in_step_own [OF s(1) t(1) _ u(1,2)] False t(2) by (fastforce simp: filter_empty_conv)
    with u(5) False show ?thesis by (simp add: calls_to_def)
  qed
qed (use f b' in_step_parts(3) [OF s(1)] in \<open>simp_all add: on_row_def\<close>)

definition calls_for :: "task \<Rightarrow> work_call \<Rightarrow> work_call list" where
  "calls_for t c = (if durable t then [c] else [])"

lemma notify_work_calls:
  "bk_work b \<Longrightarrow> bk_calls (notify_work t c b) = bk_calls b @ calls_for t (c (tk_parent t))"
  by (simp add: notify_work_def calls_for_def)

lemma notify_work_work [simp]: "bk_work (notify_work t c b) = bk_work b"
  by (simp add: notify_work_def)

lemma in_step_call:
  assumes "in_step ord db b q" "table_ok (bk_tasks b)" "row (bk_tasks b) i = Some t"
    and "\<And>t. tk_id (f t) = tk_id t" "\<And>t. tk_type (f t) = tk_type t" "\<And>t. tk_parent (f t) = tk_parent t"
    and "bk_tasks b' = on_row i f (bk_tasks b)" "bk_work b'"
    and "call_task c = tk_parent t" "tk_status t = ''pending'' \<or> tk_status t = ''running''"
    and "call_target c = durable_of (tk_status (f t))"
    and "\<And>p s n. c = OnTerminal p s n \<Longrightarrow> tk_status (f t) = s \<and> s \<in> {''completed'', ''failed'', ''timeout''}"
    and "CanTransitionTo (durable_of (tk_status t)) (call_target c) = None"
  shows "in_step ord db b' (q @ calls_for t c)"
  by (rule in_step_row [OF assms(1,3,2,4-8)])
     (use assms(9,12) fits_call [OF _ assms(10,13,11)] in \<open>auto simp: calls_for_def split: if_splits\<close>)

text \<open>An update that leaves the status as it is makes no call and needs none.\<close>

lemma in_step_silent:
  assumes "in_step ord db b q" "table_ok (bk_tasks b)" "row (bk_tasks b) i = Some t"
    and "\<And>t. tk_id (f t) = tk_id t" "\<And>t. tk_type (f t) = tk_type t" "\<And>t. tk_parent (f t) = tk_parent t"
    and "bk_tasks b' = on_row i f (bk_tasks b)" "bk_work b'" "tk_status (f t) = tk_status t"
  shows "in_step ord db b' q"
  using in_step_row [OF assms(1,3,2,4-8), of "[]"] assms(9) by simp

lemma in_step_same: "in_step ord db b q \<Longrightarrow> bk_tasks b' = bk_tasks b \<Longrightarrow> bk_work b' = bk_work b \<Longrightarrow> in_step ord db b' q"
  by (simp add: in_step_def)

subsection \<open>The handlers of the broker\<close>

definition follows :: "bool \<Rightarrow> work_db \<Rightarrow> work_call list \<Rightarrow> broker \<Rightarrow> broker \<Rightarrow> bool" where
  "follows ord db q b b' \<longleftrightarrow> (\<exists>cs. bk_calls b' = bk_calls b @ cs \<and> in_step ord db b' (q @ cs))"

lemma follows_silent: "bk_calls b' = bk_calls b \<Longrightarrow> in_step ord db b' q \<Longrightarrow> follows ord db q b b'"
  unfolding follows_def by (intro exI [of _ "[]"]) simp

lemma follows_call: "bk_calls b' = bk_calls b @ cs \<Longrightarrow> in_step ord db b' (q @ cs) \<Longrightarrow> follows ord db q b b'"
  unfolding follows_def by blast

lemma follows_trans:
  assumes "follows ord db q b b1" "\<And>q1. in_step ord db b1 q1 \<Longrightarrow> follows ord db q1 b1 b2"
  shows "follows ord db q b b2"
  using assms unfolding follows_def by (metis append.assoc)

lemma reclaim_calls [simp]:
  "bk_calls (reclaim_worktree i b) = bk_calls b" "bk_work (reclaim_worktree i b) = bk_work b"
  by (simp_all add: reclaim_worktree_def Let_def split: option.split)

lemma signal_calls [simp]: "bk_calls (signal b) = bk_calls b" "bk_work (signal b) = bk_work b"
  by (simp_all add: signal_def)

lemma follows_RecordResult:
  assumes "in_step ord db b q" "inv b"
  shows "follows ord db q b (snd (RecordResult tid w s r ns b))"
  using inv_table [OF assms(2)]
proof (cases rule: RecordResult_cases [where tid = tid and w = w and s = s and r = r and now = ns])
  case (refused e)
  with assms(1) show ?thesis by (intro follows_silent) simp_all
next
  case (retried t)
  let ?f = "\<lambda>t. t\<lparr>tk_status := ''pending'', tk_result := [], tk_assigned := [],
                tk_attempts := tk_attempts t + 1, tk_updated := unix ns\<rparr>"
  show ?thesis
  proof (rule follows_call [where cs = "calls_for t (OnRequeued (tk_parent t))"])
    show "bk_calls (snd (RecordResult tid w s r ns b)) = bk_calls b @ calls_for t (OnRequeued (tk_parent t))"
      using in_step_parts(2) [OF assms(1)] by (simp add: retried(6) notify_work_calls)
    show "in_step ord db (snd (RecordResult tid w s r ns b)) (q @ calls_for t (OnRequeued (tk_parent t)))"
      by (rule in_step_call [OF assms(1) inv_table [OF assms(2)] retried(1), where f = ?f])
         (use retried(2) in_step_parts(2) [OF assms(1)] in \<open>simp_all add: retried(6) machine_defs\<close>)
  qed
next
  case (ended t)
  let ?f = "\<lambda>t. t\<lparr>tk_status := s, tk_result := r, tk_updated := unix ns\<rparr>"
  show ?thesis
  proof (rule follows_call [where cs = "calls_for t (OnTerminal (tk_parent t) s r)"])
    show "bk_calls (snd (RecordResult tid w s r ns b)) = bk_calls b @ calls_for t (OnTerminal (tk_parent t) s r)"
      using in_step_parts(2) [OF assms(1)] by (simp add: ended(5) notify_work_calls)
    show "in_step ord db (snd (RecordResult tid w s r ns b)) (q @ calls_for t (OnTerminal (tk_parent t) s r))"
      by (rule in_step_call [OF assms(1) inv_table [OF assms(2)] ended(1), where f = ?f])
         (use ended(2,4) in_step_parts(2) [OF assms(1)] in \<open>auto simp: ended(5) machine_defs\<close>)
  qed
qed

lemma follows_sweep_one:
  assumes "in_step ord db b q" "inv b"
  shows "follows ord db q b (snd (sweep_one cutoff ns x b))"
  using inv_table [OF assms(2)]
proof (cases rule: sweep_one_cases [where cutoff = cutoff and now = ns and t = x])
  case skipped
  with assms(1) show ?thesis by (intro follows_silent) simp_all
next
  case (swept t)
  let ?f = "requeued_stale (bk_max_retries b) (unix ns)"
  let ?v = "?f t"
  have f: "tk_id (?f u) = tk_id u" "tk_type (?f u) = tk_type u" "tk_parent (?f u) = tk_parent u" for u
    by (simp_all add: requeued_stale_def)
  have st: "tk_status ?v = ''failed'' \<or> tk_status ?v = ''pending''" by (simp add: requeued_stale_def)
  let ?c = "if tk_status ?v = ''failed'' then OnTerminal (tk_parent t) ''failed'' ''worker stopped heartbeating''
            else OnRequeued (tk_parent t)"
  have calls: "bk_calls (snd (sweep_one cutoff ns x b)) = bk_calls b @ calls_for t ?c"
    using in_step_parts(2) [OF assms(1)] by (simp add: swept(4) Let_def notify_work_calls calls_for_def f)
  have "in_step ord db (snd (sweep_one cutoff ns x b)) (q @ calls_for t ?c)"
  proof (rule in_step_call [OF assms(1) inv_table [OF assms(2)] swept(1) f])
    show "call_target ?c = durable_of (tk_status ?v)" using st by (auto simp: durable_of_def)
    show "CanTransitionTo (durable_of (tk_status t)) (call_target ?c) = None"
      using swept(2) by (simp add: machine_defs)
  qed (use swept(2) in_step_parts(2) [OF assms(1)] in \<open>auto simp: swept(4) Let_def split: if_splits\<close>)
  with calls show ?thesis by (rule follows_call)
qed

lemma follows_sweep:
  "in_step ord db b q \<Longrightarrow> inv b \<Longrightarrow> follows ord db q b (snd (sweep cutoff ns ts b))"
proof (induction ts arbitrary: q b)
  case Nil
  then show ?case by (intro follows_silent) simp_all
next
  case (Cons x ts)
  let ?b1 = "snd (sweep_one cutoff ns x b)"
  have i: "inv ?b1" using effect_sweep_one [OF Cons.prems(2)] by (simp add: effect_def)
  have "fst (sweep_one cutoff ns x b) = None" by (rule sweep_one_tasks(1) [OF Cons.prems(2)])
  then have "sweep cutoff ns (x # ts) b = sweep cutoff ns ts ?b1" by (simp add: case_prod_beta)
  moreover have "follows ord db q b (snd (sweep cutoff ns ts ?b1))"
    using follows_sweep_one [OF Cons.prems] Cons.IH [OF _ i] by (rule follows_trans)
  ultimately show ?case by simp
qed

lemma claimed_simps:
  "tk_id (claimed w n t) = tk_id t" "tk_type (claimed w n t) = tk_type t"
  "tk_parent (claimed w n t) = tk_parent t" "tk_status (claimed w n t) = ''running''"
  by (simp_all add: claimed_def)

lemma follows_Claim:
  assumes "in_step ord db b q" "inv b"
  shows "follows ord db q b (snd (Claim w ns wt b))"
  using inv_table [OF assms(2)]
proof (cases rule: claim_take_cases [where w = w and now = ns])
  case none
  with assms(1) show ?thesis by (intro follows_silent) (simp_all add: Claim_def)
next
  case (taken t)
  let ?i = "tk_id t" and ?t1 = "claimed w (unix ns) t"
  let ?b1 = "b\<lparr>bk_tasks := on_row ?i (claimed w (unix ns)) (bk_tasks b)\<rparr>"
  have ok1: "table_ok (bk_tasks ?b1)"
    using table_step_ok [OF table_step.claim [of 0 "bk_tasks b" ?i w "unix ns"] inv_table [OF assms(2)]]
      guarded_on_row [OF inv_table [OF assms(2)] taken(1), of "\<lambda>t. tk_status t = ''pending''"] taken(2)
    by (simp add: ClaimTask_def claimed_def [abs_def])
  have r1: "row (bk_tasks ?b1) ?i = Some ?t1" using taken(1) by (simp add: on_row_lookup claimed_def)
  have "\<exists>x. bk_tasks (snd (claim_attach ?t1 wt ?b1)) = on_row ?i (\<lambda>t. (claimed w (unix ns) t)\<lparr>tk_worktree := x t\<rparr>) (bk_tasks b)"
  proof (cases "bk_vcs ?b1 \<and> bk_repo ?b1 \<noteq> [] \<and> tk_worktree ?t1 = [] \<and> wt \<noteq> None")
    case True
    then obtain x where x: "wt = Some x" by blast
    have "SetTaskWorktree ?i x (bk_tasks ?b1) = (Inr (), on_row ?i (\<lambda>t. t\<lparr>tk_worktree := x\<rparr>) (bk_tasks ?b1))"
      unfolding SetTaskWorktree_def by (rule guarded_id_row [OF ok1 r1])
    with True x show ?thesis
      by (intro exI [of _ "\<lambda>_. x"]) (simp add: claim_attach_def claimed_def on_row_def comp_def)
  next
    case False
    then show ?thesis
      by (intro exI [of _ tk_worktree]) (auto simp: claim_attach_def claimed_def [abs_def])
  qed
  then obtain x where x: "bk_tasks (snd (claim_attach ?t1 wt ?b1))
      = on_row ?i (\<lambda>t. (claimed w (unix ns) t)\<lparr>tk_worktree := x t\<rparr>) (bk_tasks b)" ..
  have cw: "bk_work (snd (claim_attach g wt c)) = bk_work c" "bk_calls (snd (claim_attach g wt c)) = bk_calls c"
      "tk_type (fst (claim_attach g wt c)) = tk_type g" "tk_parent (fst (claim_attach g wt c)) = tk_parent g" for g c
    by (auto simp: claim_attach_def split: option.split sum.split prod.split)
  have cl: "snd (Claim w ns wt b) = notify_work (fst (claim_attach ?t1 wt ?b1)) OnRunning (snd (claim_attach ?t1 wt ?b1))"
    by (simp add: Claim_def taken(4) Let_def case_prod_beta)
  have calls: "bk_calls (snd (Claim w ns wt b)) = bk_calls b @ calls_for t (OnRunning (tk_parent t))"
    using in_step_parts(2) [OF assms(1)] by (simp add: cl notify_work_calls cw calls_for_def claimed_def)
  have "in_step ord db (snd (Claim w ns wt b)) (q @ calls_for t (OnRunning (tk_parent t)))"
    by (rule in_step_call [OF assms(1) inv_table [OF assms(2)] taken(1),
          where f = "\<lambda>t. (claimed w (unix ns) t)\<lparr>tk_worktree := x t\<rparr>"])
       (use in_step_parts(2) [OF assms(1)] taken(2) in
         \<open>simp_all add: cl x cw claimed_simps machine_defs\<close>)
  with calls show ?thesis by (rule follows_call)
qed

lemma follows_serve:
  assumes "in_step ord db b q" "inv b" "worker_request r"
  shows "follows ord db q b (serve r b)"
proof (cases r)
  case (R_submit tid ns k i p)
  then have k: "k \<noteq> DurableTaskType" using assms(3) by simp
  show ?thesis
  proof (cases "tid \<in> tk_id ` set (bk_tasks b)")
    case True
    with assms(1) R_submit show ?thesis
      by (intro follows_silent) (auto simp: Submit_def CreateTask_def intro: in_step_same)
  next
    case False
    define t where "t = \<lparr>tk_id = tid, tk_type = k, tk_input = i, tk_status = ''pending'',
      tk_assigned = [], tk_result = [], tk_parent = p, tk_created = unix ns,
      tk_updated = unix ns, tk_deadline = 0, tk_attempts = 0, tk_worktree = []\<rparr>"
    have s: "serve r b = signal (b\<lparr>bk_tasks := bk_tasks b @ [t]\<rparr>)"
      using False R_submit by (simp add: Submit_def CreateTask_def t_def)
    have "in_step ord db (b\<lparr>bk_tasks := bk_tasks b @ [t]\<rparr>) q"
      using assms(1) k unfolding in_step_def by (auto simp: t_def find_append)
    then show ?thesis unfolding s by (intro follows_silent) (auto intro: in_step_same)
  qed
next
  case (R_claim w ns wt)
  with follows_Claim [OF assms(1,2)] show ?thesis by simp
next
  case (R_result tid w s res ns)
  with follows_RecordResult [OF assms(1,2)] show ?thesis by simp
next
  case (R_heartbeat tid ns)
  from inv_table [OF assms(2)] show ?thesis
  proof (cases rule: Heartbeat_cases [where tid = tid and now = ns])
    case (refused e)
    with assms(1) R_heartbeat show ?thesis by (intro follows_silent) simp_all
  next
    case (touched t)
    have "in_step ord db (snd (Heartbeat tid ns b)) q"
      by (rule in_step_silent [OF assms(1) inv_table [OF assms(2)] touched(1), where f = "\<lambda>t. t\<lparr>tk_updated := unix ns\<rparr>"])
         (use in_step_parts(2) [OF assms(1)] in \<open>simp_all add: touched(2)\<close>)
    with touched(2) R_heartbeat show ?thesis by (intro follows_silent) simp_all
  qed
next
  case (R_cancel tid ns)
  with assms(3) show ?thesis by simp
next
  case (R_sweep ns)
  with follows_sweep [OF assms(1,2)] show ?thesis by (simp add: RequeueStale_def Let_def)
next
  case (R_set_vcs v repo)
  with assms(1) show ?thesis by (intro follows_silent) (auto simp: SetVCS_def intro: in_step_same)
next
  case R_receive
  with assms(1) show ?thesis by (intro follows_silent) (auto intro: in_step_same)
qed

subsection \<open>The interface between the manager and its dispatcher\<close>

text \<open>
  What the manager relies on: a cancellation that succeeds leaves no live task behind, one
  that fails changes nothing.  Its \<open>Cancel\<close> then never reports a durable task as cancelled
  while the dispatcher may still run it, and a dispatcher that refuses blocks it completely.
\<close>

locale dispatcher =
  fixes cancel :: "'d canceller"
    and live :: "'d \<Rightarrow> string \<Rightarrow> bool"
  assumes cancel_ends: "cancel i d = (Inr u, d') \<Longrightarrow> \<not> live d' i"
    and cancel_fails: "cancel i d = (Inl e, d') \<Longrightarrow> d' = d"
begin

lemma Cancel_ends:
  assumes "WorkManager.Cancel tid who now (Some cancel) (db, d) = (Inr t, db', d')"
    and "store_get tid db = Inr t0" "wr_broker t0 \<noteq> []"
  shows "\<not> live d' (wr_broker t0)"
proof (cases "cancel (wr_broker t0) d")
  case (Pair r d1)
  with assms show ?thesis
    by (cases r) (auto simp: WorkManager.Cancel_def dest: cancel_ends split: prod.splits sum.splits)
qed

lemma Cancel_blocked:
  assumes "store_get tid db = Inr t0" "wr_broker t0 \<noteq> []" "fst (cancel (wr_broker t0) d) = Inl e"
  shows "WorkManager.Cancel tid who now (Some cancel) (db, d) = (Inl (Cancel_broker_failed e), db, d)"
proof (cases "cancel (wr_broker t0) d")
  case (Pair r d1)
  with assms have "r = Inl e" "d1 = d" using cancel_fails [of "wr_broker t0" d e d1] by simp_all
  with assms Pair show ?thesis by (simp add: WorkManager.Cancel_def)
qed

end

definition live_task :: "broker \<Rightarrow> string \<Rightarrow> bool" where
  "live_task b i \<longleftrightarrow> (\<exists>t \<in> set (bk_tasks b). tk_id t = i \<and> open_status t)"

interpretation broker_port: dispatcher "adapter_cancel ns" live_task for ns
proof unfold_locales
  fix i b b' and u :: unit
  assume a: "adapter_cancel ns i b = (Inr u, b')"
  obtain r ts where c: "CancelTask i (unix ns) (bk_tasks b) = (r, ts)" by (cases "CancelTask i (unix ns) (bk_tasks b)")
  have "bk_tasks b' = ts \<and> r = Inr ()"
    using a c by (cases r) (auto simp: adapter_cancel_def Broker.Cancel_def)
  then have b': "bk_tasks b' = ts" and r: "r = Inr ()" by blast+
  have "ts = map (cancelled i (unix ns)) (bk_tasks b)"
    using c r by (simp add: CancelTask_open split: if_splits)
  with b' show "\<not> live_task b' i" using cancelled_closed by (auto simp: live_task_def)
next
  fix i b b' e
  assume "adapter_cancel ns i b = (Inl e, b')"
  then show "b' = b"
    by (simp add: adapter_cancel_def Broker.Cancel_def CancelTask_open split: if_splits)
qed

subsection \<open>Both layers stay in step\<close>

lemma fits_mono: "fits ord cs st bs \<Longrightarrow> (ord' \<Longrightarrow> ord) \<Longrightarrow> fits ord' cs st bs"
  unfolding fits_def by blast

lemma in_step_rows:
  assumes "in_step ord db b q" "db_tasks db' = map g (db_tasks db)" "ord' \<Longrightarrow> db_items db' = []"
    and "\<And>r. wr_id (g r) = wr_id r" "\<And>r. wr_broker (g r) = wr_broker r"
    and "set q' \<subseteq> set q"
    and "\<And>t r. t \<in> set (bk_tasks b) \<Longrightarrow> durable t \<Longrightarrow> work_row_of db (tk_parent t) = Some r \<Longrightarrow>
      wr_broker r = tk_id t \<Longrightarrow> fits ord (calls_to (tk_parent t) q) (wr_status r) (tk_status t) \<Longrightarrow>
      fits ord' (calls_to (tk_parent t) q') (wr_status (g r)) (tk_status t)"
  shows "in_step ord' db' b q'"
  by (rule in_step_step [OF assms(1), where F = "\<lambda>t. t" and g = g])
     (use assms in_step_parts(2,4) [OF assms(1)] in \<open>auto simp: list.map_ident\<close>)

lemma in_step_same_rows:
  assumes "in_step ord db b q" "same_rows db db'" "ord' \<Longrightarrow> ord \<and> db_items db' = []"
  shows "in_step ord' db' b q"
proof -
  obtain g where g: "db_tasks db' = map g (db_tasks db)" "\<And>r. wr_id (g r) = wr_id r"
      "\<And>r. wr_broker (g r) = wr_broker r" "\<And>r. wr_status (g r) = wr_status r"
    using assms(2) unfolding same_rows_def by blast
  show ?thesis
    by (rule in_step_rows [OF assms(1) g(1) _ g(2,3)]) (use g(4) assms(3) fits_mono in auto)
qed

lemma in_step_create_row:
  assumes "in_step ord db b q" "\<not> has_task db (wr_id r)" "wr_broker r = []"
    and "db_tasks db' = db_tasks db @ [r]" "db_items db' = db_items db"
  shows "in_step ord db' b q"
proof -
  note p = in_step_parts [OF assms(1)]
  have "work_row_of db' i = Some x" if "work_row_of db i = Some x" for i x
    using that by (simp add: assms(4) find_append)
  then have "\<exists>r. work_row_of db' (tk_parent t) = Some r \<and> wr_broker r = tk_id t
      \<and> fits ord (calls_to (tk_parent t) q) (wr_status r) (tk_status t)" if "t \<in> set (bk_tasks b)" "durable t" for t
    using p(6) [OF that] by blast
  moreover have "distinct (map wr_id (db_tasks db'))" using p(1) assms(2,4) by simp
  moreover have "has_task db' (call_task c)" if "c \<in> set q" for c using p(4) [OF that] by (simp add: assms(4))
  moreover have "\<exists>t. row (bk_tasks b) (wr_broker x) = Some t \<and> durable t \<and> tk_parent t = wr_id x"
    if "x \<in> set (db_tasks db')" "wr_broker x \<noteq> []" for x
    using that p(7) [of x] assms(3,4) by auto
  ultimately show ?thesis unfolding in_step_def using p(2,3,5) assms(5) by simp
qed

text \<open>The dispatched task: its broker row is new, and the durable row points to it.\<close>

lemma in_step_attach:
  assumes s: "in_step ord db b q" "work_row_of db p = Some r" "wr_broker r = []" "wr_status r = Pending"
    and none: "calls_to p q = []"
    and t: "tk_id t \<notin> tk_id ` set (bk_tasks b)" "tk_id t \<noteq> []" "tk_type t = DurableTaskType" "tk_parent t = p"
      "tk_status t = ''pending''" "p \<noteq> []"
    and b': "bk_tasks b' = bk_tasks b @ [t]" "bk_work b' = bk_work b"
    and db': "db_tasks db' = map (\<lambda>r. if wr_id r = p then r\<lparr>wr_broker := tk_id t, wr_updated := now\<rparr> else r) (db_tasks db)"
      "db_items db' = db_items db"
  shows "in_step ord db' b' q"
proof -
  note w = in_step_parts [OF s(1)]
  let ?g = "\<lambda>r. if wr_id r = p then r\<lparr>wr_broker := tk_id t, wr_updated := now\<rparr> else r"
  have g: "wr_id (?g r) = wr_id r" "wr_status (?g r) = wr_status r" for r :: work_row by simp_all
  have look: "work_row_of db' i = map_option ?g (work_row_of db i)" for i
    unfolding db'(1) by (rule find_map_rows) simp
  have r: "r \<in> set (db_tasks db)" "wr_id r = p" using work_row_in [OF s(2)] by simp_all
  have old: "tk_parent u \<noteq> p" if u: "u \<in> set (bk_tasks b)" "durable u" for u
    using w(6) [OF u] w(5) [OF u] s(2,3) by auto
  have ids: "map wr_id (db_tasks db') = map wr_id (db_tasks db)" by (simp add: db'(1))
  then have 1: "distinct (map wr_id (db_tasks db'))" "\<And>i. has_task db' i = has_task db i"
    using w(1) by (metis, metis list.set_map)
  have 2: "\<exists>r. work_row_of db' (tk_parent u) = Some r \<and> wr_broker r = tk_id u
      \<and> fits ord (calls_to (tk_parent u) q) (wr_status r) (tk_status u)" if u: "u \<in> set (bk_tasks b')" "durable u" for u
  proof (cases "u = t")
    case True
    have "fits ord [] Pending ''pending''" by (simp add: fits_def machine_defs)
    with True s(2,4) t r none show ?thesis by (simp add: look)
  next
    case False
    then have ub: "u \<in> set (bk_tasks b)" using u(1) b'(1) by simp
    obtain x where "work_row_of db (tk_parent u) = Some x" "wr_broker x = tk_id u"
        "fits ord (calls_to (tk_parent u) q) (wr_status x) (tk_status u)"
      using w(6) [OF ub u(2)] by blast
    then show ?thesis using old [OF ub u(2)] work_row_in [of "tk_parent u" db x] by (simp add: look)
  qed
  have 3: "\<exists>u. row (bk_tasks b') (wr_broker x) = Some u \<and> durable u \<and> tk_parent u = wr_id x"
    if x: "x \<in> set (db_tasks db')" "wr_broker x \<noteq> []" for x
  proof -
    obtain x0 where x0: "x0 \<in> set (db_tasks db)" "x = ?g x0" using x(1) db'(1) by auto
    show ?thesis
    proof (cases "wr_id x0 = p")
      case True
      with x0(2) t b'(1) show ?thesis by (auto simp: find_append split: option.split dest: row_in row_id)
    next
      case False
      with x0(2) x(2) w(7) [OF x0(1)] show ?thesis by (auto simp: b'(1) find_append)
    qed
  qed
  have 4: "tk_id u \<noteq> []" if "u \<in> set (bk_tasks b')" "durable u" for u
    using that w(5) t(2) b'(1) by auto
  have 5: "ord \<Longrightarrow> db_items db' = []" "bk_work b'" using w(2,3) db'(2) b'(2) by simp_all
  have 6: "has_task db' (call_task c)" if "c \<in> set q" for c unfolding 1(2) by (rule w(4) [OF that])
  show ?thesis unfolding in_step_def using 1(1) 2 3 4 5 6 by blast
qed

lemma in_step_Create:
  assumes "in_step ord db b q" "inv b" "tid \<noteq> []" "bid \<noteq> []"
  shows "case snd (Create tid now req (Some (adapter_submit bid ns)) (db, b)) of (db', b') \<Rightarrow> in_step ord db' b' q \<and> inv b'"
proof -
  let ?w = "new_work_task tid now req"
  note p = in_step_parts [OF assms(1)]
  have row: "wr_id (work_row.truncate ?w) = tid" "wr_broker (work_row.truncate ?w) = []"
      "wr_status (work_row.truncate ?w) = Pending" "wt_checklist ?w = []" "wr_id ?w = tid"
    by (simp_all add: new_work_task_def work_row.truncate_def)
  show ?thesis
  proof (cases "trim_space (rq_title req) = [] \<or> trim_space (rq_prompt req) = [] \<or> has_task db tid")
    case True
    with assms(1,2) row(5) show ?thesis by (auto simp: Create_def Let_def store_create_def)
  next
    case False
    then obtain db1 where c: "store_create ?w db = (Inr (), db1)"
        "db_tasks db1 = db_tasks db @ [work_row.truncate ?w]" "db_items db1 = db_items db"
      using row(4,5) by (simp add: store_create_def distinct_items_def)
    have s1: "in_step ord db1 b q"
      using in_step_create_row [OF assms(1) _ row(2) c(2,3)] False row(1) by simp
    have look: "work_row_of db1 tid = Some (work_row.truncate ?w)"
    proof -
      have "work_row_of db tid = None" using False by (auto simp: find_None_iff)
      then show ?thesis by (simp add: c(2) find_append row(1))
    qed
    show ?thesis
    proof (cases "rq_dispatch req")
      case dispatch: False
      with False c(1) s1 assms(2) show ?thesis by (auto simp: Create_def Let_def)
    next
      case dispatch: True
      have h: "has_task db1 tid" using c(2) row(1) by simp
      have inv': "inv (snd (Submit bid ns ''work_task'' (rq_prompt req) tid b))"
        using effect_Submit [OF assms(2)] by (simp add: effect_def)
      show ?thesis
      proof (cases "bid \<in> tk_id ` set (bk_tasks b)")
        case True
        then have sub: "Submit bid ns ''work_task'' (rq_prompt req) tid b = (Inl (Broker.Store_error Constraint_violation), b)"
          by (simp add: Submit_def CreateTask_def)
        let ?e = "dispatch_note (broker_text (Broker.Store_error Constraint_violation)) now"
        have "in_step ord (touch tid (te_at ?e) (add_timeline tid ?e db1)) b q"
          by (rule in_step_same_rows [OF s1 same_rows_touch])
             (use in_step_parts(3) [OF s1] in \<open>auto simp: WorkStore.touch_def on_task_def add_timeline_def\<close>)
        with False dispatch c(1) sub h assms(2) show ?thesis
          by (simp add: Create_def Let_def adapter_submit_def AppendTimeline_def)
      next
        case nb: False
        define t where "t = \<lparr>tk_id = bid, tk_type = ''work_task'', tk_input = rq_prompt req, tk_status = ''pending'',
          tk_assigned = [], tk_result = [], tk_parent = tid, tk_created = unix ns,
          tk_updated = unix ns, tk_deadline = 0, tk_attempts = 0, tk_worktree = []\<rparr>"
        have sub: "Submit bid ns ''work_task'' (rq_prompt req) tid b = (Inr bid, signal (b\<lparr>bk_tasks := bk_tasks b @ [t]\<rparr>))"
          using nb by (simp add: Submit_def CreateTask_def t_def)
        let ?f = "\<lambda>r. r\<lparr>wr_broker := bid, wr_updated := now\<rparr>"
        have d1: "distinct (map wr_id (db_tasks db1))" by (rule in_step_parts(1) [OF s1])
        have "map wr_id (filter (\<lambda>r. wr_id r = tid) (db_tasks db1)) = filter (\<lambda>x. x = tid) (map wr_id (db_tasks db1))"
          by (simp add: filter_map comp_def)
        then have "length (filter (\<lambda>r. wr_id r = tid) (db_tasks db1)) = 1"
          using length_filter_eq [OF d1, of tid] h by (metis length_map set_map)
        then have att: "AttachBrokerTask tid bid now db1 = (Inr (), on_task tid ?f db1)"
          by (simp add: AttachBrokerTask_def)
        have "call_task c \<noteq> tid" if "c \<in> set q" for c using p(4) [OF that] False by auto
        then have none: "calls_to tid q = []" by (simp add: calls_to_def filter_empty_conv)
        have "in_step ord (on_task tid ?f db1) (signal (b\<lparr>bk_tasks := bk_tasks b @ [t]\<rparr>)) q"
          by (rule in_step_attach [OF s1 look row(2,3) none, where t = t and now = now])
             (use nb assms(3,4) in \<open>simp_all add: t_def DurableTaskType_def on_task_def\<close>)
        with False dispatch c(1) sub att inv' show ?thesis
          by (simp add: Create_def Let_def adapter_submit_def)
      qed
    qed
  qed
qed

lemma in_step_Cancel:
  assumes "in_step ord db b q" "inv b"
  shows "case snd (WorkManager.Cancel tid who now (Some (adapter_cancel ns)) (db, b)) of
    (db', b') \<Rightarrow> in_step ord db' b' q \<and> inv b'"
proof (cases "work_row_of db tid")
  case None
  with assms show ?thesis by (simp add: WorkManager.Cancel_def store_get_def)
next
  case (Some r)
  note p = in_step_parts [OF assms(1)]
  have r: "r \<in> set (db_tasks db)" "wr_id r = tid" using work_row_in [OF Some] by simp_all
  obtain w where w: "store_get tid db = Inr w" "wr_broker w = wr_broker r"
    using Some by (simp add: store_get_def work_row.extend_def)
  let ?g = "moved tid Cancelled now"
  let ?T = "Transition tid Cancelled ''cancelled'' (''cancelled by '' @ who) now db"
  note T = Transition_moved [OF p(1), of tid Cancelled "''cancelled''" "''cancelled by '' @ who" now]
  have done_: "snd (WorkManager.Cancel tid who now (Some (adapter_cancel ns)) (db, b)) = (snd ?T, b1)"
    if "wr_broker r = [] \<and> b1 = b \<or> adapter_cancel ns (wr_broker r) b = (Inr u, b1) \<and> wr_broker r \<noteq> []" for b1 and u :: unit
    using w that by (cases ?T) (auto simp: WorkManager.Cancel_def split: sum.split)
  show ?thesis
  proof (cases "wr_broker r = []")
    case True
    have "in_step ord (snd ?T) b q"
    proof (rule in_step_rows [OF assms(1), where g = ?g])
      fix t x
      assume t: "t \<in> set (bk_tasks b)" "durable t" "work_row_of db (tk_parent t) = Some x" "wr_broker x = tk_id t"
        "fits ord (calls_to (tk_parent t) q) (wr_status x) (tk_status t)"
      have "wr_id x \<noteq> tid" using t p(5) [OF t(1,2)] Some True work_row_in [OF t(3)] by auto
      with t(5) show "fits ord (calls_to (tk_parent t) q) (wr_status (?g x)) (tk_status t)" by simp
    qed (use T p(3) in auto)
    with done_ [of b] True assms(2) show ?thesis by simp
  next
    case False
    obtain t where t: "row (bk_tasks b) (wr_broker r) = Some t" "durable t" "tk_parent t = tid"
      using p(7) [OF r(1) False] r(2) by auto
    from inv_table [OF assms(2)] show ?thesis
    proof (cases rule: Cancel_cases [where tid = "wr_broker r" and now = ns])
      case refused
      then have "adapter_cancel ns (wr_broker r) b = (Inl (broker_text (Broker.Store_error Not_cancellable)), b)"
        by (simp add: adapter_cancel_def)
      with w False assms show ?thesis by (simp add: WorkManager.Cancel_def)
    next
      case (done_ t')
      have t': "t' = t" using done_(1) t(1) by simp
      let ?f = "\<lambda>t. t\<lparr>tk_status := ''cancelled'', tk_updated := unix ns\<rparr>"
      let ?F = "\<lambda>t. if tk_id t = wr_broker r then ?f t else t"
      let ?b1 = "reclaim_worktree (wr_broker r) (b\<lparr>bk_tasks := on_row (wr_broker r) ?f (bk_tasks b)\<rparr>)"
      have c: "adapter_cancel ns (wr_broker r) b = (Inr (), ?b1)" by (simp add: adapter_cancel_def done_(3))
      have i: "inv ?b1" using effect_Cancel [OF assms(2), of "wr_broker r" ns] by (simp add: effect_def done_(3))
      have "in_step ord (snd ?T) ?b1 q"
      proof (rule in_step_step [OF assms(1), where F = ?F and g = ?g])
        fix u x
        assume u: "u \<in> set (bk_tasks b)" "durable u" "work_row_of db (tk_parent u) = Some x" "wr_broker x = tk_id u"
          "fits ord (calls_to (tk_parent u) q) (wr_status x) (tk_status u)"
        show "fits ord (calls_to (tk_parent u) q) (wr_status (?g x)) (tk_status (?F u))"
        proof (cases "tk_id u = wr_broker r")
          case True
          then have "u = t" using u(1) t(1) inv_table [OF assms(2)] row_Some [of "bk_tasks b" "wr_broker r" u]
            by (simp add: table_ok_def)
          then have "tk_status u = ''pending'' \<or> tk_status u = ''running''" "wr_id x = tid"
            using done_(2) t' t(3) u(3) by (auto simp: open_status_def dest: work_row_in)
          with fits_cancelled [OF u(5)] True show ?thesis by simp
        next
          case False
          then have "tk_parent u \<noteq> tid" using u(3,4) Some by auto
          then have "wr_id x \<noteq> tid" using work_row_in [OF u(3)] by simp
          with u(5) False show ?thesis by simp
        qed
      qed (use T p(2-4) in \<open>auto simp: on_row_def\<close>)
      moreover have "snd (WorkManager.Cancel tid who now (Some (adapter_cancel ns)) (db, b)) = (snd ?T, ?b1)"
        using w False c by (cases ?T) (auto simp: WorkManager.Cancel_def split: sum.split)
      ultimately show ?thesis using i by simp
    qed
  qed
qed

lemma in_step_deliver:
  assumes "in_step ord db b (q @ c # q')"
  shows "in_step (ord \<and> call_task c \<notin> call_task ` set q) (mirror_call file_ok root now c db) b (q @ q')"
proof -
  let ?ord = "ord \<and> call_task c \<notin> call_task ` set q"
  note p = in_step_parts [OF assms]
  note e = mirror_call_effect [OF p(1), of c file_ok root now]
  obtain g where g: "db_tasks (mirror_call file_ok root now c db) = map g (db_tasks db)"
      "\<And>r. wr_id (g r) = wr_id r" "\<And>r. wr_broker (g r) = wr_broker r"
    and miss: "\<And>r. wr_id r \<noteq> call_task c \<Longrightarrow> wr_status (g r) = wr_status r"
    and hit: "\<And>r. wr_id r = call_task c \<Longrightarrow> wr_status (g r) = advance (wr_status r) (call_target c)
        \<or> wr_status (g r) = wr_status r \<and> db_items db \<noteq> []"
    using e(1) unfolding row_effect_def by blast
  show ?thesis
  proof (rule in_step_rows [OF assms g(1) _ g(2,3)])
    show "db_items (mirror_call file_ok root now c db) = []" if "?ord"
      by (rule e(2)) (use p(3,4) that in auto)
    show "set (q @ q') \<subseteq> set (q @ c # q')" by auto
    fix t r
    assume t: "work_row_of db (tk_parent t) = Some r"
      "fits ord (calls_to (tk_parent t) (q @ c # q')) (wr_status r) (tk_status t)"
    have id: "wr_id r = tk_parent t" using work_row_in [OF t(1)] by simp
    show "fits ?ord (calls_to (tk_parent t) (q @ q')) (wr_status (g r)) (tk_status t)"
    proof (cases "call_task c = tk_parent t")
      case False
      with t(2) miss [of r] id have "fits ord (calls_to (tk_parent t) (q @ q')) (wr_status (g r)) (tk_status t)"
        by (simp add: calls_to_def)
      then show ?thesis by (rule fits_mono) simp
    next
      case True
      have f: "fits ord (calls_to (tk_parent t) q @ c # calls_to (tk_parent t) q') (wr_status r) (tk_status t)"
        using t(2) True by (simp add: calls_to_def)
      have "wr_status (g r) = advance (wr_status r) (call_target c) \<or> wr_status (g r) = wr_status r \<and> \<not> ord"
        using hit [of r] id True p(3) by auto
      from fits_delivered [OF f this]
      have "fits (ord \<and> calls_to (tk_parent t) q = []) (calls_to (tk_parent t) (q @ q')) (wr_status (g r)) (tk_status t)"
        by (simp add: calls_to_def)
      moreover have "calls_to (tk_parent t) q = []" if "?ord"
        unfolding calls_to_def filter_empty_conv using that True by (metis imageI)
      ultimately show ?thesis by (elim fits_mono) blast
    qed
  qed
qed

lemma in_step_restarted:
  assumes "in_step ord db b q" "inv b"
  shows "case restarted now (db, b) of (db', b') \<Rightarrow> in_step False db' b' [] \<and> inv b'"
proof -
  let ?b = "NewBroker (bk_tasks b) (bk_max_retries b) (bk_timeout b)\<lparr>bk_work := True\<rparr>"
  let ?g = "\<lambda>r. if wr_status r = Running then r\<lparr>wr_status := Pending, wr_updated := now\<rparr> else r"
  have r: "db_tasks (snd (RecoverInterrupted now db)) = map ?g (db_tasks db)"
    using RecoverInterrupted_rows [OF in_step_parts(1) [OF assms(1)]] by blast
  have "in_step False (snd (RecoverInterrupted now db)) b []"
  proof (rule in_step_rows [OF assms(1) r])
    fix t x
    assume "fits ord (calls_to (tk_parent t) q) (wr_status x) (tk_status t)"
    then have f: "fits False [] (wr_status x) (tk_status t)" by (rule fits_weaken) simp
    have k: "isKnown Pending" "\<not> IsTerminal Pending" by (simp_all add: machine_defs)
    have n: "calls_to (tk_parent t) [] = []" by (simp add: calls_to_def)
    show "fits False (calls_to (tk_parent t) []) (wr_status (?g x)) (tk_status t)"
    proof (cases "wr_status x = Running")
      case True
      then have "wr_status (?g x) = Pending" by simp
      with k show ?thesis unfolding n fits_def by simp
    next
      case False
      then have "wr_status (?g x) = wr_status x" by simp
      with f show ?thesis unfolding n by metis
    qed
  qed simp_all
  then have "in_step False (snd (RecoverInterrupted now db)) ?b []"
    by (rule in_step_same) (simp_all add: NewBroker_def in_step_parts(2) [OF assms(1)])
  moreover have "inv ?b" using assms(2) by (simp add: inv_def created_ok_def NewBroker_def)
  ultimately show ?thesis by (simp add: restarted_def)
qed

lemma sys_reach_in_step: "sys_reach file_ok root ord s q \<Longrightarrow> in_step ord (fst s) (snd s) q \<and> inv (snd s)"
proof (induction rule: sys_reach.induct)
  case (start m timeout)
  then show ?case
    using reachable_inv [OF reachable.work [OF reachable.start]]
    by (simp add: in_step_def empty_db_def NewBroker_def)
next
  case (create ord s q tid bid now req ns)
  then show ?case
    using in_step_Create [of ord "fst s" "snd s" q tid bid now req ns] by (simp add: case_prod_beta)
next
  case (cancel ord s q tid who now ns)
  then show ?case
    using in_step_Cancel [of ord "fst s" "snd s" q tid who now ns] by (simp add: case_prod_beta)
next
  case (request ord db b q r)
  then have "follows ord db q b (serve r b)" using follows_serve by simp
  moreover have "inv (serve r b)" using effect_serve [of b r] request by (simp add: effect_def)
  ultimately show ?case by (auto simp: follows_def new_calls_def)
next
  case (deliver ord db b q c q' now)
  then show ?case using in_step_deliver by simp
next
  case (checklist ord db b q db')
  then show ?case using in_step_same_rows [OF _ same_rows_steps(1), of ord db b q db' False] by simp
next
  case (evidence ord db b q db')
  then have i: "in_step ord db b q" "inv b" by simp_all
  have "in_step ord db' b q"
    by (rule in_step_same_rows [OF i(1) same_rows_steps(2) [OF evidence(2)]])
       (use in_step_parts(3) [OF i(1)] evidence_step_items [OF evidence(2)] in simp)
  with i show ?case by simp
next
  case (restart ord s q now)
  then show ?case using in_step_restarted [of ord "fst s" "snd s" q now] by (simp add: case_prod_beta)
qed

text \<open>
  C5: What a dispatched durable row shows about its broker task.  A history is made of whole
  operations of the manager (creations, cancellations, checklists, gates and artifacts), of the
  requests of workers and the sweeper to the broker, of the mirror's calls carried out one by one in
  any order and at any later moment, and of restarts that lose the calls still on their way.  In
  every history each dispatched row has its broker task, and once the row has ended it shows
  the final status of that task.  As long as no checklist was touched, the process did not restart
  and the calls about one task were carried out in order, a row shows the current status of its
  task whenever no call is on its way: the status machine refuses none of the transitions.
\<close>

theorem durable_rows_in_step:
  assumes "sys_reach file_ok root orderly (db, b) calls" "r \<in> set (db_tasks db)" "wr_broker r \<noteq> []"
  shows "\<exists>t. row (bk_tasks b) (wr_broker r) = Some t \<and> tk_parent t = wr_id r
    \<and> (IsTerminal (wr_status r) \<longrightarrow> wr_status r = durable_of (tk_status t))
    \<and> (orderly \<and> calls = [] \<longrightarrow> wr_status r = durable_of (tk_status t))"
proof -
  have s: "in_step orderly db b calls" using sys_reach_in_step [OF assms(1)] by simp
  obtain t where t: "row (bk_tasks b) (wr_broker r) = Some t" "durable t" "tk_parent t = wr_id r"
    using in_step_parts(7) [OF s assms(2,3)] by blast
  have "work_row_of db (wr_id r) = Some r" using in_step_parts(1) [OF s] assms(2) by (simp add: work_row_Some)
  then have "fits orderly (calls_to (wr_id r) calls) (wr_status r) (tk_status t)"
    using in_step_parts(6) [OF s row_in [OF t(1)] t(2)] t(3) by simp
  with t show ?thesis by (auto simp: fits_def calls_to_def)
qed

definition sample_req :: create_req where
  "sample_req = \<lparr>rq_title = ''t'', rq_prompt = ''p'', rq_thread = [], rq_turn = [], rq_dispatch = True\<rparr>"

definition sample_system :: "work_db \<times> broker" where
  "sample_system = snd (Create ''wt'' 1 sample_req (Some (adapter_submit ''b'' 1000000000))
     (empty_db, NewBroker [] 3 30000000000\<lparr>bk_work := True\<rparr>))"

text \<open>Claimed, and the call of the claim carried out.\<close>

definition claimed_broker :: broker where
  "claimed_broker = serve (R_claim ''w'' 3000000000 None) (snd sample_system)"

definition claimed_system :: "work_db \<times> broker" where
  "claimed_system = (mirror_call (\<lambda>r f. False) [] 3 (OnRunning ''wt'') (fst sample_system), claimed_broker)"

lemma claimed_system_reach: "sys_reach (\<lambda>r f. False) [] True claimed_system []"
proof -
  have "sys_reach (\<lambda>r f. False) [] True sample_system []"
    unfolding sample_system_def by (intro sys_reach.intros) simp_all
  then have 1: "sys_reach (\<lambda>r f. False) [] True (fst sample_system, snd sample_system) []" by simp
  have n: "new_calls (snd sample_system) claimed_broker = [OnRunning ''wt'']" by code_simp
  have "sys_reach (\<lambda>r f. False) [] True (fst sample_system, claimed_broker) ([] @ [OnRunning ''wt''])"
    unfolding n [symmetric] claimed_broker_def by (rule sys_reach.request [OF 1]) simp
  then have "sys_reach (\<lambda>r f. False) [] True (fst sample_system, claimed_broker) ([] @ OnRunning ''wt'' # [])" by simp
  from sys_reach.deliver [OF this, of 3] show ?thesis by (simp add: claimed_system_def)
qed

lemma sample_row: "map (\<lambda>r. (wr_id r, wr_broker r, wr_status r)) (db_tasks (fst claimed_system)) = [(''wt'', ''b'', Running)]"
  by code_simp

lemma durable_rows_in_step_witness:
  "\<exists>r t. r \<in> set (db_tasks (fst claimed_system)) \<and> row (bk_tasks (snd claimed_system)) ''b'' = Some t
     \<and> tk_parent t = ''wt'' \<and> wr_status r = Running \<and> durable_of (tk_status t) = Running"
proof -
  obtain r where r: "r \<in> set (db_tasks (fst claimed_system))" "wr_id r = ''wt''" "wr_broker r = ''b''" "wr_status r = Running"
    using sample_row by (cases "db_tasks (fst claimed_system)") auto
  have "sys_reach (\<lambda>r f. False) [] True (fst claimed_system, snd claimed_system) []" using claimed_system_reach by simp
  from durable_rows_in_step [OF this r(1)] r show ?thesis by auto
qed

subsection \<open>Calls that overtake one another\<close>

text \<open>
  Nothing orders the calls of two requests.  A first attempt fails, the second worker claims the
  task, and the call of the claim comes before the call of the requeue: the row, still running,
  refuses the first and takes the second.  From then on it shows a queued task that a worker is
  running, and the completion of that worker is lost, since a queued task cannot complete.
\<close>

definition retried_broker :: broker where
  "retried_broker = serve (R_result ''b'' ''w'' ''failed'' ''boom'' 4000000000) claimed_broker"

definition reclaimed_broker :: broker where
  "reclaimed_broker = serve (R_claim ''v'' 5000000000 None) retried_broker"

definition finished_broker :: broker where
  "finished_broker = serve (R_result ''b'' ''v'' ''completed'' ''ok'' 6000000000) reclaimed_broker"

definition overtaken_db :: work_db where
  "overtaken_db = fold (mirror_call (\<lambda>r f. False) [] 7) [OnRunning ''wt'', OnRequeued ''wt'', OnTerminal ''wt'' ''completed'' ''ok''] (fst claimed_system)"

theorem overtaken_call_loses_completion:
  "sys_reach (\<lambda>r f. False) [] False (overtaken_db, finished_broker) []
   \<and> map (\<lambda>r. (wr_id r, wr_status r)) (db_tasks overtaken_db) = [(''wt'', Pending)]
   \<and> map (\<lambda>t. (tk_id t, tk_status t)) (bk_tasks finished_broker) = [(''b'', ''completed'')]"
proof (intro conjI)
  let ?m = "mirror_call (\<lambda>r f. False) [] 7"
  let ?db = "fst claimed_system"
  note reach = sys_reach.request [where file_ok = "\<lambda>r f. False" and root = "[]" and ord = True and db = ?db]
  have n: "new_calls claimed_broker retried_broker = [OnRequeued ''wt'']"
    "new_calls retried_broker reclaimed_broker = [OnRunning ''wt'']"
    "new_calls reclaimed_broker finished_broker = [OnTerminal ''wt'' ''completed'' ''ok'']" by code_simp+
  have 0: "sys_reach (\<lambda>r f. False) [] True (?db, claimed_broker) []"
    using claimed_system_reach by (simp add: claimed_system_def)
  have 1: "sys_reach (\<lambda>r f. False) [] True (?db, retried_broker) [OnRequeued ''wt'']"
    using reach [OF 0, of "R_result ''b'' ''w'' ''failed'' ''boom'' 4000000000"] n(1) by (simp add: retried_broker_def)
  have 2: "sys_reach (\<lambda>r f. False) [] True (?db, reclaimed_broker) [OnRequeued ''wt'', OnRunning ''wt'']"
    using reach [OF 1, of "R_claim ''v'' 5000000000 None"] n(2) by (simp add: reclaimed_broker_def)
  have 3: "sys_reach (\<lambda>r f. False) [] True (?db, finished_broker)
      ([OnRequeued ''wt''] @ OnRunning ''wt'' # [OnTerminal ''wt'' ''completed'' ''ok''])"
    using reach [OF 2, of "R_result ''b'' ''v'' ''completed'' ''ok'' 6000000000"] n(3) by (simp add: finished_broker_def)
  have 4: "sys_reach (\<lambda>r f. False) [] False (?m (OnRunning ''wt'') ?db, finished_broker)
      ([] @ OnRequeued ''wt'' # [OnTerminal ''wt'' ''completed'' ''ok''])"
    using sys_reach.deliver [OF 3, of 7] by simp
  have 5: "sys_reach (\<lambda>r f. False) [] False (?m (OnRequeued ''wt'') (?m (OnRunning ''wt'') ?db), finished_broker)
      ([] @ OnTerminal ''wt'' ''completed'' ''ok'' # [])"
    using sys_reach.deliver [OF 4, of 7] by simp
  from sys_reach.deliver [OF 5, of 7] show "sys_reach (\<lambda>r f. False) [] False (overtaken_db, finished_broker) []"
    by (simp add: overtaken_db_def)
  show "map (\<lambda>r. (wr_id r, wr_status r)) (db_tasks overtaken_db) = [(''wt'', Pending)]" by code_simp
  show "map (\<lambda>t. (tk_id t, tk_status t)) (bk_tasks finished_broker) = [(''b'', ''completed'')]" by code_simp
qed

end
