(* ===== verification/WorkProps.thy ===== *)
theory WorkProps
  imports WorkSync
begin

text \<open>
  The completion gate, the recovery after a restart, and the two histories in which a durable
  task falls out of step with its broker task and can no longer be cancelled.
\<close>

subsection \<open>The completion gate\<close>

lemma itoa_ne [simp]: "itoa x \<noteq> []"
  by (simp add: itoa_def decimal.simps [of "nat x"])

lemma UnmetSummary_Nil: "UnmetSummary items = [] \<longleftrightarrow> (\<forall>i \<in> set items. ci_status i = ''done'')"
  by (auto simp: UnmetSummary_def UnmetItems_def Let_def filter_empty_conv)

lemma verify_item_done:
  "ci_status (verify_item file_ok root gates i) = ''done'' \<longleftrightarrow>
     (if IsSet (ci_verify i) then conditionSatisfied file_ok (ci_verify i) root gates else ci_status i = ''done'')"
  by (simp add: verify_item_def)

definition item_met :: "(string \<Rightarrow> string \<Rightarrow> bool) \<Rightarrow> string \<Rightarrow> evidence list \<Rightarrow> checklist_item \<Rightarrow> bool" where
  "item_met file_ok root gates i \<longleftrightarrow>
     (if IsSet (ci_verify i) then conditionSatisfied file_ok (ci_verify i) root gates
      else ci_status i = ''done'')"

lemma checklistGate_met:
  "snd (checklistGate file_ok items root gates) = [] \<longleftrightarrow> list_all (item_met file_ok root gates) items"
  by (simp add: checklistGate_def Let_def UnmetSummary_Nil VerifyChecklist_def verify_item_done
      item_met_def list_all_iff)

lemma store_get_parts:
  "store_get p db = Inr t \<Longrightarrow> wt_checklist t = items_of db p \<and> wt_gates t = gates_of db p
     \<and> (\<exists>r. work_row_of db p = Some r \<and> wr_broker t = wr_broker r \<and> wr_status t = wr_status r)"
  by (auto simp: store_get_def work_row.extend_def work_task.fields_def split: option.splits)

lemma gateCompletion_met:
  assumes "fst (gateCompletion file_ok root p now db) = Inr ()"
  shows "list_all (item_met file_ok root (gates_of db p)) (items_of db p)"
proof (cases "store_get p db")
  case (Inr t)
  note t = store_get_parts [OF Inr]
  show ?thesis
  proof (cases "items_of db p = []")
    case False
    obtain v u where g: "checklistGate file_ok (items_of db p) root (gates_of db p) = (v, u)" by fastforce
    obtain r db1 where s: "SetChecklist p v now db = (r, db1)" by fastforce
    have "u = []"
      using assms Inr t False g s
      by (cases r; cases "u = []") (auto simp: gateCompletion_def split: prod.splits)
    with checklistGate_met [of file_ok "items_of db p" root "gates_of db p"] g show ?thesis by simp
  qed simp
qed (use assms in \<open>simp add: gateCompletion_def\<close>)

text \<open>
  C26: A completion is never taken on trust: when \<open>Finish(completed)\<close> succeeds the task was
  running, and every item of its checklist holds, checked against the world for an item that
  carries a condition (its file exists, its gate was recorded with exit code 0), whatever
  status the item had claimed.
\<close>

theorem completion_needs_checklist:
  assumes "fst (Finish file_ok root p Completed note now db) = Inr ()"
  shows "list_all (item_met file_ok root (gates_of db p)) (items_of db p)
    \<and> (\<exists>r. work_row_of db p = Some r \<and> wr_status r = Running)"
proof -
  obtain g db1 where g: "gateCompletion file_ok root p now db = (g, db1)" by fastforce
  have ok: "g = Inr ()" using assms g by (cases g) (simp_all add: Finish_def)
  then have met: "list_all (item_met file_ok root (gates_of db p)) (items_of db p)"
    using gateCompletion_met [of file_ok root p now db] g by simp
  obtain t where t: "store_get p db = Inr t"
    using ok g by (cases "store_get p db") (simp_all add: gateCompletion_def)
  then obtain r where r: "work_row_of db p = Some r" using store_get_parts by blast
  have tr: "fst (Transition p Completed ''finished'' (truncate_text note 240) now db1) = Inr ()"
    using assms g ok by (auto simp: Finish_def lift_store_def split: prod.splits sum.splits)
  have upd: "wr_status q = wr_status r" if q: "work_row_of db1 p = Some q" for q
  proof -
    have db1: "db1 = db \<or> (\<exists>its. db1 = WorkStore.touch p now (db\<lparr>db_items := its\<rparr>))"
      using g ok t
      by (auto simp: gateCompletion_def SetChecklist_def split: if_splits prod.splits sum.splits)
    have "find (\<lambda>x. wr_id x = p) (map (\<lambda>x. if wr_id x = p then x\<lparr>wr_updated := now\<rparr> else x) (db_tasks db))
        = map_option (\<lambda>x. if wr_id x = p then x\<lparr>wr_updated := now\<rparr> else x) (work_row_of db p)"
      by (rule find_map_rows) simp
    with db1 q r show ?thesis by (auto simp: WorkStore.touch_def on_task_def)
  qed
  have "wr_status r = Running"
  proof (cases "work_row_of db1 p")
    case None
    with tr show ?thesis by (simp add: Transition_def)
  next
    case (Some q)
    with tr have "CanTransitionTo (wr_status q) Completed = None"
      by (cases "CanTransitionTo (wr_status q) Completed") (simp_all add: Transition_def)
    with upd [OF Some] show ?thesis
      by (cases "wr_status r") (simp_all add: machine_defs)
  qed
  with met r show ?thesis by blast
qed

definition gated_db :: work_db where
  "gated_db = \<lparr>db_tasks = [\<lparr>wr_id = ''wt'', wr_title = ''t'', wr_prompt = ''p'', wr_status = Running,
       wr_thread = [], wr_turn = [], wr_broker = ''b'', wr_created = 1, wr_updated = 1\<rparr>],
     db_items = [(''wt'', \<lparr>ci_id = 1, ci_content = ''parser'', ci_status = ''pending'',
       ci_verify = \<lparr>cd_kind = ConditionGatePassed, cd_target = ''test''\<rparr>\<rparr>)],
     db_gates = [(''wt'', \<lparr>ev_id = ''e'', ev_gate = ''test'', ev_command = ''go test'', ev_cwd = [],
       ev_exit = 0, ev_duration = 1, ev_classification = ''pass'', ev_summary = [], ev_log = [], ev_recorded = 2\<rparr>)],
     db_artifacts = [], db_timeline = []\<rparr>"

lemma completion_needs_checklist_witness:
  "list_all (item_met (\<lambda>r f. False) [] (gates_of gated_db ''wt'')) (items_of gated_db ''wt'')
    \<and> (\<exists>r. work_row_of gated_db ''wt'' = Some r \<and> wr_status r = Running)"
proof (rule completion_needs_checklist)
  show "fst (Finish (\<lambda>r f. False) [] ''wt'' Completed ''ok'' 5 gated_db) = Inr ()" by code_simp
qed

subsection \<open>Completions the mirror cannot deliver\<close>

text \<open>Once the broker's row has ended, the manager's \<open>Cancel\<close> fails for ever.\<close>

lemma cancel_wedged:
  assumes "ended_row bid b" "work_row_of db p = Some r" "wr_broker r = bid" "bid \<noteq> []"
  shows "WorkManager.Cancel p who now (Some (adapter_cancel ns)) (db, serve_all rs b)
    = (Inl (Cancel_broker_failed ''task not cancellable or not found''), db, serve_all rs b)"
proof -
  let ?b = "serve_all rs b"
  have e: "ended_row bid ?b" using serve_all_created [OF assms(1)] by simp
  have "fst (adapter_cancel ns bid ?b) = Inl ''task not cancellable or not found''"
    using e by (auto simp: ended_row_def adapter_cancel_def Broker.Cancel_def CancelTask_iff table_ok_def
        open_status_def terminal_status_def broker_text_def store_text_def)
  moreover obtain t0 where t0: "store_get p db = Inr t0" "wr_broker t0 = bid"
    using assms(2,3) by (simp add: store_get_def work_row.extend_def)
  ultimately show ?thesis using assms(4) by (intro broker_port.Cancel_blocked [OF t0(1)]) simp_all
qed

text \<open>A completion at the broker: its row has ended, and the mirror gets one call.\<close>

lemma complete_served:
  assumes "inv b" "bk_work b" "row (bk_tasks b) bid = Some t" "tk_status t = ''running''"
    "tk_assigned t = w" "durable t"
  shows "ended_row bid (serve (R_result bid w ''completed'' res ns) b)"
    and "fst (sys_serve file_ok root now (R_result bid w ''completed'' res ns) (db, b))
       = snd (mirror_terminal file_ok root (tk_parent t) ''completed'' res now db)"
proof -
  let ?b' = "serve (R_result bid w ''completed'' res ns) b"
  let ?f = "\<lambda>t. t\<lparr>tk_status := ''completed'', tk_result := res, tk_updated := unix ns\<rparr>"
  have r: "?b' = reclaim_worktree bid (notify_work t (\<lambda>p. OnTerminal p ''completed'' res)
      (b\<lparr>bk_tasks := on_row bid ?f (bk_tasks b)\<rparr>))"
    using inv_table [OF assms(1)] assms(3-5)
    by (cases rule: RecordResult_cases [where tid = bid and w = w and s = "''completed''" and r = res and now = ns]) auto
  have "inv ?b'"
    using effect_serve [OF assms(1), of "R_result bid w ''completed'' res ns"] unfolding effect_def by blast
  then have "table_ok (bk_tasks ?b')" by (rule inv_table)
  moreover have "row (bk_tasks ?b') bid = Some (?f t)" unfolding r using assms(3) by (simp add: on_row_lookup)
  ultimately show "ended_row bid ?b'" by (auto simp: ended_row_def terminal_status_def)
  have "bk_calls ?b' = bk_calls b @ [OnTerminal (tk_parent t) ''completed'' res]"
    unfolding r using assms(2,6) by (simp add: notify_work_calls calls_for_def)
  then show "fst (sys_serve file_ok root now (R_result bid w ''completed'' res ns) (db, b))
       = snd (mirror_terminal file_ok root (tk_parent t) ''completed'' res now db)"
    by (simp add: sys_serve_def Let_def deliver_def)
qed

text \<open>
  A durable task with an open checklist item gets stuck when its worker reports success: the
  broker records the completion, the durable row stays running, and from then on every
  attempt to cancel it fails, whatever else happens at the broker.
\<close>

theorem blocked_completion_wedges:
  assumes "reachable b" "bk_work b" "row (bk_tasks b) bid = Some t" "tk_status t = ''running''"
    and "tk_assigned t = w" "durable t" "bid \<noteq> []"
    and "work_row_of db (tk_parent t) = Some r" "wr_status r = Running" "wr_broker r = bid"
    and "\<not> list_all (item_met file_ok root (gates_of db (tk_parent t))) (items_of db (tk_parent t))"
    and "sys_serve file_ok root now (R_result bid w ''completed'' res ns) (db, b) = (db', b')"
  shows "(\<exists>u. row (bk_tasks b') bid = Some u \<and> tk_status u \<in> {''completed'', ''failed'', ''timeout'', ''cancelled''})
    \<and> (\<exists>q. work_row_of db' (tk_parent t) = Some q \<and> wr_status q = Running)
    \<and> fst (WorkManager.Cancel (tk_parent t) who now' (Some (adapter_cancel ns')) (db', serve_all rs b'))
        = Inl (Cancel_broker_failed ''task not cancellable or not found'')"
proof -
  let ?p = "tk_parent t"
  note c = complete_served [OF reachable_inv [OF assms(1)] assms(2-6)]
  have b': "b' = serve (R_result bid w ''completed'' res ns) b"
    using assms(12) by (auto simp: sys_serve_def Let_def)
  have e: "ended_row bid b'" using c(1) b' by simp
  have "fst (sys_serve file_ok root now (R_result bid w ''completed'' res ns) (db, b))
      = snd (mirror_terminal file_ok root ?p ''completed'' res now db)"
    by (rule c(2))
  then have db': "db' = snd (mirror_terminal file_ok root ?p ''completed'' res now db)"
    using assms(12) by simp
  obtain g db1 where g: "gateCompletion file_ok root ?p now db = (g, db1)" by fastforce
  with gateCompletion_met [of file_ok root ?p now db] assms(11) have "g \<noteq> Inr ()" by auto
  then obtain x where x: "g = Inl x" by (cases g) auto
  have "db' = db1" using g x db' by (simp add: mirror_terminal_def Finish_def Let_def)
  then have "same_rows db db'" using same_rows_gate [of db file_ok root ?p now] g by simp
  from same_rows_row [OF this assms(8)] obtain q where
    q: "work_row_of db' ?p = Some q" "wr_broker q = bid" "wr_status q = Running" using assms(9,10) by auto
  have "\<exists>u. row (bk_tasks b') bid = Some u \<and> tk_status u \<in> {''completed'', ''failed'', ''timeout'', ''cancelled''}"
    using e by (auto simp: ended_row_def terminal_status_def)
  with q cancel_wedged [OF e q(1,2) assms(7)] show ?thesis by auto
qed

definition running_broker :: broker where
  "running_broker = serve_all [R_submit ''b'' 1000000000 ''work_task'' ''p'' ''wt'', R_claim ''w'' 2000000000 None]
     (NewBroker [] 3 30000000000\<lparr>bk_work := True\<rparr>)"

lemma running_broker_reachable: "reachable running_broker"
  unfolding running_broker_def by (intro reachable_serve_all reachable.intros)

lemma running_broker_row:
  "\<exists>t. row (bk_tasks running_broker) ''b'' = Some t \<and> tk_status t = ''running'' \<and> tk_assigned t = ''w''
     \<and> tk_type t = DurableTaskType \<and> tk_parent t = ''wt''"
proof -
  have "map (\<lambda>t. (tk_id t, tk_status t, tk_assigned t, tk_type t, tk_parent t)) (bk_tasks running_broker)
      = [(''b'', ''running'', ''w'', ''work_task'', ''wt'')]" by code_simp
  then obtain t where "bk_tasks running_broker = [t]" "tk_id t = ''b''" "tk_status t = ''running''"
      "tk_assigned t = ''w''" "tk_type t = ''work_task''" "tk_parent t = ''wt''"
    by (cases "bk_tasks running_broker") auto
  then show ?thesis by (simp add: DurableTaskType_def)
qed

definition open_db :: work_db where
  "open_db = gated_db\<lparr>db_gates := []\<rparr>"

lemma blocked_completion_wedges_witness:
  "case sys_serve (\<lambda>r f. False) [] 5 (R_result ''b'' ''w'' ''completed'' ''ok'' 5000000000) (open_db, running_broker) of
     (db', b') \<Rightarrow> (\<exists>q. work_row_of db' ''wt'' = Some q \<and> wr_status q = Running)
       \<and> fst (WorkManager.Cancel ''wt'' ''me'' 9 (Some (adapter_cancel 9000000000)) (db', serve_all [R_sweep 99000000000] b'))
           = Inl (Cancel_broker_failed ''task not cancellable or not found'')"
proof -
  obtain t where t: "row (bk_tasks running_broker) ''b'' = Some t" "tk_status t = ''running''" "tk_assigned t = ''w''"
      "tk_type t = DurableTaskType" "tk_parent t = ''wt''"
    using running_broker_row by blast
  obtain r where r: "work_row_of open_db ''wt'' = Some r" "wr_status r = Running" "wr_broker r = ''b''"
    by (simp add: open_db_def gated_db_def)
  have w: "bk_work running_broker" by code_simp
  have u: "\<not> list_all (item_met (\<lambda>r f. False) [] (gates_of open_db (tk_parent t))) (items_of open_db (tk_parent t))"
    unfolding t(5) by code_simp
  obtain db' b' where s: "sys_serve (\<lambda>r f. False) [] 5 (R_result ''b'' ''w'' ''completed'' ''ok'' 5000000000)
      (open_db, running_broker) = (db', b')" by fastforce
  from blocked_completion_wedges [OF running_broker_reachable w t(1-3) _ _ _ r(2,3) u s,
      of "''me''" 9 9000000000 "[R_sweep 99000000000]"] t(4,5) r(1)
  show ?thesis by (simp add: s)
qed

subsection \<open>Recovery after a restart\<close>

text \<open>
  After a restart no durable task is left running: \<open>RecoverInterrupted\<close> returns exactly the
  running rows to the queue, leaves every other row alone, counts them, and never fails.
\<close>

theorem RecoverInterrupted_moves_running:
  assumes "distinct (map wr_id (db_tasks db))"
  shows "fst (RecoverInterrupted now db)
      = (int (length (filter (\<lambda>r. wr_status r = Running) (db_tasks db))), None)
    \<and> db_tasks (snd (RecoverInterrupted now db))
      = map (\<lambda>r. if wr_status r = Running then r\<lparr>wr_status := Pending, wr_updated := now\<rparr> else r) (db_tasks db)"
  by (rule RecoverInterrupted_rows [OF assms])

lemma RecoverInterrupted_moves_running_witness:
  "fst (RecoverInterrupted 9 gated_db)
      = (int (length (filter (\<lambda>r. wr_status r = Running) (db_tasks gated_db))), None)
    \<and> db_tasks (snd (RecoverInterrupted 9 gated_db))
      = map (\<lambda>r. if wr_status r = Running then r\<lparr>wr_status := Pending, wr_updated := 9\<rparr> else r) (db_tasks gated_db)"
  by (rule RecoverInterrupted_moves_running) (simp add: gated_db_def)

lemma Transition_items [simp]: "db_items (snd (Transition tid st k sm now db)) = db_items db"
  by (simp add: Transition_def Let_def add_timeline_def split: option.split)

lemma recover_loop_items: "db_items (snd (recover_loop ids m now db)) = db_items db"
proof (induction ids arbitrary: m db)
  case (Cons i ids)
  obtain r db1 where t: "Transition i Pending ''recovered'' ''process restarted while this task was running'' now db = (r, db1)"
    by fastforce
  then have "db_items db1 = db_items db" by (metis Transition_items snd_conv)
  with t Cons.IH [of _ db1] show ?case by (simp split: sum.split store_failure.split)
qed simp

text \<open>
  The broker's rows are not recovered with them, and workers are processes of their own.
  When a worker that survived the restart reports success, the broker accepts it, the mirror
  refuses it as an illegal transition and reports nothing: the durable row stays pending
  although its work is done, and it can never be cancelled.
\<close>

theorem completion_lost_after_restart:
  assumes "reachable b" "bk_work b" "row (bk_tasks b) bid = Some t" "tk_status t = ''running''"
    and "tk_assigned t = w" "durable t" "bid \<noteq> []"
    and "distinct (map wr_id (db_tasks db))" "work_row_of db (tk_parent t) = Some r"
    and "wr_status r = Running" "wr_broker r = bid" "items_of db (tk_parent t) = []"
    and "db1 = snd (RecoverInterrupted boot db)"
    and "sys_serve file_ok root now (R_result bid w ''completed'' res ns) (db1, b) = (db', b')"
  shows "(\<exists>u. row (bk_tasks b') bid = Some u \<and> terminal_status (tk_status u))
    \<and> (\<exists>q. work_row_of db' (tk_parent t) = Some q \<and> wr_status q = Pending)
    \<and> fst (mirror_terminal file_ok root (tk_parent t) ''completed'' res now db1) = Ignored
    \<and> fst (WorkManager.Cancel (tk_parent t) who now' (Some (adapter_cancel ns')) (db', serve_all rs b'))
        = Inl (Cancel_broker_failed ''task not cancellable or not found'')"
proof -
  let ?p = "tk_parent t"
  note c = complete_served [OF reachable_inv [OF assms(1)] assms(2-6)]
  have b': "b' = serve (R_result bid w ''completed'' res ns) b"
    using assms(14) by (auto simp: sys_serve_def Let_def)
  have e: "ended_row bid b'" using c(1) b' by simp
  have "fst (sys_serve file_ok root now (R_result bid w ''completed'' res ns) (db1, b))
      = snd (mirror_terminal file_ok root ?p ''completed'' res now db1)"
    by (rule c(2))
  then have db': "db' = snd (mirror_terminal file_ok root ?p ''completed'' res now db1)"
    using assms(14) by simp
  let ?g = "\<lambda>r. if wr_status r = Running then r\<lparr>wr_status := Pending, wr_updated := boot\<rparr> else r"
  have "db_tasks db1 = map ?g (db_tasks db)"
    using RecoverInterrupted_rows [OF assms(8)] assms(13) by simp
  then have r1: "work_row_of db1 ?p = Some (?g r)"
    using find_map_rows [of ?g ?p "db_tasks db"] assms(9) by simp
  have its: "items_of db1 ?p = []"
    using assms(12,13) by (simp add: items_of_def RecoverInterrupted_def recover_loop_items)
  obtain w1 where w1: "store_get ?p db1 = Inr w1" "wt_checklist w1 = []"
    using r1 its by (simp add: store_get_def work_row.extend_def work_task.fields_def)
  have m: "mirror_terminal file_ok root ?p ''completed'' res now db1 = (Ignored, db1)"
    using r1 w1 assms(10)
    by (simp add: mirror_terminal_def Finish_def gateCompletion_def lift_store_def Transition_def
        machine_defs report_def)
  then have q: "work_row_of db' ?p = Some (?g r)" "wr_broker (?g r) = bid" "wr_status (?g r) = Pending"
    using r1 db' assms(10,11) by simp_all
  have "\<exists>u. row (bk_tasks b') bid = Some u \<and> terminal_status (tk_status u)"
    using e by (auto simp: ended_row_def)
  with q m cancel_wedged [OF e q(1,2) assms(7)] show ?thesis by auto
qed

definition plain_db :: work_db where
  "plain_db = gated_db\<lparr>db_items := []\<rparr>"

lemma completion_lost_after_restart_witness:
  "case sys_serve (\<lambda>r f. False) [] 9 (R_result ''b'' ''w'' ''completed'' ''ok'' 9000000000)
       (snd (RecoverInterrupted 7 plain_db), running_broker) of
     (db', b') \<Rightarrow> (\<exists>q. work_row_of db' ''wt'' = Some q \<and> wr_status q = Pending)
       \<and> fst (WorkManager.Cancel ''wt'' ''me'' 9 (Some (adapter_cancel 9000000000)) (db', serve_all [] b'))
           = Inl (Cancel_broker_failed ''task not cancellable or not found'')"
proof -
  obtain t where t: "row (bk_tasks running_broker) ''b'' = Some t" "tk_status t = ''running''" "tk_assigned t = ''w''"
      "tk_type t = DurableTaskType" "tk_parent t = ''wt''"
    using running_broker_row by blast
  obtain r where r: "work_row_of plain_db ''wt'' = Some r" "wr_status r = Running" "wr_broker r = ''b''"
    by (simp add: plain_db_def gated_db_def)
  have w: "bk_work running_broker" by code_simp
  have d: "distinct (map wr_id (db_tasks plain_db))" "items_of plain_db ''wt'' = []"
    by (simp_all add: plain_db_def gated_db_def items_of_def)
  obtain db' b' where s: "sys_serve (\<lambda>r f. False) [] 9 (R_result ''b'' ''w'' ''completed'' ''ok'' 9000000000)
      (snd (RecoverInterrupted 7 plain_db), running_broker) = (db', b')" by fastforce
  from completion_lost_after_restart [OF running_broker_reachable w t(1-3) _ _ d(1) _ r(2,3) _ refl s,
      of "''me''" 9 9000000000 "[]"] t(4,5) r(1) d(2)
  show ?thesis by (simp add: s)
qed

end
