(* ===== verification/PathNorm.thy ===== *)
theory PathNorm
  imports Prelude
begin

text \<open>
  The path normalisation of \<open>internal/guard/pathnorm.go\<close> that the credential gate and the
  deletion gate share, with Go's \<open>path.Clean\<close>.  The process environment is an argument: \<open>env\<close>
  is \<open>os.Getenv\<close>, empty for an unset variable, and \<open>goos\<close> is \<open>runtime.GOOS\<close>.
\<close>

section \<open>\<open>path.Clean\<close>\<close>

abbreviation join_slash :: "string list \<Rightarrow> string" where
  "join_slash \<equiv> join_byte (CHR ''/'')"

text \<open>
  The elements of the cleaned path, newest first: empty elements and \<open>.\<close> are skipped, \<open>..\<close>
  takes back the element before it, is dropped at the root and kept at the front of a
  relative path.
\<close>

fun clean_elems :: "bool \<Rightarrow> string list \<Rightarrow> string list \<Rightarrow> string list" where
  "clean_elems rooted out [] = rev out"
| "clean_elems rooted out (e # es) =
     (if e = [] \<or> e = ''.'' then clean_elems rooted out es
      else if e = ''..'' then
        (if out \<noteq> [] \<and> hd out \<noteq> ''..'' then clean_elems rooted (tl out) es
         else if rooted then clean_elems rooted out es
         else clean_elems rooted (''..'' # out) es)
      else clean_elems rooted (e # out) es)"

definition rooted_path :: "string \<Rightarrow> bool" where
  "rooted_path p \<longleftrightarrow> prefix ''/'' p"

definition path_clean :: "string \<Rightarrow> string" where
  "path_clean p =
     (let es = clean_elems (rooted_path p) [] (split_byte p (CHR ''/'')) in
      if rooted_path p then CHR ''/'' # join_slash es
      else if es = [] then ''.'' else join_slash es)"

section \<open>Home references\<close>

definition homeReferences :: "(string \<times> string) list" where
  "homeReferences =
     [(''~'', ''''), (''${HOME}'', ''''), (''$HOME'', ''''),
      (''${USERPROFILE}'', ''USERPROFILE''), (''$USERPROFILE'', ''USERPROFILE''),
      (''%USERPROFILE%'', ''USERPROFILE''), (''%HOMEPATH%'', ''USERPROFILE''),
      (''%APPDATA%'', ''APPDATA''), (''%LOCALAPPDATA%'', ''LOCALAPPDATA''),
      (''%PROGRAMDATA%'', ''PROGRAMDATA'')]"

definition homeDir :: "(string \<Rightarrow> string) \<Rightarrow> string" where
  "homeDir env = (if env ''HOME'' \<noteq> [] then env ''HOME'' else env ''USERPROFILE'')"

text \<open>\<open>expandHomeReferences\<close> and its loop; \<open>None\<close> is the result \<open>"", false\<close>.\<close>

fun expand_refs :: "(string \<Rightarrow> string) \<Rightarrow> (string \<times> string) list \<Rightarrow> string \<Rightarrow> string option" where
  "expand_refs env [] t = Some t"
| "expand_refs env ((p, v) # refs) t =
     (if \<not> prefix p t then expand_refs env refs t
      else let rest = drop (length p) t in
        if rest \<noteq> [] \<and> hd rest \<noteq> CHR ''/'' \<and> hd rest \<noteq> bslash then expand_refs env refs t
        else let base = (if v = [] then homeDir env else env v) in
          if base = [] then None else Some (base @ rest))"

definition expandHomeReferences :: "(string \<Rightarrow> string) \<Rightarrow> string \<Rightarrow> string option" where
  "expandHomeReferences env t = expand_refs env homeReferences t"

section \<open>Volumes\<close>

definition isUNCPath :: "string \<Rightarrow> bool" where
  "isUNCPath t \<longleftrightarrow>
     (case t of
        a # b # c # _ \<Rightarrow>
          (a = CHR ''/'' \<or> a = bslash) \<and> (b = CHR ''/'' \<or> b = bslash) \<and>
          c \<noteq> CHR ''/'' \<and> c \<noteq> bslash
      | _ \<Rightarrow> False)"

definition isASCIILetter :: "char \<Rightarrow> bool" where
  "isASCIILetter b \<longleftrightarrow> (97 \<le> byte b \<and> byte b \<le> 122) \<or> (65 \<le> byte b \<and> byte b \<le> 90)"

definition splitVolume :: "string \<Rightarrow> string \<times> string" where
  "splitVolume p =
     (if isUNCPath p then
        (case cut (trim_prefix ''//'' p) (CHR ''/'') of
           (server, body, more) \<Rightarrow>
             if \<not> more then (''//'' @ server, [])
             else (case cut body (CHR ''/'') of
                     (share, rest, deeper) \<Rightarrow>
                       (''//'' @ server @ ''/'' @ share, if deeper then rest else [])))
      else (case p of
              d # c # rest \<Rightarrow>
                if c = CHR '':'' \<and> isASCIILetter d then ([d, c], rest) else ([], p)
            | _ \<Rightarrow> ([], p)))"

section \<open>Normalisation\<close>

text \<open>\<open>strings.Trim(s, cutset)\<close> for a cutset of ASCII bytes.\<close>

definition trim_bytes :: "char list \<Rightarrow> string \<Rightarrow> string" where
  "trim_bytes cs s = rev (dropWhile (\<lambda>c. c \<in> set cs) (rev (dropWhile (\<lambda>c. c \<in> set cs) s)))"

definition to_slash :: "string \<Rightarrow> string" where
  "to_slash = replace_byte bslash (CHR ''/'')"

definition join_workdir :: "string \<Rightarrow> bool \<Rightarrow> string \<Rightarrow> string option" where
  "join_workdir t unc workdir =
     (if \<not> unc \<and> fst (splitVolume t) = [] \<and> \<not> prefix ''/'' t
      then (if workdir = [] then None else Some (to_slash workdir @ ''/'' @ t))
      else Some t)"

definition clean_volume :: "string \<Rightarrow> string" where
  "clean_volume t =
     (case splitVolume t of (vol, rest) \<Rightarrow>
        if vol = [] then path_clean t
        else let cleaned = path_clean (''/'' @ trim_prefix ''/'' rest) in
             if cleaned = ''/'' then vol else vol @ cleaned)"

definition normalizePath :: "(string \<Rightarrow> string) \<Rightarrow> string \<Rightarrow> string \<Rightarrow> string option" where
  "normalizePath env raw workdir =
     (let t = trim_bytes [dquote, squote] raw in
      if t = [] then None
      else case expandHomeReferences env t of
             None \<Rightarrow> None
           | Some t' \<Rightarrow> map_option clean_volume (join_workdir (to_slash t') (isUNCPath t') workdir))"

definition caseInsensitiveFS :: "string \<Rightarrow> bool" where
  "caseInsensitiveFS goos \<longleftrightarrow> goos = ''darwin'' \<or> goos = ''windows''"

definition foldForDeny :: "string \<Rightarrow> string" where
  "foldForDeny = to_lower"

definition foldForScope :: "string \<Rightarrow> string \<Rightarrow> string" where
  "foldForScope goos p = (if caseInsensitiveFS goos then to_lower p else p)"

definition samePath :: "string \<Rightarrow> string \<Rightarrow> string \<Rightarrow> bool" where
  "samePath goos a b \<longleftrightarrow> foldForScope goos a = foldForScope goos b"

definition isAncestorOf :: "string \<Rightarrow> string \<Rightarrow> string \<Rightarrow> bool" where
  "isAncestorOf goos a b =
     (let fa = foldForScope goos a; fb = foldForScope goos b in
      if fa = fb then False
      else if fa = ''/'' then prefix ''/'' fb
      else prefix (fa @ ''/'') fb)"

definition isWithin :: "string \<Rightarrow> string \<Rightarrow> string \<Rightarrow> bool" where
  "isWithin goos child root \<longleftrightarrow> samePath goos child root \<or> isAncestorOf goos root child"

section \<open>What a cleaned path looks like\<close>

definition plain_elem :: "string \<Rightarrow> bool" where
  "plain_elem e \<longleftrightarrow> e \<noteq> [] \<and> e \<noteq> ''.'' \<and> e \<noteq> ''..'' \<and> CHR ''/'' \<notin> set e"

lemma clean_elems_rooted:
  "\<lbrakk>list_all plain_elem out; \<forall>e \<in> set es. CHR ''/'' \<notin> set e\<rbrakk> \<Longrightarrow>
   list_all plain_elem (clean_elems True out es)"
proof (induction "True" out es rule: clean_elems.induct)
  case (2 out e es)
  then show ?case by (cases out) (auto simp: plain_elem_def)
qed (auto simp: list_all_iff)

lemma plain_elems_no_slash: "list_all plain_elem es \<Longrightarrow> list_all (\<lambda>e. CHR ''/'' \<notin> set e) es"
  by (auto simp: list_all_iff plain_elem_def)

text \<open>A rooted path cleans to the root or to a slash and plain elements joined by slashes.\<close>

lemma path_clean_rooted:
  assumes "prefix ''/'' p"
  obtains es where "list_all plain_elem es" "path_clean p = CHR ''/'' # join_slash es"
proof -
  have "list_all plain_elem (clean_elems True [] (split_byte p (CHR ''/'')))"
    by (rule clean_elems_rooted) (auto dest: split_byte_no_sep)
  with assms that show thesis by (simp add: path_clean_def rooted_path_def)
qed

lemma path_clean_segments:
  assumes "prefix ''/'' p"
  shows "\<exists>es. list_all plain_elem es \<and> split_byte (path_clean p) (CHR ''/'') = [] # (if es = [] then [[]] else es)"
proof -
  obtain es where es: "list_all plain_elem es" "path_clean p = CHR ''/'' # join_slash es"
    using path_clean_rooted [OF assms] by blast
  then have "split_byte (path_clean p) (CHR ''/'') = [] # (if es = [] then [[]] else es)"
    using split_join_byte [OF plain_elems_no_slash] by simp
  with es(1) show ?thesis by blast
qed

lemma clean_elems_plain: "list_all plain_elem es \<Longrightarrow> clean_elems r out es = rev out @ es"
  by (induction es arbitrary: out) (auto simp: plain_elem_def)

text \<open>Cleaning a cleaned rooted path changes nothing.\<close>

lemma path_clean_idem: "prefix ''/'' p \<Longrightarrow> path_clean (path_clean p) = path_clean p"
proof -
  assume "prefix ''/'' p"
  then obtain es where es: "list_all plain_elem es" "path_clean p = CHR ''/'' # join_slash es"
    using path_clean_rooted by blast
  then have "split_byte (path_clean p) (CHR ''/'') = [] # (if es = [] then [[]] else es)"
    using split_join_byte [OF plain_elems_no_slash] by simp
  with es show ?thesis
    using clean_elems_plain [OF es(1), of True "[]"]
    by (auto simp: path_clean_def rooted_path_def split: if_splits)
qed

section \<open>What a normalised path looks like\<close>

definition no_dots :: "string \<Rightarrow> bool" where
  "no_dots p \<longleftrightarrow> ''.'' \<notin> set (split_byte p (CHR ''/'')) \<and> ''..'' \<notin> set (split_byte p (CHR ''/''))"

lemma no_dots_plain: "list_all plain_elem es \<Longrightarrow> ''.'' \<notin> set es \<and> ''..'' \<notin> set es"
  by (auto simp: list_all_iff plain_elem_def)

lemma no_dots_clean: "prefix ''/'' t \<Longrightarrow> no_dots (path_clean t)"
  using path_clean_segments [of t] no_dots_plain by (fastforce simp: no_dots_def)

lemma to_slash_no_bslash: "bslash \<notin> set (to_slash s)"
  by (auto simp: to_slash_def replace_byte_def)

lemma splitVolume_UNC:
  assumes "isUNCPath t" "bslash \<notin> set t"
  shows "\<exists>c s. fst (splitVolume t) = ''//'' @ c # s \<and> c \<noteq> CHR ''/'' \<and> c \<noteq> bslash"
proof -
  obtain c r where t: "t = ''//'' @ c # r" "c \<noteq> CHR ''/''" "c \<noteq> bslash"
    using assms by (auto simp: isUNCPath_def split: list.splits)
  then have "trim_prefix ''//'' t = c # r" by (simp add: trim_prefix_def)
  moreover obtain server body more where "cut (c # r) (CHR ''/'') = (c # server, body, more)"
    using t(2) by (cases "cut r (CHR ''/'')") auto
  ultimately show ?thesis using assms(1) t by (auto simp: splitVolume_def split: prod.splits)
qed

lemma splitVolume_drive:
  assumes "\<not> isUNCPath t" "fst (splitVolume t) \<noteq> []"
  shows "\<exists>d. fst (splitVolume t) = [d, CHR '':''] \<and> isASCIILetter d"
  using assms by (auto simp: splitVolume_def split: list.splits if_splits)

lemma clean_volume_no_dots:
  assumes "fst (splitVolume t) = [] \<Longrightarrow> prefix ''/'' t" "bslash \<notin> set t"
  shows "isUNCPath (clean_volume t) \<or> no_dots (clean_volume t)"
proof (cases "isUNCPath t")
  case True
  then obtain c s where "fst (splitVolume t) = ''//'' @ c # s" "c \<noteq> CHR ''/''" "c \<noteq> bslash"
    using splitVolume_UNC assms(2) by blast
  then have "isUNCPath (clean_volume t)"
    by (auto simp: clean_volume_def isUNCPath_def Let_def split: prod.splits)
  then show ?thesis by simp
next
  case unc: False
  show ?thesis
  proof (cases "fst (splitVolume t) = []")
    case True
    with assms(1) no_dots_clean show ?thesis by (auto simp: clean_volume_def split: prod.splits)
  next
    case False
    then obtain d rest where v: "splitVolume t = ([d, CHR '':''], rest)" "isASCIILetter d"
      using splitVolume_drive unc by (metis prod.collapse)
    then have d: "d \<noteq> CHR ''/''" by (auto simp: isASCIILetter_def byte_def)
    obtain es where es: "list_all plain_elem es"
        "path_clean (''/'' @ trim_prefix ''/'' rest) = CHR ''/'' # join_slash es"
      using path_clean_rooted [of "''/'' @ trim_prefix ''/'' rest"] by auto
    have "clean_volume t = [d, CHR '':''] \<or> clean_volume t = [d, CHR '':''] @ CHR ''/'' # join_slash es"
      using v es(2) by (auto simp: clean_volume_def Let_def)
    moreover have "split_byte ([d, CHR '':''] @ CHR ''/'' # join_slash es) (CHR ''/'') =
        [d, CHR '':''] # (if es = [] then [[]] else es)"
      using d split_join_byte [OF plain_elems_no_slash [OF es(1)]] by (subst split_byte_append) auto
    moreover have "split_byte [d, CHR '':''] (CHR ''/'') = [[d, CHR '':'']]" using d by simp
    ultimately show ?thesis using no_dots_plain [OF es(1)] by (auto simp: no_dots_def split: if_splits)
  qed
qed

lemma join_workdir_rooted:
  assumes "join_workdir t (isUNCPath t') wd = Some u" "bslash \<notin> set t" "prefix ''/'' (to_slash wd)"
    and "isUNCPath t' \<Longrightarrow> prefix ''/'' t"
  shows "prefix ''/'' u \<or> fst (splitVolume u) \<noteq> []" "bslash \<notin> set u"
  using assms to_slash_no_bslash [of wd] by (auto simp: join_workdir_def split: if_splits)

text \<open>
  A path that is normalised against a rooted working directory has no \<open>.\<close> or \<open>..\<close> element
  left, unless it is read as a Windows share: the comparisons of the gates see where the path
  leads, whatever was spelt.
\<close>

theorem normalizePath_no_dots:
  assumes n: "normalizePath env raw wd = Some p" and wd: "prefix ''/'' (to_slash wd)"
    and unc: "\<not> isUNCPath p"
  shows "''.'' \<notin> set (split_byte p (CHR ''/'')) \<and> ''..'' \<notin> set (split_byte p (CHR ''/''))"
proof -
  obtain t' u where t': "join_workdir (to_slash t') (isUNCPath t') wd = Some u" "p = clean_volume u"
    using n by (auto simp: normalizePath_def Let_def split: if_splits option.splits)
  have "isUNCPath t' \<Longrightarrow> prefix ''/'' (to_slash t')"
    by (auto simp: isUNCPath_def to_slash_def replace_byte_def split: list.splits)
  note u = join_workdir_rooted [OF t'(1) to_slash_no_bslash wd this]
  with clean_volume_no_dots [of u] t'(2) unc show ?thesis by (auto simp: no_dots_def)
qed

definition sample_env :: "string \<Rightarrow> string" where
  "sample_env v = (if v = ''HOME'' then ''/home/me'' else [])"

lemma normalizePath_no_dots_witness:
  "normalizePath sample_env ''~/../you/./.ssh'' ''/w'' = Some ''/home/you/.ssh'' \<and>
   ''..'' \<notin> set (split_byte ''/home/you/.ssh'' (CHR ''/''))"
proof -
  have n: "normalizePath sample_env ''~/../you/./.ssh'' ''/w'' = Some ''/home/you/.ssh''"
    and "prefix ''/'' (to_slash ''/w'')" "\<not> isUNCPath ''/home/you/.ssh''"
    by code_simp+
  with normalizePath_no_dots [OF this] show ?thesis by blast
qed

end
