(* ===== verification/Expansion.thy ===== *)
theory Expansion
  imports PathNorm
begin

text \<open>
  The second reading of a command, \<open>internal/guard/expansion.go\<close>: every parameter expansion
  whose value the command string itself supplies is replaced by that value.  The index into
  the command is the remaining input here, and the two results \<open>value, ok\<close> are an option.
\<close>

section \<open>The scan's state\<close>

record expander =
  ex_vars :: "string \<rightharpoonup> string"
  ex_positional :: "string list"
  ex_words :: "string list"
  ex_word :: string
  ex_in_word :: bool

definition new_expander :: expander where
  "new_expander = \<lparr>ex_vars = Map.empty, ex_positional = [], ex_words = [], ex_word = [], ex_in_word = False\<rparr>"

definition ex_put :: "string \<Rightarrow> expander \<Rightarrow> expander" where
  "ex_put s e = e\<lparr>ex_word := ex_word e @ s, ex_in_word := True\<rparr>"

definition end_word :: "expander \<Rightarrow> expander" where
  "end_word e =
     (if \<not> ex_in_word e then e
      else e\<lparr>ex_words := ex_words e @ [ex_word e], ex_word := [], ex_in_word := False\<rparr>)"

section \<open>Assignments\<close>

definition name_byte :: "bool \<Rightarrow> char \<Rightarrow> bool" where
  "name_byte first c \<longleftrightarrow> isASCIILetter c \<or> c = CHR ''_'' \<or> (\<not> first \<and> is_digit c)"

fun name_bytes :: "bool \<Rightarrow> string \<Rightarrow> bool" where
  "name_bytes first [] = True"
| "name_bytes first (c # s) = (name_byte first c \<and> name_bytes False s)"

definition isAssignmentWord :: "string \<Rightarrow> bool" where
  "isAssignmentWord w =
     (case cut w (CHR ''='') of (name, _, found) \<Rightarrow> found \<and> name \<noteq> [] \<and> name_bytes True name)"

definition splitAssignmentWord :: "string \<Rightarrow> (string \<times> string) option" where
  "splitAssignmentWord w =
     (if isAssignmentWord w
      then (case cut w (CHR ''='') of (name, value, _) \<Rightarrow> Some (name, value))
      else None)"

text \<open>The loop over the leading assignments of a segment.\<close>

fun assign_words :: "string list \<Rightarrow> (string \<rightharpoonup> string) \<Rightarrow> (string \<rightharpoonup> string)" where
  "assign_words [] vars = vars"
| "assign_words (w # ws) vars =
     (case splitAssignmentWord w of
        None \<Rightarrow> vars
      | Some (name, value) \<Rightarrow> assign_words ws (vars(name \<mapsto> value)))"

definition declaring_builtins :: "string list" where
  "declaring_builtins = [''export'', ''declare'', ''typeset'', ''local'', ''readonly'']"

definition drop_builtin :: "string list \<Rightarrow> string list" where
  "drop_builtin ws = (if ws \<noteq> [] \<and> hd ws \<in> set declaring_builtins then tl ws else ws)"

text \<open>\<open>endSegment\<close>: the definitions the segment made.\<close>

definition end_segment :: "expander \<Rightarrow> expander" where
  "end_segment e0 =
     (let e = end_word e0; words = drop_builtin (ex_words e); e' = e\<lparr>ex_words := []\<rparr> in
      if ex_words e = [] then e'
      else if words \<noteq> [] \<and> hd words = ''set'' then
        (case dropWhile (\<lambda>w. w \<noteq> ''--'') (tl words) of
           [] \<Rightarrow> e'
         | _ # args \<Rightarrow> e'\<lparr>ex_positional := args\<rparr>)
      else e'\<lparr>ex_vars := assign_words words (ex_vars e')\<rparr>)"

section \<open>Resolving one expansion\<close>

text \<open>\<open>scanName\<close>: the identifier at the front and what follows it.\<close>

fun scan_name :: "bool \<Rightarrow> string \<Rightarrow> string \<times> string" where
  "scan_name first [] = ([], [])"
| "scan_name first (c # s) =
     (if name_byte first c then (case scan_name False s of (n, r) \<Rightarrow> (c # n, r)) else ([], c # s))"

definition scanName :: "string \<Rightarrow> string \<times> string" where
  "scanName s = scan_name True s"

definition ex_lookup :: "expander \<Rightarrow> string \<Rightarrow> string option" where
  "ex_lookup e name =
     (case ex_vars e name of
        Some v \<Rightarrow> Some v
      | None \<Rightarrow> if name = ''IFS'' then Some '' '' else None)"

definition digit_value :: "char \<Rightarrow> int" where
  "digit_value c = byte c - 48"

definition parsePositionalIndex :: "string \<Rightarrow> int option" where
  "parsePositionalIndex body =
     (if body = [] \<or> \<not> list_all is_digit body then None
      else Some (foldl (\<lambda>n c. i64 (i64 (n * 10) + digit_value c)) 0 body))"

definition positional_at :: "expander \<Rightarrow> int \<Rightarrow> string option" where
  "positional_at e n =
     (if n < 1 \<or> n > int (length (ex_positional e)) then None
      else Some (ex_positional e ! nat (n - 1)))"

definition all_positional :: "expander \<Rightarrow> string option" where
  "all_positional e =
     (if ex_positional e = [] then None else Some (join_byte (CHR '' '') (ex_positional e)))"

text \<open>The first operator of \<open>:-\<close>, \<open>:=\<close>, \<open>-\<close> and \<open>=\<close> the rest begins with.\<close>

fun cut_operator :: "string list \<Rightarrow> string \<Rightarrow> string option" where
  "cut_operator [] s = None"
| "cut_operator (op # ops) s = (if prefix op s then Some (drop (length op) s) else cut_operator ops s)"

definition brace_name :: "string \<Rightarrow> string \<times> string" where
  "brace_name body =
     (let name = takeWhile (\<lambda>c. c \<notin> set '':-=+?#%'') body in
      if name = [] then (body, []) else (name, drop (length name) body))"

text \<open>\<open>expandBraced\<close> on the body between the braces.\<close>

definition expand_body :: "expander \<Rightarrow> string \<Rightarrow> string option" where
  "expand_body e body =
     (if body = ''@'' \<or> body = ''*'' then all_positional e
      else case parsePositionalIndex body of
        Some n \<Rightarrow> positional_at e n
      | None \<Rightarrow>
          (case brace_name body of
             (name, rest) \<Rightarrow>
               if name = [] \<or> \<not> isAssignmentWord (name @ ''='') then None
               else case ex_lookup e name of
                      Some v \<Rightarrow> Some v
                    | None \<Rightarrow> cut_operator ['':-'', '':='', ''-'', ''=''] rest))"

definition expand_braced :: "expander \<Rightarrow> string \<Rightarrow> (string \<times> string) option" where
  "expand_braced e s =
     (case cut s (CHR ''}'') of
        (body, rest, found) \<Rightarrow>
          if \<not> found then None else map_option (\<lambda>v. (v, rest)) (expand_body e body))"

text \<open>\<open>expandAt\<close> on what follows the dollar: the value and what follows the expansion.\<close>

definition expand_at :: "expander \<Rightarrow> string \<Rightarrow> (string \<times> string) option" where
  "expand_at e s =
     (case s of
        [] \<Rightarrow> None
      | c # r \<Rightarrow>
          if c = CHR ''('' \<or> c = squote then None
          else if c = CHR ''@'' \<or> c = CHR ''*'' then map_option (\<lambda>v. (v, r)) (all_positional e)
          else if is_digit c \<and> c \<noteq> CHR ''0'' then map_option (\<lambda>v. (v, r)) (positional_at e (digit_value c))
          else if c = CHR ''{'' then expand_braced e r
          else (case scanName s of
                  (name, next_s) \<Rightarrow>
                    if name = [] then None
                    else map_option (\<lambda>v. (v, next_s)) (ex_lookup e name)))"

section \<open>Writing the value back\<close>

definition expansionOperatorBytes :: string where
  "expansionOperatorBytes = '';&|<>`()'' @ [newline_c, cr_c]"

definition has_operator :: "string \<Rightarrow> bool" where
  "has_operator s \<longleftrightarrow> (\<exists>c \<in> set s. c \<in> set expansionOperatorBytes)"

definition field_separators :: "expander \<Rightarrow> string" where
  "field_separators e = (case ex_vars e ''IFS'' of Some v \<Rightarrow> v | None \<Rightarrow> [CHR '' '', tab_c, newline_c])"

definition quote_field :: "string \<Rightarrow> string option" where
  "quote_field f =
     (if \<not> has_operator f then Some f
      else if squote \<in> set f then None
      else Some (squote # f @ [squote]))"

fun quote_fields :: "string list \<Rightarrow> string list option" where
  "quote_fields [] = Some []"
| "quote_fields (f # fs) =
     (case quote_field f of
        None \<Rightarrow> None
      | Some q \<Rightarrow> map_option (\<lambda>qs. q # qs) (quote_fields fs))"

definition emitExpansion :: "expander \<Rightarrow> string \<Rightarrow> bool \<Rightarrow> string option" where
  "emitExpansion e v quoted =
     (if quoted then (if dquote \<in> set v then None else Some v)
      else let ifs = field_separators e;
               normalized = map (\<lambda>c. if c \<in> set ifs then CHR '' '' else c) v in
           if \<not> has_operator normalized then Some normalized
           else map_option (join_byte (CHR '' '')) (quote_fields (split_byte normalized (CHR '' ''))))"

section \<open>The scan\<close>

text \<open>What one iteration of the loop leaves: the state, the open quote, the text written, the rest.\<close>

record scan_step =
  ss_state :: expander
  ss_quote :: "char option"
  ss_out :: string
  ss_changed :: bool
  ss_rest :: string

definition plain_step :: "expander \<Rightarrow> char option \<Rightarrow> string \<Rightarrow> string \<Rightarrow> scan_step" where
  "plain_step e q out rest = \<lparr>ss_state = e, ss_quote = q, ss_out = out, ss_changed = False, ss_rest = rest\<rparr>"

definition dollar_step :: "expander \<Rightarrow> char option \<Rightarrow> string \<Rightarrow> scan_step" where
  "dollar_step e q s =
     (let unresolved = plain_step (ex_put ''$'' e) q ''$'' s in
      case expand_at e s of
        None \<Rightarrow> unresolved
      | Some (lit, next_s) \<Rightarrow>
          (case emitExpansion e lit (q \<noteq> None) of
             None \<Rightarrow> unresolved
           | Some txt \<Rightarrow>
               \<lparr>ss_state = ex_put lit e, ss_quote = q, ss_out = txt, ss_changed = True, ss_rest = next_s\<rparr>))"

definition quote_step :: "expander \<Rightarrow> char option \<Rightarrow> char \<Rightarrow> string \<Rightarrow> scan_step" where
  "quote_step e q c s =
     plain_step (e\<lparr>ex_in_word := True\<rparr>) (if q = Some c then None else if q = None then Some c else q) [c] s"

definition segment_breaks :: string where
  "segment_breaks = '';&|'' @ [newline_c, cr_c]"

definition scan_step_at :: "expander \<Rightarrow> char option \<Rightarrow> char \<Rightarrow> string \<Rightarrow> scan_step" where
  "scan_step_at e q c s =
     (if q = Some squote then
        (if c = squote then plain_step e None [c] s else plain_step (ex_put [c] e) q [c] s)
      else if c = bslash then
        (case s of
           [] \<Rightarrow> plain_step e q [c] s
         | d # s' \<Rightarrow> plain_step (ex_put [d] e) q [c, d] s')
      else if c = squote \<or> c = dquote then quote_step e q c s
      else if c = CHR ''$'' then dollar_step e q s
      else if q \<noteq> None then plain_step (ex_put [c] e) q [c] s
      else if c = CHR '' '' \<or> c = tab_c then plain_step (end_word e) q [c] s
      else if c \<in> set segment_breaks then plain_step (end_segment e) q [c] s
      else plain_step (ex_put [c] e) q [c] s)"

lemma cut_rest_le: "cut s c = (a, b, f) \<Longrightarrow> length b \<le> length s"
  by (induction s arbitrary: a) (auto split: if_splits prod.splits)

lemma scan_name_le: "scan_name b s = (n, r) \<Longrightarrow> length r \<le> length s"
  by (induction b s arbitrary: n rule: scan_name.induct) (auto split: if_splits prod.splits)

lemma expand_at_shorter: "expand_at e s = Some (v, r) \<Longrightarrow> length r \<le> length s"
  by (auto simp: expand_at_def expand_braced_def scanName_def split: list.splits if_splits prod.splits
      dest: cut_rest_le scan_name_le)

lemma dollar_step_rest: "length (ss_rest (dollar_step e q s)) \<le> length s"
  by (auto simp: dollar_step_def Let_def plain_step_def split: option.splits dest: expand_at_shorter)

lemma scan_step_shorter: "length (ss_rest (scan_step_at e q c s)) \<le> length s"
  using dollar_step_rest [of e q s]
  by (simp add: scan_step_at_def quote_step_def plain_step_def split: list.split)

function expand_run :: "expander \<Rightarrow> char option \<Rightarrow> string \<Rightarrow> string \<times> bool" where
  "expand_run e q [] = ([], False)"
| "expand_run e q (c # s) =
     (let st = scan_step_at e q c s; (out, changed) = expand_run (ss_state st) (ss_quote st) (ss_rest st) in
      (ss_out st @ out, ss_changed st \<or> changed))"
  by pat_completeness auto
termination
  by (relation "measure (\<lambda>(e, q, s). length s)") (auto simp: le_imp_less_Suc scan_step_shorter)

text \<open>\<open>strings.NewReplacer\<close> for the two quoted lists of all positional parameters.\<close>

fun unquote_at :: "string \<Rightarrow> string" where
  "unquote_at (a # b # c # d # s) =
     (if a = dquote \<and> b = CHR ''$'' \<and> (c = CHR ''@'' \<or> c = CHR ''*'') \<and> d = dquote
      then [b, c] @ unquote_at s
      else a # unquote_at (b # c # d # s))"
| "unquote_at s = s"

definition expandKnownParameters :: "string \<Rightarrow> string \<times> bool" where
  "expandKnownParameters cmd =
     (let pre = unquote_at cmd; (out, changed) = expand_run new_expander None pre in
      (out, changed \<or> pre \<noteq> cmd))"

section \<open>Eliding expansions from a path\<close>

text \<open>\<open>elideExpansions\<close> on what follows a dollar: what is left after the expansion, if there is one.\<close>

definition elide_at :: "string \<Rightarrow> string option" where
  "elide_at s =
     (let braced = (case s of
                      CHR ''{'' # r \<Rightarrow> (case cut r (CHR ''}'') of (_, rest, found) \<Rightarrow> if found then Some rest else None)
                    | _ \<Rightarrow> None) in
      case braced of
        Some rest \<Rightarrow> Some rest
      | None \<Rightarrow> (case scanName s of (name, rest) \<Rightarrow> if name \<noteq> [] then Some rest else None))"

lemma elide_at_shorter: "elide_at s = Some r \<Longrightarrow> length r \<le> length s"
  by (auto simp: elide_at_def scanName_def split: list.splits option.splits prod.splits if_splits char.splits bool.splits
      dest: cut_rest_le scan_name_le)

function elide_run :: "string \<Rightarrow> string \<times> bool" where
  "elide_run [] = ([], False)"
| "elide_run (c # s) =
     (if c \<noteq> CHR ''$'' then (case elide_run s of (out, ch) \<Rightarrow> (c # out, ch))
      else case elide_at s of
             Some rest \<Rightarrow> (case elide_run rest of (out, ch) \<Rightarrow> (out, True))
           | None \<Rightarrow> (case elide_run s of (out, ch) \<Rightarrow> (c # out, ch)))"
  by pat_completeness auto
termination
  by (relation "measure length") (auto dest: elide_at_shorter)

definition elideExpansions :: "string \<Rightarrow> string \<times> bool" where
  "elideExpansions p = (if CHR ''$'' \<notin> set p then (p, False) else elide_run p)"

section \<open>Bytes that stand for themselves\<close>

lemma scan_step_copies:
  "c \<noteq> CHR ''$'' \<Longrightarrow> ss_out (scan_step_at e q c s) @ ss_rest (scan_step_at e q c s) = c # s"
  "c \<noteq> CHR ''$'' \<Longrightarrow> \<not> ss_changed (scan_step_at e q c s)"
  "c \<noteq> CHR ''$'' \<Longrightarrow> set (ss_rest (scan_step_at e q c s)) \<subseteq> set s"
  by (auto simp: scan_step_at_def quote_step_def plain_step_def split: list.splits)

lemma run_no_dollar: "CHR ''$'' \<notin> set s \<Longrightarrow> expand_run e q s = (s, False)"
proof (induction e q s rule: expand_run.induct)
  case (2 e q c s)
  let ?st = "scan_step_at e q c s"
  have c: "c \<noteq> CHR ''$''" using "2.prems" by auto
  then have "CHR ''$'' \<notin> set (ss_rest ?st)" using scan_step_copies(3) [OF c, of e q s] "2.prems" by auto
  then have "expand_run (ss_state ?st) (ss_quote ?st) (ss_rest ?st) = (ss_rest ?st, False)"
    using "2.IH" by simp
  with scan_step_copies [OF c, of e q s] show ?case by (simp add: Let_def)
qed simp

lemma unquote_at_id: "dquote \<notin> set s \<or> CHR ''$'' \<notin> set s \<Longrightarrow> unquote_at s = s"
  by (induction s rule: unquote_at.induct) auto

text \<open>A byte no branch of the scan treats specially.\<close>

definition word_byte :: "char \<Rightarrow> bool" where
  "word_byte c \<longleftrightarrow> c \<notin> set ''$ '' \<and> c \<notin> {bslash, squote, dquote, tab_c} \<and> c \<notin> set expansionOperatorBytes"

lemma name_byte_word: "name_byte b c \<Longrightarrow> word_byte c"
  by (auto simp: name_byte_def word_byte_def isASCIILetter_def is_digit_def expansionOperatorBytes_def byte_def)

lemma name_bytes_words: "name_bytes b s \<Longrightarrow> list_all word_byte s"
  by (induction b s rule: name_bytes.induct) (auto dest: name_byte_word)

lemma word_byte_step:
  "word_byte c \<Longrightarrow> scan_step_at e None c s = plain_step (ex_put [c] e) None [c] s"
  by (auto simp: word_byte_def scan_step_at_def segment_breaks_def expansionOperatorBytes_def)

lemma run_word:
  "list_all word_byte w \<Longrightarrow> w \<noteq> [] \<Longrightarrow>
   expand_run e None (w @ s) =
     (case expand_run (ex_put w e) None s of (out, ch) \<Rightarrow> (w @ out, ch))"
proof (induction w arbitrary: e)
  case (Cons c w)
  show ?case
  proof (cases "w = []")
    case True
    with Cons.prems show ?thesis by (simp add: word_byte_step plain_step_def)
  next
    case False
    have "ex_put w (ex_put [c] e) = ex_put (c # w) e" by (simp add: ex_put_def)
    with False Cons show ?thesis by (simp add: word_byte_step plain_step_def split: prod.splits)
  qed
qed simp

lemma scan_name_stops:
  "name_bytes b n \<Longrightarrow> post = [] \<or> \<not> name_byte False (hd post) \<Longrightarrow> n \<noteq> [] \<or> \<not> b \<Longrightarrow> scan_name b (n @ post) = (n, post)"
proof (induction b n rule: name_bytes.induct)
  case (1 b)
  then show ?case by (cases post) auto
qed auto

lemma name_not_equals: "name_bytes b n \<Longrightarrow> CHR ''='' \<notin> set n"
  by (induction b n rule: name_bytes.induct) (auto simp: name_byte_def isASCIILetter_def is_digit_def byte_def)

lemma assignment_split:
  "name_bytes True n \<Longrightarrow> n \<noteq> [] \<Longrightarrow> splitAssignmentWord (n @ CHR ''='' # v) = Some (n, v)"
  by (simp add: splitAssignmentWord_def isAssignmentWord_def cut_present name_not_equals)

lemma not_builtin_word: "CHR ''='' \<in> set w \<Longrightarrow> w \<notin> set declaring_builtins \<and> w \<noteq> ''set''"
  by (auto simp: declaring_builtins_def)

lemma expand_at_name:
  assumes "name_bytes True n" "n \<noteq> []" "post = [] \<or> \<not> name_byte False (hd post)"
  shows "expand_at e (n @ post) = map_option (\<lambda>v. (v, post)) (ex_lookup e n)"
proof -
  obtain c r where n: "n = c # r" "name_byte True c" using assms(1,2) by (cases n) auto
  then have "c \<notin> set ''(@*{'' \<and> c \<noteq> squote \<and> \<not> is_digit c"
    by (auto simp: name_byte_def isASCIILetter_def is_digit_def byte_def)
  moreover have "scanName (n @ post) = (n, post)"
    unfolding scanName_def using assms scan_name_stops by blast
  ultimately show ?thesis using n assms(2) by (simp add: expand_at_def)
qed

lemma emit_word:
  "list_all word_byte v \<Longrightarrow> ex_vars e ''IFS'' = None \<Longrightarrow> emitExpansion e v False = Some v"
proof -
  assume v: "list_all word_byte v" and ifs: "ex_vars e ''IFS'' = None"
  have "\<not> has_operator v"
    using v by (auto simp: has_operator_def list_all_iff word_byte_def)
  moreover have "map (\<lambda>c. if c \<in> set [CHR '' '', tab_c, newline_c] then CHR '' '' else c) v = v"
    using v by (intro map_idI) (auto simp: list_all_iff word_byte_def expansionOperatorBytes_def)
  ultimately show ?thesis using ifs by (simp add: emitExpansion_def field_separators_def)
qed

lemma set_split_byte: "f \<in> set (split_byte s c) \<Longrightarrow> set f \<subseteq> set s"
proof (induction s arbitrary: f)
  case (Cons d s)
  obtain p ps where "split_byte s c = p # ps" using split_byte_ne by (metis neq_Nil_conv)
  with Cons show ?case by (fastforce split: if_splits)
qed simp

lemma quote_field_shape:
  "quote_field f = Some q \<Longrightarrow> has_operator q \<Longrightarrow> \<exists>g. q = squote # g @ [squote] \<and> squote \<notin> set g"
  "quote_field f = Some q \<Longrightarrow> CHR '' '' \<notin> set f \<Longrightarrow> CHR '' '' \<notin> set q"
  by (auto simp: quote_field_def split: if_splits)

lemma quote_fields_shape:
  "quote_fields fs = Some qs \<Longrightarrow>
   length qs = length fs \<and> (\<forall>q \<in> set qs. \<exists>f \<in> set fs. quote_field f = Some q)"
proof (induction fs arbitrary: qs)
  case (Cons f fs)
  then obtain q qs' where "quote_field f = Some q" "quote_fields fs = Some qs'" "qs = q # qs'"
    by (auto split: option.splits)
  with Cons.IH show ?case by auto
qed simp

section \<open>Properties\<close>

text \<open>A command without a dollar has one reading only.\<close>

theorem expand_no_dollar:
  "CHR ''$'' \<notin> set cmd \<Longrightarrow> expandKnownParameters cmd = (cmd, False)"
  by (simp add: expandKnownParameters_def unquote_at_id run_no_dollar)

text \<open>
  A value assigned earlier in the command replaces a later use of its name: the second
  reading of \<open>n=v; pre $n post\<close> is \<open>n=v; pre v post\<close>, for every name but \<open>IFS\<close> and every value
  and prefix of bytes the shell does not treat specially.
\<close>

theorem assigned_value_is_read:
  assumes n: "name_bytes True n" "n \<noteq> []" "n \<noteq> ''IFS''" and v: "list_all word_byte v"
    and pre: "list_all word_byte pre" "pre \<noteq> []"
    and post: "CHR ''$'' \<notin> set post" "dquote \<notin> set post" "post = [] \<or> \<not> name_byte False (hd post)"
  shows "expandKnownParameters (n @ ''='' @ v @ ''; '' @ pre @ '' $'' @ n @ post) =
           (n @ ''='' @ v @ ''; '' @ pre @ '' '' @ v @ post, True)"
proof -
  let ?w = "n @ ''='' @ v"
  let ?e1 = "new_expander\<lparr>ex_vars := [n \<mapsto> v]\<rparr>"
  let ?e2 = "end_word (ex_put pre ?e1)"
  have w: "list_all word_byte ?w" "?w \<noteq> []"
    using n v name_bytes_words by (auto simp: word_byte_def expansionOperatorBytes_def)
  have nodq: "dquote \<notin> set (n @ ''='' @ v @ ''; '' @ pre @ '' $'' @ n @ post)"
    using w v pre post name_bytes_words [OF n(1)] by (auto simp: list_all_iff word_byte_def)
  have seg: "end_segment (ex_put ?w new_expander) = ?e1"
  proof -
    have "end_word (ex_put ?w new_expander) = new_expander\<lparr>ex_words := [?w]\<rparr>"
      by (simp add: end_word_def ex_put_def new_expander_def)
    moreover have "?w \<notin> set declaring_builtins \<and> ?w \<noteq> ''set''" by (rule not_builtin_word) simp
    moreover have "splitAssignmentWord ?w = Some (n, v)" using assignment_split n by simp
    ultimately show ?thesis
      by (auto simp: end_segment_def Let_def drop_builtin_def new_expander_def)
  qed
  have e1: "end_word ?e1 = ?e1" by (simp add: end_word_def new_expander_def)
  have d: "dollar_step ?e2 None (n @ post) =
      \<lparr>ss_state = ex_put v ?e2, ss_quote = None, ss_out = v, ss_changed = True, ss_rest = post\<rparr>"
  proof -
    have "ex_vars ?e2 = [n \<mapsto> v]" by (simp add: end_word_def ex_put_def)
    then have "ex_lookup ?e2 n = Some v" "emitExpansion ?e2 v False = Some v"
      using n(3) v emit_word by (auto simp: ex_lookup_def)
    then show ?thesis using expand_at_name [OF n(1,2) post(3), of ?e2] by (simp add: dollar_step_def)
  qed
  have "expand_run ?e2 None (''$'' @ n @ post) = (v @ post, True)"
    using d run_no_dollar [OF post(1)] by (simp add: scan_step_at_def)
  then have "expand_run (ex_put pre ?e1) None ('' $'' @ n @ post) = ('' '' @ v @ post, True)"
    by (simp add: scan_step_at_def plain_step_def)
  then have "expand_run ?e1 None (pre @ '' $'' @ n @ post) = (pre @ '' '' @ v @ post, True)"
    using run_word [OF pre, of ?e1 "'' $'' @ n @ post"] by simp
  then have "expand_run (ex_put ?w new_expander) None (''; '' @ pre @ '' $'' @ n @ post) =
      (''; '' @ pre @ '' '' @ v @ post, True)"
    using seg e1 by (simp add: scan_step_at_def plain_step_def segment_breaks_def)
  then have "expand_run new_expander None (?w @ ''; '' @ pre @ '' $'' @ n @ post) =
      (?w @ ''; '' @ pre @ '' '' @ v @ post, True)"
    using run_word [OF w, of new_expander "''; '' @ pre @ '' $'' @ n @ post"] by simp
  then show ?thesis using unquote_at_id [of "n @ ''='' @ v @ ''; '' @ pre @ '' $'' @ n @ post"] nodq
    by (simp add: expandKnownParameters_def)
qed

lemma assigned_value_is_read_witness:
  "expandKnownParameters ''X=rm; sudo $X -rf /'' = (''X=rm; sudo rm -rf /'', True)"
proof -
  have "name_bytes True ''X''" "list_all word_byte ''rm''" "list_all word_byte ''sudo''"
    "CHR ''$'' \<notin> set '' -rf /''" "dquote \<notin> set '' -rf /''" "\<not> name_byte False (hd '' -rf /'')"
    by code_simp+
  then show ?thesis using assigned_value_is_read [of "''X''" "''rm''" "''sudo''" "'' -rf /''"] by simp
qed

lemma expand_no_dollar_witness: "expandKnownParameters ''rm -rf build'' = (''rm -rf build'', False)"
  by (rule expand_no_dollar) simp

text \<open>
  In the text an unquoted expansion is replaced by, a field with a control operator in it is
  a field between single quotes with no quote inside: the operators of a value are data.
\<close>

theorem emitExpansion_quotes_operators:
  assumes "emitExpansion e v False = Some txt" "f \<in> set (split_byte txt (CHR '' ''))"
    and "\<exists>c \<in> set f. c \<in> set expansionOperatorBytes"
  shows "\<exists>g. f = squote # g @ [squote] \<and> squote \<notin> set g"
proof -
  let ?n = "map (\<lambda>c. if c \<in> set (field_separators e) then CHR '' '' else c) v"
  have f: "has_operator f" using assms(3) by (simp add: has_operator_def)
  show ?thesis
  proof (cases "has_operator ?n")
    case False
    with assms(1) have "txt = ?n" by (simp add: emitExpansion_def Let_def)
    with set_split_byte [OF assms(2)] False f show ?thesis unfolding has_operator_def by blast
  next
    case True
    with assms(1) obtain qs where qs: "quote_fields (split_byte ?n (CHR '' '')) = Some qs"
        "txt = join_byte (CHR '' '') qs"
      by (auto simp: emitExpansion_def Let_def)
    have "list_all (\<lambda>q. CHR '' '' \<notin> set q) qs"
      using quote_fields_shape [OF qs(1)] quote_field_shape(2) split_byte_no_sep
      unfolding list_all_iff by blast
    moreover have "qs \<noteq> []" using quote_fields_shape [OF qs(1)] by auto
    ultimately have "split_byte txt (CHR '' '') = qs" using split_join_byte qs(2) by simp
    with assms(2) have "f \<in> set qs" by simp
    then show ?thesis using quote_fields_shape [OF qs(1)] quote_field_shape(1) f by blast
  qed
qed

lemma emitExpansion_quotes_operators_witness:
  "emitExpansion new_expander ''; rm'' False = Some (squote # '';'' @ squote # '' rm'') \<and>
   (\<exists>g. [squote, CHR '';'', squote] = squote # g @ [squote] \<and> squote \<notin> set g)"
proof -
  have e: "emitExpansion new_expander ''; rm'' False = Some (squote # '';'' @ squote # '' rm'')"
    and f: "[squote, CHR '';'', squote] \<in> set (split_byte (squote # '';'' @ squote # '' rm'') (CHR '' ''))"
    and o: "\<exists>c \<in> set [squote, CHR '';'', squote]. c \<in> set expansionOperatorBytes"
    by code_simp+
  from e emitExpansion_quotes_operators [OF e f o] show ?thesis by blast
qed

end
