(* ===== verification/ShellLite.thy ===== *)
theory ShellLite
  imports Expansion Ansic
begin

text \<open>
  The permissive lexer of \<open>internal/guard/destructive.go\<close>: \<open>lexShellLiteMode\<close> and what it
  calls.  It strips quotes, decodes ANSI-C quoting and leaves everything else alone; in the
  POSIX-escape reading (\<open>dq\<close>) a backslash also escapes in double quotes and before a blank.
\<close>

definition isDoubleQuoteEscapable :: "char \<Rightarrow> bool" where
  "isDoubleQuoteEscapable b \<longleftrightarrow> b = dquote \<or> b = bslash \<or> b = CHR ''$'' \<or> b = btick"

definition blank :: "char \<Rightarrow> bool" where
  "blank c \<longleftrightarrow> c = CHR '' '' \<or> c = tab_c"

text \<open>The token in progress is \<open>None\<close> when \<open>inTok\<close> is false.\<close>

definition put_tok :: "string option \<Rightarrow> string \<Rightarrow> string option" where
  "put_tok cur s = (case cur of None \<Rightarrow> Some s | Some w \<Rightarrow> Some (w @ s))"

definition flush_tok :: "string option \<Rightarrow> string list" where
  "flush_tok cur = (case cur of None \<Rightarrow> [] | Some w \<Rightarrow> [w])"

function lite_tokens ::
    "bool \<Rightarrow> char option \<Rightarrow> string option \<Rightarrow> string \<Rightarrow> string list option" where
  "lite_tokens dq q cur [] = (if q \<noteq> None then None else Some (flush_tok cur))"
| "lite_tokens dq q cur (c # s) =
     (case q of
        Some k \<Rightarrow>
          if dq \<and> k = dquote \<and> c = bslash \<and> s \<noteq> [] \<and> isDoubleQuoteEscapable (hd s)
          then lite_tokens dq q (put_tok cur [hd s]) (tl s)
          else if c = k then lite_tokens dq None cur s
          else lite_tokens dq q (put_tok cur [c]) s
      | None \<Rightarrow>
          if dq \<and> c = bslash \<and> s \<noteq> [] \<and> blank (hd s)
          then lite_tokens dq None (put_tok cur [hd s]) (tl s)
          else if c = CHR ''$'' \<and> s \<noteq> [] \<and> hd s = squote then
            (case DecodeANSICSpan (tl s) of
               None \<Rightarrow> None
             | Some (lit, r) \<Rightarrow> lite_tokens dq None (put_tok cur lit) r)
          else if blank c \<or> c = newline_c \<or> c = cr_c then
            map_option (\<lambda>ts. flush_tok cur @ ts) (lite_tokens dq None None s)
          else if c = squote \<or> c = dquote then lite_tokens dq (Some c) (put_tok cur []) s
          else lite_tokens dq None (put_tok cur [c]) s)"
  by pat_completeness auto
termination
  by (relation "measure (\<lambda>(dq, q, cur, s). length s)")
     (auto dest!: DecodeANSICSpan_length simp: less_Suc_eq_le)

definition lexShellLiteTokens :: "string \<Rightarrow> bool \<Rightarrow> string list option" where
  "lexShellLiteTokens cmd dq =
     (case lite_tokens dq None None cmd of
        None \<Rightarrow> None
      | Some ts \<Rightarrow> if ts = [] then None else Some ts)"

fun assignmentPrefixLen :: "string list \<Rightarrow> nat" where
  "assignmentPrefixLen (t # u # ts) = (if isAssignmentWord t then Suc (assignmentPrefixLen (u # ts)) else 0)"
| "assignmentPrefixLen ts = 0"

definition normalizeProgramWord :: "string \<Rightarrow> string" where
  "normalizeProgramWord w =
     trim_suffix ''.exe'' (to_lower (rev (takeWhile (\<lambda>c. c \<noteq> CHR ''/'') (rev (to_slash w)))))"

definition lexShellLiteMode :: "string \<Rightarrow> bool \<Rightarrow> (string \<times> string list) option" where
  "lexShellLiteMode cmd dq =
     (case lexShellLiteTokens cmd dq of
        None \<Rightarrow> None
      | Some ts \<Rightarrow>
          let first = assignmentPrefixLen ts in
          Some (normalizeProgramWord (ts ! first), drop (Suc first) ts))"

definition lexShellLite :: "string \<Rightarrow> (string \<times> string list) option" where
  "lexShellLite cmd = lexShellLiteMode cmd False"

definition lexShellLitePOSIXEscapes :: "string \<Rightarrow> (string \<times> string list) option" where
  "lexShellLitePOSIXEscapes cmd = lexShellLiteMode cmd True"

section \<open>Reading\<close>

text \<open>The index of the program word is always in range.\<close>

lemma assignmentPrefixLen_less: "ts \<noteq> [] \<Longrightarrow> assignmentPrefixLen ts < length ts"
  by (induction ts rule: assignmentPrefixLen.induct) auto

lemma lexShellLiteTokens_ne: "lexShellLiteTokens cmd dq = Some ts \<Longrightarrow> ts \<noteq> []"
  by (auto simp: lexShellLiteTokens_def split: option.splits if_splits)

lemma assignmentPrefix_skipped:
  "i < assignmentPrefixLen ts \<Longrightarrow> isAssignmentWord (ts ! i)"
  by (induction ts arbitrary: i rule: assignmentPrefixLen.induct) (auto simp: nth_Cons split: if_splits nat.splits)

text \<open>Words between single quotes and separated by blanks are read back as written.\<close>

definition lite_quoted :: "string \<Rightarrow> string" where
  "lite_quoted w = squote # w @ [squote]"

lemma lite_in_quotes:
  "squote \<notin> set w \<Longrightarrow>
   lite_tokens dq (Some squote) cur (w @ squote # s) =
     lite_tokens dq None (if w = [] then cur else put_tok cur w) s"
proof (induction w arbitrary: cur)
  case (Cons c w)
  then have "put_tok (put_tok cur [c]) w = put_tok cur (c # w)" by (simp add: put_tok_def split: option.split)
  with Cons show ?case by (cases "w = []") auto
qed simp

lemma put_tok_simps [simp]: "put_tok None w = Some w" "put_tok (Some u) w = Some (u @ w)"
  by (simp_all add: put_tok_def)

lemma lite_quoted_word:
  "squote \<notin> set w \<Longrightarrow>
   lite_tokens dq None None (lite_quoted w @ s) = lite_tokens dq None (Some w) s"
  using lite_in_quotes [of w dq "Some []" s] by (simp add: lite_quoted_def blank_def)

lemma lite_quoted_words:
  "list_all (\<lambda>w. squote \<notin> set w) ws \<Longrightarrow> ws \<noteq> [] \<Longrightarrow>
   lite_tokens dq None None (join_byte (CHR '' '') (map lite_quoted ws)) = Some ws"
proof (induction ws)
  case (Cons w ws)
  show ?case
  proof (cases ws)
    case Nil
    with Cons.prems lite_quoted_word [of w dq "[]"] show ?thesis by (simp add: flush_tok_def)
  next
    case (Cons v vs)
    with Cons.prems Cons.IH lite_quoted_word [of w dq "CHR '' '' # join_byte (CHR '' '') (map lite_quoted ws)"]
    show ?thesis by (simp add: blank_def flush_tok_def)
  qed
qed simp

text \<open>
  The permissive lexer reads a quoted argument vector as that vector: the first word that is
  not an assignment is the program, the words after it are its arguments.
\<close>

theorem lexShellLite_quoted:
  assumes "list_all (\<lambda>w. squote \<notin> set w) (prog # args)" "\<not> isAssignmentWord prog"
  shows "lexShellLiteMode (join_byte (CHR '' '') (map lite_quoted (prog # args))) dq =
           Some (normalizeProgramWord prog, args)"
proof -
  have "lexShellLiteTokens (join_byte (CHR '' '') (map lite_quoted (prog # args))) dq = Some (prog # args)"
    using lite_quoted_words [OF assms(1)] by (simp add: lexShellLiteTokens_def del: list.map)
  moreover have "assignmentPrefixLen (prog # args) = 0" using assms(2) by (cases args) auto
  ultimately show ?thesis by (simp add: lexShellLiteMode_def del: list.map)
qed

lemma lexShellLite_quoted_witness:
  "lexShellLite (squote # ''/bin/RM'' @ squote # '' '' @ squote # ''-rf /'' @ [squote]) = Some (''rm'', [''-rf /''])"
proof -
  have "list_all (\<lambda>w. squote \<notin> set w) [''/bin/RM'', ''-rf /'']" "\<not> isAssignmentWord ''/bin/RM''"
    "normalizeProgramWord ''/bin/RM'' = ''rm''"
    by code_simp+
  then show ?thesis using lexShellLite_quoted [of "''/bin/RM''" "[''-rf /'']" False]
    by (simp add: lexShellLite_def lite_quoted_def)
qed

end
