(* ===== verification/CommandSplit.thy ===== *)
theory CommandSplit
  imports ShellLite ListScanner
begin

text \<open>
  The splitter of \<open>internal/guard/destructive.go\<close>: a command string cut at its control operators,
  its redirections dropped with their targets, and the reading of a backslash before a letter.
  The loops of the code run over an index; here they run over the bytes that are left.
\<close>

section \<open>Redirections\<close>

definition isRedirectWordBoundary :: "char \<Rightarrow> bool" where
  "isRedirectWordBoundary b \<longleftrightarrow>
     b \<in> {CHR 0x00, CHR '' '', tab_c, newline_c, cr_c, CHR '';'', CHR ''|'', CHR ''&'',
          CHR ''<'', CHR ''>'', btick, CHR ''('', CHR '')''}"

text \<open>The target word: up to a boundary outside quotes.\<close>

fun skip_target :: "char option \<Rightarrow> string \<Rightarrow> string" where
  "skip_target q [] = []"
| "skip_target (Some k) (c # s) = skip_target (if c = k then None else Some k) s"
| "skip_target None (c # s) =
     (if c = squote \<or> c = dquote then skip_target (Some c) s
      else if isRedirectWordBoundary c then c # s
      else skip_target None s)"

text \<open>What is left after the redirection whose operator begins with \<open>c\<close>.\<close>

definition skipRedirect :: "char \<Rightarrow> string \<Rightarrow> string" where
  "skipRedirect c s =
     (let r = (if s \<noteq> [] \<and> hd s = c then tl s else s) in
      if r \<noteq> [] \<and> hd r = CHR ''('' then r
      else if r \<noteq> [] \<and> hd r = CHR ''&'' then
        (let r1 = tl r; after = dropWhile is_digit r1 in
         if takeWhile is_digit r1 \<noteq> [] \<and> isRedirectWordBoundary (head_or_zero after) then after
         else if head_or_zero r1 = CHR ''-'' then tl r1
         else skip_target None (dropWhile blank r1))
      else skip_target None (dropWhile blank r))"

definition trimTrailingFD :: "string \<Rightarrow> string" where
  "trimTrailingFD s =
     (let front = dropWhile is_digit (rev s) in
      if front \<noteq> rev s \<and> (front = [] \<or> blank (hd front)) then rev front else s)"

lemma skip_target_le: "length (skip_target q s) \<le> length s"
  by (induction q s rule: skip_target.induct) auto

lemma skipRedirect_le: "length (skipRedirect c s) \<le> length s"
proof -
  have d: "length (skip_target None (dropWhile P r)) \<le> length r" for P r
    using skip_target_le [of None "dropWhile P r"] length_dropWhile_le [of P r] by linarith
  have t: "length (tl r) \<le> length r" for r :: string by simp
  show ?thesis
    unfolding skipRedirect_def Let_def
    by (auto intro: le_trans [OF length_dropWhile_le] le_trans [OF d] simp: le_diff_conv)
qed

lemma trimTrailingFD_le: "length (trimTrailingFD s) \<le> length s"
  using length_dropWhile_le [of is_digit "rev s"] by (auto simp: trimTrailingFD_def Let_def)

section \<open>Segments\<close>

definition keep_segment :: "string \<Rightarrow> string list" where
  "keep_segment s = (if trim_space s = [] then [] else [s])"

definition segment_operators :: string where
  "segment_operators = '';|&'' @ [newline_c, cr_c, btick] @ ''()''"

function (sequential) split_segments :: "char option \<Rightarrow> string \<Rightarrow> string \<Rightarrow> string list" where
  "split_segments q cur [] = keep_segment cur"
| "split_segments (Some k) cur (c # s) = split_segments (if c = k then None else Some k) (cur @ [c]) s"
| "split_segments None cur (c # s) =
     (if c = squote \<or> c = dquote then split_segments (Some c) (cur @ [c]) s
      else if c \<in> set segment_operators then keep_segment cur @ split_segments None [] s
      else if c = CHR ''>'' \<or> c = CHR ''<'' then split_segments None (trimTrailingFD cur) (skipRedirect c s)
      else if c = CHR ''$'' \<and> s \<noteq> [] \<and> hd s = CHR ''('' then keep_segment cur @ split_segments None [] (tl s)
      else split_segments None (cur @ [c]) s)"
  by pat_completeness auto
termination
  by (relation "measure (\<lambda>(q, cur, s). length s)") (auto simp: less_Suc_eq_le skipRedirect_le)

definition splitControlSegments :: "string \<Rightarrow> string list" where
  "splitControlSegments cmd = split_segments None [] cmd"

definition splitIntoStrictlySmallerSegments :: "string \<Rightarrow> string list option" where
  "splitIntoStrictlySmallerSegments cmd =
     (let segs = splitControlSegments cmd in
      if length segs = 1 \<and> trim_space (hd segs) = trim_space cmd then None else Some segs)"

definition control_markers :: "string list" where
  "control_markers =
     [''&&'', ''&'', ''||'', '';'', ''|'', [btick], ''$('', [newline_c], [cr_c], ''>'', ''<'', ''('', '')'']"

definition hasControlOperator :: "string \<Rightarrow> bool" where
  "hasControlOperator cmd \<longleftrightarrow> list_ex (contains cmd) control_markers"

text \<open>
  Either nothing was a boundary and the command is its one segment, or each segment lost a byte.
\<close>

lemma keep_segment_member: "x \<in> set (keep_segment cur) \<Longrightarrow> x = cur"
  by (simp add: keep_segment_def split: if_splits)

lemma split_segments_smaller:
  "split_segments q cur s = keep_segment (cur @ s) \<or>
   (\<forall>x \<in> set (split_segments q cur s). length x < length cur + length s)"
proof (induction q cur s rule: split_segments.induct)
  case (3 cur c s)
  have le: "length x \<le> length cur' + length s'"
    if "split_segments None cur' s' = keep_segment (cur' @ s') \<or>
        (\<forall>x \<in> set (split_segments None cur' s'). length x < length cur' + length s')"
      "x \<in> set (split_segments None cur' s')" for x cur' s'
    using that keep_segment_member [of x "cur' @ s'"] by auto
  have cut: "\<forall>x \<in> set (keep_segment cur @ split_segments None [] s'). length x < length cur + Suc (length s)"
    if "length s' \<le> length s"
      "split_segments None [] s' = keep_segment ([] @ s') \<or>
       (\<forall>x \<in> set (split_segments None [] s'). length x < length ([] :: string) + length s')" for s'
    using le [OF that(2)] that(1) by (fastforce dest: keep_segment_member)
  consider (q) "c = squote \<or> c = dquote"
    | (op) "c \<noteq> squote" "c \<noteq> dquote" "c \<in> set segment_operators"
    | (re) "c \<noteq> squote" "c \<noteq> dquote" "c \<notin> set segment_operators" "c = CHR ''>'' \<or> c = CHR ''<''"
    | (sub) "c \<noteq> squote" "c \<noteq> dquote" "c \<notin> set segment_operators" "\<not> (c = CHR ''>'' \<or> c = CHR ''<'')"
        "c = CHR ''$'' \<and> s \<noteq> [] \<and> hd s = CHR ''(''"
    | (plain) "c \<noteq> squote" "c \<noteq> dquote" "c \<notin> set segment_operators" "\<not> (c = CHR ''>'' \<or> c = CHR ''<'')"
        "\<not> (c = CHR ''$'' \<and> s \<noteq> [] \<and> hd s = CHR ''('')" by blast
  then show ?case
  proof cases
    case q
    with "3.IH"(1) show ?thesis by auto
  next
    case op
    with "3.IH"(2) cut [of s] show ?thesis by auto
  next
    case re
    have "length (trimTrailingFD cur) + length (skipRedirect c s) \<le> length cur + length s"
      using trimTrailingFD_le [of cur] skipRedirect_le [of c s] by linarith
    with re "3.IH"(3) le [of "trimTrailingFD cur" "skipRedirect c s"] show ?thesis by fastforce
  next
    case sub
    then have "split_segments None cur (c # s) = keep_segment cur @ split_segments None [] (tl s)"
      by (simp only: split_segments.simps) simp
    with sub "3.IH"(4) cut [of "tl s"] show ?thesis by simp
  next
    case plain
    then have "split_segments None cur (c # s) = split_segments None (cur @ [c]) s"
      by (simp only: split_segments.simps) auto
    with plain "3.IH"(5) show ?thesis by auto
  qed
qed auto

lemma smaller_segments:
  assumes "splitIntoStrictlySmallerSegments cmd = Some segs" "x \<in> set segs"
  shows "length x < length cmd"
  using split_segments_smaller [of None "[]" cmd] assms
  by (auto simp: splitIntoStrictlySmallerSegments_def splitControlSegments_def keep_segment_def Let_def
      split: if_splits)

section \<open>A backslash before a letter\<close>

fun unescape_bytes :: "string \<Rightarrow> string \<times> bool" where
  "unescape_bytes (c # n # s) =
     (if c \<noteq> bslash then (case unescape_bytes (n # s) of (r, ch) \<Rightarrow> (c # r, ch))
      else if isASCIILetter n \<or> is_digit n then (n # fst (unescape_bytes s), True)
      else (case unescape_bytes s of (r, ch) \<Rightarrow> (bslash # n # r, ch)))"
| "unescape_bytes s = (s, False)"

definition unescapeOneWord :: "string \<Rightarrow> string \<times> bool" where
  "unescapeOneWord w =
     (if bslash \<notin> set w \<or> prefix [bslash, bslash] w \<or> CHR '':'' \<in> set w \<or> CHR ''/'' \<in> set w
      then (w, False) else unescape_bytes w)"

function unescape_words :: "string \<Rightarrow> string \<times> bool" where
  "unescape_words s =
     (if s = [] then ([], False)
      else let r = dropWhile blank s;
               w = takeWhile (\<lambda>c. \<not> blank c) r; rest = dropWhile (\<lambda>c. \<not> blank c) r in
           case unescapeOneWord w of (w', ch) \<Rightarrow>
             (case unescape_words rest of (rest', ch') \<Rightarrow> (takeWhile blank s @ w' @ rest', ch \<or> ch')))"
  by pat_completeness auto
termination
proof (relation "measure length")
  fix s r w rest :: string
  assume "s \<noteq> []" and r: "r = dropWhile blank s" and "rest = dropWhile (\<lambda>c. \<not> blank c) r"
  then obtain c u where s: "s = c # u" by (cases s) auto
  show "(rest, s) \<in> measure length"
  proof (cases "blank c")
    case True
    then show ?thesis
      using s r \<open>rest = _\<close> length_dropWhile_le [of blank u] length_dropWhile_le [of "\<lambda>c. \<not> blank c" r] by simp
  next
    case False
    then show ?thesis using s r \<open>rest = _\<close> length_dropWhile_le [of "\<lambda>c. \<not> blank c" u] by simp
  qed
qed simp

declare unescape_words.simps [simp del]

definition unescapeWordLetters :: "string \<Rightarrow> string \<times> bool" where
  "unescapeWordLetters cmd = (if bslash \<notin> set cmd then (cmd, False) else unescape_words cmd)"

lemma unescape_bytes_length:
  "length (fst (unescape_bytes s)) \<le> length s \<and> (snd (unescape_bytes s) \<longrightarrow> length (fst (unescape_bytes s)) < length s)"
  by (induction s rule: unescape_bytes.induct) (auto split: prod.splits)

lemma unescapeOneWord_length:
  "length (fst (unescapeOneWord w)) \<le> length w \<and> (snd (unescapeOneWord w) \<longrightarrow> length (fst (unescapeOneWord w)) < length w)"
  using unescape_bytes_length by (simp add: unescapeOneWord_def)

lemma unescape_words_length:
  "length (fst (unescape_words s)) \<le> length s \<and> (snd (unescape_words s) \<longrightarrow> length (fst (unescape_words s)) < length s)"
proof (induction s rule: unescape_words.induct)
  case (1 s)
  show ?case
  proof (cases "s = []")
    case True
    then show ?thesis by (simp add: unescape_words.simps)
  next
    case False
    define r where "r = dropWhile blank s"
    define w where "w = takeWhile (\<lambda>c. \<not> blank c) r"
    define rest where "rest = dropWhile (\<lambda>c. \<not> blank c) r"
    obtain w' ch where w': "unescapeOneWord w = (w', ch)" by fastforce
    obtain rest' ch' where rest': "unescape_words rest = (rest', ch')" by fastforce
    have "unescape_words s = (takeWhile blank s @ w' @ rest', ch \<or> ch')"
      using False w' rest' by (subst unescape_words.simps) (simp add: r_def w_def rest_def Let_def)
    moreover have "length s = length (takeWhile blank s) + length w + length rest"
      unfolding w_def rest_def r_def
      by (metis (no_types, lifting) add.assoc length_append takeWhile_dropWhile_id)
    moreover have "length rest' \<le> length rest \<and> (ch' \<longrightarrow> length rest' < length rest)"
      using "1.IH" [OF False r_def w_def rest_def w' [symmetric]] rest' by simp
    moreover have "length w' \<le> length w \<and> (ch \<longrightarrow> length w' < length w)"
      using unescapeOneWord_length [of w] w' by simp
    ultimately show ?thesis by auto
  qed
qed

lemma unescapeWordLetters_smaller:
  "unescapeWordLetters cmd = (s, True) \<Longrightarrow> length s < length cmd"
  using unescape_words_length [of cmd] by (auto simp: unescapeWordLetters_def split: if_splits)

end
