(* ===== verification/Unwrap.thy ===== *)
theory Unwrap
  imports CommandSplit
begin

text \<open>
  The ways one command carries another, \<open>internal/guard/ansic.go\<close> and \<open>prefixrunner.go\<close>: the
  operand of a shell's \<open>-c\<close>, the arguments of \<open>eval\<close>, \<open>trap\<close>, \<open>su\<close> and \<open>ssh\<close>, the trailing
  arguments of a prefix runner such as \<open>sudo\<close>, the action of \<open>find\<close>, and a script on the
  standard input of a shell.  Tables of the code are lists here, its loops recursions on what is
  left of the arguments.
\<close>

section \<open>Options\<close>

definition isFlagWord :: "string \<Rightarrow> bool" where
  "isFlagWord w =
     (if w = [] \<or> w = ''-'' then False
      else if hd w = CHR ''-'' then True
      else if hd w \<noteq> CHR ''/'' then False
      else let rest = tl w in
           if CHR '':'' \<in> set rest then hd rest \<noteq> CHR '':''
           else length rest = 1 \<and> isASCIILetter (hd rest))"

text \<open>An option whose next word is its value.\<close>

definition skip_word :: "bool \<Rightarrow> string list \<Rightarrow> string list" where
  "skip_word takes_value rest = (if takes_value then tl rest else rest)"

lemma skip_word_less [termination_simp, simp]: "length (skip_word b rest) < Suc (length rest)"
  by (simp add: skip_word_def less_Suc_eq_le)

section \<open>Shell wrappers\<close>

definition shellWrappers :: "string list" where
  "shellWrappers = [''sh'', ''bash'', ''zsh'', ''dash'', ''ksh'', ''ash'', ''busybox'', ''env'', ''script'']"

definition shellShortValueFlags :: "string list" where
  "shellShortValueFlags = [''-o'', ''-O'']"

definition shellLongValueFlags :: "string list" where
  "shellLongValueFlags = [''--rcfile'', ''--init-file'']"

definition windowsShellWrappers :: "(string \<times> string list) list" where
  "windowsShellWrappers =
     [(''powershell'', [''-command'', ''-c'']), (''pwsh'', [''-command'', ''-c'']), (''cmd'', [''/c'', ''/k'', ''/r''])]"

definition powerShellCommandParams :: "string list" where
  "powerShellCommandParams = [''-command'', ''-commandwithargs'']"

definition powerShellCommandAliases :: "string list" where
  "powerShellCommandAliases = [''-c'', ''-cwa'']"

definition powerShellEncodedParams :: "string list" where
  "powerShellEncodedParams = [''-encodedcommand'', ''-encodedarguments'']"

definition powerShellEncodedAliases :: "string list" where
  "powerShellEncodedAliases = [''-ec'']"

definition isPowerShellHost :: "string \<Rightarrow> bool" where
  "isPowerShellHost program \<longleftrightarrow> program = ''powershell'' \<or> program = ''pwsh''"

definition bindsPowerShellParam :: "string \<Rightarrow> string list \<Rightarrow> string list \<Rightarrow> bool" where
  "bindsPowerShellParam w params aliases =
     (let l = to_lower w in l \<in> set aliases \<or> (2 \<le> length l \<and> list_ex (prefix l) params))"

definition windowsCommandFlag :: "string \<Rightarrow> string \<Rightarrow> bool" where
  "windowsCommandFlag program w =
     (case map_of windowsShellWrappers program of
        None \<Rightarrow> False
      | Some flags \<Rightarrow>
          to_lower w \<in> set flags \<or>
          (isPowerShellHost program \<and> bindsPowerShellParam w powerShellCommandParams powerShellCommandAliases))"

abbreviation join_blank :: "string list \<Rightarrow> string" where
  "join_blank \<equiv> join_byte (CHR '' '')"

fun after_command_flag :: "string \<Rightarrow> string list \<Rightarrow> string option" where
  "after_command_flag program [] = None"
| "after_command_flag program (a # rest) =
     (if windowsCommandFlag program a \<and> rest \<noteq> [] then Some (join_blank rest)
      else after_command_flag program rest)"

definition unwrapWindowsShellCommand :: "string \<Rightarrow> string list \<Rightarrow> string option" where
  "unwrapWindowsShellCommand program args =
     (if map_of windowsShellWrappers program = None then None else after_command_flag program args)"

text \<open>The flag scan of a POSIX shell; \<open>saw_c\<close> is set behind a cluster with a \<open>c\<close>.\<close>

fun scan_dash_c :: "bool \<Rightarrow> string list \<Rightarrow> string option" where
  "scan_dash_c saw_c [] = None"
| "scan_dash_c saw_c (a # rest) =
     (if a = ''--'' then (if saw_c then scan_dash_c saw_c rest else None)
      else if \<not> prefix ''-'' a \<or> a = ''-'' then (if saw_c then Some a else None)
      else if prefix ''--'' a then
        scan_dash_c saw_c (skip_word (a \<in> set shellLongValueFlags) rest)
      else if CHR ''c'' \<in> set (tl a) then scan_dash_c True rest
      else scan_dash_c saw_c (skip_word (a \<in> set shellShortValueFlags) rest))"

text \<open>The options of \<open>env\<close>: a command to split, or the words from the program on.\<close>

datatype env_scan = Env_command string | Env_words "string list"

fun scan_env :: "string list \<Rightarrow> env_scan" where
  "scan_env [] = Env_words []"
| "scan_env (a # rest) =
     (if CHR ''='' \<notin> set a \<and> \<not> prefix ''-'' a then Env_words (a # rest)
      else if a = ''-S'' \<or> a = ''--split-string'' then
        (case rest of b # _ \<Rightarrow> Env_command b | [] \<Rightarrow> Env_words [])
      else if prefix ''-S'' a then Env_command (drop 2 a)
      else if prefix ''--split-string='' a then Env_command (drop 15 a)
      else scan_env (skip_word (a = ''-u'' \<or> a = ''--unset'') rest))"

lemma scan_env_words: "scan_env args = Env_words (p # rest) \<Longrightarrow> length rest < length args"
proof (induction args rule: scan_env.induct)
  case (2 a rest')
  let ?r = "skip_word (a = ''-u'' \<or> a = ''--unset'') rest'"
  show ?case
  proof (cases "CHR ''='' \<notin> set a \<and> \<not> prefix ''-'' a")
    case True
    with "2.prems" show ?thesis by simp
  next
    case False
    then have c: "\<not> (a = ''-S'' \<or> a = ''--split-string'')" "\<not> prefix ''-S'' a" "\<not> prefix ''--split-string='' a"
      and r: "scan_env ?r = Env_words (p # rest)"
      using "2.prems" by (simp_all split: if_splits list.splits)
    from "2.IH" [OF False c r] have "length rest < length ?r" .
    also have "\<dots> < length (a # rest')" by simp
    finally show ?thesis .
  qed
qed simp

text \<open>\<open>unwrapShellCommand\<close> with its branch \<open>unwrapEnvCommand\<close>, which comes back to it.\<close>

function unwrapShellCommand :: "string \<Rightarrow> string list \<Rightarrow> string option" where
  "unwrapShellCommand program args =
     (if program \<notin> set shellWrappers then None
      else if program = ''env'' then
        (case scan_env args of
           Env_command c \<Rightarrow> Some c
         | Env_words [] \<Rightarrow> None
         | Env_words (p # rest) \<Rightarrow> unwrapShellCommand (normalizeProgramWord p) rest)
      else scan_dash_c False args)"
  by pat_completeness auto
termination by (relation "measure (\<lambda>(p, args). length args)") (auto dest: scan_env_words)

declare unwrapShellCommand.simps [simp del]

definition maxUnwrapDepth :: nat where
  "maxUnwrapDepth = 8"

section \<open>Prefix runners\<close>

record prefixRunnerSpec =
  pf_value_flags :: "string list"
  pf_positionals :: nat
  pf_assignments :: bool
  pf_supplies_positional :: "string list"

definition runner :: "string list \<Rightarrow> prefixRunnerSpec" where
  "runner flags = \<lparr>pf_value_flags = flags, pf_positionals = 0, pf_assignments = False, pf_supplies_positional = []\<rparr>"

definition prefixRunners :: "(string \<times> prefixRunnerSpec) list" where
  "prefixRunners =
     [(''sudo'', (runner [''-u'', ''--user'', ''-g'', ''--group'', ''-p'', ''--prompt'', ''-C'', ''--close-from'',
         ''-h'', ''--host'', ''-r'', ''--role'', ''-t'', ''--type'', ''-U'', ''--other-user'', ''-D'', ''--chdir'',
         ''-R'', ''--chroot''])\<lparr>pf_assignments := True\<rparr>),
      (''doas'', runner [''-u'', ''-C'']),
      (''please'', runner [''-u'']),
      (''runuser'', runner [''-u'', ''--user'', ''-g'', ''--group'', ''-G'', ''--supp-group'', ''-s'', ''--shell'']),
      (''su'', runner [''-s'', ''--shell'', ''-g'', ''--group'', ''-G'']),
      (''nohup'', runner []), (''setsid'', runner []), (''daemon'', runner []),
      (''flock'', (runner [''-w'', ''--wait'', ''--timeout'', ''-E'', ''--conflict-exit-code''])\<lparr>pf_positionals := 1\<rparr>),
      (''unshare'', runner [''--map-user'', ''--map-group'', ''-S'', ''--setuid'', ''-G'', ''--setgid'',
         ''--propagation'', ''-R'', ''--root'', ''-w'', ''--wd'']),
      (''parallel'', runner [''-j'', ''--jobs'', ''-a'', ''--arg-file'', ''-S'', ''--sshlogin'', ''-N'', ''-L'',
         ''-d'', ''--delimiter'', ''--colsep'', ''-C'']),
      (''watch'', runner [''-n'', ''--interval'']),
      (''nice'', runner [''-n'', ''--adjustment'']),
      (''ionice'', runner [''-c'', ''--class'', ''-n'', ''--classdata'', ''-p'', ''--pid'']),
      (''taskset'', (runner [''-p'', ''--pid'', ''-c'', ''--cpu-list''])
         \<lparr>pf_positionals := 1, pf_supplies_positional := [''-c'', ''--cpu-list'']\<rparr>),
      (''timeout'', (runner [''-s'', ''--signal'', ''-k'', ''--kill-after''])\<lparr>pf_positionals := 1\<rparr>),
      (''stdbuf'', runner [''-i'', ''-o'', ''-e'', ''--input'', ''--output'', ''--error'']),
      (''unbuffer'', runner []),
      (''time'', runner [''-o'', ''--output'', ''-f'', ''--format'']),
      (''command'', runner []), (''exec'', runner [''-a'']), (''builtin'', runner []),
      (''chroot'', (runner [''--userspec'', ''--groups''])\<lparr>pf_positionals := 1\<rparr>),
      (''fakeroot'', runner []), (''proot'', runner [''-r'', ''-b'', ''-w'']),
      (''xargs'', runner [''-I'', ''-i'', ''--replace'', ''-L'', ''--max-lines'', ''-n'', ''--max-args'',
         ''-P'', ''--max-procs'', ''-s'', ''--max-chars'', ''-d'', ''--delimiter'', ''-E'', ''-e'', ''-a'', ''--arg-file'']),
      (''env'', (runner [''-u'', ''--unset'', ''-C'', ''--chdir'', ''-S''])\<lparr>pf_assignments := True\<rparr>),
      (''start'', runner []), (''runas'', runner []),
      (''busybox'', runner []), (''toybox'', runner []), (''coproc'', runner []),
      (''{'', runner []), (''!'', runner []), (''then'', runner []), (''else'', runner []), (''elif'', runner []),
      (''do'', runner []), (''if'', runner []), (''while'', runner []), (''until'', runner [])]"

text \<open>Past the options and assignments: the positionals still to skip, and the words left.\<close>

fun skip_options :: "prefixRunnerSpec \<Rightarrow> nat \<Rightarrow> string list \<Rightarrow> nat \<times> string list" where
  "skip_options spec n [] = (n, [])"
| "skip_options spec n (w # rest) =
     (if w = ''--'' then (n, rest)
      else if pf_assignments spec \<and> \<not> isFlagWord w \<and> CHR ''='' \<in> set w then skip_options spec n rest
      else if \<not> isFlagWord w then (n, w # rest)
      else skip_options spec (if w \<in> set (pf_supplies_positional spec) then 0 else n)
             (skip_word (w \<in> set (pf_value_flags spec)) rest))"

fun skip_positionals :: "nat \<Rightarrow> string list \<Rightarrow> string list" where
  "skip_positionals (Suc n) (a # rest) = (if isFlagWord a then a # rest else skip_positionals n rest)"
| "skip_positionals n args = args"

text \<open>\<open>prefixCommandIndex\<close>, as the words from the command on.\<close>

definition prefixCommandIndex :: "prefixRunnerSpec \<Rightarrow> string list \<Rightarrow> string list option" where
  "prefixCommandIndex spec args =
     (case skip_options spec (pf_positionals spec) args of
        (n, rest) \<Rightarrow> let cmd = skip_positionals n rest in if cmd = [] then None else Some cmd)"

definition stripCommandPrefix :: "string \<Rightarrow> string list \<Rightarrow> (string \<times> string list) option" where
  "stripCommandPrefix program args =
     (case map_of prefixRunners program of
        None \<Rightarrow> None
      | Some spec \<Rightarrow>
          (case prefixCommandIndex spec args of
             Some (w # rest) \<Rightarrow> Some (normalizeProgramWord w, rest)
           | _ \<Rightarrow> None))"

section \<open>Commands carried as a string\<close>

definition unwrapEvalCommand :: "string \<Rightarrow> string list \<Rightarrow> string option" where
  "unwrapEvalCommand program args =
     (if program \<noteq> ''eval'' \<or> args = [] then None else Some (join_blank args))"

definition firstOperandCommands :: "string list" where
  "firstOperandCommands = [''trap'', ''invoke-expression'', ''iex'']"

definition unwrapArgvCommand :: "string \<Rightarrow> string list \<Rightarrow> string option" where
  "unwrapArgvCommand program args =
     (if program \<notin> set firstOperandCommands then None
      else find (\<lambda>a. a \<noteq> ''--'' \<and> \<not> isFlagWord a) args)"

definition remoteShellRunners :: "(string \<times> prefixRunnerSpec) list" where
  "remoteShellRunners =
     [(''ssh'', (runner [''-o'', ''-i'', ''-p'', ''-l'', ''-F'', ''-c'', ''-e'', ''-b'', ''-D'', ''-L'', ''-R'', ''-W'',
         ''-w'', ''-S'', ''-J'', ''-m'', ''-Q'', ''-E'', ''-B'', ''-I''])\<lparr>pf_positionals := 1\<rparr>)]"

definition unwrapRemoteCommand :: "string \<Rightarrow> string list \<Rightarrow> string option" where
  "unwrapRemoteCommand program args =
     (case map_of remoteShellRunners program of
        None \<Rightarrow> None
      | Some spec \<Rightarrow> map_option join_blank (prefixCommandIndex spec args))"

definition suLikeRunners :: "string list" where
  "suLikeRunners = [''su'', ''runuser'']"

fun su_payload :: "string list \<Rightarrow> string option" where
  "su_payload [] = None"
| "su_payload (a # rest) =
     (if a = ''--'' \<or> \<not> isFlagWord a then su_payload rest
      else if prefix ''--'' a then
        (if a = ''--command'' \<and> rest \<noteq> [] then Some (hd rest)
         else if prefix ''--command='' a then Some (drop 10 a)
         else su_payload rest)
      else if suffix ''c'' a \<and> rest \<noteq> [] then Some (hd rest)
      else su_payload rest)"

definition unwrapSuCommand :: "string \<Rightarrow> string list \<Rightarrow> string option" where
  "unwrapSuCommand program args = (if program \<notin> set suLikeRunners then None else su_payload args)"

definition nestedCommandUnwrappers :: "(string \<Rightarrow> string list \<Rightarrow> string option) list" where
  "nestedCommandUnwrappers =
     [unwrapShellCommand, unwrapWindowsShellCommand, unwrapSuCommand, unwrapEvalCommand,
      unwrapArgvCommand, unwrapRemoteCommand]"

section \<open>The action of find\<close>

definition findExecActions :: "string list" where
  "findExecActions = [''-exec'', ''-execdir'', ''-ok'', ''-okdir'']"

definition findSearchRoots :: "string list \<Rightarrow> string list" where
  "findSearchRoots args =
     (let roots = takeWhile (\<lambda>a. a \<noteq> [] \<and> hd a \<noteq> CHR ''-'' \<and> a \<noteq> ''!'' \<and> a \<noteq> ''('') args in
      if roots = [] then [''.''] else roots)"

fun find_action :: "string list \<Rightarrow> string list option" where
  "find_action [] = None"
| "find_action (a # rest) =
     (if a \<in> set findExecActions \<and> rest \<noteq> []
      then Some (takeWhile (\<lambda>w. w \<noteq> '';'' \<and> w \<noteq> [bslash, CHR '';''] \<and> w \<noteq> ''+'') rest)
      else find_action rest)"

definition stripFindExec :: "string \<Rightarrow> string list \<Rightarrow> (string \<times> string list) option" where
  "stripFindExec program args =
     (if program \<noteq> ''find'' then None
      else case find_action args of
             Some (p # rest) \<Rightarrow>
               Some (normalizeProgramWord p,
                     concat (map (\<lambda>w. if w = ''{}'' then findSearchRoots args else [w]) rest))
           | _ \<Rightarrow> None)"

definition commandPrefixStrippers :: "(string \<Rightarrow> string list \<Rightarrow> (string \<times> string list) option) list" where
  "commandPrefixStrippers = [stripCommandPrefix, stripFindExec]"

definition hasNestedCommand :: "string \<Rightarrow> string list \<Rightarrow> bool" where
  "hasNestedCommand program args \<longleftrightarrow>
     list_ex (\<lambda>u. u program args \<noteq> None) nestedCommandUnwrappers \<or>
     list_ex (\<lambda>u. u program args \<noteq> None) commandPrefixStrippers"

section \<open>Payloads\<close>

fun nestedPayloads :: "string \<Rightarrow> nat \<Rightarrow> string list" where
  "nestedPayloads cmd 0 = []"
| "nestedPayloads cmd (Suc depth) =
     concat (map (\<lambda>seg.
        case lexShellLite seg of
          None \<Rightarrow> []
        | Some (program, args) \<Rightarrow>
            concat (map (\<lambda>unwrap.
              case unwrap program args of
                None \<Rightarrow> []
              | Some inner \<Rightarrow> if trim_space inner = [] then [] else inner # nestedPayloads inner depth)
              nestedCommandUnwrappers))
        (splitControlSegments cmd))"

section \<open>A script on standard input\<close>

definition scriptEmitters :: "string list" where
  "scriptEmitters = [''echo'', ''printf'']"

definition posixShellPrograms :: "string list" where
  "posixShellPrograms = [''sh'', ''bash'', ''zsh'', ''dash'', ''ksh'', ''ash'']"

text \<open>A stage is its text and whether a pipe leads into it.\<close>

definition keep_stage :: "string \<Rightarrow> bool \<Rightarrow> (string \<times> bool) list" where
  "keep_stage cur piped = (if trim_space cur = [] then [] else [(cur, piped)])"

function (sequential) pipe_stages :: "char option \<Rightarrow> bool \<Rightarrow> string \<Rightarrow> string \<Rightarrow> (string \<times> bool) list" where
  "pipe_stages q piped cur [] = keep_stage cur piped"
| "pipe_stages (Some k) piped cur (c # s) = pipe_stages (if c = k then None else Some k) piped (cur @ [c]) s"
| "pipe_stages None piped cur (c # s) =
     (if c = squote \<or> c = dquote then pipe_stages (Some c) piped (cur @ [c]) s
      else if c = CHR ''|'' then
        (if s \<noteq> [] \<and> hd s = CHR ''|'' then keep_stage cur piped @ pipe_stages None False [] (tl s)
         else keep_stage cur piped @ pipe_stages None True [] s)
      else if c \<in> {CHR '';'', CHR ''&'', newline_c, cr_c} then keep_stage cur piped @ pipe_stages None False [] s
      else pipe_stages None piped (cur @ [c]) s)"
  by pat_completeness auto
termination by (relation "measure (\<lambda>(q, p, cur, s). length s)") auto

definition splitPipeStages :: "string \<Rightarrow> (string \<times> bool) list" where
  "splitPipeStages cmd = pipe_stages None False [] cmd"

fun reads_stdin :: "string list \<Rightarrow> bool" where
  "reads_stdin [] = True"
| "reads_stdin (a # rest) =
     (if a = ''--'' then True
      else if prefix ''-'' a \<and> a \<noteq> ''-'' then
        (if CHR ''s'' \<in> set a then True
         else reads_stdin (skip_word (a \<in> set shellShortValueFlags \<or> a \<in> set shellLongValueFlags) rest))
      else False)"

definition readsScriptFromStdin :: "string \<Rightarrow> string list \<Rightarrow> bool" where
  "readsScriptFromStdin program args \<longleftrightarrow>
     program \<in> set posixShellPrograms \<and> unwrapShellCommand program args = None \<and> reads_stdin args"

end
