(* ===== verification/Storage.thy ===== *)
theory Storage
  imports PathNorm Unwrap
begin

text \<open>
  What a deletion and a storage tool are pointed at: the deletion tables and target tests of
  \<open>internal/guard/destructive.go\<close> and \<open>internal/guard/storage.go\<close>.  The environment and the
  operating system of the process are the record \<open>host\<close>.
\<close>

record host =
  hs_env :: "string \<Rightarrow> string"
  hs_goos :: string

section \<open>Targets\<close>

function strip_slashes :: "string \<Rightarrow> string" where
  "strip_slashes t =
     (if 1 < length t \<and> suffix ''/'' t \<and> \<not> (length t = 3 \<and> t ! 1 = CHR '':'')
      then strip_slashes (butlast t) else t)"
  by pat_completeness auto
termination by (relation "measure length") auto

declare strip_slashes.simps [simp del]

definition normLiteral :: "string \<Rightarrow> string" where
  "normLiteral t =
     (let u = strip_slashes (to_lower (to_slash (trim_bytes [dquote, squote] t))) in
      if u = [] then ''/'' else u)"

definition catastrophicRoots :: "string list" where
  "catastrophicRoots =
     [''/'', ''/*'', ''~'', ''~/*'', ''$home'', ''$home/*'', ''*'', ''.'', ''./'', ''..'',
      ''/etc'', ''/etc/*'', ''/usr'', ''/usr/*'', ''/var'', ''/var/*'', ''/bin'', ''/sbin'',
      ''/boot'', ''/lib'', ''/lib64'', ''/opt'', ''/opt/*'', ''/home'', ''/home/*'', ''/users'', ''/users/*'',
      ''/root'', ''/root/*'', ''/system'', ''/system/*'', ''/private'', ''/private/*'', ''c:/'', ''c:/*'',
      ''%userprofile%'', ''%userprofile%/*'', ''%programdata%'', ''%programdata%/*'']"

definition resolvedCatastrophicRoots :: "string list" where
  "resolvedCatastrophicRoots =
     [''/'', ''/etc'', ''/usr'', ''/var'', ''/bin'', ''/sbin'', ''/boot'', ''/lib'', ''/lib64'', ''/opt'', ''/dev'',
      ''/proc'', ''/sys'', ''/home'', ''/users'', ''/root'', ''/system'', ''/private'', ''/library'',
      ''/applications'', ''/volumes'', ''/mnt'', ''/media'', ''/srv'', ''/run'']"

text \<open>\<open>x:\<close> and \<open>x:/\<close>: a whole drive.\<close>

definition drive_root :: "string \<Rightarrow> bool" where
  "drive_root p \<longleftrightarrow>
     (length p = 2 \<or> length p = 3) \<and> p ! 1 = CHR '':'' \<and> (length p = 2 \<or> p ! 2 = CHR ''/'')"

definition cleanScope :: "host \<Rightarrow> string \<Rightarrow> string" where
  "cleanScope h workdir =
     (if workdir = [] then []
      else case normalizePath (hs_env h) workdir [] of
             None \<Rightarrow> path_clean (to_slash workdir)
           | Some p \<Rightarrow> p)"

definition resolvedIsCatastrophicRoot :: "host \<Rightarrow> string \<Rightarrow> bool" where
  "resolvedIsCatastrophicRoot h resolved \<longleftrightarrow>
     foldForDeny resolved \<in> set resolvedCatastrophicRoots \<or>
     (fst (splitVolume resolved) \<noteq> [] \<and> trim_bytes ''/'' (snd (splitVolume resolved)) = []) \<or>
     (homeDir (hs_env h) \<noteq> [] \<and>
      (case normalizePath (hs_env h) (homeDir (hs_env h)) [] of
         None \<Rightarrow> False
       | Some home \<Rightarrow> samePath (hs_goos h) resolved home))"

definition isCatastrophicTarget :: "host \<Rightarrow> string \<Rightarrow> string \<Rightarrow> bool" where
  "isCatastrophicTarget h t workdir \<longleftrightarrow>
     normLiteral t \<in> set catastrophicRoots \<or>
     drive_root (normLiteral t) \<or>
     (case normalizePath (hs_env h) t workdir of
        None \<Rightarrow> False
      | Some resolved \<Rightarrow>
          resolvedIsCatastrophicRoot h resolved \<or>
          (workdir \<noteq> [] \<and>
           (samePath (hs_goos h) resolved (cleanScope h workdir) \<or>
            isAncestorOf (hs_goos h) resolved (cleanScope h workdir))))"

definition resolvesOutsideWorkdir :: "host \<Rightarrow> string \<Rightarrow> string \<Rightarrow> bool" where
  "resolvesOutsideWorkdir h t workdir \<longleftrightarrow>
     (case normalizePath (hs_env h) t workdir of
        None \<Rightarrow> False
      | Some resolved \<Rightarrow> workdir = [] \<or> \<not> isWithin (hs_goos h) resolved (cleanScope h workdir))"

section \<open>Deletions\<close>

definition deletionPrograms :: "string list" where
  "deletionPrograms =
     [''rm'', ''rmdir'', ''unlink'', ''shred'', ''rimraf'', ''del'', ''erase'', ''rd'', ''remove-item'', ''ri'']"

abbreviation options_of :: "string list \<Rightarrow> string list" where
  "options_of args \<equiv> takeWhile (\<lambda>a. a \<noteq> ''--'') args"

definition deleteIsRecursive :: "string \<Rightarrow> string list \<Rightarrow> bool" where
  "deleteIsRecursive program args \<longleftrightarrow>
     list_ex (\<lambda>a.
       if program = ''del'' \<or> program = ''erase'' \<or> program = ''rd'' then
         2 \<le> length a \<and> hd a = CHR ''/'' \<and> CHR ''s'' \<in> set (to_lower a)
       else if prefix ''--'' a then a = ''--recursive'' \<or> a = ''--dir''
       else 2 \<le> length a \<and> hd a = CHR ''-'' \<and> (CHR ''r'' \<in> set (tl a) \<or> CHR ''R'' \<in> set (tl a)))
       (options_of args)"

definition isWindowsFlag :: "string \<Rightarrow> bool" where
  "isWindowsFlag a \<longleftrightarrow> length a = 2 \<and> hd a = CHR ''/'' \<and> isASCIILetter (a ! 1)"

fun deleteTargets :: "string list \<Rightarrow> string list" where
  "deleteTargets [] = []"
| "deleteTargets (a # rest) =
     (if a = ''--'' then rest
      else if prefix ''--'' a \<or> (2 \<le> length a \<and> hd a = CHR ''-'') \<or> isWindowsFlag a then deleteTargets rest
      else a # deleteTargets rest)"

section \<open>Storage\<close>

definition storageDestroyers :: "string list" where
  "storageDestroyers =
     [''dd'', ''mkfs'', ''mke2fs'', ''newfs'', ''mkswap'', ''wipefs'', ''blkdiscard'', ''sgdisk'', ''gdisk'', ''fdisk'',
      ''parted'', ''diskutil'', ''format'', ''shred'', ''badblocks'', ''truncate'', ''tar'']"

definition tarWritingModes :: string where
  "tarWritingModes = ''cruA''"

definition mkfsPrefixes :: "string list" where
  "mkfsPrefixes = [''mkfs.'', ''newfs_'', ''mkfs_'']"

definition isStorageDestroyer :: "string \<Rightarrow> bool" where
  "isStorageDestroyer program \<longleftrightarrow>
     program \<in> set storageDestroyers \<or> list_ex (\<lambda>p. prefix p program) mkfsPrefixes"

definition safeDevices :: "string list" where
  "safeDevices =
     [''/dev/null'', ''/dev/zero'', ''/dev/full'', ''/dev/random'', ''/dev/urandom'', ''/dev/tty'', ''/dev/console'',
      ''/dev/stdin'', ''/dev/stdout'', ''/dev/stderr'', ''/dev/ptmx'']"

definition safeDevicePrefixes :: "string list" where
  "safeDevicePrefixes = [''/dev/fd/'', ''/dev/pts/'', ''/dev/tty'']"

definition isRawDevicePath :: "string \<Rightarrow> bool" where
  "isRawDevicePath t \<longleftrightarrow>
     (let p = normLiteral t in
      prefix ''//./'' p \<or> prefix ''//?/'' p \<or> drive_root p \<or>
      (prefix ''/dev/'' p \<and> p \<notin> set safeDevices \<and> \<not> list_ex (\<lambda>q. prefix q p) safeDevicePrefixes))"

abbreviation unquoted_lower :: "string \<Rightarrow> string" where
  "unquoted_lower a \<equiv> to_lower (trim_bytes [dquote, squote] a)"

definition ddOutputIsRawDevice :: "string list \<Rightarrow> bool" where
  "ddOutputIsRawDevice args \<longleftrightarrow>
     list_ex (\<lambda>a. prefix ''of='' (unquoted_lower a) \<and> isRawDevicePath (drop 3 (unquoted_lower a))) args"

definition diskutilDestructiveVerbs :: "string list" where
  "diskutilDestructiveVerbs =
     [''erasedisk'', ''erasevolume'', ''zerodisk'', ''randomdisk'', ''securedisk'', ''reformat'', ''partitiondisk'',
      ''eraseoptical'']"

fun tar_writes :: "bool \<Rightarrow> string list \<Rightarrow> bool" where
  "tar_writes first [] = False"
| "tar_writes first (a # rest) =
     (if a \<in> {''--create'', ''--append'', ''--update'', ''--concatenate'', ''--catenate''} then True
      else if prefix ''--'' a then tar_writes False rest
      else if \<not> prefix ''-'' a \<and> \<not> first then tar_writes False rest
      else list_ex (\<lambda>c. c \<in> set tarWritingModes) (trim_prefix ''-'' a) \<or> tar_writes False rest)"

definition tarWritesArchive :: "string list \<Rightarrow> bool" where
  "tarWritesArchive args = tar_writes True args"

definition hasScriptedPartitionFlag :: "string list \<Rightarrow> bool" where
  "hasScriptedPartitionFlag args \<longleftrightarrow>
     list_ex (\<lambda>a. unquoted_lower a \<in> {''-s'', ''--script'', ''--zap-all'', ''-z'', ''--wipe'', ''--delete'', ''-d''}) args"

definition anyRawDeviceOperand :: "string list \<Rightarrow> bool" where
  "anyRawDeviceOperand args \<longleftrightarrow> list_ex (\<lambda>a. \<not> prefix ''-'' a \<and> isRawDevicePath a) args"

definition isStorageDestruction :: "string \<Rightarrow> string list \<Rightarrow> bool" where
  "isStorageDestruction program args \<longleftrightarrow>
     isStorageDestroyer program \<and>
     (if program = ''dd'' then ddOutputIsRawDevice args
      else if program = ''diskutil'' then list_ex (\<lambda>a. unquoted_lower a \<in> set diskutilDestructiveVerbs) args
      else if program = ''tar'' then tarWritesArchive args \<and> anyRawDeviceOperand args
      else if program = ''fdisk'' \<or> program = ''gdisk'' \<or> program = ''parted'' then
        hasScriptedPartitionFlag args \<and> anyRawDeviceOperand args
      else anyRawDeviceOperand args)"

section \<open>Ownership and find\<close>

definition recursiveOwnershipPrograms :: "string list" where
  "recursiveOwnershipPrograms = [''chmod'', ''chown'', ''chgrp'', ''setfacl'']"

definition isRecursiveOwnershipOnCatastrophicTarget :: "host \<Rightarrow> string \<Rightarrow> string list \<Rightarrow> string \<Rightarrow> bool" where
  "isRecursiveOwnershipOnCatastrophicTarget h program args workdir \<longleftrightarrow>
     program \<in> set recursiveOwnershipPrograms \<and> deleteIsRecursive program args \<and>
     list_ex (\<lambda>t. isCatastrophicTarget h t workdir) (deleteTargets args)"

definition basename :: "string \<Rightarrow> string" where
  "basename p = rev (takeWhile (\<lambda>c. c \<noteq> CHR ''/'') (rev (to_slash (trim_bytes [dquote, squote] p))))"

fun find_deletes :: "string list \<Rightarrow> bool" where
  "find_deletes [] = False"
| "find_deletes (a # rest) =
     (to_lower a = ''-delete'' \<or>
      (to_lower a \<in> set findExecActions \<and> list_ex (\<lambda>p. to_lower (basename p) \<in> set deletionPrograms) rest) \<or>
      find_deletes rest)"

definition findRootEscapesProject :: "host \<Rightarrow> string \<Rightarrow> string \<Rightarrow> bool" where
  "findRootEscapesProject h t workdir \<longleftrightarrow>
     (case normalizePath (hs_env h) t workdir of
        None \<Rightarrow> False
      | Some resolved \<Rightarrow>
          resolvedIsCatastrophicRoot h resolved \<or>
          (workdir \<noteq> [] \<and> isAncestorOf (hs_goos h) resolved (cleanScope h workdir)))"

definition findDeleteOnCatastrophicTarget :: "host \<Rightarrow> string \<Rightarrow> string list \<Rightarrow> string \<Rightarrow> bool" where
  "findDeleteOnCatastrophicTarget h program args workdir \<longleftrightarrow>
     program = ''find'' \<and> find_deletes args \<and>
     list_ex (\<lambda>a. findRootEscapesProject h a workdir) (takeWhile (\<lambda>a. \<not> prefix ''-'' a) args)"

end
