(* ===== verification/ArgvWrite.thy ===== *)
theory ArgvWrite
  imports Unwrap
begin

text \<open>
  Where a command writes by its arguments, \<open>internal/guard/argvwrite.go\<close>: the table of programs
  whose operands are written, the options that name an output file, and the two readings that
  consult no program name, every suffix of the arguments and every single word.  The readings of
  one word are \<open>commandReadingsOfWord\<close> of \<open>internal/guard/opaque.go\<close>.
\<close>

section \<open>Programs that write their operands\<close>

record argvWriteSpec =
  aw_value_flags :: "string list"
  aw_require_flags :: "string list"
  aw_last_only :: bool
  aw_first_only :: bool
  aw_skip_first :: bool
  aw_prefixed :: "string list"
  aw_path_flags :: "string list"

definition writer :: argvWriteSpec where
  "writer = \<lparr>aw_value_flags = [], aw_require_flags = [], aw_last_only = False, aw_first_only = False,
             aw_skip_first = False, aw_prefixed = [], aw_path_flags = []\<rparr>"

definition powerShellPathFlags :: "string list" where
  "powerShellPathFlags = [''-path'', ''-filepath'', ''-literalpath'', ''-pspath'', ''-outfile'', ''-destination'']"

definition copy_flags :: "string list" where
  "copy_flags = [''-t'', ''--target-directory'', ''-S'', ''--suffix'']"

definition cmdlet_writer :: argvWriteSpec where
  "cmdlet_writer = writer\<lparr>aw_value_flags := powerShellPathFlags, aw_path_flags := powerShellPathFlags,
                          aw_first_only := True\<rparr>"

definition argvWriters :: "(string \<times> argvWriteSpec) list" where
  "argvWriters =
     [(''tee'', writer),
      (''truncate'', writer\<lparr>aw_value_flags := [''-s'', ''--size'', ''-r'', ''--reference'']\<rparr>),
      (''gzip'', writer), (''gunzip'', writer), (''bzip2'', writer), (''bunzip2'', writer), (''xz'', writer),
      (''unxz'', writer), (''zstd'', writer),
      (''cp'', writer\<lparr>aw_last_only := True, aw_value_flags := copy_flags\<rparr>),
      (''mv'', writer\<lparr>aw_last_only := True, aw_value_flags := copy_flags\<rparr>),
      (''ln'', writer\<lparr>aw_last_only := True, aw_value_flags := copy_flags\<rparr>),
      (''install'', writer\<lparr>aw_last_only := True,
         aw_value_flags := [''-m'', ''--mode'', ''-o'', ''--owner'', ''-g'', ''--group''] @ copy_flags\<rparr>),
      (''sed'', writer\<lparr>aw_require_flags := [''-i'', ''--in-place''],
         aw_value_flags := [''-e'', ''--expression'', ''-f'', ''--file''], aw_skip_first := True\<rparr>),
      (''perl'', writer\<lparr>aw_require_flags := [''-i''], aw_value_flags := [''-e'', ''-E'']\<rparr>),
      (''dd'', writer\<lparr>aw_prefixed := [''of='']\<rparr>),
      (''touch'', writer\<lparr>aw_value_flags := [''-d'', ''--date'', ''-r'', ''--reference'', ''-t'']\<rparr>),
      (''rsync'', writer\<lparr>aw_last_only := True,
         aw_value_flags := [''-e'', ''--rsh'', ''-T'', ''--temp-dir'', ''--exclude'', ''--include'', ''--filter'', ''-f'',
                            ''--files-from'', ''--compare-dest'', ''--link-dest'']\<rparr>),
      (''scp'', writer\<lparr>aw_last_only := True,
         aw_value_flags := [''-i'', ''-l'', ''-o'', ''-P'', ''-c'', ''-F'', ''-S'', ''-J'']\<rparr>),
      (''ssh-keygen'', writer\<lparr>aw_require_flags := [''-f''],
         aw_value_flags := [''-f'', ''-N'', ''-C'', ''-t'', ''-b'', ''-P'', ''-m''], aw_path_flags := [''-f'']\<rparr>),
      (''set-content'', cmdlet_writer), (''add-content'', cmdlet_writer), (''out-file'', cmdlet_writer),
      (''export-csv'', cmdlet_writer), (''export-clixml'', cmdlet_writer), (''tee-object'', cmdlet_writer),
      (''new-item'', cmdlet_writer), (''sc'', cmdlet_writer), (''ac'', cmdlet_writer)]"

text \<open>The named paths, the operands, and whether an option with a value was seen.\<close>

fun walk_operands :: "argvWriteSpec \<Rightarrow> string list \<Rightarrow> string list \<times> string list \<times> bool" where
  "walk_operands spec [] = ([], [], False)"
| "walk_operands spec (a # rest) =
     (if a = ''--'' then ([], rest, False)
      else let pre = concat (map (\<lambda>p. if prefix p a then [drop (length p) a] else []) (aw_prefixed spec));
               takes = isFlagWord a \<and> (a \<in> set (aw_value_flags spec) \<or> to_lower a \<in> set (aw_value_flags spec));
               names = a \<in> set (aw_path_flags spec) \<or> to_lower a \<in> set (aw_path_flags spec) in
           case walk_operands spec (skip_word takes rest) of
             (named, operands, saw) \<Rightarrow>
               if takes then (pre @ (if names then take 1 rest else []) @ named, operands, True)
               else if isFlagWord a \<or> (aw_prefixed spec \<noteq> [] \<and> CHR ''='' \<in> set a) then (pre @ named, operands, saw)
               else (pre @ named, a # operands, saw))"

definition argvWriteOperands :: "argvWriteSpec \<Rightarrow> string list \<Rightarrow> string list" where
  "argvWriteOperands spec args =
     (case walk_operands spec args of
        (named, operands, saw) \<Rightarrow>
          let ops = (if aw_skip_first spec \<and> \<not> saw then tl operands else operands);
              ops = (if aw_last_only spec \<and> ops \<noteq> [] then [List.last ops] else ops);
              ops = (if aw_first_only spec then take 1 ops else ops) in
          if aw_prefixed spec \<noteq> [] \<or> named \<noteq> [] then named else ops)"

definition hasAnyFlag :: "string list \<Rightarrow> string list \<Rightarrow> bool" where
  "hasAnyFlag args want \<longleftrightarrow>
     list_ex (\<lambda>a.
       a \<in> set want \<or>
       (prefix ''-'' a \<and>
        ((case cut a (CHR ''='') of (base, _, found) \<Rightarrow> found \<and> base \<in> set want) \<or>
         list_ex (\<lambda>w. length w = 2 \<and> prefix w a \<and> \<not> prefix ''--'' a) want))) args"

section \<open>The script of sed\<close>

text \<open>What is before and after the first occurrence of a text.\<close>

fun cut_text :: "string \<Rightarrow> string \<Rightarrow> (string \<times> string) option" where
  "cut_text sub [] = (if sub = [] then Some ([], []) else None)"
| "cut_text sub (c # s) =
     (if prefix sub (c # s) then Some ([], drop (length sub) (c # s))
      else map_option (\<lambda>(a, b). (c # a, b)) (cut_text sub s))"

definition sed_piece_target :: "string \<Rightarrow> string list" where
  "sed_piece_target piece =
     (case cut_text ''w '' piece of
        None \<Rightarrow> []
      | Some (front, after) \<Rightarrow>
          let f = trim_space after in
          if (front = [] \<or> List.last front \<in> {CHR ''/'', CHR ''$''} \<or> is_digit (List.last front) \<or>
              isASCIILetter (List.last front)) \<and> f \<noteq> []
          then [f] else [])"

definition sedWriteFiles :: "string \<Rightarrow> string list" where
  "sedWriteFiles script =
     concat (map (sed_piece_target \<circ> trim_space)
       (filter (\<lambda>f. f \<noteq> []) (split_byte (replace_byte newline_c (CHR '';'') script) (CHR '';''))))"

text \<open>The targets of the scripts given by options, whether there was one, and the operands.\<close>

fun walk_sed :: "string list \<Rightarrow> string list \<times> bool \<times> string list" where
  "walk_sed [] = ([], False, [])"
| "walk_sed (a # rest) =
     (if a = ''--'' then ([], False, rest)
      else if \<not> isFlagWord a then (case walk_sed rest of (out, saw, ops) \<Rightarrow> (out, saw, a # ops))
      else if a = ''-e'' \<or> a = ''--expression'' then
        (case walk_sed (skip_word True rest) of
           (out, _, ops) \<Rightarrow> (concat (map sedWriteFiles (take 1 rest)) @ out, True, ops))
      else if prefix ''--expression='' a then
        (case walk_sed rest of (out, _, ops) \<Rightarrow> (sedWriteFiles (drop 13 a) @ out, True, ops))
      else if a = ''-f'' \<or> a = ''--file'' then
        (case walk_sed (skip_word True rest) of (out, _, ops) \<Rightarrow> (out, True, ops))
      else walk_sed rest)"

definition sedScriptWriteTargets :: "string \<Rightarrow> string list \<Rightarrow> string list" where
  "sedScriptWriteTargets program args =
     (if program \<noteq> ''sed'' then []
      else case walk_sed args of
             (out, saw, ops) \<Rightarrow> if \<not> saw \<and> ops \<noteq> [] then out @ sedWriteFiles (hd ops) else out)"

definition argvWriteTargets :: "string \<Rightarrow> string list \<Rightarrow> string list" where
  "argvWriteTargets program args =
     (case map_of argvWriters program of
        None \<Rightarrow> []
      | Some spec \<Rightarrow>
          let out = sedScriptWriteTargets program args in
          if aw_require_flags spec \<noteq> [] \<and> \<not> hasAnyFlag args (aw_require_flags spec) then out
          else out @ argvWriteOperands spec args)"

section \<open>Options that name an output file\<close>

definition outputPathFlags :: "string \<Rightarrow> bool" where
  "outputPathFlags f \<longleftrightarrow>
     f \<in> {''-o'', ''-O'', ''--output'', ''--output-document'', ''--output-file''}"

definition output_operand :: "string \<Rightarrow> string list" where
  "output_operand v =
     (if v = [] \<or> v = ''-'' \<or> isFlagWord v \<or> contains v ''='' \<or> contains v ''://'' then [] else [v])"

fun outputFlagTargets :: "string list \<Rightarrow> string list" where
  "outputFlagTargets [] = []"
| "outputFlagTargets (a # rest) =
     (if a = ''--'' then []
      else (case cut a (CHR ''='') of
              (base, attached, found) \<Rightarrow>
                if found \<and> outputPathFlags base then output_operand attached
                else if outputPathFlags a then concat (map output_operand (take 1 rest))
                else []) @ outputFlagTargets rest)"

section \<open>Readings that consult no name\<close>

definition leavesWorkingTree :: "string \<Rightarrow> bool" where
  "leavesWorkingTree p \<longleftrightarrow>
     p \<noteq> [] \<and>
     (hd p \<in> {CHR ''/'', bslash, CHR ''~'', CHR ''$''} \<or>
      (2 \<le> length p \<and> p ! 1 = CHR '':'') \<or>
      p = ''..'' \<or> prefix ''../'' p \<or> prefix (''..'' @ [bslash]) p \<or>
      contains p ''/../'' \<or> contains p (bslash # ''..'' @ [bslash]))"

fun suffix_writes :: "string list \<Rightarrow> string list" where
  "suffix_writes [] = []"
| "suffix_writes (a # rest) =
     (let w = normalizeProgramWord a in
      if a = ''--'' \<or> isFlagWord a \<or> w = [] \<or> w \<in> set scriptEmitters then suffix_writes rest
      else filter leavesWorkingTree (argvWriteTargets w rest) @ suffix_writes rest)"

definition segmentWriteTargets :: "string \<Rightarrow> string list \<Rightarrow> string list" where
  "segmentWriteTargets program args =
     (if program \<in> set scriptEmitters then []
      else argvWriteTargets program args @ outputFlagTargets args @ suffix_writes args)"

definition has_blank :: "string \<Rightarrow> bool" where
  "has_blank w \<longleftrightarrow> list_ex (\<lambda>c. c \<in> {CHR '' '', tab_c, newline_c}) w"

definition commandReadingsOfWord :: "string \<Rightarrow> string list" where
  "commandReadingsOfWord w =
     (if w \<noteq> ''--'' \<and> \<not> isFlagWord w \<and> has_blank w then [w] else []) @
     (case cut w (CHR ''='') of
        (name, v, found) \<Rightarrow> if found \<and> name \<noteq> [] \<and> \<not> has_blank name \<and> has_blank v then [v] else [])"

definition wordWriteTargets :: "string \<Rightarrow> string list" where
  "wordWriteTargets cmd =
     (case lexShellLiteTokens cmd False of
        None \<Rightarrow> []
      | Some tokens \<Rightarrow>
          concat (map (\<lambda>reading.
            case lexShellLite (trim_prefix ''|'' reading) of
              None \<Rightarrow> []
            | Some (program, args) \<Rightarrow> filter leavesWorkingTree (segmentWriteTargets program args))
            (concat (map commandReadingsOfWord tokens))))"

section \<open>A runner in front hides no write\<close>

lemma suffix_writes_found:
  "t \<in> set (argvWriteTargets (normalizeProgramWord w) args) \<Longrightarrow> leavesWorkingTree t \<Longrightarrow>
   w \<noteq> ''--'' \<Longrightarrow> \<not> isFlagWord w \<Longrightarrow> normalizeProgramWord w \<noteq> [] \<Longrightarrow>
   normalizeProgramWord w \<notin> set scriptEmitters \<Longrightarrow>
   t \<in> set (suffix_writes (pre @ w # args))"
  by (induction pre) (auto simp: Let_def)

text \<open>
  Whatever program stands in front, known or invented, and whatever words: a write outside the
  working tree that some suffix of the arguments makes is among the targets of the whole.
\<close>

theorem runner_hides_no_write:
  assumes "t \<in> set (argvWriteTargets (normalizeProgramWord w) args)" "leavesWorkingTree t"
    and "w \<noteq> ''--''" "\<not> isFlagWord w" "normalizeProgramWord w \<noteq> []" "normalizeProgramWord w \<notin> set scriptEmitters"
    and "program \<notin> set scriptEmitters"
  shows "t \<in> set (segmentWriteTargets program (pre @ w # args))"
  using suffix_writes_found [OF assms(1-6), of pre] assms(7) by (simp add: segmentWriteTargets_def)

lemma runner_hides_no_write_witness:
  "''/etc/zz.conf'' \<in> set (segmentWriteTargets ''zzrunner'' [''-x'', ''tee'', ''-a'', ''/etc/zz.conf''])"
proof -
  have "''/etc/zz.conf'' \<in> set (argvWriteTargets (normalizeProgramWord ''tee'') [''-a'', ''/etc/zz.conf''])"
    "leavesWorkingTree ''/etc/zz.conf''" "''tee'' \<noteq> ''--''" "\<not> isFlagWord ''tee''" "normalizeProgramWord ''tee'' \<noteq> []"
    "normalizeProgramWord ''tee'' \<notin> set scriptEmitters" "''zzrunner'' \<notin> set scriptEmitters"
    by code_simp+
  from runner_hides_no_write [OF this, of "[''-x'']"] show ?thesis by simp
qed

end
