(* ===== verification/Glob.thy ===== *)
theory Glob
  imports Utf8
begin

text \<open>
  The glob patterns of \<open>internal/guard/glob.go\<close>.  \<open>globToRegexp\<close> translates a pattern to a Go
  regular expression between \<open>^\<close> and \<open>$\<close>; its pieces are \<open>.*\<close>, \<open>[^/]*\<close>, \<open>[^/]\<close> and
  escaped literals, which are the tokens here.  Go compiles the expression without the flag
  \<open>s\<close>, so \<open>.\<close> does not match a newline while \<open>[^/]\<close> does; it matches runes, and it refuses
  an expression that is not valid UTF-8.
\<close>

section \<open>Patterns\<close>

datatype glob_token = Any_run | Seg_run | Seg_one | Lit string

fun glob_tokens :: "string list \<Rightarrow> glob_token list" where
  "glob_tokens [] = []"
| "glob_tokens [c] =
     [if c = ''*'' then Any_run else if c = ''?'' then Seg_one else Lit c]"
| "glob_tokens (c # d # cs) =
     (if c = ''*'' then (if d = ''*'' then Any_run # glob_tokens cs else Seg_run # glob_tokens (d # cs))
      else if c = ''?'' then Seg_one # glob_tokens (d # cs)
      else Lit c # glob_tokens (d # cs))"

definition valid_utf8 :: "string \<Rightarrow> bool" where
  "valid_utf8 s \<longleftrightarrow> concat (runes s) = s"

text \<open>\<open>globToRegexp\<close>: the compiled expression, or \<open>None\<close> for the compile error.\<close>

definition globToRegexp :: "string \<Rightarrow> glob_token list option" where
  "globToRegexp pattern =
     (if valid_utf8 pattern then Some (glob_tokens (runes pattern)) else None)"

definition dot_rune :: "string \<Rightarrow> bool" where
  "dot_rune r \<longleftrightarrow> r \<noteq> [newline_c]"

definition seg_rune :: "string \<Rightarrow> bool" where
  "seg_rune r \<longleftrightarrow> r \<noteq> ''/''"

text \<open>\<open>regexp.MatchString\<close> on the anchored sequence: some way to consume the whole name.\<close>

fun glob_match :: "glob_token list \<Rightarrow> string list \<Rightarrow> bool" where
  "glob_match [] rs = (rs = [])"
| "glob_match (Any_run # ts) [] = glob_match ts []"
| "glob_match (Any_run # ts) (r # rs) =
     (glob_match ts (r # rs) \<or> (dot_rune r \<and> glob_match (Any_run # ts) rs))"
| "glob_match (Seg_run # ts) [] = glob_match ts []"
| "glob_match (Seg_run # ts) (r # rs) =
     (glob_match ts (r # rs) \<or> (seg_rune r \<and> glob_match (Seg_run # ts) rs))"
| "glob_match (Seg_one # ts) [] = False"
| "glob_match (Seg_one # ts) (r # rs) = (seg_rune r \<and> glob_match ts rs)"
| "glob_match (Lit c # ts) [] = False"
| "glob_match (Lit c # ts) (r # rs) = (r = c \<and> glob_match ts rs)"

definition MatchGlob :: "string \<Rightarrow> string \<Rightarrow> bool option" where
  "MatchGlob pattern name = map_option (\<lambda>ts. glob_match ts (runes name)) (globToRegexp pattern)"

text \<open>The callers' test \<open>if ok, err := MatchGlob(pat, name); err == nil && ok\<close>.\<close>

definition glob_ok :: "string \<Rightarrow> string \<Rightarrow> bool" where
  "glob_ok pattern name \<longleftrightarrow> MatchGlob pattern name = Some True"

definition any_glob :: "string list \<Rightarrow> string \<Rightarrow> bool" where
  "any_glob patterns name \<longleftrightarrow> (\<exists>p \<in> set patterns. glob_ok p name)"

definition HasGlobMeta :: "string \<Rightarrow> bool" where
  "HasGlobMeta s \<longleftrightarrow> (\<exists>c \<in> set s. c \<in> set ''*?[]'')"

definition GlobCovers :: "string list \<Rightarrow> string \<Rightarrow> bool" where
  "GlobCovers patterns candidate =
     (if \<exists>p \<in> set patterns. p = ''*'' \<or> p = ''**'' \<or> p = candidate then True
      else if HasGlobMeta candidate then False
      else any_glob patterns candidate)"

section \<open>The language of a pattern\<close>

text \<open>The runs of runes a token stands for.\<close>

fun token_lang :: "glob_token \<Rightarrow> string list \<Rightarrow> bool" where
  "token_lang Any_run rs = list_all dot_rune rs"
| "token_lang Seg_run rs = list_all seg_rune rs"
| "token_lang Seg_one rs = (length rs = 1 \<and> list_all seg_rune rs)"
| "token_lang (Lit c) rs = (rs = [c])"

lemma split_run:
  "(\<exists>us vs. r # rs = us @ vs \<and> list_all P us \<and> Q vs) \<longleftrightarrow>
     Q (r # rs) \<or> (P r \<and> (\<exists>us vs. rs = us @ vs \<and> list_all P us \<and> Q vs))" (is "?L \<longleftrightarrow> ?R")
proof
  assume ?L
  then obtain us vs where uv: "r # rs = us @ vs" "list_all P us" "Q vs" by blast
  show ?R
  proof (cases us)
    case Nil
    with uv show ?thesis by simp
  next
    case (Cons u us')
    with uv have "P r" "rs = us' @ vs" "list_all P us'" by simp_all
    with uv show ?thesis by blast
  qed
next
  assume ?R
  then show ?L
  proof
    assume "Q (r # rs)"
    then have "r # rs = [] @ r # rs \<and> list_all P [] \<and> Q (r # rs)" by simp
    then show ?L by blast
  next
    assume "P r \<and> (\<exists>us vs. rs = us @ vs \<and> list_all P us \<and> Q vs)"
    then obtain us vs where "r # rs = (r # us) @ vs \<and> list_all P (r # us) \<and> Q vs" by auto
    then show ?L by blast
  qed
qed

lemma glob_match_Cons:
  "glob_match (t # ts) rs \<longleftrightarrow> (\<exists>us vs. rs = us @ vs \<and> token_lang t us \<and> glob_match ts vs)"
proof (cases t)
  case Any_run
  show ?thesis unfolding Any_run
  proof (induction rs)
    case (Cons r rs)
    then show ?case using split_run [of r rs dot_rune "glob_match ts"] by simp
  qed simp
next
  case Seg_run
  show ?thesis unfolding Seg_run
  proof (induction rs)
    case (Cons r rs)
    then show ?case using split_run [of r rs seg_rune "glob_match ts"] by simp
  qed simp
next
  case Seg_one
  show ?thesis
  proof
    assume "glob_match (t # ts) rs"
    then obtain r rs' where "rs = [r] @ rs' \<and> token_lang t [r] \<and> glob_match ts rs'"
      using Seg_one by (cases rs) auto
    then show "\<exists>us vs. rs = us @ vs \<and> token_lang t us \<and> glob_match ts vs" by blast
  qed (auto simp: Seg_one length_Suc_conv)
next
  case (Lit c)
  then show ?thesis by (cases rs) auto
qed

lemma glob_match_parts:
  "glob_match ts rs \<longleftrightarrow> (\<exists>parts. concat parts = rs \<and> list_all2 token_lang ts parts)"
proof (induction ts arbitrary: rs)
  case (Cons t ts)
  show ?case
  proof
    assume "glob_match (t # ts) rs"
    then obtain us vs where "rs = us @ vs" "token_lang t us" "glob_match ts vs"
      using glob_match_Cons by blast
    moreover then obtain parts where "concat parts = vs" "list_all2 token_lang ts parts"
      using Cons.IH by blast
    ultimately show "\<exists>parts. concat parts = rs \<and> list_all2 token_lang (t # ts) parts"
      by (intro exI [of _ "us # parts"]) simp
  next
    assume "\<exists>parts. concat parts = rs \<and> list_all2 token_lang (t # ts) parts"
    then show "glob_match (t # ts) rs"
      using Cons.IH glob_match_Cons by (fastforce simp: list_all2_Cons1)
  qed
qed auto

section \<open>Literal and universal patterns\<close>

lemma literal_match:
  "list_all (\<lambda>r. r \<noteq> ''*'' \<and> r \<noteq> ''?'') cs \<Longrightarrow> glob_match (glob_tokens cs) rs \<longleftrightarrow> rs = cs"
proof (induction cs arbitrary: rs rule: glob_tokens.induct)
  case (2 c)
  then show ?case by (cases rs) auto
next
  case (3 c d cs)
  then show ?case by (cases rs) auto
qed auto

lemma universal_tokens: "glob_tokens (runes ''*'') = [Any_run]" "glob_tokens (runes ''**'') = [Any_run]"
  by code_simp+

lemma universal_valid: "valid_utf8 ''*''" "valid_utf8 ''**''"
  by code_simp+

lemma universal_match: "glob_match [Any_run] rs \<longleftrightarrow> list_all dot_rune rs"
  using glob_match_Cons [of Any_run "[]" rs] by auto

lemma glob_ok_iff: "glob_ok p n \<longleftrightarrow> valid_utf8 p \<and> glob_match (glob_tokens (runes p)) (runes n)"
  by (auto simp: glob_ok_def MatchGlob_def globToRegexp_def)

lemma glob_ok_universal: "p = ''*'' \<or> p = ''**'' \<Longrightarrow> glob_ok p n \<longleftrightarrow> list_all dot_rune (runes n)"
  by (elim disjE) (simp_all only: glob_ok_iff universal_tokens universal_valid universal_match simp_thms)

lemma runes_ascii: "\<forall>c \<in> set s. byte c < 0x80 \<Longrightarrow> runes s = map (\<lambda>c. [c]) s"
  by (induction s) (auto simp: next_rune_def valid_width_def lead_def)

lemma any_glob_mono: "set ps \<subseteq> set qs \<Longrightarrow> any_glob ps n \<Longrightarrow> any_glob qs n"
  by (auto simp: any_glob_def)

text \<open>The runes of a string have no bytes but the string's and those of \<open>U+FFFD\<close>.\<close>

lemma runes_bytes: "r \<in> set (runes s) \<Longrightarrow> set r \<subseteq> set s \<union> set replacement_rune"
proof (induction s rule: runes.induct)
  case (2 c s)
  obtain q rest where q: "next_rune c s = (q, rest)" by fastforce
  then have "set q \<subseteq> set (c # s) \<union> set replacement_rune" "set rest \<subseteq> set s"
    by (auto simp: next_rune_def split: nat.splits dest: in_set_takeD in_set_dropD)
  with q 2 show ?case by auto
qed simp

lemma ascii_rune_from: "[c] \<in> set (runes s) \<Longrightarrow> c \<notin> set replacement_rune \<Longrightarrow> c \<in> set s"
  using runes_bytes by fastforce

lemma dot_runes: "newline_c \<notin> set s \<Longrightarrow> list_all dot_rune (runes s)"
  using ascii_rune_from [of newline_c s] by (auto simp: list_all_iff dot_rune_def replacement_rune_def)

lemma literal_name:
  assumes "\<not> HasGlobMeta p" "glob_ok p n"
  shows "runes n = runes p"
proof -
  have "CHR ''*'' \<notin> set p" "CHR ''?'' \<notin> set p" using assms(1) by (auto simp: HasGlobMeta_def)
  then have "''*'' \<notin> set (runes p)" "''?'' \<notin> set (runes p)"
    using ascii_rune_from [of _ p] by (auto simp: replacement_rune_def)
  then have "list_all (\<lambda>r. r \<noteq> ''*'' \<and> r \<noteq> ''?'') (runes p)" by (auto simp: list_all_iff)
  then show ?thesis using assms(2) literal_match by (auto simp: glob_ok_iff)
qed

section \<open>Properties\<close>

text \<open>
  A pattern matches a name exactly when the name's runes can be cut into pieces, one for
  each token of the pattern, each in the token's language: any runes but newlines for a
  \<open>**\<close> or a final \<open>*\<close>, any runes but slashes for another \<open>*\<close>, one such rune for \<open>?\<close>, and
  the rune itself for a literal.  A pattern that is not valid UTF-8 matches nothing.
\<close>

theorem MatchGlob_language:
  "MatchGlob pattern name = Some True \<longleftrightarrow>
     valid_utf8 pattern \<and>
     (\<exists>parts. concat parts = runes name \<and> list_all2 token_lang (glob_tokens (runes pattern)) parts)"
  using glob_ok_iff glob_match_parts by (simp add: glob_ok_def)

text \<open>
  When \<open>GlobCovers\<close> accepts a candidate pattern, every name without a newline that the
  candidate matches is matched by one of the patterns it was checked against.
\<close>

theorem GlobCovers_sound:
  assumes cov: "GlobCovers patterns candidate" and cand: "MatchGlob candidate name = Some True"
    and nl: "newline_c \<notin> set name"
  shows "\<exists>p \<in> set patterns. MatchGlob p name = Some True"
proof (cases "\<exists>p \<in> set patterns. p = ''*'' \<or> p = ''**'' \<or> p = candidate")
  case True
  then obtain p where p: "p \<in> set patterns" "(p = ''*'' \<or> p = ''**'') \<or> p = candidate" by blast
  have "list_all dot_rune (runes name)" using nl dot_runes by blast
  with p cand have "glob_ok p name" using glob_ok_universal glob_ok_def by metis
  with p(1) show ?thesis unfolding glob_ok_def by blast
next
  case False
  with cov have "\<not> HasGlobMeta candidate" "any_glob patterns candidate"
    by (auto simp: GlobCovers_def split: if_splits)
  moreover have "runes name = runes candidate"
    using cand literal_name calculation(1) by (simp add: glob_ok_def)
  ultimately show ?thesis
    by (auto simp: any_glob_def glob_ok_def MatchGlob_def)
qed

lemma GlobCovers_sound_witness: "glob_ok ''fs_*'' ''fs_read'' \<and> \<not> GlobCovers [''fs_?''] ''fs_*''"
proof -
  have "GlobCovers [''vcs_log'', ''fs_*''] ''fs_read''" "MatchGlob ''fs_read'' ''fs_read'' = Some True"
    "newline_c \<notin> set ''fs_read''" "MatchGlob ''vcs_log'' ''fs_read'' = Some False"
    "\<not> GlobCovers [''fs_?''] ''fs_*''"
    by code_simp+
  then show ?thesis using GlobCovers_sound [of "[''vcs_log'', ''fs_*'']" "''fs_read''" "''fs_read''"]
    by (auto simp: glob_ok_def)
qed

text \<open>The newline is not an accident of the proof: the universal patterns do not match one, \<open>?\<close> does.\<close>

lemma universal_misses_newline:
  "GlobCovers [''*''] ''?'' \<and> MatchGlob ''?'' [newline_c] = Some True \<and>
   MatchGlob ''*'' [newline_c] = Some False"
  by code_simp

end
