(* ===== verification/GuardData.thy ===== *)
theory GuardData
  imports Glob ExecPolicy
begin

text \<open>
  The data of \<open>internal/guard\<close>: permission profiles (\<open>profile.go\<close>), actions, verdicts and
  decisions (\<open>guard.go\<close>), and the order every fold over decisions uses.  A message built with
  \<open>fmt.Sprintf\<close> is kept as the constructor of \<open>reason\<close> that names its format.
\<close>

section \<open>Profiles\<close>

record fs_perm =
  fp_read :: "string list"
  fp_write :: "string list"
  fp_protected :: "string list"

record tools_perm =
  tp_allow :: "string list"

record shell_perm =
  sp_policy :: string
  sp_patterns :: "string list"
  sp_rules :: "rule list"

record net_perm =
  nt_allow :: bool
  nt_hosts :: "string list"

record subagent_perm =
  sa_models :: "string list"
  sa_max_reasoning :: string

record permission_profile =
  pp_fs :: fs_perm
  pp_tools :: tools_perm
  pp_mcp :: tools_perm
  pp_shell :: shell_perm
  pp_net :: net_perm
  pp_subagent :: subagent_perm

section \<open>Actions\<close>

record fs_want =
  fw_op :: string
  fw_paths :: "string list"

record guard_action =
  ga_tool :: string
  ga_fs :: fs_want
  ga_shell :: string
  ga_net_host :: string
  ga_workdir :: string
  ga_interpreter :: string

section \<open>Decisions\<close>

datatype verdict = Allow | Prompt | HardDeny

datatype reason =
    Literal string
  | Shell_rejected exec_error
  | Parse_error exec_error
  | Mcp_not_permitted string
  | Tool_not_permitted string
  | No_paths_for string
  | Path_not_permitted string string
  | Builtin_location string string string
  | Not_on_allowlist string
  | On_denylist string
  | Unknown_policy string
  | Host_not_permitted string
  | Explained reason string
  | Ai_declined reason

record guard_decision =
  dc_verdict :: verdict
  dc_reason :: reason
  dc_rule_id :: string
  dc_justification :: string
  dc_promptable :: bool
  dc_overridable :: bool

definition IsAllowed :: "guard_decision \<Rightarrow> bool" where
  "IsAllowed d \<longleftrightarrow> dc_verdict d = Allow"

definition plain_decision :: "verdict \<Rightarrow> reason \<Rightarrow> bool \<Rightarrow> bool \<Rightarrow> guard_decision" where
  "plain_decision v r p over =
     \<lparr>dc_verdict = v, dc_reason = r, dc_rule_id = [], dc_justification = [],
      dc_promptable = p, dc_overridable = over\<rparr>"

definition allow :: guard_decision where
  "allow = plain_decision Allow (Literal []) False False"

definition prompt :: "reason \<Rightarrow> guard_decision" where
  "prompt r = plain_decision Prompt r True False"

definition hardDeny :: "reason \<Rightarrow> guard_decision" where
  "hardDeny r = plain_decision HardDeny r False False"

definition ConfirmPrompt :: "reason \<Rightarrow> guard_decision" where
  "ConfirmPrompt r = prompt r"

definition overridableDeny :: "reason \<Rightarrow> guard_decision" where
  "overridableDeny r = plain_decision HardDeny r False True"

section \<open>Severity\<close>

definition severity :: "guard_decision \<Rightarrow> int" where
  "severity d =
     (case dc_verdict d of
        Allow \<Rightarrow> 0
      | Prompt \<Rightarrow> 1
      | HardDeny \<Rightarrow> if dc_overridable d then 2 else 3)"

definition moreSevere :: "guard_decision \<Rightarrow> guard_decision \<Rightarrow> guard_decision" where
  "moreSevere a b =
     (if severity b > severity a then b
      else if severity b < severity a then a
      else if dc_rule_id a = [] \<and> dc_rule_id b \<noteq> [] then b
      else a)"

text \<open>The loops that fold a list of decisions into a running worst one.\<close>

definition worst_of :: "guard_decision \<Rightarrow> guard_decision list \<Rightarrow> guard_decision" where
  "worst_of d ds = foldl moreSevere d ds"

text \<open>
  The four ranks as a type of their own, in the order of the comment on \<open>severity\<close>: the folds
  below are maxima in it.
\<close>

datatype tier = Allowed | Asks | Policy_denied | Floor

fun tier_rank :: "tier \<Rightarrow> int" where
  "tier_rank Allowed = 0"
| "tier_rank Asks = 1"
| "tier_rank Policy_denied = 2"
| "tier_rank Floor = 3"

lemma tier_rank_inj: "tier_rank a = tier_rank b \<Longrightarrow> a = b"
  by (cases a; cases b) auto

instantiation tier :: linorder
begin

definition less_eq_tier :: "tier \<Rightarrow> tier \<Rightarrow> bool" where
  "less_eq_tier a b \<longleftrightarrow> tier_rank a \<le> tier_rank b"

definition less_tier :: "tier \<Rightarrow> tier \<Rightarrow> bool" where
  "less_tier a b \<longleftrightarrow> tier_rank a < tier_rank b"

instance
  by standard (auto simp: less_eq_tier_def less_tier_def dest: tier_rank_inj)

end

definition tier_of :: "guard_decision \<Rightarrow> tier" where
  "tier_of d =
     (case dc_verdict d of
        Allow \<Rightarrow> Allowed
      | Prompt \<Rightarrow> Asks
      | HardDeny \<Rightarrow> if dc_overridable d then Policy_denied else Floor)"

lemma severity_tier: "severity d = tier_rank (tier_of d)"
  by (simp add: severity_def tier_of_def split: verdict.split)

lemma tier_le [simp]: "Allowed \<le> t" "t \<le> Floor" "t \<le> Allowed \<longleftrightarrow> t = Allowed" "Floor \<le> t \<longleftrightarrow> t = Floor"
  by (cases t; simp add: less_eq_tier_def)+

lemma tier_of_moreSevere [simp]: "tier_of (moreSevere a b) = max (tier_of a) (tier_of b)"
  by (auto simp: moreSevere_def severity_tier max_def less_eq_tier_def dest: tier_rank_inj)

lemma moreSevere_cases: "moreSevere a b = a \<or> moreSevere a b = b"
  by (simp add: moreSevere_def)

lemma tier_of_worst: "tier_of (worst_of d ds) = foldl max (tier_of d) (map tier_of ds)"
  unfolding worst_of_def by (induction ds arbitrary: d) simp_all

lemma tier_of_simps [simp]:
  "tier_of allow = Allowed" "tier_of (prompt r) = Asks" "tier_of (hardDeny r) = Floor"
  "tier_of (overridableDeny r) = Policy_denied"
  by (simp_all add: tier_of_def allow_def prompt_def hardDeny_def overridableDeny_def plain_decision_def)

lemma tier_of_verdict:
  "tier_of d = Allowed \<longleftrightarrow> dc_verdict d = Allow"
  "tier_of d = Asks \<longleftrightarrow> dc_verdict d = Prompt"
  "tier_of d = Floor \<longleftrightarrow> dc_verdict d = HardDeny \<and> \<not> dc_overridable d"
  by (simp_all add: tier_of_def split: verdict.split)

lemma foldl_max_le: "foldl max (t :: tier) ts \<le> u \<longleftrightarrow> t \<le> u \<and> (\<forall>s \<in> set ts. s \<le> u)"
  by (induction ts arbitrary: t) auto

lemma tier_of_worst_le: "tier_of (worst_of d ds) \<le> u \<longleftrightarrow> tier_of d \<le> u \<and> (\<forall>e \<in> set ds. tier_of e \<le> u)"
  by (simp add: tier_of_worst foldl_max_le)

lemma worst_of_allowed:
  "dc_verdict (worst_of d ds) = Allow \<longleftrightarrow> dc_verdict d = Allow \<and> (\<forall>e \<in> set ds. dc_verdict e = Allow)"
  using tier_of_worst_le [of d ds Allowed] by (simp add: tier_of_verdict)

lemma worst_of_member: "worst_of d ds = d \<or> worst_of d ds \<in> set ds"
  unfolding worst_of_def
proof (induction ds arbitrary: d)
  case (Cons e ds)
  then show ?case using moreSevere_cases [of d e] by (metis foldl_Cons list.set_intros(1,2))
qed simp

text \<open>The pairing the constructors keep: a prompt, and nothing else, may be asked about.\<close>

definition well_paired :: "guard_decision \<Rightarrow> bool" where
  "well_paired d \<longleftrightarrow>
     (dc_promptable d \<longleftrightarrow> dc_verdict d = Prompt) \<and> (dc_overridable d \<longrightarrow> dc_verdict d = HardDeny)"

lemma well_paired_simps [simp]:
  "well_paired allow" "well_paired (prompt r)" "well_paired (hardDeny r)" "well_paired (overridableDeny r)"
  by (simp_all add: well_paired_def allow_def prompt_def hardDeny_def overridableDeny_def plain_decision_def)

lemma well_paired_moreSevere [simp]: "well_paired a \<Longrightarrow> well_paired b \<Longrightarrow> well_paired (moreSevere a b)"
  using moreSevere_cases [of a b] by auto

lemma well_paired_worst: "well_paired d \<Longrightarrow> \<forall>e \<in> set ds. well_paired e \<Longrightarrow> well_paired (worst_of d ds)"
  using worst_of_member [of d ds] by auto

section \<open>Sub-agent overrides\<close>

definition reasoningRank :: "string \<Rightarrow> int option" where
  "reasoningRank s = map_of [(''off'', 0), (''low'', 1), (''medium'', 2), (''high'', 3)] s"

definition AllowsAnyModel :: "subagent_perm \<Rightarrow> bool" where
  "AllowsAnyModel p \<longleftrightarrow> sa_models p = []"

text \<open>The checks answer \<open>nil\<close> (\<open>Inr\<close>) or the error.\<close>

datatype override_error =
    Model_not_allowed string
  | Invalid_effort string
  | Invalid_cap string
  | Exceeds_cap string string

definition CheckModel :: "subagent_perm \<Rightarrow> string \<Rightarrow> override_error + unit" where
  "CheckModel p name =
     (if AllowsAnyModel p then Inr ()
      else if \<exists>m \<in> set (sa_models p). equal_fold m name then Inr ()
      else Inl (Model_not_allowed name))"

definition ReasoningCap :: "subagent_perm \<Rightarrow> string" where
  "ReasoningCap p = (if sa_max_reasoning p = [] then ''high'' else to_lower (sa_max_reasoning p))"

definition CheckReasoning :: "subagent_perm \<Rightarrow> string \<Rightarrow> override_error + unit" where
  "CheckReasoning p effort =
     (case reasoningRank (to_lower effort) of
        None \<Rightarrow> Inl (Invalid_effort effort)
      | Some want \<Rightarrow>
          (case reasoningRank (ReasoningCap p) of
             None \<Rightarrow> Inl (Invalid_cap (ReasoningCap p))
           | Some cap \<Rightarrow> if want > cap then Inl (Exceeds_cap effort (ReasoningCap p)) else Inr ()))"

definition ShellPolicies :: "string list" where
  "ShellPolicies = ['''', ''allowlist'', ''deny'', ''denylist'']"

definition ValidateShellPolicy :: "string \<Rightarrow> bool" where
  "ValidateShellPolicy policy \<longleftrightarrow> policy \<in> set ShellPolicies"

end
