(* ===== verification/Sensitive.thy ===== *)
theory Sensitive
  imports GuardData Expansion
begin

text \<open>
  The filesystem dimension of the guard: the built-in tables of \<open>internal/guard/sensitive.go\<close>
  and \<open>checkFS\<close> of \<open>guard.go\<close>.  \<open>env\<close> is the process environment.  On the POSIX build
  \<open>filepath.Clean\<close> is \<^const>\<open>path_clean\<close> and \<open>filepath.ToSlash\<close> changes nothing.
\<close>

section \<open>The tables\<close>

definition sensitivePathSuffixes :: "string list" where
  "sensitivePathSuffixes =
     [''.ssh'', ''.aws'', ''.gnupg'', ''.kube'', ''.config/gcloud'', ''.azure'',
      ''.docker/config.json'', ''.env'', ''.claude'', ''Library/Keychains'',
      ''Library/Application Support/Google/Chrome/Default/Login Data'',
      ''Library/Application Support/Firefox/Profiles'', ''.git-credentials'', ''.gitconfig'',
      ''.terraformrc'', ''.vault-token'', ''.npmrc'', ''.yarnrc'', ''.pypirc'', ''.config/nix'',
      ''.netrc'', ''AppData/Roaming/gcloud'', ''AppData/Roaming/gh'', ''AppData/Roaming/Docker'',
      ''AppData/Roaming/Microsoft/Crypto'', ''AppData/Roaming/Microsoft/Protect'',
      ''AppData/Local/Google/Chrome/User Data'', ''AppData/Local/Microsoft/Credentials'',
      ''AppData/Local/Microsoft/Edge/User Data'', ''.aws/credentials'',
      ''.azure/accessTokens.json'']"

definition sensitiveAbsolutePaths :: "string list" where
  "sensitiveAbsolutePaths =
     [''/etc/shadow'', ''/etc/gshadow'', ''/etc/sudoers'', ''/etc/sudoers.d'', ''/etc/ssh'',
      ''/root/.ssh'', ''/var/lib/docker'', ''/proc/self/environ'']"

definition executedOnWriteSuffixes :: "string list" where
  "executedOnWriteSuffixes =
     [''.bashrc'', ''.bash_profile'', ''.bash_login'', ''.bash_logout'', ''.profile'', ''.zshrc'',
      ''.zshenv'', ''.zprofile'', ''.zlogin'', ''.zlogout'', ''.kshrc'', ''.cshrc'', ''.tcshrc'',
      ''.config/fish/config.fish'', ''.config/fish/conf.d'', ''.local/bin'', ''bin'',
      ''.config/autostart'', ''.config/systemd/user'', ''Library/LaunchAgents'',
      ''AppData/Roaming/Microsoft/Windows/Start Menu/Programs/Startup'']"

definition executedOnWriteAbsolutePaths :: "string list" where
  "executedOnWriteAbsolutePaths =
     [''/etc/profile'', ''/etc/profile.d'', ''/etc/bash.bashrc'', ''/etc/bashrc'', ''/etc/zshrc'',
      ''/etc/zsh'', ''/etc/environment'', ''/etc/crontab'', ''/etc/cron.d'', ''/etc/cron.hourly'',
      ''/etc/cron.daily'', ''/etc/cron.weekly'', ''/etc/cron.monthly'', ''/var/spool/cron'',
      ''/etc/systemd/system'', ''/lib/systemd/system'', ''/usr/lib/systemd/system'',
      ''/etc/init.d'', ''/etc/rc.local'', ''/Library/LaunchDaemons'', ''/Library/LaunchAgents'',
      ''/Library/StartupItems'', ''/etc/ld.so.preload'', ''/etc/ld.so.conf'',
      ''/etc/ld.so.conf.d'', ''/bin'', ''/sbin'', ''/usr/bin'', ''/usr/sbin'', ''/usr/local/bin'',
      ''/usr/local/sbin'']"

definition protectedMetadataSegments :: "string list" where
  "protectedMetadataSegments =
     [''.git'', ''.yanshi'', ''.agents'', ''.codex'']"

section \<open>Matching\<close>

definition pathHasPrefixSegment :: "string \<Rightarrow> string \<Rightarrow> bool" where
  "pathHasPrefixSegment p pre \<longleftrightarrow> p = pre \<or> prefix (trim_suffix ''/'' pre @ ''/'') p"

definition home_entry :: "string \<Rightarrow> string \<Rightarrow> string" where
  "home_entry h suffix_path = foldForDeny (trim_suffix ''/'' h @ ''/'' @ suffix_path)"

definition home_hit :: "(string \<Rightarrow> string) \<Rightarrow> string \<Rightarrow> string list \<Rightarrow> string option" where
  "home_hit env folded suffs =
     (if homeDir env = [] then None
      else case normalizePath env (homeDir env) [] of
             None \<Rightarrow> None
           | Some h \<Rightarrow>
               map_option (\<lambda>s. ''~/'' @ s) (find (\<lambda>s. pathHasPrefixSegment folded (home_entry h s)) suffs))"

definition denylistHitOnce ::
    "(string \<Rightarrow> string) \<Rightarrow> string \<Rightarrow> string \<Rightarrow> string list \<Rightarrow> string list \<Rightarrow> string option" where
  "denylistHitOnce env p workdir suffs absolutes =
     (case normalizePath env p workdir of
        None \<Rightarrow> None
      | Some norm \<Rightarrow>
          (case home_hit env (foldForDeny norm) suffs of
             Some e \<Rightarrow> Some e
           | None \<Rightarrow> find (\<lambda>a. pathHasPrefixSegment (foldForDeny norm) (foldForDeny a)) absolutes))"

text \<open>A second reading with the expansions elided, when the first one has no hit.\<close>

definition two_readings :: "(string \<Rightarrow> string option) \<Rightarrow> string \<Rightarrow> string option" where
  "two_readings hit p =
     (case hit p of
        Some e \<Rightarrow> Some e
      | None \<Rightarrow> (case elideExpansions p of (elided, changed) \<Rightarrow> if changed then hit elided else None))"

definition denylistHit ::
    "(string \<Rightarrow> string) \<Rightarrow> string \<Rightarrow> string \<Rightarrow> string list \<Rightarrow> string list \<Rightarrow> string option" where
  "denylistHit env p workdir suffs absolutes =
     two_readings (\<lambda>q. denylistHitOnce env q workdir suffs absolutes) p"

definition IsSensitivePath :: "(string \<Rightarrow> string) \<Rightarrow> string \<Rightarrow> string \<Rightarrow> string option" where
  "IsSensitivePath env p workdir = denylistHit env p workdir sensitivePathSuffixes sensitiveAbsolutePaths"

definition IsExecutedOnWritePath :: "(string \<Rightarrow> string) \<Rightarrow> string \<Rightarrow> string \<Rightarrow> string option" where
  "IsExecutedOnWritePath env p workdir =
     denylistHit env p workdir executedOnWriteSuffixes executedOnWriteAbsolutePaths"

text \<open>The names one path element is compared with, the built-in ones first.\<close>

definition protected_name :: "string list \<Rightarrow> string \<Rightarrow> string option" where
  "protected_name extra seg =
     (if seg = [] then None
      else case find (\<lambda>n. seg = foldForDeny n) protectedMetadataSegments of
             Some n \<Rightarrow> Some n
           | None \<Rightarrow> find (\<lambda>n. n \<noteq> [] \<and> seg = foldForDeny n) extra)"

fun first_protected :: "string list \<Rightarrow> string list \<Rightarrow> string option" where
  "first_protected extra [] = None"
| "first_protected extra (seg # segs) =
     (case protected_name extra seg of Some n \<Rightarrow> Some n | None \<Rightarrow> first_protected extra segs)"

definition protectedMetadataHitOnce ::
    "(string \<Rightarrow> string) \<Rightarrow> string \<Rightarrow> string \<Rightarrow> string list \<Rightarrow> string option" where
  "protectedMetadataHitOnce env p workdir extra =
     (case normalizePath env p workdir of
        None \<Rightarrow> None
      | Some norm \<Rightarrow> first_protected extra (split_byte (foldForDeny norm) (CHR ''/'')))"

definition IsProtectedMetadataPath ::
    "(string \<Rightarrow> string) \<Rightarrow> string \<Rightarrow> string \<Rightarrow> string list \<Rightarrow> string option" where
  "IsProtectedMetadataPath env p workdir extra =
     two_readings (\<lambda>q. protectedMetadataHitOnce env q workdir extra) p"

definition profileGrantsExplicitly ::
    "(string \<Rightarrow> string) \<Rightarrow> string list \<Rightarrow> string \<Rightarrow> string \<Rightarrow> bool" where
  "profileGrantsExplicitly env patterns p workdir =
     (case normalizePath env p workdir of
        None \<Rightarrow> False
      | Some target \<Rightarrow>
          \<exists>pat \<in> set patterns. \<not> HasGlobMeta pat \<and>
            (case normalizePath env pat workdir of
               None \<Rightarrow> False
             | Some lit \<Rightarrow>
                 foldForDeny lit = foldForDeny target \<or>
                 pathHasPrefixSegment (foldForDeny target) (foldForDeny lit)))"

section \<open>The gate\<close>

text \<open>What a path is, for one direction: the words of the message and the table's entry.\<close>

definition builtin_location ::
    "(string \<Rightarrow> string) \<Rightarrow> permission_profile \<Rightarrow> string \<Rightarrow> bool \<Rightarrow> string \<Rightarrow> (string \<times> string) option" where
  "builtin_location env p workdir writing raw =
     (case IsSensitivePath env raw workdir of
        Some e \<Rightarrow> Some (''sensitive credential location'', e)
      | None \<Rightarrow>
          if \<not> writing then None
          else (case IsExecutedOnWritePath env raw workdir of
                  Some e \<Rightarrow> Some (''location whose contents are executed later without being read'', e)
                | None \<Rightarrow>
                    map_option (\<lambda>e. (''protected project metadata directory'', e))
                      (IsProtectedMetadataPath env raw workdir (fp_protected (pp_fs p)))))"

definition fs_patterns :: "permission_profile \<Rightarrow> string \<Rightarrow> string list" where
  "fs_patterns p op = (if op = ''read'' then fp_read (pp_fs p) else fp_write (pp_fs p))"

fun sensitive_paths ::
    "(string \<Rightarrow> string) \<Rightarrow> permission_profile \<Rightarrow> string \<Rightarrow> string \<Rightarrow> string list \<Rightarrow> guard_decision" where
  "sensitive_paths env p op workdir [] = allow"
| "sensitive_paths env p op workdir (raw # rest) =
     (case builtin_location env p workdir (op \<noteq> ''read'') raw of
        None \<Rightarrow> sensitive_paths env p op workdir rest
      | Some (what, entry) \<Rightarrow>
          if profileGrantsExplicitly env (fs_patterns p op) raw workdir
          then sensitive_paths env p op workdir rest
          else prompt (Builtin_location raw what entry))"

definition checkSensitiveFS ::
    "(string \<Rightarrow> string) \<Rightarrow> permission_profile \<Rightarrow> guard_action \<Rightarrow> guard_decision" where
  "checkSensitiveFS env p a =
     sensitive_paths env p (fw_op (ga_fs a)) (ga_workdir a) (fw_paths (ga_fs a))"

definition path_permitted :: "string list \<Rightarrow> string \<Rightarrow> bool" where
  "path_permitted patterns raw \<longleftrightarrow> any_glob patterns (path_clean raw)"

definition checkFS :: "(string \<Rightarrow> string) \<Rightarrow> permission_profile \<Rightarrow> guard_action \<Rightarrow> guard_decision" where
  "checkFS env p a =
     (let paths = fw_paths (ga_fs a); op = fw_op (ga_fs a); d = checkSensitiveFS env p a;
          allowed = fs_patterns p op in
      if paths = [] then allow
      else if dc_verdict d \<noteq> Allow then d
      else if allowed = [] then overridableDeny (No_paths_for op)
      else case find (\<lambda>raw. \<not> path_permitted allowed raw) paths of
             Some raw \<Rightarrow> prompt (Path_not_permitted raw op)
           | None \<Rightarrow> allow)"

section \<open>What the gate lets through\<close>

definition cleared :: "(string \<Rightarrow> string) \<Rightarrow> permission_profile \<Rightarrow> string \<Rightarrow> string \<Rightarrow> string \<Rightarrow> bool" where
  "cleared env p op workdir raw \<longleftrightarrow>
     builtin_location env p workdir (op \<noteq> ''read'') raw = None \<or>
     profileGrantsExplicitly env (fs_patterns p op) raw workdir"

lemma sensitive_paths_tier:
  "tier_of (sensitive_paths env p op wd raws) =
     (if \<forall>raw \<in> set raws. cleared env p op wd raw then Allowed else Asks)"
  by (induction raws) (auto simp: cleared_def split: option.splits)

lemma checkSensitiveFS_tier:
  "tier_of (checkSensitiveFS env p a) =
     (if \<forall>raw \<in> set (fw_paths (ga_fs a)). cleared env p (fw_op (ga_fs a)) (ga_workdir a) raw
      then Allowed else Asks)"
  by (simp add: checkSensitiveFS_def sensitive_paths_tier)

lemma find_all: "find P xs = None \<longleftrightarrow> (\<forall>x \<in> set xs. \<not> P x)"
  by (auto simp: find_None_iff)

lemma find_member: "find P xs = Some x \<Longrightarrow> x \<in> set xs \<and> P x"
  by (auto simp: find_Some_iff)

lemma checkFS_tier:
  "tier_of (checkFS env p a) =
     (let paths = fw_paths (ga_fs a); op = fw_op (ga_fs a) in
      if paths = [] then Allowed
      else if \<not> (\<forall>raw \<in> set paths. cleared env p op (ga_workdir a) raw) then Asks
      else if fs_patterns p op = [] then Policy_denied
      else if \<forall>raw \<in> set paths. path_permitted (fs_patterns p op) raw then Allowed
      else Asks)"
proof -
  let ?c = "\<forall>raw \<in> set (fw_paths (ga_fs a)). cleared env p (fw_op (ga_fs a)) (ga_workdir a) raw"
  have "dc_verdict (checkSensitiveFS env p a) = Allow \<longleftrightarrow> ?c"
    using checkSensitiveFS_tier [of env p a] tier_of_verdict(1) by (metis tier.distinct(1))
  then show ?thesis
    using checkSensitiveFS_tier [of env p a]
    by (auto simp: checkFS_def Let_def find_all split: option.split dest: find_member)
qed

lemma sensitive_paths_paired: "well_paired (sensitive_paths env p op wd raws)"
  by (induction raws) (auto split: option.splits)

lemma checkFS_paired [simp]: "well_paired (checkFS env p a)"
  using sensitive_paths_paired
  by (auto simp: checkFS_def Let_def checkSensitiveFS_def split: option.split)

section \<open>Properties\<close>

text \<open>
  C24: The filesystem dimension allows an action exactly when it names no path, or when the profile
  has patterns for the operation and each path matches one of them after cleaning and is either
  outside the built-in tables or granted by a literal pattern.
\<close>

theorem checkFS_allows:
  "dc_verdict (checkFS env p a) = Allow \<longleftrightarrow>
     fw_paths (ga_fs a) = [] \<or>
     fs_patterns p (fw_op (ga_fs a)) \<noteq> [] \<and>
     list_all (\<lambda>raw.
        any_glob (fs_patterns p (fw_op (ga_fs a))) (path_clean raw) \<and>
        (builtin_location env p (ga_workdir a) (fw_op (ga_fs a) \<noteq> ''read'') raw = None \<or>
         profileGrantsExplicitly env (fs_patterns p (fw_op (ga_fs a))) raw (ga_workdir a)))
       (fw_paths (ga_fs a))"
proof -
  have "dc_verdict (checkFS env p a) = Allow \<longleftrightarrow> tier_of (checkFS env p a) = Allowed"
    using tier_of_verdict(1) by blast
  then show ?thesis
    unfolding list_all_iff path_permitted_def [symmetric] cleared_def [symmetric]
    by (auto simp: checkFS_tier Let_def)
qed

lemma no_literal_no_grant:
  "\<forall>pat \<in> set patterns. HasGlobMeta pat \<Longrightarrow> \<not> profileGrantsExplicitly env patterns raw wd"
  by (auto simp: profileGrantsExplicitly_def split: option.split)

text \<open>
  Wildcards do not open the built-in tables: when every pattern of the profile has a wildcard,
  an action on a credential path is asked about, whatever the patterns match.
\<close>

theorem wildcards_never_grant_credentials:
  assumes "\<forall>pat \<in> set (fs_patterns p (fw_op (ga_fs a))). HasGlobMeta pat"
    and "raw \<in> set (fw_paths (ga_fs a))" "IsSensitivePath env raw (ga_workdir a) = Some entry"
  shows "dc_verdict (checkFS env p a) = Prompt"
proof -
  have "\<not> cleared env p (fw_op (ga_fs a)) (ga_workdir a) raw"
    using assms no_literal_no_grant by (simp add: cleared_def builtin_location_def)
  with assms(2) have "tier_of (checkFS env p a) = Asks"
    by (auto simp: checkFS_tier Let_def)
  then show ?thesis by (simp add: tier_of_verdict)
qed

definition open_profile :: permission_profile where
  "open_profile =
     \<lparr>pp_fs = \<lparr>fp_read = [''**''], fp_write = [''**''], fp_protected = []\<rparr>,
      pp_tools = \<lparr>tp_allow = [''*'']\<rparr>, pp_mcp = \<lparr>tp_allow = []\<rparr>,
      pp_shell = \<lparr>sp_policy = ''denylist'', sp_patterns = [''rm *''], sp_rules = []\<rparr>,
      pp_net = \<lparr>nt_allow = True, nt_hosts = []\<rparr>,
      pp_subagent = \<lparr>sa_models = [], sa_max_reasoning = []\<rparr>\<rparr>"

definition read_action :: "string \<Rightarrow> guard_action" where
  "read_action path =
     \<lparr>ga_tool = ''fs_read'', ga_fs = \<lparr>fw_op = ''read'', fw_paths = [path]\<rparr>, ga_shell = [],
      ga_net_host = [], ga_workdir = ''/w'', ga_interpreter = []\<rparr>"

lemma wildcards_never_grant_credentials_witness:
  "dc_verdict (checkFS sample_env open_profile (read_action ''~/src/../.s${x}sh/id_rsa'')) = Prompt"
proof (rule wildcards_never_grant_credentials)
  show "IsSensitivePath sample_env ''~/src/../.s${x}sh/id_rsa''
      (ga_workdir (read_action ''~/src/../.s${x}sh/id_rsa'')) = Some ''~/.ssh''"
    by code_simp
qed (simp_all add: open_profile_def read_action_def fs_patterns_def HasGlobMeta_def)

text \<open>
  A path with two leading slashes is taken for a Windows share, and no table is consulted for
  the file it names on a POSIX system: with the same cleaned path, and under a profile that
  reads everything, one slash asks and two slashes are allowed.
\<close>

theorem double_slash_skips_credentials:
  "path_clean ''//home/me/.ssh/id_rsa'' = ''/home/me/.ssh/id_rsa'' \<and>
   dc_verdict (checkFS sample_env open_profile (read_action ''/home/me/.ssh/id_rsa'')) = Prompt \<and>
   dc_verdict (checkFS sample_env open_profile (read_action ''//home/me/.ssh/id_rsa'')) = Allow"
  by code_simp

end
