(* ===== verification/GuardCheck.thy ===== *)
theory GuardCheck
  imports Sensitive ShellLite ExecPwsh
begin

text \<open>
  \<open>Guard.Check\<close> of \<open>internal/guard/guard.go\<close>: six dimensions, each a decision, folded by
  \<open>moreSevere\<close>.  The readings of a shell command that other files of the package compute (the
  deletion class, the write targets of an argument vector or a word, the payloads of wrappers)
  are the fields of \<open>readings\<close>, an argument of every definition: what is proved here holds
  whatever they answer.
\<close>

section \<open>Deletion classes\<close>

datatype destruction =
    DestructionNone | DestructionOutOfScope | DestructionOpaque
  | DestructionCatastrophic | DestructionUnreadable

fun destruction_rank :: "destruction \<Rightarrow> nat" where
  "destruction_rank DestructionNone = 0"
| "destruction_rank DestructionOutOfScope = 1"
| "destruction_rank DestructionOpaque = 2"
| "destruction_rank DestructionCatastrophic = 3"
| "destruction_rank DestructionUnreadable = 4"

lemma destruction_rank_inj: "destruction_rank a = destruction_rank b \<Longrightarrow> a = b"
  by (cases a; cases b) auto

text \<open>The order of the Go constants.\<close>

instantiation destruction :: linorder
begin

definition less_eq_destruction :: "destruction \<Rightarrow> destruction \<Rightarrow> bool" where
  "less_eq_destruction a b \<longleftrightarrow> destruction_rank a \<le> destruction_rank b"

definition less_destruction :: "destruction \<Rightarrow> destruction \<Rightarrow> bool" where
  "less_destruction a b \<longleftrightarrow> destruction_rank a < destruction_rank b"

instance
  by standard (auto simp: less_eq_destruction_def less_destruction_def dest: destruction_rank_inj)

end

definition maxDestruction :: "destruction \<Rightarrow> destruction \<Rightarrow> destruction" where
  "maxDestruction a b = (if b > a then b else a)"

lemma maxDestruction_max: "maxDestruction a b = max a b"
  by (auto simp: maxDestruction_def max_def)

record readings =
  rd_env :: "string \<Rightarrow> string"
  rd_classify :: "string \<Rightarrow> string \<Rightarrow> destruction"
  rd_segment_writes :: "string \<Rightarrow> string list \<Rightarrow> string list"
  rd_word_writes :: "string \<Rightarrow> string list"
  rd_payloads :: "string \<Rightarrow> string list"

section \<open>The dimensions\<close>

definition catastrophic_reason :: reason where
  "catastrophic_reason = Literal ''catastrophic destruction blocked (mass deletion of a root/home/workdir, or destruction of a raw storage device)''"

definition unreadable_reason :: reason where
  "unreadable_reason = Literal ''shell command nests command wrappers deeper than the guard will unwrap; the program that would actually run cannot be identified''"

definition opaque_reason :: reason where
  "opaque_reason = Literal (''shell command carries a payload this guard does not read (an interpreter'' @ [squote] @ ''s -c/-e operand, or an encoded command); nobody has seen what it runs'')"

definition checkDestructive :: "readings \<Rightarrow> guard_action \<Rightarrow> guard_decision" where
  "checkDestructive rd a =
     (if ga_shell a = [] then allow
      else case rd_classify rd (ga_shell a) (ga_workdir a) of
             DestructionCatastrophic \<Rightarrow> hardDeny catastrophic_reason
           | DestructionUnreadable \<Rightarrow> hardDeny unreadable_reason
           | DestructionOpaque \<Rightarrow> prompt opaque_reason
           | DestructionOutOfScope \<Rightarrow> prompt (Literal ''deletion outside the working directory'')
           | DestructionNone \<Rightarrow> allow)"

definition checkMCPTools :: "permission_profile \<Rightarrow> guard_action \<Rightarrow> guard_decision" where
  "checkMCPTools p a =
     (if \<not> prefix ''mcp_'' (ga_tool a) then allow
      else if tp_allow (pp_mcp p) = [] then overridableDeny (Literal ''no MCP tools permitted by profile'')
      else if any_glob (tp_allow (pp_mcp p)) (ga_tool a) then allow
      else prompt (Mcp_not_permitted (ga_tool a)))"

definition checkTools :: "permission_profile \<Rightarrow> guard_action \<Rightarrow> guard_decision" where
  "checkTools p a =
     (if tp_allow (pp_tools p) = [] then overridableDeny (Literal ''no tools permitted by profile'')
      else if any_glob (tp_allow (pp_tools p)) (ga_tool a) then allow
      else prompt (Tool_not_permitted (ga_tool a)))"

definition fs_action :: "guard_action \<Rightarrow> string \<Rightarrow> string list \<Rightarrow> guard_action" where
  "fs_action a op paths =
     \<lparr>ga_tool = ga_tool a, ga_fs = \<lparr>fw_op = op, fw_paths = paths\<rparr>, ga_shell = [], ga_net_host = [],
      ga_workdir = ga_workdir a, ga_interpreter = []\<rparr>"

definition redirect_direction :: "string \<Rightarrow> string" where
  "redirect_direction op = (if prefix ''<'' (dropWhile is_digit op) then ''read'' else ''write'')"

definition checkRedirectTargets ::
    "readings \<Rightarrow> permission_profile \<Rightarrow> guard_action \<Rightarrow> segment \<Rightarrow> guard_decision" where
  "checkRedirectTargets rd p a seg =
     worst_of allow
       (map (\<lambda>r. checkFS (rd_env rd) p (fs_action a (redirect_direction (rd_operator r)) [rd_target r]))
          (filter (\<lambda>r. rd_target r \<noteq> []) (seg_redirects seg)))"

definition write_targets :: "readings \<Rightarrow> segment \<Rightarrow> string list" where
  "write_targets rd seg =
     (case lexShellLite (seg_text seg) of
        None \<Rightarrow> []
      | Some (program, args) \<Rightarrow> rd_segment_writes rd program args @ rd_word_writes rd (seg_text seg))"

definition checkSegmentWrites ::
    "readings \<Rightarrow> permission_profile \<Rightarrow> guard_action \<Rightarrow> segment \<Rightarrow> guard_decision" where
  "checkSegmentWrites rd p a seg =
     (let worst = checkRedirectTargets rd p a seg; targets = write_targets rd seg in
      if targets = [] then worst
      else moreSevere worst (checkFS (rd_env rd) p (fs_action a ''write'' targets)))"

text \<open>The decision for a verdict of the rule engine.\<close>

definition rule_decision :: "policy_result \<Rightarrow> guard_decision" where
  "rule_decision res =
     (let d = \<lparr>dc_verdict = HardDeny, dc_reason = Literal (pr_reason res), dc_rule_id = pr_rule_id res,
               dc_justification = pr_justification res, dc_promptable = False, dc_overridable = False\<rparr> in
      if pr_verdict res = ''allow'' then d\<lparr>dc_verdict := Allow\<rparr>
      else if pr_verdict res = ''prompt'' then d\<lparr>dc_verdict := Prompt, dc_promptable := True\<rparr>
      else if pr_verdict res = ''hard_deny'' \<or> pr_verdict res = ''deny'' then d\<lparr>dc_overridable := True\<rparr>
      else d\<lparr>dc_reason := Literal ''unknown execpolicy verdict''\<rparr>)"

definition parse_decision :: "exec_error \<Rightarrow> guard_decision" where
  "parse_decision e =
     \<lparr>dc_verdict = HardDeny, dc_reason = Parse_error e, dc_rule_id = ''parse-error'',
      dc_justification = ''execpolicy parser rejected unsupported shell syntax'',
      dc_promptable = False, dc_overridable = False\<rparr>"

definition checkShellPolicy :: "permission_profile \<Rightarrow> string \<Rightarrow> guard_decision" where
  "checkShellPolicy p cmd =
     (let sp = pp_shell p in
      if sp_rules sp \<noteq> [] then
        (case Parse cmd of
           Inl e \<Rightarrow> parse_decision e
         | Inr parsed \<Rightarrow> rule_decision (Evaluate parsed (sp_rules sp)))
      else if sp_policy sp = ''deny'' then overridableDeny (Literal ''shell denied by policy'')
      else if sp_policy sp = '''' \<or> sp_policy sp = ''allowlist'' then
        (if any_glob (sp_patterns sp) cmd then allow else prompt (Not_on_allowlist cmd))
      else if sp_policy sp = ''denylist'' then
        (if any_glob (sp_patterns sp) cmd then overridableDeny (On_denylist cmd) else allow)
      else hardDeny (Unknown_policy (sp_policy sp)))"

definition checkShellSegment ::
    "readings \<Rightarrow> permission_profile \<Rightarrow> guard_action \<Rightarrow> segment \<Rightarrow> guard_decision" where
  "checkShellSegment rd p a seg =
     moreSevere (checkSegmentWrites rd p a seg) (checkShellPolicy p (seg_text seg))"

definition segmentsFor :: "guard_action \<Rightarrow> exec_error + segment list" where
  "segmentsFor a = ParseCommandListFor (ga_interpreter a) (ga_shell a)"

text \<open>The segments of the wrapper payloads that can be read; a payload that cannot is skipped.\<close>

definition payload_segments :: "readings \<Rightarrow> guard_action \<Rightarrow> segment list" where
  "payload_segments rd a =
     concat (map (\<lambda>inner. case ParseCommandListFor (ga_interpreter a) inner of
                            Inl _ \<Rightarrow> []
                          | Inr segs \<Rightarrow> segs)
               (rd_payloads rd (ga_shell a)))"

definition checkShell :: "readings \<Rightarrow> permission_profile \<Rightarrow> guard_action \<Rightarrow> guard_decision" where
  "checkShell rd p a =
     (if ga_shell a = [] then allow
      else case segmentsFor a of
             Inl e \<Rightarrow> hardDeny (Shell_rejected e)
           | Inr segs \<Rightarrow>
               worst_of (worst_of allow (map (checkShellSegment rd p a) segs))
                 (map (checkSegmentWrites rd p a) (payload_segments rd a)))"

definition checkNet :: "permission_profile \<Rightarrow> guard_action \<Rightarrow> guard_decision" where
  "checkNet p a =
     (if ga_net_host a = [] then allow
      else if \<not> nt_allow (pp_net p) then overridableDeny (Literal ''network access denied'')
      else if nt_hosts (pp_net p) = [] then allow
      else if any_glob (map to_lower (nt_hosts (pp_net p))) (to_lower (ga_net_host a)) then allow
      else prompt (Host_not_permitted (ga_net_host a)))"

section \<open>The check\<close>

text \<open>\<open>check\<close>: one reading.  The witness is the last allowing decision, for its rule id.\<close>

definition check_once :: "readings \<Rightarrow> permission_profile \<Rightarrow> guard_action \<Rightarrow> guard_decision" where
  "check_once rd p a =
     (let floor = checkDestructive rd a; mcp = checkMCPTools p a; tools = checkTools p a;
          fs = checkFS (rd_env rd) p a; shell = checkShell rd p a; net = checkNet p a in
      if dc_verdict floor = HardDeny then floor
      else if dc_verdict mcp \<noteq> Allow then moreSevere floor mcp
      else if dc_verdict tools \<noteq> Allow then moreSevere floor tools
      else if dc_verdict fs \<noteq> Allow then moreSevere floor fs
      else if dc_verdict shell \<noteq> Allow then moreSevere floor shell
      else let witness = (if dc_rule_id shell \<noteq> [] then shell else fs) in
        if dc_verdict net \<noteq> Allow then moreSevere floor net
        else moreSevere floor (if dc_rule_id net \<noteq> [] \<and> dc_rule_id witness = [] then net else witness))"

definition Check :: "readings \<Rightarrow> permission_profile \<Rightarrow> guard_action \<Rightarrow> guard_decision" where
  "Check rd p a =
     (let d = check_once rd p a in
      if ga_shell a = [] then d
      else case expandKnownParameters (ga_shell a) of
             (expanded, changed) \<Rightarrow>
               if changed then moreSevere d (check_once rd p (a\<lparr>ga_shell := expanded\<rparr>)) else d)"

section \<open>Decisions are well formed\<close>

lemma checkDestructive_paired [simp]: "well_paired (checkDestructive rd a)"
  by (simp add: checkDestructive_def split: destruction.split)

lemma checkMCPTools_paired [simp]: "well_paired (checkMCPTools p a)"
  by (simp add: checkMCPTools_def)

lemma checkTools_paired [simp]: "well_paired (checkTools p a)"
  by (simp add: checkTools_def)

lemma checkNet_paired [simp]: "well_paired (checkNet p a)"
  by (simp add: checkNet_def)

lemma checkRedirectTargets_paired [simp]: "well_paired (checkRedirectTargets rd p a seg)"
  unfolding checkRedirectTargets_def by (intro well_paired_worst) auto

lemma checkSegmentWrites_paired [simp]: "well_paired (checkSegmentWrites rd p a seg)"
  by (simp add: checkSegmentWrites_def Let_def)

lemma rule_decision_paired [simp]: "well_paired (rule_decision res)"
  by (simp add: rule_decision_def well_paired_def Let_def)

lemma parse_decision_paired [simp]: "well_paired (parse_decision e)"
  by (simp add: parse_decision_def well_paired_def)

lemma checkShellPolicy_paired [simp]: "well_paired (checkShellPolicy p cmd)"
  by (simp add: checkShellPolicy_def Let_def split: sum.split)

lemma checkShellSegment_paired [simp]: "well_paired (checkShellSegment rd p a seg)"
  by (simp add: checkShellSegment_def)

lemma checkShell_paired [simp]: "well_paired (checkShell rd p a)"
  unfolding checkShell_def by (auto split: sum.split intro!: well_paired_worst)

lemma check_once_paired [simp]: "well_paired (check_once rd p a)"
  by (simp add: check_once_def Let_def)

lemma Check_paired: "well_paired (Check rd p a)"
  by (simp add: Check_def Let_def split: prod.split)

end
