(* ===== verification/Classify.thy ===== *)
theory Classify
  imports Storage ArgvWrite GuardCheck
begin

text \<open>
  The deletion classifier, \<open>ClassifyDestruction\<close> of \<open>internal/guard/destructive.go\<close> with
  \<open>internal/guard/opaque.go\<close>.  \<open>classifyDestruction\<close> and \<open>classifyLexedArgv\<close> call each other;
  the helpers between them take the recursive call as an argument.  The termination order is the
  budget \<open>depth\<close> first, then the kind of call, then the top-level flag, then the length of the
  command, and it is what the comments of the code promise: an expansion, a payload and a prefix
  spend a unit of the budget, a decoded command leaves the top level, a segment and an unescaped
  command are shorter than the command they come from.
\<close>

section \<open>Operands nobody reads\<close>

definition codePayloadFlags :: "string list" where
  "codePayloadFlags = [''-c'', ''-e'', ''--command'', ''--eval'', ''--execute'', ''--rsh'']"

definition nonInterpreterPrograms :: "string list" where
  "nonInterpreterPrograms =
     [''grep'', ''egrep'', ''fgrep'', ''zgrep'', ''rg'', ''ag'', ''sed'', ''jq'', ''curl'', ''wget'', ''echo'', ''printf'',
      ''kubectl'']"

definition has_any :: "char list \<Rightarrow> string \<Rightarrow> bool" where
  "has_any cs w \<longleftrightarrow> list_ex (\<lambda>c. c \<in> set cs) w"

definition looksLikeCode :: "string \<Rightarrow> bool" where
  "looksLikeCode w \<longleftrightarrow> has_any ([CHR '' '', tab_c, newline_c, btick] @ '';(){}$|&<>'') w"

definition looksLikeStatement :: "string \<Rightarrow> bool" where
  "looksLikeStatement w \<longleftrightarrow> has_blank w \<and> has_any (btick # '';(){}|&<>'') w"

fun encoded_operand :: "string list \<Rightarrow> string option" where
  "encoded_operand [] = None"
| "encoded_operand (a # rest) =
     (if bindsPowerShellParam a powerShellEncodedParams powerShellEncodedAliases \<and> rest \<noteq> [] then Some (hd rest)
      else encoded_operand rest)"

definition windowsEncodedPayload :: "string \<Rightarrow> string list \<Rightarrow> string option" where
  "windowsEncodedPayload program args = (if \<not> isPowerShellHost program then None else encoded_operand args)"

fun marked_operand :: "string list \<Rightarrow> string option" where
  "marked_operand [] = None"
| "marked_operand (a # rest) =
     (if a = ''--'' then None
      else case cut a (CHR ''='') of
        (base, attached, found) \<Rightarrow>
          if found \<and> base \<in> set codePayloadFlags then
            (if \<not> isFlagWord attached \<and> looksLikeCode attached then Some attached else marked_operand rest)
          else if a \<in> set codePayloadFlags \<and> rest \<noteq> [] \<and> \<not> isFlagWord (hd rest) \<and> looksLikeCode (hd rest)
          then Some (hd rest)
          else marked_operand rest)"

text \<open>The payload and whether an option announced it.\<close>

definition opaquePayload :: "string \<Rightarrow> string list \<Rightarrow> (string \<times> bool) option" where
  "opaquePayload program args =
     (case windowsEncodedPayload program args of
        Some v \<Rightarrow> Some (v, True)
      | None \<Rightarrow>
          if program \<in> set nonInterpreterPrograms then None
          else case marked_operand args of
                 Some v \<Rightarrow> Some (v, True)
               | None \<Rightarrow>
                   map_option (\<lambda>v. (v, False))
                     (find (\<lambda>a. \<not> (isFlagWord a \<or> a = ''--'') \<and> looksLikeStatement a) args))"

section \<open>Helpers over the recursive call\<close>

text \<open>A loop that folds with the maximum and returns as soon as the worst is catastrophic.\<close>

fun worst_until :: "destruction \<Rightarrow> destruction list \<Rightarrow> destruction" where
  "worst_until worst [] = worst"
| "worst_until worst (d # ds) =
     (let w = maxDestruction worst d in if w = DestructionCatastrophic then w else worst_until w ds)"

abbreviation worst_all :: "destruction \<Rightarrow> destruction list \<Rightarrow> destruction" where
  "worst_all \<equiv> foldl maxDestruction"

definition capped :: "destruction \<Rightarrow> destruction \<Rightarrow> destruction" where
  "capped limit d = (if d > limit then limit else d)"

definition present :: "'a option list \<Rightarrow> 'a list" where
  "present xs = concat (map (\<lambda>x. case x of None \<Rightarrow> [] | Some y \<Rightarrow> [y]) xs)"

definition nested_strings :: "string \<Rightarrow> string list \<Rightarrow> string list" where
  "nested_strings program args = present (map (\<lambda>u. u program args) nestedCommandUnwrappers)"

definition stripped_commands :: "string \<Rightarrow> string list \<Rightarrow> (string \<times> string list) list" where
  "stripped_commands program args = present (map (\<lambda>u. u program args) commandPrefixStrippers)"

text \<open>The strings an emitter pipes into a shell that reads its script from there.\<close>

fun stdin_scripts :: "(string \<times> bool) list \<Rightarrow> string list" where
  "stdin_scripts ((prev, p) # (stage, piped) # rest) =
     (if \<not> piped then []
      else case lexShellLite stage of
        None \<Rightarrow> []
      | Some (program, args) \<Rightarrow>
          if \<not> readsScriptFromStdin program args then []
          else case lexShellLite prev of
                 None \<Rightarrow> []
               | Some (emitter, emitted) \<Rightarrow>
                   if emitter \<in> set scriptEmitters then filter (\<lambda>w. \<not> isFlagWord w) emitted else []) @
     stdin_scripts ((stage, piped) # rest)"
| "stdin_scripts stages = []"

definition classifyScriptOnStdin :: "(string \<Rightarrow> destruction) \<Rightarrow> string \<Rightarrow> destruction" where
  "classifyScriptOnStdin classify cmd =
     worst_all DestructionNone (map classify (stdin_scripts (splitPipeStages cmd)))"

definition classifyWordAsCommand :: "(string \<Rightarrow> destruction) \<Rightarrow> string \<Rightarrow> destruction" where
  "classifyWordAsCommand classify w =
     worst_all DestructionNone (map (\<lambda>r. capped DestructionOpaque (classify r)) (commandReadingsOfWord w))"

definition classifyAssignmentPrefix :: "(string \<Rightarrow> destruction) \<Rightarrow> string \<Rightarrow> destruction" where
  "classifyAssignmentPrefix classify cmd =
     (case lexShellLiteTokens cmd False of
        None \<Rightarrow> DestructionNone
      | Some tokens \<Rightarrow>
          worst_all DestructionNone (map (classifyWordAsCommand classify) (take (assignmentPrefixLen tokens) tokens)))"

text \<open>
  The loop of \<open>classifyTrailingArgv\<close>: \<open>word\<close> grades one word as a command, \<open>argv\<close> a program
  word with the words after it.
\<close>

fun trailing_loop ::
    "(string \<Rightarrow> destruction) \<Rightarrow> (string \<Rightarrow> string list \<Rightarrow> destruction) \<Rightarrow> bool \<Rightarrow> bool \<Rightarrow> destruction \<Rightarrow>
     string list \<Rightarrow> destruction" where
  "trailing_loop word argv read_words runs worst [] = worst"
| "trailing_loop word argv read_words runs worst (a # rest) =
     (let w1 = (if read_words then maxDestruction worst (word a) else worst) in
      if a = ''--'' \<or> isFlagWord a then trailing_loop word argv read_words runs w1 rest
      else let d = capped DestructionCatastrophic (argv (normalizeProgramWord a) rest);
               d = (if \<not> runs then capped DestructionOpaque d else d);
               w2 = maxDestruction w1 d in
           if w2 = DestructionCatastrophic then w2 else trailing_loop word argv read_words runs w2 rest)"

definition runs_its_argv :: "string \<Rightarrow> bool" where
  "runs_its_argv program \<longleftrightarrow>
     map_of prefixRunners program \<noteq> None \<or> map_of remoteShellRunners program \<noteq> None"

definition classifyTrailingArgv ::
    "(string \<Rightarrow> destruction) \<Rightarrow> (string \<Rightarrow> string list \<Rightarrow> destruction) \<Rightarrow> string \<Rightarrow> string list \<Rightarrow> destruction" where
  "classifyTrailingArgv classify argv program args =
     (if args = [] \<or> program \<in> set scriptEmitters then DestructionNone
      else trailing_loop (classifyWordAsCommand classify) argv
             (program \<notin> set nonInterpreterPrograms) (runs_its_argv program) DestructionNone args)"

definition gradeUnreadPayload :: "(string \<Rightarrow> destruction) \<Rightarrow> string \<times> bool \<Rightarrow> destruction" where
  "gradeUnreadPayload classify payload =
     (case payload of
        (text, marked) \<Rightarrow>
          if \<not> marked then DestructionOpaque
          else if classify text \<ge> DestructionCatastrophic then classify text
          else DestructionOpaque)"

text \<open>The end of \<open>classifyLexedArgv\<close>: what the program itself does to its operands.\<close>

definition grade_operands :: "host \<Rightarrow> string \<Rightarrow> string \<Rightarrow> string list \<Rightarrow> destruction \<Rightarrow> destruction" where
  "grade_operands h workdir program args worst =
     (let w = cleanScope h workdir; targets = deleteTargets args in
      if isStorageDestruction program args then DestructionCatastrophic
      else if findDeleteOnCatastrophicTarget h program args w then DestructionCatastrophic
      else if isRecursiveOwnershipOnCatastrophicTarget h program args w then DestructionOutOfScope
      else if program \<notin> set deletionPrograms then worst
      else if deleteIsRecursive program args \<and>
              (targets = [] \<or> list_ex (\<lambda>t. isCatastrophicTarget h t w) targets) then DestructionCatastrophic
      else if list_ex (\<lambda>t. resolvesOutsideWorkdir h t w) targets then DestructionOutOfScope
      else worst)"

section \<open>The classifier\<close>

function classifyDestruction :: "host \<Rightarrow> string \<Rightarrow> string \<Rightarrow> nat \<Rightarrow> bool \<Rightarrow> destruction"
  and classifyLexedArgv :: "host \<Rightarrow> string \<Rightarrow> string list \<Rightarrow> string \<Rightarrow> nat \<Rightarrow> bool \<Rightarrow> destruction" where
  "classifyDestruction h cmd workdir depth topLevel =
     (if trim_space cmd = [] then DestructionNone
      else
        let expanded = fst (expandKnownParameters cmd);
            worst0 = (if depth > 0 \<and> expanded \<noteq> cmd
                      then maxDestruction DestructionNone (classifyDestruction h expanded workdir (depth - 1) topLevel)
                      else DestructionNone);
            worst = maxDestruction worst0
                      (if depth > 0
                       then classifyScriptOnStdin (\<lambda>w. classifyDestruction h w workdir (depth - 1) False) cmd
                       else DestructionNone) in
        case (if hasControlOperator cmd then splitIntoStrictlySmallerSegments cmd else None) of
          Some segs \<Rightarrow> worst_all worst (map (\<lambda>seg. classifyDestruction h seg workdir depth False) segs)
        | None \<Rightarrow>
            if topLevel \<and> snd (DecodeANSIC cmd) \<and> hasControlOperator (fst (DecodeANSIC cmd)) then
              maxDestruction worst (classifyDestruction h (fst (DecodeANSIC cmd)) workdir depth False)
            else
              let worst1 = (case unescapeWordLetters cmd of
                              (unescaped, True) \<Rightarrow>
                                maxDestruction worst (classifyDestruction h unescaped workdir depth topLevel)
                            | (_, False) \<Rightarrow> worst);
                  worst2 = (if contains cmd [bslash, dquote] \<or> contains cmd [bslash, CHR '' ''] \<or>
                               contains cmd [bslash, tab_c]
                            then (case lexShellLitePOSIXEscapes cmd of
                                    Some (program, args) \<Rightarrow>
                                      maxDestruction worst1 (classifyLexedArgv h program args workdir depth True)
                                  | None \<Rightarrow> worst1)
                            else worst1);
                  worst3 = maxDestruction worst2
                             (if depth > 0
                              then classifyAssignmentPrefix (\<lambda>w. classifyDestruction h w workdir (depth - 1) False) cmd
                              else DestructionNone) in
              (case lexShellLite cmd of
                 None \<Rightarrow> worst3
               | Some (program, args) \<Rightarrow>
                   maxDestruction worst3 (classifyLexedArgv h program args workdir depth True)))"
| "classifyLexedArgv h program args workdir depth scanTail =
     (let worst1 = (if depth > 0
                    then worst_until DestructionNone
                           (map (\<lambda>inner. classifyDestruction h inner workdir (depth - 1) False)
                              (nested_strings program args))
                    else DestructionNone) in
      if worst1 = DestructionCatastrophic then worst1
      else
        let worst2 = (if depth > 0
                      then worst_until worst1
                             (map (\<lambda>c. classifyLexedArgv h (fst c) (snd c) workdir (depth - 1) scanTail)
                                (stripped_commands program args))
                      else worst1) in
        if worst2 = DestructionCatastrophic then worst2
        else if depth = 0 \<and> hasNestedCommand program args then DestructionUnreadable
        else
          let worst3 = (if scanTail \<and> depth > 0
                        then maxDestruction worst2
                               (classifyTrailingArgv (\<lambda>w. classifyDestruction h w workdir (depth - 1) False)
                                  (\<lambda>p ws. classifyLexedArgv h p ws workdir 1 False) program args)
                        else worst2);
              was_read = depth > 0 \<and> (nested_strings program args \<noteq> [] \<or> stripped_commands program args \<noteq> []);
              worst4 = (if was_read then worst3
                        else case opaquePayload program args of
                               None \<Rightarrow> worst3
                             | Some payload \<Rightarrow>
                                 maxDestruction worst3
                                   (gradeUnreadPayload
                                      (\<lambda>w. if depth > 0 then classifyDestruction h w workdir (depth - 1) False
                                           else DestructionNone) payload)) in
          grade_operands h workdir program args worst4)"
  by pat_completeness auto
termination
  by (relation "measures
       [\<lambda>x. case x of Inl (h, cmd, wd, depth, toplevel) \<Rightarrow> depth | Inr (h, p, ws, wd, depth, scan) \<Rightarrow> depth,
        \<lambda>x. case x of Inl _ \<Rightarrow> 2 | Inr (h, p, ws, wd, depth, scan) \<Rightarrow> if scan then 1 else 0,
        \<lambda>x. case x of Inl (h, cmd, wd, depth, toplevel) \<Rightarrow> if toplevel then 1 else 0 | Inr _ \<Rightarrow> 0,
        \<lambda>x. case x of Inl (h, cmd, wd, depth, toplevel) \<Rightarrow> length cmd | Inr _ \<Rightarrow> 0]")
     (auto split: if_splits dest: smaller_segments unescapeWordLetters_smaller [OF sym])

declare classifyDestruction.simps [simp del] classifyLexedArgv.simps [simp del]

definition ClassifyDestruction :: "host \<Rightarrow> string \<Rightarrow> string \<Rightarrow> destruction" where
  "ClassifyDestruction h cmd workdir = classifyDestruction h cmd workdir maxUnwrapDepth True"

text \<open>The readings the checks of the guard take as an argument, as the package computes them.\<close>

definition guard_readings :: "host \<Rightarrow> readings" where
  "guard_readings h =
     \<lparr>rd_env = hs_env h, rd_classify = ClassifyDestruction h, rd_segment_writes = segmentWriteTargets,
      rd_word_writes = wordWriteTargets, rd_payloads = (\<lambda>cmd. nestedPayloads cmd maxUnwrapDepth)\<rparr>"

end
