(* ===== verification/PermMode.thy ===== *)
theory PermMode
  imports GuardCheck
begin

text \<open>
  The interactive permission modes: \<open>internal/guard/mode.go\<close>, the reader of the model's verdict
  and the template check of \<open>internal/guard/autoapproval.go\<close>, and the gate
  \<open>internal/api/http/ws_perm.go\<close> puts between \<open>tools.Authorize\<close> and the user.
\<close>

section \<open>Modes\<close>

definition ModeStrict :: string where "ModeStrict = ''strict''"
definition ModeDefault :: string where "ModeDefault = ''default''"
definition ModeAllowEdits :: string where "ModeAllowEdits = ''allow-edits''"
definition ModeYOLO :: string where "ModeYOLO = ''yolo''"
definition ModeAuto :: string where "ModeAuto = ''auto''"
definition ModePlan :: string where "ModePlan = ''plan''"

lemmas mode_defs = ModeStrict_def ModeDefault_def ModeAllowEdits_def ModeYOLO_def ModeAuto_def ModePlan_def

definition Modes :: "string list" where
  "Modes = [ModeStrict, ModeDefault, ModeAllowEdits, ModeAuto, ModeYOLO, ModePlan]"

definition cycleOrder :: "string list" where
  "cycleOrder = [ModeDefault, ModeAllowEdits, ModeAuto, ModeYOLO]"

definition planAllowedTools :: "string list" where
  "planAllowedTools =
     [''fs_read'', ''fs_list'', ''memory_search'', ''memory_recall'', ''vcs_log'', ''vcs_diff'',
      ''time_now'', ''summarize'', ''analysis'', ''task_create'', ''task_list'', ''task_read'',
      ''update_plan'', ''checklist_write'', ''checklist_add'', ''checklist_update'', ''checklist_list'',
      ''todo_write'', ''todo_add'', ''todo_update'', ''todo_list'', ''artifact_read'']"

definition PlanToolAllowed :: "string \<Rightarrow> bool" where
  "PlanToolAllowed name \<longleftrightarrow> name \<in> set planAllowedTools"

definition mode_spellings :: "(string list \<times> string) list" where
  "mode_spellings =
     [(['''', ''default'', ''normal''], ModeDefault),
      ([''allow-edits'', ''allow_edits'', ''edits'', ''edit'', ''auto-edit'', ''autoedits''], ModeAllowEdits),
      ([''yolo'', ''danger'', ''all''], ModeYOLO),
      ([''auto'', ''ai'', ''risk''], ModeAuto),
      ([''plan'', ''read-only'', ''readonly'', ''ro''], ModePlan),
      ([''strict'', ''confirm'', ''ask'', ''paranoid''], ModeStrict)]"

definition NormalizeMode :: "string \<Rightarrow> string option" where
  "NormalizeMode s =
     map_option snd (find (\<lambda>(names, _). to_lower (trim_space s) \<in> set names) mode_spellings)"

text \<open>The mode after the first occurrence of \<open>cur\<close>, wrapping at the end of the order.\<close>

fun cycle_from :: "string list \<Rightarrow> string \<Rightarrow> string option" where
  "cycle_from (m # n # ms) cur = (if m = cur then Some n else cycle_from (n # ms) cur)"
| "cycle_from [m] cur = (if m = cur then Some (hd cycleOrder) else None)"
| "cycle_from [] cur = None"

definition CycleMode :: "string \<Rightarrow> string" where
  "CycleMode cur0 =
     (if cur0 = ModePlan \<or> cur0 = ModeStrict then ModeDefault
      else let cur = (if cur0 = [] then ModeDefault else cur0) in
        case cycle_from cycleOrder cur of Some m \<Rightarrow> m | None \<Rightarrow> hd cycleOrder)"

definition editTools :: "string list" where
  "editTools = [''fs_write'', ''fs_edit'', ''apply_patch'']"

definition IsEditTool :: "string \<Rightarrow> bool" where
  "IsEditTool name \<longleftrightarrow> name \<in> set editTools"

definition ModeLabel :: "string \<Rightarrow> string" where
  "ModeLabel m =
     (if m = ModeAllowEdits then ''edits'' else if m = ModeYOLO then ''YOLO''
      else if m = ModeAuto then ''auto'' else if m = ModePlan then ''plan''
      else if m = ModeStrict then ''strict'' else ''default'')"

section \<open>The model's verdict\<close>

text \<open>\<open>strings.FieldsFunc\<close> at everything that is not a lower-case letter.\<close>

definition letter_byte :: "char \<Rightarrow> bool" where
  "letter_byte c \<longleftrightarrow> 97 \<le> byte c \<and> byte c \<le> 122"

fun letter_fields :: "string \<Rightarrow> string \<Rightarrow> string list" where
  "letter_fields cur [] = (if cur = [] then [] else [cur])"
| "letter_fields cur (c # s) =
     (if letter_byte c then letter_fields (cur @ [c]) s
      else (if cur = [] then [] else [cur]) @ letter_fields [] s)"

definition maxAutoApprovalWords :: nat where "maxAutoApprovalWords = 3"

definition says_allow :: "string \<Rightarrow> bool" where
  "says_allow w \<longleftrightarrow> w = ''allow'' \<or> w = ''yes''"

definition says_ask :: "string \<Rightarrow> bool" where
  "says_ask w \<longleftrightarrow> w = ''ask'' \<or> w = ''deny'' \<or> w = ''no''"

text \<open>\<open>ParseAutoApproval\<close>: the verdict, or \<open>None\<close> for a reply that is none.\<close>

definition ParseAutoApproval :: "string \<Rightarrow> bool option" where
  "ParseAutoApproval reply =
     (let ws = letter_fields [] (to_lower reply); sawAllow = list_ex says_allow ws; sawAsk = list_ex says_ask ws in
      if ws = [] \<or> length ws > maxAutoApprovalWords then None
      else if sawAllow = sawAsk then None
      else Some sawAllow)"

text \<open>\<open>FenceUntrusted\<close>: both delimiters are taken out of the text, one after the other.\<close>

fun remove_all :: "string \<Rightarrow> nat \<Rightarrow> string \<Rightarrow> string" where
  "remove_all d skip [] = []"
| "remove_all d (Suc n) (c # s) = remove_all d n s"
| "remove_all d 0 (c # s) =
     (if d \<noteq> [] \<and> prefix d (c # s) then remove_all d (length d - 1) s else c # remove_all d 0 s)"

definition fence_open :: string where "fence_open = ''<<<UNTRUSTED''"
definition fence_close :: string where "fence_close = ''UNTRUSTED>>>''"

definition FenceUntrusted :: "string \<Rightarrow> string" where
  "FenceUntrusted s =
     fence_open @ [newline_c] @ remove_all fence_close 0 (remove_all fence_open 0 s) @
     [newline_c] @ fence_close @ [newline_c]"

definition RequiredRiskCategories :: "(string \<times> string list) list" where
  "RequiredRiskCategories =
     [(''reaches outside the project'', [''sudo'', ''systemctl'', ''ssh'']),
      (''cannot be undone'', [''--force'', ''git clean'', ''killall'']),
      (''runs code nobody has read'', [''curl'', ''/tmp'']),
      (''leaves the machine'', [''printenv''])]"

text \<open>\<open>ValidateAutoApprovalTemplate\<close>: the first category not covered, with the missing markers.\<close>

definition missing_markers :: "string \<Rightarrow> string list \<Rightarrow> string list" where
  "missing_markers body ms = filter (\<lambda>m. \<not> contains body m) ms"

definition ValidateAutoApprovalTemplate :: "string \<Rightarrow> (string \<times> string list) option" where
  "ValidateAutoApprovalTemplate body =
     map_option (\<lambda>(name, ms). (name, missing_markers body ms))
       (find (\<lambda>(name, ms). missing_markers body ms \<noteq> []) RequiredRiskCategories)"

section \<open>Requests and answers\<close>

record permission_request =
  rq_tool :: string
  rq_args :: string
  rq_reason :: reason
  rq_force_prompt :: bool
  rq_approval_required :: bool
  rq_force :: bool
  rq_profile_hard_deny :: bool
  rq_shell :: string
  rq_workdir :: string
  rq_ai_declined :: bool

datatype permission_decision =
    P_allow | P_deny | P_always_allow | P_allow_session | P_allow_persistent | P_other string

definition declined_lead :: string where
  "declined_lead = ''the automatic risk assessment declined to approve this unattended and asked for a human decision''"

definition autoDeclinedReason :: "reason \<Rightarrow> reason" where
  "autoDeclinedReason r =
     (case r of
        Literal s \<Rightarrow> if trim_space s = [] then Literal declined_lead else Ai_declined r
      | _ \<Rightarrow> Ai_declined r)"

text \<open>
  \<open>resolvePermissionMode\<close>: the decision, whether it is final, and the request as it is left.
  \<open>assess\<close> is the answer of \<open>askAutoApproval\<close>, \<open>runs_script\<close> that of \<open>tools.CommandRunsAScript\<close>.
\<close>

definition resolvePermissionMode ::
    "readings \<Rightarrow> (permission_request \<Rightarrow> bool) \<Rightarrow> (string \<Rightarrow> string \<Rightarrow> bool) \<Rightarrow> string \<Rightarrow> permission_request \<Rightarrow>
     permission_decision \<times> bool \<times> permission_request" where
  "resolvePermissionMode rd assess runs_script mode req =
     (let d = (if rq_shell req = [] then DestructionNone else rd_classify rd (rq_shell req) (rq_workdir req)) in
      if rq_force_prompt req \<or> rq_approval_required req then (P_deny, False, req)
      else if d = DestructionCatastrophic \<or> d = DestructionUnreadable then (P_deny, True, req)
      else if d = DestructionOpaque \<and> mode = ModeYOLO then (P_deny, False, req)
      else if d = DestructionOutOfScope \<and> mode = ModeYOLO then (P_deny, True, req)
      else if rq_profile_hard_deny req \<and> mode = ModeYOLO then (P_allow, True, req)
      else if mode = ModeStrict then (P_deny, rq_profile_hard_deny req, req)
      else if mode = ModePlan then (P_deny, True, req)
      else if mode = ModeYOLO then (P_allow, True, req)
      else if mode = ModeAllowEdits then
        (if rq_profile_hard_deny req then (P_deny, True, req)
         else if IsEditTool (rq_tool req) then (P_allow, True, req)
         else (P_deny, False, req))
      else if mode = ModeAuto then
        (if \<not> assess req
         then (P_deny, False, req\<lparr>rq_ai_declined := True, rq_reason := autoDeclinedReason (rq_reason req)\<rparr>)
         else if runs_script (rq_shell req) (rq_workdir req) then (P_allow_persistent, True, req)
         else (P_allow, True, req))
      else (P_deny, rq_profile_hard_deny req, req))"

definition resolvePermissionRequest ::
    "readings \<Rightarrow> (permission_request \<Rightarrow> bool) \<Rightarrow> (string \<Rightarrow> string \<Rightarrow> bool) \<Rightarrow> string \<Rightarrow> permission_request \<Rightarrow>
     permission_decision \<times> bool \<times> permission_request" where
  "resolvePermissionRequest rd assess runs_script mode req =
     (if rq_force req then (P_deny, False, req) else resolvePermissionMode rd assess runs_script mode req)"

text \<open>\<open>askAutoApproval\<close> on the model's reply, \<open>None\<close> for no model, a timeout or an error.\<close>

definition askAutoApproval :: "string option \<Rightarrow> bool" where
  "askAutoApproval reply =
     (case reply of None \<Rightarrow> False | Some r \<Rightarrow> ParseAutoApproval r = Some True)"

definition forcePromptFlag :: "permission_request \<Rightarrow> bool" where
  "forcePromptFlag req \<longleftrightarrow> rq_force_prompt req \<or> rq_force req"

definition oneShotIfAIDeclined :: "permission_request \<Rightarrow> permission_decision \<Rightarrow> permission_decision" where
  "oneShotIfAIDeclined req d =
     (if rq_ai_declined req \<and> d \<in> {P_always_allow, P_allow_session, P_allow_persistent} then P_allow else d)"

section \<open>The tracker of pending requests\<close>

record pending_perm =
  pd_profile_hard_deny :: bool
  pd_mode_at_send :: string

text \<open>The pending requests, and the decisions sent to the callers waiting for them.\<close>

record perm_tracker =
  pt_pending :: "string \<rightharpoonup> pending_perm"
  pt_next :: nat
  pt_sent :: "(string \<times> permission_decision) list"

definition newPermTracker :: perm_tracker where
  "newPermTracker = \<lparr>pt_pending = Map.empty, pt_next = 0, pt_sent = []\<rparr>"

definition tracker_newID :: "perm_tracker \<Rightarrow> string \<times> perm_tracker" where
  "tracker_newID p = (decimal (Suc (pt_next p)), p\<lparr>pt_next := Suc (pt_next p)\<rparr>)"

definition tracker_register :: "string \<Rightarrow> permission_request \<Rightarrow> string \<Rightarrow> perm_tracker \<Rightarrow> perm_tracker" where
  "tracker_register i req mode p =
     p\<lparr>pt_pending := (pt_pending p)(i \<mapsto> \<lparr>pd_profile_hard_deny = rq_profile_hard_deny req, pd_mode_at_send = mode\<rparr>)\<rparr>"

definition tracker_take :: "string \<Rightarrow> perm_tracker \<Rightarrow> pending_perm option \<times> perm_tracker" where
  "tracker_take i p = (pt_pending p i, p\<lparr>pt_pending := (pt_pending p)(i := None)\<rparr>)"

definition tracker_deliver :: "string \<Rightarrow> permission_decision \<Rightarrow> string \<Rightarrow> perm_tracker \<Rightarrow> perm_tracker" where
  "tracker_deliver i answer mode p =
     (case tracker_take i p of
        (None, p') \<Rightarrow> p'
      | (Some pp, p') \<Rightarrow>
          let d = (if answer = P_allow \<and> pd_profile_hard_deny pp \<and> mode \<noteq> pd_mode_at_send pp \<and> mode \<noteq> ModeYOLO
                   then P_deny else answer) in
          p'\<lparr>pt_sent := pt_sent p' @ [(i, d)]\<rparr>)"

text \<open>\<open>applySetMode\<close> on the live mode: the old and the new one.\<close>

definition applySetMode :: "string \<Rightarrow> string \<Rightarrow> string \<times> string" where
  "applySetMode old_mode asked = (old_mode, case NormalizeMode asked of Some m \<Rightarrow> m | None \<Rightarrow> old_mode)"

end
