(* ===== verification/Approval.thy ===== *)
theory Approval
  imports Utf8 "HOL-Library.Multiset"
begin

text \<open>
  Recorded permission decisions, \<open>internal/approval\<close> (\<open>types.go\<close>, \<open>manager.go\<close>): rules of a
  session live in memory, persistent rules are mirrored to the key-value store.  A Go slice is
  an option, \<open>None\<close> being nil, because \<open>reflect.DeepEqual\<close> tells a nil slice from an empty one;
  a time is the number of nanoseconds since Go's zero time.  The mutex makes every operation
  atomic.  The stored JSON text stands for the value it encodes; what encoding changes is
  \<open>canon_rule\<close>.
\<close>

section \<open>Data\<close>

record scope =
  sc_tool :: string
  sc_program :: string
  sc_prefix :: "string list option"
  sc_fs_op :: string
  sc_paths :: "string list option"
  sc_host :: string
  sc_redirects :: "string list option"
  sc_interpreter :: string
  sc_script_hash :: string

definition TTLOnce :: string where "TTLOnce = ''once''"
definition TTLSession :: string where "TTLSession = ''session''"
definition TTLPersistent :: string where "TTLPersistent = ''persistent''"

record approval_rule =
  ap_id :: string
  ap_action :: string
  ap_scope :: scope
  ap_ttl :: string
  ap_source :: string
  ap_created :: int
  ap_expires :: int
  ap_process :: string

record audit_event =
  ev_kind :: string
  ev_rule :: string
  ev_session :: string
  ev_action :: string
  ev_scope :: scope
  ev_at :: int

text \<open>What the store holds under \<open>security.approvals.v1\<close>.\<close>

datatype kv_value = Kv_absent | Kv_rules "approval_rule list" | Kv_not_json

record manager =
  mn_kv :: "kv_value option"
  mn_process :: string
  mn_persistent :: "approval_rule list"
  mn_sessions :: "string \<Rightarrow> approval_rule list"
  mn_log :: "audit_event list"

datatype approval_error =
    Load_failed | Decode_failed | Not_persistent string
  | Fields_required | Session_required string | Unknown_ttl string
  | Store_unavailable | Persist_failed | Rule_not_found string

section \<open>Encoding\<close>

text \<open>
  \<open>json.Marshal\<close> replaces invalid UTF-8 and, with \<open>omitempty\<close>, leaves empty slices out, so they
  are decoded as nil.
\<close>

definition utf8_text :: "string \<Rightarrow> string" where
  "utf8_text s = concat (runes s)"

definition canon_slice :: "string list option \<Rightarrow> string list option" where
  "canon_slice xs = (case xs of None \<Rightarrow> None | Some ys \<Rightarrow> if ys = [] then None else Some (map utf8_text ys))"

definition canon_scope :: "scope \<Rightarrow> scope" where
  "canon_scope s =
     \<lparr>sc_tool = utf8_text (sc_tool s), sc_program = utf8_text (sc_program s),
      sc_prefix = canon_slice (sc_prefix s), sc_fs_op = utf8_text (sc_fs_op s),
      sc_paths = canon_slice (sc_paths s), sc_host = utf8_text (sc_host s),
      sc_redirects = canon_slice (sc_redirects s), sc_interpreter = utf8_text (sc_interpreter s),
      sc_script_hash = utf8_text (sc_script_hash s)\<rparr>"

definition canon_rule :: "approval_rule \<Rightarrow> approval_rule" where
  "canon_rule r =
     \<lparr>ap_id = utf8_text (ap_id r), ap_action = utf8_text (ap_action r), ap_scope = canon_scope (ap_scope r),
      ap_ttl = utf8_text (ap_ttl r), ap_source = utf8_text (ap_source r), ap_created = ap_created r,
      ap_expires = ap_expires r, ap_process = utf8_text (ap_process r)\<rparr>"

section \<open>Operations\<close>

definition audit :: "string \<Rightarrow> string \<Rightarrow> approval_rule \<Rightarrow> int \<Rightarrow> manager \<Rightarrow> manager" where
  "audit kind sid r now m =
     m\<lparr>mn_log := mn_log m @ [\<lparr>ev_kind = kind, ev_rule = ap_id r, ev_session = sid, ev_action = ap_action r,
                              ev_scope = ap_scope r, ev_at = now\<rparr>]\<rparr>"

text \<open>\<open>New\<close>; \<open>load_fails\<close> is an error of \<open>KVGet\<close>.\<close>

definition New :: "kv_value option \<Rightarrow> bool \<Rightarrow> string \<Rightarrow> approval_error + manager" where
  "New kv load_fails process =
     (let m = \<lparr>mn_kv = kv, mn_process = process, mn_persistent = [], mn_sessions = (\<lambda>_. []), mn_log = []\<rparr> in
      case kv of
        None \<Rightarrow> Inr m
      | Some v \<Rightarrow>
          if load_fails then Inl Load_failed
          else (case v of
                  Kv_absent \<Rightarrow> Inr m
                | Kv_not_json \<Rightarrow> Inl Decode_failed
                | Kv_rules rs \<Rightarrow>
                    (case find (\<lambda>r. ap_ttl r \<noteq> TTLPersistent) rs of
                       Some r \<Rightarrow> Inl (Not_persistent (ap_id r))
                     | None \<Rightarrow> Inr (m\<lparr>mn_persistent := rs\<rparr>))))"

definition expired :: "int \<Rightarrow> approval_rule \<Rightarrow> bool" where
  "expired now r \<longleftrightarrow> ap_expires r \<noteq> 0 \<and> ap_expires r \<le> now"

definition expireLocked :: "string \<Rightarrow> int \<Rightarrow> manager \<Rightarrow> manager" where
  "expireLocked sid now m =
     (let rules = mn_sessions m sid;
          m' = foldl (\<lambda>m r. audit ''expire'' sid r now m) m (filter (expired now) rules) in
      m'\<lparr>mn_sessions := (mn_sessions m')(sid := filter (\<lambda>r. \<not> expired now r) rules)\<rparr>)"

definition set_session :: "string \<Rightarrow> approval_rule list \<Rightarrow> manager \<Rightarrow> manager" where
  "set_session sid rules m = m\<lparr>mn_sessions := (mn_sessions m)(sid := rules)\<rparr>"

text \<open>The index of the first rule for which a condition holds, as the loops over a slice find it.\<close>

fun find_index :: "('a \<Rightarrow> bool) \<Rightarrow> 'a list \<Rightarrow> nat option" where
  "find_index P [] = None"
| "find_index P (x # xs) = (if P x then Some 0 else map_option Suc (find_index P xs))"

definition drop_at :: "nat \<Rightarrow> 'a list \<Rightarrow> 'a list" where
  "drop_at i xs = take i xs @ drop (Suc i) xs"

definition empty_rule :: "scope \<Rightarrow> approval_rule" where
  "empty_rule s = \<lparr>ap_id = [], ap_action = [], ap_scope = s, ap_ttl = [], ap_source = [],
                   ap_created = 0, ap_expires = 0, ap_process = []\<rparr>"

definition Match :: "string \<Rightarrow> scope \<Rightarrow> int \<Rightarrow> manager \<Rightarrow> approval_rule option \<times> manager" where
  "Match sid sc now m0 =
     (let m = expireLocked sid now m0; rules = mn_sessions m sid in
      case find_index (\<lambda>r. ap_scope r = sc) rules of
        Some i \<Rightarrow>
          let r = rules ! i; m1 = audit ''hit'' sid r now m in
          (Some r, if ap_ttl r = TTLOnce then audit ''consume'' sid r now (set_session sid (drop_at i rules) m1)
                   else m1)
      | None \<Rightarrow>
          (case find (\<lambda>r. ap_scope r = sc) (mn_persistent m) of
             Some r \<Rightarrow> (Some r, audit ''hit'' sid r now m)
           | None \<Rightarrow> (None, audit ''miss'' sid (empty_rule sc) now m)))"

text \<open>\<open>persistLocked\<close>; \<open>set_fails\<close> is an error of \<open>KVSet\<close>.\<close>

definition persistLocked :: "bool \<Rightarrow> approval_rule list \<Rightarrow> manager \<Rightarrow> approval_error + manager" where
  "persistLocked set_fails rules m =
     (case mn_kv m of
        None \<Rightarrow> Inl Store_unavailable
      | Some _ \<Rightarrow>
          if set_fails then Inl Persist_failed
          else Inr (m\<lparr>mn_kv := Some (Kv_rules (map canon_rule rules))\<rparr>))"

definition stamp :: "int \<Rightarrow> approval_rule \<Rightarrow> approval_rule" where
  "stamp now r = (if ap_created r = 0 then r\<lparr>ap_created := now\<rparr> else r)"

definition Record :: "string \<Rightarrow> approval_rule \<Rightarrow> int \<Rightarrow> bool \<Rightarrow> manager \<Rightarrow> (approval_error + unit) \<times> manager" where
  "Record sid rule now set_fails m =
     (if ap_id rule = [] \<or> ap_action rule = [] \<or> sc_tool (ap_scope rule) = [] then (Inl Fields_required, m)
      else let r = stamp now rule in
        if ap_ttl r = TTLOnce \<or> ap_ttl r = TTLSession then
          (if sid = [] then (Inl (Session_required (ap_ttl r)), m)
           else (Inr (), set_session sid (mn_sessions m sid @ [r\<lparr>ap_process := mn_process m\<rparr>]) m))
        else if ap_ttl r = TTLPersistent then
          (let rules = mn_persistent m @ [r] in
           case persistLocked set_fails rules m of
             Inl e \<Rightarrow> (Inl e, m)
           | Inr m' \<Rightarrow> (Inr (), m'\<lparr>mn_persistent := rules\<rparr>))
        else (Inl (Unknown_ttl (ap_ttl r)), m))"

text \<open>\<open>List\<close>; \<open>sort.Slice\<close> promises no order among rules created at the same time.\<close>

definition List :: "string \<Rightarrow> int \<Rightarrow> manager \<Rightarrow> approval_rule list \<times> manager" where
  "List sid now m0 =
     (let m = expireLocked sid now m0 in (sort_key ap_created (mn_sessions m sid @ mn_persistent m), m))"

definition Revoke :: "string \<Rightarrow> string \<Rightarrow> int \<Rightarrow> bool \<Rightarrow> manager \<Rightarrow> (approval_error + unit) \<times> manager" where
  "Revoke sid rid now set_fails m =
     (let rules = mn_sessions m sid in
      case find_index (\<lambda>r. ap_id r = rid) rules of
        Some i \<Rightarrow> (Inr (), audit ''revoke'' sid (rules ! i) now (set_session sid (drop_at i rules) m))
      | None \<Rightarrow>
          (case find_index (\<lambda>r. ap_id r = rid) (mn_persistent m) of
             None \<Rightarrow> (Inl (Rule_not_found rid), m)
           | Some i \<Rightarrow>
               (let r = mn_persistent m ! i; kept = drop_at i (mn_persistent m) in
                case persistLocked set_fails kept m of
                  Inl e \<Rightarrow> (Inl e, m)
                | Inr m' \<Rightarrow> (Inr (), audit ''revoke'' sid r now (m'\<lparr>mn_persistent := kept\<rparr>)))))"

section \<open>The audit bus\<close>

text \<open>A subscriber is the number of its channel; the value is what its buffer holds.\<close>

record audit_bus =
  ab_next :: nat
  ab_subscribers :: "nat \<rightharpoonup> audit_event list"

definition channel_capacity :: nat where "channel_capacity = 64"

definition NewAuditBus :: audit_bus where
  "NewAuditBus = \<lparr>ab_next = 0, ab_subscribers = Map.empty\<rparr>"

definition offer :: "audit_event \<Rightarrow> audit_event list \<Rightarrow> audit_event list" where
  "offer e q = (if length q < channel_capacity then q @ [e] else q)"

definition Publish :: "audit_event \<Rightarrow> audit_bus \<Rightarrow> audit_bus" where
  "Publish e b = b\<lparr>ab_subscribers := map_option (offer e) \<circ> ab_subscribers b\<rparr>"

definition Subscribe :: "audit_bus \<Rightarrow> nat \<times> audit_bus" where
  "Subscribe b = (ab_next b, b\<lparr>ab_next := Suc (ab_next b), ab_subscribers := (ab_subscribers b)(ab_next b \<mapsto> [])\<rparr>)"

definition Unsubscribe :: "nat \<Rightarrow> audit_bus \<Rightarrow> audit_bus" where
  "Unsubscribe ch b = b\<lparr>ab_subscribers := (ab_subscribers b)(ch := None)\<rparr>"

end
