(* ===== verification/ApprovalProps.thy ===== *)
theory ApprovalProps
  imports Approval
begin

text \<open>
  The approval manager over histories of operations: what it admits was granted before, a
  one-shot grant admits one call, the store mirrors the persistent rules, and a failure to
  persist changes nothing.
\<close>

section \<open>What the operations do to the rules\<close>

lemma audit_simps [simp]:
  "mn_sessions (audit k s r t m) = mn_sessions m" "mn_persistent (audit k s r t m) = mn_persistent m"
  "mn_kv (audit k s r t m) = mn_kv m" "mn_process (audit k s r t m) = mn_process m"
  by (simp_all add: audit_def)

lemma audit_fold [simp]:
  "mn_sessions (foldl (\<lambda>m r. audit k s r t m) m rs) = mn_sessions m"
  "mn_persistent (foldl (\<lambda>m r. audit k s r t m) m rs) = mn_persistent m"
  "mn_kv (foldl (\<lambda>m r. audit k s r t m) m rs) = mn_kv m"
  by (induction rs arbitrary: m) simp_all

lemma expire_simps [simp]:
  "mn_sessions (expireLocked sid now m) =
     (mn_sessions m)(sid := filter (\<lambda>r. \<not> expired now r) (mn_sessions m sid))"
  "mn_persistent (expireLocked sid now m) = mn_persistent m"
  "mn_kv (expireLocked sid now m) = mn_kv m"
  by (simp_all add: expireLocked_def Let_def)

lemma set_session_simps [simp]:
  "mn_sessions (set_session sid rs m) = (mn_sessions m)(sid := rs)"
  "mn_persistent (set_session sid rs m) = mn_persistent m" "mn_kv (set_session sid rs m) = mn_kv m"
  "mn_process (set_session sid rs m) = mn_process m"
  by (simp_all add: set_session_def)

lemma find_index_SomeD: "find_index P xs = Some i \<Longrightarrow> i < length xs \<and> P (xs ! i)"
  by (induction xs arbitrary: i) (auto split: if_splits)

lemma find_index_None: "find_index P xs = None \<longleftrightarrow> (\<forall>x \<in> set xs. \<not> P x)"
  by (induction xs) auto

lemma mset_drop_at: "i < length xs \<Longrightarrow> mset xs = add_mset (xs ! i) (mset (drop_at i xs))"
  by (metis add_mset_add_single drop_at_def id_take_nth_drop mset.simps(2) mset_append union_mset_add_mset_right)

lemma set_drop_at: "set (drop_at i xs) \<subseteq> set xs"
  by (auto simp: drop_at_def dest: in_set_takeD in_set_dropD)

section \<open>Looking a scope up\<close>

text \<open>The rules a lookup may use: the session's unexpired ones and the persistent ones.\<close>

definition live_rules :: "string \<Rightarrow> int \<Rightarrow> manager \<Rightarrow> approval_rule list" where
  "live_rules sid now m = filter (\<lambda>r. \<not> expired now r) (mn_sessions m sid) @ mn_persistent m"

abbreviation unexpired :: "string \<Rightarrow> int \<Rightarrow> manager \<Rightarrow> approval_rule list" where
  "unexpired sid now m \<equiv> filter (\<lambda>r. \<not> expired now r) (mn_sessions m sid)"

lemma Match_result:
  obtains (session) i where "i < length (unexpired sid now m)" "ap_scope (unexpired sid now m ! i) = sc"
      "fst (Match sid sc now m) = Some (unexpired sid now m ! i)"
      "mn_sessions (snd (Match sid sc now m)) =
         (mn_sessions m)(sid := if ap_ttl (unexpired sid now m ! i) = TTLOnce
                               then drop_at i (unexpired sid now m) else unexpired sid now m)"
  | (persistent) r where "\<forall>q \<in> set (unexpired sid now m). ap_scope q \<noteq> sc"
      "r \<in> set (mn_persistent m)" "ap_scope r = sc" "fst (Match sid sc now m) = Some r"
      "mn_sessions (snd (Match sid sc now m)) = (mn_sessions m)(sid := unexpired sid now m)"
  | (missing) "\<forall>q \<in> set (live_rules sid now m). ap_scope q \<noteq> sc" "fst (Match sid sc now m) = None"
      "mn_sessions (snd (Match sid sc now m)) = (mn_sessions m)(sid := unexpired sid now m)"
proof (cases "find_index (\<lambda>r. ap_scope r = sc) (unexpired sid now m)")
  case (Some i)
  with find_index_SomeD [OF Some] show thesis
    by (intro session [of i]) (simp_all add: Match_def Let_def)
next
  case None
  show thesis
  proof (cases "find (\<lambda>r. ap_scope r = sc) (mn_persistent m)")
    case (Some r)
    moreover have "\<forall>q \<in> set (unexpired sid now m). ap_scope q \<noteq> sc"
      using None by (simp add: find_index_None)
    ultimately show thesis
      using None find_SomeD [OF Some] by (intro persistent [of r]) (simp_all add: Match_def Let_def)
  next
    case missing_persistent: None
    have "\<forall>q \<in> set (live_rules sid now m). ap_scope q \<noteq> sc"
      using None missing_persistent by (auto simp: find_index_None find_None_iff live_rules_def)
    with None missing_persistent show thesis
      by (intro missing) (simp_all add: Match_def Let_def)
  qed
qed

lemma Match_hit:
  "fst (Match sid sc now m) = Some r \<Longrightarrow> r \<in> set (live_rules sid now m) \<and> ap_scope r = sc"
proof (cases rule: Match_result [of now m sid sc])
  case (session i)
  then have "unexpired sid now m ! i \<in> set (unexpired sid now m)" using nth_mem by blast
  moreover assume "fst (Match sid sc now m) = Some r"
  ultimately show ?thesis using session by (simp add: live_rules_def)
qed (auto simp: live_rules_def)

lemma Match_miss: "fst (Match sid sc now m) = None \<longleftrightarrow> (\<forall>r \<in> set (live_rules sid now m). ap_scope r \<noteq> sc)"
proof (cases rule: Match_result [of now m sid sc])
  case (session i)
  then have "unexpired sid now m ! i \<in> set (unexpired sid now m)" using nth_mem by blast
  with session show ?thesis unfolding live_rules_def by (metis Un_iff option.distinct(1) set_append)
qed (auto simp: live_rules_def)

lemma Match_frame:
  "mn_persistent (snd (Match sid sc now m)) = mn_persistent m" "mn_kv (snd (Match sid sc now m)) = mn_kv m"
  by (auto simp: Match_def Let_def split: option.split)

text \<open>The rules of the sessions that a lookup leaves.\<close>

lemma Match_sessions:
  "mset (mn_sessions (snd (Match sid sc now m)) s) \<subseteq># mset (mn_sessions m s)"
  "fst (Match sid sc now m) = Some r \<Longrightarrow> ap_ttl r = TTLOnce \<Longrightarrow> r \<notin> set (mn_persistent m) \<Longrightarrow>
     add_mset r (mset (mn_sessions (snd (Match sid sc now m)) sid)) \<subseteq># mset (mn_sessions m sid)"
proof -
  have sub: "mset (unexpired sid now m) \<subseteq># mset (mn_sessions m sid)" by (simp add: mset_filter)
  have "mset (mn_sessions (snd (Match sid sc now m)) s) \<subseteq># mset (mn_sessions m s) \<and>
    (fst (Match sid sc now m) = Some r \<longrightarrow> ap_ttl r = TTLOnce \<longrightarrow> r \<notin> set (mn_persistent m) \<longrightarrow>
     add_mset r (mset (mn_sessions (snd (Match sid sc now m)) sid)) \<subseteq># mset (mn_sessions m sid))"
  proof (cases rule: Match_result [of now m sid sc])
    case (session i)
    have d: "mset (unexpired sid now m) =
        add_mset (unexpired sid now m ! i) (mset (drop_at i (unexpired sid now m)))"
      by (rule mset_drop_at) (rule session(1))
    have "mset (drop_at i (unexpired sid now m)) \<subseteq>#
        add_mset (unexpired sid now m ! i) (mset (drop_at i (unexpired sid now m)))" by simp
    then have d': "mset (drop_at i (unexpired sid now m)) \<subseteq># mset (mn_sessions m sid)"
      unfolding d [symmetric] using sub by (rule subset_mset.order_trans)
    have u: "add_mset (unexpired sid now m ! i) (mset (drop_at i (unexpired sid now m))) \<subseteq># mset (mn_sessions m sid)"
      unfolding d [symmetric] by (rule sub)
    show ?thesis
    proof (cases "ap_ttl (unexpired sid now m ! i) = TTLOnce")
      case True
      with session(3,4) d' u show ?thesis by auto
    next
      case False
      with session(3,4) sub show ?thesis by auto
    qed
  qed (use sub in auto)
  then show "mset (mn_sessions (snd (Match sid sc now m)) s) \<subseteq># mset (mn_sessions m s)"
    "fst (Match sid sc now m) = Some r \<Longrightarrow> ap_ttl r = TTLOnce \<Longrightarrow> r \<notin> set (mn_persistent m) \<Longrightarrow>
     add_mset r (mset (mn_sessions (snd (Match sid sc now m)) sid)) \<subseteq># mset (mn_sessions m sid)"
    by blast+
qed

section \<open>Histories\<close>

text \<open>What an operation did: a rule was recorded, a scope was admitted by a rule, or neither.\<close>

datatype approval_label =
    Recorded string approval_rule
  | Admitted string scope approval_rule
  | Quiet

inductive approval_step :: "manager \<Rightarrow> approval_label \<Rightarrow> manager \<Rightarrow> bool" where
  Step_record: "Record sid r now fails m = (Inr (), m') \<Longrightarrow> approval_step m (Recorded sid r) m'"
| Step_record_fails: "Record sid r now fails m = (Inl e, m') \<Longrightarrow> approval_step m Quiet m'"
| Step_admit: "Match sid sc now m = (Some r, m') \<Longrightarrow> approval_step m (Admitted sid sc r) m'"
| Step_miss: "Match sid sc now m = (None, m') \<Longrightarrow> approval_step m Quiet m'"
| Step_list: "List sid now m = (rs, m') \<Longrightarrow> approval_step m Quiet m'"
| Step_revoke: "Revoke sid rid now fails m = (res, m') \<Longrightarrow> approval_step m Quiet m'"

inductive_simps recorded_step: "approval_step m (Recorded sid r) m'"
inductive_simps admitted_step: "approval_step m (Admitted sid sc r) m'"

inductive approval_run :: "manager \<Rightarrow> approval_label list \<Rightarrow> manager \<Rightarrow> bool" where
  Run_nil: "approval_run m [] m"
| Run_snoc: "approval_run m ls m' \<Longrightarrow> approval_step m' l m'' \<Longrightarrow> approval_run m (ls @ [l]) m''"

text \<open>The three kinds of change of the rules.\<close>

lemma Record_ok:
  "Record sid r now fails m = (Inr (), m') \<longleftrightarrow>
     ap_id r \<noteq> [] \<and> ap_action r \<noteq> [] \<and> sc_tool (ap_scope r) \<noteq> [] \<and>
     ((ap_ttl r = TTLOnce \<or> ap_ttl r = TTLSession) \<and> sid \<noteq> [] \<and>
        m' = set_session sid (mn_sessions m sid @ [stamp now r\<lparr>ap_process := mn_process m\<rparr>]) m \<or>
      ap_ttl r = TTLPersistent \<and> \<not> fails \<and> mn_kv m \<noteq> None \<and>
        m' = m\<lparr>mn_kv := Some (Kv_rules (map canon_rule (mn_persistent m @ [stamp now r]))),
               mn_persistent := mn_persistent m @ [stamp now r]\<rparr>)"
proof -
  have "TTLPersistent \<noteq> TTLOnce" "TTLPersistent \<noteq> TTLSession"
    by (simp_all add: TTLOnce_def TTLSession_def TTLPersistent_def)
  moreover have "ap_ttl (stamp now r) = ap_ttl r" by (simp add: stamp_def)
  ultimately show ?thesis
    by (auto simp: Record_def persistLocked_def Let_def split: option.splits)
qed

lemma Record_fails: "Record sid r now fails m = (Inl e, m') \<Longrightarrow> m' = m"
  by (auto simp: Record_def Let_def split: if_splits sum.splits)

lemma stamp_simps [simp]:
  "ap_ttl (stamp now r) = ap_ttl r" "ap_scope (stamp now r) = ap_scope r" "ap_expires (stamp now r) = ap_expires r"
  by (simp_all add: stamp_def)

lemma Revoke_rules:
  assumes "Revoke sid rid now fails m = (res, m')"
  shows "\<forall>s. mset (mn_sessions m' s) \<subseteq># mset (mn_sessions m s)"
    "set (mn_persistent m') \<subseteq> set (mn_persistent m)"
proof -
  have sub: "i < length xs \<Longrightarrow> mset (drop_at i xs) \<subseteq># mset xs" for i and xs :: "approval_rule list"
    using mset_drop_at [of i xs] by simp
  show "\<forall>s. mset (mn_sessions m' s) \<subseteq># mset (mn_sessions m s)"
    "set (mn_persistent m') \<subseteq> set (mn_persistent m)"
    using assms
    by (auto simp: Revoke_def Let_def persistLocked_def split: option.splits sum.splits if_splits
        dest!: find_index_SomeD intro: sub dest: set_drop_at [THEN subsetD])
qed

lemma quiet_step_shrinks:
  assumes "approval_step m Quiet m'"
  shows "\<forall>s. mset (mn_sessions m' s) \<subseteq># mset (mn_sessions m s)"
    "set (mn_persistent m') \<subseteq> set (mn_persistent m)"
proof -
  have "(\<forall>s. mset (mn_sessions m' s) \<subseteq># mset (mn_sessions m s)) \<and> set (mn_persistent m') \<subseteq> set (mn_persistent m)"
    using assms
  proof (cases rule: approval_step.cases)
    case Step_record_fails
    then show ?thesis by (auto dest: Record_fails)
  next
    case (Step_miss sid sc now)
    then have "m' = snd (Match sid sc now m)" by simp
    then show ?thesis using Match_sessions(1) Match_frame(1) by simp
  next
    case Step_list
    then show ?thesis by (auto simp: List_def Let_def mset_filter)
  next
    case Step_revoke
    then show ?thesis using Revoke_rules by blast
  qed
  then show "\<forall>s. mset (mn_sessions m' s) \<subseteq># mset (mn_sessions m s)"
    "set (mn_persistent m') \<subseteq> set (mn_persistent m)" by blast+
qed

section \<open>Properties\<close>

lemma run_induct_prefix:
  "approval_run m ls m' \<Longrightarrow> ls = ls1 @ l # ls2 \<Longrightarrow>
   \<exists>k k'. approval_run m ls1 k \<and> approval_step k l k'"
proof (induction arbitrary: ls2 rule: approval_run.induct)
  case (Run_snoc m ls m' l' m'')
  show ?case
  proof (cases ls2 rule: rev_cases)
    case Nil
    with Run_snoc show ?thesis by auto
  next
    case (snoc ys y)
    with Run_snoc.prems have "ls = ls1 @ l # ys" by simp
    with Run_snoc.IH show ?thesis by blast
  qed
qed simp

definition granted_in :: "approval_label list \<Rightarrow> manager \<Rightarrow> string \<Rightarrow> approval_rule \<Rightarrow> bool" where
  "granted_in ls m0 sid r \<longleftrightarrow>
     (\<exists>q. Recorded sid q \<in> set ls \<and> ap_ttl q \<noteq> TTLPersistent \<and> ap_scope q = ap_scope r \<and> ap_expires q = ap_expires r) \<or>
     (\<exists>s q. Recorded s q \<in> set ls \<and> ap_ttl q = TTLPersistent \<and> ap_scope q = ap_scope r) \<or>
     r \<in> set (mn_persistent m0)"

definition backed :: "approval_label list \<Rightarrow> manager \<Rightarrow> manager \<Rightarrow> bool" where
  "backed ls m0 m \<longleftrightarrow>
     (\<forall>sid. \<forall>r \<in> set (mn_sessions m sid). \<exists>q. Recorded sid q \<in> set ls \<and> ap_ttl q \<noteq> TTLPersistent \<and>
        ap_scope q = ap_scope r \<and> ap_expires q = ap_expires r) \<and>
     (\<forall>r \<in> set (mn_persistent m). (\<exists>s q. Recorded s q \<in> set ls \<and> ap_ttl q = TTLPersistent \<and> ap_scope q = ap_scope r) \<or>
        r \<in> set (mn_persistent m0))"

lemma set_mono_mset: "mset xs \<subseteq># mset ys \<Longrightarrow> set xs \<subseteq> set ys"
  using set_mset_mono by fastforce

lemma backed_shrinks:
  assumes "backed ls m0 m" "\<forall>s. mset (mn_sessions m' s) \<subseteq># mset (mn_sessions m s)"
    "set (mn_persistent m') \<subseteq> set (mn_persistent m)"
  shows "backed (ls @ [l]) m0 m'"
proof -
  have "set (mn_sessions m' s) \<subseteq> set (mn_sessions m s)" for s
    using assms(2) set_mono_mset by blast
  with assms(1,3) show ?thesis unfolding backed_def set_append by blast
qed

lemma Match_shrinks:
  assumes "Match sid sc now m = (res, m')"
  shows "\<forall>s. mset (mn_sessions m' s) \<subseteq># mset (mn_sessions m s)" "set (mn_persistent m') \<subseteq> set (mn_persistent m)"
  using Match_sessions(1) [of sid sc now m] Match_frame(1) [of sid sc now m] assms by auto

lemma backed_record:
  assumes "backed ls m0 m" "Record sid r now fails m = (Inr (), m')"
  shows "backed (ls @ [Recorded sid r]) m0 m'"
proof -
  have ne: "TTLPersistent \<noteq> TTLOnce" "TTLPersistent \<noteq> TTLSession"
    by (simp_all add: TTLOnce_def TTLSession_def TTLPersistent_def)
  from assms(2) consider
      "ap_ttl r \<noteq> TTLPersistent"
        "m' = set_session sid (mn_sessions m sid @ [stamp now r\<lparr>ap_process := mn_process m\<rparr>]) m"
    | "ap_ttl r = TTLPersistent" "mn_sessions m' = mn_sessions m" "mn_persistent m' = mn_persistent m @ [stamp now r]"
    using ne by (auto simp: Record_ok)
  then show ?thesis
  proof cases
    case 1
    with assms(1) show ?thesis unfolding backed_def by (auto split: if_splits) blast+
  next
    case 2
    with assms(1) show ?thesis unfolding backed_def by auto blast+
  qed
qed

lemma run_backed:
  assumes "approval_run m0 ls m" "\<forall>s. mn_sessions m0 s = []"
  shows "backed ls m0 m"
  using assms
proof (induction rule: approval_run.induct)
  case (Run_nil m)
  then show ?case by (simp add: backed_def)
next
  case (Run_snoc m ls m' l m'')
  then have b: "backed ls m m'" by blast
  show ?case
  proof (cases l)
    case (Recorded sid r)
    with Run_snoc(2) b backed_record show ?thesis by (auto simp: recorded_step)
  next
    case (Admitted sid sc r)
    with Run_snoc(2) Match_shrinks backed_shrinks [OF b] show ?thesis by (fastforce simp: admitted_step)
  next
    case Quiet
    with Run_snoc(2) quiet_step_shrinks backed_shrinks [OF b] show ?thesis by blast
  qed
qed

text \<open>
  C14: In every history that starts with no session rule, a scope that is admitted was granted
  before: by a rule with that scope recorded for the session, by a persistent rule with that
  scope recorded in any session, or by a rule loaded from the store.
\<close>

theorem admitted_was_granted:
  assumes run: "approval_run m0 ls m" and start: "\<forall>s. mn_sessions m0 s = []"
    and adm: "ls = ls1 @ Admitted sid sc r # ls2"
  shows "ap_scope r = sc \<and> granted_in ls1 m0 sid r"
proof -
  obtain k k' where k: "approval_run m0 ls1 k" "approval_step k (Admitted sid sc r) k'"
    using run_induct_prefix [OF run adm] by blast
  then obtain now where "Match sid sc now k = (Some r, k')" by (auto simp: admitted_step)
  then have "r \<in> set (live_rules sid now k)" "ap_scope r = sc"
    using Match_hit [of sid sc now k r] by simp_all
  moreover have "backed ls1 m0 k" using run_backed [OF k(1) start] .
  ultimately show ?thesis by (auto simp: live_rules_def backed_def granted_in_def)
qed

definition once_grants :: "string \<Rightarrow> scope \<Rightarrow> approval_label list \<Rightarrow> nat" where
  "once_grants sid sc ls =
     length (filter (\<lambda>l. case l of Recorded s r \<Rightarrow> s = sid \<and> ap_ttl r = TTLOnce \<and> ap_scope r = sc | _ \<Rightarrow> False) ls)"

definition once_admits :: "string \<Rightarrow> scope \<Rightarrow> approval_label list \<Rightarrow> nat" where
  "once_admits sid sc ls =
     length (filter (\<lambda>l. case l of Admitted s c r \<Rightarrow> s = sid \<and> c = sc \<and> ap_ttl r = TTLOnce | _ \<Rightarrow> False) ls)"

definition once_left :: "string \<Rightarrow> scope \<Rightarrow> manager \<Rightarrow> nat" where
  "once_left sid sc m = size (filter_mset (\<lambda>r. ap_ttl r = TTLOnce \<and> ap_scope r = sc) (mset (mn_sessions m sid)))"

lemma once_left_mono:
  "mset (mn_sessions m' sid) \<subseteq># mset (mn_sessions m sid) \<Longrightarrow> once_left sid sc m' \<le> once_left sid sc m"
  unfolding once_left_def by (intro size_mset_mono multiset_filter_mono)

lemma counts_snoc [simp]:
  "once_grants sid sc (ls @ [Recorded s r]) =
     once_grants sid sc ls + (if s = sid \<and> ap_ttl r = TTLOnce \<and> ap_scope r = sc then 1 else 0)"
  "once_grants sid sc (ls @ [Admitted s c r]) = once_grants sid sc ls"
  "once_grants sid sc (ls @ [Quiet]) = once_grants sid sc ls"
  "once_admits sid sc (ls @ [Recorded s r]) = once_admits sid sc ls"
  "once_admits sid sc (ls @ [Quiet]) = once_admits sid sc ls"
  "once_admits sid sc (ls @ [Admitted s c r]) =
     once_admits sid sc ls + (if s = sid \<and> c = sc \<and> ap_ttl r = TTLOnce then 1 else 0)"
  by (simp_all add: once_grants_def once_admits_def)

definition no_persistent_once :: "manager \<Rightarrow> bool" where
  "no_persistent_once m \<longleftrightarrow> (\<forall>r \<in> set (mn_persistent m). ap_ttl r = TTLPersistent)"

lemma step_keeps_persistent_ttl:
  assumes "no_persistent_once m" "approval_step m l m'"
  shows "no_persistent_once m'"
  using assms(2)
proof (cases rule: approval_step.cases)
  case (Step_record sid r now fails)
  with assms(1) show ?thesis by (auto simp: Record_ok no_persistent_once_def)
next
  case (Step_admit sid sc now r)
  with assms(1) Match_shrinks(2) show ?thesis unfolding no_persistent_once_def by blast
qed (use assms in \<open>auto dest!: Record_fails quiet_step_shrinks(2) [OF Step_miss] quiet_step_shrinks(2) [OF Step_list]
       quiet_step_shrinks(2) [OF Step_revoke] simp: no_persistent_once_def\<close>)

lemma once_balance:
  assumes "approval_run m0 ls m" "\<forall>s. mn_sessions m0 s = []" "no_persistent_once m0"
  shows "no_persistent_once m \<and> once_admits sid sc ls + once_left sid sc m \<le> once_grants sid sc ls"
  using assms
proof (induction rule: approval_run.induct)
  case (Run_nil m)
  then show ?case by (simp add: once_left_def once_admits_def)
next
  case (Run_snoc m ls m' l m'')
  then have ih: "no_persistent_once m'" "once_admits sid sc ls + once_left sid sc m' \<le> once_grants sid sc ls"
    by blast+
  have keep: "no_persistent_once m''" using step_keeps_persistent_ttl ih(1) Run_snoc(2) by blast
  show ?case
  proof (cases l)
    case (Recorded s r)
    with Run_snoc(2) obtain now fails where "Record s r now fails m' = (Inr (), m'')"
      by (auto simp: recorded_step)
    then have "once_left sid sc m'' \<le> once_left sid sc m' +
        (if s = sid \<and> ap_ttl r = TTLOnce \<and> ap_scope r = sc then 1 else 0)"
      by (auto simp: Record_ok once_left_def TTLOnce_def TTLSession_def)
    with ih keep Recorded show ?thesis by (auto split: if_splits)
  next
    case (Admitted s c r)
    with Run_snoc(2) obtain now where mt: "Match s c now m' = (Some r, m'')" by (auto simp: admitted_step)
    then have c: "ap_scope r = c" using Match_hit [of s c now m' r] by simp
    have mono: "once_left sid sc m'' \<le> once_left sid sc m'"
      using once_left_mono Match_shrinks(1) [OF mt] by blast
    show ?thesis
    proof (cases "s = sid \<and> c = sc \<and> ap_ttl r = TTLOnce")
      case True
      then have "r \<notin> set (mn_persistent m')"
        using ih(1) by (auto simp: no_persistent_once_def TTLOnce_def TTLPersistent_def)
      then have "add_mset r (mset (mn_sessions m'' sid)) \<subseteq># mset (mn_sessions m' sid)"
        using Match_sessions(2) [of s c now m' r] mt True by simp
      then have "filter_mset (\<lambda>r. ap_ttl r = TTLOnce \<and> ap_scope r = sc) (add_mset r (mset (mn_sessions m'' sid)))
          \<subseteq># filter_mset (\<lambda>r. ap_ttl r = TTLOnce \<and> ap_scope r = sc) (mset (mn_sessions m' sid))"
        by (rule multiset_filter_mono)
      then have "Suc (once_left sid sc m'') \<le> once_left sid sc m'"
        using True c size_mset_mono unfolding once_left_def by fastforce
      with ih keep Admitted True show ?thesis by simp
    next
      case False
      with ih keep Admitted mono show ?thesis by auto
    qed
  next
    case Quiet
    then have "once_left sid sc m'' \<le> once_left sid sc m'"
      using once_left_mono quiet_step_shrinks(1) Run_snoc(2) by blast
    with ih keep Quiet show ?thesis by simp
  qed
qed

text \<open>
  C15: In every history, the calls a session's one-shot rules admit for a scope are no more than the
  one-shot grants recorded for it.
\<close>

theorem once_admits_once:
  assumes "approval_run m0 ls m" "\<forall>s. mn_sessions m0 s = []" "\<forall>r \<in> set (mn_persistent m0). ap_ttl r = TTLPersistent"
  shows "once_admits sid sc ls \<le> once_grants sid sc ls"
  using once_balance [of m0 ls m sid sc] assms by (simp add: no_persistent_once_def)

section \<open>The store\<close>

text \<open>An operation that fails leaves every rule and the store as they were.\<close>

theorem failed_update_changes_nothing:
  "(fst (Record sid r now fails m) = Inl e \<longrightarrow> snd (Record sid r now fails m) = m) \<and>
   (fst (Revoke sid rid now fails m) = Inl e \<longrightarrow> snd (Revoke sid rid now fails m) = m)"
  by (auto simp: Record_def Revoke_def Let_def split: if_splits sum.splits option.splits)

definition mirrored :: "manager \<Rightarrow> bool" where
  "mirrored m \<longleftrightarrow>
     (case mn_kv m of
        Some (Kv_rules rs) \<Rightarrow> rs = map canon_rule (mn_persistent m)
      | Some Kv_absent \<Rightarrow> mn_persistent m = []
      | _ \<Rightarrow> False)"

lemma mirrored_same: "mn_kv m' = mn_kv m \<Longrightarrow> mn_persistent m' = mn_persistent m \<Longrightarrow> mirrored m \<Longrightarrow> mirrored m'"
  by (simp add: mirrored_def split: option.splits kv_value.splits)

lemma step_keeps_mirror:
  assumes "mirrored m" "approval_step m l m'"
  shows "mirrored m'"
  using assms(2)
proof (cases rule: approval_step.cases)
  case (Step_record sid r now fails)
  then consider "mn_kv m' = mn_kv m" "mn_persistent m' = mn_persistent m" 
    | "mn_kv m' = Some (Kv_rules (map canon_rule (mn_persistent m')))"
    by (auto simp: Record_ok)
  then show ?thesis using mirrored_same [OF _ _ assms(1)] by cases (auto simp: mirrored_def)
next
  case (Step_record_fails sid r now fails e)
  then show ?thesis using assms(1) Record_fails by blast
next
  case (Step_admit sid sc now r)
  then show ?thesis using mirrored_same [OF _ _ assms(1)] Match_frame [of sid sc now m] by simp
next
  case (Step_miss sid sc now)
  then show ?thesis using mirrored_same [OF _ _ assms(1)] Match_frame [of sid sc now m] by simp
next
  case (Step_list sid now rs)
  then show ?thesis using mirrored_same [OF _ _ assms(1)] by (auto simp: List_def Let_def)
next
  case (Step_revoke sid rid now fails res)
  then consider "mn_kv m' = mn_kv m" "mn_persistent m' = mn_persistent m"
    | "mn_kv m' = Some (Kv_rules (map canon_rule (mn_persistent m')))"
    by (auto simp: Revoke_def Let_def persistLocked_def split: option.splits sum.splits if_splits)
  then show ?thesis using mirrored_same [OF _ _ assms(1)] by cases (auto simp: mirrored_def)
qed

lemma run_keeps:
  "approval_run m ls m' \<Longrightarrow> mirrored m \<Longrightarrow> no_persistent_once m \<Longrightarrow> mirrored m' \<and> no_persistent_once m'"
  by (induction rule: approval_run.induct) (auto intro: step_keeps_mirror step_keeps_persistent_ttl)

lemma canon_ttl: "ap_ttl r = TTLPersistent \<Longrightarrow> ap_ttl (canon_rule r) = TTLPersistent"
proof -
  have "utf8_text TTLPersistent = TTLPersistent" by code_simp
  then show "ap_ttl r = TTLPersistent \<Longrightarrow> ap_ttl (canon_rule r) = TTLPersistent" by (simp add: canon_rule_def)
qed

lemma New_persistent:
  assumes "\<forall>r \<in> set rs. ap_ttl r = TTLPersistent"
  shows "New (Some (Kv_rules rs)) False p =
     Inr \<lparr>mn_kv = Some (Kv_rules rs), mn_process = p, mn_persistent = rs, mn_sessions = (\<lambda>_. []), mn_log = []\<rparr>"
proof -
  have "find (\<lambda>r. ap_ttl r \<noteq> TTLPersistent) rs = None" using assms by (simp add: find_None_iff)
  then show ?thesis by (simp add: New_def Let_def)
qed

lemma New_mirrored:
  assumes "New (Some v) False p = Inr m0" "\<forall>rs. v = Kv_rules rs \<longrightarrow> map canon_rule rs = rs"
  shows "mirrored m0 \<and> no_persistent_once m0"
  using assms by (auto simp: New_def Let_def mirrored_def no_persistent_once_def find_None_iff
      split: kv_value.splits option.splits)

text \<open>
  After any history, a restart on the store it left succeeds and holds exactly the persistent
  rules, as JSON keeps them: every scope of valid UTF-8 that a persistent rule admitted is
  admitted again, for every session and at every time.
\<close>

theorem restart_keeps_grants:
  assumes new: "New (Some v) False p = Inr m0" and canon: "\<forall>rs. v = Kv_rules rs \<longrightarrow> map canon_rule rs = rs"
    and run: "approval_run m0 ls m"
  shows "\<exists>m1. New (mn_kv m) False p' = Inr m1 \<and> mn_persistent m1 = map canon_rule (mn_persistent m) \<and>
           (\<forall>r \<in> set (mn_persistent m). canon_scope (ap_scope r) = ap_scope r \<longrightarrow>
              (\<forall>sid now. fst (Match sid (ap_scope r) now m1) \<noteq> None))"
proof -
  have inv: "mirrored m" "no_persistent_once m"
    using run_keeps [OF run] New_mirrored [OF new canon] by blast+
  have ttl: "\<forall>r \<in> set (map canon_rule (mn_persistent m)). ap_ttl r = TTLPersistent"
    using inv(2) canon_ttl by (auto simp: no_persistent_once_def)
  obtain m1 where m1: "New (mn_kv m) False p' = Inr m1" "mn_persistent m1 = map canon_rule (mn_persistent m)"
    using inv(1) New_persistent [OF ttl, of p']
    by (auto simp: mirrored_def New_def Let_def split: option.splits kv_value.splits)
  have "fst (Match sid (ap_scope r) now m1) \<noteq> None"
    if r: "r \<in> set (mn_persistent m)" "canon_scope (ap_scope r) = ap_scope r" for r sid now
  proof -
    have "canon_rule r \<in> set (live_rules sid now m1)" using r(1) m1(2) by (simp add: live_rules_def)
    moreover have "ap_scope (canon_rule r) = ap_scope r" using r(2) by (simp add: canon_rule_def)
    ultimately show ?thesis using Match_miss [of sid "ap_scope r" now m1] by blast
  qed
  with m1 show ?thesis by blast
qed

text \<open>
  A persistent rule admits its scope at every time, long after the expiry it carries: expiry
  is looked at for the rules of a session only.
\<close>

theorem persistent_outlives_expiry:
  assumes "r \<in> set (mn_persistent m)"
  shows "fst (Match sid (ap_scope r) now m) \<noteq> None \<and> r \<in> set (mn_persistent (snd (Match sid (ap_scope r) now m)))"
  using assms Match_miss [of sid "ap_scope r" now m] Match_frame(1) by (auto simp: live_rules_def)

section \<open>Instances\<close>

definition sample_scope :: scope where
  "sample_scope = \<lparr>sc_tool = ''shell_run'', sc_program = ''make'', sc_prefix = None, sc_fs_op = [], sc_paths = None,
                   sc_host = [], sc_redirects = None, sc_interpreter = [], sc_script_hash = []\<rparr>"

definition sample_rule :: "string \<Rightarrow> approval_rule" where
  "sample_rule ttl = \<lparr>ap_id = ''r1'', ap_action = ''shell_run'', ap_scope = sample_scope, ap_ttl = ttl,
                      ap_source = ''user'', ap_created = 5, ap_expires = 100, ap_process = []\<rparr>"

definition fresh_manager :: manager where
  "fresh_manager = \<lparr>mn_kv = Some Kv_absent, mn_process = ''p'', mn_persistent = [], mn_sessions = (\<lambda>_. []), mn_log = []\<rparr>"

lemma sample_run:
  "\<exists>m. approval_run fresh_manager
     [Recorded ''s'' (sample_rule TTLOnce), Admitted ''s'' sample_scope (sample_rule TTLOnce\<lparr>ap_process := ''p''\<rparr>)] m"
proof -
  let ?r = "sample_rule TTLOnce"
  obtain m1 where r: "Record ''s'' ?r 5 False fresh_manager = (Inr (), m1)"
      "mn_sessions m1 = (mn_sessions fresh_manager)(''s'' := [?r\<lparr>ap_process := ''p''\<rparr>])" "mn_persistent m1 = []"
    by (simp add: Record_def Let_def sample_rule_def sample_scope_def fresh_manager_def stamp_def)
  have "fst (Match ''s'' sample_scope 6 m1) = Some (?r\<lparr>ap_process := ''p''\<rparr>)"
    using r(2,3) by (simp add: Match_def Let_def expired_def sample_rule_def)
  then obtain m2 where "Match ''s'' sample_scope 6 m1 = (Some (?r\<lparr>ap_process := ''p''\<rparr>), m2)"
    by (cases "Match ''s'' sample_scope 6 m1") auto
  then have "approval_step m1 (Admitted ''s'' sample_scope (?r\<lparr>ap_process := ''p''\<rparr>)) m2" by (rule Step_admit)
  moreover have "approval_step fresh_manager (Recorded ''s'' ?r) m1" using r(1) by (rule Step_record)
  then have "approval_run fresh_manager ([] @ [Recorded ''s'' ?r]) m1" by (rule Run_snoc [OF Run_nil])
  ultimately have "approval_run fresh_manager
      (([] @ [Recorded ''s'' ?r]) @ [Admitted ''s'' sample_scope (?r\<lparr>ap_process := ''p''\<rparr>)]) m2"
    by (metis Run_snoc)
  then show ?thesis by auto
qed

lemma fresh_start: "\<forall>s. mn_sessions fresh_manager s = []" "mn_persistent fresh_manager = []"
  by (simp_all add: fresh_manager_def)

lemma admitted_was_granted_witness:
  "granted_in [Recorded ''s'' (sample_rule TTLOnce)] fresh_manager ''s'' (sample_rule TTLOnce\<lparr>ap_process := ''p''\<rparr>)"
proof -
  from sample_run obtain m where run: "approval_run fresh_manager
     [Recorded ''s'' (sample_rule TTLOnce), Admitted ''s'' sample_scope (sample_rule TTLOnce\<lparr>ap_process := ''p''\<rparr>)] m" ..
  have "[Recorded ''s'' (sample_rule TTLOnce), Admitted ''s'' sample_scope (sample_rule TTLOnce\<lparr>ap_process := ''p''\<rparr>)] =
    [Recorded ''s'' (sample_rule TTLOnce)] @ Admitted ''s'' sample_scope (sample_rule TTLOnce\<lparr>ap_process := ''p''\<rparr>) # []"
    by simp
  from admitted_was_granted [OF run fresh_start(1) this] show ?thesis by blast
qed

lemma once_admits_once_witness:
  "once_admits ''s'' sample_scope
     [Recorded ''s'' (sample_rule TTLOnce), Admitted ''s'' sample_scope (sample_rule TTLOnce\<lparr>ap_process := ''p''\<rparr>)] \<le> 1"
proof -
  let ?ls = "[Recorded ''s'' (sample_rule TTLOnce), Admitted ''s'' sample_scope (sample_rule TTLOnce\<lparr>ap_process := ''p''\<rparr>)]"
  from sample_run obtain m where run: "approval_run fresh_manager ?ls m" ..
  have "once_admits ''s'' sample_scope ?ls \<le> once_grants ''s'' sample_scope ?ls"
    using once_admits_once [OF run fresh_start(1)] fresh_start(2) by simp
  also have "once_grants ''s'' sample_scope ?ls = 1" by code_simp
  finally show ?thesis .
qed

lemma failed_update_changes_nothing_witness:
  "fst (Record ''s'' (sample_rule TTLPersistent) 5 True fresh_manager) = Inl Persist_failed \<and>
   snd (Record ''s'' (sample_rule TTLPersistent) 5 True fresh_manager) = fresh_manager"
proof -
  have "fst (Record ''s'' (sample_rule TTLPersistent) 5 True fresh_manager) = Inl Persist_failed"
    by (simp add: Record_def persistLocked_def Let_def sample_rule_def sample_scope_def fresh_manager_def stamp_def
        TTLOnce_def TTLSession_def TTLPersistent_def)
  with failed_update_changes_nothing [of "''s''" "sample_rule TTLPersistent" 5 True fresh_manager] show ?thesis by blast
qed

lemma restart_keeps_grants_witness:
  "\<exists>m1. New (Some Kv_absent) False ''q'' = Inr m1 \<and> mn_persistent m1 = []"
proof -
  have "New (Some Kv_absent) False ''p'' = Inr fresh_manager" by (simp add: New_def Let_def fresh_manager_def)
  from restart_keeps_grants [OF this _ Run_nil, of "''q''"] show ?thesis by (simp add: fresh_manager_def)
qed

lemma persistent_outlives_expiry_witness:
  "fst (Match ''s'' sample_scope 1000000 (fresh_manager\<lparr>mn_persistent := [sample_rule TTLPersistent]\<rparr>)) \<noteq> None \<and>
   expired 1000000 (sample_rule TTLPersistent)"
proof -
  have "sample_rule TTLPersistent \<in> set (mn_persistent (fresh_manager\<lparr>mn_persistent := [sample_rule TTLPersistent]\<rparr>))"
    by simp
  from persistent_outlives_expiry [OF this, of "''s''" 1000000] show ?thesis
    by (simp add: sample_rule_def expired_def)
qed

section \<open>The bus\<close>

definition bus_bounded :: "audit_bus \<Rightarrow> bool" where
  "bus_bounded b \<longleftrightarrow> (\<forall>ch q. ab_subscribers b ch = Some q \<longrightarrow> length q \<le> channel_capacity)"

lemma bus_keeps_bounded:
  "bus_bounded NewAuditBus"
  "bus_bounded b \<Longrightarrow> bus_bounded (Publish e b)"
  "bus_bounded b \<Longrightarrow> bus_bounded (snd (Subscribe b))"
  "bus_bounded b \<Longrightarrow> bus_bounded (Unsubscribe ch b)"
  by (auto simp: bus_bounded_def NewAuditBus_def Publish_def Subscribe_def Unsubscribe_def offer_def split: if_splits)

end
