(* ===== verification/GuardProps.thy ===== *)
theory GuardProps
  imports GuardCheck
begin

text \<open>
  What \<open>Guard.Check\<close> guarantees: when it allows, where a structural refusal comes from, that a
  chain is judged by its strictest segment, and what its early returns hide.
\<close>

section \<open>The tier of a check\<close>

lemma foldl_max_Max: "foldl max (t :: tier) ts = Max (insert t (set ts))"
proof (rule antisym)
  show "foldl max t ts \<le> Max (insert t (set ts))" by (simp add: foldl_max_le)
  show "Max (insert t (set ts)) \<le> foldl max t ts"
    using foldl_max_le [of t ts "foldl max t ts"] by simp
qed

lemma worst_of_append: "worst_of (worst_of d ds) es = worst_of d (ds @ es)"
  by (simp add: worst_of_def)

lemma checkDestructive_tier:
  "tier_of (checkDestructive rd a) =
     (if ga_shell a = [] then Allowed
      else case rd_classify rd (ga_shell a) (ga_workdir a) of
             DestructionNone \<Rightarrow> Allowed | DestructionOutOfScope \<Rightarrow> Asks | DestructionOpaque \<Rightarrow> Asks
           | _ \<Rightarrow> Floor)"
  by (simp add: checkDestructive_def split: destruction.split)

lemma not_floor_not_denied:
  "dc_verdict (checkDestructive rd a) = HardDeny \<longleftrightarrow> tier_of (checkDestructive rd a) = Floor"
  by (auto simp: checkDestructive_def tier_of_verdict allow_def prompt_def hardDeny_def plain_decision_def
      split: destruction.split)

text \<open>The first dimension that does not allow decides, together with the deletion class.\<close>

lemma check_once_tier:
  "tier_of (check_once rd p a) =
     (let fl = tier_of (checkDestructive rd a); m = tier_of (checkMCPTools p a); t = tier_of (checkTools p a);
          f = tier_of (checkFS (rd_env rd) p a); s = tier_of (checkShell rd p a); n = tier_of (checkNet p a) in
      if fl = Floor then Floor
      else if m \<noteq> Allowed then max fl m
      else if t \<noteq> Allowed then max fl t
      else if f \<noteq> Allowed then max fl f
      else if s \<noteq> Allowed then max fl s
      else max fl n)"
  by (simp add: check_once_def Let_def not_floor_not_denied tier_of_verdict(1) [symmetric])

definition second_reading :: "guard_action \<Rightarrow> guard_action" where
  "second_reading a = a\<lparr>ga_shell := fst (expandKnownParameters (ga_shell a))\<rparr>"

definition has_second_reading :: "guard_action \<Rightarrow> bool" where
  "has_second_reading a \<longleftrightarrow> ga_shell a \<noteq> [] \<and> snd (expandKnownParameters (ga_shell a))"

definition readings_of :: "guard_action \<Rightarrow> guard_action list" where
  "readings_of a = (if has_second_reading a then [a, second_reading a] else [a])"

lemma Check_tier: "tier_of (Check rd p a) = Max (set (map (tier_of \<circ> check_once rd p) (readings_of a)))"
  by (simp add: Check_def Let_def readings_of_def has_second_reading_def second_reading_def split: prod.split)

lemma Check_tier_le: "tier_of (Check rd p a) \<le> t \<longleftrightarrow> (\<forall>b \<in> set (readings_of a). tier_of (check_once rd p b) \<le> t)"
  by (simp add: Check_tier readings_of_def)

section \<open>When an action is allowed\<close>

definition all_dimensions_allow :: "readings \<Rightarrow> permission_profile \<Rightarrow> guard_action \<Rightarrow> bool" where
  "all_dimensions_allow rd p a \<longleftrightarrow>
     list_all (\<lambda>d. dc_verdict d = Allow)
       [checkDestructive rd a, checkMCPTools p a, checkTools p a, checkFS (rd_env rd) p a,
        checkShell rd p a, checkNet p a]"

lemma check_once_allows: "tier_of (check_once rd p a) = Allowed \<longleftrightarrow> all_dimensions_allow rd p a"
proof -
  have max_Allowed: "max u v = Allowed \<longleftrightarrow> u = Allowed \<and> v = Allowed" for u v
    by (metis max.bounded_iff tier_le(3))
  show ?thesis
    unfolding check_once_tier all_dimensions_allow_def tier_of_verdict(1) [symmetric]
    by (auto simp: Let_def max_Allowed)
qed

text \<open>
  C4: The check allows an action exactly when each of the six dimensions allows it, and allows its
  second reading too where the command string defines the value of an expansion.
\<close>

theorem Check_allows:
  "dc_verdict (Check rd p a) = Allow \<longleftrightarrow> list_all (all_dimensions_allow rd p) (readings_of a)"
proof -
  have "dc_verdict (Check rd p a) = Allow \<longleftrightarrow> tier_of (Check rd p a) \<le> Allowed"
    by (simp add: tier_of_verdict(1))
  also have "\<dots> \<longleftrightarrow> (\<forall>b \<in> set (readings_of a). tier_of (check_once rd p b) = Allowed)"
    unfolding Check_tier_le by (simp only: tier_le)
  finally show ?thesis by (simp only: check_once_allows list_all_iff)
qed

section \<open>The structural floor\<close>

text \<open>A command of the worst classes is refused for good, under every profile.\<close>

theorem catastrophe_is_refused:
  assumes "ga_shell a \<noteq> []" "rd_classify rd (ga_shell a) (ga_workdir a) \<ge> DestructionCatastrophic"
  shows "dc_verdict (Check rd p a) = HardDeny \<and> \<not> dc_overridable (Check rd p a) \<and> \<not> dc_promptable (Check rd p a)"
proof -
  have "tier_of (checkDestructive rd a) = Floor"
    using assms by (cases "rd_classify rd (ga_shell a) (ga_workdir a)")
      (simp_all add: checkDestructive_tier less_eq_destruction_def)
  then have "tier_of (check_once rd p a) = Floor" by (simp add: check_once_tier)
  moreover have "a \<in> set (readings_of a)" by (simp add: readings_of_def)
  ultimately have "Floor \<le> tier_of (Check rd p a)"
    using Check_tier_le [of rd p a "tier_of (Check rd p a)"] by force
  then have "tier_of (Check rd p a) = Floor" by simp
  then have "dc_verdict (Check rd p a) = HardDeny \<and> \<not> dc_overridable (Check rd p a)"
    using tier_of_verdict(3) by blast
  with Check_paired [of rd p a] show ?thesis by (simp add: well_paired_def)
qed

definition known_verdict :: "string \<Rightarrow> bool" where
  "known_verdict v \<longleftrightarrow> v \<in> {''allow'', ''prompt'', ''hard_deny'', ''deny''}"

text \<open>The ways the policy of a profile refuses a segment for good.\<close>

definition policy_floor :: "permission_profile \<Rightarrow> string \<Rightarrow> bool" where
  "policy_floor p cmd =
     (if sp_rules (pp_shell p) \<noteq> []
      then (case Parse cmd of
              Inl _ \<Rightarrow> True
            | Inr parsed \<Rightarrow> \<not> known_verdict (pr_verdict (Evaluate parsed (sp_rules (pp_shell p)))))
      else \<not> ValidateShellPolicy (sp_policy (pp_shell p)))"

lemma tier_of_rule_decision: "tier_of (rule_decision res) = Floor \<longleftrightarrow> \<not> known_verdict (pr_verdict res)"
  by (auto simp: rule_decision_def Let_def tier_of_def known_verdict_def)

lemma tier_of_parse_decision: "tier_of (parse_decision e) = Floor"
  by (simp add: tier_of_def parse_decision_def)

lemma checkShellPolicy_floor: "tier_of (checkShellPolicy p cmd) = Floor \<longleftrightarrow> policy_floor p cmd"
  by (simp add: checkShellPolicy_def policy_floor_def Let_def tier_of_rule_decision tier_of_parse_decision
      ValidateShellPolicy_def ShellPolicies_def split: sum.split)

lemma checkFS_not_floor: "tier_of (checkFS env p a) \<le> Policy_denied"
  by (simp add: checkFS_tier Let_def less_eq_tier_def)

lemma checkSegmentWrites_not_floor: "tier_of (checkSegmentWrites rd p a seg) \<le> Policy_denied"
proof -
  have "tier_of (checkRedirectTargets rd p a seg) \<le> Policy_denied"
    unfolding checkRedirectTargets_def tier_of_worst_le by (auto simp: checkFS_not_floor)
  then show ?thesis by (simp add: checkSegmentWrites_def Let_def checkFS_not_floor)
qed

lemma below_floor: "t \<le> Policy_denied \<longleftrightarrow> t \<noteq> Floor"
  by (cases t) (simp_all add: less_eq_tier_def)

lemma profile_dimensions_not_floor:
  "tier_of (checkMCPTools p a) \<noteq> Floor" "tier_of (checkTools p a) \<noteq> Floor" "tier_of (checkNet p a) \<noteq> Floor"
  "tier_of (checkFS env p a) \<noteq> Floor"
  using checkFS_not_floor [of env p a]
  by (auto simp: checkMCPTools_def checkTools_def checkNet_def less_eq_tier_def)

lemma max_floor: "max u v = Floor \<longleftrightarrow> u = Floor \<or> v = (Floor :: tier)"
  using tier_le(2) [of u] tier_le(2) [of v] by (auto simp: max_def)

lemma checkShell_floor:
  "tier_of (checkShell rd p a) = Floor \<longleftrightarrow>
     ga_shell a \<noteq> [] \<and>
     (case segmentsFor a of Inl _ \<Rightarrow> True | Inr segs \<Rightarrow> \<exists>seg \<in> set segs. policy_floor p (seg_text seg))"
proof (cases "ga_shell a = []")
  case False
  show ?thesis
  proof (cases "segmentsFor a")
    case (Inl e)
    with False show ?thesis by (simp add: checkShell_def)
  next
    case (Inr segs)
    have seg: "tier_of (checkShellSegment rd p a s) = Floor \<longleftrightarrow> policy_floor p (seg_text s)" for s
      using checkSegmentWrites_not_floor [of rd p a s]
      by (simp add: checkShellSegment_def checkShellPolicy_floor max_floor below_floor)
    have "tier_of (checkShell rd p a) \<le> Policy_denied \<longleftrightarrow>
        (\<forall>s \<in> set segs. tier_of (checkShellSegment rd p a s) \<le> Policy_denied)"
      using Inr False checkSegmentWrites_not_floor [of rd p a]
      by (auto simp: checkShell_def worst_of_append tier_of_worst_le ball_Un)
    then show ?thesis using Inr False seg by (auto simp: below_floor)
  qed
qed (simp add: checkShell_def)

text \<open>
  C21: Every structural refusal comes from the shell command, in one of its readings: its deletion
  class is one of the two worst, no reader can read its structure, or for one of its segments
  the policy is unknown, the rules' parser fails, or their verdict is unknown.  Everything else
  a profile says no with may be overridden.
\<close>

theorem structural_floor_sources:
  assumes "dc_verdict (Check rd p a) = HardDeny" "\<not> dc_overridable (Check rd p a)"
  shows "\<exists>b \<in> set (readings_of a). ga_shell b \<noteq> [] \<and>
           (rd_classify rd (ga_shell b) (ga_workdir b) \<ge> DestructionCatastrophic \<or>
            (case segmentsFor b of
               Inl _ \<Rightarrow> True
             | Inr segs \<Rightarrow> \<exists>seg \<in> set segs. policy_floor p (seg_text seg)))"
proof -
  have fl: "tier_of (Check rd p a) = Floor" using assms tier_of_verdict(3) by blast
  then obtain b where b: "b \<in> set (readings_of a)" "tier_of (check_once rd p b) = Floor"
    using Check_tier [of rd p a] by (auto simp: readings_of_def max_floor split: if_splits)
  then consider "tier_of (checkDestructive rd b) = Floor" | "tier_of (checkShell rd p b) = Floor"
    using profile_dimensions_not_floor
    by (auto simp: check_once_tier Let_def max_floor split: if_splits)
  then show ?thesis
  proof cases
    case 1
    then have "ga_shell b \<noteq> [] \<and> rd_classify rd (ga_shell b) (ga_workdir b) \<ge> DestructionCatastrophic"
      by (auto simp: checkDestructive_tier less_eq_destruction_def split: if_splits destruction.splits)
    with b(1) show ?thesis by blast
  next
    case 2
    with b(1) show ?thesis unfolding checkShell_floor by blast
  qed
qed

section \<open>Chains\<close>

text \<open>
  C23: A command that can be read is judged by the strictest of its parts: each segment with its
  redirections and its text, and each segment of a wrapper payload with what it writes.
\<close>

theorem chain_is_strictest_part:
  assumes "ga_shell a \<noteq> []" "segmentsFor a = Inr segs"
  shows "tier_of (checkShell rd p a) =
           Max (insert Allowed (set (map (tier_of \<circ> checkShellSegment rd p a) segs @
                                     map (tier_of \<circ> checkSegmentWrites rd p a) (payload_segments rd a))))"
proof -
  have "checkShell rd p a =
      worst_of allow (map (checkShellSegment rd p a) segs @ map (checkSegmentWrites rd p a) (payload_segments rd a))"
    using assms by (simp add: checkShell_def worst_of_append)
  then show ?thesis by (simp only: tier_of_worst foldl_max_Max map_append map_map tier_of_simps)
qed

section \<open>What the early returns hide\<close>

text \<open>
  A tool that is not on the profile's list is asked about without looking further: whatever the
  files, the command or the host of the action, even a refusal no mode may override, the answer
  is the prompt.
\<close>

theorem tool_prompt_hides_refusals:
  assumes "tier_of (checkDestructive rd a) \<le> Asks" "\<not> prefix ''mcp_'' (ga_tool a)"
    and "tp_allow (pp_tools p) \<noteq> []" "\<not> any_glob (tp_allow (pp_tools p)) (ga_tool a)"
    and "\<not> has_second_reading a"
  shows "dc_verdict (Check rd p a) = Prompt"
proof -
  have "tier_of (checkMCPTools p a) = Allowed" "tier_of (checkTools p a) = Asks"
    using assms(2-4) by (simp_all add: checkMCPTools_def checkTools_def)
  then have "tier_of (check_once rd p a) = Asks"
    using assms(1) by (cases "tier_of (checkDestructive rd a)") (simp_all add: check_once_tier less_eq_tier_def max_def)
  then have "tier_of (Check rd p a) = Asks" using assms(5) by (simp add: Check_tier readings_of_def)
  then show ?thesis by (simp only: tier_of_verdict)
qed

section \<open>Instances\<close>

text \<open>Readings that know two commands by heart; the environment has a home directory.\<close>

definition sample_readings :: readings where
  "sample_readings =
     \<lparr>rd_env = sample_env,
      rd_classify = (\<lambda>cmd wd. if prefix ''rm -rf /'' cmd then DestructionCatastrophic else DestructionNone),
      rd_segment_writes = (\<lambda>program args. if program = ''tee'' then args else []),
      rd_word_writes = (\<lambda>cmd. []),
      rd_payloads = (\<lambda>cmd. [])\<rparr>"

definition shell_action :: "string \<Rightarrow> string \<Rightarrow> guard_action" where
  "shell_action tool cmd =
     \<lparr>ga_tool = tool, ga_fs = \<lparr>fw_op = [], fw_paths = []\<rparr>, ga_shell = cmd,
      ga_net_host = [], ga_workdir = ''/w'', ga_interpreter = []\<rparr>"

lemma catastrophe_is_refused_witness:
  "dc_verdict (Check sample_readings open_profile (shell_action ''shell_run'' ''rm -rf /'')) = HardDeny"
proof -
  let ?a = "shell_action ''shell_run'' ''rm -rf /''"
  have "ga_shell ?a \<noteq> []" "rd_classify sample_readings (ga_shell ?a) (ga_workdir ?a) \<ge> DestructionCatastrophic"
    by code_simp+
  then show ?thesis using catastrophe_is_refused by blast
qed

definition typo_profile :: permission_profile where
  "typo_profile = open_profile\<lparr>pp_shell := \<lparr>sp_policy = ''allow'', sp_patterns = [], sp_rules = []\<rparr>\<rparr>"

lemma structural_floor_sources_witness:
  "\<exists>b \<in> set (readings_of (shell_action ''shell_run'' ''ls'')).
     (case segmentsFor b of Inl _ \<Rightarrow> True | Inr segs \<Rightarrow> \<exists>seg \<in> set segs. policy_floor typo_profile (seg_text seg))"
proof -
  let ?a = "shell_action ''shell_run'' ''ls''"
  have "dc_verdict (Check sample_readings typo_profile ?a) = HardDeny"
    "\<not> dc_overridable (Check sample_readings typo_profile ?a)"
    by code_simp+
  from structural_floor_sources [OF this] obtain b where b: "b \<in> set (readings_of ?a)"
    "rd_classify sample_readings (ga_shell b) (ga_workdir b) \<ge> DestructionCatastrophic \<or>
     (case segmentsFor b of Inl _ \<Rightarrow> True | Inr segs \<Rightarrow> \<exists>seg \<in> set segs. policy_floor typo_profile (seg_text seg))"
    by blast
  moreover have "readings_of ?a = [?a]" by code_simp
  moreover have "\<not> rd_classify sample_readings (ga_shell ?a) (ga_workdir ?a) \<ge> DestructionCatastrophic"
    by code_simp
  ultimately show ?thesis by auto
qed

lemma chain_is_strictest_part_witness:
  "tier_of (checkShell sample_readings open_profile (shell_action ''shell_run'' ''ls && rm x'')) = Policy_denied"
proof -
  let ?a = "shell_action ''shell_run'' ''ls && rm x''"
  obtain segs where segs: "segmentsFor ?a = Inr segs"
      "Max (insert Allowed (set (map (tier_of \<circ> checkShellSegment sample_readings open_profile ?a) segs @
         map (tier_of \<circ> checkSegmentWrites sample_readings open_profile ?a) (payload_segments sample_readings ?a)))) =
       Policy_denied"
  proof (rule that)
    show "segmentsFor ?a = Inr (projr (segmentsFor ?a))" by code_simp
    show "Max (insert Allowed (set (map (tier_of \<circ> checkShellSegment sample_readings open_profile ?a) (projr (segmentsFor ?a)) @
         map (tier_of \<circ> checkSegmentWrites sample_readings open_profile ?a) (payload_segments sample_readings ?a)))) =
       Policy_denied"
      by code_simp
  qed
  have "ga_shell ?a \<noteq> []" by (simp add: shell_action_def)
  from chain_is_strictest_part [OF this segs(1)] segs(2) show ?thesis by simp
qed

lemma tool_prompt_hides_refusals_witness:
  "dc_verdict (Check sample_readings (typo_profile\<lparr>pp_tools := \<lparr>tp_allow = [''fs_*'']\<rparr>\<rparr>)
      (shell_action ''shell_run'' ''ls'')) = Prompt"
proof (rule tool_prompt_hides_refusals)
  show "\<not> any_glob (tp_allow (pp_tools (typo_profile\<lparr>pp_tools := \<lparr>tp_allow = [''fs_*'']\<rparr>\<rparr>)))
      (ga_tool (shell_action ''shell_run'' ''ls''))"
    "\<not> has_second_reading (shell_action ''shell_run'' ''ls'')"
    "tier_of (checkDestructive sample_readings (shell_action ''shell_run'' ''ls'')) \<le> Asks"
    "\<not> prefix ''mcp_'' (ga_tool (shell_action ''shell_run'' ''ls''))"
    "tp_allow (pp_tools (typo_profile\<lparr>pp_tools := \<lparr>tp_allow = [''fs_*'']\<rparr>\<rparr>)) \<noteq> []"
    by code_simp+
qed

text \<open>
  A denylist pattern is matched without its newlines: the same deletion that \<open>rm *\<close> refuses is
  allowed when one of its arguments is quoted and holds a newline, and the reader accepts it.
\<close>

theorem denylist_misses_newline:
  "dc_verdict (checkShell sample_readings open_profile (shell_action ''shell_run'' ''rm -r x'')) = HardDeny \<and>
   dc_verdict (checkShell sample_readings open_profile
     (shell_action ''shell_run'' (''rm -r x '' @ [squote, newline_c, squote]))) = Allow"
  by (rule conjI; code_simp)

end
