(* ===== verification/Authorize.thy ===== *)
theory Authorize
  imports PermMode ApprovalProps GuardProps
begin

text \<open>
  The consultation point of every tool, \<open>internal/tools/permctx.go\<close>: \<open>Authorize\<close>,
  \<open>AuthorizeApprovalRequired\<close> and \<open>RequireApproval\<close>, with \<open>internal/toolreg\<close> and
  \<open>internal/tools/scripthash.go\<close>.  The values a Go context carries are a record; the approval
  manager is threaded; the requests put to the callback and the audit rows (decision, source,
  reason code) are returned.  \<open>CheckRolePolicy\<close> is the field \<open>cx_role_denies\<close>.
\<close>

section \<open>Registered tools\<close>

definition NewSet :: "string list \<Rightarrow> string list" where
  "NewSet names = filter (\<lambda>n. trim_space n \<noteq> []) names"

text \<open>\<open>toolreg.Check\<close> on the names that were bound; binding no name binds nothing.\<close>

definition toolreg_Check :: "string list \<Rightarrow> string \<Rightarrow> bool" where
  "toolreg_Check names tool \<longleftrightarrow> NewSet names = [] \<or> tool \<in> set (NewSet names)"

section \<open>The script a command runs\<close>

definition scriptInterpreters :: "string list" where
  "scriptInterpreters =
     [''sh'', ''bash'', ''zsh'', ''dash'', ''ksh'', ''fish'', ''python'', ''python2'', ''python3'',
      ''node'', ''deno'', ''bun'', ''ruby'', ''perl'', ''php'', ''lua'', ''Rscript'',
      ''powershell'', ''pwsh'', ''osascript'']"

definition interpreterFlagsTakingValue :: "string list" where
  "interpreterFlagsTakingValue =
     [''-c'', ''-m'', ''-e'', ''-W'', ''-X'', ''--eval'', ''--module'', ''--command'', ''-Command'', ''-File'']"

text \<open>\<open>lexCommandLite\<close>: quotes are stripped and nothing else is read.\<close>

fun command_tokens :: "char option \<Rightarrow> string option \<Rightarrow> string \<Rightarrow> string list option" where
  "command_tokens q cur [] = (if q \<noteq> None then None else Some (flush_tok cur))"
| "command_tokens q cur (c # s) =
     (case q of
        Some k \<Rightarrow> if c = k then command_tokens None cur s else command_tokens q (put_tok cur [c]) s
      | None \<Rightarrow>
          if blank c \<or> c = newline_c \<or> c = cr_c then
            map_option (\<lambda>ts. flush_tok cur @ ts) (command_tokens None None s)
          else if c = squote \<or> c = dquote then command_tokens (Some c) (put_tok cur []) s
          else command_tokens None (put_tok cur [c]) s)"

definition lexCommandLite :: "string \<Rightarrow> (string \<times> string list) option" where
  "lexCommandLite cmd =
     (case command_tokens None None cmd of Some (p # args) \<Rightarrow> Some (p, args) | _ \<Rightarrow> None)"

definition normalizeProgramBase :: "string \<Rightarrow> string" where
  "normalizeProgramBase w =
     (let b = normalizeProgramWord w in if b = ''rscript'' then ''Rscript'' else b)"

fun firstOperand :: "string list \<Rightarrow> string" where
  "firstOperand [] = []"
| "firstOperand (a # rest) =
     (if a = ''--'' then (case rest of b # _ \<Rightarrow> b | [] \<Rightarrow> [])
      else if prefix ''-'' a then
        (if a \<in> set interpreterFlagsTakingValue then
           (case rest of
              [] \<Rightarrow> []
            | b # rest' \<Rightarrow> if a = ''-File'' then b else firstOperand rest')
         else firstOperand rest)
      else a)"

definition scriptPathFromCommand :: "string \<Rightarrow> string" where
  "scriptPathFromCommand cmd =
     (case lexCommandLite cmd of
        None \<Rightarrow> []
      | Some (program, args) \<Rightarrow>
          if program = [] then []
          else if normalizeProgramBase program \<in> set scriptInterpreters then firstOperand args
          else if CHR ''/'' \<in> set program \<or> bslash \<in> set program \<or> prefix ''.'' program then program
          else [])"

text \<open>
  \<open>hashScriptForCommand\<close>.  \<open>digest\<close> answers for a path what opening, measuring and hashing the
  file gives, \<open>None\<close> when it is missing, a directory, too large or unreadable.
\<close>

definition hashScriptForCommand :: "(string \<Rightarrow> string option) \<Rightarrow> string \<Rightarrow> string \<Rightarrow> string" where
  "hashScriptForCommand digest shell workdir =
     (let path = scriptPathFromCommand shell;
          full = (if \<not> prefix ''/'' path \<and> workdir \<noteq> [] then path_clean (workdir @ ''/'' @ path) else path) in
      if path = [] then []
      else case digest full of None \<Rightarrow> [] | Some h \<Rightarrow> ''sha256:'' @ h)"

definition CommandRunsAScript :: "(string \<Rightarrow> string option) \<Rightarrow> string \<Rightarrow> string \<Rightarrow> bool" where
  "CommandRunsAScript digest shell workdir \<longleftrightarrow> hashScriptForCommand digest shell workdir \<noteq> []"

section \<open>Scopes\<close>

datatype scope_error = Scope_unreadable exec_error | Scope_not_one_segment

text \<open>\<open>append([]string(nil), xs...)\<close> is nil for no elements.\<close>

definition copy_slice :: "string list \<Rightarrow> string list option" where
  "copy_slice xs = (if xs = [] then None else Some xs)"

definition scopeFromAction :: "(string \<Rightarrow> string option) \<Rightarrow> guard_action \<Rightarrow> scope_error + scope" where
  "scopeFromAction digest a =
     (let base = \<lparr>sc_tool = ga_tool a, sc_program = [], sc_prefix = None, sc_fs_op = fw_op (ga_fs a),
                  sc_paths = copy_slice (fw_paths (ga_fs a)), sc_host = to_lower (ga_net_host a),
                  sc_redirects = None, sc_interpreter = [], sc_script_hash = []\<rparr> in
      if ga_shell a = [] then Inr base
      else case ParseCommandListFor (ga_interpreter a) (ga_shell a) of
             Inl e \<Rightarrow> Inl (Scope_unreadable e)
           | Inr [seg] \<Rightarrow>
               Inr (base\<lparr>sc_interpreter := CommandLanguage (ga_interpreter a),
                         sc_program := seg_program seg,
                         sc_prefix := copy_slice (seg_args seg),
                         sc_redirects := copy_slice (map (\<lambda>r. rd_operator r @ '' '' @ rd_target r) (seg_redirects seg)),
                         sc_script_hash := hashScriptForCommand digest (ga_shell a) (ga_workdir a)\<rparr>)
           | Inr _ \<Rightarrow> Inl Scope_not_one_segment)"

text \<open>\<open>approvalExpiry\<close>, in nanoseconds.\<close>

definition approvalExpiry :: "string \<Rightarrow> int \<Rightarrow> int" where
  "approvalExpiry ttl now =
     (if ttl = TTLOnce \<or> ttl = TTLSession then now + 8 * 3600 * 10 ^ 9
      else if ttl = TTLPersistent then now + 30 * 24 * 3600 * 10 ^ 9
      else 0)"

section \<open>Authorize\<close>

record auth_context =
  cx_registered :: "string list"
  cx_role_denies :: "guard_action \<Rightarrow> bool"
  cx_profile :: "permission_profile option"
  cx_plan :: bool
  cx_confirm :: bool
  cx_session :: "string option"
  cx_ask :: "(permission_request \<Rightarrow> permission_decision) option"
  cx_digest :: "string \<Rightarrow> string option"
  cx_readings :: readings

datatype deny_error =
    Not_registered string
  | Role_denied
  | No_profile
  | Not_in_plan_mode string
  | Explicit_approval
  | Declined reason
  | Unpromptable
  | No_scope scope_error
  | Not_recorded approval_error
  | No_manager
  | No_store

text \<open>What one call returns and leaves behind.\<close>

record auth_result =
  az_error :: "deny_error option"
  az_manager :: manager
  az_asked :: "permission_request list"
  az_audit :: "(string \<times> string \<times> string) list"

definition refuse :: "manager \<Rightarrow> permission_request list \<Rightarrow> deny_error \<Rightarrow> string \<Rightarrow> string \<Rightarrow> auth_result" where
  "refuse m asked e source code =
     \<lparr>az_error = Some e, az_manager = m, az_asked = asked, az_audit = [(''deny'', source, code)]\<rparr>"

definition admit :: "manager \<Rightarrow> permission_request list \<Rightarrow> string \<Rightarrow> string \<Rightarrow> auth_result" where
  "admit m asked source code =
     \<lparr>az_error = None, az_manager = m, az_asked = asked, az_audit = [(''allow'', source, code)]\<rparr>"

definition explainDecision :: "guard_decision \<Rightarrow> reason" where
  "explainDecision d =
     (if dc_justification d = [] then dc_reason d
      else if dc_reason d = Literal [] then Literal (dc_justification d)
      else Explained (dc_reason d) (dc_justification d))"

definition isForcePromptTool :: "string \<Rightarrow> bool" where
  "isForcePromptTool tool \<longleftrightarrow> tool = ''task_cancel''"

definition plain_request :: "guard_action \<Rightarrow> string \<Rightarrow> reason \<Rightarrow> permission_request" where
  "plain_request a args r =
     \<lparr>rq_tool = ga_tool a, rq_args = args, rq_reason = r, rq_force_prompt = False, rq_approval_required = False,
      rq_force = False, rq_profile_hard_deny = False, rq_shell = [], rq_workdir = [], rq_ai_declined = False\<rparr>"

definition explicit_reason :: reason where
  "explicit_reason = Literal ''tool requires explicit approval''"

definition permits :: "permission_decision \<Rightarrow> bool" where
  "permits d \<longleftrightarrow> d \<in> {P_allow, P_always_allow, P_allow_session, P_allow_persistent}"

definition force_prompt :: "auth_context \<Rightarrow> string \<Rightarrow> guard_action \<Rightarrow> manager \<Rightarrow> auth_result" where
  "force_prompt cx args a m =
     (case cx_ask cx of
        None \<Rightarrow> refuse m [] Explicit_approval ''force_prompt'' ''no_callback''
      | Some ask \<Rightarrow>
          let req = (plain_request a args explicit_reason)\<lparr>rq_force_prompt := True\<rparr> in
          if permits (ask req) then admit m [req] ''force_prompt'' []
          else refuse m [req] Explicit_approval ''force_prompt'' ''user_denied'')"

text \<open>A sticky answer: the rule is recorded, or the call is honoured once when it has no scope.\<close>

definition remember ::
    "auth_context \<Rightarrow> string \<Rightarrow> string \<Rightarrow> deny_error \<Rightarrow> string \<Rightarrow> scope_error + scope \<Rightarrow> guard_action \<Rightarrow>
     permission_request list \<Rightarrow> int \<Rightarrow> string \<Rightarrow> bool \<Rightarrow> manager \<Rightarrow> auth_result" where
  "remember cx ttl source missing missing_code scoped a asked now rid kv_fails m =
     (case scoped of
        Inl _ \<Rightarrow> admit m asked ''interactive_once'' ''unscopable''
      | Inr sc \<Rightarrow>
          (case cx_session cx of
             None \<Rightarrow> refuse m asked missing ''approval_record'' missing_code
           | Some sid \<Rightarrow>
               let rule = \<lparr>ap_id = rid, ap_action = ga_tool a, ap_scope = sc, ap_ttl = ttl, ap_source = ''user'',
                           ap_created = 0, ap_expires = approvalExpiry ttl now, ap_process = []\<rparr> in
               (case Record sid rule now kv_fails m of
                  (Inl e, m') \<Rightarrow> refuse m' asked (Not_recorded e) ''approval_record'' ''record_error''
                | (Inr _, m') \<Rightarrow> admit m' asked source [])))"

text \<open>From the approval manager on: steps 3 to 5 of the resolution order.\<close>

definition ask_callback ::
    "auth_context \<Rightarrow> string \<Rightarrow> guard_action \<Rightarrow> guard_decision \<Rightarrow> bool \<Rightarrow> scope_error + scope \<Rightarrow>
     int \<Rightarrow> string \<Rightarrow> bool \<Rightarrow> manager \<Rightarrow> auth_result" where
  "ask_callback cx args a dec denied scoped now rid kv_fails m =
     (case cx_ask cx of
        None \<Rightarrow> refuse m [] (Declined (explainDecision dec)) ''no_callback'' ''static_denied''
      | Some ask \<Rightarrow>
          let req = (plain_request a args (explainDecision dec))
                      \<lparr>rq_profile_hard_deny := denied, rq_shell := ga_shell a, rq_workdir := ga_workdir a\<rparr> in
          (case ask req of
             P_allow \<Rightarrow> admit m [req] (if denied then ''mode_override'' else ''interactive_once'') []
           | P_always_allow \<Rightarrow>
               remember cx TTLSession ''interactive_session'' No_manager ''no_manager'' scoped a [req] now rid kv_fails m
           | P_allow_session \<Rightarrow>
               remember cx TTLSession ''interactive_session'' No_manager ''no_manager'' scoped a [req] now rid kv_fails m
           | P_allow_persistent \<Rightarrow>
               remember cx TTLPersistent ''interactive_persistent'' No_store ''no_kv'' scoped a [req] now rid kv_fails m
           | _ \<Rightarrow> refuse m [req] (Declined (explainDecision dec)) ''interactive'' ''user_denied''))"

definition escalate ::
    "auth_context \<Rightarrow> string \<Rightarrow> guard_action \<Rightarrow> guard_decision \<Rightarrow> bool \<Rightarrow> bool \<Rightarrow>
     int \<Rightarrow> string \<Rightarrow> bool \<Rightarrow> manager \<Rightarrow> auth_result" where
  "escalate cx args a dec strict denied now rid kv_fails m =
     (let scoped = scopeFromAction (cx_digest cx) a in
      case scoped of
        Inl e \<Rightarrow>
          if \<not> strict then refuse m [] (No_scope e) ''approval_scope'' ''scope_error''
          else ask_callback cx args a dec denied scoped now rid kv_fails m
      | Inr sc \<Rightarrow>
          (case cx_session cx of
             None \<Rightarrow> ask_callback cx args a dec denied scoped now rid kv_fails m
           | Some sid \<Rightarrow>
               (case Match sid sc now m of
                  (Some _, m') \<Rightarrow> admit m' [] ''approval_manager'' []
                | (None, m') \<Rightarrow> ask_callback cx args a dec denied scoped now rid kv_fails m')))"

definition strict_reason :: reason where
  "strict_reason = Literal ''strict mode: every tool call is confirmed, including ones the permission profile already allows''"

definition Authorize ::
    "auth_context \<Rightarrow> string \<Rightarrow> guard_action \<Rightarrow> int \<Rightarrow> string \<Rightarrow> bool \<Rightarrow> manager \<Rightarrow> auth_result" where
  "Authorize cx args a now rid kv_fails m =
     (if \<not> toolreg_Check (cx_registered cx) (ga_tool a)
      then refuse m [] (Not_registered (ga_tool a)) ''unregistered_tool'' ''not_registered''
      else if cx_role_denies cx a then refuse m [] Role_denied ''role_policy'' ''role_denied''
      else case cx_profile cx of
        None \<Rightarrow> refuse m [] No_profile ''fail_closed'' ''missing_profile''
      | Some prof \<Rightarrow>
          if cx_plan cx \<and> \<not> PlanToolAllowed (ga_tool a)
          then refuse m [] (Not_in_plan_mode (ga_tool a)) ''plan_mode'' ''plan_filter''
          else if isForcePromptTool (ga_tool a) then force_prompt cx args a m
          else
            let guarded = Check (cx_readings cx) prof a;
                strict = (dc_verdict guarded = Allow \<and> cx_confirm cx);
                dec = (if strict then ConfirmPrompt strict_reason else guarded) in
            (case dc_verdict dec of
               Allow \<Rightarrow> admit m [] ''static_profile'' []
             | HardDeny \<Rightarrow>
                 if \<not> dc_overridable dec then refuse m [] (Declined (explainDecision dec)) ''hard_deny'' ''firewall''
                 else escalate cx args a dec strict True now rid kv_fails m
             | Prompt \<Rightarrow>
                 if \<not> dc_promptable dec then refuse m [] Unpromptable ''guard'' ''unpromptable''
                 else escalate cx args a dec strict False now rid kv_fails m))"

section \<open>Mandatory approval\<close>

text \<open>\<open>AuthorizeApprovalRequired\<close>: the error and the request put to the callback.\<close>

definition AuthorizeApprovalRequired ::
    "auth_context \<Rightarrow> string \<Rightarrow> guard_action \<Rightarrow> deny_error option \<times> permission_request list" where
  "AuthorizeApprovalRequired cx args a =
     (if \<not> toolreg_Check (cx_registered cx) (ga_tool a) then (Some (Not_registered (ga_tool a)), [])
      else if cx_role_denies cx a then (Some Role_denied, [])
      else case cx_profile cx of
        None \<Rightarrow> (Some No_profile, [])
      | Some prof \<Rightarrow>
          if cx_plan cx \<and> \<not> PlanToolAllowed (ga_tool a) then (Some (Not_in_plan_mode (ga_tool a)), [])
          else (case cx_ask cx of
                  None \<Rightarrow> (Some Explicit_approval, [])
                | Some ask \<Rightarrow>
                    let d = Check (cx_readings cx) prof a;
                        r = (if dc_reason d \<noteq> Literal [] then dc_reason d else explicit_reason);
                        req = (plain_request a args r)\<lparr>rq_approval_required := True\<rparr> in
                    if ask req = P_allow then (None, [req]) else (Some (Declined r), [req])))"

definition RequireApproval ::
    "auth_context \<Rightarrow> permission_request \<Rightarrow> deny_error option \<times> permission_request list" where
  "RequireApproval cx req0 =
     (case cx_profile cx of
        None \<Rightarrow> (Some No_profile, [])
      | Some _ \<Rightarrow>
          (case cx_ask cx of
             None \<Rightarrow> (Some Explicit_approval, [])
           | Some ask \<Rightarrow>
               let req = req0\<lparr>rq_force := True\<rparr> in
               if ask req = P_allow \<or> ask req = P_always_allow then (None, [req])
               else (Some (Declined (rq_reason req)), [req])))"

end
