(* ===== verification/AuthorizeProps.thy ===== *)
theory AuthorizeProps
  imports Authorize PermModeProps
begin

text \<open>
  What \<open>Authorize\<close> guarantees: the only ways to a yes, the firewall of structural refusals, the
  path without a callback, and what an approval is remembered for.  What it relies on in the
  approval manager is an interface of its own.
\<close>

section \<open>The approval memory as an interface\<close>

locale approval_memory =
  fixes admits :: "'m \<Rightarrow> string \<Rightarrow> scope \<Rightarrow> int \<Rightarrow> bool"
    and grant :: "string \<Rightarrow> approval_rule \<Rightarrow> int \<Rightarrow> bool \<Rightarrow> 'm \<Rightarrow> (approval_error + unit) \<times> 'm"
  assumes grant_admits: "grant sid r now fails m = (Inr (), m') \<Longrightarrow> \<not> expired later r \<Longrightarrow> admits m' sid (ap_scope r) later"
    and grant_keeps: "grant sid r now fails m = (Inr (), m') \<Longrightarrow> admits m s sc t \<Longrightarrow> admits m' s sc t"
    and failure_keeps: "grant sid r now fails m = (Inl e, m') \<Longrightarrow> m' = m"
begin

text \<open>A grant outlives every later attempt to record another one.\<close>

lemma grants_accumulate:
  assumes "grant sid r now fails m = (Inr (), m1)" "\<not> expired later r"
  shows "admits (foldl (\<lambda>m (s, q, t, f). snd (grant s q t f m)) m1 attempts) sid (ap_scope r) later"
proof (induction attempts rule: rev_induct)
  case Nil
  then show ?case using grant_admits [OF assms] by simp
next
  case (snoc x xs)
  obtain s q t f where x: "x = (s, q, t, f)" by (cases x)
  let ?m = "foldl (\<lambda>m (s, q, t, f). snd (grant s q t f m)) m1 xs"
  obtain res m' where g: "grant s q t f ?m = (res, m')" by fastforce
  then have "admits m' sid (ap_scope r) later"
    using grant_keeps [of s q t f ?m m'] failure_keeps [of s q t f ?m _ m'] snoc.IH by (cases res) auto
  with x g show ?case by simp
qed

end

definition manager_admits :: "manager \<Rightarrow> string \<Rightarrow> scope \<Rightarrow> int \<Rightarrow> bool" where
  "manager_admits m sid sc now \<longleftrightarrow> fst (Match sid sc now m) \<noteq> None"

lemma manager_admits_live: "manager_admits m sid sc now \<longleftrightarrow> (\<exists>r \<in> set (live_rules sid now m). ap_scope r = sc)"
  using Match_miss by (auto simp: manager_admits_def)

interpretation approvals: approval_memory manager_admits Record
proof
  fix sid r now fails m m' later
  assume r: "Record sid r now fails m = (Inr (), m')" and e: "\<not> expired later r"
  let ?q = "stamp now r\<lparr>ap_process := mn_process m\<rparr>"
  have "\<not> expired later ?q" "\<not> expired later (stamp now r)" using e by (simp_all add: expired_def)
  then have "?q \<in> set (live_rules sid later m') \<or> stamp now r \<in> set (live_rules sid later m')"
    using r by (auto simp: Record_ok live_rules_def)
  moreover have "ap_scope ?q = ap_scope r" "ap_scope (stamp now r) = ap_scope r" by simp_all
  ultimately show "manager_admits m' sid (ap_scope r) later" unfolding manager_admits_live by blast
next
  fix sid r now fails m m' s sc t
  assume r: "Record sid r now fails m = (Inr (), m')" and "manager_admits m s sc t"
  moreover have "set (live_rules s t m) \<subseteq> set (live_rules s t m')"
    using r by (auto simp: Record_ok live_rules_def)
  ultimately show "manager_admits m' s sc t" unfolding manager_admits_live by blast
next
  fix sid r now fails e and m m' :: manager
  assume "Record sid r now fails m = (Inl e, m')"
  then show "m' = m" by (rule Record_fails)
qed

section \<open>Error branches\<close>

lemma refuse_simps [simp]:
  "az_error (refuse m q e s c) = Some e" "az_manager (refuse m q e s c) = m" "az_asked (refuse m q e s c) = q"
  by (simp_all add: refuse_def)

lemma admit_simps [simp]:
  "az_error (admit m q s c) = None" "az_manager (admit m q s c) = m" "az_asked (admit m q s c) = q"
  "az_audit (admit m q s c) = [(''allow'', s, c)]"
  by (simp_all add: admit_def)

definition structural_denial :: "auth_context \<Rightarrow> permission_profile \<Rightarrow> guard_action \<Rightarrow> bool" where
  "structural_denial cx p a \<longleftrightarrow>
     dc_verdict (Check (cx_readings cx) p a) = HardDeny \<and> \<not> dc_overridable (Check (cx_readings cx) p a)"

text \<open>
  A structural refusal is final: for a tool that is not always asked about, the call fails, the
  callback is not consulted, and the approval manager is neither consulted nor changed.
\<close>

theorem structural_denial_is_final:
  assumes "cx_profile cx = Some p" "\<not> isForcePromptTool (ga_tool a)"
    and "dc_verdict (Check (cx_readings cx) p a) = HardDeny" "\<not> dc_overridable (Check (cx_readings cx) p a)"
  shows "az_error (Authorize cx args a now rid fails m) \<noteq> None \<and>
         az_asked (Authorize cx args a now rid fails m) = [] \<and>
         az_manager (Authorize cx args a now rid fails m) = m"
  using assms by (simp add: Authorize_def Let_def)

section \<open>The ways to a yes\<close>

lemma remember_asked: "az_asked (remember cx ttl src e c scoped a asked now rid fails m) = asked"
  by (simp add: remember_def Let_def refuse_def admit_def split: sum.split option.split prod.split)

lemma ask_callback_yes:
  assumes "az_error (ask_callback cx args a dec denied scoped now rid fails m) = None"
  obtains ask req where "cx_ask cx = Some ask" "permits (ask req)"
    "az_asked (ask_callback cx args a dec denied scoped now rid fails m) = [req]" "rq_tool req = ga_tool a"
    "rq_shell req = ga_shell a" "rq_profile_hard_deny req = denied"
proof (cases "cx_ask cx")
  case None
  with assms show thesis by (simp add: ask_callback_def)
next
  case (Some ask)
  let ?req = "(plain_request a args (explainDecision dec))
                \<lparr>rq_profile_hard_deny := denied, rq_shell := ga_shell a, rq_workdir := ga_workdir a\<rparr>"
  have "permits (ask ?req)"
    using assms Some by (cases "ask ?req") (simp_all add: ask_callback_def permits_def Let_def)
  moreover have "az_asked (ask_callback cx args a dec denied scoped now rid fails m) = [?req]"
    using Some by (simp add: ask_callback_def Let_def remember_asked split: permission_decision.split)
  ultimately show thesis using that [OF Some, of ?req] by (simp add: plain_request_def)
qed

lemma escalate_yes:
  assumes "az_error (escalate cx args a dec strict denied now rid fails m) = None"
  shows "(\<exists>sid sc. cx_session cx = Some sid \<and> scopeFromAction (cx_digest cx) a = Inr sc \<and>
            manager_admits m sid sc now) \<or>
         (\<exists>ask req. cx_ask cx = Some ask \<and> permits (ask req) \<and> rq_tool req = ga_tool a \<and>
            rq_shell req = ga_shell a \<and> rq_profile_hard_deny req = denied \<and>
            az_asked (escalate cx args a dec strict denied now rid fails m) = [req])"
proof -
  have cb: ?thesis if "escalate cx args a dec strict denied now rid fails m =
      ask_callback cx args a dec denied scoped now rid fails m'" for scoped m'
    using assms ask_callback_yes [of cx args a dec denied scoped now rid fails m'] that by metis
  show ?thesis
  proof (cases "scopeFromAction (cx_digest cx) a")
    case (Inl e)
    then have "strict" using assms by (auto simp: escalate_def split: if_splits)
    with Inl show ?thesis by (intro cb) (simp add: escalate_def)
  next
    case (Inr sc)
    show ?thesis
    proof (cases "cx_session cx")
      case None
      with Inr show ?thesis by (intro cb) (simp add: escalate_def)
    next
      case (Some sid)
      obtain res m' where mt: "Match sid sc now m = (res, m')" by fastforce
      show ?thesis
      proof (cases res)
        case None
        with Inr Some mt show ?thesis by (intro cb) (simp add: escalate_def)
      next
        case hit: (Some r)
        with Inr Some mt show ?thesis by (auto simp: manager_admits_def)
      qed
    qed
  qed
qed

definition gates_open :: "auth_context \<Rightarrow> guard_action \<Rightarrow> permission_profile \<Rightarrow> bool" where
  "gates_open cx a p \<longleftrightarrow>
     toolreg_Check (cx_registered cx) (ga_tool a) \<and> \<not> cx_role_denies cx a \<and> cx_profile cx = Some p \<and>
     (cx_plan cx \<longrightarrow> PlanToolAllowed (ga_tool a))"

text \<open>Behind the gates, a tool that is not always asked about goes by the guard's decision.\<close>

definition guard_decides :: "auth_context \<Rightarrow> permission_profile \<Rightarrow> guard_action \<Rightarrow> guard_decision" where
  "guard_decides cx p a =
     (if dc_verdict (Check (cx_readings cx) p a) = Allow \<and> cx_confirm cx then ConfirmPrompt strict_reason
      else Check (cx_readings cx) p a)"

lemma Authorize_guarded:
  assumes "gates_open cx a p" "\<not> isForcePromptTool (ga_tool a)"
  shows "Authorize cx args a now rid fails m =
    (let dec = guard_decides cx p a;
         strict = (dc_verdict (Check (cx_readings cx) p a) = Allow \<and> cx_confirm cx) in
     case dc_verdict dec of
       Allow \<Rightarrow> admit m [] ''static_profile'' []
     | HardDeny \<Rightarrow>
         if \<not> dc_overridable dec then refuse m [] (Declined (explainDecision dec)) ''hard_deny'' ''firewall''
         else escalate cx args a dec strict True now rid fails m
     | Prompt \<Rightarrow>
         if \<not> dc_promptable dec then refuse m [] Unpromptable ''guard'' ''unpromptable''
         else escalate cx args a dec strict False now rid fails m)"
proof -
  have g: "toolreg_Check (cx_registered cx) (ga_tool a) = True" "cx_role_denies cx a = False"
    "cx_profile cx = Some p" "(cx_plan cx \<and> \<not> PlanToolAllowed (ga_tool a)) = False"
    "isForcePromptTool (ga_tool a) = False"
    using assms by (auto simp: gates_open_def)
  show ?thesis unfolding Authorize_def guard_decides_def Let_def
    by (simp only: g not_True_eq_False if_False option.case)
qed

lemma guard_decides_allow:
  "dc_verdict (guard_decides cx p a) = Allow \<longleftrightarrow> dc_verdict (Check (cx_readings cx) p a) = Allow \<and> \<not> cx_confirm cx"
  by (auto simp: guard_decides_def ConfirmPrompt_def prompt_def plain_decision_def)

lemma guard_decides_structural:
  "structural_denial cx p a \<Longrightarrow> guard_decides cx p a = Check (cx_readings cx) p a"
  by (simp add: guard_decides_def structural_denial_def)

lemma authorized_only_if_pre:
  assumes "az_error (Authorize cx args a now rid fails m) = None"
  shows "\<exists>p. gates_open cx a p \<and>
    (if isForcePromptTool (ga_tool a)
     then \<exists>ask req. cx_ask cx = Some ask \<and> permits (ask req) \<and> rq_force_prompt req
     else dc_verdict (Check (cx_readings cx) p a) = Allow \<and> \<not> cx_confirm cx \<or>
          \<not> structural_denial cx p a \<and>
          ((\<exists>sid sc. cx_session cx = Some sid \<and> scopeFromAction (cx_digest cx) a = Inr sc \<and>
              manager_admits m sid sc now) \<or>
           (\<exists>ask req. cx_ask cx = Some ask \<and> permits (ask req) \<and> rq_tool req = ga_tool a \<and>
              rq_shell req = ga_shell a)))"
proof -
  obtain p where p: "cx_profile cx = Some p" using assms by (cases "cx_profile cx") (auto simp: Authorize_def split: if_splits)
  have g: "gates_open cx a p" using assms p by (auto simp: Authorize_def gates_open_def split: if_splits)
  have "if isForcePromptTool (ga_tool a)
     then \<exists>ask req. cx_ask cx = Some ask \<and> permits (ask req) \<and> rq_force_prompt req
     else dc_verdict (Check (cx_readings cx) p a) = Allow \<and> \<not> cx_confirm cx \<or>
          \<not> structural_denial cx p a \<and>
          ((\<exists>sid sc. cx_session cx = Some sid \<and> scopeFromAction (cx_digest cx) a = Inr sc \<and>
              manager_admits m sid sc now) \<or>
           (\<exists>ask req. cx_ask cx = Some ask \<and> permits (ask req) \<and> rq_tool req = ga_tool a \<and>
              rq_shell req = ga_shell a))"
  proof (cases "isForcePromptTool (ga_tool a)")
    case True
    with assms g have "az_error (force_prompt cx args a m) = None" by (auto simp: Authorize_def gates_open_def)
    then have "\<exists>ask req. cx_ask cx = Some ask \<and> permits (ask req) \<and> rq_force_prompt req"
      by (auto simp: force_prompt_def Let_def split: option.splits if_splits)
    with True show ?thesis by simp
  next
    case False
    let ?dec = "guard_decides cx p a"
    note auth = assms [unfolded Authorize_guarded [OF g False] Let_def]
    show ?thesis
    proof (cases "dc_verdict ?dec")
      case Allow
      with False show ?thesis by (simp add: guard_decides_allow)
    next
      case HardDeny
      with auth have over: "dc_overridable ?dec" by (cases "dc_overridable ?dec") simp_all
      then have "\<not> structural_denial cx p a"
        using guard_decides_structural [of cx p a] by (metis structural_denial_def)
      with escalate_yes [of cx args a ?dec _ True now rid fails m] auth HardDeny over False show ?thesis by auto
    next
      case Prompt
      with auth have pr: "dc_promptable ?dec" by (cases "dc_promptable ?dec") simp_all
      have "\<not> structural_denial cx p a"
        using guard_decides_structural [of cx p a] Prompt
        by (metis structural_denial_def verdict.distinct)
      with escalate_yes [of cx args a ?dec _ False now rid fails m] auth Prompt pr False show ?thesis by auto
    qed
  qed
  with g show ?thesis by blast
qed

text \<open>
  C3: A call is authorised only through a registered tool, with a profile, within the role and the
  plan mode, and then in one of four ways: the callback permits a tool that is always asked
  about, the guard allows it and no confirmation is demanded, an approval on record has its
  scope, or the callback permits it -- the last two never against a structural refusal.
\<close>

theorem authorized_only_if:
  assumes "az_error (Authorize cx args a now rid fails m) = None"
  shows "\<exists>p. gates_open cx a p \<and>
    (if isForcePromptTool (ga_tool a)
     then \<exists>ask req. cx_ask cx = Some ask \<and> permits (ask req) \<and> rq_force_prompt req
     else dc_verdict (Check (cx_readings cx) p a) = Allow \<and> \<not> cx_confirm cx \<or>
          \<not> structural_denial cx p a \<and>
          ((\<exists>sid sc. cx_session cx = Some sid \<and> scopeFromAction (cx_digest cx) a = Inr sc \<and>
              manager_admits m sid sc now) \<or>
           (\<exists>ask req. cx_ask cx = Some ask \<and> permits (ask req) \<and> rq_tool req = ga_tool a \<and>
              rq_shell req = ga_shell a)))"
  using assms by (rule authorized_only_if_pre)

section \<open>Without a callback\<close>

text \<open>
  Where no callback and no approval manager are bound, a call is authorised exactly when the
  gates are open, the tool is not always asked about, and the guard alone allows it.
\<close>

theorem no_callback_is_static:
  assumes "cx_ask cx = None" "cx_session cx = None"
  shows "az_error (Authorize cx args a now rid fails m) = None \<longleftrightarrow>
    (\<exists>p. gates_open cx a p \<and> \<not> isForcePromptTool (ga_tool a) \<and>
         dc_verdict (Check (cx_readings cx) p a) = Allow \<and> \<not> cx_confirm cx)"
proof
  assume "az_error (Authorize cx args a now rid fails m) = None"
  from authorized_only_if_pre [OF this] assms show "\<exists>p. gates_open cx a p \<and> \<not> isForcePromptTool (ga_tool a) \<and>
         dc_verdict (Check (cx_readings cx) p a) = Allow \<and> \<not> cx_confirm cx"
    by (auto split: if_splits)
next
  assume "\<exists>p. gates_open cx a p \<and> \<not> isForcePromptTool (ga_tool a) \<and>
         dc_verdict (Check (cx_readings cx) p a) = Allow \<and> \<not> cx_confirm cx"
  then show "az_error (Authorize cx args a now rid fails m) = None"
    by (auto simp: Authorize_def gates_open_def Let_def)
qed

section \<open>What an approval is remembered for\<close>

lemma remember_session:
  assumes "az_audit (remember cx ttl src e c scoped a asked now rid fails m) = [(''allow'', ''interactive_session'', [])]"
  obtains sid sc r where "cx_session cx = Some sid" "scoped = Inr sc" "ap_scope r = sc" "ap_expires r = approvalExpiry ttl now"
    "Record sid r now fails m = (Inr (), az_manager (remember cx ttl src e c scoped a asked now rid fails m))"
proof (cases scoped)
  case (Inl x)
  with assms show thesis by (simp add: remember_def)
next
  case (Inr sc)
  show thesis
  proof (cases "cx_session cx")
    case None
    with Inr assms show thesis by (simp add: remember_def refuse_def)
  next
    case (Some sid)
    let ?r = "\<lparr>ap_id = rid, ap_action = ga_tool a, ap_scope = sc, ap_ttl = ttl, ap_source = ''user'',
               ap_created = 0, ap_expires = approvalExpiry ttl now, ap_process = []\<rparr>"
    obtain res m' where rec: "Record sid ?r now fails m = (res, m')" by fastforce
    show thesis
    proof (cases res)
      case (Inl x)
      with Inr Some rec assms show thesis by (simp add: remember_def refuse_def)
    next
      case ok: (Inr u)
      with Inr Some rec have "az_manager (remember cx ttl src e c scoped a asked now rid fails m) = m'"
        by (simp add: remember_def)
      with that [OF Some Inr, of ?r] rec ok show thesis by simp
    qed
  qed
qed

lemma ask_callback_session:
  assumes "az_audit (ask_callback cx args a dec denied scoped now rid fails m) = [(''allow'', ''interactive_session'', [])]"
  obtains sid sc r where "cx_session cx = Some sid" "scoped = Inr sc" "ap_scope r = sc"
    "ap_expires r = approvalExpiry TTLSession now \<or> ap_expires r = approvalExpiry TTLPersistent now"
    "Record sid r now fails m = (Inr (), az_manager (ask_callback cx args a dec denied scoped now rid fails m))"
proof (cases "cx_ask cx")
  case None
  with assms show thesis by (simp add: ask_callback_def refuse_def)
next
  case (Some ask)
  then show thesis
    using assms that
    by (cases "ask ((plain_request a args (explainDecision dec))
                \<lparr>rq_profile_hard_deny := denied, rq_shell := ga_shell a, rq_workdir := ga_workdir a\<rparr>)")
      (auto simp: ask_callback_def Let_def refuse_def split: if_splits elim!: remember_session)
qed

lemma escalate_session:
  assumes "az_audit (escalate cx args a dec strict denied now rid fails m) = [(''allow'', ''interactive_session'', [])]"
  obtains sid sc r m0 where "cx_session cx = Some sid" "scopeFromAction (cx_digest cx) a = Inr sc" "ap_scope r = sc"
    "ap_expires r = approvalExpiry TTLSession now \<or> ap_expires r = approvalExpiry TTLPersistent now"
    "Record sid r now fails m0 = (Inr (), az_manager (escalate cx args a dec strict denied now rid fails m))"
  using assms unfolding escalate_def Let_def
  by (cases "scopeFromAction (cx_digest cx) a"; cases "cx_session cx")
    (auto simp: refuse_def split: if_splits prod.splits option.splits elim!: ask_callback_session)

lemma escalate_admits:
  assumes "scopeFromAction (cx_digest cx) a = Inr sc" "cx_session cx = Some sid" "manager_admits m sid sc now"
  shows "az_error (escalate cx args a dec strict denied now rid fails m) = None"
    "az_asked (escalate cx args a dec strict denied now rid fails m) = []"
  using assms by (cases "Match sid sc now m"; auto simp: escalate_def manager_admits_def)+

text \<open>Neither the callback nor the content of files matters for the gates and the decision.\<close>

lemma without_callback [simp]:
  "gates_open (cx\<lparr>cx_ask := x\<rparr>) a p = gates_open cx a p" "gates_open (cx\<lparr>cx_digest := g\<rparr>) a p = gates_open cx a p"
  "guard_decides (cx\<lparr>cx_ask := x\<rparr>) p a = guard_decides cx p a"
  "guard_decides (cx\<lparr>cx_digest := g\<rparr>) p a = guard_decides cx p a"
  by (simp_all add: gates_open_def guard_decides_def)

lemma authorized_gates:
  assumes "az_error (Authorize cx args a now rid fails m) = None"
  obtains p where "gates_open cx a p"
  using authorized_only_if_pre [OF assms] by blast

lemma guarded_session:
  assumes g: "gates_open cx a p" "\<not> isForcePromptTool (ga_tool a)"
    and au: "az_audit (Authorize cx args a now rid fails m) = [(''allow'', ''interactive_session'', [])]"
  obtains denied where
    "Authorize cx args a now rid fails m =
       escalate cx args a (guard_decides cx p a) (dc_verdict (Check (cx_readings cx) p a) = Allow \<and> cx_confirm cx)
         denied now rid fails m"
    "\<And>g args' later rid' fails' m'.
       Authorize (cx\<lparr>cx_ask := None, cx_digest := g\<rparr>) args' a later rid' fails' m' =
       escalate (cx\<lparr>cx_ask := None, cx_digest := g\<rparr>) args' a (guard_decides cx p a)
         (dc_verdict (Check (cx_readings cx) p a) = Allow \<and> cx_confirm cx) denied later rid' fails' m'"
proof -
  have g': "gates_open (cx\<lparr>cx_ask := None, cx_digest := g\<rparr>) a p" for g using g by simp
  note eq = Authorize_guarded [OF g] Authorize_guarded [OF g' g(2)]
  show thesis
  proof (cases "dc_verdict (guard_decides cx p a)")
    case Allow
    with au show thesis by (simp add: eq)
  next
    case Prompt
    with au have "dc_promptable (guard_decides cx p a)"
      by (cases "dc_promptable (guard_decides cx p a)") (simp_all add: eq refuse_def)
    with Prompt show thesis by (intro that [of False]) (simp_all add: eq)
  next
    case HardDeny
    with au have "dc_overridable (guard_decides cx p a)"
      by (cases "dc_overridable (guard_decides cx p a)") (simp_all add: eq refuse_def)
    with HardDeny show thesis by (intro that [of True]) (simp_all add: eq)
  qed
qed

text \<open>
  A call runs no script file, or one that could be read and hashed when the call was approved and
  has the same content now.
\<close>

definition same_script :: "(string \<Rightarrow> string option) \<Rightarrow> (string \<Rightarrow> string option) \<Rightarrow> guard_action \<Rightarrow> bool" where
  "same_script before files a \<longleftrightarrow> scriptPathFromCommand (ga_shell a) = []
     \<or> CommandRunsAScript before (ga_shell a) (ga_workdir a)
       \<and> hashScriptForCommand files (ga_shell a) (ga_workdir a) = hashScriptForCommand before (ga_shell a) (ga_workdir a)"

lemma same_script_scope: "same_script before files a \<Longrightarrow> scopeFromAction files a = scopeFromAction before a"
proof -
  assume "same_script before files a"
  then have h: "hashScriptForCommand files (ga_shell a) (ga_workdir a) = hashScriptForCommand before (ga_shell a) (ga_workdir a)"
    by (auto simp: same_script_def hashScriptForCommand_def)
  show ?thesis unfolding scopeFromAction_def h ..
qed

text \<open>
  C27: A call that was approved for the session is not asked about again: for eight hours the same
  call passes with no callback bound, whatever other grants were recorded in between.  A call that
  runs a script file is the same call as long as the file is readable and has the content that was
  approved; one whose script cannot be read is left out.
\<close>

theorem session_approval_remembered:
  assumes "az_error (Authorize cx args a now rid fails m) = None"
    and "az_audit (Authorize cx args a now rid fails m) = [(''allow'', ''interactive_session'', [])]"
    and "later < now + 8 * 3600 * 10 ^ 9" "same_script (cx_digest cx) files a"
  shows "let m' = foldl (\<lambda>m (s, q, t, f). snd (Record s q t f m)) (az_manager (Authorize cx args a now rid fails m)) between;
             again = Authorize (cx\<lparr>cx_ask := None, cx_digest := files\<rparr>) args' a later rid' fails' m' in
         az_error again = None \<and> az_asked again = []"
proof -
  obtain p where g: "gates_open cx a p" using assms(1) by (rule authorized_gates)
  have np: "\<not> isForcePromptTool (ga_tool a)"
  proof
    assume "isForcePromptTool (ga_tool a)"
    with g have "Authorize cx args a now rid fails m = force_prompt cx args a m"
      by (auto simp: Authorize_def gates_open_def)
    with assms(2) show False
      by (auto simp: force_prompt_def Let_def refuse_def split: option.splits if_splits)
  qed
  let ?d = "guard_decides cx p a" and ?s = "dc_verdict (Check (cx_readings cx) p a) = Allow \<and> cx_confirm cx"
  obtain denied where eq: "Authorize cx args a now rid fails m = escalate cx args a ?d ?s denied now rid fails m"
    and again: "\<And>g args' later rid' fails' m'. Authorize (cx\<lparr>cx_ask := None, cx_digest := g\<rparr>) args' a later rid' fails' m' =
      escalate (cx\<lparr>cx_ask := None, cx_digest := g\<rparr>) args' a ?d ?s denied later rid' fails' m'"
    using guarded_session [OF g np assms(2)] by blast
  from escalate_session [OF assms(2) [unfolded eq]] obtain sid sc r m0 where r:
      "cx_session cx = Some sid" "scopeFromAction (cx_digest cx) a = Inr sc" "ap_scope r = sc"
      "ap_expires r = approvalExpiry TTLSession now \<or> ap_expires r = approvalExpiry TTLPersistent now"
      "Record sid r now fails m0 = (Inr (), az_manager (Authorize cx args a now rid fails m))"
    unfolding eq by blast
  have "\<not> expired later r"
    using r(4) assms(3) by (auto simp: expired_def approvalExpiry_def TTLOnce_def TTLSession_def TTLPersistent_def)
  from approvals.grants_accumulate [OF r(5) this, of between] r(1-3) same_script_scope [OF assms(4)] show ?thesis
    unfolding Let_def again by (auto intro!: escalate_admits)
qed

section \<open>Mandatory approval\<close>

text \<open>
  A call that must be approved is approved by nothing but the callback's plain yes, even where
  the profile allows the tool: no sticky answer, no approval on record.
\<close>

theorem AuthorizeApprovalRequired_iff:
  "fst (AuthorizeApprovalRequired cx args a) = None \<longleftrightarrow>
   (\<exists>p ask req. gates_open cx a p \<and> cx_ask cx = Some ask \<and> ask req = P_allow \<and> rq_approval_required req \<and>
      rq_tool req = ga_tool a \<and> snd (AuthorizeApprovalRequired cx args a) = [req])"
proof (cases "\<exists>p. gates_open cx a p")
  case True
  then obtain p where g: "gates_open cx a p" by blast
  show ?thesis
  proof (cases "cx_ask cx")
    case None
    with g show ?thesis by (auto simp: AuthorizeApprovalRequired_def gates_open_def)
  next
    case (Some ask)
    let ?d = "Check (cx_readings cx) p a"
    define r where "r = (if dc_reason ?d \<noteq> Literal [] then dc_reason ?d else explicit_reason)"
    define req where "req = (plain_request a args r)\<lparr>rq_approval_required := True\<rparr>"
    have "AuthorizeApprovalRequired cx args a = (if ask req = P_allow then (None, [req]) else (Some (Declined r), [req]))"
      using g Some by (auto simp: AuthorizeApprovalRequired_def gates_open_def Let_def r_def req_def)
    moreover have "rq_approval_required req" "rq_tool req = ga_tool a" by (simp_all add: req_def plain_request_def)
    ultimately show ?thesis using g Some by auto
  qed
next
  case False
  then have "fst (AuthorizeApprovalRequired cx args a) \<noteq> None"
    by (auto simp: AuthorizeApprovalRequired_def gates_open_def split: option.split)
  with False show ?thesis by blast
qed

section \<open>Concrete calls\<close>

definition sample_context :: "permission_profile \<Rightarrow> permission_decision \<Rightarrow> auth_context" where
  "sample_context p d =
     \<lparr>cx_registered = [''shell_run''], cx_role_denies = (\<lambda>_. False), cx_profile = Some p, cx_plan = False,
      cx_confirm = False, cx_session = Some ''s1'', cx_ask = Some (\<lambda>_. d), cx_digest = (\<lambda>_. None),
      cx_readings = sample_readings\<rparr>"

definition sample_manager :: manager where
  "sample_manager = \<lparr>mn_kv = None, mn_process = ''p1'', mn_persistent = [], mn_sessions = (\<lambda>_. []), mn_log = []\<rparr>"

definition careful_profile :: permission_profile where
  "careful_profile = open_profile\<lparr>pp_shell := \<lparr>sp_policy = ''denylist'', sp_patterns = [''ls *''], sp_rules = []\<rparr>\<rparr>"

lemma structural_denial_is_final_witness:
  "az_error (Authorize (sample_context typo_profile P_allow) [] (shell_action ''shell_run'' ''ls'') 0 ''r1'' False sample_manager) \<noteq> None"
proof -
  let ?a = "shell_action ''shell_run'' ''ls''" and ?cx = "sample_context typo_profile P_allow"
  have "cx_profile ?cx = Some typo_profile" by (simp add: sample_context_def)
  moreover have "\<not> isForcePromptTool (ga_tool ?a)" by code_simp
  moreover have "dc_verdict (Check (cx_readings ?cx) typo_profile ?a) = HardDeny" by code_simp
  moreover have "\<not> dc_overridable (Check (cx_readings ?cx) typo_profile ?a)" by code_simp
  ultimately show ?thesis
    using structural_denial_is_final [of ?cx typo_profile ?a "[]" 0 "''r1''" False sample_manager] by blast
qed

abbreviation denied_call :: guard_action where
  "denied_call \<equiv> shell_action ''shell_run'' ''ls -a''"

abbreviation asked_context :: "permission_decision \<Rightarrow> auth_context" where
  "asked_context \<equiv> sample_context careful_profile"

lemma authorized_only_if_witness:
  "\<exists>p. gates_open (asked_context P_allow) denied_call p"
proof -
  have "az_error (Authorize (asked_context P_allow) [] denied_call 0 ''r1'' False sample_manager) = None" by code_simp
  from authorized_only_if [OF this] show ?thesis by blast
qed

lemma no_callback_is_static_witness:
  "az_error (Authorize ((asked_context P_allow)\<lparr>cx_ask := None, cx_session := None\<rparr>) [] denied_call 0 ''r1'' False sample_manager) \<noteq> None"
proof -
  let ?cx = "(asked_context P_allow)\<lparr>cx_ask := None, cx_session := None\<rparr>"
  have n: "cx_ask ?cx = None" "cx_session ?cx = None" by simp_all
  have "dc_verdict (Check (cx_readings ?cx) careful_profile denied_call) \<noteq> Allow" by code_simp
  moreover have "cx_profile ?cx = Some careful_profile" by (simp add: sample_context_def)
  ultimately show ?thesis
    using no_callback_is_static [OF n, of "[]" denied_call 0 "''r1''" False sample_manager]
    by (auto simp: gates_open_def)
qed

lemma session_approval_remembered_witness:
  "az_error (Authorize ((asked_context P_allow_session)\<lparr>cx_ask := None, cx_digest := (\<lambda>_. Some ''h'')\<rparr>) [] denied_call (3600 * 10 ^ 9) ''r2'' False
     (az_manager (Authorize (asked_context P_allow_session) [] denied_call 0 ''r1'' False sample_manager))) = None"
proof -
  let ?first = "Authorize (asked_context P_allow_session) [] denied_call 0 ''r1'' False sample_manager"
  have "az_error ?first = None" by code_simp
  moreover have "az_audit ?first = [(''allow'', ''interactive_session'', [])]" by code_simp
  moreover have "3600 * 10 ^ 9 < (0 :: int) + 8 * 3600 * 10 ^ 9" by simp
  moreover have "scriptPathFromCommand (ga_shell denied_call) = []" by code_simp
  then have "same_script (cx_digest (asked_context P_allow_session)) (\<lambda>_. Some ''h'') denied_call" unfolding same_script_def ..
  ultimately show ?thesis
    using session_approval_remembered [of "asked_context P_allow_session" "[]" denied_call 0 "''r1''" False
        sample_manager "3600 * 10 ^ 9" "\<lambda>_. Some ''h''" "[]" "[]" "''r2''" False] by (simp add: Let_def)
qed

text \<open>
  A script that cannot be read has an empty digest, and the scope of its call is recorded all the
  same: an approval for the session is remembered by the path alone, and the next call of the
  unreadable script passes without a question.
\<close>

definition script_context :: auth_context where
  "script_context = sample_context (open_profile\<lparr>pp_shell := \<lparr>sp_policy = ''denylist'', sp_patterns = [''sh *''], sp_rules = []\<rparr>\<rparr>) P_allow_session"

abbreviation script_call :: guard_action where
  "script_call \<equiv> shell_action ''shell_run'' ''sh x.sh''"

theorem unreadable_script_is_remembered:
  "scriptPathFromCommand (ga_shell script_call) = ''x.sh'' \<and> \<not> CommandRunsAScript (cx_digest script_context) (ga_shell script_call) (ga_workdir script_call)
   \<and> az_error (Authorize script_context [] script_call 0 ''r1'' False sample_manager) = None
   \<and> az_error (Authorize (script_context\<lparr>cx_ask := None\<rparr>) [] script_call 1 ''r2'' False
       (az_manager (Authorize script_context [] script_call 0 ''r1'' False sample_manager))) = None
   \<and> az_error (Authorize (script_context\<lparr>cx_ask := None\<rparr>) [] script_call 1 ''r2'' False sample_manager) \<noteq> None"
  by (intro conjI) code_simp+

end
