(* ===== verification/ClassifyProps.thy ===== *)
theory ClassifyProps
  imports Classify AuthorizeProps
begin

text \<open>
  The classifier against a specification of what it must not miss: a disaster, written plainly or
  behind any stack of runners, wrappers and chains, is in one of the two classes that are refused
  in every mode, whatever the depth of the stack.  Then what the readers of the package disagree
  on.
\<close>

section \<open>Classes\<close>

abbreviation refused_class :: "destruction \<Rightarrow> bool" where
  "refused_class d \<equiv> d \<ge> DestructionCatastrophic"

lemma refused_iff: "refused_class d \<longleftrightarrow> d = DestructionCatastrophic \<or> d = DestructionUnreadable"
  by (cases d) (simp_all add: less_eq_destruction_def)

lemma refused_max [simp]: "refused_class (maxDestruction a b) \<longleftrightarrow> refused_class a \<or> refused_class b"
  by (auto simp: maxDestruction_max max_def)

lemma worst_all_start: "w \<le> worst_all w ds"
proof (induction ds arbitrary: w)
  case (Cons d ds)
  have "w \<le> maxDestruction w d" by (simp add: maxDestruction_max)
  also have "\<dots> \<le> worst_all (maxDestruction w d) ds" by (rule Cons.IH)
  finally show ?case by simp
qed simp

lemma worst_all_ge: "x \<in> set ds \<Longrightarrow> x \<le> worst_all w ds"
proof (induction ds arbitrary: w)
  case (Cons d ds)
  have "d \<le> maxDestruction w d" by (simp add: maxDestruction_max)
  also have "\<dots> \<le> worst_all w (d # ds)" using worst_all_start by simp
  finally show ?case using Cons by auto
qed simp

lemma refused_worst_all: "refused_class x \<Longrightarrow> x \<in> set ds \<Longrightarrow> refused_class (worst_all w ds)"
  using worst_all_ge order_trans by blast

lemma refused_worst_until:
  "refused_class w \<or> (\<exists>x \<in> set ds. refused_class x) \<Longrightarrow> refused_class (worst_until w ds)"
  by (induction w ds rule: worst_until.induct) (auto simp: Let_def)

section \<open>Programs that carry a command\<close>

definition carries_nothing :: "string \<Rightarrow> bool" where
  "carries_nothing p \<longleftrightarrow>
     p \<notin> set shellWrappers \<and> Option.is_none (map_of windowsShellWrappers p) \<and> p \<notin> set suLikeRunners \<and>
     p \<noteq> ''eval'' \<and> p \<notin> set firstOperandCommands \<and> Option.is_none (map_of remoteShellRunners p) \<and>
     Option.is_none (map_of prefixRunners p) \<and> p \<noteq> ''find''"

lemma carries_nothing_strings:
  assumes "carries_nothing p"
  shows "nested_strings p args = []" "stripped_commands p args = []"
  using assms
  by (simp_all add: carries_nothing_def Option.is_none_def nested_strings_def present_def nestedCommandUnwrappers_def
      unwrapShellCommand.simps unwrapWindowsShellCommand_def unwrapSuCommand_def unwrapEvalCommand_def
      unwrapArgvCommand_def unwrapRemoteCommand_def stripped_commands_def commandPrefixStrippers_def
      stripCommandPrefix_def stripFindExec_def)

text \<open>No program that deletes or changes owners carries another command.\<close>

lemma operand_program_carries_nothing:
  assumes "p \<in> set deletionPrograms \<or> p \<in> set recursiveOwnershipPrograms"
  shows "nested_strings p args = []" "stripped_commands p args = []"
proof -
  have "list_all carries_nothing (deletionPrograms @ recursiveOwnershipPrograms)" by code_simp
  then have "carries_nothing p" using assms by (auto simp: list_all_iff)
  then show "nested_strings p args = []" "stripped_commands p args = []" by (rule carries_nothing_strings)+
qed

lemma some_present: "list_ex (\<lambda>u. f u \<noteq> None) us \<longleftrightarrow> present (map f us) \<noteq> []"
  by (induction us) (auto simp: present_def split: option.split)

lemma hasNestedCommand_iff:
  "hasNestedCommand p args \<longleftrightarrow> nested_strings p args \<noteq> [] \<or> stripped_commands p args \<noteq> []"
  unfolding hasNestedCommand_def nested_strings_def stripped_commands_def some_present ..

text \<open>What was found in a payload or behind a runner is not lost in the rest of the grading.\<close>

lemma refused_grade_operands:
  assumes "refused_class worst" "p \<notin> set deletionPrograms" "p \<notin> set recursiveOwnershipPrograms"
  shows "refused_class (grade_operands h wd p args worst)"
  using assms by (simp add: grade_operands_def Let_def isRecursiveOwnershipOnCatastrophicTarget_def refused_iff)

lemma classifyLexedArgv_carried:
  assumes "depth > 0"
    and "(\<exists>s \<in> set (nested_strings p args). refused_class (classifyDestruction h s wd (depth - 1) False)) \<or>
         (\<exists>c \<in> set (stripped_commands p args). refused_class (classifyLexedArgv h (fst c) (snd c) wd (depth - 1) scan))"
  shows "refused_class (classifyLexedArgv h p args wd depth scan)"
proof -
  have np: "p \<notin> set deletionPrograms" "p \<notin> set recursiveOwnershipPrograms"
    using assms(2) operand_program_carries_nothing [of p args] by auto
  define w1 where "w1 = worst_until DestructionNone
      (map (\<lambda>inner. classifyDestruction h inner wd (depth - 1) False) (nested_strings p args))"
  define w2 where "w2 = worst_until w1
      (map (\<lambda>c. classifyLexedArgv h (fst c) (snd c) wd (depth - 1) scan) (stripped_commands p args))"
  have w2: "refused_class w2" unfolding w2_def
  proof (rule refused_worst_until)
    show "refused_class w1 \<or> (\<exists>x \<in> set (map (\<lambda>c. classifyLexedArgv h (fst c) (snd c) wd (depth - 1) scan)
            (stripped_commands p args)). refused_class x)"
      using assms(2) unfolding w1_def by (auto intro!: refused_worst_until)
  qed
  have d: "(depth > 0) = True" "(depth = 0) = False" using assms(1) by simp_all
  show ?thesis
    unfolding classifyLexedArgv.simps [of h p args wd depth scan] Let_def
    unfolding d if_True w1_def [symmetric] w2_def [symmetric]
    using w2 np by (auto intro!: refused_grade_operands split: option.split)
qed

section \<open>Disasters\<close>

text \<open>
  The specification: a recursive deletion of a catastrophic target and the destruction of a
  device; the same behind a runner, in a payload, in a segment of a chain.  \<open>plain_command\<close> says
  that the string is one command to every splitter; a blank string is no command.
\<close>

definition plain_command :: "string \<Rightarrow> bool" where
  "plain_command cmd \<longleftrightarrow>
     (\<not> hasControlOperator cmd \<or> splitIntoStrictlySmallerSegments cmd = None) \<and>
     \<not> (snd (DecodeANSIC cmd) \<and> hasControlOperator (fst (DecodeANSIC cmd)))"

inductive disaster :: "host \<Rightarrow> string \<Rightarrow> string \<Rightarrow> bool"
  and disaster_argv :: "host \<Rightarrow> string \<Rightarrow> string \<Rightarrow> string list \<Rightarrow> bool" for h wd where
  deletion: "p \<in> set deletionPrograms \<Longrightarrow> deleteIsRecursive p args \<Longrightarrow> t \<in> set (deleteTargets args) \<Longrightarrow>
    isCatastrophicTarget h t (cleanScope h wd) \<Longrightarrow> disaster_argv h wd p args"
| storage: "isStorageDestruction p args \<Longrightarrow> disaster_argv h wd p args"
| behind_runner: "(p', args') \<in> set (stripped_commands p args) \<Longrightarrow> disaster_argv h wd p' args' \<Longrightarrow>
    disaster_argv h wd p args"
| in_payload: "inner \<in> set (nested_strings p args) \<Longrightarrow> disaster h wd inner \<Longrightarrow> disaster_argv h wd p args"
| in_chain: "trim_space cmd \<noteq> [] \<Longrightarrow> hasControlOperator cmd \<Longrightarrow> splitIntoStrictlySmallerSegments cmd = Some segs \<Longrightarrow>
    seg \<in> set segs \<Longrightarrow> disaster h wd seg \<Longrightarrow> disaster h wd cmd"
| command: "trim_space cmd \<noteq> [] \<Longrightarrow> plain_command cmd \<Longrightarrow> lexShellLite cmd = Some (p, args) \<Longrightarrow> disaster_argv h wd p args \<Longrightarrow>
    disaster h wd cmd"

lemma spent_budget: "hasNestedCommand p args \<Longrightarrow> classifyLexedArgv h p args wd 0 scan = DestructionUnreadable"
  by (subst classifyLexedArgv.simps) simp

lemma carried_refused:
  assumes "nested_strings p args \<noteq> [] \<or> stripped_commands p args \<noteq> []"
    and "depth > 0 \<Longrightarrow>
         (\<exists>s \<in> set (nested_strings p args). refused_class (classifyDestruction h s wd (depth - 1) False)) \<or>
         (\<exists>c \<in> set (stripped_commands p args). refused_class (classifyLexedArgv h (fst c) (snd c) wd (depth - 1) scan))"
  shows "refused_class (classifyLexedArgv h p args wd depth scan)"
proof (cases "depth = 0")
  case True
  with assms(1) spent_budget [of p args] show ?thesis by (simp add: hasNestedCommand_iff refused_iff)
next
  case False
  with assms(2) show ?thesis by (intro classifyLexedArgv_carried) auto
qed

text \<open>A command that is catastrophic by its operands is graded so, unless it is refused before.\<close>

lemma operands_refused:
  assumes "\<And>worst. refused_class (grade_operands h wd p args worst)"
  shows "refused_class (classifyLexedArgv h p args wd depth scan)"
  by (subst classifyLexedArgv.simps) (simp add: Let_def assms refused_iff [of DestructionCatastrophic] refused_iff [of DestructionUnreadable])

lemma deletion_refused:
  assumes "p \<in> set deletionPrograms" "deleteIsRecursive p args" "t \<in> set (deleteTargets args)"
    and "isCatastrophicTarget h t (cleanScope h wd)"
  shows "refused_class (grade_operands h wd p args worst)"
proof -
  have "list_all (\<lambda>p. p \<notin> set recursiveOwnershipPrograms) deletionPrograms" by code_simp
  then have "p \<notin> set recursiveOwnershipPrograms" using assms(1) by (simp add: list_all_iff)
  with assms show ?thesis
    by (auto simp: grade_operands_def Let_def isRecursiveOwnershipOnCatastrophicTarget_def list_ex_iff)
qed

lemma storage_refused: "isStorageDestruction p args \<Longrightarrow> refused_class (grade_operands h wd p args worst)"
  by (simp add: grade_operands_def)

lemma classify_chain:
  assumes "trim_space cmd \<noteq> []" "hasControlOperator cmd" "splitIntoStrictlySmallerSegments cmd = Some segs" "seg \<in> set segs"
    and "refused_class (classifyDestruction h seg wd depth False)"
  shows "refused_class (classifyDestruction h cmd wd depth toplevel)"
proof -
  have "refused_class (worst_all w (map (\<lambda>seg. classifyDestruction h seg wd depth False) segs))" for w
    using refused_worst_all [OF assms(5)] assms(4) by auto
  then show ?thesis
    unfolding classifyDestruction.simps [of h cmd wd depth toplevel] Let_def using assms(1-3) by simp
qed

lemma classify_plain:
  assumes "trim_space cmd \<noteq> []" "plain_command cmd" "lexShellLite cmd = Some (p, args)"
    and "refused_class (classifyLexedArgv h p args wd depth True)"
  shows "refused_class (classifyDestruction h cmd wd depth toplevel)"
proof -
  have c: "(if hasControlOperator cmd then splitIntoStrictlySmallerSegments cmd else None) = None"
    "(toplevel \<and> snd (DecodeANSIC cmd) \<and> hasControlOperator (fst (DecodeANSIC cmd))) = False"
    "(trim_space cmd = []) = False"
    using assms(1,2) by (auto simp: plain_command_def)
  show ?thesis
    unfolding classifyDestruction.simps [of h cmd wd depth toplevel] Let_def c
    unfolding if_False option.case assms(3) prod.case refused_max
    using assms(4) by blast
qed

text \<open>Whatever the budget: a disaster is in one of the two refused classes.\<close>

lemma disaster_refused:
  "disaster h wd cmd \<Longrightarrow> (\<And>depth toplevel. refused_class (classifyDestruction h cmd wd depth toplevel))"
  "disaster_argv h wd p args \<Longrightarrow> (\<And>depth scan. refused_class (classifyLexedArgv h p args wd depth scan))"
proof (induction rule: disaster_disaster_argv.inducts)
  case (deletion p args t)
  then show ?case by (intro operands_refused deletion_refused)
next
  case (storage p args)
  then show ?case by (intro operands_refused storage_refused)
next
  case (behind_runner p' args' p args)
  then show ?case by (intro carried_refused) force+
next
  case (in_payload inner p args)
  then show ?case by (intro carried_refused) force+
next
  case (in_chain cmd segs seg)
  show ?case by (rule classify_chain [OF in_chain(1-4) in_chain(6)])
next
  case (command cmd p args)
  then show ?case by (intro classify_plain)
qed

section \<open>No profile, mode, approval or callback lets a disaster run\<close>

text \<open>
  A disaster is in a refused class, whatever the depth of runners, payloads and chains it is
  buried in, the unwrapping budget notwithstanding.
\<close>

theorem disaster_is_classified:
  "disaster h wd cmd \<Longrightarrow> refused_class (ClassifyDestruction h cmd wd)"
  unfolding ClassifyDestruction_def by (rule disaster_refused)

lemma disaster_not_blank: "disaster h wd cmd \<Longrightarrow> cmd \<noteq> []"
proof -
  have "trim_space [] = []" by code_simp
  then show "disaster h wd cmd \<Longrightarrow> cmd \<noteq> []" by (auto elim: disaster.cases)
qed

lemma refused_check:
  assumes "ga_shell a \<noteq> []" "refused_class (rd_classify rd (ga_shell a) (ga_workdir a))"
  shows "dc_verdict (Check rd p a) = HardDeny \<and> \<not> dc_overridable (Check rd p a)"
proof -
  have "tier_of (checkDestructive rd a) = Floor"
    using assms by (auto simp: checkDestructive_tier refused_iff)
  then have "tier_of (check_once rd p a) = Floor" by (simp add: check_once_tier)
  moreover have "a \<in> set (readings_of a)" by (simp add: readings_of_def)
  ultimately have "Floor \<le> tier_of (Check rd p a)"
    using Check_tier_le [of rd p a "tier_of (Check rd p a)"] by force
  then have "tier_of (Check rd p a) = Floor" by simp
  then show ?thesis using tier_of_verdict(3) by blast
qed

text \<open>
  C2: With the readings of the package in place, a call whose command is a disaster is refused in
  every context: whatever the profile, the mode, the approvals on record and the answers of the
  callback, unless the tool is one that is always put to the user.  Nobody is asked.
\<close>

theorem disaster_never_authorized:
  assumes "disaster h (ga_workdir a) (ga_shell a)" "cx_readings cx = guard_readings h"
    and "\<not> isForcePromptTool (ga_tool a)"
  shows "az_error (Authorize cx args a now rid fails m) \<noteq> None \<and>
         az_asked (Authorize cx args a now rid fails m) = [] \<and>
         az_manager (Authorize cx args a now rid fails m) = m"
proof (cases "\<exists>p. gates_open cx a p")
  case True
  then obtain p where g: "gates_open cx a p" by blast
  have "rd_classify (cx_readings cx) = ClassifyDestruction h" using assms(2) by (simp add: guard_readings_def)
  then have "dc_verdict (Check (cx_readings cx) p a) = HardDeny \<and> \<not> dc_overridable (Check (cx_readings cx) p a)"
    using refused_check [OF disaster_not_blank [OF assms(1)]] disaster_refused(1) [OF assms(1)]
    by (simp add: ClassifyDestruction_def)
  then show ?thesis
    by (simp add: Authorize_guarded [OF g assms(3)] guard_decides_def Let_def)
next
  case False
  then show ?thesis
    by (auto simp: Authorize_def gates_open_def split: option.split)
qed

section \<open>A runner nobody knows\<close>

lemma trailing_loop_start: "v \<le> worst \<Longrightarrow> v \<le> trailing_loop word argv read_words runs worst args"
proof (induction args arbitrary: worst)
  case (Cons a args)
  have m: "v \<le> maxDestruction x d" if "v \<le> x" for x d
    using that by (simp add: maxDestruction_max le_max_iff_disj)
  define w1 where "w1 = (if read_words then maxDestruction worst (word a) else worst)"
  have w1: "v \<le> w1" using m Cons.prems by (simp add: w1_def)
  show ?case
    using w1 m [OF w1] Cons.IH by (simp add: Let_def w1_def [symmetric]) (metis m [OF w1])
qed simp

lemma opaque_below: "DestructionOpaque \<le> DestructionCatastrophic" "DestructionNone < DestructionCatastrophic"
  by (simp_all add: less_eq_destruction_def less_destruction_def)

lemma trailing_loop_finds:
  assumes "w \<noteq> ''--''" "\<not> isFlagWord w" "refused_class (argv (normalizeProgramWord w) rest)"
  shows "DestructionOpaque \<le> trailing_loop word argv read_words runs worst (pre @ w # rest)"
proof (induction pre arbitrary: worst)
  case Nil
  let ?d = "capped DestructionCatastrophic (argv (normalizeProgramWord w) rest)"
  let ?e = "if \<not> runs then capped DestructionOpaque ?d else ?d"
  have "DestructionOpaque \<le> ?e"
    using assms(3) by (auto simp: capped_def refused_iff less_destruction_def less_eq_destruction_def)
  then have e: "DestructionOpaque \<le> maxDestruction v ?e" for v by (simp add: maxDestruction_max le_max_iff_disj)
  show ?case
    using assms(1,2) trailing_loop_start [OF e] opaque_below by (simp add: Let_def)
next
  case (Cons a pre)
  show ?case using Cons.IH opaque_below by (simp add: Let_def)
qed

lemma asked_operands: "DestructionNone < worst \<Longrightarrow> DestructionNone < grade_operands h wd p args worst"
  by (auto simp: grade_operands_def Let_def less_destruction_def)

text \<open>
  The name of the program in front does not matter: where any suffix of the arguments is a
  disaster, the command is not let through in silence.
\<close>

lemma trailing_disaster:
  assumes "disaster_argv h wd (normalizeProgramWord w) rest" "w \<noteq> ''--''" "\<not> isFlagWord w"
    and "program \<notin> set scriptEmitters" "depth > 0"
  shows "DestructionNone < classifyLexedArgv h program (pre @ w # rest) wd depth True"
proof -
  let ?args = "pre @ w # rest"
  have "DestructionOpaque \<le> classifyTrailingArgv cl (\<lambda>p ws. classifyLexedArgv h p ws wd 1 False) program ?args" for cl
    using trailing_loop_finds [where argv = "\<lambda>p ws. classifyLexedArgv h p ws wd 1 False", OF assms(2,3)
        disaster_refused(2) [OF assms(1)]] assms(4)
    by (simp add: classifyTrailingArgv_def)
  moreover have "DestructionNone < maxDestruction v x" if "DestructionOpaque \<le> x" for v x
    using that by (cases v; cases x) (simp_all add: maxDestruction_def less_destruction_def less_eq_destruction_def)
  ultimately have t: "DestructionNone <
      maxDestruction v (classifyTrailingArgv cl (\<lambda>p ws. classifyLexedArgv h p ws wd 1 False) program ?args)"
    for cl v by blast
  have m: "DestructionNone < maxDestruction (maxDestruction v x) y" if "DestructionNone < maxDestruction v x" for v x y
    using that by (simp add: maxDestruction_max less_max_iff_disj)
  have d: "(depth > 0) = True" "(depth = 0) = False" using assms(5) by simp_all
  show ?thesis
    unfolding classifyLexedArgv.simps [of h program ?args wd depth True] Let_def
    unfolding d simp_thms if_True if_False
    using t m opaque_below by (auto intro!: asked_operands split: option.split)
qed

lemma classify_asked:
  assumes "trim_space cmd \<noteq> []" "plain_command cmd" "lexShellLite cmd = Some (p, args)"
    and "DestructionNone < classifyLexedArgv h p args wd depth True"
  shows "DestructionNone < classifyDestruction h cmd wd depth toplevel"
proof -
  have c: "(if hasControlOperator cmd then splitIntoStrictlySmallerSegments cmd else None) = None"
    "(toplevel \<and> snd (DecodeANSIC cmd) \<and> hasControlOperator (fst (DecodeANSIC cmd))) = False"
    "(trim_space cmd = []) = False"
    using assms(1,2) by (auto simp: plain_command_def)
  show ?thesis
    unfolding classifyDestruction.simps [of h cmd wd depth toplevel] Let_def c
    unfolding if_False option.case assms(3) prod.case maxDestruction_max less_max_iff_disj
    using assms(4) by blast
qed

text \<open>
  C22: A program in front of a command, known or invented, with whatever options of its own: where the
  words after it are a disaster, no profile allows the call without a question.
\<close>

theorem unknown_runner_is_asked:
  assumes "trim_space (ga_shell a) \<noteq> []" "plain_command (ga_shell a)"
    and "lexShellLite (ga_shell a) = Some (program, pre @ w # rest)" "program \<notin> set scriptEmitters"
    and "disaster_argv h (ga_workdir a) (normalizeProgramWord w) rest" "w \<noteq> ''--''" "\<not> isFlagWord w"
  shows "dc_verdict (Check (guard_readings h) p a) \<noteq> Allow"
proof
  assume "dc_verdict (Check (guard_readings h) p a) = Allow"
  then have "tier_of (Check (guard_readings h) p a) \<le> Allowed" by (simp add: tier_of_def)
  then have "tier_of (check_once (guard_readings h) p a) \<le> Allowed"
    unfolding Check_tier_le by (simp add: readings_of_def)
  then have "tier_of (checkDestructive (guard_readings h) a) \<le> Allowed"
    unfolding check_once_tier by (auto simp: Let_def max_def split: if_splits)
  moreover have "DestructionNone < ClassifyDestruction h (ga_shell a) (ga_workdir a)"
    unfolding ClassifyDestruction_def
    by (rule classify_asked [OF assms(1-3)], rule trailing_disaster [OF assms(5-7,4)]) (simp add: maxUnwrapDepth_def)
  moreover have "ga_shell a \<noteq> []"
  proof -
    have "trim_space [] = []" by code_simp
    with assms(1) show ?thesis by metis
  qed
  ultimately show False
    by (auto simp: checkDestructive_tier guard_readings_def less_destruction_def split: destruction.splits)
qed

definition sample_host :: host where
  "sample_host = \<lparr>hs_env = sample_env, hs_goos = ''linux''\<rparr>"

definition buried_deletion :: string where
  "buried_deletion = ''sudo -u root bash -c '' @ [dquote] @ ''cd /tmp && nohup rm -rf /'' @ [dquote]"

lemma sample_disaster: "disaster sample_host ''/w'' buried_deletion"
proof -
  have del: "disaster_argv sample_host ''/w'' ''rm'' [''-rf'', ''/'']"
    by (rule deletion [of _ _ "''/''"]) code_simp+
  have "disaster_argv sample_host ''/w'' ''nohup'' [''rm'', ''-rf'', ''/'']"
    by (rule behind_runner [OF _ del]) code_simp
  then have seg: "disaster sample_host ''/w'' '' nohup rm -rf /''"
    by (rule command [rotated 3]) code_simp+
  have "disaster sample_host ''/w'' ''cd /tmp && nohup rm -rf /''"
    by (rule in_chain [OF _ _ _ _ seg, of _ "[''cd /tmp '', '' nohup rm -rf /'']"]) code_simp+
  then have "disaster_argv sample_host ''/w'' ''bash'' [''-c'', ''cd /tmp && nohup rm -rf /'']"
    by (rule in_payload [rotated]) code_simp
  then have "disaster_argv sample_host ''/w'' ''sudo'' [''-u'', ''root'', ''bash'', ''-c'', ''cd /tmp && nohup rm -rf /'']"
    by (rule behind_runner [rotated]) code_simp
  then show ?thesis
    by (rule command [rotated 3]) code_simp+
qed

lemma disaster_is_classified_witness: "refused_class (ClassifyDestruction sample_host buried_deletion ''/w'')"
  using disaster_is_classified [OF sample_disaster] .

lemma disaster_never_authorized_witness:
  "az_error (Authorize ((sample_context open_profile P_allow)\<lparr>cx_readings := guard_readings sample_host\<rparr>) []
     (shell_action ''shell_run'' buried_deletion) 0 ''r1'' False sample_manager) \<noteq> None"
proof -
  let ?a = "shell_action ''shell_run'' buried_deletion"
  let ?cx = "(sample_context open_profile P_allow)\<lparr>cx_readings := guard_readings sample_host\<rparr>"
  have "disaster sample_host (ga_workdir ?a) (ga_shell ?a)" using sample_disaster by (simp add: shell_action_def)
  moreover have "cx_readings ?cx = guard_readings sample_host" by simp
  moreover have "\<not> isForcePromptTool (ga_tool ?a)" by code_simp
  ultimately show ?thesis
    using disaster_never_authorized [of sample_host ?a ?cx "[]" 0 "''r1''" False sample_manager] by blast
qed

lemma unknown_runner_is_asked_witness:
  "dc_verdict (Check (guard_readings sample_host) open_profile (shell_action ''shell_run'' ''zzrunner -x rm -rf /'')) \<noteq> Allow"
proof (rule unknown_runner_is_asked)
  let ?a = "shell_action ''shell_run'' ''zzrunner -x rm -rf /''"
  show "trim_space (ga_shell ?a) \<noteq> []" "plain_command (ga_shell ?a)" by code_simp+
  show "lexShellLite (ga_shell ?a) = Some (''zzrunner'', [''-x''] @ ''rm'' # [''-rf'', ''/''])" by code_simp
  show "''zzrunner'' \<notin> set scriptEmitters" by code_simp
  show "disaster_argv sample_host (ga_workdir ?a) (normalizeProgramWord ''rm'') [''-rf'', ''/'']"
    by (rule deletion [of _ _ "''/''"]) code_simp+
  show "''rm'' \<noteq> ''--''" "\<not> isFlagWord ''rm''" by code_simp+
qed

section \<open>Where the readers disagree\<close>

definition wide_profile :: permission_profile where
  "wide_profile = open_profile\<lparr>pp_shell := \<lparr>sp_policy = ''allowlist'', sp_patterns = [''*''], sp_rules = []\<rparr>\<rparr>"

definition hidden_by_quotes :: string where
  "hidden_by_quotes = ''echo '' @ [bslash, dquote] @ '' ; rm -rf / ; echo '' @ [bslash, dquote]"

text \<open>A command with one reading is graded by its program and arguments.\<close>

definition one_reading :: "string \<Rightarrow> (string \<times> string list) option" where
  "one_reading cmd =
     (if trim_space cmd \<noteq> [] \<and> fst (expandKnownParameters cmd) = cmd \<and> stdin_scripts (splitPipeStages cmd) = [] \<and>
         (\<not> hasControlOperator cmd \<or> splitIntoStrictlySmallerSegments cmd = None) \<and> \<not> snd (DecodeANSIC cmd) \<and>
         \<not> snd (unescapeWordLetters cmd) \<and>
         (\<not> contains cmd [bslash] \<or> lexShellLitePOSIXEscapes cmd = None) \<and>
         (case lexShellLiteTokens cmd False of None \<Rightarrow> False | Some ts \<Rightarrow> assignmentPrefixLen ts = 0)
      then lexShellLite cmd else None)"

lemma contains_longer: "contains cmd [b, c] \<Longrightarrow> contains cmd [b]"
  by (induction cmd) auto

lemma classify_one_reading:
  assumes "one_reading cmd = Some (p, args)"
  shows "classifyDestruction h cmd wd depth toplevel = classifyLexedArgv h p args wd depth True"
proof -
  have a: "trim_space cmd \<noteq> []" "fst (expandKnownParameters cmd) = cmd" "stdin_scripts (splitPipeStages cmd) = []"
    "\<not> hasControlOperator cmd \<or> splitIntoStrictlySmallerSegments cmd = None" "\<not> snd (DecodeANSIC cmd)"
    "\<not> snd (unescapeWordLetters cmd)" "\<not> contains cmd [bslash] \<or> lexShellLitePOSIXEscapes cmd = None"
    "lexShellLite cmd = Some (p, args)"
    "case lexShellLiteTokens cmd False of None \<Rightarrow> False | Some ts \<Rightarrow> assignmentPrefixLen ts = 0"
    using assms by (simp_all add: one_reading_def split: if_splits)
  have c: "(if hasControlOperator cmd then splitIntoStrictlySmallerSegments cmd else None) = None" using a(4) by auto
  have n: "maxDestruction DestructionNone d = d" "maxDestruction d DestructionNone = d" for d
    by (cases d; simp add: maxDestruction_def less_destruction_def)+
  have s: "classifyScriptOnStdin f cmd = DestructionNone" for f by (simp add: classifyScriptOnStdin_def a(3))
  have p: "classifyAssignmentPrefix f cmd = DestructionNone" for f
    using a(9) by (auto simp: classifyAssignmentPrefix_def split: option.splits)
  obtain u where u: "unescapeWordLetters cmd = (u, False)" using a(6) by (cases "unescapeWordLetters cmd") simp
  have x: "(contains cmd [bslash, dquote] \<or> contains cmd [bslash, CHR '' ''] \<or> contains cmd [bslash, tab_c]) \<Longrightarrow>
           lexShellLitePOSIXEscapes cmd = None"
    using a(7) contains_longer by blast
  show ?thesis
    unfolding classifyDestruction.simps [of h cmd wd depth toplevel] Let_def c a(2) s p u
    using a(1,5,8) x by (auto simp: n)
qed

text \<open>A program that carries nothing, writes its operands out and is in no table.\<close>

lemma emitter_harmless:
  assumes "program \<in> set scriptEmitters"
  shows "classifyLexedArgv h program args wd depth True = DestructionNone"
proof -
  have "list_all (\<lambda>p. carries_nothing p \<and> p \<in> set nonInterpreterPrograms \<and> \<not> isPowerShellHost p \<and>
          \<not> isStorageDestroyer p \<and> p \<notin> set recursiveOwnershipPrograms \<and> p \<notin> set deletionPrograms \<and> p \<noteq> ''find'')
        scriptEmitters" by code_simp
  then have q: "carries_nothing program" "program \<in> set nonInterpreterPrograms" "\<not> isPowerShellHost program"
    "\<not> isStorageDestroyer program" "program \<notin> set recursiveOwnershipPrograms" "program \<notin> set deletionPrograms"
    "program \<noteq> ''find''"
    using assms by (simp_all add: list_all_iff)
  have e: "nested_strings program args = []" "stripped_commands program args = []" "opaquePayload program args = None"
    using q by (simp_all add: carries_nothing_strings opaquePayload_def windowsEncodedPayload_def)
  have n: "maxDestruction DestructionNone DestructionNone = DestructionNone" by (simp add: maxDestruction_def)
  have h: "\<not> hasNestedCommand program args" using e by (simp add: hasNestedCommand_iff)
  have g: "grade_operands h wd program args DestructionNone = DestructionNone"
    using q by (simp add: grade_operands_def Let_def isStorageDestruction_def findDeleteOnCatastrophicTarget_def
        isRecursiveOwnershipOnCatastrophicTarget_def)
  show ?thesis
    using assms h
    by (subst classifyLexedArgv.simps) (simp add: Let_def e g n classifyTrailingArgv_def)
qed

lemma quotes_one_reading: "one_reading hidden_by_quotes = Some (''echo'', [[bslash] @ '' ; rm -rf / ; echo '' @ [bslash]])"
  by code_simp

lemma echo_emits: "''echo'' \<in> set scriptEmitters"
  by code_simp

text \<open>
  The classifier's splitter takes an escaped quote for the start of a quotation and the strict
  reader does not: the reader lists the deletion of the root as a command of its own, the
  classifier sees an argument of \<open>echo\<close>, and a profile that allows every command lets it run.
\<close>

theorem escaped_quote_hides_deletion:
  "''rm -rf /'' \<in> set (map seg_text (projr (segmentsFor (shell_action ''shell_run'' hidden_by_quotes)))) \<and>
   dc_verdict (checkShell (guard_readings sample_host) wide_profile (shell_action ''shell_run'' hidden_by_quotes)) = Allow \<and>
   ClassifyDestruction sample_host hidden_by_quotes ''/w'' = DestructionNone"
proof (intro conjI)
  show "ClassifyDestruction sample_host hidden_by_quotes ''/w'' = DestructionNone"
    unfolding ClassifyDestruction_def classify_one_reading [OF quotes_one_reading] by (rule emitter_harmless [OF echo_emits])
qed code_simp+

text \<open>
  No reader knows comments: an apostrophe in a comment opens a quotation that ends in a later
  comment, and the lines between them are one argument to the readers and commands to the shell.
  The profile refuses every command that begins with \<open>rm\<close>, and allows this one.
\<close>

definition hidden_by_comments :: string where
  "hidden_by_comments = ''echo hi # don'' @ [squote] @ ''t'' @ [newline_c] @ ''rm -rf / # don'' @ [squote] @ ''t''"

lemma comments_one_reading:
  "one_reading hidden_by_comments =
     Some (''echo'', [''hi'', ''#'', ''dont'' @ [newline_c] @ ''rm -rf / # dont''])"
  by code_simp

theorem comment_hides_deletion:
  "length (projr (segmentsFor (shell_action ''shell_run'' hidden_by_comments))) = 1 \<and>
   dc_verdict (checkShell (guard_readings sample_host) open_profile (shell_action ''shell_run'' hidden_by_comments)) = Allow \<and>
   ClassifyDestruction sample_host hidden_by_comments ''/w'' = DestructionNone"
proof (intro conjI)
  show "ClassifyDestruction sample_host hidden_by_comments ''/w'' = DestructionNone"
    unfolding ClassifyDestruction_def classify_one_reading [OF comments_one_reading] by (rule emitter_harmless [OF echo_emits])
qed code_simp+

text \<open>
  A long option may be abbreviated: the deletion is recursive to \<open>rm\<close> and not to the classifier,
  and what is refused in every mode when it is spelled out is only asked about.
\<close>

lemma abbreviated_one_reading: "one_reading ''rm --recursi /'' = Some (''rm'', [''--recursi'', ''/''])"
  by code_simp

lemma spelled_one_reading: "one_reading ''rm --recursive /'' = Some (''rm'', [''--recursive'', ''/''])"
  by code_simp

theorem abbreviated_option_asks:
  "ClassifyDestruction sample_host ''rm --recursive /'' ''/w'' = DestructionCatastrophic \<and>
   ClassifyDestruction sample_host ''rm --recursi /'' ''/w'' = DestructionOutOfScope"
  unfolding ClassifyDestruction_def classify_one_reading [OF abbreviated_one_reading] classify_one_reading [OF spelled_one_reading]
  by (intro conjI; code_simp)

text \<open>
  The verdict on the operands replaces a worse verdict on a payload that was read before it: a
  deletion outside the project is graded as that, whatever an option marks as code, although the
  same payload is a refusal of its own.
\<close>

theorem operands_hide_payload:
  assumes "p \<in> set deletionPrograms" "\<not> deleteIsRecursive p args" "\<not> isStorageDestruction p args"
    and "t \<in> set (deleteTargets args)" "resolvesOutsideWorkdir h t (cleanScope h wd)"
    and "opaquePayload p args = Some (s, True)" "disaster h wd s" "depth > 0"
  shows "classifyLexedArgv h p args wd depth scan = DestructionOutOfScope \<and>
         refused_class (gradeUnreadPayload (\<lambda>w. classifyDestruction h w wd (depth - 1) False) (s, True))"
proof
  note none = operand_program_carries_nothing [OF disjI1 [OF assms(1)], of args]
  have np: "p \<noteq> ''find''" "p \<notin> set recursiveOwnershipPrograms"
  proof -
    have "list_all (\<lambda>p. p \<noteq> ''find'' \<and> p \<notin> set recursiveOwnershipPrograms) deletionPrograms" by code_simp
    with assms(1) show "p \<noteq> ''find''" "p \<notin> set recursiveOwnershipPrograms" by (simp_all add: list_all_iff)
  qed
  have "grade_operands h wd p args worst = DestructionOutOfScope" for worst
    using assms(1-5) np
    by (auto simp: grade_operands_def Let_def findDeleteOnCatastrophicTarget_def list_ex_iff
        isRecursiveOwnershipOnCatastrophicTarget_def)
  moreover have "\<not> hasNestedCommand p args" using none by (simp add: hasNestedCommand_iff)
  ultimately show "classifyLexedArgv h p args wd depth scan = DestructionOutOfScope"
    by (subst classifyLexedArgv.simps) (simp add: Let_def none)
  show "refused_class (gradeUnreadPayload (\<lambda>w. classifyDestruction h w wd (depth - 1) False) (s, True))"
    using disaster_refused(1) [OF assms(7)] by (simp add: gradeUnreadPayload_def)
qed

lemma operands_hide_payload_witness:
  "classifyLexedArgv sample_host ''rm'' [''/etc/a'', ''-c'', ''rm -rf /''] ''/w'' 8 True = DestructionOutOfScope"
proof -
  let ?args = "[''/etc/a'', ''-c'', ''rm -rf /'']"
  have a: "''rm'' \<in> set deletionPrograms" "\<not> deleteIsRecursive ''rm'' ?args" "\<not> isStorageDestruction ''rm'' ?args"
    "''/etc/a'' \<in> set (deleteTargets ?args)" "resolvesOutsideWorkdir sample_host ''/etc/a'' (cleanScope sample_host ''/w'')"
    "opaquePayload ''rm'' ?args = Some (''rm -rf /'', True)"
    by code_simp+
  have "disaster_argv sample_host ''/w'' ''rm'' [''-rf'', ''/'']"
    by (rule deletion [of _ _ "''/''"]) code_simp+
  then have "disaster sample_host ''/w'' ''rm -rf /''"
    by (rule command [rotated 3]) code_simp+
  from operands_hide_payload [OF a this, of 8 True] show ?thesis by simp
qed

section \<open>The recursion ends\<close>

text \<open>
  Each segment the classifier goes on with at the same budget is shorter than the command it was
  cut from, and so is the command with its escapes removed.
\<close>

theorem readings_shrink:
  "(splitIntoStrictlySmallerSegments cmd = Some segs \<longrightarrow> (\<forall>seg \<in> set segs. length seg < length cmd)) \<and>
   (unescapeWordLetters cmd = (u, True) \<longrightarrow> length u < length cmd)"
  using smaller_segments unescapeWordLetters_smaller by blast

lemma readings_shrink_witness:
  "list_all (\<lambda>seg. length seg < length ''ls && rm x'') [''ls '', '' rm x'']"
proof -
  have "splitIntoStrictlySmallerSegments ''ls && rm x'' = Some [''ls '', '' rm x'']" by code_simp
  then show ?thesis using readings_shrink [of "''ls && rm x''" "[''ls '', '' rm x'']" "[]"]
    by (simp add: list_all_iff)
qed

end
