(* ===== verification/Goal.thy ===== *)
theory Goal
  imports Prelude "HOL-Library.Multiset" "HOL-Library.Char_ord" "HOL-Library.List_Lexorder"
begin

text \<open>
  The goal loop's data and its deciding parts (\<open>internal/agent/goalloop\<close>): goals, plans,
  verdicts and decisions (\<open>types.go\<close>), the token accounting (\<open>usage.go\<close>), the judge
  (\<open>judge.go\<close>) and the completion audit (\<open>stopaudit.go\<close>).  Token counts are unbounded
  integers: a wrap-around of a 64-bit count of tokens is not modelled.
\<close>

section \<open>Types\<close>

record goal =
  gl_text :: string
  gl_workdir :: string

record acceptance_test =
  at_name :: string
  at_command :: string

record plan =
  pl_goal :: string
  pl_tests :: "acceptance_test list"
  pl_steps :: "string list"

record eval_verdict =
  ev_evaluator :: string
  ev_pass :: bool
  ev_evidence :: string
  ev_gaps :: "string list"

record token_usage =
  us_prompt :: int
  us_completion :: int
  us_total :: int

record goal_decision =
  de_complete :: bool
  de_gaps :: "string list"
  de_summary :: string
  de_stop :: string
  de_usage :: token_usage

record budget =
  bu_iterations :: int
  bu_tokens :: int

definition no_usage :: token_usage where
  "no_usage = \<lparr>us_prompt = 0, us_completion = 0, us_total = 0\<rparr>"

definition StopReasonComplete :: string where "StopReasonComplete = []"
definition StopReasonTokenBudget :: string where "StopReasonTokenBudget = ''token_budget''"
definition StopReasonMaxIters :: string where "StopReasonMaxIters = ''max_iterations''"
definition StopReasonEscalate :: string where "StopReasonEscalate = ''escalate''"
definition StopReasonUnprovenCompletion :: string where
  "StopReasonUnprovenCompletion = ''unproven_completion''"

lemmas stop_reasons = StopReasonComplete_def StopReasonTokenBudget_def StopReasonMaxIters_def
  StopReasonEscalate_def StopReasonUnprovenCompletion_def

text \<open>\<open>strings.Join\<close> with a separator of any length.\<close>

fun join_str :: "string \<Rightarrow> string list \<Rightarrow> string" where
  "join_str sep [] = []"
| "join_str sep [x] = x"
| "join_str sep (x # y # xs) = x @ sep @ join_str sep (y # xs)"

section \<open>Token usage (\<open>usage.go\<close>)\<close>

definition usage_total :: "token_usage \<Rightarrow> int" where
  "usage_total u = (if us_total u > 0 then us_total u else us_prompt u + us_completion u)"

definition sink_add :: "token_usage \<Rightarrow> token_usage \<Rightarrow> token_usage" where
  "sink_add a b =
     \<lparr>us_prompt = us_prompt a + us_prompt b, us_completion = us_completion a + us_completion b,
      us_total = us_total a + us_total b\<rparr>"

text \<open>
  \<open>usageFromMeta\<close> and \<open>addUsage\<close>: \<open>None\<close> is a missing message, metadata or usage; a nil sink
  ignores the report.
\<close>

definition usage_from_meta :: "token_usage option \<Rightarrow> token_usage" where
  "usage_from_meta meta = (case meta of None \<Rightarrow> no_usage | Some u \<Rightarrow> u)"

definition add_usage :: "token_usage option \<Rightarrow> token_usage option option \<Rightarrow> token_usage option" where
  "add_usage sink msg =
     (case (sink, msg) of (Some s, Some meta) \<Rightarrow> Some (sink_add s (usage_from_meta meta)) | _ \<Rightarrow> sink)"

lemma sink_add_none [simp]: "sink_add u no_usage = u" "sink_add no_usage u = u"
  by (simp_all add: sink_add_def no_usage_def)

lemma sink_add_assoc: "sink_add (sink_add a b) c = sink_add a (sink_add b c)"
  by (simp add: sink_add_def)

section \<open>The judge (\<open>judge.go\<close>)\<close>

definition failing_gaps :: "eval_verdict list \<Rightarrow> string list" where
  "failing_gaps vs = concat (map ev_gaps (filter (\<lambda>v. \<not> ev_pass v) vs))"

definition passing :: "eval_verdict list \<Rightarrow> nat" where
  "passing vs = length (filter ev_pass vs)"

definition AggregateJudge :: "eval_verdict list \<Rightarrow> goal_decision" where
  "AggregateJudge vs =
     (if vs = [] then \<lparr>de_complete = False, de_gaps = [], de_summary = ''no evaluators configured'',
                        de_stop = [], de_usage = no_usage\<rparr>
      else let complete = (passing vs = length vs) in
        \<lparr>de_complete = complete, de_gaps = failing_gaps vs,
         de_summary =
           (if complete then ''all '' @ itoa (int (length vs)) @ '' evaluators passed''
            else itoa (int (passing vs)) @ ''/'' @ itoa (int (length vs)) @ '' evaluators passed, gaps: ''
                 @ join_str ''; '' (failing_gaps vs)),
         de_stop = [], de_usage = no_usage\<rparr>)"

lemma AggregateJudge_complete: "de_complete (AggregateJudge vs) \<longleftrightarrow> vs \<noteq> [] \<and> (\<forall>v \<in> set vs. ev_pass v)"
proof -
  have "length (filter ev_pass vs) = length vs \<longleftrightarrow> (\<forall>v \<in> set vs. ev_pass v)"
    by (metis filter_id_conv length_filter_less order_less_irrefl filter_True)
  then show ?thesis by (auto simp: AggregateJudge_def passing_def Let_def)
qed

section \<open>The completion audit (\<open>stopaudit.go\<close>)\<close>

definition fakeCompletionRounds :: nat where
  "fakeCompletionRounds = 3"

record audit_round =
  ar_iteration :: int
  ar_plan :: plan
  ar_implemented :: bool
  ar_verdicts :: "eval_verdict list"

record audit_verdict =
  av_accept :: bool
  av_final :: bool
  av_reason :: string
  av_directive :: string

record auditor =
  au_unproven :: nat
  au_last_sig :: string
  au_stale :: nat
  au_started :: bool

definition NewCompletionAuditor :: auditor where
  "NewCompletionAuditor = \<lparr>au_unproven = 0, au_last_sig = [], au_stale = 0, au_started = False\<rparr>"

definition reason_implementer :: string where
  "reason_implementer = ''implementer reported an error this round''"
definition reason_evaluator :: string where
  "reason_evaluator = ''an evaluator failed to run this round''"
definition reason_evidence :: string where
  "reason_evidence = ''no evaluator recorded evidence for its pass verdict''"

text \<open>\<open>auditClaimReason\<close>: the reason and whether the claim is proven.\<close>

definition audit_claim_reason :: "audit_round \<Rightarrow> string \<times> bool" where
  "audit_claim_reason r =
     (if \<not> ar_implemented r then (reason_implementer, False)
      else if list_ex (\<lambda>v. ev_evaluator v = ''error'') (ar_verdicts r) then (reason_evaluator, False)
      else if list_ex (\<lambda>v. ev_pass v \<and> trim_space (ev_evidence v) \<noteq> []) (ar_verdicts r) then ([], True)
      else (reason_evidence, False))"

definition UnprovenCompletionPrompt :: "nat \<Rightarrow> string \<Rightarrow> string" where
  "UnprovenCompletionPrompt rounds reason =
     ''Your previous turn claimed completion, but the loop could not verify it (round '' @ itoa (int rounds)
     @ '' without verifiable evidence; reason: '' @ reason
     @ ''). Do not restate the claim. This round you must PROVE completion: (1) run the plan'' @ [squote]
     @ ''s acceptance tests yourself and include their output; (2) name the concrete artifacts you ''
     @ ''changed or produced; (3) if any part is unfinished, say so explicitly '' @ [CHR 0xE2, CHR 0x80, CHR 0x94]
     @ '' an honest incomplete report ends this loop'' @ [squote]
     @ ''s suspicion, a repeated claim deepens it.''"

definition NoProgressPrompt :: "nat \<Rightarrow> string \<Rightarrow> string" where
  "NoProgressPrompt stale sig =
     ''The last '' @ itoa (int stale)
     @ '' iterations produced no measurable progress (unchanged verdict signature: '' @ sig
     @ ''). Do not repeat the previous approach. Identify why the failing checks still fail, ''
     @ ''change the method, and address those specific gaps.''"

definition AuditComplete :: "audit_round \<Rightarrow> auditor \<Rightarrow> audit_verdict \<times> auditor" where
  "AuditComplete r a =
     (case audit_claim_reason r of
        (_, True) \<Rightarrow> (\<lparr>av_accept = True, av_final = False, av_reason = [], av_directive = []\<rparr>, a\<lparr>au_unproven := 0\<rparr>)
      | (reason, False) \<Rightarrow>
          let n = au_unproven a + 1; a' = a\<lparr>au_unproven := n\<rparr> in
          if n \<ge> fakeCompletionRounds
          then (\<lparr>av_accept = False, av_final = True, av_reason = reason, av_directive = []\<rparr>, a')
          else (\<lparr>av_accept = False, av_final = False, av_reason = reason,
                 av_directive = UnprovenCompletionPrompt n reason\<rparr>, a'))"

definition ResetClaims :: "auditor \<Rightarrow> auditor" where
  "ResetClaims a = a\<lparr>au_unproven := 0\<rparr>"

definition progress_signature :: "eval_verdict list \<Rightarrow> string" where
  "progress_signature vs =
     ''pass='' @ itoa (int (passing vs)) @ '';gaps='' @ join_str ''|'' (sort (failing_gaps vs))"

text \<open>\<open>ObserveProgress\<close>: the directive, the number of stale rounds and the auditor after it.\<close>

definition ObserveProgress :: "audit_round \<Rightarrow> auditor \<Rightarrow> string \<times> nat \<times> auditor" where
  "ObserveProgress r a =
     (let sig = progress_signature (ar_verdicts r) in
      if au_started a \<and> sig = au_last_sig a
      then (NoProgressPrompt (au_stale a + 1) sig, au_stale a + 1, a\<lparr>au_stale := au_stale a + 1\<rparr>)
      else ([], 0, a\<lparr>au_started := True, au_last_sig := sig, au_stale := 0\<rparr>))"

definition join_directives :: "string \<Rightarrow> string \<Rightarrow> string" where
  "join_directives a b = (if a = [] then b else if b = [] then a else a @ newline_c # b)"

text \<open>The order of the evaluators does not matter to the signature; only what is failing does.\<close>

lemma progress_signature_mset:
  assumes "mset vs = mset ws"
  shows "progress_signature vs = progress_signature ws"
proof -
  have "mset (filter P vs) = mset (filter P ws)" for P
    using assms by (simp add: mset_filter)
  then have f: "mset (filter ev_pass vs) = mset (filter ev_pass ws)"
      "mset (filter (\<lambda>v. \<not> ev_pass v) vs) = mset (filter (\<lambda>v. \<not> ev_pass v) ws)" by blast+
  have g: "mset (concat (map ev_gaps xs)) = sum_mset (image_mset (\<lambda>v. mset (ev_gaps v)) (mset xs))" for xs
    by (induction xs) auto
  then have "mset (failing_gaps vs) = mset (failing_gaps ws)" by (simp only: failing_gaps_def g f(2))
  then have "sort (failing_gaps vs) = sort (failing_gaps ws)"
    by (metis properties_for_sort mset_sort sorted_sort)
  moreover have "passing vs = passing ws" using f(1) by (simp add: passing_def mset_eq_length)
  ultimately show ?thesis by (simp add: progress_signature_def)
qed

end
