(* ===== verification/GoalTier.thy ===== *)
theory GoalTier
  imports Goal
begin

text \<open>
  The tiers of the goal loop (\<open>internal/agent/goalloop/tier.go\<close>), what starts it
  (\<open>trigger.go\<close>) and the record of a run (\<open>record.go\<close>).  A model's reply is an argument, and so
  is the order in which Go ranges over the map of tier keywords.
\<close>

section \<open>Tiers\<close>

text \<open>A \<open>Tier\<close> is an integer in Go; the five constants are 0 to 4.\<close>

type_synonym tier_no = int

definition TierQuickFix :: tier_no where "TierQuickFix = 0"
definition TierStandard :: tier_no where "TierStandard = 1"
definition TierDesigned :: tier_no where "TierDesigned = 2"
definition TierTeam :: tier_no where "TierTeam = 3"
definition TierAutonomous :: tier_no where "TierAutonomous = 4"

lemmas tiers = TierQuickFix_def TierStandard_def TierDesigned_def TierTeam_def TierAutonomous_def

definition tier_string :: "tier_no \<Rightarrow> string" where
  "tier_string t =
     (if t = TierQuickFix then ''quick-fix'' else if t = TierStandard then ''standard''
      else if t = TierDesigned then ''designed'' else if t = TierTeam then ''team''
      else if t = TierAutonomous then ''autonomous'' else ''unknown'')"

definition anyKeyword :: "string \<Rightarrow> string list \<Rightarrow> bool" where
  "anyKeyword haystack needles = list_ex (contains haystack) needles"

definition RuleTier :: "string \<Rightarrow> tier_no" where
  "RuleTier task =
     (let l = to_lower task in
      if anyKeyword l [''project'', ''epic'', ''autonomous'', ''build a system'', ''platform''] then TierAutonomous
      else if anyKeyword l [''component'', ''parallel'', ''team'', ''multi-service''] then TierTeam
      else if anyKeyword l [''design'', ''refactor'', ''api '', ''multiple files'', ''module''] then TierDesigned
      else if anyKeyword l [''typo'', ''config'', ''tweak'', ''rename a '', ''bump ''] then TierQuickFix
      else if anyKeyword l [''bug'', ''test'', ''fix''] then TierStandard
      else TierStandard)"

definition tierKeywords :: "(tier_no \<times> string) list" where
  "tierKeywords =
     [(TierQuickFix, ''quick-fix''), (TierStandard, ''standard''), (TierDesigned, ''designed''),
      (TierTeam, ''team''), (TierAutonomous, ''autonomous'')]"

text \<open>
  \<open>LLMTierer.Tier\<close>.  \<open>reply\<close> is the content of the model's message, \<open>None\<close> an error or no
  message; \<open>order\<close> is the order in which the map of keywords is ranged over; a \<open>Tierer\<close>
  returns a tier or an error.
\<close>

definition LLMTier :: "(tier_no \<times> string) list \<Rightarrow> (string \<Rightarrow> string + tier_no) option \<Rightarrow> string option
    \<Rightarrow> string \<Rightarrow> string + tier_no" where
  "LLMTier order fallback reply task =
     (let hit = (case reply of None \<Rightarrow> None
                 | Some content \<Rightarrow> let low = to_lower (trim_space content) in
                     find (\<lambda>(t, kw). contains low kw) order) in
      case hit of Some (t, _) \<Rightarrow> Inr t
      | None \<Rightarrow> (case fallback of Some f \<Rightarrow> f task | None \<Rightarrow> Inr TierStandard))"

definition SkillName :: "tier_no \<Rightarrow> string" where
  "SkillName t =
     (if t = TierQuickFix then ''dev-quick-fix'' else if t = TierStandard then ''dev-standard-feature''
      else if t = TierDesigned then ''dev-designed-feature'' else if t = TierTeam then ''dev-team-feature''
      else if t = TierAutonomous then ''dev-autonomous-project'' else ''dev-standard-feature'')"

definition tier_path :: "tier_no \<Rightarrow> string" where
  "tier_path t = (if t \<le> TierDesigned then ''lightweight'' else ''loop'')"

datatype evaluator_kind = Test_evaluator | Intent_evaluator | Quality_evaluator

definition EvaluatorsForTier :: "tier_no \<Rightarrow> bool \<Rightarrow> evaluator_kind list" where
  "EvaluatorsForTier t has_model =
     (if \<not> has_model then [Test_evaluator]
      else if t \<le> TierQuickFix then [Test_evaluator]
      else if t = TierStandard then [Test_evaluator, Intent_evaluator]
      else [Test_evaluator, Intent_evaluator, Quality_evaluator])"

definition ParseForcedTier :: "string \<Rightarrow> tier_no option" where
  "ParseForcedTier s =
     (if s = ''t0'' then Some TierQuickFix else if s = ''t1'' then Some TierStandard
      else if s = ''t2'' then Some TierDesigned else if s = ''t3'' then Some TierTeam
      else if s = ''t4'' then Some TierAutonomous else None)"

text \<open>The tier and whether it was forced; the error carries the value of the flag.\<close>

definition ResolveTierFlag :: "string \<Rightarrow> string \<Rightarrow> string + tier_no \<times> bool" where
  "ResolveTierFlag flag txt =
     (if flag = ''auto'' then Inr (RuleTier txt, False)
      else case ParseForcedTier flag of None \<Rightarrow> Inl flag | Some t \<Rightarrow> Inr (t, True))"

definition tierFlagTable :: "string list" where
  "tierFlagTable = [''t0'', ''t1'', ''t2'', ''t3'', ''t4'']"

definition tierFlag :: "tier_no \<Rightarrow> string" where
  "tierFlag t =
     (if 0 \<le> t \<and> t < int (length tierFlagTable) then tierFlagTable ! nat t else ''t1'')"

definition EscalationHint :: "tier_no \<Rightarrow> string" where
  "EscalationHint t =
     (if t \<ge> TierAutonomous then []
      else ''consider escalating to tier '' @ tier_string (t + 1) @ '' (-tier '' @ tierFlag (t + 1) @ '')'')"

lemma tier_flag_roundtrip: "0 \<le> t \<Longrightarrow> t \<le> 4 \<Longrightarrow> ParseForcedTier (tierFlag t) = Some t"
proof -
  assume "0 \<le> t" "t \<le> 4"
  then have "t \<in> {0, 1, 2, 3, 4}" by auto
  then show ?thesis by (elim insertE emptyE) (simp_all add: tierFlag_def tierFlagTable_def ParseForcedTier_def tiers)
qed

lemma EscalationHint_empty: "EscalationHint t = [] \<longleftrightarrow> t \<ge> TierAutonomous"
  by (simp add: EscalationHint_def)

text \<open>A reply with one keyword has one tier, whatever the order of the map.\<close>

lemma LLMTier_one_keyword:
  assumes "set order = set tierKeywords" "(t, kw) \<in> set tierKeywords"
    and "\<And>u. u \<in> set tierKeywords \<Longrightarrow> contains (to_lower (trim_space reply)) (snd u) \<Longrightarrow> u = (t, kw)"
    and "contains (to_lower (trim_space reply)) kw"
  shows "LLMTier order fallback (Some reply) task = Inr t"
proof (cases "find (\<lambda>(t, kw). contains (to_lower (trim_space reply)) kw) order")
  case None
  with assms show ?thesis by (auto simp: find_None_iff)
next
  case (Some u)
  then have "u \<in> set order" "contains (to_lower (trim_space reply)) (snd u)"
    by (auto dest!: find_SomeD split: prod.splits)
  then have "u = (t, kw)" using assms(1,3) by blast
  with Some show ?thesis by (simp add: LLMTier_def Let_def)
qed

text \<open>A reply that names two of them has the tier of the one the map yields first.\<close>

lemma LLMTier_depends_on_order:
  "LLMTier tierKeywords None (Some ''team (not standard)'') task = Inr TierStandard"
  "LLMTier (rev tierKeywords) None (Some ''team (not standard)'') task = Inr TierTeam"
  by (simp_all add: LLMTier_def, code_simp+)

section \<open>The trigger (\<open>trigger.go\<close>)\<close>

datatype intent = IntentSimpleQA | IntentGoalImpl | IntentOther

definition goalKeywords :: "string list" where
  "goalKeywords =
     [[CHR 0xE5, CHR 0xAE, CHR 0x9E, CHR 0xE7, CHR 0x8E, CHR 0xB0], ''implement'', ''add feature'', ''build'', ''fix bug'']"

definition questionStarts :: "string list" where
  "questionStarts = [''what'', ''why'', ''how'']"

definition RuleClassify :: "string \<Rightarrow> intent" where
  "RuleClassify txt =
     (let lower = to_lower txt; trimmed = trim_space lower in
      if list_ex (contains lower) goalKeywords then IntentGoalImpl
      else if contains txt ''?'' then IntentSimpleQA
      else if list_ex (\<lambda>qw. prefix (qw @ '' '') trimmed \<or> trimmed = qw) questionStarts then IntentSimpleQA
      else IntentOther)"

text \<open>\<open>OSConfirmer.Confirm\<close>: the line read, or \<open>None\<close> at the end of the input.\<close>

definition OSConfirm :: "string option \<Rightarrow> bool" where
  "OSConfirm line =
     (case line of None \<Rightarrow> False
      | Some l \<Rightarrow> let resp = trim_space (to_lower l) in resp = ''y'' \<or> resp = ''yes'')"

record trigger =
  tg_classify :: "string \<Rightarrow> string + intent"
  tg_confirm :: "string + bool"
  tg_tier :: "(string \<Rightarrow> string + tier_no) option"

definition Decide :: "trigger \<Rightarrow> string \<Rightarrow> bool \<times> string" where
  "Decide tg txt =
     (if prefix ''/goal '' txt then (True, ''explicit'')
      else if tg_classify tg txt \<noteq> Inr IntentGoalImpl then (False, ''not a goal'')
      else case tg_confirm tg of Inl _ \<Rightarrow> (False, ''auto+confirm'') | Inr b \<Rightarrow> (b, ''auto+confirm''))"

text \<open>The tier of a tierer, its error ignored: Go's callers take the value, which is the zero
  tier for the tierers of the package that fail.\<close>

definition tier_value :: "(string \<Rightarrow> string + tier_no) option \<Rightarrow> string \<Rightarrow> tier_no" where
  "tier_value tierer txt =
     (case tierer of None \<Rightarrow> RuleTier txt
      | Some f \<Rightarrow> (case f txt of Inl _ \<Rightarrow> TierQuickFix | Inr t \<Rightarrow> t))"

definition DecideTier :: "trigger \<Rightarrow> string \<Rightarrow> bool \<times> tier_no \<times> string" where
  "DecideTier tg txt =
     (if prefix ''/dev '' txt then
        let rest = trim_space (drop 5 txt);
            forced = (if length rest \<ge> 2 \<and> hd rest = CHR ''t'' then ParseForcedTier (take 2 rest) else None) in
        (case forced of Some t \<Rightarrow> (True, t, ''explicit'')
         | None \<Rightarrow> (True, tier_value (tg_tier tg) rest, ''explicit''))
      else case Decide tg txt of (enter, reason) \<Rightarrow>
        if \<not> enter then (False, TierStandard, reason)
        else (True, tier_value (tg_tier tg) txt, reason))"

text \<open>The loop is entered on an explicit request or on the user's yes, and not otherwise.\<close>

lemma DecideTier_enters:
  "fst (DecideTier tg txt) \<longleftrightarrow> prefix ''/dev '' txt \<or> prefix ''/goal '' txt
     \<or> (tg_classify tg txt = Inr IntentGoalImpl \<and> tg_confirm tg = Inr True)"
  by (auto simp: DecideTier_def Decide_def Let_def split: option.splits sum.splits prod.splits)

section \<open>The record of a run (\<open>record.go\<close>)\<close>

record run_record =
  rr_tier :: string
  rr_complete :: bool
  rr_stop :: string
  rr_summary :: string
  rr_iterations :: int
  rr_usage :: token_usage

definition NewRunRecord :: "tier_no \<Rightarrow> goal_decision \<Rightarrow> token_usage \<Rightarrow> int \<Rightarrow> run_record" where
  "NewRunRecord t d u iters =
     \<lparr>rr_tier = tier_string t, rr_complete = de_complete d, rr_stop = de_stop d,
      rr_summary = de_summary d, rr_iterations = iters, rr_usage = u\<rparr>"

end
