(* ===== verification/GoalTests.thy ===== *)
theory GoalTests
  imports GoalTier ClassifyProps
begin

text \<open>
  The evaluator that runs a plan's acceptance tests
  (\<open>internal/agent/goalloop/evaluators.go\<close>).  The plan is written by a model, so its commands
  pass the guard first.  The shell that runs a command is an argument: from the command, the
  directory and the state of the world to the output, whether it failed and the world after.
\<close>

section \<open>\<open>TestEvaluator\<close>\<close>

type_synonym 'x shell_runner = "string \<Rightarrow> string \<Rightarrow> 'x \<Rightarrow> string \<times> bool \<times> 'x"

definition maxEvidence :: nat where
  "maxEvidence = 4096"

definition defaultTestProfile :: permission_profile where
  "defaultTestProfile =
     \<lparr>pp_fs = \<lparr>fp_read = [], fp_write = [], fp_protected = []\<rparr>, pp_tools = \<lparr>tp_allow = [''*'']\<rparr>,
      pp_mcp = \<lparr>tp_allow = []\<rparr>,
      pp_shell = \<lparr>sp_policy = ''allowlist'',
                  sp_patterns = [''go test*'', ''go build*'', ''go vet*'', ''go fmt*'', ''echo *''], sp_rules = []\<rparr>,
      pp_net = \<lparr>nt_allow = False, nt_hosts = []\<rparr>,
      pp_subagent = \<lparr>sa_models = [], sa_max_reasoning = []\<rparr>\<rparr>"

definition test_profile :: "permission_profile \<Rightarrow> permission_profile" where
  "test_profile p = (if tp_allow (pp_tools p) = [] then defaultTestProfile else p)"

definition test_action :: "string \<Rightarrow> guard_action" where
  "test_action cmd =
     \<lparr>ga_tool = ''test.run'', ga_fs = \<lparr>fw_op = [], fw_paths = []\<rparr>, ga_shell = cmd, ga_net_host = [],
      ga_workdir = [], ga_interpreter = []\<rparr>"

definition test_allowed :: "readings \<Rightarrow> permission_profile \<Rightarrow> string \<Rightarrow> bool" where
  "test_allowed rd p cmd \<longleftrightarrow> IsAllowed (Check rd (test_profile p) (test_action cmd))"

text \<open>The evidence so far with the output of one more test, truncated.\<close>

definition note_evidence :: "string \<Rightarrow> string \<Rightarrow> string \<Rightarrow> string" where
  "note_evidence evidence name chunk =
     (if length evidence < maxEvidence
      then evidence @ ''=== '' @ name @ '' ==='' @ newline_c # take (maxEvidence - length evidence) chunk @ [newline_c]
      else evidence)"

fun run_tests :: "readings \<Rightarrow> permission_profile \<Rightarrow> 'x shell_runner \<Rightarrow> string \<Rightarrow> acceptance_test list
    \<Rightarrow> string list \<times> string \<times> bool \<Rightarrow> 'x \<Rightarrow> (string list \<times> string \<times> bool) \<times> 'x" where
  "run_tests rd p sh dir [] acc x = (acc, x)"
| "run_tests rd p sh dir (t # ts) (gaps, evidence, ok) x =
     (if \<not> test_allowed rd p (at_command t)
      then run_tests rd p sh dir ts
             (gaps @ [at_name t],
              note_evidence evidence (at_name t) (''command not allowed by guard: '' @ at_command t), False) x
      else case sh (at_command t) dir x of
             (out, failed, x') \<Rightarrow>
               run_tests rd p sh dir ts
                 (if failed then gaps @ [at_name t] else gaps,
                  note_evidence evidence (at_name t) out, ok \<and> \<not> failed) x')"

definition TestEvaluate :: "readings \<Rightarrow> permission_profile \<Rightarrow> 'x shell_runner \<Rightarrow> plan \<Rightarrow> string \<Rightarrow> 'x
    \<Rightarrow> eval_verdict \<times> 'x" where
  "TestEvaluate rd p sh pl dir x =
     (if pl_tests pl = []
      then (\<lparr>ev_evaluator = ''test'', ev_pass = False, ev_evidence = [],
             ev_gaps = [''no acceptance tests configured'']\<rparr>, x)
      else case run_tests rd p sh dir (pl_tests pl) ([], [], True) x of
             ((gaps, evidence, ok), x') \<Rightarrow>
               (\<lparr>ev_evaluator = ''test'', ev_pass = ok, ev_evidence = evidence, ev_gaps = gaps\<rparr>, x'))"

section \<open>What it runs and what it says\<close>

lemma run_tests_shells:
  assumes "\<And>cmd. test_allowed rd p cmd \<Longrightarrow> sh cmd = sh' cmd"
  shows "run_tests rd p sh dir ts acc x = run_tests rd p sh' dir ts acc x"
proof (induction ts arbitrary: acc x)
  case (Cons t ts)
  obtain gaps evidence ok where "acc = (gaps, evidence, ok)" by (cases acc)
  with Cons assms [of "at_command t"] show ?case by (simp split: prod.split)
qed (cases acc; simp)

lemma run_tests_ok:
  "run_tests rd p sh dir ts (gaps, evidence, ok) x = ((gaps', evidence', ok'), x') \<Longrightarrow>
     (ok' \<longleftrightarrow> ok \<and> gaps' = gaps) \<and> (\<exists>more. gaps' = gaps @ more)
     \<and> (ok' \<longrightarrow> list_all (\<lambda>t. test_allowed rd p (at_command t)) ts)"
proof (induction ts arbitrary: gaps evidence ok x)
  case Nil
  then show ?case by auto
next
  case (Cons t ts)
  show ?case
  proof (cases "test_allowed rd p (at_command t)")
    case False
    then have "run_tests rd p sh dir ts (gaps @ [at_name t], note_evidence evidence (at_name t)
        (''command not allowed by guard: '' @ at_command t), False) x = ((gaps', evidence', ok'), x')"
      using Cons.prems by simp
    from Cons.IH [OF this] show ?thesis by auto
  next
    case True
    obtain out failed y where sh: "sh (at_command t) dir x = (out, failed, y)" by (metis prod_cases3)
    then have "run_tests rd p sh dir ts (if failed then gaps @ [at_name t] else gaps,
        note_evidence evidence (at_name t) out, ok \<and> \<not> failed) y = ((gaps', evidence', ok'), x')"
      using Cons.prems True by simp
    from Cons.IH [OF this] True show ?thesis by (auto split: if_splits)
  qed
qed

lemma disaster_not_allowed:
  assumes "disaster h [] cmd"
  shows "\<not> test_allowed (guard_readings h) p cmd"
  using refused_check [of "test_action cmd" "guard_readings h" "test_profile p"]
    disaster_not_blank [OF assms] disaster_refused(1) [OF assms]
  by (simp add: test_allowed_def test_action_def IsAllowed_def guard_readings_def ClassifyDestruction_def)

lemma TestEvaluate_pass:
  "ev_pass (fst (TestEvaluate rd p sh pl dir x)) \<Longrightarrow>
     pl_tests pl \<noteq> [] \<and> ev_gaps (fst (TestEvaluate rd p sh pl dir x)) = []
     \<and> list_all (\<lambda>t. test_allowed rd p (at_command t)) (pl_tests pl)"
  by (auto simp: TestEvaluate_def split: if_splits prod.splits dest!: run_tests_ok)

text \<open>
  C36: A command that is a disaster is never run as an acceptance test, whatever profile the
  evaluator has: replacing what the shell does with that command changes neither the verdict
  nor the world.  A plan that holds such a test does not pass.
\<close>

theorem disaster_test_never_run:
  assumes "disaster h [] cmd"
  shows "TestEvaluate (guard_readings h) p (sh(cmd := f)) pl dir x = TestEvaluate (guard_readings h) p sh pl dir x
    \<and> (cmd \<in> at_command ` set (pl_tests pl) \<longrightarrow> \<not> ev_pass (fst (TestEvaluate (guard_readings h) p sh pl dir x)))"
proof
  let ?sh = "sh(cmd := f)"
  have "run_tests (guard_readings h) p ?sh dir ts acc x = run_tests (guard_readings h) p sh dir ts acc x" for ts acc
    by (rule run_tests_shells) (use disaster_not_allowed [OF assms] in auto)
  then show "TestEvaluate (guard_readings h) p ?sh pl dir x = TestEvaluate (guard_readings h) p sh pl dir x"
    by (simp add: TestEvaluate_def)
next
  show "cmd \<in> at_command ` set (pl_tests pl) \<longrightarrow> \<not> ev_pass (fst (TestEvaluate (guard_readings h) p sh pl dir x))"
    using TestEvaluate_pass [of "guard_readings h" p sh pl dir x] disaster_not_allowed [OF assms]
    by (auto simp: list_all_iff)
qed

definition sample_test :: acceptance_test where
  "sample_test = \<lparr>at_name = ''clean'', at_command = ''rm -rf /''\<rparr>"

definition sample_plan :: plan where
  "sample_plan = \<lparr>pl_goal = ''g'', pl_tests = [sample_test], pl_steps = []\<rparr>"

lemma disaster_test_never_run_witness:
  "\<not> ev_pass (fst (TestEvaluate (guard_readings sample_host) open_profile
      (\<lambda>cmd dir x. (''done'', False, cmd # x)) sample_plan ''/w'' []))"
proof -
  have "disaster_argv sample_host [] ''rm'' [''-rf'', ''/'']"
    by (rule deletion [of _ _ "''/''"]) code_simp+
  then have "disaster sample_host [] ''rm -rf /''"
    by (rule command [rotated 3]) code_simp+
  moreover have "''rm -rf /'' \<in> at_command ` set (pl_tests sample_plan)"
    by (simp add: sample_plan_def sample_test_def)
  ultimately show ?thesis
    using disaster_test_never_run [where p = open_profile and sh = "\<lambda>cmd dir x. (''done'', False, cmd # x)"
        and pl = sample_plan and dir = "''/w''" and x = "[]"] by blast
qed

end
