(* ===== verification/GoalLoop.thy ===== *)
theory GoalLoop
  imports GoalTier
begin

text \<open>
  The controller of the goal loop (\<open>internal/agent/goalloop/loop.go\<close>) and what it persists
  (\<open>state.go\<close>).  The planner, the implementer, the evaluators and the judge are interfaces of
  the package: functions of the model, from the state of the world \<open>'x\<close> to a result, the
  token usage they add to the shared sink, and the world after.  The stored row is modelled as
  the value it decodes to.  Go's \<open>int\<close>s are unbounded here.
\<close>

section \<open>The parts and the state\<close>

type_synonym ('a, 'x) step = "'x \<Rightarrow> (string + 'a) \<times> token_usage list \<times> 'x"

record 'x parts =
  pt_ctx :: "'x \<Rightarrow> string option"
  pt_planner :: "goal \<Rightarrow> (plan, 'x) step"
  pt_implementer :: "plan \<Rightarrow> string \<Rightarrow> (string, 'x) step"
  pt_evaluators :: "(goal \<Rightarrow> plan \<Rightarrow> string \<Rightarrow> (eval_verdict, 'x) step) list"
  pt_judge :: "eval_verdict list \<Rightarrow> (goal_decision, 'x) step"

record budget_set =
  bs_iterations :: bool
  bs_tokens :: bool

text \<open>\<open>goalState\<close>, and a row of the store: an encoded state, or bytes that do not decode.\<close>

record goal_state =
  gs_objective :: string
  gs_budget :: budget
  gs_iterations :: int
  gs_usage :: token_usage
  gs_complete :: bool

datatype blob = State goal_state | Garbage string

record goal_store =
  st_rows :: "string \<Rightarrow> blob option"
  st_get_fails :: "string option"
  st_set_fails :: "string option"

datatype detail =
    Text string
  | State_unreadable string
  | Explicit_overrides budget budget
  | Persisted_overrides budget budget
  | Resuming int int int
  | Persist_failed string
  | Steps_and_tests nat nat
  | Verdicts nat
  | Part_error string
  | Completion_verified
  | Adjudicated string
  | Vetoed string
  | Stale_rounds nat
  | Gaps string

record event =
  e_phase :: string
  e_iteration :: int
  e_detail :: detail

datatype goal_error =
    Cancelled string
  | Planner_error int string
  | Judge_error int string

datatype exit = Go_on | Return goal_decision | Fail goal_error

record 'x loop =
  lp_budget :: budget
  lp_sink :: "token_usage option"
  lp_store :: "goal_store option"
  lp_audit :: "auditor option"
  lp_iterations :: int
  lp_persisted :: int
  lp_directive :: string
  lp_complete :: bool
  lp_events :: "event list"
  lp_world :: 'x

text \<open>What of \<open>Config\<close> never changes: the tier and which limits were typed.\<close>

record loop_config =
  lc_tier :: tier_no
  lc_explicit :: budget_set

definition NewLoop :: "budget \<Rightarrow> token_usage option \<Rightarrow> goal_store option \<Rightarrow> auditor option \<Rightarrow> 'x \<Rightarrow> 'x loop" where
  "NewLoop b sink st audit x =
     \<lparr>lp_budget = b, lp_sink = sink, lp_store = st, lp_audit = audit, lp_iterations = 0, lp_persisted = 0,
      lp_directive = [], lp_complete = False, lp_events = [], lp_world = x\<rparr>"

definition emit :: "string \<Rightarrow> detail \<Rightarrow> int \<Rightarrow> 'x loop \<Rightarrow> 'x loop" where
  "emit phase d i s = s\<lparr>lp_events := lp_events s @ [\<lparr>e_phase = phase, e_iteration = i, e_detail = d\<rparr>]\<rparr>"

section \<open>Spend and budget\<close>

definition usageSnapshot :: "'x loop \<Rightarrow> token_usage" where
  "usageSnapshot s = (case lp_sink s of None \<Rightarrow> no_usage | Some u \<Rightarrow> u)"

definition spent :: "'x loop \<Rightarrow> int" where
  "spent s = (case lp_sink s of None \<Rightarrow> 0 | Some u \<Rightarrow> usage_total u)"

definition overBudget :: "'x loop \<Rightarrow> bool" where
  "overBudget s \<longleftrightarrow> bu_tokens (lp_budget s) > 0 \<and> spent s > bu_tokens (lp_budget s)"

definition budgetExceededDecision :: "string \<Rightarrow> 'x loop \<Rightarrow> goal_decision" where
  "budgetExceededDecision at_point s =
     \<lparr>de_complete = False, de_gaps = [],
      de_summary = ''budget exceeded '' @ at_point @ '' ('' @ itoa (spent s) @ '' tokens > ''
                   @ itoa (bu_tokens (lp_budget s)) @ '')'',
      de_stop = StopReasonTokenBudget, de_usage = usageSnapshot s\<rparr>"

section \<open>Persistence\<close>

definition resolveResumeBudget :: "budget \<Rightarrow> budget \<Rightarrow> budget_set \<Rightarrow> budget" where
  "resolveResumeBudget caller saved explicit =
     \<lparr>bu_iterations = (if bs_iterations explicit then bu_iterations caller else bu_iterations saved),
      bu_tokens = (if bs_tokens explicit then bu_tokens caller else bu_tokens saved)\<rparr>"

definition goalStateKey :: "string \<Rightarrow> string" where
  "goalStateKey workdir = ''goalstate:'' @ workdir"

text \<open>\<open>KVGet\<close> and \<open>KVSet\<close> of the port.\<close>

definition goal_get :: "string \<Rightarrow> goal_store \<Rightarrow> string + blob option" where
  "goal_get k st = (case st_get_fails st of Some e \<Rightarrow> Inl e | None \<Rightarrow> Inr (st_rows st k))"

definition goal_put :: "string \<Rightarrow> blob \<Rightarrow> goal_store \<Rightarrow> (string + unit) \<times> goal_store" where
  "goal_put k b st =
     (case st_set_fails st of Some e \<Rightarrow> (Inl e, st) | None \<Rightarrow> (Inr (), st\<lparr>st_rows := (st_rows st)(k \<mapsto> b)\<rparr>))"

definition ResetGoalState :: "string \<Rightarrow> goal_store \<Rightarrow> (string + unit) \<times> goal_store" where
  "ResetGoalState workdir st =
     goal_put (goalStateKey workdir)
       (State \<lparr>gs_objective = [], gs_budget = \<lparr>bu_iterations = 0, bu_tokens = 0\<rparr>, gs_iterations = 0,
               gs_usage = no_usage, gs_complete = True\<rparr>) st"

definition loadState :: "goal \<Rightarrow> 'x loop \<Rightarrow> string + goal_state option" where
  "loadState g s =
     (case lp_store s of None \<Rightarrow> Inr None
      | Some st \<Rightarrow>
          (case goal_get (goalStateKey (gl_workdir g)) st of
             Inl e \<Rightarrow> Inl e
           | Inr None \<Rightarrow> Inr None
           | Inr (Some (Garbage e)) \<Rightarrow> Inl (''decode goal state: '' @ e)
           | Inr (Some (State gs)) \<Rightarrow>
               if gs_complete gs \<or> gs_objective gs \<noteq> gl_text g then Inr None else Inr (Some gs)))"

definition current_state :: "goal \<Rightarrow> bool \<Rightarrow> 'x loop \<Rightarrow> goal_state" where
  "current_state g complete s =
     \<lparr>gs_objective = gl_text g, gs_budget = lp_budget s, gs_iterations = lp_persisted s,
      gs_usage = usageSnapshot s, gs_complete = complete\<rparr>"

definition saveState :: "goal \<Rightarrow> bool \<Rightarrow> 'x loop \<Rightarrow> (string + unit) \<times> 'x loop" where
  "saveState g complete s =
     (case lp_store s of None \<Rightarrow> (Inr (), s)
      | Some st \<Rightarrow>
          (case goal_put (goalStateKey (gl_workdir g)) (State (current_state g complete s)) st of
             (r, st') \<Rightarrow> (r, s\<lparr>lp_store := Some st'\<rparr>)))"

text \<open>A write and, when it fails, the notice that is emitted for it.\<close>

definition persist :: "goal \<Rightarrow> bool \<Rightarrow> int \<Rightarrow> 'x loop \<Rightarrow> 'x loop" where
  "persist g complete i s =
     (case saveState g complete s of
        (Inl e, s') \<Rightarrow> emit ''State'' (Persist_failed e) i s'
      | (Inr _, s') \<Rightarrow> s')"

section \<open>One iteration\<close>

text \<open>A call of a part: its result, the reports added to the sink, the world moved on.\<close>

definition run_part :: "('a, 'x) step \<Rightarrow> 'x loop \<Rightarrow> (string + 'a) \<times> 'x loop" where
  "run_part f s =
     (case f (lp_world s) of
        (r, reports, x) \<Rightarrow>
          (r, s\<lparr>lp_sink := map_option (\<lambda>u. foldl sink_add u reports) (lp_sink s), lp_world := x\<rparr>))"

definition error_verdict :: "string \<Rightarrow> eval_verdict" where
  "error_verdict e =
     \<lparr>ev_evaluator = ''error'', ev_pass = False, ev_evidence = e, ev_gaps = [''evaluator error: '' @ e]\<rparr>"

fun run_evaluators :: "(goal \<Rightarrow> plan \<Rightarrow> string \<Rightarrow> (eval_verdict, 'x) step) list \<Rightarrow> goal \<Rightarrow> plan \<Rightarrow> 'x loop
    \<Rightarrow> eval_verdict list \<times> 'x loop" where
  "run_evaluators [] g pl s = ([], s)"
| "run_evaluators (ev # evs) g pl s =
     (case run_part (ev g pl (gl_workdir g)) s of
        (r, s1) \<Rightarrow>
          (case run_evaluators evs g pl s1 of
             (vs, s2) \<Rightarrow> ((case r of Inl e \<Rightarrow> error_verdict e | Inr v \<Rightarrow> v) # vs, s2)))"

text \<open>The directive of the last round becomes the first step of this round's plan.\<close>

definition inject :: "plan \<Rightarrow> 'x loop \<Rightarrow> plan \<times> 'x loop" where
  "inject pl s =
     (if lp_directive s \<noteq> [] then (pl\<lparr>pl_steps := lp_directive s # pl_steps pl\<rparr>, s\<lparr>lp_directive := []\<rparr>) else (pl, s))"

text \<open>
  The audit of a claim: the terminal decision of an adjudicated claim, or the judge's
  decision, possibly vetoed, with whether it was.
\<close>

definition unproven_decision :: "string \<Rightarrow> 'x loop \<Rightarrow> goal_decision" where
  "unproven_decision reason s =
     \<lparr>de_complete = False, de_gaps = [],
      de_summary = ''completion claimed without verifiable evidence in '' @ itoa (int fakeCompletionRounds)
                   @ '' consecutive rounds (last reason: '' @ reason @ '')'',
      de_stop = StopReasonUnprovenCompletion, de_usage = usageSnapshot s\<rparr>"

definition audit_claim :: "audit_round \<Rightarrow> goal_decision \<Rightarrow> 'x loop \<Rightarrow> (goal_decision + goal_decision \<times> bool) \<times> 'x loop" where
  "audit_claim r d s =
     (case lp_audit s of None \<Rightarrow> (Inr (d, False), s)
      | Some a \<Rightarrow>
          if \<not> de_complete d then (Inr (d, False), s)
          else (case AuditComplete r a of
                  (av, a') \<Rightarrow>
                    let s = s\<lparr>lp_audit := Some a'\<rparr>; i = ar_iteration r in
                    if av_accept av then (Inr (d, False), emit ''Audit'' Completion_verified i s)
                    else if av_final av
                    then (Inl (unproven_decision (av_reason av) s), emit ''Audit'' (Adjudicated (av_reason av)) i s)
                    else (Inr (d\<lparr>de_complete := False\<rparr>, True),
                          emit ''Audit'' (Vetoed (av_reason av)) i
                            (s\<lparr>lp_directive := join_directives (lp_directive s) (av_directive av)\<rparr>))))"

definition reset_claims :: "bool \<Rightarrow> bool \<Rightarrow> 'x loop \<Rightarrow> 'x loop" where
  "reset_claims complete vetoed s =
     (case lp_audit s of None \<Rightarrow> s
      | Some a \<Rightarrow> if \<not> complete \<and> \<not> vetoed then s\<lparr>lp_audit := Some (ResetClaims a)\<rparr> else s)"

definition observe_progress :: "audit_round \<Rightarrow> 'x loop \<Rightarrow> 'x loop" where
  "observe_progress r s =
     (case lp_audit s of None \<Rightarrow> s
      | Some a \<Rightarrow>
          (case ObserveProgress r a of
             (d, stale, a') \<Rightarrow>
               let s = s\<lparr>lp_audit := Some a'\<rparr> in
               if d = [] then s
               else emit ''Audit'' (Stale_rounds stale) (ar_iteration r)
                      (s\<lparr>lp_directive := join_directives (lp_directive s) d\<rparr>)))"

text \<open>What follows the judgement: audit, progress, the commit of the iteration, the verdict.\<close>

definition conclude :: "goal \<Rightarrow> audit_round \<Rightarrow> goal_decision \<Rightarrow> 'x loop \<Rightarrow> exit \<times> 'x loop" where
  "conclude g r d s =
     (case audit_claim r d s of
        (Inl stop, s) \<Rightarrow> (Return stop, s)
      | (Inr (d, vetoed), s) \<Rightarrow>
          let i = ar_iteration r;
              s = observe_progress r (reset_claims (de_complete d) vetoed s);
              s = persist g (de_complete d) i (s\<lparr>lp_complete := de_complete d, lp_persisted := i\<rparr>) in
          if de_complete d
          then (Return d, emit ''Done'' (Text (de_summary d)) i (emit ''Judge'' (Text ''complete'') i s))
          else (Go_on, emit ''Judge'' (Gaps (join_str ''; '' (de_gaps d))) i s))"

text \<open>From a plan that is within the budget to the end of the iteration.\<close>

definition implement_and_judge :: "'x parts \<Rightarrow> goal \<Rightarrow> int \<Rightarrow> plan \<Rightarrow> 'x loop \<Rightarrow> exit \<times> 'x loop" where
  "implement_and_judge pt g i pl s =
     (case run_part (pt_implementer pt pl (gl_workdir g)) s of
        (impl, s) \<Rightarrow>
          let s = emit ''Implement'' (case impl of Inl e \<Rightarrow> Part_error e | Inr out \<Rightarrow> Text out) i s in
          case run_evaluators (pt_evaluators pt) g pl s of
            (vs, s) \<Rightarrow>
              let s = emit ''Evaluate'' (Verdicts (length vs)) i s in
              case run_part (pt_judge pt vs) s of
                (Inl e, s) \<Rightarrow> (Fail (Judge_error i e), emit ''Judge'' (Part_error e) i s)
              | (Inr d, s) \<Rightarrow>
                  conclude g \<lparr>ar_iteration = i, ar_plan = pl, ar_implemented = (\<not> isl impl),
                              ar_verdicts = vs\<rparr> d s)"

definition iteration :: "'x parts \<Rightarrow> goal \<Rightarrow> int \<Rightarrow> 'x loop \<Rightarrow> exit \<times> 'x loop" where
  "iteration pt g i s =
     (case pt_ctx pt (lp_world s) of Some e \<Rightarrow> (Fail (Cancelled e), s)
      | None \<Rightarrow>
          if overBudget s then (Return (budgetExceededDecision ''before iteration'' s), s)
          else (case run_part (pt_planner pt g) (s\<lparr>lp_iterations := i\<rparr>) of
                  (Inl e, s) \<Rightarrow> (Fail (Planner_error i e), emit ''Plan'' (Part_error e) i s)
                | (Inr pl, s) \<Rightarrow>
                    (case inject pl s of
                       (pl, s) \<Rightarrow>
                         let s = emit ''Plan'' (Steps_and_tests (length (pl_steps pl)) (length (pl_tests pl))) i s in
                         if overBudget s then (Return (budgetExceededDecision ''after plan'' s), s)
                         else implement_and_judge pt g i pl s)))"

section \<open>The loop\<close>

text \<open>\<open>rounds pt g n i s\<close>: the next \<open>n\<close> rounds from iteration \<open>i\<close>, unless one ends the run.\<close>

fun rounds :: "'x parts \<Rightarrow> goal \<Rightarrow> nat \<Rightarrow> int \<Rightarrow> 'x loop \<Rightarrow> exit \<times> 'x loop" where
  "rounds pt g 0 i s = (Go_on, s)"
| "rounds pt g (Suc n) i s =
     (case iteration pt g i s of
        (Go_on, s') \<Rightarrow> rounds pt g n (i + 1) s'
      | (ex, s') \<Rightarrow> (ex, s'))"

definition exhausted :: "loop_config \<Rightarrow> 'x loop \<Rightarrow> goal_decision" where
  "exhausted lc s =
     (let hint = EscalationHint (lc_tier lc);
          summary = ''max iterations ('' @ itoa (bu_iterations (lp_budget s)) @ '') reached without completion'' in
      \<lparr>de_complete = False, de_gaps = [], de_summary = (if hint \<noteq> [] then summary @ ''; '' @ hint else summary),
       de_stop = (if hint \<noteq> [] then StopReasonEscalate else StopReasonMaxIters), de_usage = usageSnapshot s\<rparr>)"

text \<open>The first iteration of a run, and the state after what was saved has been taken over.\<close>

definition resume :: "loop_config \<Rightarrow> goal \<Rightarrow> 'x loop \<Rightarrow> int \<times> 'x loop" where
  "resume lc g s =
     (case loadState g s of
        Inl e \<Rightarrow> (1, emit ''State'' (State_unreadable e) 0 s)
      | Inr None \<Rightarrow> (1, s)
      | Inr (Some gs) \<Rightarrow>
          let n = gs_iterations gs;
              s = s\<lparr>lp_iterations := n, lp_persisted := n,
                    lp_sink := map_option (\<lambda>u. sink_add u (gs_usage gs)) (lp_sink s)\<rparr>;
              eff = resolveResumeBudget (lp_budget s) (gs_budget gs) (lc_explicit lc);
              s = (if eff \<noteq> gs_budget gs then emit ''State'' (Explicit_overrides eff (gs_budget gs)) n s else s);
              s = (if eff \<noteq> lp_budget s then emit ''State'' (Persisted_overrides eff (lp_budget s)) n s else s);
              s = s\<lparr>lp_budget := eff\<rparr> in
          (n + 1, emit ''State'' (Resuming (n + 1) (bu_iterations eff) (usage_total (gs_usage gs))) n s))"

definition Run :: "'x parts \<Rightarrow> loop_config \<Rightarrow> goal \<Rightarrow> 'x loop \<Rightarrow> (goal_error + goal_decision) \<times> 'x loop" where
  "Run pt lc g s =
     (case resume lc g s of
        (first, s) \<Rightarrow>
          (case rounds pt g (nat (bu_iterations (lp_budget s) - first + 1)) first s of
             (ex, s) \<Rightarrow>
               ((case ex of Go_on \<Rightarrow> Inr (exhausted lc s) | Return d \<Rightarrow> Inr d | Fail e \<Rightarrow> Inl e),
                persist g (lp_complete s) (lp_iterations s) s)))"

end
