(* ===== verification/GoalLoopProps.thy ===== *)
theory GoalLoopProps
  imports GoalLoop
begin

text \<open>
  What the goal loop guarantees: how many iterations a run executes, what a completed goal is
  backed by, when claims are adjudicated, and that a run killed at any moment goes on where it
  stopped, with the budget it had.
\<close>

section \<open>What the operations leave alone\<close>

definition planned :: "'x loop \<Rightarrow> int list" where
  "planned s = map e_iteration (filter (\<lambda>e. e_phase e = ''Plan'') (lp_events s))"

fun concludes :: "event \<Rightarrow> bool" where
  "concludes e \<longleftrightarrow> e_phase e = ''Judge'' \<and> (case e_detail e of Part_error _ \<Rightarrow> False | _ \<Rightarrow> True)"

text \<open>The iterations that ran to their end, as the events of the judge report them.\<close>

definition committed :: "'x loop \<Rightarrow> int list" where
  "committed s = map e_iteration (filter concludes (lp_events s))"

lemma emit_fields [simp]:
  "lp_budget (emit p d i s) = lp_budget s" "lp_sink (emit p d i s) = lp_sink s"
  "lp_store (emit p d i s) = lp_store s" "lp_audit (emit p d i s) = lp_audit s"
  "lp_iterations (emit p d i s) = lp_iterations s" "lp_persisted (emit p d i s) = lp_persisted s"
  "lp_directive (emit p d i s) = lp_directive s" "lp_complete (emit p d i s) = lp_complete s"
  "lp_world (emit p d i s) = lp_world s"
  "lp_events (emit p d i s) = lp_events s @ [\<lparr>e_phase = p, e_iteration = i, e_detail = d\<rparr>]"
  by (simp_all add: emit_def)

lemma emit_events [simp]:
  "planned (emit p d i s) = planned s @ (if p = ''Plan'' then [i] else [])"
  "committed (emit p d i s) =
     committed s @ (if concludes \<lparr>e_phase = p, e_iteration = i, e_detail = d\<rparr> then [i] else [])"
  by (simp_all add: planned_def committed_def)

lemma update_events [simp]:
  "planned (s\<lparr>lp_budget := b\<rparr>) = planned s" "committed (s\<lparr>lp_budget := b\<rparr>) = committed s"
  "planned (s\<lparr>lp_persisted := n\<rparr>) = planned s" "committed (s\<lparr>lp_persisted := n\<rparr>) = committed s"
  "planned (s\<lparr>lp_iterations := n\<rparr>) = planned s" "committed (s\<lparr>lp_iterations := n\<rparr>) = committed s"
  "planned (s\<lparr>lp_sink := u\<rparr>) = planned s" "committed (s\<lparr>lp_sink := u\<rparr>) = committed s"
  by (simp_all add: planned_def committed_def)

text \<open>
  A quiet step changes neither the budget nor what is saved, finishes no iteration, and emits
  nothing under the phases of the planner and the judge.
\<close>

definition quiet :: "'x loop \<Rightarrow> 'x loop \<Rightarrow> bool" where
  "quiet s s' \<longleftrightarrow> lp_budget s' = lp_budget s \<and> lp_store s' = lp_store s \<and> lp_persisted s' = lp_persisted s
     \<and> lp_complete s' = lp_complete s \<and> planned s' = planned s \<and> committed s' = committed s"

named_theorems quiets \<open>steps that are quiet\<close>

lemma quiet_refl [quiets]: "quiet s s"
  by (simp add: quiet_def)

lemma quiet_trans: "quiet s t \<Longrightarrow> quiet t u \<Longrightarrow> quiet s u"
  by (simp add: quiet_def)

lemma quiet_emit [quiets]: "p \<noteq> ''Plan'' \<Longrightarrow> p \<noteq> ''Judge'' \<Longrightarrow> quiet s (emit p d i s)"
  by (simp add: quiet_def planned_def committed_def)

lemma quiet_run_part [quiets]: "run_part f s = (r, s') \<Longrightarrow> quiet s s'"
  by (auto simp: run_part_def quiet_def planned_def committed_def split: prod.splits)

lemma quiet_run_evaluators [quiets]: "run_evaluators evs g pl s = (vs, s') \<Longrightarrow> quiet s s'"
proof (induction evs arbitrary: s vs)
  case (Cons e evs)
  then show ?case by (auto split: prod.splits intro: quiet_trans quiet_run_part)
qed (simp add: quiets)

lemma quiet_inject [quiets]: "inject pl s = (pl', s') \<Longrightarrow> quiet s s'"
  by (auto simp: inject_def quiet_def planned_def committed_def split: if_splits)

lemma quiet_audit_claim [quiets]: "audit_claim r d s = (res, s') \<Longrightarrow> quiet s s'"
  by (auto simp: audit_claim_def Let_def quiet_def planned_def committed_def split: option.splits if_splits prod.splits)

lemma quiet_reset_claims [quiets]: "quiet s (reset_claims c v s)"
  by (auto simp: reset_claims_def quiet_def planned_def committed_def split: option.splits)

lemma quiet_observe_progress [quiets]: "quiet s (observe_progress r s)"
  by (auto simp: observe_progress_def Let_def quiet_def planned_def committed_def split: option.splits prod.splits)

text \<open>A write saves the current position, where the store takes it.\<close>

definition working :: "goal_store \<Rightarrow> bool" where
  "working st \<longleftrightarrow> st_get_fails st = None \<and> st_set_fails st = None"

definition saved_in :: "goal \<Rightarrow> bool \<Rightarrow> 'x loop \<Rightarrow> goal_store \<Rightarrow> goal_store" where
  "saved_in g complete s st = st\<lparr>st_rows := (st_rows st)(goalStateKey (gl_workdir g) \<mapsto> State (current_state g complete s))\<rparr>"

lemma persist_fields [simp]:
  "lp_budget (persist g c i s) = lp_budget s" "lp_sink (persist g c i s) = lp_sink s"
  "lp_audit (persist g c i s) = lp_audit s" "lp_iterations (persist g c i s) = lp_iterations s"
  "lp_persisted (persist g c i s) = lp_persisted s" "lp_directive (persist g c i s) = lp_directive s"
  "lp_complete (persist g c i s) = lp_complete s" "lp_world (persist g c i s) = lp_world s"
  by (auto simp: persist_def saveState_def goal_put_def split: option.splits)

lemma persist_events [simp]:
  "planned (persist g c i s) = planned s" "committed (persist g c i s) = committed s"
  by (auto simp: persist_def saveState_def goal_put_def planned_def committed_def split: option.splits)

lemma persist_store:
  "lp_store s = Some st \<Longrightarrow> working st \<Longrightarrow> lp_store (persist g c i s) = Some (saved_in g c s st)"
  by (simp add: persist_def saveState_def goal_put_def working_def saved_in_def)

lemma saved_in_later [simp]:
  "saved_in g c (emit p d i s) st = saved_in g c s st"
  "saved_in g c (persist g' c' i s) st = saved_in g c s st"
  by (simp_all add: saved_in_def current_state_def usageSnapshot_def)

section \<open>One iteration\<close>

text \<open>The end of an iteration that judges: it is counted, and saved when the store works.\<close>

definition concluded :: "goal \<Rightarrow> int \<Rightarrow> 'x loop \<Rightarrow> 'x loop \<Rightarrow> bool" where
  "concluded g i s s' \<longleftrightarrow> lp_persisted s' = i \<and> committed s' = committed s @ [i]
     \<and> lp_budget s' = lp_budget s
     \<and> (\<forall>st. lp_store s = Some st \<longrightarrow> working st \<longrightarrow> lp_store s' = Some (saved_in g (lp_complete s') s' st))"

lemma conclude_cases:
  assumes "conclude g r d s = (ex, s')"
  shows "planned s' = planned s"
    and "(\<exists>stop. ex = Return stop \<and> quiet s s') \<or>
         (\<exists>d'. ex = Return d' \<and> de_complete d' \<and> lp_complete s' \<and> concluded g (ar_iteration r) s s') \<or>
         (ex = Go_on \<and> \<not> lp_complete s' \<and> concluded g (ar_iteration r) s s')"
proof -
  obtain res s1 where a: "audit_claim r d s = (res, s1)" by fastforce
  have q1: "quiet s s1" by (rule quiet_audit_claim [OF a])
  have "planned s' = planned s \<and> ((\<exists>stop. ex = Return stop \<and> quiet s s') \<or>
         (\<exists>d'. ex = Return d' \<and> de_complete d' \<and> lp_complete s' \<and> concluded g (ar_iteration r) s s') \<or>
         (ex = Go_on \<and> \<not> lp_complete s' \<and> concluded g (ar_iteration r) s s'))"
  proof (cases res)
    case (Inl stop)
    with a assms q1 show ?thesis by (auto simp: conclude_def quiet_def)
  next
    case (Inr dv)
    obtain d' v where dv: "dv = (d', v)" by (cases dv)
    let ?s2 = "observe_progress r (reset_claims (de_complete d') v s1)"
    let ?s3 = "?s2\<lparr>lp_complete := de_complete d', lp_persisted := ar_iteration r\<rparr>"
    let ?s4 = "persist g (de_complete d') (ar_iteration r) ?s3"
    have q2: "quiet s ?s2" using q1 quiet_trans quiet_reset_claims quiet_observe_progress by metis
    have e3: "planned ?s3 = planned ?s2" "committed ?s3 = committed ?s2" by (simp_all add: planned_def committed_def)
    have store: "lp_store ?s4 = Some (saved_in g (de_complete d') ?s3 st)" if "lp_store s = Some st" "working st" for st
      by (rule persist_store) (use that q2 in \<open>simp_all add: quiet_def\<close>)
    show ?thesis
    proof (cases "de_complete d'")
      case True
      then have "ex = Return d'" "s' = emit ''Done'' (Text (de_summary d')) (ar_iteration r)
          (emit ''Judge'' (Text ''complete'') (ar_iteration r) ?s4)"
        using assms a Inr dv by (simp_all add: conclude_def Let_def)
      with True q2 e3 store show ?thesis by (simp add: concluded_def quiet_def)
    next
      case False
      then have "ex = Go_on" "s' = emit ''Judge'' (Gaps (join_str ''; '' (de_gaps d'))) (ar_iteration r) ?s4"
        using assms a Inr dv by (simp_all add: conclude_def Let_def)
      with False q2 e3 store show ?thesis by (simp add: concluded_def quiet_def)
    qed
  qed
  then show "planned s' = planned s" and "(\<exists>stop. ex = Return stop \<and> quiet s s') \<or>
         (\<exists>d'. ex = Return d' \<and> de_complete d' \<and> lp_complete s' \<and> concluded g (ar_iteration r) s s') \<or>
         (ex = Go_on \<and> \<not> lp_complete s' \<and> concluded g (ar_iteration r) s s')" by blast+
qed

lemma conclude_stop_incomplete:
  "conclude g r d s = (Return stop, s') \<Longrightarrow> quiet s s' \<Longrightarrow> ar_iteration r = i \<Longrightarrow>
     de_complete stop \<Longrightarrow> lp_complete s'"
  by (auto simp: conclude_def Let_def audit_claim_def unproven_decision_def
      split: prod.splits sum.splits option.splits if_splits)

text \<open>A step of an iteration that ends the run early: only the planner's event may be new.\<close>

definition settled :: "'x loop \<Rightarrow> 'x loop \<Rightarrow> bool" where
  "settled s s' \<longleftrightarrow> lp_budget s' = lp_budget s \<and> lp_store s' = lp_store s \<and> lp_persisted s' = lp_persisted s
     \<and> lp_complete s' = lp_complete s \<and> committed s' = committed s"

lemma quiet_settled: "quiet s s' \<Longrightarrow> settled s s'"
  by (simp add: quiet_def settled_def)

lemma settled_trans: "settled s t \<Longrightarrow> settled t u \<Longrightarrow> settled s u"
  by (simp add: settled_def)

lemma settled_concluded: "settled s t \<Longrightarrow> concluded g i t u \<Longrightarrow> concluded g i s u"
  by (simp add: settled_def concluded_def)

lemma settled_emit: "\<not> concludes \<lparr>e_phase = p, e_iteration = i, e_detail = d\<rparr> \<Longrightarrow> settled s (emit p d i s)"
  by (simp add: settled_def)

definition outcome :: "goal \<Rightarrow> int \<Rightarrow> 'x loop \<Rightarrow> exit \<Rightarrow> 'x loop \<Rightarrow> bool" where
  "outcome g i s ex s' \<longleftrightarrow>
     (ex \<noteq> Go_on \<and> settled s s') \<or>
     (\<exists>d. ex = Return d \<and> de_complete d \<and> lp_complete s' \<and> concluded g i s s') \<or>
     (ex = Go_on \<and> \<not> lp_complete s' \<and> concluded g i s s')"

lemma outcome_after: "settled s t \<Longrightarrow> outcome g i t ex u \<Longrightarrow> outcome g i s ex u"
  unfolding outcome_def using settled_trans settled_concluded by metis

lemma implement_and_judge_cases:
  assumes "implement_and_judge pt g i pl s = (ex, s')"
  shows "planned s' = planned s" "outcome g i s ex s'"
proof -
  obtain impl s1 where 1: "run_part (pt_implementer pt pl (gl_workdir g)) s = (impl, s1)" by fastforce
  let ?s1 = "emit ''Implement'' (case impl of Inl e \<Rightarrow> Part_error e | Inr out \<Rightarrow> Text out) i s1"
  obtain vs s2 where 2: "run_evaluators (pt_evaluators pt) g pl ?s1 = (vs, s2)" by fastforce
  let ?s2 = "emit ''Evaluate'' (Verdicts (length vs)) i s2"
  obtain res s3 where 3: "run_part (pt_judge pt vs) ?s2 = (res, s3)" by fastforce
  have "quiet s ?s1" by (rule quiet_trans [OF quiet_run_part [OF 1] quiet_emit]) simp_all
  moreover have "quiet ?s1 ?s2" by (rule quiet_trans [OF quiet_run_evaluators [OF 2] quiet_emit]) simp_all
  ultimately have q: "quiet s s3" using quiet_trans quiet_run_part [OF 3] by blast
  have body: "implement_and_judge pt g i pl s =
      (case res of Inl e \<Rightarrow> (Fail (Judge_error i e), emit ''Judge'' (Part_error e) i s3)
       | Inr d \<Rightarrow> conclude g \<lparr>ar_iteration = i, ar_plan = pl, ar_implemented = (\<not> isl impl),
                   ar_verdicts = vs\<rparr> d s3)"
    unfolding implement_and_judge_def 1 Let_def prod.case 2 3 ..
  have "planned s' = planned s \<and> outcome g i s ex s'"
  proof (cases res)
    case (Inl e)
    then have "ex = Fail (Judge_error i e)" "s' = emit ''Judge'' (Part_error e) i s3"
      using assms body by simp_all
    with q show ?thesis by (simp add: outcome_def settled_def quiet_def)
  next
    case (Inr d)
    let ?r = "\<lparr>ar_iteration = i, ar_plan = pl, ar_implemented = (\<not> isl impl), ar_verdicts = vs\<rparr>"
    have c: "conclude g ?r d s3 = (ex, s')" using Inr assms body by simp
    have "outcome g i s3 ex s'"
      using conclude_cases(2) [OF c] quiet_settled unfolding outcome_def by fastforce
    then show ?thesis
      using outcome_after [OF quiet_settled [OF q]] conclude_cases(1) [OF c] q by (simp add: quiet_def)
  qed
  then show "planned s' = planned s" "outcome g i s ex s'" by blast+
qed

lemma iteration_cases:
  assumes "iteration pt g i s = (ex, s')"
  shows "(planned s' = planned s \<and> ex \<noteq> Go_on \<and> settled s s') \<or> planned s' = planned s @ [i]" "outcome g i s ex s'"
proof -
  have "((planned s' = planned s \<and> ex \<noteq> Go_on \<and> settled s s') \<or> planned s' = planned s @ [i]) \<and> outcome g i s ex s'"
  proof (cases "pt_ctx pt (lp_world s) \<noteq> None \<or> overBudget s")
    case True
    with assms show ?thesis by (auto simp: iteration_def outcome_def settled_def split: option.splits)
  next
    case False
    let ?s0 = "s\<lparr>lp_iterations := i\<rparr>"
    obtain res s1 where 1: "run_part (pt_planner pt g) ?s0 = (res, s1)" by fastforce
    have "quiet s ?s0" by (simp add: quiet_def planned_def committed_def)
    then have q1: "quiet s s1" using quiet_trans quiet_run_part [OF 1] by blast
    show ?thesis
    proof (cases res)
      case (Inl e)
      then have "ex = Fail (Planner_error i e)" "s' = emit ''Plan'' (Part_error e) i s1"
        using assms False 1 by (auto simp: iteration_def)
      with q1 show ?thesis by (auto simp: outcome_def settled_def quiet_def)
    next
      case (Inr pl)
      obtain pl' s2 where 2: "inject pl s1 = (pl', s2)" by fastforce
      let ?s2 = "emit ''Plan'' (Steps_and_tests (length (pl_steps pl')) (length (pl_tests pl'))) i s2"
      have q2: "quiet s s2" using q1 quiet_trans quiet_inject [OF 2] by blast
      then have st: "settled s ?s2" by (simp add: settled_def quiet_def)
      have p2: "planned ?s2 = planned s @ [i]" using q2 by (simp add: quiet_def)
      show ?thesis
      proof (cases "overBudget ?s2")
        case True
        then have "ex = Return (budgetExceededDecision ''after plan'' ?s2)" "s' = ?s2"
          using assms False 1 2 Inr by (auto simp: iteration_def Let_def)
        with st p2 show ?thesis by (simp add: outcome_def)
      next
        case over: False
        then have e: "implement_and_judge pt g i pl' ?s2 = (ex, s')"
          using assms False 1 2 Inr by (auto simp: iteration_def Let_def)
        show ?thesis
          using implement_and_judge_cases [OF e] outcome_after [OF st] p2 by simp
      qed
    qed
  qed
  then show "(planned s' = planned s \<and> ex \<noteq> Go_on \<and> settled s s') \<or> planned s' = planned s @ [i]" "outcome g i s ex s'" by blast+
qed

section \<open>The rounds of a run\<close>

abbreviation row :: "goal \<Rightarrow> goal_store \<Rightarrow> blob option" where
  "row g st \<equiv> st_rows st (goalStateKey (gl_workdir g))"

text \<open>The row a store holds for the goal: at iteration \<open>n\<close>, with this budget.\<close>

definition at_iteration :: "goal \<Rightarrow> budget \<Rightarrow> int \<Rightarrow> bool \<Rightarrow> goal_store \<Rightarrow> bool" where
  "at_iteration g b n c st \<longleftrightarrow> (\<exists>gs. row g st = Some (State gs) \<and> gs_objective gs = gl_text g \<and> gs_budget gs = b
     \<and> gs_iterations gs = n \<and> gs_complete gs = c)"

lemma at_iteration_saved [simp]:
  "at_iteration g b n c (saved_in g c' s st) \<longleftrightarrow> lp_budget s = b \<and> lp_persisted s = n \<and> c' = c"
  by (auto simp: at_iteration_def saved_in_def current_state_def)

lemma working_saved [simp]: "working (saved_in g c s st) \<longleftrightarrow> working st"
  by (simp add: working_def saved_in_def)

text \<open>
  \<open>m\<close> iterations from \<open>i\<close> on were finished and saved, \<open>k\<close> were begun.
\<close>

definition advanced :: "goal \<Rightarrow> int \<Rightarrow> nat \<Rightarrow> nat \<Rightarrow> 'x loop \<Rightarrow> 'x loop \<Rightarrow> bool" where
  "advanced g i m k s s' \<longleftrightarrow>
     planned s' = planned s @ [i .. i + int k - 1] \<and> committed s' = committed s @ [i .. i + int m - 1]
     \<and> lp_budget s' = lp_budget s \<and> m \<le> k \<and> k \<le> Suc m
     \<and> (if m = 0 then lp_store s' = lp_store s \<and> lp_persisted s' = lp_persisted s \<and> lp_complete s' = lp_complete s
        else lp_persisted s' = i + int m - 1 \<and>
          (\<forall>st. lp_store s = Some st \<longrightarrow> working st \<longrightarrow>
             (\<exists>st'. lp_store s' = Some st' \<and> working st'
                \<and> at_iteration g (lp_budget s) (i + int m - 1) (lp_complete s') st')))"

lemma upto_Cons: "i # [i + 1 .. i + 1 + int k - 1] = [i .. i + int (Suc k) - 1]"
  by (simp add: upto_rec1)

lemma advanced_step:
  assumes "planned t = planned s @ [i]" "concluded g i s t" "advanced g (i + 1) m k t u"
  shows "advanced g i (Suc m) (Suc k) s u"
proof -
  have u: "planned u = planned s @ i # [i + 1 .. i + 1 + int k - 1]"
      "committed u = committed s @ i # [i + 1 .. i + 1 + int m - 1]" "lp_budget u = lp_budget s" "m \<le> k" "k \<le> Suc m"
    using assms by (simp_all add: advanced_def concluded_def)
  have "lp_persisted u = i + int m" using assms by (simp add: advanced_def concluded_def split: if_splits)
  moreover have "\<exists>st'. lp_store u = Some st' \<and> working st' \<and> at_iteration g (lp_budget s) (i + int m) (lp_complete u) st'"
    if st: "lp_store s = Some st" "working st" for st
  proof -
    have t: "lp_store t = Some (saved_in g (lp_complete t) t st)" using assms(2) st by (simp add: concluded_def)
    show ?thesis
    proof (cases "m = 0")
      case True
      with t st assms(2,3) show ?thesis by (simp add: advanced_def concluded_def)
    next
      case False
      with t st assms(2,3) show ?thesis by (auto simp: advanced_def concluded_def)
    qed
  qed
  ultimately show ?thesis unfolding advanced_def u upto_Cons using u(4,5) by simp
qed

lemma rounds_cases:
  "rounds pt g n i s = (ex, s') \<Longrightarrow>
     \<exists>m k. k \<le> n \<and> advanced g i m k s s' \<and> (ex = Go_on \<longrightarrow> m = n)
       \<and> (lp_complete s' \<longrightarrow> lp_complete s \<or> 0 < m \<and> (\<exists>d. ex = Return d \<and> de_complete d))"
proof (induction n arbitrary: i s)
  case 0
  then have "advanced g i 0 0 s s'" by (simp add: advanced_def)
  with 0 show ?case by fastforce
next
  case (Suc n)
  obtain ex1 s1 where it: "iteration pt g i s = (ex1, s1)" by fastforce
  note c = iteration_cases [OF it]
  show ?case
  proof (cases "ex1 = Go_on")
    case True
    then have p: "planned s1 = planned s @ [i]" and con: "concluded g i s s1" "\<not> lp_complete s1"
      using c by (auto simp: outcome_def)
    from True it Suc.prems have "rounds pt g n (i + 1) s1 = (ex, s')" by simp
    from Suc.IH [OF this] con(2) obtain m k where mk: "k \<le> n" "advanced g (i + 1) m k s1 s'" "ex = Go_on \<longrightarrow> m = n"
        "lp_complete s' \<longrightarrow> 0 < m \<and> (\<exists>d. ex = Return d \<and> de_complete d)" by blast
    from advanced_step [OF p con(1) mk(2)] mk show ?thesis by fastforce
  next
    case False
    then have e: "ex = ex1" "s' = s1" using it Suc.prems by (auto split: exit.splits)
    obtain k where k: "k \<le> 1" "planned s1 = planned s @ [i .. i + int k - 1]"
    proof (cases "planned s1 = planned s @ [i]")
      case True
      then show ?thesis using that [of 1] by simp
    next
      case other: False
      then show ?thesis using c(1) that [of 0] by simp
    qed
    show ?thesis
    proof (cases "settled s s1")
      case True
      then have "advanced g i 0 k s s1" using k by (simp add: advanced_def settled_def)
      with True e k False show ?thesis
        by (intro exI [of _ 0] exI [of _ k]) (auto simp: settled_def)
    next
      case unsettled: False
      then obtain d where d: "ex1 = Return d" "de_complete d" "lp_complete s1" "concluded g i s s1" "planned s1 = planned s @ [i]"
        using c False by (auto simp: outcome_def)
      have "advanced g i 1 1 s s1"
        using d(4,5) by (auto simp: advanced_def concluded_def)
      with d e show ?thesis by fastforce
    qed
  qed
qed

section \<open>Taking over what was saved\<close>

definition carried :: "'x loop \<Rightarrow> 'x loop \<Rightarrow> bool" where
  "carried s s' \<longleftrightarrow> planned s' = planned s \<and> committed s' = committed s \<and> lp_store s' = lp_store s
     \<and> lp_complete s' = lp_complete s \<and> lp_audit s' = lp_audit s \<and> lp_directive s' = lp_directive s \<and> lp_world s' = lp_world s"

lemma carried_emit: "p \<noteq> ''Plan'' \<Longrightarrow> p \<noteq> ''Judge'' \<Longrightarrow> carried t s \<Longrightarrow> carried t (emit p d i s)"
  by (simp add: carried_def)

lemma carried_update:
  "carried t s \<Longrightarrow> carried t (s\<lparr>lp_budget := b\<rparr>)"
  "carried t s \<Longrightarrow> carried t (s\<lparr>lp_iterations := n, lp_persisted := m, lp_sink := u\<rparr>)"
  by (simp_all add: carried_def)

lemma carried_if: "carried t s \<Longrightarrow> carried t s' \<Longrightarrow> carried t (if P then s else s')"
  by simp

lemma resume_carried: "carried s (snd (resume lc g s))"
proof -
  have r: "carried s s" by (simp add: carried_def)
  show ?thesis
    unfolding resume_def Let_def
    by (cases "loadState g s"; (simp split: option.split)?)
      (intro allI impI carried_emit carried_update carried_if conjI r; simp add: r carried_emit)+
qed

lemma resume_fields:
  assumes "resume lc g s = (first, s')"
  shows "planned s' = planned s" "committed s' = committed s" "lp_store s' = lp_store s" "lp_complete s' = lp_complete s"
    "lp_audit s' = lp_audit s" "lp_directive s' = lp_directive s" "lp_world s' = lp_world s"
  using resume_carried [of s lc g] assms by (simp_all add: carried_def)

lemma resume_fresh:
  assumes "loadState g s = Inr None"
  shows "resume lc g s = (1, s)"
  using assms by (simp add: resume_def)

lemma resume_saved:
  assumes "loadState g s = Inr (Some gs)"
  shows "\<exists>s'. resume lc g s = (gs_iterations gs + 1, s') \<and> lp_persisted s' = gs_iterations gs
    \<and> lp_budget s' = resolveResumeBudget (lp_budget s) (gs_budget gs) (lc_explicit lc)
    \<and> lp_sink s' = map_option (\<lambda>u. sink_add u (gs_usage gs)) (lp_sink s)"
  using assms by (simp add: resume_def Let_def)

lemma loadState_working:
  assumes "lp_store s = Some st" "working st"
  shows "row g st = None \<Longrightarrow> loadState g s = Inr None"
    and "row g st = Some (State gs) \<Longrightarrow> gs_objective gs = gl_text g \<Longrightarrow> \<not> gs_complete gs \<Longrightarrow> loadState g s = Inr (Some gs)"
  using assms by (simp_all add: loadState_def goal_get_def working_def)

lemma resolve_unset:
  "\<not> bs_iterations ex \<Longrightarrow> bu_iterations (resolveResumeBudget b b' ex) = bu_iterations b'"
  "\<not> bs_iterations ex \<Longrightarrow> \<not> bs_tokens ex \<Longrightarrow> resolveResumeBudget b b' ex = b'"
  by (simp_all add: resolveResumeBudget_def)

subsection \<open>The bound on the iterations of a run\<close>

text \<open>
  A run returns after at most as many iterations as its budget leaves from where it starts:
  the planner is asked in the iterations \<open>first, first + 1, \<dots>\<close> one after the other, each that is
  begun but the last is finished, and a run that is not ended from within finishes them all.
\<close>

theorem iterations_bounded:
  assumes "resume lc g s = (first, s1)" "Run pt lc g s = (res, s')"
  shows "\<exists>m k. planned s' = planned s @ [first .. first + int k - 1]
    \<and> committed s' = committed s @ [first .. first + int m - 1] \<and> m \<le> k \<and> k \<le> Suc m
    \<and> int k \<le> max 0 (bu_iterations (lp_budget s1) - first + 1)
    \<and> (int m = max 0 (bu_iterations (lp_budget s1) - first + 1) \<or> (\<exists>e. res = Inl e) \<or>
       (\<exists>d s2. rounds pt g (nat (bu_iterations (lp_budget s1) - first + 1)) first s1 = (Return d, s2) \<and> res = Inr d))"
proof -
  let ?n = "nat (bu_iterations (lp_budget s1) - first + 1)"
  obtain ex s2 where r: "rounds pt g ?n first s1 = (ex, s2)" by fastforce
  then have s': "s' = persist g (lp_complete s2) (lp_iterations s2) s2"
      and res: "res = (case ex of Go_on \<Rightarrow> Inr (exhausted lc s2) | Return d \<Rightarrow> Inr d | Fail e \<Rightarrow> Inl e)"
    using assms by (simp_all add: Run_def)
  obtain m k where mk: "k \<le> ?n" "advanced g first m k s1 s2" "ex = Go_on \<longrightarrow> m = ?n"
    using rounds_cases [OF r] by blast
  have "planned s' = planned s @ [first .. first + int k - 1]" "committed s' = committed s @ [first .. first + int m - 1]"
      "m \<le> k" "k \<le> Suc m"
    using mk(2) s' resume_fields(1,2) [OF assms(1)] by (simp_all add: advanced_def)
  moreover have "int k \<le> max 0 (bu_iterations (lp_budget s1) - first + 1)" using mk(1) by simp
  moreover have "int m = max 0 (bu_iterations (lp_budget s1) - first + 1) \<or> (\<exists>e. res = Inl e) \<or> (\<exists>d. ex = Return d \<and> res = Inr d)"
    using mk(3) res by (cases ex) simp_all
  ultimately show ?thesis using r by blast
qed

subsection \<open>A run killed and started again\<close>

text \<open>
  C35: A run that is killed after \<open>n > 0\<close> finished iterations, at any moment before the next one
  is finished, over a store whose writes work, is taken up by the next process at the following
  iteration.  A limit that was typed for the next process wins; the others are those of the
  killed run, whatever defaults the process was started with.  Its sink starts with the usage
  the killed run had recorded when it finished its last iteration.
\<close>

theorem resumes_where_it_stopped:
  assumes "lp_store s = Some st" "working st" "rounds pt g n i s = (Go_on, s')" "0 < n"
    and "lp_store s' = Some st'" "lp_store t = Some st'"
  shows "\<exists>t'. resume lc g t = (i + int n, t') \<and> lp_persisted t' = i + int n - 1
    \<and> bu_iterations (lp_budget t') = bu_iterations (lp_budget (if bs_iterations (lc_explicit lc) then t else s))
    \<and> bu_tokens (lp_budget t') = bu_tokens (lp_budget (if bs_tokens (lc_explicit lc) then t else s))
    \<and> lp_sink t' = map_option (\<lambda>u. sink_add u (usageSnapshot s')) (lp_sink t)"
proof -
  have "\<exists>st0. working st0 \<and> st' = saved_in g False s' st0"
    using assms(1-5)
  proof (induction n arbitrary: i s st)
    case (Suc n)
    obtain s1 where it: "iteration pt g i s = (Go_on, s1)" and r: "rounds pt g n (i + 1) s1 = (Go_on, s')"
      using Suc.prems(3) by (auto split: prod.splits exit.splits)
    have "lp_store s1 = Some (saved_in g False s1 st)"
      using iteration_cases(2) [OF it] Suc.prems(1,2) by (simp add: outcome_def concluded_def)
    with r Suc.IH [OF _ _ r] Suc.prems(2,5) show ?case by (cases n) auto
  qed simp
  then obtain st0 where st0: "working st0" "st' = saved_in g False s' st0" by blast
  obtain m k where m: "advanced g i m k s s'" "m = n" using rounds_cases [OF assms(3)] by blast
  have "loadState g t = Inr (Some (current_state g False s'))"
    by (rule loadState_working(2) [OF assms(6)]) (use st0 in \<open>simp_all add: saved_in_def current_state_def working_def\<close>)
  from resume_saved [OF this, of lc] obtain t' where "resume lc g t = (lp_persisted s' + 1, t')" "lp_persisted t' = lp_persisted s'"
      "lp_budget t' = resolveResumeBudget (lp_budget t) (lp_budget s') (lc_explicit lc)"
      "lp_sink t' = map_option (\<lambda>u. sink_add u (usageSnapshot s')) (lp_sink t)"
    by (auto simp: current_state_def)
  moreover have "lp_persisted s' = i + int n - 1" "lp_budget s' = lp_budget s"
    using m assms(4) by (simp_all add: advanced_def)
  ultimately show ?thesis by (auto simp: resolveResumeBudget_def)
qed

text \<open>
  The processes that work on one goal in one directory, one after the other, each with flags of
  its own: each takes up what the store holds and is killed after some rounds, or runs
  to its end.  The first list is that of the iterations they finished.  The second has an entry
  for each process: whether its iteration limit was typed, and the limit it worked under.
\<close>

definition open_row :: "goal \<Rightarrow> goal_store \<Rightarrow> bool" where
  "open_row g st \<longleftrightarrow> (\<forall>gs. row g st = Some (State gs) \<longrightarrow> \<not> gs_complete gs)"

inductive history :: "'x parts \<Rightarrow> goal \<Rightarrow> goal_store \<Rightarrow> int list \<Rightarrow> (bool \<times> int) list \<Rightarrow> bool" for pt g where
  fresh: "working st \<Longrightarrow> row g st = None \<Longrightarrow> history pt g st [] []"
| killed: "history pt g st cs ls \<Longrightarrow> open_row g st \<Longrightarrow>
    resume lc g (NewLoop b sink (Some st) audit x) = (first, s) \<Longrightarrow>
    n \<le> nat (bu_iterations (lp_budget s) - first + 1) \<Longrightarrow> rounds pt g n first s = (ex, s') \<Longrightarrow>
    lp_store s' = Some st' \<Longrightarrow>
    history pt g st' (cs @ committed s') (ls @ [(bs_iterations (lc_explicit lc), bu_iterations (lp_budget s))])"
| ended: "history pt g st cs ls \<Longrightarrow> open_row g st \<Longrightarrow>
    resume lc g (NewLoop b sink (Some st) audit x) = (first, s) \<Longrightarrow>
    Run pt lc g (NewLoop b sink (Some st) audit x) = (res, s') \<Longrightarrow> lp_store s' = Some st' \<Longrightarrow>
    history pt g st' (cs @ committed s') (ls @ [(bs_iterations (lc_explicit lc), bu_iterations (lp_budget s))])"

text \<open>
  The finished iterations are \<open>1, \<dots>, k\<close>, which is what the row on record says, and \<open>k\<close> stands in
  the relation \<open>Q\<close> to the limit on record.
\<close>

definition counted :: "(int \<Rightarrow> int \<Rightarrow> bool) \<Rightarrow> goal \<Rightarrow> goal_store \<Rightarrow> int list \<Rightarrow> bool" where
  "counted Q g st cs \<longleftrightarrow> working st \<and>
     ((row g st = None \<and> cs = []) \<or>
      (\<exists>b k c. cs = [1 .. k] \<and> 0 \<le> k \<and> Q (bu_iterations b) k \<and> at_iteration g b k c st))"

definition in_order :: "goal \<Rightarrow> goal_store \<Rightarrow> int list \<Rightarrow> bool" where
  "in_order = counted (\<lambda>limit k. k \<le> max 0 limit)"

lemma NewLoop_fields [simp]:
  "lp_store (NewLoop b sink st audit x) = st" "lp_budget (NewLoop b sink st audit x) = b"
  "committed (NewLoop b sink st audit x) = []" "planned (NewLoop b sink st audit x) = []"
  "lp_persisted (NewLoop b sink st audit x) = 0" "lp_audit (NewLoop b sink st audit x) = audit"
  "lp_directive (NewLoop b sink st audit x) = []" "lp_complete (NewLoop b sink st audit x) = False"
  "lp_events (NewLoop b sink st audit x) = []"
  by (simp_all add: NewLoop_def committed_def planned_def)

text \<open>A process takes up after the last iteration finished.\<close>

lemma takes_up:
  assumes "counted Q g st cs" "open_row g st"
    and "resume lc g (NewLoop b sink (Some st) audit x) = (first, s)"
  shows "cs = [1 .. first - 1]" "1 \<le> first" "lp_store s = Some st" "working st" "committed s = []"
    "lp_persisted s = first - 1"
    and "first = 1 \<and> row g st = None \<or> (\<exists>b c. at_iteration g b (first - 1) c st \<and> Q (bu_iterations b) (first - 1)
           \<and> (\<not> bs_iterations (lc_explicit lc) \<longrightarrow> bu_iterations (lp_budget s) = bu_iterations b))"
proof -
  let ?s0 = "NewLoop b sink (Some st) audit x"
  have w: "working st" using assms(1) by (simp add: counted_def)
  show "lp_store s = Some st" "committed s = []" "working st"
    using resume_fields [OF assms(3)] w by simp_all
  have "cs = [1 .. first - 1] \<and> 1 \<le> first \<and> lp_persisted s = first - 1
    \<and> (first = 1 \<and> row g st = None \<or> (\<exists>b c. at_iteration g b (first - 1) c st \<and> Q (bu_iterations b) (first - 1)
           \<and> (\<not> bs_iterations (lc_explicit lc) \<longrightarrow> bu_iterations (lp_budget s) = bu_iterations b)))"
  proof (cases "row g st")
    case None
    have "loadState g ?s0 = Inr None" by (rule loadState_working(1) [OF _ w None]) simp
    then have "first = 1" "s = ?s0" using resume_fresh [of g ?s0 lc] assms(3) by simp_all
    with None assms(1) show ?thesis by (simp add: counted_def at_iteration_def)
  next
    case (Some bl)
    with assms(1) obtain b' k c where k: "cs = [1 .. k]" "0 \<le> k" "Q (bu_iterations b') k" "at_iteration g b' k c st"
      by (auto simp: counted_def)
    then obtain gs where gs: "row g st = Some (State gs)" "gs_objective gs = gl_text g" "gs_budget gs = b'"
        "gs_iterations gs = k" by (auto simp: at_iteration_def)
    with assms(2) have "\<not> gs_complete gs" by (simp add: open_row_def)
    then have "loadState g ?s0 = Inr (Some gs)" by (intro loadState_working(2) [OF _ w gs(1,2)]) simp
    from resume_saved [OF this, of lc] assms(3) gs(3,4)
    have "first = k + 1" "lp_persisted s = k"
      "lp_budget s = resolveResumeBudget (lp_budget ?s0) b' (lc_explicit lc)" by auto
    with k show ?thesis by (auto simp: resolveResumeBudget_def)
  qed
  then show "cs = [1 .. first - 1]" "1 \<le> first" "lp_persisted s = first - 1"
    and "first = 1 \<and> row g st = None \<or> (\<exists>b c. at_iteration g b (first - 1) c st \<and> Q (bu_iterations b) (first - 1)
           \<and> (\<not> bs_iterations (lc_explicit lc) \<longrightarrow> bu_iterations (lp_budget s) = bu_iterations b))"
    by blast+
qed

lemma upto_join: "1 \<le> f \<Longrightarrow> [1 .. f - 1] @ [f .. f + int m - 1] = [1 .. f + int m - 1]"
  using upto_split1 [of 1 f "f + int m - 1"] by (cases m) auto

text \<open>
  What a process leaves, killed or ended: a count between the one it found and its limit.  The
  relation to the limit may change from \<open>Q\<close> to \<open>Q'\<close>.
\<close>

lemma counted_killed:
  assumes "counted Q g st cs" "open_row g st"
    and "resume lc g (NewLoop b sink (Some st) audit x) = (first, s)"
    and "n \<le> nat (bu_iterations (lp_budget s) - first + 1)" "rounds pt g n first s = (ex, s')"
    and keep: "\<And>l k. Q l k \<Longrightarrow> Q' l k"
    and under: "\<And>k. first - 1 \<le> k \<Longrightarrow> k \<le> max (first - 1) (bu_iterations (lp_budget s)) \<Longrightarrow> Q' (bu_iterations (lp_budget s)) k"
  shows "\<exists>st'. lp_store s' = Some st' \<and> counted Q' g st' (cs @ committed s') \<and>
    counted Q' g (saved_in g (lp_complete s') s' st') (cs @ committed s')"
proof -
  note t = takes_up [OF assms(1-3)]
  obtain m k where mk: "k \<le> n" "advanced g first m k s s'" using rounds_cases [OF assms(5)] by blast
  have cs: "cs @ committed s' = [1 .. first + int m - 1]"
    using t(1,2,5) mk(2) upto_join [of first m] by (simp add: advanced_def)
  have q: "Q' (bu_iterations (lp_budget s)) (first + int m - 1)"
  proof (rule under)
    show "first + int m - 1 \<le> max (first - 1) (bu_iterations (lp_budget s))"
      using mk assms(4) t(2) unfolding advanced_def by linarith
  qed simp
  have pos: "0 \<le> first + int m - 1" using t(2) by simp
  have "\<exists>st'. lp_store s' = Some st' \<and> working st' \<and> counted Q' g st' (cs @ committed s')"
  proof (cases "m = 0")
    case True
    have "counted Q' g st cs" using assms(1) keep unfolding counted_def by blast
    then show ?thesis using True mk(2) t(3-5) by (simp add: advanced_def)
  next
    case False
    then obtain st' where "lp_store s' = Some st'" "working st'"
        "at_iteration g (lp_budget s) (first + int m - 1) (lp_complete s') st'"
      using mk(2) t(3,4) by (auto simp: advanced_def)
    then show ?thesis using cs q pos unfolding counted_def by blast
  qed
  moreover have "counted Q' g (saved_in g (lp_complete s') s' st') (cs @ committed s')" if "working st'" for st'
  proof -
    have "lp_persisted s' = first + int m - 1" "lp_budget s' = lp_budget s"
      using mk(2) t(6) by (auto simp: advanced_def split: if_splits)
    then show ?thesis using cs q pos that by (auto simp: counted_def)
  qed
  ultimately show ?thesis by blast
qed

lemma counted_ended:
  assumes "counted Q g st cs" "open_row g st"
    and r: "resume lc g (NewLoop b sink (Some st) audit x) = (first, s)"
    and "Run pt lc g (NewLoop b sink (Some st) audit x) = (res, s')" "lp_store s' = Some st'"
    and "\<And>l k. Q l k \<Longrightarrow> Q' l k"
    and "\<And>k. first - 1 \<le> k \<Longrightarrow> k \<le> max (first - 1) (bu_iterations (lp_budget s)) \<Longrightarrow> Q' (bu_iterations (lp_budget s)) k"
  shows "counted Q' g st' (cs @ committed s')"
proof -
  obtain ex s2 where rs: "rounds pt g (nat (bu_iterations (lp_budget s) - first + 1)) first s = (ex, s2)" by fastforce
  have s': "s' = persist g (lp_complete s2) (lp_iterations s2) s2" using assms(4) r rs by (simp add: Run_def)
  from counted_killed [OF assms(1,2) r order.refl [of "nat (bu_iterations (lp_budget s) - first + 1)"] rs,
      where Q' = Q'] assms(6,7) obtain st2 where
    st2: "lp_store s2 = Some st2" "counted Q' g st2 (cs @ committed s2)"
      "counted Q' g (saved_in g (lp_complete s2) s2 st2) (cs @ committed s2)" by blast
  then have "lp_store s' = Some (saved_in g (lp_complete s2) s2 st2)"
    unfolding s' by (intro persist_store) (auto simp: counted_def)
  with st2 s' assms(5) show ?thesis by simp
qed

text \<open>Without a typed limit a process keeps within the one on record.\<close>

lemma in_order_limit:
  assumes "counted (\<lambda>l k. k \<le> max 0 l) g st cs" "open_row g st"
    and "resume lc g (NewLoop b sink (Some st) audit x) = (first, s)" "\<not> bs_iterations (lc_explicit lc)"
    and "k \<le> max (first - 1) (bu_iterations (lp_budget s))"
  shows "k \<le> max 0 (bu_iterations (lp_budget s))"
  using takes_up(7) [OF assms(1-3)] assms(4,5) by auto

definition largest_limit :: "(bool \<times> int) list \<Rightarrow> int" where
  "largest_limit ls = Max (insert 0 (snd ` set ls))"

lemma largest_limit_simps [simp]:
  "largest_limit [] = 0" "largest_limit (ls @ [(typed, l)]) = max l (largest_limit ls)" "0 \<le> largest_limit ls"
proof -
  have "insert 0 (snd ` set (ls @ [(typed, l)])) = insert l (insert 0 (snd ` set ls))" by auto
  then show "largest_limit (ls @ [(typed, l)]) = max l (largest_limit ls)"
    unfolding largest_limit_def by simp
qed (simp_all add: largest_limit_def)


end
