(* ===== verification/GoalAudit.thy ===== *)
theory GoalAudit
  imports GoalLoopProps
begin

text \<open>
  What a completed goal is backed by and when a claim of completion is adjudicated: the
  properties of the audit that stands beside the judge of the goal loop.
\<close>

section \<open>The audit's part of the state\<close>

definition audits :: "'x loop \<Rightarrow> event list" where
  "audits s = filter (\<lambda>e. e_phase e = ''Audit'') (lp_events s)"

lemma audits_emit [simp]:
  "audits (emit p d i s) = audits s @ (if p = ''Audit'' then [\<lparr>e_phase = p, e_iteration = i, e_detail = d\<rparr>] else [])"
  by (simp add: audits_def)

lemma audits_update [simp]:
  "audits (s\<lparr>lp_iterations := n\<rparr>) = audits s" "audits (s\<lparr>lp_audit := a\<rparr>) = audits s"
  "audits (s\<lparr>lp_directive := d\<rparr>) = audits s" "audits (s\<lparr>lp_complete := c, lp_persisted := n\<rparr>) = audits s"
  by (simp_all add: audits_def)

lemma audits_persist [simp]: "audits (persist g c i s) = audits s"
  by (auto simp: persist_def saveState_def goal_put_def audits_def split: option.splits)

text \<open>Steps that are none of the audit's business.\<close>

definition unaudited :: "'x loop \<Rightarrow> 'x loop \<Rightarrow> bool" where
  "unaudited s s' \<longleftrightarrow> lp_audit s' = lp_audit s \<and> audits s' = audits s"

lemma unaudited_trans: "unaudited s t \<Longrightarrow> unaudited t u \<Longrightarrow> unaudited s u"
  by (simp add: unaudited_def)

lemma unaudited_emit: "p \<noteq> ''Audit'' \<Longrightarrow> unaudited s (emit p d i s)"
  by (simp add: unaudited_def)

lemma unaudited_run_part: "run_part f s = (r, s') \<Longrightarrow> unaudited s s'"
  by (auto simp: run_part_def unaudited_def audits_def split: prod.splits)

lemma unaudited_run_evaluators: "run_evaluators evs g pl s = (vs, s') \<Longrightarrow> unaudited s s'"
proof (induction evs arbitrary: s vs)
  case (Cons e evs)
  then show ?case by (auto split: prod.splits intro: unaudited_trans unaudited_run_part)
qed (simp add: unaudited_def)

lemma unaudited_inject: "inject pl s = (pl', s') \<Longrightarrow> unaudited s s'"
  by (auto simp: inject_def unaudited_def audits_def split: if_splits)

text \<open>Evaluators that all answered are those without the verdict that stands for an error.\<close>

lemma run_evaluators_ran:
  "run_evaluators evs g pl s = (vs, s') \<Longrightarrow> \<not> list_ex (\<lambda>v. ev_evaluator v = ''error'') vs \<Longrightarrow>
     list_all2 (\<lambda>ev v. \<exists>w us w'. ev g pl (gl_workdir g) w = (Inr v, us, w')) evs vs"
proof (induction evs arbitrary: s vs s')
  case (Cons e evs)
  obtain r s1 where 1: "run_part (e g pl (gl_workdir g)) s = (r, s1)" by fastforce
  obtain vs2 s2 where 2: "run_evaluators evs g pl s1 = (vs2, s2)" by fastforce
  have vs: "vs = (case r of Inl e \<Rightarrow> error_verdict e | Inr v \<Rightarrow> v) # vs2" using Cons.prems 1 2 by simp
  with Cons.prems(2) obtain v where v: "r = Inr v" by (cases r) (auto simp: error_verdict_def)
  with 1 have "\<exists>us w'. e g pl (gl_workdir g) (lp_world s) = (Inr v, us, w')"
    by (auto simp: run_part_def split: prod.splits)
  with Cons.IH [OF 2] Cons.prems(2) vs v show ?case by auto
qed simp

section \<open>What an iteration shows of the audit\<close>

text \<open>
  The iteration reached the judge with this round and decision, the audit untouched so far,
  or it ended before.
\<close>

definition judged :: "'x parts \<Rightarrow> goal \<Rightarrow> int \<Rightarrow> 'x loop \<Rightarrow> audit_round \<Rightarrow> goal_decision \<Rightarrow> 'x loop \<Rightarrow> bool" where
  "judged pt g i s r d t \<longleftrightarrow> ar_iteration r = i \<and> unaudited s t
     \<and> (ar_implemented r \<longrightarrow> (\<exists>w out us w'. pt_implementer pt (ar_plan r) (gl_workdir g) w = (Inr out, us, w')))
     \<and> (\<not> list_ex (\<lambda>v. ev_evaluator v = ''error'') (ar_verdicts r) \<longrightarrow>
          list_all2 (\<lambda>ev v. \<exists>w us w'. ev g (ar_plan r) (gl_workdir g) w = (Inr v, us, w')) (pt_evaluators pt) (ar_verdicts r))
     \<and> (\<exists>w us w'. pt_judge pt (ar_verdicts r) w = (Inr d, us, w'))"

lemma judged_after: "unaudited s t \<Longrightarrow> judged pt g i t r d u \<Longrightarrow> judged pt g i s r d u"
  unfolding judged_def using unaudited_trans by blast

lemma implement_and_judge_judged:
  assumes "implement_and_judge pt g i pl s = (ex, s')"
  shows "(\<exists>e. ex = Fail e \<and> unaudited s s') \<or> (\<exists>r d t. judged pt g i s r d t \<and> conclude g r d t = (ex, s'))"
proof -
  obtain impl s1 where 1: "run_part (pt_implementer pt pl (gl_workdir g)) s = (impl, s1)" by fastforce
  let ?s1 = "emit ''Implement'' (case impl of Inl e \<Rightarrow> Part_error e | Inr out \<Rightarrow> Text out) i s1"
  obtain vs s2 where 2: "run_evaluators (pt_evaluators pt) g pl ?s1 = (vs, s2)" by fastforce
  let ?s2 = "emit ''Evaluate'' (Verdicts (length vs)) i s2"
  obtain res s3 where 3: "run_part (pt_judge pt vs) ?s2 = (res, s3)" by fastforce
  let ?r = "\<lparr>ar_iteration = i, ar_plan = pl, ar_implemented = (\<not> isl impl), ar_verdicts = vs\<rparr>"
  have "unaudited s ?s1" by (rule unaudited_trans [OF unaudited_run_part [OF 1] unaudited_emit]) simp
  moreover have "unaudited ?s1 ?s2" by (rule unaudited_trans [OF unaudited_run_evaluators [OF 2] unaudited_emit]) simp
  ultimately have u: "unaudited s s3" using unaudited_trans unaudited_run_part [OF 3] by blast
  have body: "implement_and_judge pt g i pl s =
      (case res of Inl e \<Rightarrow> (Fail (Judge_error i e), emit ''Judge'' (Part_error e) i s3) | Inr d \<Rightarrow> conclude g ?r d s3)"
    unfolding implement_and_judge_def 1 Let_def prod.case 2 3 ..
  show ?thesis
  proof (cases res)
    case (Inl e)
    then show ?thesis using assms body u by (auto simp: unaudited_def)
  next
    case (Inr d)
    have "\<exists>w us w'. pt_judge pt vs w = (Inr d, us, w')" using 3 Inr by (auto simp: run_part_def split: prod.splits)
    moreover have "\<exists>w us w'. pt_implementer pt pl (gl_workdir g) w = (Inr out, us, w')" if "impl = Inr out" for out
      using 1 that by (auto simp: run_part_def split: prod.splits)
    ultimately have "judged pt g i s ?r d s3"
      using u run_evaluators_ran [OF 2] unfolding judged_def by (cases impl) (simp_all, blast?)
    then show ?thesis using Inr assms body by auto
  qed
qed

lemma iteration_judged:
  assumes "iteration pt g i s = (ex, s')"
  shows "(ex \<noteq> Go_on \<and> (\<forall>d. ex = Return d \<longrightarrow> \<not> de_complete d) \<and> unaudited s s')
    \<or> (\<exists>r d t. judged pt g i s r d t \<and> conclude g r d t = (ex, s'))"
proof (cases "pt_ctx pt (lp_world s) \<noteq> None \<or> overBudget s")
  case True
  with assms show ?thesis
    by (auto simp: iteration_def unaudited_def budgetExceededDecision_def split: option.splits)
next
  case False
  obtain res s1 where 1: "run_part (pt_planner pt g) (s\<lparr>lp_iterations := i\<rparr>) = (res, s1)" by fastforce
  have "unaudited s (s\<lparr>lp_iterations := i\<rparr>)" by (simp add: unaudited_def)
  then have u1: "unaudited s s1" using unaudited_trans unaudited_run_part [OF 1] by blast
  show ?thesis
  proof (cases res)
    case (Inl e)
    then show ?thesis using assms False 1 u1 by (auto simp: iteration_def unaudited_def)
  next
    case (Inr pl)
    obtain pl' s2 where 2: "inject pl s1 = (pl', s2)" by fastforce
    let ?s2 = "emit ''Plan'' (Steps_and_tests (length (pl_steps pl')) (length (pl_tests pl'))) i s2"
    have u2: "unaudited s ?s2" using u1 unaudited_inject [OF 2] by (simp add: unaudited_def)
    show ?thesis
    proof (cases "overBudget ?s2")
      case True
      then show ?thesis using assms False 1 2 Inr u2
        by (auto simp: iteration_def Let_def budgetExceededDecision_def)
    next
      case over: False
      then have "implement_and_judge pt g i pl' ?s2 = (ex, s')"
        using assms False 1 2 Inr by (auto simp: iteration_def Let_def)
      from implement_and_judge_judged [OF this] show ?thesis
        using u2 judged_after unaudited_trans by blast
    qed
  qed
qed

section \<open>The verdict of the audit\<close>

abbreviation audit_event :: "int \<Rightarrow> detail \<Rightarrow> event" where
  "audit_event i d \<equiv> \<lparr>e_phase = ''Audit'', e_iteration = i, e_detail = d\<rparr>"

lemma audit_claim_cases:
  assumes "lp_audit s = Some a" "audit_claim r d s = (res, s')"
  obtains
    (honest) "\<not> de_complete d" "res = Inr (d, False)" "s' = s"
  | (proven) "de_complete d" "snd (audit_claim_reason r)" "res = Inr (d, False)"
      "lp_audit s' = Some (a\<lparr>au_unproven := 0\<rparr>)" "audits s' = audits s @ [audit_event (ar_iteration r) Completion_verified]"
  | (vetoed) "de_complete d" "\<not> snd (audit_claim_reason r)" "res = Inr (d\<lparr>de_complete := False\<rparr>, True)"
      "lp_audit s' = Some (a\<lparr>au_unproven := Suc (au_unproven a)\<rparr>)" "Suc (au_unproven a) < 3"
      "audits s' = audits s @ [audit_event (ar_iteration r) (Vetoed (fst (audit_claim_reason r)))]"
  | (final) dec where "de_complete d" "\<not> snd (audit_claim_reason r)" "res = Inl dec" "\<not> de_complete dec"
      "de_stop dec = StopReasonUnprovenCompletion" "2 \<le> au_unproven a"
      "audits s' = audits s @ [audit_event (ar_iteration r) (Adjudicated (fst (audit_claim_reason r)))]"
proof (cases "de_complete d")
  case False
  then show ?thesis using assms honest by (simp add: audit_claim_def)
next
  case c: True
  obtain reason ok where ok: "audit_claim_reason r = (reason, ok)" by fastforce
  show ?thesis
  proof (cases ok)
    case True
    then show ?thesis using assms c ok by (intro proven) (auto simp: audit_claim_def AuditComplete_def Let_def)
  next
    case False
    show ?thesis
    proof (cases "Suc (au_unproven a) < 3")
      case True
      then show ?thesis using assms c ok False
        by (intro vetoed) (auto simp: audit_claim_def AuditComplete_def Let_def fakeCompletionRounds_def)
    next
      case fin: False
      then show ?thesis using assms c ok False
        by (intro final [of "unproven_decision reason (s\<lparr>lp_audit := Some (a\<lparr>au_unproven := Suc (au_unproven a)\<rparr>)\<rparr>)"])
          (auto simp: audit_claim_def AuditComplete_def Let_def fakeCompletionRounds_def unproven_decision_def)
    qed
  qed
qed

lemma observe_progress_audit:
  assumes "lp_audit s = Some a"
  shows "\<exists>a'. lp_audit (observe_progress r s) = Some a' \<and> au_unproven a' = au_unproven a"
    and "\<exists>new. audits (observe_progress r s) = audits s @ new
      \<and> set new \<subseteq> {audit_event (ar_iteration r) (Stale_rounds n) | n. True}"
  using assms by (auto simp: observe_progress_def ObserveProgress_def Let_def)

text \<open>
  What the end of an iteration does to the audit: the decision to complete is the judge's and
  proven, the count of unproven claims grows by a veto only, and only the third is adjudicated.
\<close>

lemma conclude_audit:
  assumes "lp_audit t = Some a" "conclude g r d t = (ex, s')"
  shows "ex = Return d' \<Longrightarrow> de_complete d' \<Longrightarrow> d' = d \<and> snd (audit_claim_reason r)"
    and "ex = Go_on \<Longrightarrow> \<exists>a'. lp_audit s' = Some a' \<and> (au_unproven a' = 0 \<or>
      (au_unproven a' = Suc (au_unproven a) \<and> au_unproven a' < 3 \<and> (\<exists>why. audit_event (ar_iteration r) (Vetoed why) \<in> set (audits s'))))"
    and "set (audits t) \<subseteq> set (audits s')"
    and "audit_event i (Adjudicated why) \<in> set (audits s') \<Longrightarrow>
      audit_event i (Adjudicated why) \<in> set (audits t) \<or> (i = ar_iteration r \<and> 2 \<le> au_unproven a)"
proof -
  obtain res s1 where c: "audit_claim r d t = (res, s1)" by fastforce
  let ?all = "(\<forall>d'. ex = Return d' \<longrightarrow> de_complete d' \<longrightarrow> d' = d \<and> snd (audit_claim_reason r)) \<and>
    (ex = Go_on \<longrightarrow> (\<exists>a'. lp_audit s' = Some a' \<and> (au_unproven a' = 0 \<or>
      (au_unproven a' = Suc (au_unproven a) \<and> au_unproven a' < 3 \<and> (\<exists>why. audit_event (ar_iteration r) (Vetoed why) \<in> set (audits s')))))) \<and>
    set (audits t) \<subseteq> set (audits s') \<and>
    (\<forall>i why. audit_event i (Adjudicated why) \<in> set (audits s') \<longrightarrow>
      audit_event i (Adjudicated why) \<in> set (audits t) \<or> (i = ar_iteration r \<and> 2 \<le> au_unproven a))"
  have going: ?all if res: "res = Inr (d1, v)" and a1: "lp_audit s1 = Some a1"
      and au: "audits s1 = audits t @ new" "\<forall>e \<in> set new. \<forall>i why. e \<noteq> audit_event i (Adjudicated why)"
      and done1: "de_complete d1 \<longrightarrow> d1 = d \<and> snd (audit_claim_reason r)"
      and veto: "v \<longrightarrow> au_unproven a1 = Suc (au_unproven a) \<and> au_unproven a1 < 3
        \<and> (\<exists>why. audit_event (ar_iteration r) (Vetoed why) \<in> set new)" for d1 v a1 new
  proof -
    let ?s2 = "reset_claims (de_complete d1) v s1"
    obtain a2 where a2: "lp_audit ?s2 = Some a2" "\<not> de_complete d1 \<and> \<not> v \<Longrightarrow> au_unproven a2 = 0" "v \<Longrightarrow> a2 = a1"
      using a1 by (cases "\<not> de_complete d1 \<and> \<not> v") (simp_all add: reset_claims_def ResetClaims_def)
    have "audits ?s2 = audits s1" by (auto simp: reset_claims_def split: option.split)
    with observe_progress_audit [OF a2(1), of r] obtain a3 new2 where a3: "lp_audit (observe_progress r ?s2) = Some a3"
        "au_unproven a3 = au_unproven a2" and n2: "audits (observe_progress r ?s2) = audits s1 @ new2"
        "set new2 \<subseteq> {audit_event (ar_iteration r) (Stale_rounds n) | n. True}" by auto
    have s': "audits s' = audits t @ new @ new2" "lp_audit s' = Some a3" "ex = Go_on \<longleftrightarrow> \<not> de_complete d1"
        "\<And>d'. ex = Return d' \<Longrightarrow> d' = d1 \<and> de_complete d1"
      using assms(2) c res a3(1) n2(1) au(1) by (auto simp: conclude_def Let_def split: if_splits)
    have "au_unproven a3 = 0 \<or> (au_unproven a3 = Suc (au_unproven a) \<and> au_unproven a3 < 3
        \<and> (\<exists>why. audit_event (ar_iteration r) (Vetoed why) \<in> set (audits s')))" if "ex = Go_on"
      using that s'(1,3) a3(2) a2(2,3) veto by (cases v) auto
    then show ?all using s' done1 au(2) n2(2) by auto
  qed
  have ?all
    using assms(1) c
  proof (cases rule: audit_claim_cases)
    case honest
    then show ?thesis by (intro going [of d False a "[]"]) (simp_all add: assms(1))
  next
    case proven
    then show ?thesis by (intro going [of d False "a\<lparr>au_unproven := 0\<rparr>" "[audit_event (ar_iteration r) Completion_verified]"]) simp_all
  next
    case vetoed
    then show ?thesis 
      by (intro going [of "d\<lparr>de_complete := False\<rparr>" True "a\<lparr>au_unproven := Suc (au_unproven a)\<rparr>"
          "[audit_event (ar_iteration r) (Vetoed (fst (audit_claim_reason r)))]"]) auto
  next
    case (final dec)
    then show ?thesis using assms(2) c by (auto simp: conclude_def)
  qed
  then show "ex = Return d' \<Longrightarrow> de_complete d' \<Longrightarrow> d' = d \<and> snd (audit_claim_reason r)"
    and "ex = Go_on \<Longrightarrow> \<exists>a'. lp_audit s' = Some a' \<and> (au_unproven a' = 0 \<or>
      (au_unproven a' = Suc (au_unproven a) \<and> au_unproven a' < 3 \<and> (\<exists>why. audit_event (ar_iteration r) (Vetoed why) \<in> set (audits s'))))"
    and "set (audits t) \<subseteq> set (audits s')"
    and "audit_event i (Adjudicated why) \<in> set (audits s') \<Longrightarrow>
      audit_event i (Adjudicated why) \<in> set (audits t) \<or> (i = ar_iteration r \<and> 2 \<le> au_unproven a)" by blast+
qed

text \<open>An adjudicated claim ends the run.\<close>

lemma conclude_adjudicated_returns:
  assumes "lp_audit t = Some a" "conclude g r d t = (ex, s')" "ex = Go_on"
  shows "audit_event i (Adjudicated why) \<in> set (audits s') \<Longrightarrow> audit_event i (Adjudicated why) \<in> set (audits t)"
proof -
  obtain res s1 where c: "audit_claim r d t = (res, s1)" by fastforce
  have n: "\<exists>d1 v. res = Inr (d1, v)" using assms(2,3) c by (cases res) (auto simp: conclude_def)
  have "\<exists>new. audits s1 = audits t @ new \<and> (\<forall>e \<in> set new. \<forall>i why. e \<noteq> audit_event i (Adjudicated why))"
    using assms(1) c n by (cases rule: audit_claim_cases) auto
  then obtain new where new: "audits s1 = audits t @ new" "\<forall>e \<in> set new. \<forall>i why. e \<noteq> audit_event i (Adjudicated why)"
    by blast
  have "\<exists>a1. lp_audit s1 = Some a1"
    using assms(1) c n by (cases rule: audit_claim_cases) (auto simp: assms(1))
  then obtain a1 where a1: "lp_audit s1 = Some a1" by blast
  obtain d1 v where dv: "res = Inr (d1, v)" using n by blast
  have "\<exists>a2. lp_audit (reset_claims (de_complete d1) v s1) = Some a2" "audits (reset_claims (de_complete d1) v s1) = audits s1"
    using a1 by (simp_all add: reset_claims_def)
  then obtain new2 where "audits (observe_progress r (reset_claims (de_complete d1) v s1)) = audits s1 @ new2"
      "set new2 \<subseteq> {audit_event (ar_iteration r) (Stale_rounds n) | n. True}"
    using observe_progress_audit(2) by metis
  then have "set (audits s') \<subseteq> set (audits t) \<union> set new \<union> {audit_event (ar_iteration r) (Stale_rounds n) | n. True}"
    using assms(2,3) c dv new(1) by (auto simp: conclude_def Let_def split: if_splits)
  then show "audit_event i (Adjudicated why) \<in> set (audits s') \<Longrightarrow> audit_event i (Adjudicated why) \<in> set (audits t)"
    using new(2) by auto
qed

lemma resume_audits:
  assumes "resume lc g s = (first, s')"
  shows "audits s' = audits s"
proof -
  have u: "audits (s\<lparr>lp_budget := b\<rparr>) = audits s"
      "audits (s\<lparr>lp_iterations := n, lp_persisted := m, lp_sink := us\<rparr>) = audits s" for s :: "'x loop" and b n m us
    by (simp_all add: audits_def)
  have f: "audits (if P then s else t) = (if P then audits s else audits t)" for P and s t :: "'x loop" by simp
  have "audits (snd (resume lc g s)) = audits s"
    unfolding resume_def Let_def
    by (cases "loadState g s") (simp_all add: u f split: option.split)
  with assms show ?thesis by simp
qed

section \<open>Completed goals\<close>

text \<open>A plan that was implemented, all evaluators answering, one with evidence for its pass, and
  the judge's decision on their verdicts.\<close>

definition backed :: "'x parts \<Rightarrow> goal \<Rightarrow> goal_decision \<Rightarrow> plan \<Rightarrow> eval_verdict list \<Rightarrow> bool" where
  "backed pt g d pl vs \<longleftrightarrow>
     (\<exists>w out us w'. pt_implementer pt pl (gl_workdir g) w = (Inr out, us, w'))
     \<and> list_all2 (\<lambda>ev v. \<exists>w us w'. ev g pl (gl_workdir g) w = (Inr v, us, w')) (pt_evaluators pt) vs
     \<and> (\<exists>w us w'. pt_judge pt vs w = (Inr d, us, w'))
     \<and> (\<exists>v \<in> set vs. ev_pass v \<and> trim_space (ev_evidence v) \<noteq> [])"

lemma audit_claim_proven:
  "snd (audit_claim_reason r) \<Longrightarrow> ar_implemented r \<and> \<not> list_ex (\<lambda>v. ev_evaluator v = ''error'') (ar_verdicts r)
     \<and> (\<exists>v \<in> set (ar_verdicts r). ev_pass v \<and> trim_space (ev_evidence v) \<noteq> [])"
  by (auto simp: audit_claim_reason_def list_ex_iff split: if_splits)

lemma rounds_backed:
  "rounds pt g n i s = (Return d, s') \<Longrightarrow> de_complete d \<Longrightarrow> lp_audit s = Some a \<Longrightarrow> \<exists>pl vs. backed pt g d pl vs"
proof (induction n arbitrary: i s a)
  case (Suc n)
  obtain ex1 s1 where it: "iteration pt g i s = (ex1, s1)" by fastforce
  consider (stop) "ex1 = Return d" | (on) "ex1 = Go_on" "rounds pt g n (i + 1) s1 = (Return d, s')"
    using Suc.prems(1) it by (auto split: exit.splits)
  then show ?case
  proof cases
    case stop
    with iteration_judged [OF it] Suc.prems(2) obtain r d0 t where
      j: "judged pt g i s r d0 t" and c: "conclude g r d0 t = (ex1, s1)" by blast
    have a: "lp_audit t = Some a" using j Suc.prems(3) by (simp add: judged_def unaudited_def)
    from conclude_audit(1) [OF a c stop Suc.prems(2)] have "d = d0" "snd (audit_claim_reason r)" by simp_all
    with audit_claim_proven [of r] j have "backed pt g d (ar_plan r) (ar_verdicts r)"
      unfolding judged_def backed_def by simp
    then show ?thesis by blast
  next
    case on
    with iteration_judged [OF it] obtain r d0 t where
      j: "judged pt g i s r d0 t" and c: "conclude g r d0 t = (ex1, s1)" by blast
    have "lp_audit t = Some a" using j Suc.prems(3) by (simp add: judged_def unaudited_def)
    from conclude_audit(2) [OF this c on(1)] obtain a' where "lp_audit s1 = Some a'" by blast
    from Suc.IH [OF on(2) Suc.prems(2) this] show ?thesis .
  qed
qed simp

text \<open>
  C11: Where a run with an auditor says that the goal is complete, there is a plan that was
  implemented without an error, every evaluator answered on it, one of them with evidence for
  its pass, and the decision is the judge's on just these verdicts; with the aggregating judge
  all of them passed.
\<close>

theorem complete_is_backed:
  assumes "Run pt lc g s = (Inr d, s')" "de_complete d" "lp_audit s \<noteq> None"
  shows "\<exists>pl vs. backed pt g d pl vs \<and>
    (pt_judge pt = (\<lambda>vs w. (Inr (AggregateJudge vs), [], w)) \<longrightarrow> vs \<noteq> [] \<and> (\<forall>v \<in> set vs. ev_pass v))"
proof -
  obtain first s1 where r: "resume lc g s = (first, s1)" by fastforce
  let ?n = "nat (bu_iterations (lp_budget s1) - first + 1)"
  obtain ex s2 where rs: "rounds pt g ?n first s1 = (ex, s2)" by fastforce
  then have "Inr d = (case ex of Go_on \<Rightarrow> Inr (exhausted lc s2) | Return d \<Rightarrow> Inr d | Fail e \<Rightarrow> Inl e)"
    using assms(1) r by (simp add: Run_def)
  with assms(2) have "ex = Return d" by (auto simp: exhausted_def Let_def split: exit.splits)
  moreover obtain a where "lp_audit s1 = Some a" using assms(3) resume_fields(5) [OF r] by auto
  ultimately obtain pl vs where b: "backed pt g d pl vs" using rounds_backed rs assms(2) by blast
  moreover have "vs \<noteq> [] \<and> (\<forall>v \<in> set vs. ev_pass v)" if "pt_judge pt = (\<lambda>vs w. (Inr (AggregateJudge vs), [], w))"
    using b assms(2) that by (auto simp: backed_def AggregateJudge_complete)
  ultimately show ?thesis by blast
qed

section \<open>Claims that are adjudicated\<close>

definition claims :: "int \<Rightarrow> 'x loop \<Rightarrow> bool" where
  "claims i s \<longleftrightarrow> (\<exists>a. lp_audit s = Some a
     \<and> (\<forall>j. 1 \<le> j \<and> j \<le> int (au_unproven a) \<longrightarrow> (\<exists>why. audit_event (i - j) (Vetoed why) \<in> set (audits s)))
     \<and> (\<forall>k why. audit_event k (Adjudicated why) \<notin> set (audits s)))"

definition after_two_vetoes :: "'x loop \<Rightarrow> bool" where
  "after_two_vetoes s \<longleftrightarrow> (\<forall>k why. audit_event k (Adjudicated why) \<in> set (audits s) \<longrightarrow>
     (\<exists>why1 why2. audit_event (k - 1) (Vetoed why1) \<in> set (audits s) \<and> audit_event (k - 2) (Vetoed why2) \<in> set (audits s)))"

lemma iteration_claims:
  assumes "claims i s" "iteration pt g i s = (ex, s')"
  shows "after_two_vetoes s'" "ex = Go_on \<Longrightarrow> claims (i + 1) s'"
proof -
  from assms(1) obtain a where a: "lp_audit s = Some a"
      "\<forall>j. 1 \<le> j \<and> j \<le> int (au_unproven a) \<longrightarrow> (\<exists>why. audit_event (i - j) (Vetoed why) \<in> set (audits s))"
      "\<forall>k why. audit_event k (Adjudicated why) \<notin> set (audits s)" by (auto simp: claims_def)
  have "after_two_vetoes s' \<and> (ex = Go_on \<longrightarrow> claims (i + 1) s')"
  proof (cases "unaudited s s' \<and> ex \<noteq> Go_on")
    case True
    with a(3) show ?thesis by (simp add: after_two_vetoes_def unaudited_def)
  next
    case False
    with iteration_judged [OF assms(2)] obtain r d t where
      j: "judged pt g i s r d t" and c: "conclude g r d t = (ex, s')" by blast
    have t: "lp_audit t = Some a" "audits t = audits s" "ar_iteration r = i"
      using j a(1) by (simp_all add: judged_def unaudited_def)
    note ca = conclude_audit(2-4) [OF t(1) c]
    have old: "audit_event k (Vetoed why) \<in> set (audits s')" if "audit_event k (Vetoed why) \<in> set (audits s)" for k why
      using ca(2) that t(2) by auto
    have new: "k = i \<and> 2 \<le> au_unproven a" if "audit_event k (Adjudicated why) \<in> set (audits s')" for k why
      using ca(3) [OF that] a(3) t(2,3) by simp
    have "after_two_vetoes s'" unfolding after_two_vetoes_def
    proof (intro allI impI)
      fix k why
      assume "audit_event k (Adjudicated why) \<in> set (audits s')"
      then have k: "k = i" "2 \<le> int (au_unproven a)" using new by auto
      with a(2) [rule_format, of 1] a(2) [rule_format, of 2] old
      show "\<exists>why1 why2. audit_event (k - 1) (Vetoed why1) \<in> set (audits s') \<and> audit_event (k - 2) (Vetoed why2) \<in> set (audits s')"
        by auto
    qed
    moreover have "claims (i + 1) s'" if g: "ex = Go_on"
    proof -
      from ca(1) [OF g] obtain a' where a': "lp_audit s' = Some a'" and
        u: "au_unproven a' = 0 \<or> (au_unproven a' = Suc (au_unproven a) \<and> au_unproven a' < 3
          \<and> (\<exists>why. audit_event i (Vetoed why) \<in> set (audits s')))" using t(3) by auto
      have "\<exists>why. audit_event (i + 1 - j) (Vetoed why) \<in> set (audits s')" if j: "1 \<le> j" "j \<le> int (au_unproven a')" for j
      proof (cases "j = 1")
        case True
        then show ?thesis using u j by auto
      next
        case False
        then have "1 \<le> j - 1" "j - 1 \<le> int (au_unproven a)" using u j by auto
        with a(2) have "\<exists>why. audit_event (i - (j - 1)) (Vetoed why) \<in> set (audits s)" by blast
        moreover have "i - (j - 1) = i + 1 - j" by simp
        ultimately show ?thesis using old by metis
      qed
      moreover have "audit_event k (Adjudicated why) \<notin> set (audits s')" for k why
      proof
        assume "audit_event k (Adjudicated why) \<in> set (audits s')"
        with conclude_adjudicated_returns [OF t(1) c g] a(3) t(2) show False by simp
      qed
      ultimately show ?thesis using a' by (auto simp: claims_def)
    qed
    ultimately show ?thesis by blast
  qed
  then show "after_two_vetoes s'" "ex = Go_on \<Longrightarrow> claims (i + 1) s'" by blast+
qed

lemma rounds_claims: "rounds pt g n i s = (ex, s') \<Longrightarrow> claims i s \<Longrightarrow> after_two_vetoes s'"
proof (induction n arbitrary: i s)
  case 0
  then show ?case by (auto simp: claims_def after_two_vetoes_def)
next
  case (Suc n)
  obtain ex1 s1 where it: "iteration pt g i s = (ex1, s1)" by fastforce
  show ?case
  proof (cases "ex1 = Go_on")
    case True
    then show ?thesis using Suc it iteration_claims(2) [OF Suc.prems(2) it] by simp
  next
    case False
    then have "s' = s1" using Suc.prems(1) it by (auto split: exit.splits)
    then show ?thesis using iteration_claims(1) [OF Suc.prems(2) it] by simp
  qed
qed

text \<open>
  A claim of completion is adjudicated, and the run stopped for it, only in the third of
  three iterations one after the other whose claims could not be verified: the two iterations
  before it were vetoed.
\<close>

theorem adjudicated_after_two_vetoes:
  assumes "Run pt lc g (NewLoop b sink st (Some NewCompletionAuditor) x) = (res, s')"
    and "audit_event k (Adjudicated why) \<in> set (lp_events s')"
  shows "\<exists>why1 why2. audit_event (k - 1) (Vetoed why1) \<in> set (lp_events s')
    \<and> audit_event (k - 2) (Vetoed why2) \<in> set (lp_events s')"
proof -
  let ?s = "NewLoop b sink st (Some NewCompletionAuditor) x"
  obtain first s1 where r: "resume lc g ?s = (first, s1)" by fastforce
  let ?n = "nat (bu_iterations (lp_budget s1) - first + 1)"
  obtain ex s2 where rs: "rounds pt g ?n first s1 = (ex, s2)" by fastforce
  have s': "s' = persist g (lp_complete s2) (lp_iterations s2) s2" using assms(1) r rs by (simp add: Run_def)
  have "audits s1 = []" using resume_audits [OF r] by (simp add: audits_def)
  moreover have "lp_audit s1 = Some NewCompletionAuditor" using resume_fields(5) [OF r] by simp
  ultimately have "claims first s1" by (simp add: claims_def NewCompletionAuditor_def)
  with rs rounds_claims have "after_two_vetoes s2" by blast
  then have "after_two_vetoes s'" by (simp add: s' after_two_vetoes_def)
  with assms(2) show ?thesis unfolding after_two_vetoes_def by (auto simp: audits_def)
qed

section \<open>Where the accounting and the progress signature are blind\<close>

text \<open>
  Once one report with a total is in the sink, a report without one costs nothing: the
  sum's total is positive, so the prompt and completion tokens are no longer counted, whatever
  they are, and a run within its budget stays within it.
\<close>

theorem report_without_total_is_free:
  assumes "us_total a > 0" "us_total b = 0"
  shows "usage_total (sink_add a b) = usage_total a
    \<and> overBudget (s\<lparr>lp_sink := Some (sink_add a b)\<rparr>) = overBudget (s\<lparr>lp_sink := Some a\<rparr>)"
  using assms by (simp add: usage_total_def sink_add_def overBudget_def spent_def)

text \<open>Two sets of gaps with one signature: the separator is not escaped.\<close>

lemma progress_signature_collides:
  "progress_signature [\<lparr>ev_evaluator = e, ev_pass = False, ev_evidence = [], ev_gaps = [''a|b'']\<rparr>] =
   progress_signature [\<lparr>ev_evaluator = e, ev_pass = False, ev_evidence = [], ev_gaps = [''a'', ''b'']\<rparr>]"
proof -
  have "sort [''a'', ''b''] = [''a'', ''b'']" by (rule sorted_sort_id) code_simp
  then show ?thesis by (simp add: progress_signature_def passing_def failing_gaps_def)
qed

section \<open>Concrete runs\<close>

definition sample_goal :: goal where
  "sample_goal = \<lparr>gl_text = ''add a flag'', gl_workdir = ''/w''\<rparr>"

definition sample_parts :: "string \<Rightarrow> nat \<Rightarrow> nat parts" where
  "sample_parts evidence rounds_to_pass =
     \<lparr>pt_ctx = (\<lambda>w. None),
      pt_planner = (\<lambda>g w. (Inr \<lparr>pl_goal = gl_text g, pl_tests = [], pl_steps = [''step'']\<rparr>, [\<lparr>us_prompt = 3, us_completion = 2, us_total = 5\<rparr>], w)),
      pt_implementer = (\<lambda>pl dir w. (Inr ''done'', [], w + 1)),
      pt_evaluators = [\<lambda>g pl dir w. (Inr \<lparr>ev_evaluator = ''test'', ev_pass = w \<ge> rounds_to_pass, ev_evidence = evidence, ev_gaps = [itoa (int w)]\<rparr>, [], w)],
      pt_judge = (\<lambda>vs w. (Inr (AggregateJudge vs), [], w))\<rparr>"

definition sample_store :: goal_store where
  "sample_store = \<lparr>st_rows = (\<lambda>_. None), st_get_fails = None, st_set_fails = None\<rparr>"

definition sample_config :: loop_config where
  "sample_config = \<lparr>lc_tier = TierTeam, lc_explicit = \<lparr>bs_iterations = False, bs_tokens = False\<rparr>\<rparr>"

definition sample_loop :: "nat loop" where
  "sample_loop = NewLoop \<lparr>bu_iterations = 5, bu_tokens = 1000\<rparr> (Some no_usage) (Some sample_store) (Some NewCompletionAuditor) 0"

lemmas samples = sample_goal_def sample_parts_def sample_store_def sample_config_def sample_loop_def

lemma complete_is_backed_witness:
  "\<exists>pl vs. backed (sample_parts ''ok'' 2) sample_goal (AggregateJudge
     [\<lparr>ev_evaluator = ''test'', ev_pass = True, ev_evidence = ''ok'', ev_gaps = [''2'']\<rparr>]) pl vs"
proof -
  let ?d = "AggregateJudge [\<lparr>ev_evaluator = ''test'', ev_pass = True, ev_evidence = ''ok'', ev_gaps = [''2'']\<rparr>]"
  let ?run = "Run (sample_parts ''ok'' 2) sample_config sample_goal sample_loop"
  have "fst ?run = Inr ?d" by code_simp
  then have "?run = (Inr ?d, snd ?run)" by (metis prod.collapse)
  moreover have "de_complete ?d" by code_simp
  moreover have "lp_audit sample_loop \<noteq> None" by (simp add: sample_loop_def)
  ultimately show ?thesis using complete_is_backed [of "sample_parts ''ok'' 2" sample_config sample_goal sample_loop ?d] by blast
qed

lemma adjudicated_after_two_vetoes_witness:
  "\<exists>why1 why2. audit_event 2 (Vetoed why1) \<in> set (lp_events (snd (Run (sample_parts [] 0) sample_config sample_goal sample_loop)))
    \<and> audit_event 1 (Vetoed why2) \<in> set (lp_events (snd (Run (sample_parts [] 0) sample_config sample_goal sample_loop)))"
proof -
  let ?run = "Run (sample_parts [] 0) sample_config sample_goal sample_loop"
  have "audit_event 3 (Adjudicated reason_evidence) \<in> set (lp_events (snd ?run))" by code_simp
  moreover have "Run (sample_parts [] 0) sample_config sample_goal (NewLoop \<lparr>bu_iterations = 5, bu_tokens = 1000\<rparr> (Some no_usage)
      (Some sample_store) (Some NewCompletionAuditor) 0) = (fst ?run, snd ?run)" by (simp add: sample_loop_def)
  ultimately show ?thesis
    using adjudicated_after_two_vetoes [where k = 3 and s' = "snd ?run"] by fastforce
qed

lemma report_without_total_is_free_witness:
  "usage_total (sink_add \<lparr>us_prompt = 8, us_completion = 2, us_total = 10\<rparr>
     \<lparr>us_prompt = 1000000, us_completion = 0, us_total = 0\<rparr>) = 10"
proof -
  let ?a = "\<lparr>us_prompt = 8, us_completion = 2, us_total = 10\<rparr>"
  let ?b = "\<lparr>us_prompt = 1000000, us_completion = 0, us_total = 0\<rparr>"
  have "us_total ?a > 0" "us_total ?b = 0" by simp_all
  from report_without_total_is_free [OF this, of sample_loop]
  have "usage_total (sink_add ?a ?b) = usage_total ?a" by blast
  then show ?thesis by (simp only:) (simp add: usage_total_def)
qed

text \<open>Two processes on one goal: the first is killed after two rounds, the second runs to its end.\<close>

lemma iterations_bounded_witness:
  "\<exists>m k. planned (snd (Run (sample_parts [] 9) sample_config sample_goal sample_loop)) = [1 .. int k]
    \<and> committed (snd (Run (sample_parts [] 9) sample_config sample_goal sample_loop)) = [1 .. int m] \<and> int k \<le> 5"
proof -
  have r: "resume sample_config sample_goal sample_loop = (1, sample_loop)"
    by (rule resume_fresh) (simp add: samples loadState_def goal_get_def NewLoop_def)
  have p: "planned sample_loop = []" "committed sample_loop = []" "bu_iterations (lp_budget sample_loop) = 5"
    by (simp_all add: sample_loop_def)
  obtain res s' where e: "Run (sample_parts [] 9) sample_config sample_goal sample_loop = (res, s')" by fastforce
  from iterations_bounded [OF r e] p show ?thesis unfolding e by auto
qed

lemma resumes_where_it_stopped_witness:
  "\<exists>t'. resume sample_config sample_goal (NewLoop \<lparr>bu_iterations = 99, bu_tokens = 0\<rparr> (Some no_usage)
      (lp_store (snd (rounds (sample_parts [] 9) sample_goal 2 1 sample_loop))) None (0 :: nat)) = (3, t')
    \<and> lp_budget t' = \<lparr>bu_iterations = 5, bu_tokens = 1000\<rparr> \<and> usage_total (usageSnapshot t') = 10"
proof -
  let ?r = "rounds (sample_parts [] 9) sample_goal 2 1 sample_loop"
  have go: "fst ?r = Go_on" "usageSnapshot (snd ?r) = \<lparr>us_prompt = 6, us_completion = 4, us_total = 10\<rparr>" by code_simp+
  then have r: "?r = (Go_on, snd ?r)" by (metis prod.collapse)
  have w: "lp_store sample_loop = Some sample_store" "working sample_store"
    by (simp_all add: sample_loop_def sample_store_def working_def)
  obtain m k where "advanced sample_goal 1 m k sample_loop (snd ?r)" "m = 2"
    using rounds_cases [OF r] by blast
  then obtain st' where st': "lp_store (snd ?r) = Some st'" using w by (auto simp: advanced_def)
  let ?t = "NewLoop \<lparr>bu_iterations = 99, bu_tokens = 0\<rparr> (Some no_usage) (lp_store (snd ?r)) None (0 :: nat)"
  have "\<exists>t'. resume sample_config sample_goal ?t = (1 + int 2, t') \<and> lp_persisted t' = 1 + int 2 - 1
    \<and> bu_iterations (lp_budget t') = bu_iterations (lp_budget (if bs_iterations (lc_explicit sample_config) then ?t else sample_loop))
    \<and> bu_tokens (lp_budget t') = bu_tokens (lp_budget (if bs_tokens (lc_explicit sample_config) then ?t else sample_loop)) \<and> lp_sink t' = map_option (\<lambda>u. sink_add u (usageSnapshot (snd ?r))) (lp_sink ?t)"
    by (rule resumes_where_it_stopped [OF w r _ st']) (simp_all add: st')
  moreover have "lp_sink ?t = Some no_usage" by (simp add: NewLoop_def)
  ultimately show ?thesis using go(2) by (auto simp: sample_loop_def sample_config_def usageSnapshot_def usage_total_def)
qed


end
