(* ===== verification/CtxMessage.thy ===== *)
theory CtxMessage
  imports Prelude
begin

text \<open>
  The messages context compaction works on (\<open>internal/ctxcompact\<close>): the part of a chat message
  its decisions read, the fragments compaction writes into a history (\<open>fragment.go\<close>,
  \<open>sentinel.go\<close>, \<open>assemble.go\<close>), and the markers and paths that keep a message verbatim
  (\<open>preserve.go\<close>).  The arguments of a tool call come with the string fields their JSON
  decodes to.
\<close>

section \<open>Messages\<close>

datatype chat_role = System | User | Assistant | Tool

record chat_call =
  cc_id :: string
  cc_name :: string
  cc_args :: string
  cc_fields :: "(string \<times> string) list"

record ctx_message =
  cm_role :: chat_role
  cm_content :: string
  cm_reasoning :: string
  cm_calls :: "chat_call list"
  cm_call_id :: string

text \<open>A history; \<^const>\<open>None\<close> is a nil message.\<close>

type_synonym chat_history = "ctx_message option list"

definition plain_message :: "chat_role \<Rightarrow> string \<Rightarrow> ctx_message" where
  "plain_message r txt = \<lparr>cm_role = r, cm_content = txt, cm_reasoning = [], cm_calls = [], cm_call_id = []\<rparr>"

section \<open>Fragments\<close>

datatype fragment_kind = KindSummary | KindEvictionMap

definition kind_text :: "fragment_kind \<Rightarrow> string" where
  "kind_text k = (case k of KindSummary \<Rightarrow> ''conversation-summary'' | KindEvictionMap \<Rightarrow> ''evicted-context-map'')"

definition fragmentKinds :: "fragment_kind list" where
  "fragmentKinds = [KindSummary, KindEvictionMap]"

definition fragmentMarker :: "fragment_kind \<Rightarrow> string" where
  "fragmentMarker k = ''[yanshi:'' @ kind_text k @ '']'' @ [newline_c]"

definition MarkFragment :: "fragment_kind \<Rightarrow> string \<Rightarrow> ctx_message" where
  "MarkFragment k body = plain_message User (fragmentMarker k @ body)"

definition parseFragment :: "ctx_message option \<Rightarrow> (fragment_kind \<times> string) option" where
  "parseFragment m =
     (case m of None \<Rightarrow> None
      | Some m \<Rightarrow>
          if cm_role m \<noteq> User then None
          else map_option (\<lambda>k. (k, trim_prefix (fragmentMarker k) (cm_content m)))
                 (find (\<lambda>k. prefix (fragmentMarker k) (cm_content m)) fragmentKinds))"

definition hasFragmentKind :: "ctx_message option \<Rightarrow> fragment_kind \<Rightarrow> bool" where
  "hasFragmentKind m k = (case parseFragment m of None \<Rightarrow> False | Some (k', _) \<Rightarrow> k' = k)"

definition IsSummaryMessage :: "ctx_message option \<Rightarrow> bool" where
  "IsSummaryMessage m = hasFragmentKind m KindSummary"

definition IsEvictionMapMessage :: "ctx_message option \<Rightarrow> bool" where
  "IsEvictionMapMessage m = hasFragmentKind m KindEvictionMap"

definition lastMessageIsSummary :: "chat_history \<Rightarrow> bool" where
  "lastMessageIsSummary msgs = (msgs \<noteq> [] \<and> IsSummaryMessage (last msgs))"

definition StripFragments :: "chat_history \<Rightarrow> fragment_kind list \<Rightarrow> chat_history" where
  "StripFragments msgs kinds =
     filter (\<lambda>m. case parseFragment m of None \<Rightarrow> True | Some (k, _) \<Rightarrow> k \<notin> set kinds) msgs"

lemma markers_apart: "prefix (fragmentMarker k) (fragmentMarker k' @ body) \<longleftrightarrow> k = k'"
  by (cases k; cases k') (simp_all add: fragmentMarker_def kind_text_def)

text \<open>A fragment is read back as what it was marked as, and never as the other kind.\<close>

lemma parse_mark [simp]: "parseFragment (Some (MarkFragment k body)) = Some (k, body)"
proof -
  have "find (\<lambda>k'. prefix (fragmentMarker k') (fragmentMarker k @ body)) fragmentKinds = Some k"
    by (cases k) (simp_all add: fragmentKinds_def markers_apart)
  then show ?thesis by (simp add: parseFragment_def MarkFragment_def plain_message_def trim_prefix_def)
qed

lemma hasFragmentKind_mark [simp]: "hasFragmentKind (Some (MarkFragment k body)) k' \<longleftrightarrow> k = k'"
  by (simp add: hasFragmentKind_def)

lemma summary_is_fragment: "IsSummaryMessage m \<Longrightarrow> parseFragment m \<noteq> None"
  by (cases "parseFragment m") (auto simp: IsSummaryMessage_def hasFragmentKind_def)

section \<open>What keeps a message verbatim\<close>

definition errorMarkers :: "string list" where
  "errorMarkers = [''error:'', ''error '', ''failed'', ''panic'', ''traceback'', ''stack trace'',
     ''assertion failed'', ''test failed'']"

definition diffMarkers :: "string list" where
  "diffMarkers = [''diff --git'', ''+++ b/'', ''--- a/'', [btick, btick, btick] @ ''diff'', ''apply_patch'']"

definition isErrorMarker :: "string \<Rightarrow> bool" where
  "isErrorMarker txt = list_ex (contains (to_lower txt)) errorMarkers"

definition isDiffMarker :: "string \<Rightarrow> bool" where
  "isDiffMarker txt = list_ex (contains txt) diffMarkers"

definition shouldPin :: "ctx_message option \<Rightarrow> string list \<Rightarrow> bool" where
  "shouldPin m paths =
     (case m of None \<Rightarrow> False
      | Some m \<Rightarrow> list_ex (\<lambda>p. contains (cm_content m) p \<or> contains (cm_reasoning m) p) paths
          \<or> isErrorMarker (cm_content m) \<or> isDiffMarker (cm_content m))"

definition pinInitialContext :: "ctx_message option \<Rightarrow> bool" where
  "pinInitialContext m = (case m of None \<Rightarrow> False | Some m \<Rightarrow> cm_role m = System)"

definition isUserOriginal :: "ctx_message option \<Rightarrow> bool" where
  "isUserOriginal m =
     (case m of None \<Rightarrow> False
      | Some u \<Rightarrow> cm_role u = User \<and> \<not> IsSummaryMessage m \<and> cm_call_id u = [])"

section \<open>Paths in text\<close>

text \<open>
  \<open>pathRe\<close>, \<open>(?:[A-Za-z0-9._-]+/)+[A-Za-z0-9._-]+\.(?:go|rs|md|json|ya?ml|txt|toml|ts|js|py)\<close>, as
  Go's leftmost-first matcher runs it.  A slash ends a part, so the parts before the last are
  maximal runs; as many of them as possible are tried first, then the longest last part.
\<close>

definition is_path_byte :: "char \<Rightarrow> bool" where
  "is_path_byte c \<longleftrightarrow> (65 \<le> byte c \<and> byte c \<le> 90) \<or> (97 \<le> byte c \<and> byte c \<le> 122) \<or> is_digit c
     \<or> c = CHR ''.'' \<or> c = CHR ''_'' \<or> c = CHR ''-''"

definition path_extensions :: "string list" where
  "path_extensions = [''go'', ''rs'', ''md'', ''json'', ''yaml'', ''yml'', ''txt'', ''toml'', ''ts'', ''js'', ''py'']"

definition part_length :: "string \<Rightarrow> nat" where
  "part_length s = length (takeWhile is_path_byte s)"

text \<open>The length of the last part with its extension, its name \<open>k\<close> bytes long or shorter.\<close>

fun last_part :: "string \<Rightarrow> nat \<Rightarrow> nat option" where
  "last_part s 0 = None"
| "last_part s (Suc k) =
     (case (if prefix ''.'' (drop (Suc k) s) then find (\<lambda>e. prefix e (drop (Suc (Suc k)) s)) path_extensions else None) of
        Some e \<Rightarrow> Some (Suc (Suc k) + length e)
      | None \<Rightarrow> last_part s k)"

lemma part_length_le: "part_length s \<le> length s"
  by (simp add: part_length_def length_takeWhile_le)

function path_tail :: "string \<Rightarrow> nat option" where
  "path_tail s =
     (let n = part_length s in
      case (if 0 < n \<and> n < length s \<and> s ! n = CHR ''/'' then map_option (\<lambda>l. Suc n + l) (path_tail (drop (Suc n) s)) else None) of
        Some l \<Rightarrow> Some l
      | None \<Rightarrow> last_part s n)"
  by pat_completeness auto
termination
  by (relation "measure length") auto

declare path_tail.simps [simp del]

definition path_at :: "string \<Rightarrow> nat option" where
  "path_at s =
     (let n = part_length s in
      if 0 < n \<and> n < length s \<and> s ! n = CHR ''/'' then map_option (\<lambda>l. Suc n + l) (path_tail (drop (Suc n) s)) else None)"

text \<open>\<open>FindAllString\<close>: the matches from left to right, none overlapping another.\<close>

function find_paths :: "string \<Rightarrow> string list" where
  "find_paths [] = []"
| "find_paths (c # s) =
     (case path_at (c # s) of
        Some (Suc l) \<Rightarrow> take (Suc l) (c # s) # find_paths (drop l s)
      | _ \<Rightarrow> find_paths s)"
  by pat_completeness auto
termination
  by (relation "measure length") auto

definition argument_keys :: "string list" where
  "argument_keys = [''path'', ''file'', ''target'']"

definition call_paths :: "chat_call \<Rightarrow> string list" where
  "call_paths c =
     filter (\<lambda>t. t \<noteq> []) (map trim_space (List.map_filter (map_of (cc_fields c)) argument_keys))"

definition extractPaths :: "ctx_message option \<Rightarrow> string list" where
  "extractPaths m =
     (case m of None \<Rightarrow> []
      | Some m \<Rightarrow> find_paths (cm_content m) @ find_paths (cm_reasoning m) @ concat (map call_paths (cm_calls m)))"

definition recentWorkingSetWindow :: nat where "recentWorkingSetWindow = 12"
definition maxWorkingSetPaths :: nat where "maxWorkingSetPaths = 24"

definition add_path :: "string \<Rightarrow> string list \<Rightarrow> string list" where
  "add_path p found = (let t = trim_space p in if t = [] \<or> t \<in> set found then found else found @ [t])"

text \<open>The recent window, newest first; a full list ends the walk after a message.\<close>

fun window_paths :: "chat_history \<Rightarrow> string list \<Rightarrow> string list" where
  "window_paths [] found = found"
| "window_paths (m # ms) found =
     (let found' = fold add_path (extractPaths m) found in
      if length found' \<ge> maxWorkingSetPaths then found' else window_paths ms found')"

definition deriveWorkingSetPaths :: "chat_history \<Rightarrow> nat list \<Rightarrow> string list" where
  "deriveWorkingSetPaths msgs seed =
     (let seeded = fold (\<lambda>i found. if i < length msgs then fold add_path (extractPaths (msgs ! i)) found else found)
                     (rev seed) [];
          start = length msgs - recentWorkingSetWindow in
      window_paths (rev (drop start msgs)) seeded)"

end
