(* ===== verification/CtxPairs.thy ===== *)
theory CtxPairs
  imports CtxMessage
begin

text \<open>
  The repair of the pinned set so that no tool call is kept without its result or the other way
  round (\<open>internal/ctxcompact/pairs.go\<close>).  Go ranges over a map there, so the order in which a
  pass visits the pinned messages is not determined: it is an argument, and the result is
  shown not to depend on it where every call identifier is used once.
\<close>

section \<open>The pass and the fixpoint\<close>

definition has_call :: "string \<Rightarrow> ctx_message option \<Rightarrow> bool" where
  "has_call x m = (case m of None \<Rightarrow> False | Some m \<Rightarrow> x \<noteq> [] \<and> list_ex (\<lambda>c. cc_id c = x) (cm_calls m))"

definition has_result :: "string \<Rightarrow> ctx_message option \<Rightarrow> bool" where
  "has_result x m = (case m of None \<Rightarrow> False | Some m \<Rightarrow> x \<noteq> [] \<and> cm_call_id m = x)"

text \<open>\<open>callIdx\<close> and \<open>resultIdx\<close>: a later message with the same identifier replaces an earlier one.\<close>

definition call_index :: "chat_history \<Rightarrow> string \<Rightarrow> nat option" where
  "call_index msgs x = find (\<lambda>i. has_call x (msgs ! i)) (rev [0..<length msgs])"

definition result_index :: "chat_history \<Rightarrow> string \<Rightarrow> nat option" where
  "result_index msgs x = find (\<lambda>i. has_result x (msgs ! i)) (rev [0..<length msgs])"

text \<open>The pinned indices, the permanently removed ones, and whether the pass changed anything.\<close>

type_synonym pin_state = "nat set \<times> nat set \<times> bool"

definition remove_pin :: "nat \<Rightarrow> pin_state \<Rightarrow> pin_state" where
  "remove_pin i st = (case st of (P, R, ch) \<Rightarrow> if i \<in> P then (P - {i}, insert i R, True) else st)"

definition pin :: "nat \<Rightarrow> pin_state \<Rightarrow> pin_state" where
  "pin i st = (case st of (P, R, ch) \<Rightarrow> if i \<notin> P then (insert i P, R, True) else st)"

definition removed :: "pin_state \<Rightarrow> nat set" where
  "removed st = fst (snd st)"

text \<open>The calls of a message: the first that has lost its result removes the message.\<close>

fun check_calls :: "chat_history \<Rightarrow> nat \<Rightarrow> string list \<Rightarrow> pin_state \<Rightarrow> pin_state" where
  "check_calls msgs i [] st = st"
| "check_calls msgs i (x # xs) st =
     (if x = [] then check_calls msgs i xs st
      else case result_index msgs x of
             None \<Rightarrow> remove_pin i st
           | Some r \<Rightarrow> if r \<in> removed st then remove_pin i st else check_calls msgs i xs (pin r st))"

definition check_result :: "chat_history \<Rightarrow> nat \<Rightarrow> string \<Rightarrow> pin_state \<Rightarrow> pin_state" where
  "check_result msgs i x st =
     (if x = [] then st
      else case call_index msgs x of
             None \<Rightarrow> remove_pin i st
           | Some c \<Rightarrow> if c \<in> removed st then remove_pin i st else pin c st)"

definition visit :: "chat_history \<Rightarrow> nat \<Rightarrow> pin_state \<Rightarrow> pin_state" where
  "visit msgs i st =
     (if i \<in> removed st then st
      else case msgs ! i of
             None \<Rightarrow> st
           | Some m \<Rightarrow> check_result msgs i (cm_call_id m) (check_calls msgs i (map cc_id (cm_calls m)) st))"

definition pass :: "chat_history \<Rightarrow> nat list \<Rightarrow> nat set \<Rightarrow> nat set \<Rightarrow> pin_state" where
  "pass msgs order P R = fold (visit msgs) order (P, R, False)"

text \<open>
  The passes.  \<open>ord k P\<close> is the order in which the \<open>k\<close>th pass visits the pinned set \<open>P\<close>; the
  result is \<^const>\<open>None\<close> should the passes never end.
\<close>

partial_function (option) enforce_loop ::
    "(nat \<Rightarrow> nat set \<Rightarrow> nat list) \<Rightarrow> chat_history \<Rightarrow> nat \<Rightarrow> nat set \<Rightarrow> nat set \<Rightarrow> nat set option" where
  "enforce_loop ord msgs k P R =
     (case pass msgs (ord k P) P R of
        (P', R', ch) \<Rightarrow> if ch then enforce_loop ord msgs (Suc k) P' R' else Some P')"

declare enforce_loop.simps [code]

definition EnforceToolCallPairs :: "(nat \<Rightarrow> nat set \<Rightarrow> nat list) \<Rightarrow> chat_history \<Rightarrow> nat set \<Rightarrow> nat set option" where
  "EnforceToolCallPairs ord msgs P = (if P = {} then Some P else enforce_loop ord msgs 0 P {})"

section \<open>Counterparts\<close>

text \<open>The messages a message cannot do without, and whether it has them all.\<close>

inductive needs :: "chat_history \<Rightarrow> nat \<Rightarrow> nat \<Rightarrow> bool" for msgs where
  result_of: "i < length msgs \<Longrightarrow> has_call x (msgs ! i) \<Longrightarrow> result_index msgs x = Some r \<Longrightarrow> needs msgs i r"
| call_of: "i < length msgs \<Longrightarrow> has_result x (msgs ! i) \<Longrightarrow> call_index msgs x = Some c \<Longrightarrow> needs msgs i c"

definition orphaned :: "chat_history \<Rightarrow> nat \<Rightarrow> bool" where
  "orphaned msgs i \<longleftrightarrow> i < length msgs \<and>
     (\<exists>x. (has_call x (msgs ! i) \<and> result_index msgs x = None) \<or> (has_result x (msgs ! i) \<and> call_index msgs x = None))"

text \<open>Every pinned message has its counterparts, pinned.\<close>

definition paired :: "chat_history \<Rightarrow> nat set \<Rightarrow> bool" where
  "paired msgs P \<longleftrightarrow> (\<forall>i \<in> P. \<not> orphaned msgs i \<and> (\<forall>j. needs msgs i j \<longrightarrow> j \<in> P))"

inductive_cases needsE: "needs msgs i j"

lemma call_index_bound: "call_index msgs x = Some c \<Longrightarrow> c < length msgs \<and> has_call x (msgs ! c)"
  by (auto simp: call_index_def dest!: find_SomeD)

lemma result_index_bound: "result_index msgs x = Some r \<Longrightarrow> r < length msgs \<and> has_result x (msgs ! r)"
  by (auto simp: result_index_def dest!: find_SomeD)

lemma needs_bound: "needs msgs i j \<Longrightarrow> i < length msgs \<and> j < length msgs"
  by (auto elim!: needsE dest: call_index_bound result_index_bound)

section \<open>One pass\<close>

text \<open>
  What a visit may do: pin a counterpart of a pinned message that was never removed, or remove a pinned
  message that is an orphan or has lost a counterpart.
\<close>

definition within :: "chat_history \<Rightarrow> nat set \<Rightarrow> nat set \<Rightarrow> bool" where
  "within msgs P R \<longleftrightarrow> P \<subseteq> {..<length msgs} \<and> R \<subseteq> {..<length msgs} \<and> P \<inter> R = {}"

definition work :: "chat_history \<Rightarrow> nat set \<Rightarrow> nat set \<Rightarrow> nat" where
  "work msgs P R = 2 * card ({..<length msgs} - P - R) + card P"

lemma within_finite: "within msgs P R \<Longrightarrow> finite P \<and> finite R"
  unfolding within_def using finite_subset by blast

lemma work_pin:
  assumes "within msgs P R" "i < length msgs" "i \<notin> P" "i \<notin> R"
  shows "within msgs (insert i P) R" "work msgs (insert i P) R < work msgs P R"
proof -
  show "within msgs (insert i P) R" using assms by (auto simp: within_def)
  have "{..<length msgs} - P - R = insert i ({..<length msgs} - insert i P - R)" using assms by auto
  then have "card ({..<length msgs} - P - R) = Suc (card ({..<length msgs} - insert i P - R))"
    by (simp add: card_insert_if)
  moreover have "card (insert i P) = Suc (card P)" using assms(3) within_finite [OF assms(1)] by simp
  ultimately show "work msgs (insert i P) R < work msgs P R" by (simp add: work_def)
qed

lemma work_remove:
  assumes "within msgs P R" "i \<in> P"
  shows "within msgs (P - {i}) (insert i R)" "work msgs (P - {i}) (insert i R) < work msgs P R"
proof -
  show "within msgs (P - {i}) (insert i R)" using assms by (auto simp: within_def)
  have "{..<length msgs} - (P - {i}) - insert i R = {..<length msgs} - P - R" using assms(2) by auto
  moreover have "card (P - {i}) < card P"
    using card_Diff1_less [of P i] within_finite [OF assms(1)] assms(2) by simp
  ultimately show "work msgs (P - {i}) (insert i R) < work msgs P R" 
    unfolding work_def by (simp only: nat_add_left_cancel_less)
qed

text \<open>A step of the repair: nothing, or work done and the change noted.\<close>

definition repairs :: "chat_history \<Rightarrow> pin_state \<Rightarrow> pin_state \<Rightarrow> bool" where
  "repairs msgs st st' \<longleftrightarrow> st' = st \<or>
     (case (st, st') of ((P, R, _), (P', R', ch')) \<Rightarrow>
        ch' \<and> R \<subseteq> R' \<and> (within msgs P R \<longrightarrow> within msgs P' R' \<and> work msgs P' R' < work msgs P R))"

lemma repairs_refl [simp]: "repairs msgs st st"
  by (simp add: repairs_def)

lemma repairs_trans: "repairs msgs a b \<Longrightarrow> repairs msgs b c \<Longrightarrow> repairs msgs a c"
  unfolding repairs_def by (cases a; cases b; cases c) auto

lemma repairs_remove: "repairs msgs st (remove_pin i st)"
proof (cases st)
  case (fields P R ch)
  then show ?thesis using work_remove [of msgs P R i] by (auto simp: remove_pin_def repairs_def)
qed

lemma repairs_pin: "i < length msgs \<Longrightarrow> i \<notin> removed st \<Longrightarrow> repairs msgs st (pin i st)"
proof (cases st)
  case (fields P R ch)
  assume "i < length msgs" "i \<notin> removed st"
  then show ?thesis using fields work_pin [of msgs P R i] by (auto simp: pin_def repairs_def removed_def)
qed

lemma repairs_check_calls: "repairs msgs st (check_calls msgs i xs st)"
proof (induction xs arbitrary: st)
  case (Cons x xs)
  show ?case
  proof (cases "x = []")
    case True
    then show ?thesis using Cons.IH by simp
  next
    case False
    show ?thesis
    proof (cases "result_index msgs x")
      case None
      then show ?thesis using False repairs_remove by simp
    next
      case (Some r)
      have "repairs msgs st (check_calls msgs i xs (pin r st))" if "r \<notin> removed st"
        by (rule repairs_trans [OF repairs_pin Cons.IH]) (use that Some result_index_bound in blast)+
      then show ?thesis using False Some repairs_remove by simp
    qed
  qed
qed simp

lemma repairs_check_result: "repairs msgs st (check_result msgs i x st)"
proof (cases "call_index msgs x")
  case None
  then show ?thesis using repairs_remove by (simp add: check_result_def)
next
  case (Some c)
  have "repairs msgs st (pin c st)" if "c \<notin> removed st"
    by (rule repairs_pin [OF _ that]) (use Some call_index_bound in blast)
  then show ?thesis using Some repairs_remove by (simp add: check_result_def)
qed

lemma repairs_visit: "repairs msgs st (visit msgs i st)"
proof (cases "msgs ! i")
  case (Some m)
  show ?thesis
    unfolding visit_def Some option.case if_distrib [of "repairs msgs st"]
    using repairs_trans [OF repairs_check_calls repairs_check_result] by simp
qed (simp add: visit_def)

lemma repairs_fold: "repairs msgs st (fold (visit msgs) order st)"
proof (induction order arbitrary: st)
  case (Cons i order)
  have "repairs msgs st (fold (visit msgs) order (visit msgs i st))" by (rule repairs_trans [OF repairs_visit Cons.IH])
  then show ?case by simp
qed simp

text \<open>A pass without a change leaves the state as it is, at each of its visits.\<close>

lemma unchanged_fold:
  assumes "fold (visit msgs) order (P, R, False) = (P', R', False)" "i \<in> set order"
  shows "visit msgs i (P, R, False) = (P, R, False)"
  using assms
proof (induction order)
  case (Cons j order)
  have same: "st = (P, R, False)" if "repairs msgs (P, R, False) st" "repairs msgs st (P', R', False)" for st
    using that by (cases st) (auto simp: repairs_def)
  have "visit msgs j (P, R, False) = (P, R, False)"
    by (rule same [OF repairs_visit]) (use Cons.prems(1) repairs_fold [of msgs "visit msgs j (P, R, False)" order] in simp)
  with Cons show ?case by auto
qed simp

lemma fold_unchanged:
  "fold (visit msgs) order (P, R, False) = (P', R', False) \<Longrightarrow> P' = P \<and> R' = R"
  using repairs_fold [of msgs "(P, R, False)" order] by (auto simp: repairs_def)

text \<open>A message whose visit changes nothing has its counterparts, pinned.\<close>

lemma remove_unchanged: "remove_pin i (P, R, False) = (P, R, False) \<Longrightarrow> i \<notin> P"
  by (auto simp: remove_pin_def split: if_splits)

lemma check_calls_unchanged:
  assumes "check_calls msgs i xs (P, R, False) = (P, R, False)" "i \<in> P" "x \<in> set xs" "x \<noteq> []"
  shows "\<exists>r \<in> P. result_index msgs x = Some r"
  using assms
proof (induction xs)
  case (Cons y ys)
  show ?case
  proof (cases "y = []")
    case True
    with Cons show ?thesis by auto
  next
    case False
    then obtain r where r: "result_index msgs y = Some r" "r \<notin> R"
      using Cons.prems(1,2) remove_unchanged [of i P R] by (auto simp: removed_def split: option.splits if_splits)
    then have c: "check_calls msgs i ys (pin r (P, R, False)) = (P, R, False)"
      using Cons.prems(1) False by (simp add: removed_def)
    have "pin r (P, R, False) = (P, R, False)"
      using repairs_check_calls [of msgs "pin r (P, R, False)" i ys] unfolding c
      by (cases "r \<in> P") (auto simp: repairs_def pin_def)
    then have "r \<in> P" by (auto simp: pin_def split: if_splits)
    with Cons r c \<open>pin r _ = _\<close> show ?thesis by auto
  qed
qed simp

lemma visit_unchanged:
  assumes "visit msgs i (P, R, False) = (P, R, False)" "i \<in> P" "within msgs P R"
  shows "\<not> orphaned msgs i \<and> (\<forall>j. needs msgs i j \<longrightarrow> j \<in> P)"
proof (cases "msgs ! i")
  case None
  then show ?thesis by (auto simp: orphaned_def has_call_def has_result_def elim!: needsE)
next
  case (Some m)
  have "i \<notin> R" using assms(2,3) by (auto simp: within_def)
  let ?st = "check_calls msgs i (map cc_id (cm_calls m)) (P, R, False)"
  have v: "check_result msgs i (cm_call_id m) ?st = (P, R, False)"
    using assms(1) Some \<open>i \<notin> R\<close> by (simp add: visit_def removed_def)
  then have "?st = (P, R, False)"
    using repairs_check_calls [of msgs "(P, R, False)" i "map cc_id (cm_calls m)"] repairs_check_result [of msgs ?st i "cm_call_id m"]
    by (cases ?st) (auto simp: repairs_def)
  with v have calls: "\<exists>r \<in> P. result_index msgs x = Some r" if "has_call x (msgs ! i)" for x
    using check_calls_unchanged [of msgs i "map cc_id (cm_calls m)" P R x] assms(2) Some that
    by (force simp: has_call_def list_ex_iff)
  have "\<exists>c \<in> P. call_index msgs x = Some c" if "has_result x (msgs ! i)" for x
  proof -
    have x: "x = cm_call_id m" "x \<noteq> []" using that Some by (auto simp: has_result_def)
    show ?thesis
      using v [unfolded \<open>?st = _\<close>] x assms(2) remove_unchanged [of i P R]
      by (auto simp: check_result_def pin_def removed_def split: option.splits if_splits)
  qed
  with calls show ?thesis by (fastforce simp: orphaned_def elim!: needsE)
qed

section \<open>What is pinned and what is removed\<close>

definition doomed :: "chat_history \<Rightarrow> nat \<Rightarrow> bool" where
  "doomed msgs i \<longleftrightarrow> (\<exists>k. (needs msgs)\<^sup>*\<^sup>* i k \<and> orphaned msgs k)"

definition closure :: "chat_history \<Rightarrow> nat set \<Rightarrow> nat set" where
  "closure msgs P0 = {i. \<exists>p \<in> P0. (needs msgs)\<^sup>*\<^sup>* p i}"

text \<open>Only what the first pins need is pinned, and only what has no hope is removed.\<close>

definition traced :: "chat_history \<Rightarrow> nat set \<Rightarrow> pin_state \<Rightarrow> bool" where
  "traced msgs P0 st \<longleftrightarrow> (case st of (P, R, _) \<Rightarrow>
     P0 \<subseteq> P \<union> R \<and> P \<union> R \<subseteq> closure msgs P0 \<and> (\<forall>i \<in> R. doomed msgs i))"

lemma doomed_orphan: "orphaned msgs i \<Longrightarrow> doomed msgs i"
  by (auto simp: doomed_def)

lemma doomed_needs: "needs msgs i j \<Longrightarrow> doomed msgs j \<Longrightarrow> doomed msgs i"
  unfolding doomed_def by (meson converse_rtranclp_into_rtranclp)

lemma closure_needs: "i \<in> closure msgs P0 \<Longrightarrow> needs msgs i j \<Longrightarrow> j \<in> closure msgs P0"
  unfolding closure_def by (auto intro: rtranclp.rtrancl_into_rtrancl)

lemma traced_remove: "traced msgs P0 st \<Longrightarrow> doomed msgs i \<Longrightarrow> traced msgs P0 (remove_pin i st)"
  by (cases st) (auto simp: traced_def remove_pin_def)

lemma traced_pin: "traced msgs P0 st \<Longrightarrow> j \<in> closure msgs P0 \<Longrightarrow> traced msgs P0 (pin j st)"
  by (cases st) (auto simp: traced_def pin_def)

lemma traced_doomed: "traced msgs P0 st \<Longrightarrow> j \<in> removed st \<Longrightarrow> doomed msgs j"
  by (cases st) (auto simp: traced_def removed_def)

lemma traced_check_calls:
  assumes "traced msgs P0 st" "i \<in> closure msgs P0" "i < length msgs"
    and "\<forall>x \<in> set xs. x \<noteq> [] \<longrightarrow> has_call x (msgs ! i)"
  shows "traced msgs P0 (check_calls msgs i xs st)"
  using assms(1,4)
proof (induction xs arbitrary: st)
  case (Cons x xs)
  show ?case
  proof (cases "x = []")
    case True
    with Cons show ?thesis by simp
  next
    case False
    then have x: "has_call x (msgs ! i)" using Cons.prems(2) by simp
    show ?thesis
    proof (cases "result_index msgs x")
      case None
      then have "doomed msgs i" using x assms(3) by (intro doomed_orphan) (auto simp: orphaned_def)
      with None False Cons.prems(1) traced_remove show ?thesis by simp
    next
      case (Some r)
      then have n: "needs msgs i r" using x assms(3) by (intro result_of)
      show ?thesis
      proof (cases "r \<in> removed st")
        case True
        then have "doomed msgs i" using doomed_needs [OF n] traced_doomed [OF Cons.prems(1)] by blast
        with True Some False Cons.prems(1) traced_remove show ?thesis by simp
      next
        case kept: False
        have "traced msgs P0 (pin r st)" using traced_pin [OF Cons.prems(1)] closure_needs [OF assms(2) n] by blast
        with Cons False Some kept show ?thesis by simp
      qed
    qed
  qed
qed simp

lemma traced_check_result:
  assumes "traced msgs P0 st" "i \<in> closure msgs P0" "i < length msgs" "x \<noteq> [] \<longrightarrow> has_result x (msgs ! i)"
  shows "traced msgs P0 (check_result msgs i x st)"
proof (cases "x = []")
  case False
  then have x: "has_result x (msgs ! i)" using assms(4) by blast
  show ?thesis
  proof (cases "call_index msgs x")
    case None
    then have "doomed msgs i" using x assms(3) by (intro doomed_orphan) (auto simp: orphaned_def)
    with None False assms(1) traced_remove show ?thesis by (simp add: check_result_def)
  next
    case (Some c)
    then have n: "needs msgs i c" using x assms(3) by (intro call_of)
    show ?thesis
    proof (cases "c \<in> removed st")
      case True
      then have "doomed msgs i" using doomed_needs [OF n] traced_doomed [OF assms(1)] by blast
      with True Some False assms(1) traced_remove show ?thesis by (simp add: check_result_def)
    next
      case kept: False
      then show ?thesis using False Some traced_pin [OF assms(1)] closure_needs [OF assms(2) n]
        by (simp add: check_result_def)
    qed
  qed
qed (use assms(1) in \<open>simp add: check_result_def\<close>)

lemma traced_visit:
  assumes "traced msgs P0 st" "i \<in> closure msgs P0" "i < length msgs"
  shows "traced msgs P0 (visit msgs i st)"
proof (cases "msgs ! i")
  case (Some m)
  have "traced msgs P0 (check_calls msgs i (map cc_id (cm_calls m)) st)"
    by (rule traced_check_calls [OF assms]) (auto simp: Some has_call_def list_ex_iff)
  then have "traced msgs P0 (check_result msgs i (cm_call_id m) (check_calls msgs i (map cc_id (cm_calls m)) st))"
    by (rule traced_check_result [OF _ assms(2,3)]) (auto simp: Some has_result_def)
  with Some assms(1) show ?thesis by (simp add: visit_def)
qed (use assms(1) in \<open>simp add: visit_def\<close>)

lemma traced_fold:
  "traced msgs P0 st \<Longrightarrow> set order \<subseteq> closure msgs P0 \<inter> {..<length msgs} \<Longrightarrow> traced msgs P0 (fold (visit msgs) order st)"
proof (induction order arbitrary: st)
  case (Cons i order)
  then show ?case using traced_visit [of msgs P0 st i] by simp
qed simp

section \<open>The fixpoint\<close>

definition valid_order :: "(nat \<Rightarrow> nat set \<Rightarrow> nat list) \<Rightarrow> bool" where
  "valid_order ord \<longleftrightarrow> (\<forall>k P. finite P \<longrightarrow> set (ord k P) = P)"

lemma enforce_loop_result:
  assumes "valid_order ord" "within msgs P R" "traced msgs P0 (P, R, False)"
  shows "\<exists>Q R'. enforce_loop ord msgs k P R = Some Q \<and> paired msgs Q \<and> within msgs Q R' \<and> traced msgs P0 (Q, R', False)"
  using assms(2,3)
proof (induction "work msgs P R" arbitrary: k P R rule: less_induct)
  case less
  have o: "set (ord k P) = P" using assms(1) within_finite [OF less.prems(1)] by (simp add: valid_order_def)
  obtain P' R' ch where p: "pass msgs (ord k P) P R = (P', R', ch)" by (metis prod_cases3)
  then have f: "fold (visit msgs) (ord k P) (P, R, False) = (P', R', ch)" by (simp add: pass_def)
  have "set (ord k P) \<subseteq> closure msgs P0 \<inter> {..<length msgs}"
    using o less.prems by (auto simp: traced_def within_def)
  from traced_fold [OF less.prems(2) this] have t: "traced msgs P0 (P', R', False)"
    unfolding f by (simp add: traced_def)
  show ?case
  proof (cases ch)
    case True
    then have "within msgs P' R'" "work msgs P' R' < work msgs P R"
      using repairs_fold [of msgs "(P, R, False)" "ord k P"] less.prems(1) unfolding f by (auto simp: repairs_def)
    from less.hyps [OF this(2,1) t] True p show ?thesis by (simp add: enforce_loop.simps [of ord msgs k])
  next
    case False
    with f have f: "fold (visit msgs) (ord k P) (P, R, False) = (P', R', False)" by simp
    have same: "P' = P" "R' = R" using fold_unchanged [OF f] by auto
    have "paired msgs P"
      unfolding paired_def using unchanged_fold [OF f] visit_unchanged [of msgs _ P R] less.prems(1) o by blast
    moreover have "enforce_loop ord msgs k P R = Some P"
      using False p same by (simp add: enforce_loop.simps [of ord msgs k])
    ultimately show ?thesis using less.prems by blast
  qed
qed

lemma enforce_result:
  assumes "valid_order ord" "P \<subseteq> {..<length msgs}"
  shows "\<exists>Q R. EnforceToolCallPairs ord msgs P = Some Q \<and> paired msgs Q \<and> within msgs Q R \<and> traced msgs P (Q, R, False)"
proof (cases "P = {}")
  case True
  then show ?thesis
    by (intro exI [of _ "{}"]) (simp add: EnforceToolCallPairs_def paired_def within_def traced_def)
next
  case False
  have "within msgs P {}" "traced msgs P (P, {}, False)"
    using assms(2) by (auto simp: within_def traced_def closure_def)
  from enforce_loop_result [OF assms(1) this, of 0] False show ?thesis by (simp add: EnforceToolCallPairs_def)
qed

text \<open>
  C18: Whatever order Go ranges over the map in, the repair ends, and afterwards no pinned
  message has a tool call without its result or a result without its call, each counterpart is
  pinned too, and nothing is pinned that a message pinned at the start does not need.
\<close>

theorem pairs_repaired:
  assumes "valid_order ord" "P \<subseteq> {..<length msgs}"
  shows "\<exists>Q. EnforceToolCallPairs ord msgs P = Some Q \<and> paired msgs Q \<and> Q \<subseteq> closure msgs P \<inter> {..<length msgs}"
  using enforce_result [OF assms] by (auto simp: within_def traced_def)

text \<open>Where each identifier is used for one call and one result, needing is mutual.\<close>

definition ids_used_once :: "chat_history \<Rightarrow> bool" where
  "ids_used_once msgs \<longleftrightarrow> (\<forall>x. \<forall>i < length msgs. \<forall>j < length msgs.
     (has_call x (msgs ! i) \<and> has_call x (msgs ! j) \<longrightarrow> i = j) \<and>
     (has_result x (msgs ! i) \<and> has_result x (msgs ! j) \<longrightarrow> i = j))"

lemma call_index_some: "i < length msgs \<Longrightarrow> has_call x (msgs ! i) \<Longrightarrow> call_index msgs x \<noteq> None"
  by (auto simp: call_index_def find_None_iff)

lemma result_index_some: "i < length msgs \<Longrightarrow> has_result x (msgs ! i) \<Longrightarrow> result_index msgs x \<noteq> None"
  by (auto simp: result_index_def find_None_iff)

lemma needs_sym:
  assumes "ids_used_once msgs" "needs msgs i j"
  shows "needs msgs j i"
  using assms(2)
proof cases
  case (result_of x)
  then have j: "j < length msgs" "has_result x (msgs ! j)" using result_index_bound by blast+
  obtain c where c: "call_index msgs x = Some c" using call_index_some result_of(1,2) by blast
  then have "c = i" using call_index_bound [OF c] assms(1) result_of(1,2) unfolding ids_used_once_def by blast
  with c j show ?thesis using needs.call_of [of j msgs x i] by simp
next
  case (call_of x)
  then have j: "j < length msgs" "has_call x (msgs ! j)" using call_index_bound by blast+
  obtain r where r: "result_index msgs x = Some r" using result_index_some call_of(1,2) by blast
  then have "r = i" using result_index_bound [OF r] assms(1) call_of(1,2) unfolding ids_used_once_def by blast
  with r j show ?thesis using needs.result_of [of j msgs x i] by simp
qed

lemma needs_star_sym:
  assumes "ids_used_once msgs" "(needs msgs)\<^sup>*\<^sup>* i j"
  shows "(needs msgs)\<^sup>*\<^sup>* j i"
  using assms(2) by induction (auto intro: needs_sym [OF assms(1)] converse_rtranclp_into_rtranclp)

lemma paired_star:
  assumes "paired msgs Q" "(needs msgs)\<^sup>*\<^sup>* i j" "i \<in> Q"
  shows "j \<in> Q"
  using assms(2,3,1) by (induction rule: rtranclp_induct) (auto simp: paired_def)

text \<open>
  C40: In a history that uses each identifier for one call and one result, the repaired set
  does not depend on the order of the map: it holds what the pins need, less everything that
  hangs together with an orphan.
\<close>

theorem repair_order_irrelevant:
  assumes "valid_order ord" "P \<subseteq> {..<length msgs}" "ids_used_once msgs"
  shows "EnforceToolCallPairs ord msgs P = Some {i \<in> closure msgs P. \<not> doomed msgs i}"
proof -
  obtain Q R where q: "EnforceToolCallPairs ord msgs P = Some Q" "paired msgs Q" "traced msgs P (Q, R, False)"
    using enforce_result [OF assms(1,2)] by blast
  have "Q = {i \<in> closure msgs P. \<not> doomed msgs i}"
  proof (intro equalityI subsetI CollectI conjI)
    fix i
    assume "i \<in> Q"
    then show "i \<in> closure msgs P" using q(3) by (auto simp: traced_def)
    show "\<not> doomed msgs i"
      using paired_star [OF q(2) _ \<open>i \<in> Q\<close>] q(2) by (auto simp: doomed_def paired_def)
  next
    fix i
    assume "i \<in> {i \<in> closure msgs P. \<not> doomed msgs i}"
    then obtain p where p: "p \<in> P" "(needs msgs)\<^sup>*\<^sup>* p i" and i: "\<not> doomed msgs i" by (auto simp: closure_def)
    have "\<not> doomed msgs p"
      using i rtranclp_trans [OF needs_star_sym [OF assms(3) p(2)]] unfolding doomed_def by blast
    then have "p \<in> Q" using p(1) q(3) by (auto simp: traced_def)
    then show "i \<in> Q" using paired_star [OF q(2) p(2)] by blast
  qed
  with q(1) show ?thesis by simp
qed

section \<open>Concrete histories\<close>

definition calling :: "string list \<Rightarrow> ctx_message option" where
  "calling xs = Some (plain_message Assistant []\<lparr>cm_calls := map (\<lambda>x. \<lparr>cc_id = x, cc_name = ''t'', cc_args = [], cc_fields = []\<rparr>) xs\<rparr>)"

definition answering :: "string \<Rightarrow> ctx_message option" where
  "answering x = Some (plain_message Tool ''out''\<lparr>cm_call_id := x\<rparr>)"

definition sample_history :: chat_history where
  "sample_history = [calling [''x''], answering ''x'', calling [''y''], Some (plain_message User ''hi'')]"

definition ascending :: "nat \<Rightarrow> nat set \<Rightarrow> nat list" where
  "ascending k P = sorted_list_of_set P"

definition descending :: "nat \<Rightarrow> nat set \<Rightarrow> nat list" where
  "descending k P = rev (sorted_list_of_set P)"

lemma sample_orders: "valid_order ascending" "valid_order descending"
  by (simp_all add: valid_order_def ascending_def descending_def)

lemma pairs_repaired_witness:
  "\<exists>Q. EnforceToolCallPairs ascending sample_history {1, 2, 3} = Some Q \<and> paired sample_history Q"
  using pairs_repaired [OF sample_orders(1), of "{1, 2, 3}" sample_history] by (auto simp: sample_history_def)

lemma sample_history_ids: "ids_used_once sample_history"
proof -
  have f: "(has_call x (sample_history ! i) \<longleftrightarrow> (i = 0 \<and> x = ''x'') \<or> (i = 2 \<and> x = ''y'')) \<and>
      (has_result x (sample_history ! i) \<longleftrightarrow> i = 1 \<and> x = ''x'')" if "i < length sample_history" for i x
  proof -
    have "i \<in> {0, 1, 2, 3}" using that by (auto simp: sample_history_def)
    then show ?thesis
      by (elim insertE emptyE)
        (auto simp: sample_history_def calling_def answering_def plain_message_def has_call_def has_result_def)
  qed
  show ?thesis unfolding ids_used_once_def by (auto simp: f)
qed

lemma repair_order_irrelevant_witness:
  "EnforceToolCallPairs ascending sample_history {1, 2, 3} = EnforceToolCallPairs descending sample_history {1, 2, 3}"
proof -
  have "{1, 2, 3} \<subseteq> {..<length sample_history}" by (simp add: sample_history_def)
  from repair_order_irrelevant [OF sample_orders(1) this sample_history_ids]
    repair_order_irrelevant [OF sample_orders(2) this sample_history_ids]
  show ?thesis by simp
qed

text \<open>With an identifier used for two calls, what is kept depends on the order of the map.\<close>

definition reused_history :: chat_history where
  "reused_history = [calling [''y'', ''x''], answering ''y'', calling [''y'', ''z''], answering ''x'', calling [''x'']]"

lemma repair_depends_on_order:
  "EnforceToolCallPairs ascending reused_history {0, 1, 2} = Some {3, 4}"
  "EnforceToolCallPairs descending reused_history {0, 1, 2} = Some {}"
  by code_simp+

end
