(* ===== verification/CtxPlan.thy ===== *)
theory CtxPlan
  imports CtxPairs
begin

text \<open>
  The plan of a compaction (\<open>internal/ctxcompact/plan.go\<close>) and the history assembled from it
  (\<open>assemble.go\<close>): which messages stay verbatim, which are summarised, and what the model is
  handed afterwards.  The order of the map in the repair of pairs is an argument throughout.
\<close>

section \<open>The plan\<close>

record plan_result =
  pr_pinned :: "nat list"
  pr_summarize :: "nat list"
  pr_paths :: "string list"

definition tail_start :: "chat_history \<Rightarrow> int \<Rightarrow> nat" where
  "tail_start msgs keep = length msgs - nat (max 0 keep) * 2"

definition first_pins :: "chat_history \<Rightarrow> nat \<Rightarrow> string list \<Rightarrow> nat set" where
  "first_pins msgs start paths =
     set (filter (\<lambda>i. start \<le> i \<or> pinInitialContext (msgs ! i) \<or> isUserOriginal (msgs ! i) \<or> shouldPin (msgs ! i) paths)
       [0..<length msgs])"

definition hasUnpinnedContent :: "chat_history \<Rightarrow> nat set \<Rightarrow> bool" where
  "hasUnpinnedContent msgs P =
     list_ex (\<lambda>i. i \<notin> P \<and> msgs ! i \<noteq> None \<and> parseFragment (msgs ! i) = None) [0..<length msgs]"

definition unpinStaleSummaries :: "chat_history \<Rightarrow> nat set \<Rightarrow> nat set" where
  "unpinStaleSummaries msgs P =
     (if \<not> hasUnpinnedContent msgs P then P
      else P - set (filter (\<lambda>i. IsSummaryMessage (msgs ! i)) [0..<length msgs]))"

definition Plan :: "(nat \<Rightarrow> nat set \<Rightarrow> nat list) \<Rightarrow> chat_history \<Rightarrow> int \<Rightarrow> plan_result option" where
  "Plan ord msgs keep =
     (if msgs = [] then Some \<lparr>pr_pinned = [], pr_summarize = [], pr_paths = []\<rparr>
      else if lastMessageIsSummary msgs
      then Some \<lparr>pr_pinned = [0..<length msgs], pr_summarize = [], pr_paths = []\<rparr>
      else let start = tail_start msgs keep;
               paths = deriveWorkingSetPaths msgs [start..<length msgs] in
        (case EnforceToolCallPairs ord msgs (first_pins msgs start paths) of
           None \<Rightarrow> None
         | Some Q \<Rightarrow>
             let P = unpinStaleSummaries msgs Q in
             Some \<lparr>pr_pinned = filter (\<lambda>i. i \<in> P) [0..<length msgs],
                   pr_summarize = filter (\<lambda>i. i \<notin> P) [0..<length msgs], pr_paths = paths\<rparr>))"

section \<open>The assembled history\<close>

definition pinnedMessages :: "chat_history \<Rightarrow> plan_result \<Rightarrow> chat_history" where
  "pinnedMessages msgs plan =
     map ((!) msgs) (filter (\<lambda>i. i < length msgs \<and> msgs ! i \<noteq> None) (pr_pinned plan))"

definition AssembleWithMap :: "chat_history \<Rightarrow> plan_result \<Rightarrow> string \<Rightarrow> string \<Rightarrow> chat_history" where
  "AssembleWithMap msgs plan summary mapText =
     (let pinned = pinnedMessages msgs plan;
          fresh = (if mapText \<noteq> [] then [Some (MarkFragment KindEvictionMap mapText)] else []);
          replaced = (if mapText \<noteq> [] then [KindEvictionMap] else []) in
      StripFragments pinned (replaced @ [KindSummary]) @ fresh @ [Some (MarkFragment KindSummary summary)])"

definition Assemble :: "chat_history \<Rightarrow> plan_result \<Rightarrow> string \<Rightarrow> chat_history" where
  "Assemble msgs plan summary = AssembleWithMap msgs plan summary []"

section \<open>Properties of the plan\<close>

text \<open>Fragments carry no calls and answer none, as the package builds them.\<close>

definition fragments_plain :: "chat_history \<Rightarrow> bool" where
  "fragments_plain msgs \<longleftrightarrow> (\<forall>m. Some m \<in> set msgs \<longrightarrow> parseFragment (Some m) \<noteq> None \<longrightarrow>
     cm_calls m = [] \<and> cm_call_id m = [])"

definition speaks_only :: "ctx_message option \<Rightarrow> bool" where
  "speaks_only m \<longleftrightarrow> (case m of None \<Rightarrow> True | Some m \<Rightarrow> cm_calls m = [] \<and> cm_call_id m = [])"

lemma speaks_only_no_ids: "speaks_only m \<Longrightarrow> \<not> has_call x m \<and> \<not> has_result x m"
  by (auto simp: speaks_only_def has_call_def has_result_def split: option.splits)

lemma speaks_only_free:
  assumes "speaks_only (msgs ! i)"
  shows "\<not> needs msgs i j" "\<not> needs msgs j i" "\<not> doomed msgs i"
proof -
  show n: "\<not> needs msgs i j" for j
    using speaks_only_no_ids [OF assms] by (auto elim!: needsE)
  show "\<not> needs msgs j i"
    using speaks_only_no_ids [OF assms] by (auto elim!: needsE dest!: call_index_bound result_index_bound)
  have "k = i" if "(needs msgs)\<^sup>*\<^sup>* i k" for k
    using that n by (metis converse_rtranclpE)
  then show "\<not> doomed msgs i"
    using speaks_only_no_ids [OF assms] by (auto simp: doomed_def orphaned_def)
qed

lemma first_pins_bound: "first_pins msgs start paths \<subseteq> {..<length msgs}"
  by (auto simp: first_pins_def)

lemma Plan_cases:
  assumes "valid_order ord" "Plan ord msgs keep = Some pl" "msgs \<noteq> []" "\<not> lastMessageIsSummary msgs"
  obtains paths Q R where
    "EnforceToolCallPairs ord msgs (first_pins msgs (tail_start msgs keep) paths) = Some Q"
    "paired msgs Q" "within msgs Q R" "traced msgs (first_pins msgs (tail_start msgs keep) paths) (Q, R, False)"
    "set (pr_pinned pl) = unpinStaleSummaries msgs Q"
    "pr_pinned pl = filter (\<lambda>i. i \<in> unpinStaleSummaries msgs Q) [0..<length msgs]"
    "pr_summarize pl = filter (\<lambda>i. i \<notin> unpinStaleSummaries msgs Q) [0..<length msgs]"
proof -
  let ?paths = "deriveWorkingSetPaths msgs [tail_start msgs keep..<length msgs]"
  obtain Q R where q: "EnforceToolCallPairs ord msgs (first_pins msgs (tail_start msgs keep) ?paths) = Some Q"
      "paired msgs Q" "within msgs Q R" "traced msgs (first_pins msgs (tail_start msgs keep) ?paths) (Q, R, False)"
    using enforce_result [OF assms(1) first_pins_bound] by blast
  have pl: "pr_pinned pl = filter (\<lambda>i. i \<in> unpinStaleSummaries msgs Q) [0..<length msgs]"
      "pr_summarize pl = filter (\<lambda>i. i \<notin> unpinStaleSummaries msgs Q) [0..<length msgs]"
    using assms(2-4) q(1) by (auto simp: Plan_def Let_def)
  have "unpinStaleSummaries msgs Q \<subseteq> {..<length msgs}"
    using q(3) by (auto simp: within_def unpinStaleSummaries_def split: if_splits)
  then have "set (pr_pinned pl) = unpinStaleSummaries msgs Q" unfolding pl(1) by auto
  with that q pl show ?thesis by blast
qed

lemma Plan_returns:
  assumes "valid_order ord"
  shows "\<exists>pl. Plan ord msgs keep = Some pl"
proof -
  let ?P = "first_pins msgs (tail_start msgs keep) (deriveWorkingSetPaths msgs [tail_start msgs keep..<length msgs])"
  obtain Q where "EnforceToolCallPairs ord msgs ?P = Some Q"
    using enforce_result [OF assms first_pins_bound] by blast
  then show ?thesis by (simp add: Plan_def Let_def)
qed

lemma unpin_paired:
  assumes "paired msgs Q" "fragments_plain msgs" "Q \<subseteq> {..<length msgs}"
  shows "paired msgs (unpinStaleSummaries msgs Q)"
proof -
  have "\<not> needs msgs i j" if s: "IsSummaryMessage (msgs ! j)" "j < length msgs" for i j
  proof -
    obtain m where m: "msgs ! j = Some m" "parseFragment (Some m) \<noteq> None"
      using summary_is_fragment [OF s(1)] by (cases "msgs ! j") (simp_all add: parseFragment_def)
    then have "Some m \<in> set msgs" using s(2) nth_mem by metis
    with m assms(2) have "speaks_only (msgs ! j)" by (simp add: fragments_plain_def speaks_only_def)
    then show ?thesis using speaks_only_free(2) by blast
  qed
  then show ?thesis using assms(1,3) unfolding paired_def unpinStaleSummaries_def by auto
qed

lemma plan_split:
  assumes "valid_order ord" "fragments_plain msgs" "\<not> lastMessageIsSummary msgs" "Plan ord msgs keep = Some pl"
  shows "sorted (pr_pinned pl) \<and> sorted (pr_summarize pl) \<and> set (pr_pinned pl) \<union> set (pr_summarize pl) = {..<length msgs}
    \<and> set (pr_pinned pl) \<inter> set (pr_summarize pl) = {}
    \<and> paired msgs (set (pr_pinned pl))
    \<and> (\<forall>i < length msgs. speaks_only (msgs ! i) \<and> (pinInitialContext (msgs ! i) \<or> isUserOriginal (msgs ! i)) \<longrightarrow> i \<in> set (pr_pinned pl))
    \<and> (\<forall>i < length msgs. tail_start msgs keep \<le> i \<and> \<not> doomed msgs i \<and> \<not> IsSummaryMessage (msgs ! i) \<longrightarrow> i \<in> set (pr_pinned pl))"
proof (cases "msgs = []")
  case True
  then have "pl = \<lparr>pr_pinned = [], pr_summarize = [], pr_paths = []\<rparr>" using assms(4) by (simp add: Plan_def)
  with True show ?thesis by (simp add: paired_def)
next
  case False
  from Plan_cases [OF assms(1,4) False assms(3)] obtain paths Q R where
    q: "paired msgs Q" "within msgs Q R" "traced msgs (first_pins msgs (tail_start msgs keep) paths) (Q, R, False)"
      "set (pr_pinned pl) = unpinStaleSummaries msgs Q"
      "pr_pinned pl = filter (\<lambda>i. i \<in> unpinStaleSummaries msgs Q) [0..<length msgs]"
      "pr_summarize pl = filter (\<lambda>i. i \<notin> unpinStaleSummaries msgs Q) [0..<length msgs]" by metis
  have stays: "i \<in> set (pr_pinned pl)"
    if "i \<in> first_pins msgs (tail_start msgs keep) paths" "\<not> doomed msgs i" "\<not> IsSummaryMessage (msgs ! i)" for i
    using q(3,4) that by (auto simp: traced_def unpinStaleSummaries_def)
  have orig: "\<not> IsSummaryMessage m" if "pinInitialContext m \<or> isUserOriginal m" for m
    using that by (auto simp: pinInitialContext_def isUserOriginal_def IsSummaryMessage_def hasFragmentKind_def parseFragment_def
        split: option.splits)
  have "paired msgs (set (pr_pinned pl))"
    unfolding q(4) by (rule unpin_paired [OF q(1) assms(2)]) (use q(2) in \<open>simp add: within_def\<close>)
  moreover have "sorted (pr_pinned pl)" "sorted (pr_summarize pl)"
    unfolding q(5,6) by (intro sorted_wrt_filter sorted_upt)+
  moreover have "set (pr_pinned pl) \<union> set (pr_summarize pl) = {..<length msgs}" "set (pr_pinned pl) \<inter> set (pr_summarize pl) = {}"
    unfolding q(5,6) by auto
  moreover have "\<forall>i < length msgs. speaks_only (msgs ! i) \<and> (pinInitialContext (msgs ! i) \<or> isUserOriginal (msgs ! i)) \<longrightarrow> i \<in> set (pr_pinned pl)"
    using stays speaks_only_free(3) orig by (auto simp: first_pins_def)
  moreover have "\<forall>i < length msgs. tail_start msgs keep \<le> i \<and> \<not> doomed msgs i \<and> \<not> IsSummaryMessage (msgs ! i) \<longrightarrow> i \<in> set (pr_pinned pl)"
    using stays by (auto simp: first_pins_def)
  ultimately show ?thesis by blast
qed

lemma plan_facts:
  assumes "valid_order ord" "fragments_plain msgs" "\<not> lastMessageIsSummary msgs" "Plan ord msgs keep = Some pl"
  shows "pr_pinned pl = filter (\<lambda>i. i \<in> set (pr_pinned pl)) [0..<length msgs]"
    and "paired msgs (set (pr_pinned pl))" "set (pr_pinned pl) \<subseteq> {..<length msgs}"
    and "\<forall>i < length msgs. speaks_only (msgs ! i) \<and> (pinInitialContext (msgs ! i) \<or> isUserOriginal (msgs ! i)) \<longrightarrow> i \<in> set (pr_pinned pl)"
proof -
  show "pr_pinned pl = filter (\<lambda>i. i \<in> set (pr_pinned pl)) [0..<length msgs]"
    using assms(3,4) by (auto simp: Plan_def Let_def intro!: filter_cong split: if_splits option.splits)
qed (use plan_split [OF assms] in blast)+

text \<open>
  C19: A plan of a history that does not end in a summary, and whose fragments carry no tool
  calls, splits it into what stays and what is summarised, both in order.  The instruction and
  everything the user said stay, and so does every message of the recent tail that is neither a
  summary (a stale one is summarised again) nor hangs together with an orphaned call or result;
  what stays has every tool call paired with its result.
\<close>

theorem plan_keeps_what_matters:
  assumes "valid_order ord" "fragments_plain msgs" "\<not> lastMessageIsSummary msgs" "Plan ord msgs keep = Some pl"
  shows "sorted (pr_pinned pl) \<and> sorted (pr_summarize pl) \<and> set (pr_pinned pl) \<union> set (pr_summarize pl) = {..<length msgs}
    \<and> set (pr_pinned pl) \<inter> set (pr_summarize pl) = {}
    \<and> paired msgs (set (pr_pinned pl))
    \<and> (\<forall>i < length msgs. speaks_only (msgs ! i) \<and> (pinInitialContext (msgs ! i) \<or> isUserOriginal (msgs ! i)) \<longrightarrow> i \<in> set (pr_pinned pl))
    \<and> (\<forall>i < length msgs. tail_start msgs keep \<le> i \<and> \<not> doomed msgs i \<and> \<not> IsSummaryMessage (msgs ! i) \<longrightarrow> i \<in> set (pr_pinned pl))"
  by (rule plan_split [OF assms])

section \<open>Properties of the assembled history\<close>

text \<open>Every call in the history is answered in it, and every answer has its call.\<close>

definition answered :: "chat_history \<Rightarrow> bool" where
  "answered ms \<longleftrightarrow> (\<forall>m \<in> set ms. \<forall>x. (has_call x m \<longrightarrow> (\<exists>r \<in> set ms. has_result x r))
     \<and> (has_result x m \<longrightarrow> (\<exists>c \<in> set ms. has_call x c)))"

lemma paired_counterpart:
  assumes "paired msgs P" "i \<in> P" "i < length msgs"
  shows "has_call x (msgs ! i) \<Longrightarrow> \<exists>r \<in> P. result_index msgs x = Some r"
    and "has_result x (msgs ! i) \<Longrightarrow> \<exists>c \<in> P. call_index msgs x = Some c"
proof -
  have n: "\<not> orphaned msgs i" "\<And>j. needs msgs i j \<Longrightarrow> j \<in> P" using assms(1,2) by (auto simp: paired_def)
  show "\<exists>r \<in> P. result_index msgs x = Some r" if "has_call x (msgs ! i)"
    using n needs.result_of [OF assms(3) that] assms(3) that by (cases "result_index msgs x") (auto simp: orphaned_def)
  show "\<exists>c \<in> P. call_index msgs x = Some c" if "has_result x (msgs ! i)"
    using n needs.call_of [OF assms(3) that] assms(3) that by (cases "call_index msgs x") (auto simp: orphaned_def)
qed

lemma paired_answered:
  assumes "paired msgs P" "P \<subseteq> {..<length msgs}"
  shows "answered (map ((!) msgs) (filter (\<lambda>i. i < length msgs \<and> msgs ! i \<noteq> None) (filter (\<lambda>i. i \<in> P) [0..<length msgs])))"
proof -
  let ?ms = "map ((!) msgs) (filter (\<lambda>i. i < length msgs \<and> msgs ! i \<noteq> None) (filter (\<lambda>i. i \<in> P) [0..<length msgs]))"
  have ms: "set ?ms = {msgs ! i | i. i \<in> P \<and> msgs ! i \<noteq> None}" using assms(2) by auto
  have some: "msgs ! j \<noteq> None" if "has_call x (msgs ! j) \<or> has_result x (msgs ! j)" for j x
    using that by (cases "msgs ! j") (simp_all add: has_call_def has_result_def)
  have "\<exists>r \<in> set ?ms. has_result x r" if i: "i \<in> P" "has_call x (msgs ! i)" for i x
  proof -
    have "i < length msgs" using i(1) assms(2) by blast
    from paired_counterpart(1) [OF assms(1) i(1) this i(2)] obtain r where r: "r \<in> P" "result_index msgs x = Some r" by blast
    then have "has_result x (msgs ! r)" "msgs ! r \<noteq> None" using result_index_bound [OF r(2)] some by blast+
    with r(1) show ?thesis unfolding ms by blast
  qed
  moreover have "\<exists>c \<in> set ?ms. has_call x c" if i: "i \<in> P" "has_result x (msgs ! i)" for i x
  proof -
    have "i < length msgs" using i(1) assms(2) by blast
    from paired_counterpart(2) [OF assms(1) i(1) this i(2)] obtain c where c: "c \<in> P" "call_index msgs x = Some c" by blast
    then have "has_call x (msgs ! c)" "msgs ! c \<noteq> None" using call_index_bound [OF c(2)] some by blast+
    with c(1) show ?thesis unfolding ms by blast
  qed
  ultimately show ?thesis unfolding answered_def ms by blast
qed

lemma answered_strip:
  assumes "answered ms" "\<forall>m \<in> set ms. parseFragment m \<noteq> None \<longrightarrow> speaks_only m"
  shows "answered (StripFragments ms kinds)"
proof -
  have keep: "m \<in> set (StripFragments ms kinds)" if "m \<in> set ms" "has_call x m \<or> has_result x m" for m x
    using that assms(2) speaks_only_no_ids by (auto simp: StripFragments_def split: option.split)
  have "set (StripFragments ms kinds) \<subseteq> set ms" by (auto simp: StripFragments_def)
  with keep assms(1) show ?thesis unfolding answered_def by blast
qed

lemma answered_append_plain:
  "answered ms \<Longrightarrow> \<forall>m \<in> set fresh. speaks_only m \<Longrightarrow> answered (ms @ fresh)"
  using speaks_only_no_ids unfolding answered_def by (metis Un_iff set_append)

lemma speaks_only_mark [simp]: "speaks_only (Some (MarkFragment k body))"
  by (simp add: speaks_only_def MarkFragment_def plain_message_def)

lemma strip_kind: "k \<in> set kinds \<Longrightarrow> filter (\<lambda>m. hasFragmentKind m k) (StripFragments ms kinds) = []"
  by (auto simp: StripFragments_def hasFragmentKind_def filter_empty_conv split: option.splits)

lemma filter_summary_strip: "filter IsSummaryMessage (StripFragments ms (ks @ [KindSummary])) = []"
proof -
  have "IsSummaryMessage = (\<lambda>m. hasFragmentKind m KindSummary)" by (simp add: IsSummaryMessage_def fun_eq_iff)
  with strip_kind [of KindSummary "ks @ [KindSummary]" ms] show ?thesis by simp
qed

text \<open>
  The messages a compaction hands on unchanged whatever else happens: the instruction and what
  the user said, where they carry no call or result and are no fragment of an earlier compaction.
\<close>

definition lasting :: "ctx_message option \<Rightarrow> bool" where
  "lasting m \<longleftrightarrow> speaks_only m \<and> parseFragment m = None \<and> (pinInitialContext m \<or> isUserOriginal m)"

lemma lasting_strip: "filter lasting (StripFragments ms kinds) = filter lasting ms"
  unfolding StripFragments_def filter_filter by (rule filter_cong) (auto simp: lasting_def)

lemma lasting_pinned:
  assumes "\<And>i. i < length msgs \<Longrightarrow> lasting (msgs ! i) \<Longrightarrow> i \<in> P"
  shows "filter lasting (map ((!) msgs) (filter (\<lambda>i. i < length msgs \<and> msgs ! i \<noteq> None) (filter (\<lambda>i. i \<in> P) [0..<length msgs])))
    = filter lasting msgs"
proof -
  have some: "m \<noteq> None" if "lasting m" for m
    using that by (cases m) (simp_all add: lasting_def pinInitialContext_def isUserOriginal_def)
  have "filter lasting (map ((!) msgs) [0..<length msgs]) = filter lasting msgs" by (simp add: map_nth)
  moreover have "filter (lasting \<circ> (!) msgs) (filter (\<lambda>i. i < length msgs \<and> msgs ! i \<noteq> None) (filter (\<lambda>i. i \<in> P) [0..<length msgs]))
      = filter (lasting \<circ> (!) msgs) [0..<length msgs]"
    unfolding filter_filter by (rule filter_cong) (use assms some in auto)
  ultimately show ?thesis unfolding filter_map by simp
qed

text \<open>
  C20: A history that does not end in a summary, and whose fragments carry no tool calls, is
  handed on after a compaction with every tool call answered and every answer called for, with
  exactly one summary, the fresh one, as its last message, and with the instruction and what the
  user said each as often and in the order it had; and it is not compacted again: its own plan
  summarises nothing.
\<close>

theorem compacted_history:
  assumes "valid_order ord" "fragments_plain msgs" "\<not> lastMessageIsSummary msgs" "Plan ord msgs keep = Some pl"
    and "out = AssembleWithMap msgs pl summary mapText"
  shows "answered out \<and> last out = Some (MarkFragment KindSummary summary)
    \<and> filter IsSummaryMessage out = [Some (MarkFragment KindSummary summary)]
    \<and> filter lasting out = filter lasting msgs
    \<and> (\<exists>again. Plan ord' out keep' = Some again \<and> pr_summarize again = [])"
proof -
  note p = plan_facts [OF assms(1-4)]
  let ?pins = "pinnedMessages msgs pl"
  let ?new = "(if mapText \<noteq> [] then [Some (MarkFragment KindEvictionMap mapText)] else []) @ [Some (MarkFragment KindSummary summary)]"
  let ?kinds = "(if mapText \<noteq> [] then [KindEvictionMap] else []) @ [KindSummary]"
  have out: "out = StripFragments ?pins ?kinds @ ?new" by (simp add: assms(5) AssembleWithMap_def Let_def)
  have sub: "set ?pins \<subseteq> set msgs" unfolding pinnedMessages_def using nth_mem by (auto simp del: not_None_eq)
  have "speaks_only m" if "m \<in> set ?pins" "parseFragment m \<noteq> None" for m
  proof (cases m)
    case (Some u)
    then have "Some u \<in> set msgs" "parseFragment (Some u) \<noteq> None" using that sub by blast+
    then show ?thesis using assms(2) Some by (simp add: fragments_plain_def speaks_only_def)
  qed (simp add: speaks_only_def)
  moreover have pins: "?pins = map ((!) msgs) (filter (\<lambda>i. i < length msgs \<and> msgs ! i \<noteq> None)
      (filter (\<lambda>i. i \<in> set (pr_pinned pl)) [0..<length msgs]))"
    unfolding pinnedMessages_def
    by (rule arg_cong [OF p(1), of "\<lambda>l. map ((!) msgs) (filter (\<lambda>i. i < length msgs \<and> msgs ! i \<noteq> None) l)"])
  then have "answered ?pins" using paired_answered [OF p(2,3)] by simp
  ultimately have a: "answered out"
    unfolding out by (intro answered_append_plain answered_strip) auto
  have l: "last out = Some (MarkFragment KindSummary summary)" by (simp add: out)
  have "filter IsSummaryMessage out = [Some (MarkFragment KindSummary summary)]"
    unfolding out filter_append filter_summary_strip by (simp add: IsSummaryMessage_def)
  moreover have "filter lasting out = filter lasting msgs"
  proof -
    have "filter lasting ?new = []" by (simp add: lasting_def)
    moreover have "filter lasting ?pins = filter lasting msgs"
      unfolding pins by (rule lasting_pinned) (use p(4) in \<open>auto simp: lasting_def\<close>)
    ultimately show ?thesis unfolding out filter_append lasting_strip by simp
  qed
  moreover have "\<exists>again. Plan ord' out keep' = Some again \<and> pr_summarize again = []"
    using l by (auto simp: Plan_def lastMessageIsSummary_def IsSummaryMessage_def)
  ultimately show ?thesis using a l by blast
qed

section \<open>Where the plan summarises a summary alone\<close>

definition talk_history :: chat_history where
  "talk_history = [Some (plain_message User ''add a flag''), Some (MarkFragment KindSummary ''so far''),
     Some (plain_message User ''and a test''), Some (plain_message Assistant ''added''),
     Some (plain_message User ''thanks''), Some (plain_message Assistant ''bye'')]"

text \<open>
  A conversation that goes on for two turns after a compaction has everything pinned but
  the summary, so the next plan summarises the summary alone: the guard keeps it from being
  unpinned, but nothing had pinned it.
\<close>

theorem summary_summarised_alone:
  assumes "valid_order ord"
  shows "Plan ord talk_history 2 = Some \<lparr>pr_pinned = [0, 2, 3, 4, 5], pr_summarize = [1], pr_paths = []\<rparr>"
proof -
  let ?P = "first_pins talk_history (tail_start talk_history 2) []"
  have P: "?P = {0, 2, 3, 4, 5}" by code_simp
  have len: "length talk_history = 6" by (simp add: talk_history_def)
  have speaks: "speaks_only (talk_history ! i)" if "i < 6" for i
  proof -
    have "list_all (\<lambda>i. speaks_only (talk_history ! i)) [0..<6]" by code_simp
    with that show ?thesis by (simp add: list_all_iff)
  qed
  obtain Q R where q: "EnforceToolCallPairs ord talk_history ?P = Some Q" "within talk_history Q R"
      "traced talk_history ?P (Q, R, False)"
    using enforce_result [OF assms first_pins_bound] by blast
  have "Q = ?P"
  proof
    have "i \<in> ?P" if i: "i \<in> closure talk_history ?P" for i
    proof -
      obtain p where "p \<in> ?P" "(needs talk_history)\<^sup>*\<^sup>* p i" using i unfolding closure_def by blast
      moreover have "p < 6" using \<open>p \<in> ?P\<close> P by auto
      ultimately show ?thesis using speaks_only_free(1) [OF speaks] by (metis converse_rtranclpE)
    qed
    then show "Q \<subseteq> ?P" using q(3) by (auto simp: traced_def)
    have "i \<notin> R" if "i < 6" for i
      using q(3) speaks_only_free(3) [OF speaks [OF that]] by (auto simp: traced_def)
    then show "?P \<subseteq> Q" using q(3) P by (auto simp: traced_def)
  qed
  then have e: "EnforceToolCallPairs ord talk_history ?P = Some {0, 2, 3, 4, 5}" using q(1) P by simp
  have paths: "deriveWorkingSetPaths talk_history [tail_start talk_history 2..<length talk_history] = []" by code_simp
  have unpin: "unpinStaleSummaries talk_history {0, 2, 3, 4, 5} = {0, 2, 3, 4, 5}" by code_simp
  have l: "(talk_history = []) = False" "lastMessageIsSummary talk_history = False" by code_simp+
  have f: "filter (\<lambda>i. i \<in> {0, 2, 3, 4, 5}) [0..<length talk_history] = [0, 2, 3, 4, 5]"
    "filter (\<lambda>i. i \<notin> {0, 2, 3, 4, 5}) [0..<length talk_history] = [1]" by code_simp+
  show ?thesis
    unfolding Plan_def Let_def paths e option.case unpin l if_False f ..
qed

lemma summary_summarised_alone_witness:
  "Plan ascending talk_history 2 = Some \<lparr>pr_pinned = [0, 2, 3, 4, 5], pr_summarize = [1], pr_paths = []\<rparr>"
  by (rule summary_summarised_alone [OF sample_orders(1)])

definition work_history :: chat_history where
  "work_history = [Some (plain_message System ''be brief''), Some (plain_message User ''fix the bug''),
     calling [''c1''], answering ''c1'', Some (plain_message Assistant ''done''), Some (plain_message User ''thanks'')]"

lemma work_history_plain: "fragments_plain work_history" "\<not> lastMessageIsSummary work_history"
proof -
  have "list_all (\<lambda>m. parseFragment m = None) work_history" by code_simp
  then show "fragments_plain work_history" by (fastforce simp: fragments_plain_def list_all_iff)
  show "\<not> lastMessageIsSummary work_history" by code_simp
qed

lemma plan_keeps_what_matters_witness:
  "\<exists>pl. Plan ascending work_history 1 = Some pl \<and> {0, 1, 5} \<subseteq> set (pr_pinned pl) \<and> paired work_history (set (pr_pinned pl))"
proof -
  obtain pl where pl: "Plan ascending work_history 1 = Some pl" using Plan_returns [OF sample_orders(1)] by blast
  have i: "i < length work_history \<and> speaks_only (work_history ! i) \<and> (pinInitialContext (work_history ! i) \<or> isUserOriginal (work_history ! i))"
    if "i \<in> {0, 1, 5}" for i
  proof -
    have "list_all (\<lambda>i. i < length work_history \<and> speaks_only (work_history ! i) \<and>
        (pinInitialContext (work_history ! i) \<or> isUserOriginal (work_history ! i))) [0, 1, 5]" by code_simp
    with that show ?thesis by (auto simp: list_all_iff)
  qed
  from plan_keeps_what_matters [OF sample_orders(1) work_history_plain pl]
  have k: "paired work_history (set (pr_pinned pl))"
    "\<forall>i < length work_history. speaks_only (work_history ! i) \<and> (pinInitialContext (work_history ! i) \<or> isUserOriginal (work_history ! i))
      \<longrightarrow> i \<in> set (pr_pinned pl)" by blast+
  have "{0, 1, 5} \<subseteq> set (pr_pinned pl)" using k(2) i by blast
  with k(1) pl show ?thesis by simp
qed

lemma compacted_history_witness:
  "\<exists>pl. Plan ascending work_history 1 = Some pl \<and> answered (AssembleWithMap work_history pl ''so far'' ''map'')
    \<and> filter lasting (AssembleWithMap work_history pl ''so far'' ''map'') =
        [Some (plain_message System ''be brief''), Some (plain_message User ''fix the bug''), Some (plain_message User ''thanks'')]"
proof -
  obtain pl where pl: "Plan ascending work_history 1 = Some pl" using Plan_returns [OF sample_orders(1)] by blast
  have "filter lasting work_history =
      [Some (plain_message System ''be brief''), Some (plain_message User ''fix the bug''), Some (plain_message User ''thanks'')]"
    by code_simp
  then show ?thesis
    using compacted_history [OF sample_orders(1) work_history_plain pl refl, of "''so far''" "''map''" ascending 1] pl by simp
qed

end
