(* ===== verification/CtxFold.thy ===== *)
theory CtxFold
  imports CtxPlan Utf8
begin

text \<open>
  The token budget of a compaction (\<open>internal/ctxcompact/budget.go\<close>) and the folding of older
  tool results (\<open>fold.go\<close>).  The estimate of a message's tokens is an argument: it is a sum of
  floating point weights.  The pressure is a quotient of two counts compared with one half and
  three quarters; both are binary fractions, so for counts below \<open>2^53\<close> Go's comparison is the
  one of the integers written here.
\<close>

section \<open>The budget\<close>

record run_opts =
  ro_window :: int
  ro_reserve :: int

definition DefaultOutputReserve :: int where "DefaultOutputReserve = 4096"
definition defaultReserveDenominator :: int where "defaultReserveDenominator = 4"
definition maxOutputReserveDenominator :: int where "maxOutputReserveDenominator = 2"

definition effectiveReserve :: "int \<Rightarrow> int \<Rightarrow> int" where
  "effectiveReserve window configured =
     (if window \<le> 0 then 0
      else if configured \<le> 0 then
        (if window div defaultReserveDenominator > DefaultOutputReserve then DefaultOutputReserve
         else window div defaultReserveDenominator)
      else if configured > window div maxOutputReserveDenominator then window div maxOutputReserveDenominator
      else configured)"

definition budgetFor :: "run_opts \<Rightarrow> int" where
  "budgetFor o1 = (if ro_window o1 \<le> 0 then 0 else ro_window o1 - effectiveReserve (ro_window o1) (ro_reserve o1))"

record overflow_error =
  oe_tokens :: int
  oe_limit :: int
  oe_window :: int
  oe_reserve :: int

definition checkOverflow :: "int \<Rightarrow> run_opts \<Rightarrow> overflow_error option" where
  "checkOverflow tokens o1 =
     (let limit = budgetFor o1 in
      if limit \<le> 0 \<or> tokens \<le> limit then None
      else Some \<lparr>oe_tokens = tokens, oe_limit = limit, oe_window = ro_window o1,
                 oe_reserve = effectiveReserve (ro_window o1) (ro_reserve o1)\<rparr>)"

definition EstimateTokens :: "(ctx_message option \<Rightarrow> int) \<Rightarrow> chat_history \<Rightarrow> int" where
  "EstimateTokens est msgs = sum_list (map est msgs)"

definition CheckContextLimit :: "(ctx_message option \<Rightarrow> int) \<Rightarrow> chat_history \<Rightarrow> run_opts \<Rightarrow> overflow_error option" where
  "CheckContextLimit est msgs o1 = checkOverflow (EstimateTokens est msgs) o1"

definition RemainingBudget :: "(ctx_message option \<Rightarrow> int) \<Rightarrow> chat_history \<Rightarrow> run_opts \<Rightarrow> int" where
  "RemainingBudget est msgs o1 = (if ro_window o1 \<le> 0 then 0 else budgetFor o1 - EstimateTokens est msgs)"

text \<open>The reply never takes more than half of a window, so at least half is left for the input.\<close>

lemma budget_bounds:
  assumes "0 < ro_window o1"
  shows "ro_window o1 \<le> 2 * budgetFor o1" "budgetFor o1 \<le> ro_window o1" "0 < budgetFor o1"
  using assms by (auto simp: budgetFor_def effectiveReserve_def DefaultOutputReserve_def defaultReserveDenominator_def
      maxOutputReserveDenominator_def)

text \<open>
  The gate before a request refuses a history exactly when the number the model is told is
  left is negative, and the error carries that deficit; the limit is at least half the window.
\<close>

theorem gate_agrees_with_remaining:
  "(CheckContextLimit est msgs o1 \<noteq> None \<longleftrightarrow> RemainingBudget est msgs o1 < 0) \<and>
   (\<forall>e. CheckContextLimit est msgs o1 = Some e \<longrightarrow>
      oe_limit e - oe_tokens e = RemainingBudget est msgs o1 \<and> oe_window e \<le> 2 * oe_limit e \<and> oe_limit e = oe_window e - oe_reserve e)"
proof (cases "0 < ro_window o1")
  case True
  then show ?thesis
    using budget_bounds [OF True]
    by (auto simp: CheckContextLimit_def checkOverflow_def RemainingBudget_def Let_def budgetFor_def [of o1])
next
  case False
  then show ?thesis
    by (simp add: CheckContextLimit_def checkOverflow_def RemainingBudget_def budgetFor_def)
qed

lemma gate_agrees_with_remaining_witness:
  "RemainingBudget (\<lambda>_. 70) [None] \<lparr>ro_window = 100, ro_reserve = 40\<rparr> = - 10
   \<and> CheckContextLimit (\<lambda>_. 70) [None] \<lparr>ro_window = 100, ro_reserve = 40\<rparr> \<noteq> None"
  using gate_agrees_with_remaining [of "\<lambda>_. 70" "[None]" "\<lparr>ro_window = 100, ro_reserve = 40\<rparr>"]
  by (simp add: RemainingBudget_def budgetFor_def effectiveReserve_def EstimateTokens_def maxOutputReserveDenominator_def)

section \<open>Folding\<close>

datatype fold_tier = FoldNone | FoldTruncated | FoldDigest

definition FoldKeepRecent :: nat where "FoldKeepRecent = 5"
definition foldHeadLines :: nat where "foldHeadLines = 12"
definition foldTailLines :: nat where "foldTailLines = 8"
definition foldMinRunes :: nat where "foldMinRunes = 400"

record fold_options =
  fo_budget :: int
  fo_keep_recent :: int
  fo_keep_set :: bool

record fold_stats =
  fs_considered :: nat
  fs_truncated :: nat
  fs_digested :: nat
  fs_before :: int
  fs_after :: int

definition foldKeepRecent :: "fold_options \<Rightarrow> nat" where
  "foldKeepRecent o1 = (if \<not> fo_keep_set o1 then FoldKeepRecent else nat (max 0 (fo_keep_recent o1)))"

definition isToolResult :: "ctx_message option \<Rightarrow> bool" where
  "isToolResult m = (case m of None \<Rightarrow> False | Some m \<Rightarrow> cm_role m = Tool \<and> cm_call_id m \<noteq> [])"

text \<open>\<open>PressureFold\<close> of \<open>ToolResultPressure\<close>, on the two counts.\<close>

definition tool_tokens :: "(ctx_message option \<Rightarrow> int) \<Rightarrow> chat_history \<Rightarrow> int" where
  "tool_tokens est msgs = sum_list (map est (filter isToolResult msgs))"

definition pressure_tier :: "int \<Rightarrow> int \<Rightarrow> fold_tier" where
  "pressure_tier tokens budget =
     (if budget \<le> 0 then FoldNone
      else if 4 * tokens \<ge> 3 * budget then FoldDigest
      else if 2 * tokens \<ge> budget then FoldTruncated
      else FoldNone)"

text \<open>\<open>strings.Index\<close> and \<open>strings.LastIndex\<close>.\<close>

fun index_of :: "string \<Rightarrow> string \<Rightarrow> nat option" where
  "index_of [] sub = (if sub = [] then Some 0 else None)"
| "index_of (c # s) sub = (if prefix sub (c # s) then Some 0 else map_option Suc (index_of s sub))"

fun last_index_of :: "string \<Rightarrow> string \<Rightarrow> nat option" where
  "last_index_of [] sub = (if sub = [] then Some 0 else None)"
| "last_index_of (c # s) sub =
     (case last_index_of s sub of Some k \<Rightarrow> Some (Suc k)
      | None \<Rightarrow> if prefix sub (c # s) then Some 0 else None)"

definition arrow_rune :: string where "arrow_rune = [CHR 0xE2, CHR 0x86, CHR 0x92]"
definition ellipsis_rune :: string where "ellipsis_rune = [CHR 0xE2, CHR 0x80, CHR 0xA6]"

definition spillMarkerPrefix :: string where
  "spillMarkerPrefix = ''[spilled: ''"

definition spillPathIn :: "string \<Rightarrow> string" where
  "spillPathIn body =
     (case index_of body spillMarkerPrefix of None \<Rightarrow> []
      | Some i \<Rightarrow>
          let rest = drop (i + length spillMarkerPrefix) body in
          (case index_byte rest (CHR '']'') of None \<Rightarrow> []
           | Some e \<Rightarrow>
               let header = take e rest in
               (case last_index_of header arrow_rune of None \<Rightarrow> []
                | Some a \<Rightarrow> trim_space (drop (a + length arrow_rune) header))))"

definition foldMarker :: "string \<Rightarrow> ctx_message \<Rightarrow> string" where
  "foldMarker body m =
     (if spillPathIn body \<noteq> [] then ''full text: fs_read('' @ [dquote] @ spillPathIn body @ [dquote] @ '')''
      else if cm_call_id m \<noteq> [] then ''recover via history_search for tool_call '' @ cm_call_id m
      else ''full text not retained'')"

definition firstNonEmptyLine :: "string \<Rightarrow> string" where
  "firstNonEmptyLine s =
     (case find (\<lambda>l. trim_space l \<noteq> []) (split_byte s newline_c) of Some l \<Rightarrow> l | None \<Rightarrow> [])"

definition firstRunes :: "string \<Rightarrow> nat \<Rightarrow> string" where
  "firstRunes s n = (if rune_count s \<le> n then s else concat (take n (runes s)) @ ellipsis_rune)"

definition digestBody :: "string \<Rightarrow> ctx_message \<Rightarrow> string" where
  "digestBody body m =
     (let lines = length (filter (\<lambda>c. c = newline_c) body) + 1;
          first = trim_space (firstNonEmptyLine body);
          digest = ''[folded tool result: '' @ itoa (int lines) @ '' lines, '' @ itoa (int (length body)) @ '' bytes; ''
                   @ foldMarker body m @ '']'' in
      if first \<noteq> [] then digest @ newline_c # firstRunes first 120 else digest)"

definition truncateBody :: "string \<Rightarrow> ctx_message \<Rightarrow> string" where
  "truncateBody body m =
     (let lines = split_byte body newline_c in
      if length lines \<le> foldHeadLines + foldTailLines then digestBody body m
      else join_byte newline_c (take foldHeadLines lines) @ newline_c # ''[... ''
           @ itoa (int (length lines - foldHeadLines - foldTailLines)) @ '' lines folded out of context; ''
           @ foldMarker body m @ '' ...]'' @ newline_c # join_byte newline_c (drop (length lines - foldTailLines) lines))"

definition foldOne :: "ctx_message \<Rightarrow> fold_tier \<Rightarrow> ctx_message \<times> fold_tier" where
  "foldOne m tier =
     (let body = cm_content m in
      if rune_count body < foldMinRunes \<or> tier = FoldNone then (m, FoldNone)
      else let replacement = (if tier = FoldDigest then digestBody body m else truncateBody body m) in
        if length replacement \<ge> length body then (m, FoldNone)
        else (m\<lparr>cm_content := replacement\<rparr>, tier))"

text \<open>The walk from the newest message back; \<open>seen\<close> counts the tool results passed.\<close>

fun fold_back :: "fold_tier \<Rightarrow> nat \<Rightarrow> nat \<Rightarrow> chat_history \<Rightarrow> fold_stats \<Rightarrow> chat_history \<times> fold_stats" where
  "fold_back tier keep seen [] st = ([], st)"
| "fold_back tier keep seen (m # ms) st =
     (if \<not> isToolResult m
      then (case fold_back tier keep seen ms st of (ms', st') \<Rightarrow> (m # ms', st'))
      else let st = st\<lparr>fs_considered := fs_considered st + 1\<rparr> in
        if seen < keep
        then (case fold_back tier keep (seen + 1) ms st of (ms', st') \<Rightarrow> (m # ms', st'))
        else (case foldOne (the m) tier of
                (folded, applied) \<Rightarrow>
                  let st = (case applied of FoldNone \<Rightarrow> st
                            | FoldTruncated \<Rightarrow> st\<lparr>fs_truncated := fs_truncated st + 1\<rparr>
                            | FoldDigest \<Rightarrow> st\<lparr>fs_digested := fs_digested st + 1\<rparr>) in
                  (case fold_back tier keep (seen + 1) ms st of (ms', st') \<Rightarrow> (Some folded # ms', st'))))"

definition FoldToolResults :: "(ctx_message option \<Rightarrow> int) \<Rightarrow> chat_history \<Rightarrow> fold_options \<Rightarrow> chat_history \<times> fold_stats" where
  "FoldToolResults est msgs o1 =
     (let before = EstimateTokens est msgs;
          st = \<lparr>fs_considered = 0, fs_truncated = 0, fs_digested = 0, fs_before = before, fs_after = before\<rparr> in
      if msgs = [] \<or> fo_budget o1 \<le> 0 then (msgs, st)
      else let tier = pressure_tier (tool_tokens est msgs) (fo_budget o1) in
        if tier = FoldNone then (msgs, st)
        else (case fold_back tier (foldKeepRecent o1) 0 (rev msgs) st of
                (ms, st') \<Rightarrow> (rev ms, st'\<lparr>fs_after := EstimateTokens est (rev ms)\<rparr>)))"

section \<open>What folding leaves alone\<close>

text \<open>A message and what folding may make of it: only the content, and only shorter.\<close>

definition folded_from :: "ctx_message option \<Rightarrow> ctx_message option \<Rightarrow> bool" where
  "folded_from m m' \<longleftrightarrow> m' = m \<or>
     (isToolResult m \<and> (\<exists>u body. m = Some u \<and> m' = Some (u\<lparr>cm_content := body\<rparr>) \<and> length body < length (cm_content u)))"

lemma foldOne_folded: "isToolResult (Some u) \<Longrightarrow> folded_from (Some u) (Some (fst (foldOne u tier)))"
  by (auto simp: foldOne_def folded_from_def Let_def)

lemma fold_back_folded: "list_all2 folded_from ms (fst (fold_back tier keep seen ms st))"
proof (induction tier keep seen ms st rule: fold_back.induct)
  case (2 tier keep seen m ms st)
  show ?case
  proof (cases "isToolResult m \<and> \<not> seen < keep")
    case True
    then obtain u where u: "m = Some u" by (auto simp: isToolResult_def split: option.splits)
    obtain folded applied where f: "foldOne u tier = (folded, applied)" by fastforce
    have "folded_from m (Some folded)" using foldOne_folded [of u tier] True u f by simp
    with True 2(3) u f show ?thesis by (simp add: Let_def case_prod_beta)
  next
    case False
    then show ?thesis using 2(1,2) by (auto simp: Let_def case_prod_beta folded_from_def)
  qed
qed simp

text \<open>The tool results that are kept: those among the first \<open>n\<close> of the walk.\<close>

lemma fold_back_recent:
  "length (filter isToolResult (take i ms)) + seen < keep \<Longrightarrow> i < length ms \<Longrightarrow>
     fst (fold_back tier keep seen ms st) ! i = ms ! i"
proof (induction tier keep seen ms st arbitrary: i rule: fold_back.induct)
  case (2 tier keep seen m ms st)
  show ?case
  proof (cases i)
    case 0
    then have "isToolResult m \<longrightarrow> seen < keep" using 2(4) by simp
    with 0 show ?thesis by (auto simp: Let_def case_prod_beta)
  next
    case (Suc j)
    show ?thesis
    proof (cases "isToolResult m")
      case True
      then have "length (filter isToolResult (take j ms)) + (seen + 1) < keep" "j < length ms" "seen < keep"
        using 2(4,5) Suc by simp_all
      with 2(2) [OF _ refl] True Suc show ?thesis by (simp add: Let_def case_prod_beta)
    next
      case False
      then show ?thesis using 2(1) [of j] 2(4,5) Suc by (simp add: case_prod_beta)
    qed
  qed
qed simp

text \<open>
  Folding keeps the length and the order of a history; a message it changes is a tool
  result, whose content alone is replaced, by a shorter one; and whatever the pressure, the
  tool results among the last \<open>keep\<close> ones stay as they are.
\<close>

theorem folding_is_shallow:
  assumes "FoldToolResults est msgs o1 = (out, stats)"
  shows "list_all2 folded_from msgs out
    \<and> (\<forall>i < length msgs. length (filter isToolResult (drop (Suc i) msgs)) < foldKeepRecent o1 \<longrightarrow> out ! i = msgs ! i)
    \<and> (fo_budget o1 > 2 * tool_tokens est msgs \<longrightarrow> out = msgs)"
proof -
  have same: "list_all2 folded_from msgs msgs" by (simp add: folded_from_def list_all2_same)
  show ?thesis
  proof (cases "msgs = [] \<or> fo_budget o1 \<le> 0 \<or> pressure_tier (tool_tokens est msgs) (fo_budget o1) = FoldNone")
    case True
    then have "out = msgs" using assms by (auto simp: FoldToolResults_def Let_def split: if_splits)
    with same show ?thesis by simp
  next
    case False
    let ?tier = "pressure_tier (tool_tokens est msgs) (fo_budget o1)"
    let ?st = "\<lparr>fs_considered = 0, fs_truncated = 0, fs_digested = 0, fs_before = EstimateTokens est msgs, fs_after = EstimateTokens est msgs\<rparr>"
    have out: "out = rev (fst (fold_back ?tier (foldKeepRecent o1) 0 (rev msgs) ?st))"
      using assms False by (auto simp: FoldToolResults_def Let_def case_prod_beta)
    have l: "list_all2 folded_from (rev msgs) (fst (fold_back ?tier (foldKeepRecent o1) 0 (rev msgs) ?st))"
      by (rule fold_back_folded)
    then have a: "list_all2 folded_from msgs out" unfolding out by (metis list_all2_rev rev_rev_ident)
    have "out ! i = msgs ! i" if i: "i < length msgs" "length (filter isToolResult (drop (Suc i) msgs)) < foldKeepRecent o1" for i
    proof -
      let ?j = "length msgs - Suc i"
      have len: "length (fst (fold_back ?tier (foldKeepRecent o1) 0 (rev msgs) ?st)) = length msgs"
        using l by (simp add: list_all2_lengthD [OF l, symmetric])
      have "take ?j (rev msgs) = rev (drop (Suc i) msgs)" using i(1) by (simp add: take_rev)
      then have "length (filter isToolResult (take ?j (rev msgs))) + 0 < foldKeepRecent o1"
        using i(2) by (simp add: rev_filter [symmetric])
      from fold_back_recent [OF this, of ?tier ?st] i(1)
      have "fst (fold_back ?tier (foldKeepRecent o1) 0 (rev msgs) ?st) ! ?j = rev msgs ! ?j" by simp
      then show ?thesis unfolding out using i(1) len by (simp add: rev_nth)
    qed
    moreover have "\<not> fo_budget o1 > 2 * tool_tokens est msgs"
      using False by (auto simp: pressure_tier_def split: if_splits)
    ultimately show ?thesis using a by blast
  qed
qed

lemma folding_is_shallow_witness:
  "list_all2 folded_from [answering ''c1''] (fst (FoldToolResults (\<lambda>_. 9) [answering ''c1'']
     \<lparr>fo_budget = 10, fo_keep_recent = 0, fo_keep_set = True\<rparr>))"
  using folding_is_shallow [OF prod.collapse [symmetric]] by blast

end
