(* ===== verification/Generalize.thy ===== *)
theory Generalize
  imports CommandSplit ShellLite GuardData
begin

text \<open>
  Session approvals as rules (\<open>internal/guard/generalize.go\<close>): an approved command becomes a pair
  of execpolicy rules for its program and leading subcommands, a refused one takes its family
  back for good.  \<open>internal/agent/orchestrator/sessionrules.go\<close> keeps one rule set per
  connection.  The rules are appended to the profile and read by the engine of \<open>ExecPolicy\<close>.
\<close>

section \<open>What is widened\<close>

definition maxGeneralizedPrefix :: nat where "maxGeneralizedPrefix = 2"

definition noGeneralizeVerbs :: "string list" where
  "noGeneralizeVerbs =
     [''rm'', ''rmdir'', ''unlink'', ''shred'', ''rimraf'', ''del'', ''erase'', ''rd'',
      ''dd'', ''mkfs'', ''fdisk'', ''parted'', ''diskutil'',
      ''sudo'', ''su'', ''doas'', ''runas'', ''chmod'', ''chown'', ''chgrp'', ''setfacl'', ''icacls'',
      ''kill'', ''killall'', ''pkill'', ''taskkill'', ''reboot'', ''shutdown'', ''halt'', ''poweroff'',
      ''systemctl'', ''service'', ''launchctl'',
      ''curl'', ''wget'', ''ssh'', ''scp'', ''rsync'', ''nc'', ''ncat'', ''telnet'',
      ''sh'', ''bash'', ''zsh'', ''dash'', ''ksh'',
      ''python'', ''python3'', ''perl'', ''ruby'', ''node'',
      ''powershell'', ''pwsh'', ''cmd'', ''eval'', ''env'']"

definition dangerousFlags :: "string list" where
  "dangerousFlags =
     [''--force'', ''-f'', ''--hard'', ''--no-verify'', ''--force-with-lease'',
      ''--delete'', ''--prune'', ''-D'', ''--all'', ''--recursive'', ''-r'', ''-R'',
      ''--privileged'', ''--unsafe-perm'', ''--allow-root'', ''--no-preserve-root'']"

definition familyKey :: "string \<Rightarrow> string list \<Rightarrow> string" where
  "familyKey program pre = (if pre = [] then program else program @ '' '' @ join_byte (CHR '' '') pre)"

definition value_bytes :: string where
  "value_bytes = [CHR ''/'', bslash, CHR ''*'', CHR ''?'', CHR ''$'', CHR ''~'', CHR ''='', CHR ''%'', dquote, squote]"

definition subcommandLike :: "string \<Rightarrow> bool" where
  "subcommandLike arg \<longleftrightarrow>
     arg \<noteq> [] \<and> \<not> prefix ''-'' arg \<and> \<not> list_ex (\<lambda>c. c \<in> set value_bytes) arg \<and> \<not> prefix ''.'' arg
     \<and> list_all (\<lambda>c. byte c \<le> 127) arg"

definition generalizedPrefix :: "string list \<Rightarrow> string list" where
  "generalizedPrefix args = take maxGeneralizedPrefix (takeWhile subcommandLike args)"

section \<open>The rule set of a session\<close>

record rule_set =
  rs_rules :: "rule list"
  rs_families :: "string \<rightharpoonup> nat"
  rs_demoted :: "string set"
  rs_seq :: int

definition no_rules :: rule_set where
  "no_rules = \<lparr>rs_rules = [], rs_families = Map.empty, rs_demoted = {}, rs_seq = 0\<rparr>"

record generalized_approval =
  gz_rules :: "rule list"
  gz_family :: string
  gz_widened :: bool
  gz_reason :: string

definition ruleFamily :: "rule \<Rightarrow> string" where
  "ruleFamily r = familyKey (ru_program r) (ru_prefix r)"

definition approvalRuleID :: "int \<Rightarrow> string \<Rightarrow> string" where
  "approvalRuleID seq kind = ''session-approval-'' @ kind @ ''-'' @ itoa seq"

definition buildRules :: "string \<Rightarrow> string list \<Rightarrow> string \<Rightarrow> rule_set \<Rightarrow> rule list \<times> rule_set" where
  "buildRules program pre family s =
     (let n = rs_seq s + 1 in
      ([\<lparr>ru_id = approvalRuleID n ''guard'', ru_program = program, ru_prefix = pre, ru_decision = ''deny'',
         ru_deny_flags = dangerousFlags,
         ru_justification = ''generalized approval for '' @ family @ '' does not extend to irreversible flags''\<rparr>,
        \<lparr>ru_id = approvalRuleID n ''allow'', ru_program = program, ru_prefix = pre, ru_decision = ''allow'',
         ru_deny_flags = [], ru_justification = ''approved in this session: '' @ family\<rparr>],
       s\<lparr>rs_seq := n\<rparr>))"

fun index_families :: "nat \<Rightarrow> rule list \<Rightarrow> (string \<rightharpoonup> nat) \<Rightarrow> (string \<rightharpoonup> nat)" where
  "index_families i [] fams = fams"
| "index_families i (r # rs) fams =
     index_families (Suc i) rs (if fams (ruleFamily r) = None then fams(ruleFamily r \<mapsto> i) else fams)"

definition reindexLocked :: "rule_set \<Rightarrow> rule_set" where
  "reindexLocked s = s\<lparr>rs_families := index_families 0 (rs_rules s) Map.empty\<rparr>"

definition dropFamilyLocked :: "string \<Rightarrow> rule_set \<Rightarrow> rule_set" where
  "dropFamilyLocked family s =
     (if rs_families s family = None then s
      else reindexLocked (s\<lparr>rs_rules := filter (\<lambda>r. ruleFamily r \<noteq> family) (rs_rules s),
                            rs_families := (rs_families s)(family := None)\<rparr>))"

definition store_rules :: "string \<Rightarrow> rule list \<Rightarrow> rule_set \<Rightarrow> rule_set" where
  "store_rules family rules s =
     (if rules = [] then s
      else let d = dropFamilyLocked family s in
           d\<lparr>rs_families := (rs_families d)(family \<mapsto> length (rs_rules d)), rs_rules := rs_rules d @ rules\<rparr>)"

definition isDemoted :: "rule_set \<Rightarrow> string \<Rightarrow> bool" where
  "isDemoted s family \<longleftrightarrow> family \<in> rs_demoted s"

definition refused_approval :: "string \<Rightarrow> string \<Rightarrow> generalized_approval" where
  "refused_approval family why = \<lparr>gz_rules = [], gz_family = family, gz_widened = False, gz_reason = why\<rparr>"

definition Approve :: "string \<Rightarrow> rule_set \<Rightarrow> generalized_approval \<times> rule_set" where
  "Approve cmd s =
     (if trim_space cmd = [] \<or> hasControlOperator cmd
      then (refused_approval [] ''command is not a single executable segment'', s)
      else case lexShellLite (fst (DecodeANSIC cmd)) of
             None \<Rightarrow> (refused_approval [] ''command could not be tokenized'', s)
           | Some (program, args) \<Rightarrow>
               let pre = generalizedPrefix args; family = familyKey program pre in
               if program \<in> set noGeneralizeVerbs
               then (refused_approval family ''high-risk verb: never widened, so this command asks every time'', s)
               else if isDemoted s family
               then (refused_approval family ''family previously demoted after a refusal: asks every time'', s)
               else case buildRules program pre family s of
                      (rules, s1) \<Rightarrow>
                        (\<lparr>gz_rules = rules, gz_family = family, gz_widened = True,
                          gz_reason = ''widened to program + subcommand prefix''\<rparr>, store_rules family rules s1))"

text \<open>The exact key first, then each shorter one.\<close>

definition demote_family :: "string \<Rightarrow> bool \<times> rule_set \<Rightarrow> bool \<times> rule_set" where
  "demote_family fam bs =
     (case bs of (hit, s) \<Rightarrow>
        let (hit', s') = (if rs_families s fam \<noteq> None then (True, dropFamilyLocked fam s) else (hit, s)) in
        (hit', s'\<lparr>rs_demoted := insert fam (rs_demoted s')\<rparr>))"

definition demotion_keys :: "string \<Rightarrow> string list \<Rightarrow> string list" where
  "demotion_keys program args =
     (let pre = generalizedPrefix args in
      map (\<lambda>i. familyKey program (take i pre)) (rev [0..<Suc (length pre)]))"

definition Demote :: "string \<Rightarrow> rule_set \<Rightarrow> bool \<times> rule_set" where
  "Demote cmd s =
     (case lexShellLite (fst (DecodeANSIC cmd)) of
        None \<Rightarrow> (False, s)
      | Some (program, args) \<Rightarrow> fold demote_family (demotion_keys program args) (False, s))"

definition WithSessionRules :: "rule_set \<Rightarrow> permission_profile \<Rightarrow> permission_profile" where
  "WithSessionRules s p =
     (if rs_rules s = [] \<or> sp_rules (pp_shell p) = [] then p
      else p\<lparr>pp_shell := (pp_shell p)\<lparr>sp_rules := sp_rules (pp_shell p) @ rs_rules s\<rparr>\<rparr>)"

section \<open>The rule sets of the connections\<close>

type_synonym session_rules = "string \<rightharpoonup> rule_set"

text \<open>\<open>SessionRules\<close>: \<^const>\<open>None\<close> for a caller without a connection, else the set and the table with it.\<close>

definition SessionRules :: "string \<Rightarrow> session_rules \<Rightarrow> rule_set option \<times> session_rules" where
  "SessionRules sid m =
     (if sid = [] then (None, m)
      else case m sid of
             Some s \<Rightarrow> (Some s, m)
           | None \<Rightarrow> (Some no_rules, m(sid \<mapsto> no_rules)))"

definition ApproveShellForSession :: "string \<Rightarrow> string \<Rightarrow> session_rules \<Rightarrow> bool \<times> session_rules" where
  "ApproveShellForSession sid cmd m =
     (case SessionRules sid m of
        (None, m') \<Rightarrow> (False, m')
      | (Some s, m') \<Rightarrow> if cmd = [] then (False, m')
          else case Approve cmd s of (g, s') \<Rightarrow> (gz_widened g, m'(sid \<mapsto> s')))"

definition DemoteShellForSession :: "string \<Rightarrow> string \<Rightarrow> session_rules \<Rightarrow> bool \<times> session_rules" where
  "DemoteShellForSession sid cmd m =
     (case SessionRules sid m of
        (None, m') \<Rightarrow> (False, m')
      | (Some s, m') \<Rightarrow> if cmd = [] then (False, m')
          else case Demote cmd s of (hit, s') \<Rightarrow> (hit, m'(sid \<mapsto> s')))"

definition ReleaseSession :: "string \<Rightarrow> session_rules \<Rightarrow> session_rules" where
  "ReleaseSession sid m = (if sid = [] then m else m(sid := None))"

definition profileForSession :: "permission_profile \<Rightarrow> string \<Rightarrow> session_rules \<Rightarrow> permission_profile \<times> session_rules" where
  "profileForSession p sid m =
     (case SessionRules sid m of
        (None, m') \<Rightarrow> (p, m')
      | (Some s, m') \<Rightarrow> (WithSessionRules s p, m'))"

end
