(* ===== verification/GeneralizeProps.thy ===== *)
theory GeneralizeProps
  imports Generalize
begin

text \<open>
  What session approvals can and cannot do: the rules of a session, over any history of
  approvals and refusals, and the verdicts the engine gives with them appended to a profile.
\<close>

section \<open>Histories\<close>

datatype rule_event = Approved string | Refused string

definition rule_step :: "rule_event \<Rightarrow> rule_set \<Rightarrow> rule_set" where
  "rule_step ev s = (case ev of Approved c \<Rightarrow> snd (Approve c s) | Refused c \<Rightarrow> snd (Demote c s))"

definition session_after :: "rule_event list \<Rightarrow> rule_set" where
  "session_after evs = fold rule_step evs no_rules"

definition lexed :: "string \<Rightarrow> (string \<times> string list) option" where
  "lexed cmd = lexShellLite (fst (DecodeANSIC cmd))"

text \<open>A rule an approval of the history accounts for.\<close>

definition granted :: "rule_event list \<Rightarrow> rule \<Rightarrow> bool" where
  "granted evs r \<longleftrightarrow>
     (\<exists>cmd args. Approved cmd \<in> set evs \<and> lexed cmd = Some (ru_program r, args) \<and> ru_prefix r = generalizedPrefix args)
     \<and> ru_program r \<notin> set noGeneralizeVerbs"

text \<open>An allow rule has a deny rule beside it, for the same family and with every dangerous flag.\<close>

definition guarded_by :: "rule list \<Rightarrow> rule \<Rightarrow> bool" where
  "guarded_by rs r \<longleftrightarrow>
     (ru_decision r = ''deny'' \<and> ru_deny_flags r = dangerousFlags) \<or>
     (ru_decision r = ''allow'' \<and> (\<exists>g \<in> set rs. ru_decision g = ''deny'' \<and> ru_deny_flags g = dangerousFlags
        \<and> ru_program g = ru_program r \<and> ru_prefix g = ru_prefix r))"

definition rules_ok :: "(rule \<Rightarrow> bool) \<Rightarrow> rule_set \<Rightarrow> bool" where
  "rules_ok P s \<longleftrightarrow>
     dom (rs_families s) = ruleFamily ` set (rs_rules s) \<and>
     (\<forall>r \<in> set (rs_rules s). P r \<and> ru_id r \<noteq> [] \<and> guarded_by (rs_rules s) r \<and> ruleFamily r \<notin> rs_demoted s)"

lemma rules_okD:
  assumes "rules_ok P s" "r \<in> set (rs_rules s)"
  shows "P r" "ru_id r \<noteq> []" "guarded_by (rs_rules s) r" "ruleFamily r \<notin> rs_demoted s"
  using assms by (auto simp: rules_ok_def)

section \<open>The operations keep the invariant\<close>

lemma index_families_dom: "dom (index_families i rs fams) = dom fams \<union> ruleFamily ` set rs"
  by (induction rs arbitrary: i fams) auto

lemma drop_family:
  assumes "rules_ok P s"
  shows "rules_ok P (dropFamilyLocked f s)"
    and "rs_rules (dropFamilyLocked f s) = filter (\<lambda>r. ruleFamily r \<noteq> f) (rs_rules s)"
    and "rs_demoted (dropFamilyLocked f s) = rs_demoted s"
proof -
  have d: "dom (rs_families s) = ruleFamily ` set (rs_rules s)" using assms by (simp add: rules_ok_def)
  have keep: "guarded_by (filter (\<lambda>r. ruleFamily r \<noteq> f) (rs_rules s)) r"
    if r: "r \<in> set (rs_rules s)" "ruleFamily r \<noteq> f" for r
    using rules_okD(3) [OF assms r(1)] r(2) by (auto simp: guarded_by_def ruleFamily_def)
  have none: "filter (\<lambda>r. ruleFamily r \<noteq> f) (rs_rules s) = rs_rules s" if "rs_families s f = None"
    using that d by (auto simp: filter_id_conv domIff)
  show "rs_rules (dropFamilyLocked f s) = filter (\<lambda>r. ruleFamily r \<noteq> f) (rs_rules s)"
    using none by (simp add: dropFamilyLocked_def reindexLocked_def)
  show "rs_demoted (dropFamilyLocked f s) = rs_demoted s"
    by (simp add: dropFamilyLocked_def reindexLocked_def)
  have "rules_ok P (reindexLocked (s\<lparr>rs_rules := filter (\<lambda>r. ruleFamily r \<noteq> f) (rs_rules s),
                            rs_families := (rs_families s)(f := None)\<rparr>))"
    using assms keep by (auto simp: rules_ok_def reindexLocked_def index_families_dom)
  then show "rules_ok P (dropFamilyLocked f s)" using assms by (simp add: dropFamilyLocked_def)
qed

lemma demote_one:
  assumes "rules_ok P s" "demote_family f (b, s) = (b', s')"
  shows "rules_ok P s' \<and> rs_demoted s' = insert f (rs_demoted s)
    \<and> rs_rules s' = filter (\<lambda>r. ruleFamily r \<noteq> f) (rs_rules s)"
proof -
  define d where "d = (if rs_families s f \<noteq> None then dropFamilyLocked f s else s)"
  have eq: "s' = d\<lparr>rs_demoted := insert f (rs_demoted d)\<rparr>"
    using assms(2) by (auto simp: demote_family_def d_def split: if_splits)
  have "dropFamilyLocked f s = s" if "rs_families s f = None" using that by (simp add: dropFamilyLocked_def)
  then have dd: "d = dropFamilyLocked f s" by (simp add: d_def)
  show ?thesis using drop_family [OF assms(1), of f] unfolding eq dd by (auto simp: rules_ok_def)
qed

lemma demote_all:
  assumes "rules_ok P s" "fold demote_family fs (b, s) = (b', s')"
  shows "rules_ok P s' \<and> rs_demoted s' = set fs \<union> rs_demoted s \<and> set (rs_rules s') \<subseteq> set (rs_rules s)"
  using assms
proof (induction fs arbitrary: b s)
  case (Cons f fs)
  obtain b1 s1 where 1: "demote_family f (b, s) = (b1, s1)" by (cases "demote_family f (b, s)")
  from demote_one [OF Cons.prems(1) 1] Cons.IH [of s1 b1] Cons.prems(2) 1 show ?case by auto
qed simp

lemma store_ok:
  assumes "rules_ok P s" "\<not> isDemoted s (familyKey program pre)"
    and "\<And>r. ru_program r = program \<Longrightarrow> ru_prefix r = pre \<Longrightarrow> P r"
    and "buildRules program pre (familyKey program pre) s = (rules, s1)"
  shows "rules_ok P (store_rules (familyKey program pre) rules s1) \<and>
    rs_demoted (store_rules (familyKey program pre) rules s1) = rs_demoted s"
proof -
  let ?f = "familyKey program pre" and ?d = "dropFamilyLocked (familyKey program pre) s1"
  have s1: "s1 = s\<lparr>rs_seq := rs_seq s + 1\<rparr>" using assms(4) by (simp add: buildRules_def Let_def)
  have ok1: "rules_ok P s1" using assms(1) unfolding s1 by (simp add: rules_ok_def)
  have new: "rules \<noteq> []" "\<forall>r \<in> set rules. ru_program r = program \<and> ru_prefix r = pre \<and> ru_id r \<noteq> [] \<and> guarded_by rules r"
    using assms(4) by (auto simp: buildRules_def Let_def approvalRuleID_def guarded_by_def)
  have fam: "ruleFamily r = ?f" if "r \<in> set rules" for r using new(2) that by (simp add: ruleFamily_def)
  have widen: "guarded_by (xs @ ys) r" if "guarded_by xs r \<or> guarded_by ys r" for xs ys r
    using that by (auto simp: guarded_by_def)
  have dom': "dom ((rs_families ?d)(?f \<mapsto> length (rs_rules ?d))) = ruleFamily ` set (rs_rules ?d @ rules)"
    using drop_family(1) [OF ok1, of ?f] new(1) fam by (cases rules) (auto simp: rules_ok_def)
  have dem: "rs_demoted ?d = rs_demoted s" using drop_family(3) [OF ok1] s1 by simp
  have "rules_ok P (?d\<lparr>rs_families := (rs_families ?d)(?f \<mapsto> length (rs_rules ?d)), rs_rules := rs_rules ?d @ rules\<rparr>)"
    using dom' drop_family(1) [OF ok1, of ?f] assms(2,3) new(2) fam widen dem
    by (auto simp: rules_ok_def isDemoted_def)
  then show ?thesis using new(1) dem by (simp add: store_rules_def Let_def)
qed

text \<open>Either nothing is recorded, or the command's program and prefix are.\<close>

lemma Approve_cases:
  obtains "snd (Approve cmd s) = s"
  | program args rules s1 where "lexed cmd = Some (program, args)" "program \<notin> set noGeneralizeVerbs"
      "\<not> isDemoted s (familyKey program (generalizedPrefix args))"
      "buildRules program (generalizedPrefix args) (familyKey program (generalizedPrefix args)) s = (rules, s1)"
      "snd (Approve cmd s) = store_rules (familyKey program (generalizedPrefix args)) rules s1"
proof (cases "lexed cmd")
  case None
  then show ?thesis using that(1) by (simp add: Approve_def lexed_def)
next
  case (Some pa)
  obtain program args where pa: "pa = (program, args)" by (cases pa)
  obtain rules s1 where b:
    "buildRules program (generalizedPrefix args) (familyKey program (generalizedPrefix args)) s = (rules, s1)"
    by (cases "buildRules program (generalizedPrefix args) (familyKey program (generalizedPrefix args)) s")
  show ?thesis
    using that(1) that(2) [OF Some [unfolded pa] _ _ b] Some b pa
    by (cases "program \<in> set noGeneralizeVerbs \<or> isDemoted s (familyKey program (generalizedPrefix args))
        \<or> trim_space cmd = [] \<or> hasControlOperator cmd")
       (auto simp: Approve_def lexed_def Let_def)
qed

lemma step_ok:
  assumes "rules_ok (granted evs) s"
  shows "rules_ok (granted (evs @ [ev])) (rule_step ev s) \<and> rs_demoted s \<subseteq> rs_demoted (rule_step ev s)"
proof -
  have "granted (evs @ [ev]) r" if "granted evs r" for r using that unfolding granted_def by fastforce
  then have w: "rules_ok (granted (evs @ [ev])) s" using assms by (simp add: rules_ok_def)
  show ?thesis
  proof (cases ev)
    case (Approved c)
    show ?thesis
    proof (cases rule: Approve_cases [of c s])
      case 1
      then show ?thesis using w Approved by (simp add: rule_step_def)
    next
      case (2 program args rules s1)
      have "granted (evs @ [ev]) r" if "ru_program r = program" "ru_prefix r = generalizedPrefix args" for r
        using 2(1,2) that Approved by (auto simp: granted_def)
      from store_ok [OF w 2(3) this 2(4)] 2(5) Approved show ?thesis by (simp add: rule_step_def)
    qed
  next
    case (Refused c)
    show ?thesis
    proof (cases "lexed c")
      case None
      then show ?thesis using w Refused by (simp add: rule_step_def Demote_def lexed_def)
    next
      case (Some pa)
      obtain program args where pa: "pa = (program, args)" by (cases pa)
      obtain b' s' where f: "fold demote_family (demotion_keys program args) (False, s) = (b', s')"
        by (cases "fold demote_family (demotion_keys program args) (False, s)")
      from demote_all [OF w f] Some pa f Refused show ?thesis
        by (auto simp: rule_step_def Demote_def lexed_def)
    qed
  qed
qed

lemma history_ok: "rules_ok (granted evs) (session_after evs)"
proof (induction evs rule: rev_induct)
  case Nil
  then show ?case by (simp add: session_after_def rules_ok_def no_rules_def)
next
  case (snoc ev evs)
  then show ?case using step_ok by (simp add: session_after_def)
qed

lemma demoted_grows: "rs_demoted (session_after evs) \<subseteq> rs_demoted (session_after (evs @ later))"
proof (induction later rule: rev_induct)
  case (snoc ev later)
  have "rs_demoted (session_after (evs @ later)) \<subseteq> rs_demoted (rule_step ev (session_after (evs @ later)))"
    using step_ok [OF history_ok] by blast
  with snoc show ?case by (simp add: session_after_def)
qed simp

lemma refused_demoted:
  assumes "lexed cmd = Some (program, args)"
  shows "set (demotion_keys program args) \<subseteq> rs_demoted (session_after (evs @ Refused cmd # later))"
proof -
  obtain b' s' where f: "fold demote_family (demotion_keys program args) (False, session_after evs) = (b', s')"
    by (cases "fold demote_family (demotion_keys program args) (False, session_after evs)")
  have "session_after (evs @ [Refused cmd]) = s'"
    using assms f by (simp add: session_after_def rule_step_def Demote_def lexed_def)
  then have "set (demotion_keys program args) \<subseteq> rs_demoted (session_after (evs @ [Refused cmd]))"
    using demote_all [OF history_ok f] by auto
  then show ?thesis using demoted_grows [of "evs @ [Refused cmd]" later] by simp
qed

section \<open>Verdicts\<close>

lemma has_prefix_args_iff: "has_prefix_args args ps \<longleftrightarrow> prefix ps args"
  by (induction args ps rule: has_prefix_args.induct) auto

lemma generalizedPrefix_words:
  "list_all subcommandLike (generalizedPrefix args)" "length (generalizedPrefix args) \<le> maxGeneralizedPrefix"
  by (auto simp: generalizedPrefix_def list_all_iff dest!: in_set_takeD set_takeWhileD)

lemma prefix_of_generalized:
  assumes "prefix ps args" "list_all subcommandLike ps" "length ps \<le> maxGeneralizedPrefix"
  shows "ps = take (length ps) (generalizedPrefix args)" "length ps \<le> length (generalizedPrefix args)"
proof -
  obtain rest where a: "args = ps @ rest" using assms(1) by (auto simp: prefix_def)
  have "takeWhile subcommandLike args = ps @ takeWhile subcommandLike rest"
    using assms(2) unfolding a by (simp add: takeWhile_append list_all_iff)
  then have g: "generalizedPrefix args = ps @ take (maxGeneralizedPrefix - length ps) (takeWhile subcommandLike rest)"
    using assms(3) by (simp add: generalizedPrefix_def)
  show "ps = take (length ps) (generalizedPrefix args)" "length ps \<le> length (generalizedPrefix args)"
    unfolding g by simp_all
qed

lemma demotion_key:
  assumes "ps = take (length ps) (generalizedPrefix args)" "length ps \<le> length (generalizedPrefix args)"
  shows "familyKey program ps \<in> set (demotion_keys program args)"
  unfolding demotion_keys_def Let_def set_map set_rev set_upt
  by (rule image_eqI [of _ _ "length ps"]) (use assms in auto)

text \<open>The program words of the approved commands are names, as \<^const>\<open>normalize_program\<close> leaves them.\<close>

definition plain_programs :: "rule_event list \<Rightarrow> bool" where
  "plain_programs evs \<longleftrightarrow>
     (\<forall>cmd program args. Approved cmd \<in> set evs \<longrightarrow> lexed cmd = Some (program, args) \<longrightarrow> normalize_program program = program)"

lemma session_rule_plain:
  assumes "plain_programs evs" "r \<in> set (rs_rules (session_after evs))" "rule_applies r seg"
  shows "ru_program r = seg_program seg" "prefix (ru_prefix r) (seg_args seg)"
    "list_all subcommandLike (ru_prefix r)" "length (ru_prefix r) \<le> maxGeneralizedPrefix"
  using rules_okD(1) [OF history_ok assms(2)] assms(1,3) generalizedPrefix_words
  by (auto simp: granted_def plain_programs_def rule_applies_def has_prefix_args_iff)


text \<open>A segment an approval of the history covers: its program and leading words, and no dangerous flag.\<close>

definition covered :: "rule_event list \<Rightarrow> segment \<Rightarrow> bool" where
  "covered evs seg \<longleftrightarrow>
     seg_program seg \<notin> set noGeneralizeVerbs \<and> \<not> contains_any (seg_args seg) dangerousFlags \<and>
     (\<exists>cmd args. Approved cmd \<in> set evs \<and> lexed cmd = Some (seg_program seg, args)
        \<and> prefix (generalizedPrefix args) (seg_args seg))"


section \<open>What the rules of a session are for a command\<close>

definition clean_dry_run :: string where "clean_dry_run = ''git clean -n''"

definition status_rules :: "rule list" where
  "status_rules =
     [\<lparr>ru_id = ''status'', ru_program = ''git'', ru_prefix = [''status''], ru_decision = ''allow'',
       ru_deny_flags = [], ru_justification = []\<rparr>,
      \<lparr>ru_id = ''push'', ru_program = ''git'', ru_prefix = [''push''], ru_decision = ''prompt'',
       ru_deny_flags = [], ru_justification = []\<rparr>]"

definition verdict_after :: "rule_event list \<Rightarrow> string \<Rightarrow> string list \<Rightarrow> string" where
  "verdict_after evs program args =
     pr_verdict (Evaluate (simple_command program args) (status_rules @ rs_rules (session_after evs)))"

text \<open>
  Dangerous flags ride in together.  After an approved dry run of \<open>git clean\<close> the flag \<open>-f\<close>
  alone is refused, but \<open>-fd\<close> is no flag of the list and is allowed without a question.
\<close>

theorem combined_flags_ride_in:
  "verdict_after [Approved clean_dry_run] ''git'' [''clean'', ''-f''] = ''hard_deny''
   \<and> verdict_after [] ''git'' [''clean'', ''-fd''] = ''hard_deny''
   \<and> verdict_after [Approved clean_dry_run] ''git'' [''clean'', ''-fd''] = ''allow''"
  by code_simp

text \<open>
  High-risk verbs are looked up by the word after one \<open>.exe\<close> is cut, while the engine cuts
  another one from the rule: a rule for \<open>rm\<close> can be had.  A prefix runner hides the verb behind it.
\<close>

lemma high_risk_verb_widened:
  "verdict_after [Approved ''rm.exe.exe -v''] ''rm'' [''-rf'', ''/''] = ''allow''"
  "verdict_after [Approved ''nohup curl a.example''] ''nohup'' [''curl'', ''a.example'', ''b''] = ''allow''"
  by code_simp+

text \<open>An approval can take away: what the profile asks about is refused outright afterwards.\<close>

lemma approval_denies_prompted:
  "verdict_after [] ''git'' [''push'', ''--force''] = ''prompt''
   \<and> verdict_after [Approved ''git push origin/x''] ''git'' [''push'', ''--force''] = ''hard_deny''"
  by code_simp

text \<open>A longer family than the refused one is widened again.\<close>

lemma longer_family_widened_again:
  "verdict_after [Refused ''git clean'', Approved ''git clean sub''] ''git'' [''clean'', ''sub'', ''x''] = ''allow''"
  by code_simp

section \<open>Witnesses\<close>

definition sample_events :: "rule_event list" where
  "sample_events = [Approved clean_dry_run, Refused clean_dry_run, Approved ''git clean -q'']"

lemma plain_by_list:
  "list_all (\<lambda>ev. case ev of Approved cmd \<Rightarrow> (case lexed cmd of None \<Rightarrow> True | Some (p, _) \<Rightarrow> normalize_program p = p)
      | Refused _ \<Rightarrow> True) evs \<Longrightarrow> plain_programs evs"
  by (auto simp: plain_programs_def list_all_iff split: rule_event.splits option.splits)



section \<open>Connections\<close>

text \<open>One connection's approvals, refusals and end leave the others alone; a released one starts anew.\<close>

lemma sessions_apart:
  assumes "sid \<noteq> sid'"
  shows "snd (ApproveShellForSession sid cmd m) sid' = m sid'"
    and "snd (DemoteShellForSession sid cmd m) sid' = m sid'"
    and "ReleaseSession sid m sid' = m sid'"
    and "sid' \<noteq> [] \<Longrightarrow> fst (profileForSession p sid' (ReleaseSession sid' m)) = p"
  using assms
  by (auto simp: ApproveShellForSession_def DemoteShellForSession_def ReleaseSession_def SessionRules_def
      profileForSession_def WithSessionRules_def no_rules_def split: option.splits prod.splits)

end
