(* ===== verification/Workflow.thy ===== *)
theory Workflow
  imports Prelude "HOL-Library.Multiset" "HOL-Library.Char_ord" "HOL-Library.List_Lexorder"
begin

text \<open>
  The workflow engine of the agent tools (\<open>internal/tools/agent_dag.go\<close>): step ranges, their
  expansion, the levels of the dependency graph, the prompt templates and the run level by
  level.  The sub-agent that runs a step is an argument, a function of the step's identifier and
  prompt; the steps of one level are independent of each other in the code (their prompts are made
  before any of them starts), so their order within the level does not matter.
\<close>

section \<open>Steps and ranges\<close>

record step_def =
  sd_id :: string
  sd_prompt :: string
  sd_deps :: "string list"

record expanded_step =
  xs_id :: string
  xs_origin :: string
  xs_prompt :: string
  xs_deps :: "string list"
  xs_index :: nat
  xs_count :: nat

datatype workflow_error =
    No_steps
  | Invalid_id string
  | Bad_start string
  | Bad_end string
  | Start_after_end string
  | Range_too_large string
  | Empty_step_id
  | In_step string workflow_error
  | Duplicate_step string
  | In_dep_expansion string workflow_error
  | In_dep string workflow_error
  | Unknown_dep string string
  | Cycle_detected nat nat
  | No_model
  | Zero_steps
  | Step_expansion workflow_error
  | Dependency_resolution workflow_error
  | Topological_sort workflow_error

definition is_letter_byte :: "char \<Rightarrow> bool" where
  "is_letter_byte c \<longleftrightarrow> (65 \<le> byte c \<and> byte c \<le> 90) \<or> (97 \<le> byte c \<and> byte c \<le> 122) \<or> c = CHR ''_''"

text \<open>\<open>strconv.Atoi\<close> on a word of digits: \<^const>\<open>None\<close> beyond 64 bits.\<close>

definition number_value :: "string \<Rightarrow> int" where
  "number_value s = foldl (\<lambda>n c. 10 * n + (byte c - 48)) 0 s"

definition atoi_digits :: "string \<Rightarrow> int option" where
  "atoi_digits s = (if number_value s \<le> max_i64 then Some (number_value s) else None)"

text \<open>\<open>rangeRegex\<close>: the prefix, the start and the end, which is empty where there is none.\<close>

definition match_range :: "string \<Rightarrow> (string \<times> string \<times> string) option" where
  "match_range spec =
     (let pre = takeWhile is_letter_byte spec; rest = dropWhile is_letter_byte spec;
          ds = takeWhile is_digit rest; tl1 = dropWhile is_digit rest in
      if pre = [] \<or> ds = [] then None
      else case tl1 of
             [] \<Rightarrow> Some (pre, ds, [])
           | c # es \<Rightarrow> if c = CHR ''-'' \<and> es \<noteq> [] \<and> list_all is_digit es then Some (pre, ds, es) else None)"

text \<open>
  The loop over a range counts in a 64-bit integer and compares with the end: behind the largest
  integer it goes on at the smallest one, and a range that ends there never ends.  \<^const>\<open>None\<close>
  stands for not returning, here and in every function that expands identifiers.
\<close>

partial_function (option) range_ids :: "string \<Rightarrow> int \<Rightarrow> int \<Rightarrow> string list option" where
  "range_ids pre i stop =
     (if stop < i then Some []
      else Option.bind (range_ids pre (i64 (i + 1)) stop) (\<lambda>ids. Some ((pre @ itoa i) # ids)))"

declare range_ids.simps [code]

type_synonym 'a expansion = "(workflow_error + 'a) option"

definition expandStepID :: "string \<Rightarrow> string list expansion" where
  "expandStepID spec =
     (case match_range spec of
        None \<Rightarrow> Some (Inl (Invalid_id spec))
      | Some (pre, s, e) \<Rightarrow>
          (case atoi_digits s of
             None \<Rightarrow> Some (Inl (Bad_start spec))
           | Some start \<Rightarrow>
               if e = [] then Some (Inr [pre @ itoa start])
               else case atoi_digits e of
                      None \<Rightarrow> Some (Inl (Bad_end spec))
                    | Some stop \<Rightarrow>
                        if start > stop then Some (Inl (Start_after_end spec))
                        else if stop - start > 1000 then Some (Inl (Range_too_large spec))
                        else map_option Inr (range_ids pre start stop)))"

text \<open>One call after another, and the wrapping of an error.\<close>

fun and_then :: "'a expansion \<Rightarrow> ('a \<Rightarrow> 'b expansion) \<Rightarrow> 'b expansion" where
  "and_then None f = None"
| "and_then (Some (Inl e)) f = Some (Inl e)"
| "and_then (Some (Inr a)) f = f a"

definition wrapped :: "(workflow_error \<Rightarrow> workflow_error) \<Rightarrow> 'a expansion \<Rightarrow> 'a expansion" where
  "wrapped g = map_option (map_sum g (\<lambda>a. a))"

fun take_ids :: "string list \<Rightarrow> string list \<Rightarrow> workflow_error + string list" where
  "take_ids used [] = Inr used"
| "take_ids used (x # ids) = (if x \<in> set used then Inl (Duplicate_step x) else take_ids (used @ [x]) ids)"

record expansion_group =
  eg_origin :: string
  eg_ids :: "string list"
  eg_prompt :: string
  eg_deps :: "string list"

text \<open>The first pass: the groups and all identifiers.\<close>

fun expand_groups :: "string list \<Rightarrow> step_def list \<Rightarrow> (expansion_group list \<times> string list) expansion" where
  "expand_groups used [] = Some (Inr ([], used))"
| "expand_groups used (s # ss) =
     (if sd_id s = [] then Some (Inl Empty_step_id)
      else and_then (wrapped (In_step (sd_id s)) (expandStepID (sd_id s))) (\<lambda>ids.
             case take_ids used ids of
               Inl e \<Rightarrow> Some (Inl e)
             | Inr used' \<Rightarrow> and_then (expand_groups used' ss) (\<lambda>(gs, all).
                 Some (Inr (\<lparr>eg_origin = sd_id s, eg_ids = ids, eg_prompt = sd_prompt s, eg_deps = sd_deps s\<rparr> # gs, all)))))"

fun add_new :: "string list \<Rightarrow> string list \<Rightarrow> string list" where
  "add_new acc [] = acc"
| "add_new acc (x # xs) = add_new (if x \<in> set acc then acc else acc @ [x]) xs"

fun expand_deps :: "string list \<Rightarrow> string list \<Rightarrow> string list expansion" where
  "expand_deps acc [] = Some (Inr acc)"
| "expand_deps acc (d # ds) =
     and_then (wrapped (In_dep d) (expandStepID d)) (\<lambda>ids. expand_deps (add_new acc ids) ds)"

definition expandDeps :: "string list \<Rightarrow> string list expansion" where
  "expandDeps deps = expand_deps [] deps"

definition expand_one :: "string list \<Rightarrow> expansion_group \<Rightarrow> nat \<times> string \<Rightarrow> expanded_step expansion" where
  "expand_one all g ix =
     (case ix of (i, x) \<Rightarrow>
        and_then (wrapped (In_dep_expansion x) (expandDeps (eg_deps g))) (\<lambda>deps.
          case find (\<lambda>d. d \<notin> set all) deps of
            Some d \<Rightarrow> Some (Inl (Unknown_dep x d))
          | None \<Rightarrow> Some (Inr \<lparr>xs_id = x, xs_origin = eg_origin g, xs_prompt = eg_prompt g, xs_deps = deps,
                             xs_index = i, xs_count = length (eg_ids g)\<rparr>)))"

fun in_sequence :: "'a expansion list \<Rightarrow> 'a list expansion" where
  "in_sequence [] = Some (Inr [])"
| "in_sequence (x # xs) = and_then x (\<lambda>a. and_then (in_sequence xs) (\<lambda>as. Some (Inr (a # as))))"

definition expandSteps :: "step_def list \<Rightarrow> expanded_step list expansion" where
  "expandSteps steps =
     and_then (expand_groups [] steps) (\<lambda>(gs, all).
       in_sequence (concat (map (\<lambda>g. map (expand_one all g) (enumerate 0 (eg_ids g))) gs)))"

fun resolve_ids :: "string list \<Rightarrow> expanded_step list \<Rightarrow> workflow_error + string list" where
  "resolve_ids seen [] = Inr seen"
| "resolve_ids seen (s # ss) =
     (if xs_id s \<in> set seen then Inl (Duplicate_step (xs_id s)) else resolve_ids (seen @ [xs_id s]) ss)"

definition resolveDeps :: "expanded_step list \<Rightarrow> workflow_error + (string \<Rightarrow> string list) \<times> string list" where
  "resolveDeps expanded =
     map_sum (\<lambda>e. e)
       (\<lambda>ids. (\<lambda>x. case map_of (map (\<lambda>s. (xs_id s, xs_deps s)) expanded) x of None \<Rightarrow> [] | Some ds \<Rightarrow> ds, ids))
       (resolve_ids [] expanded)"

section \<open>Levels\<close>

text \<open>\<open>reverse[id]\<close>: in the order of the sorted identifiers, once per occurrence.\<close>

definition dependents :: "string list \<Rightarrow> (string \<Rightarrow> string list) \<Rightarrow> string \<Rightarrow> string list" where
  "dependents ids deps x = concat (map (\<lambda>j. map (\<lambda>_. j) (filter (\<lambda>d. d = x) (deps j))) ids)"

text \<open>The in-degrees and the steps that became ready.\<close>

type_synonym kahn_state = "(string \<Rightarrow> int) \<times> string list"

definition release :: "string \<Rightarrow> kahn_state \<Rightarrow> kahn_state" where
  "release j st = (case st of (deg, next) \<Rightarrow>
     (let d = deg j - 1 in (deg(j := d), if d = 0 then next @ [j] else next)))"

definition kahn_level :: "string list \<Rightarrow> (string \<Rightarrow> string list) \<Rightarrow> string list \<Rightarrow> (string \<Rightarrow> int) \<Rightarrow> kahn_state" where
  "kahn_level ids deps ready deg =
     fold (\<lambda>x st. fold release (dependents ids deps x) st) ready (deg, [])"

definition waiting :: "string list \<Rightarrow> (string \<Rightarrow> int) \<Rightarrow> nat" where
  "waiting ids deg = card {j \<in> set ids. 0 < deg j}"

lemma dependents_member: "j \<in> set (dependents ids deps x) \<longleftrightarrow> j \<in> set ids \<and> x \<in> set (deps j)"
  by (auto simp: dependents_def)

text \<open>A released step was waiting and now is not; no other starts waiting.\<close>

lemma release_waiting:
  assumes "j \<in> set ids"
  shows "waiting ids (fst (release j (deg, nx))) + length (snd (release j (deg, nx))) \<le> waiting ids deg + length nx"
proof -
  have fin: "finite {j \<in> set ids. 0 < deg j}" by simp
  show ?thesis
  proof (cases "deg j = 1")
    case True
    have "{i \<in> set ids. 0 < (deg(j := 0)) i} = {i \<in> set ids. 0 < deg i} - {j}" by auto
    moreover have "j \<in> {i \<in> set ids. 0 < deg i}" using True assms by simp
    ultimately have "Suc (waiting ids (deg(j := 0))) = waiting ids deg"
      unfolding waiting_def by (metis card_Suc_Diff1 fin)
    then show ?thesis using True by (simp add: release_def Let_def)
  next
    case False
    have "{i \<in> set ids. 0 < (deg(j := deg j - 1)) i} \<subseteq> {i \<in> set ids. 0 < deg i}"
      by (auto split: if_splits)
    then have "waiting ids (deg(j := deg j - 1)) \<le> waiting ids deg"
      unfolding waiting_def by (rule card_mono [OF fin])
    then show ?thesis using False by (simp add: release_def Let_def)
  qed
qed

lemma release_all_waiting:
  "set js \<subseteq> set ids \<Longrightarrow>
   waiting ids (fst (fold release js st)) + length (snd (fold release js st)) \<le> waiting ids (fst st) + length (snd st)"
proof (induction js arbitrary: st)
  case (Cons j js)
  from Cons.IH [of "release j st"] release_waiting [of j ids "fst st" "snd st"] Cons.prems show ?case by simp
qed simp

lemma kahn_level_waiting:
  "waiting ids (fst (kahn_level ids deps ready deg)) + length (snd (kahn_level ids deps ready deg)) \<le> waiting ids deg"
proof -
  have "waiting ids (fst (fold (\<lambda>x st. fold release (dependents ids deps x) st) ready st))
      + length (snd (fold (\<lambda>x st. fold release (dependents ids deps x) st) ready st)) \<le> waiting ids (fst st) + length (snd st)" for st
  proof (induction ready arbitrary: st)
    case (Cons x ready)
    have "set (dependents ids deps x) \<subseteq> set ids" by (auto simp: dependents_member)
    from release_all_waiting [OF this, of st] Cons.IH [of "fold release (dependents ids deps x) st"] show ?case by simp
  qed simp
  from this [of "(deg, [])"] show ?thesis by (simp add: kahn_level_def)
qed

function kahn_levels :: "string list \<Rightarrow> (string \<Rightarrow> string list) \<Rightarrow> string list \<Rightarrow> (string \<Rightarrow> int) \<Rightarrow> string list list" where
  "kahn_levels ids deps ready deg =
     (if ready = [] then []
      else ready # kahn_levels ids deps (snd (kahn_level ids deps ready deg)) (fst (kahn_level ids deps ready deg)))"
  by pat_completeness auto
termination
proof (relation "measure (\<lambda>(ids, deps, ready, deg). waiting ids deg + (if ready = [] then 0 else 1))")
  fix ids deps deg and ready :: "string list"
  assume "ready \<noteq> []"
  then show "((ids, deps, snd (kahn_level ids deps ready deg), fst (kahn_level ids deps ready deg)), ids, deps, ready, deg)
      \<in> measure (\<lambda>(ids, deps, ready, deg). waiting ids deg + (if ready = [] then 0 else 1))"
    using kahn_level_waiting [of ids deps ready deg]
    by (cases "snd (kahn_level ids deps ready deg)") auto
qed simp

declare kahn_levels.simps [simp del]

text \<open>What Go's map yields for a missing key.\<close>

definition zero_step :: expanded_step where
  "zero_step = \<lparr>xs_id = [], xs_origin = [], xs_prompt = [], xs_deps = [], xs_index = 0, xs_count = 0\<rparr>"

definition topoSortLevels ::
    "(string \<rightharpoonup> expanded_step) \<Rightarrow> string list \<Rightarrow> (string \<Rightarrow> string list) \<Rightarrow> workflow_error + expanded_step list list" where
  "topoSortLevels step_map keys deps =
     (let ids = sort keys;
          deg = (\<lambda>x. int (length (deps x)));
          levels = kahn_levels ids deps (filter (\<lambda>x. deg x = 0) ids) deg;
          processed = length (concat levels) in
      if processed \<noteq> length ids then Inl (Cycle_detected processed (length ids))
      else Inr (map (map (\<lambda>x. case step_map x of None \<Rightarrow> zero_step | Some s \<Rightarrow> s)) levels))"

section \<open>Templates\<close>

definition is_word_byte :: "char \<Rightarrow> bool" where
  "is_word_byte c \<longleftrightarrow> is_letter_byte c \<or> is_digit c"

text \<open>A reference \<open>{{name.output}}\<close> at the head of a text: the name, and what follows it.\<close>

definition match_reference :: "string \<Rightarrow> (string \<times> string) option" where
  "match_reference s =
     (if \<not> prefix ''{{'' s then None
      else let name = takeWhile is_word_byte (drop 2 s); rest = dropWhile is_word_byte (drop 2 s) in
           if name \<noteq> [] \<and> is_letter_byte (hd name) \<and> prefix ''.output}}'' rest then Some (name, drop 9 rest) else None)"

lemma match_reference_shorter: "match_reference s = Some (x, rest) \<Longrightarrow> length rest < length s"
proof -
  assume m: "match_reference s = Some (x, rest)"
  have "length (dropWhile is_word_byte (drop 2 s)) \<le> length s - 2" by (metis length_dropWhile_le length_drop)
  moreover have "s \<noteq> []" using m by (cases s) (simp_all add: match_reference_def)
  moreover have "rest = drop 9 (dropWhile is_word_byte (drop 2 s))" using m by (auto simp: match_reference_def Let_def split: if_splits)
  ultimately show ?thesis by (cases s) auto
qed

definition output_of :: "(string \<rightharpoonup> string) \<Rightarrow> string \<Rightarrow> string" where
  "output_of results x = (case results x of Some r \<Rightarrow> r | None \<Rightarrow> ''[output of '' @ x @ '' not yet available]'')"

function fill_outputs :: "(string \<rightharpoonup> string) \<Rightarrow> string \<Rightarrow> string" where
  "fill_outputs results s =
     (case s of [] \<Rightarrow> []
      | c # s' \<Rightarrow> (case match_reference s of
           Some (x, rest) \<Rightarrow> output_of results x @ fill_outputs results rest
         | None \<Rightarrow> c # fill_outputs results s'))"
  by pat_completeness auto
termination
  by (relation "measure (\<lambda>(results, s). length s)") (auto dest: match_reference_shorter)

declare fill_outputs.simps [simp del]

definition interpolatePrompt :: "string \<Rightarrow> (string \<rightharpoonup> string) \<Rightarrow> nat \<Rightarrow> nat \<Rightarrow> string \<Rightarrow> string" where
  "interpolatePrompt tmpl results idx cnt x =
     fill_outputs results
       (replace_all ''{{self.id}}'' x
         (replace_all ''{{self.count}}'' (itoa (int cnt))
           (replace_all ''{{self.index}}'' (itoa (int idx)) tmpl)))"

section \<open>The run\<close>

type_synonym step_runner = "string \<Rightarrow> string \<Rightarrow> string + string"

text \<open>The results and the errors, by step.\<close>

type_synonym dag_outcome = "(string \<rightharpoonup> string) \<times> (string \<rightharpoonup> string)"

definition step_prompt :: "(string \<rightharpoonup> string) \<Rightarrow> expanded_step \<Rightarrow> string" where
  "step_prompt results s = interpolatePrompt (xs_prompt s) results (xs_index s) (xs_count s) (xs_id s)"

definition record_outcome :: "string \<times> (string + string) \<Rightarrow> dag_outcome \<Rightarrow> dag_outcome" where
  "record_outcome o1 re =
     (case (o1, re) of ((x, out), (results, errs)) \<Rightarrow>
        (case out of Inl e \<Rightarrow> (results, errs(x \<mapsto> e)) | Inr r \<Rightarrow> (results(x \<mapsto> r), errs)))"

definition executeLevel :: "step_runner \<Rightarrow> expanded_step list \<Rightarrow> dag_outcome \<Rightarrow> dag_outcome" where
  "executeLevel run level re =
     fold record_outcome (map (\<lambda>s. (xs_id s, run (xs_id s) (step_prompt (fst re) s))) level) re"

text \<open>The line of a step: its error, else its output, and nothing where both are empty.\<close>

definition cross_rune :: string where "cross_rune = [CHR 0xE2, CHR 0x9C, CHR 0x97]"

definition step_line :: "dag_outcome \<Rightarrow> string \<Rightarrow> string" where
  "step_line re x =
     (let (res, err) =
        (case snd re x of Some e \<Rightarrow> ([], e)
         | None \<Rightarrow> (case fst re x of Some r \<Rightarrow> (r, []) | None \<Rightarrow> ([], ''step did not complete''))) in
      if err \<noteq> [] then x @ '': '' @ cross_rune @ '' '' @ err @ [newline_c]
      else if res \<noteq> [] then x @ '': '' @ res @ [newline_c]
      else [])"

text \<open>What a workflow runs: its steps by level, and their identifiers in the order of the text.\<close>

definition workflow_levels :: "step_def list \<Rightarrow> (expanded_step list list \<times> string list) expansion" where
  "workflow_levels steps =
     and_then (wrapped Step_expansion (expandSteps steps)) (\<lambda>expanded.
       if expanded = [] then Some (Inl Zero_steps)
       else Some (case resolveDeps expanded of
             Inl e \<Rightarrow> Inl (Dependency_resolution e)
           | Inr (deps, ids) \<Rightarrow>
               (case topoSortLevels (map_of (map (\<lambda>s. (xs_id s, s)) expanded)) ids deps of
                  Inl e \<Rightarrow> Inl (Topological_sort e)
                | Inr levels \<Rightarrow> Inr (levels, ids))))"

definition runDAGWorkflow :: "bool \<Rightarrow> step_runner \<Rightarrow> step_def list \<Rightarrow> string expansion" where
  "runDAGWorkflow model run steps =
     (if steps = [] then Some (Inl No_steps)
      else if \<not> model then Some (Inl No_model)
      else and_then (workflow_levels steps) (\<lambda>(levels, ids).
             Some (Inr (concat (map (step_line (fold (executeLevel run) levels (Map.empty, Map.empty))) ids)))))"

end
