(* ===== verification/WorkflowProps.thy ===== *)
theory WorkflowProps
  imports Workflow
begin

text \<open>
  The levels of a workflow are the greedy ones: each holds exactly the steps whose dependencies
  all lie in earlier levels.  From that, and from what the expansion guarantees, the order, the
  completeness and the refusal of cycles follow, and the run hands every step the outputs of
  its dependencies.
\<close>

section \<open>What the expansion guarantees\<close>

lemma take_ids_Inr: "take_ids used ids = Inr used' \<Longrightarrow> used' = used @ ids \<and> (distinct used \<longrightarrow> distinct used')"
  by (induction used ids rule: take_ids.induct) (auto split: if_splits)

lemma and_then_Inr: "and_then x f = Some (Inr b) \<longleftrightarrow> (\<exists>a. x = Some (Inr a) \<and> f a = Some (Inr b))"
  by (cases "(x, f)" rule: and_then.cases) auto

lemma wrapped_Inr: "wrapped g x = Some (Inr a) \<longleftrightarrow> x = Some (Inr a)"
  by (cases x rule: option.exhaust; cases "the x") (auto simp: wrapped_def)

lemma expand_groups_Inr:
  "expand_groups used ss = Some (Inr (gs, all)) \<Longrightarrow>
   all = used @ concat (map eg_ids gs) \<and> (distinct used \<longrightarrow> distinct all)"
proof (induction used ss arbitrary: gs all rule: expand_groups.induct)
  case (2 used s ss)
  from "2.prems" have a: "sd_id s \<noteq> []" by (auto split: if_splits)
  with "2.prems" obtain ids where i: "expandStepID (sd_id s) = Some (Inr ids)"
    by (auto simp: and_then_Inr wrapped_Inr)
  with "2.prems" a have t: "(case take_ids used ids of
               Inl e \<Rightarrow> Some (Inl e)
             | Inr used' \<Rightarrow> and_then (expand_groups used' ss) (\<lambda>(gs, all).
                 Some (Inr (\<lparr>eg_origin = sd_id s, eg_ids = ids, eg_prompt = sd_prompt s, eg_deps = sd_deps s\<rparr> # gs, all))))
      = Some (Inr (gs, all))" by (simp add: wrapped_def)
  then obtain used' gs' where u: "take_ids used ids = Inr used'"
    and g: "expand_groups used' ss = Some (Inr (gs', all))"
      "gs = \<lparr>eg_origin = sd_id s, eg_ids = ids, eg_prompt = sd_prompt s, eg_deps = sd_deps s\<rparr> # gs'"
    by (cases "take_ids used ids") (auto simp: and_then_Inr)
  note ih = "2.IH" [OF a u g(1)] and t = take_ids_Inr [OF u]
  have "all = used @ concat (map eg_ids gs)" using ih t g(2) by simp
  moreover have "distinct used \<longrightarrow> distinct all" using ih t by blast
  ultimately show ?case ..
qed simp

lemma in_sequence_Inr: "in_sequence xs = Some (Inr ys) \<Longrightarrow> list_all2 (\<lambda>x y. x = Some (Inr y)) xs ys"
  by (induction xs arbitrary: ys) (auto simp: and_then_Inr)

lemma add_new_distinct: "distinct acc \<Longrightarrow> distinct (add_new acc xs)"
  by (induction acc xs rule: add_new.induct) auto

lemma expand_deps_distinct: "expand_deps acc ds = Some (Inr out) \<Longrightarrow> distinct acc \<Longrightarrow> distinct out"
  by (induction ds arbitrary: acc) (auto simp: and_then_Inr add_new_distinct)

lemma expand_one_Inr:
  "expand_one all g ix = Some (Inr s) \<Longrightarrow> xs_id s = snd ix \<and> distinct (xs_deps s) \<and> set (xs_deps s) \<subseteq> set all"
  by (auto simp: expand_one_def expandDeps_def find_None_iff expand_deps_distinct and_then_Inr wrapped_Inr split: prod.splits option.splits)

lemma expandSteps_ok:
  assumes "expandSteps steps = Some (Inr expanded)"
  shows "distinct (map xs_id expanded)" "s \<in> set expanded \<Longrightarrow> distinct (xs_deps s) \<and> set (xs_deps s) \<subseteq> xs_id ` set expanded"
proof -
  obtain gs all where g: "expand_groups [] steps = Some (Inr (gs, all))"
    and q: "in_sequence (concat (map (\<lambda>g. map (expand_one all g) (enumerate 0 (eg_ids g))) gs)) = Some (Inr expanded)"
    using assms by (auto simp: expandSteps_def and_then_Inr)
  let ?xs = "concat (map (\<lambda>g. map (\<lambda>ix. (g, ix)) (enumerate 0 (eg_ids g))) gs)"
  have l: "list_all2 (\<lambda>gx s. expand_one all (fst gx) (snd gx) = Some (Inr s)) ?xs expanded"
  proof -
    have "concat (map (\<lambda>g. map (expand_one all g) (enumerate 0 (eg_ids g))) gs) = map (\<lambda>gx. expand_one all (fst gx) (snd gx)) ?xs"
      by (simp add: map_concat comp_def)
    with in_sequence_Inr [OF q] show ?thesis by (simp only: list_all2_map1)
  qed
  have ids: "map (\<lambda>gx. snd (snd gx)) ?xs = all"
    using expand_groups_Inr [OF g] by (simp add: map_concat comp_def)
  from l have "map xs_id expanded = map (\<lambda>gx. snd (snd gx)) ?xs"
    by (induction rule: list_all2_induct) (auto dest: expand_one_Inr)
  then have m: "map xs_id expanded = all" using ids by simp
  have "distinct all" using expand_groups_Inr [OF g] distinct.simps(1) by blast
  then show "distinct (map xs_id expanded)" unfolding m .
  have "\<forall>s \<in> set expanded. distinct (xs_deps s) \<and> set (xs_deps s) \<subseteq> set all"
    using l by (induction rule: list_all2_induct) (auto dest: expand_one_Inr)
  then show "distinct (xs_deps s) \<and> set (xs_deps s) \<subseteq> xs_id ` set expanded" if "s \<in> set expanded"
    using that m by (metis set_map)
qed

lemma resolve_ids_Inr: "distinct (seen @ map xs_id ss) \<Longrightarrow> resolve_ids seen ss = Inr (seen @ map xs_id ss)"
  by (induction seen ss rule: resolve_ids.induct) auto

section \<open>The greedy levels\<close>

definition graph_ok :: "string list \<Rightarrow> (string \<Rightarrow> string list) \<Rightarrow> bool" where
  "graph_ok ids deps \<longleftrightarrow> distinct ids \<and> (\<forall>j \<in> set ids. distinct (deps j) \<and> set (deps j) \<subseteq> set ids)"

definition ready_set :: "string list \<Rightarrow> (string \<Rightarrow> string list) \<Rightarrow> string set \<Rightarrow> string set" where
  "ready_set ids deps D = {j \<in> set ids. set (deps j) \<subseteq> D}"

fun greedy_levels :: "string list \<Rightarrow> (string \<Rightarrow> string list) \<Rightarrow> string set \<Rightarrow> string list list \<Rightarrow> bool" where
  "greedy_levels ids deps D [] \<longleftrightarrow> ready_set ids deps D \<subseteq> D"
| "greedy_levels ids deps D (l # ls) \<longleftrightarrow>
     l \<noteq> [] \<and> distinct l \<and> set l = ready_set ids deps D - D \<and> greedy_levels ids deps (D \<union> set l) ls"

text \<open>The in-degrees count the dependencies that are not done.\<close>

definition counts :: "string list \<Rightarrow> (string \<Rightarrow> string list) \<Rightarrow> string set \<Rightarrow> (string \<Rightarrow> int) \<Rightarrow> bool" where
  "counts ids deps D deg \<longleftrightarrow> (\<forall>j \<in> set ids. deg j = int (card (set (deps j) - D)))"

lemma filter_single: "distinct xs \<Longrightarrow> filter (\<lambda>d. d = x) xs = (if x \<in> set xs then [x] else [])"
  by (induction xs) auto

lemma dependents_eq:
  assumes "graph_ok ids deps"
  shows "dependents ids deps x = filter (\<lambda>j. x \<in> set (deps j)) ids"
proof -
  have "concat (map (\<lambda>j. map (\<lambda>_. j) (filter (\<lambda>d. d = x) (deps j))) js) = filter (\<lambda>j. x \<in> set (deps j)) js"
    if "set js \<subseteq> set ids" for js
    using that assms by (induction js) (simp_all add: graph_ok_def filter_single)
  then show ?thesis by (simp add: dependents_def)
qed

lemma fold_release:
  "distinct js \<Longrightarrow> fold release js (deg, nx) =
     (\<lambda>j. if j \<in> set js then deg j - 1 else deg j, nx @ filter (\<lambda>j. deg j = 1) js)"
proof (induction js arbitrary: deg nx)
  case (Cons i js)
  have "filter (\<lambda>j. (deg(i := deg i - 1)) j = 1) js = filter (\<lambda>j. deg j = 1) js"
    by (rule filter_cong) (use Cons.prems in auto)
  with Cons show ?case by (auto simp: release_def Let_def fun_eq_iff)
qed simp

lemma release_step:
  assumes "graph_ok ids deps" "counts ids deps D deg" "x \<notin> D"
    and "fold release (dependents ids deps x) (deg, nx) = (deg', nx')"
  shows "counts ids deps (insert x D) deg'"
    and "nx' = nx @ filter (\<lambda>j. set (deps j) \<subseteq> insert x D \<and> \<not> set (deps j) \<subseteq> D) ids"
proof -
  have d: "distinct (filter (\<lambda>j. x \<in> set (deps j)) ids)" using assms(1) by (simp add: graph_ok_def)
  have e: "deg' = (\<lambda>j. if j \<in> set ids \<and> x \<in> set (deps j) then deg j - 1 else deg j)"
      "nx' = nx @ filter (\<lambda>j. x \<in> set (deps j) \<and> deg j = 1) ids"
    using assms(4) fold_release [OF d, of deg nx] dependents_eq [OF assms(1), of x] by auto
  have c: "card (set (deps j) - insert x D) = card (set (deps j) - D) - (if x \<in> set (deps j) then 1 else 0)" for j
  proof -
    have "set (deps j) - insert x D = (set (deps j) - D) - {x}" by auto
    then show ?thesis using assms(3) by (simp add: card_Diff_singleton_if)
  qed
  have pos: "0 < card (set (deps j) - D)" if "x \<in> set (deps j)" for j
    using that assms(3) card_gt_0_iff by fastforce
  show "counts ids deps (insert x D) deg'"
    using assms(2) pos unfolding counts_def e by (auto simp: c of_nat_diff Suc_leI)
  have "x \<in> set (deps j) \<and> deg j = 1 \<longleftrightarrow> set (deps j) \<subseteq> insert x D \<and> \<not> set (deps j) \<subseteq> D" if "j \<in> set ids" for j
  proof -
    have "deg j = int (card (set (deps j) - D))" using assms(2) that by (simp add: counts_def)
    moreover have "card (set (deps j) - D) = 1 \<and> x \<in> set (deps j) \<longleftrightarrow> set (deps j) - D = {x}"
    proof
      assume c: "card (set (deps j) - D) = 1 \<and> x \<in> set (deps j)"
      have "card (set (deps j) - D) = 1" using c ..
      then obtain y where y: "set (deps j) - D = {y}" by (rule card_1_singletonE)
      have "x \<in> set (deps j) - D" using c assms(3) by blast
      then have "x = y" unfolding y by simp
      then show "set (deps j) - D = {x}" using y by simp
    next
      assume c: "set (deps j) - D = {x}"
      then show "card (set (deps j) - D) = 1 \<and> x \<in> set (deps j)" by (metis Diff_iff card_1_singleton_iff One_nat_def insertI1)
    qed
    moreover have "set (deps j) - D = {x} \<longleftrightarrow> set (deps j) \<subseteq> insert x D \<and> \<not> set (deps j) \<subseteq> D"
      using assms(3) by blast
    ultimately show ?thesis by (simp add: conj_commute)
  qed
  then show "nx' = nx @ filter (\<lambda>j. set (deps j) \<subseteq> insert x D \<and> \<not> set (deps j) \<subseteq> D) ids"
    unfolding e(2) by (simp cong: filter_cong)
qed

lemma kahn_level_step:
  assumes "graph_ok ids deps" "counts ids deps D deg" "distinct ready" "set ready \<inter> D = {}"
    and "fold (\<lambda>x st. fold release (dependents ids deps x) st) ready (deg, nx) = (deg', nx')"
    and "distinct nx" "set nx = ready_set ids deps D - E" "E \<subseteq> ready_set ids deps D"
  shows "counts ids deps (D \<union> set ready) deg' \<and> distinct nx' \<and> set nx' = ready_set ids deps (D \<union> set ready) - E"
  using assms
proof (induction ready arbitrary: D deg nx)
  case (Cons x ready)
  obtain deg1 nx1 where 1: "fold release (dependents ids deps x) (deg, nx) = (deg1, nx1)"
    by (cases "fold release (dependents ids deps x) (deg, nx)")
  have x: "x \<notin> D" using Cons.prems(4) by auto
  note s = release_step [OF Cons.prems(1,2) x 1]
  have d: "distinct nx1" unfolding s(2) using Cons.prems(1,6,7) by (auto simp: graph_ok_def ready_set_def)
  have n: "set nx1 = ready_set ids deps (insert x D) - E"
    unfolding s(2) using Cons.prems(7,8) by (auto simp: ready_set_def)
  have e: "E \<subseteq> ready_set ids deps (insert x D)" using Cons.prems(8) by (auto simp: ready_set_def)
  have "fold (\<lambda>x st. fold release (dependents ids deps x) st) ready (deg1, nx1) = (deg', nx')"
    using Cons.prems(5) 1 by simp
  from Cons.IH [OF Cons.prems(1) s(1) _ _ this d n e] Cons.prems(3,4) show ?case by simp
qed simp

lemma kahn_greedy:
  "graph_ok ids deps \<Longrightarrow> counts ids deps D deg \<Longrightarrow> distinct ready \<Longrightarrow> set ready = ready_set ids deps D - D \<Longrightarrow> D \<subseteq> ready_set ids deps D \<Longrightarrow>
    greedy_levels ids deps D (kahn_levels ids deps ready deg)"
proof (induction ids deps ready deg arbitrary: D rule: kahn_levels.induct)
  case (1 ids deps ready deg)
  show ?case
  proof (cases "ready = []")
    case True
    then show ?thesis using "1.prems" by (simp add: kahn_levels.simps [of _ _ "[]"])
  next
    case False
    obtain deg' nx' where k: "kahn_level ids deps ready deg = (deg', nx')" by (cases "kahn_level ids deps ready deg")
    have fold: "fold (\<lambda>x st. fold release (dependents ids deps x) st) ready (deg, []) = (deg', nx')"
      using k by (simp add: kahn_level_def)
    have "set ready \<inter> D = {}" "D \<union> set ready = ready_set ids deps D" using "1.prems" by auto
    note n = kahn_level_step [OF "1.prems"(1,2,3) this(1) fold, of "ready_set ids deps D"] and eq = this(2)
    have sub: "ready_set ids deps D \<subseteq> ready_set ids deps (D \<union> set ready)" by (auto simp: ready_set_def)
    have "greedy_levels ids deps (D \<union> set ready) (kahn_levels ids deps nx' deg')"
      using "1.IH" [OF False, of "D \<union> set ready"] k n "1.prems"(1) sub by (simp add: eq)
    then show ?thesis using False "1.prems" k by (simp add: kahn_levels.simps [of ids deps ready])
  qed
qed

section \<open>Order, completeness and cycles\<close>

definition dep_edges :: "string list \<Rightarrow> (string \<Rightarrow> string list) \<Rightarrow> (string \<times> string) set" where
  "dep_edges ids deps = {(d, j). j \<in> set ids \<and> d \<in> set (deps j)}"

lemma greedy_members:
  "greedy_levels ids deps D ls \<Longrightarrow> distinct (concat ls) \<and> set (concat ls) \<subseteq> set ids - D
   \<and> ready_set ids deps (D \<union> set (concat ls)) \<subseteq> D \<union> set (concat ls)"
proof (induction ids deps D ls rule: greedy_levels.induct)
  case (2 ids deps D l ls)
  have l: "distinct l" "set l \<subseteq> set ids - D" using "2.prems" by (auto simp: ready_set_def)
  have g: "greedy_levels ids deps (D \<union> set l) ls" using "2.prems" unfolding greedy_levels.simps by (elim conjE)
  note ih = "2.IH" [OF g, THEN conjunct1] "2.IH" [OF g, THEN conjunct2, THEN conjunct1]
    "2.IH" [OF g, THEN conjunct2, THEN conjunct2]
  have "set (concat (l # ls)) = set l \<union> set (concat ls)" by simp
  moreover have "distinct (concat (l # ls))" unfolding concat.simps distinct_append using l(1) ih(1,2) by blast
  moreover have "set l \<union> set (concat ls) \<subseteq> set ids - D" using l ih(2) by blast
  ultimately show ?case using ih(3) by (simp only: Un_assoc)
qed simp

lemma greedy_order:
  "greedy_levels ids deps D ls \<Longrightarrow> k < length ls \<Longrightarrow> j \<in> set (ls ! k) \<Longrightarrow> d \<in> set (deps j) \<Longrightarrow>
   d \<in> D \<or> (\<exists>m < k. d \<in> set (ls ! m))"
proof (induction ids deps D ls arbitrary: k rule: greedy_levels.induct)
  case (2 ids deps D l ls)
  show ?case
  proof (cases k)
    case 0
    then show ?thesis using "2.prems" by (auto simp: ready_set_def)
  next
    case (Suc k')
    have g: "greedy_levels ids deps (D \<union> set l) ls" using "2.prems"(1) unfolding greedy_levels.simps by (elim conjE)
    have "d \<in> D \<union> set l \<or> (\<exists>m < k'. d \<in> set (ls ! m))"
      by (rule "2.IH" [OF g]) (use Suc "2.prems"(2-4) in auto)
    then show ?thesis using Suc by (metis Suc_less_eq UnE nth_Cons_0 nth_Cons_Suc zero_less_Suc)
  qed
qed simp

text \<open>Everything is done exactly when the dependencies have no cycle.\<close>

lemma greedy_complete:
  assumes "greedy_levels ids deps {} ls" "acyclic (dep_edges ids deps)" "\<forall>j \<in> set ids. set (deps j) \<subseteq> set ids"
  shows "set (concat ls) = set ids"
proof (rule ccontr)
  let ?D = "set (concat ls)"
  assume ne: "?D \<noteq> set ids"
  have "?D \<subseteq> set ids" using greedy_members [OF assms(1)] by blast
  with ne obtain j where j: "j \<in> set ids - ?D" by blast
  have "dep_edges ids deps \<subseteq> set ids \<times> set ids" using assms(3) by (auto simp: dep_edges_def)
  then have "finite (dep_edges ids deps)" by (rule finite_subset) simp
  then have "wf (dep_edges ids deps)" using assms(2) by (rule finite_acyclic_wf)
  then obtain m where m: "m \<in> set ids - ?D" "\<And>d. (d, m) \<in> dep_edges ids deps \<Longrightarrow> d \<notin> set ids - ?D"
    using j unfolding wf_eq_minimal by metis
  have "d \<in> ?D" if "d \<in> set (deps m)" for d
  proof -
    have "(d, m) \<in> dep_edges ids deps" using that m(1) by (simp add: dep_edges_def)
    moreover have "d \<in> set ids" using that m(1) assms(3) by blast
    ultimately show ?thesis using m(2) by blast
  qed
  then have "set (deps m) \<subseteq> ?D" by blast
  then have "m \<in> ready_set ids deps ?D" using m(1) by (simp add: ready_set_def)
  then show False using greedy_members [OF assms(1)] m(1) by auto
qed

lemma greedy_acyclic:
  assumes "greedy_levels ids deps {} ls" "set (concat ls) = set ids"
  shows "acyclic (dep_edges ids deps)"
proof -
  define lev where "lev x = (LEAST k. k < length ls \<and> x \<in> set (ls ! k))" for x
  have lev: "lev x < length ls \<and> x \<in> set (ls ! lev x)" if "x \<in> set ids" for x
  proof -
    have "x \<in> set (concat ls)" using that assms(2) by simp
    then obtain l where "l \<in> set ls" "x \<in> set l" by auto
    then obtain k where "k < length ls" "ls ! k = l" by (auto simp: in_set_conv_nth)
    with \<open>x \<in> set l\<close> have "k < length ls \<and> x \<in> set (ls ! k)" by simp
    then show ?thesis unfolding lev_def by (rule LeastI)
  qed
  have "lev d < lev j" if e: "(d, j) \<in> dep_edges ids deps" for d j
  proof -
    have "j \<in> set ids" "d \<in> set (deps j)" using e by (auto simp: dep_edges_def)
    with greedy_order [OF assms(1)] lev obtain m where m: "m < lev j" "d \<in> set (ls ! m)" by blast
    then have "lev d \<le> m" unfolding lev_def using lev [OF \<open>j \<in> set ids\<close>]
      by (intro Least_le) (auto simp: lev_def [symmetric])
    then show ?thesis using m(1) by simp
  qed
  then have "dep_edges ids deps \<subseteq> measure lev" by auto
  then show ?thesis using wf_measure wf_subset wf_acyclic by blast
qed

section \<open>The levels of a workflow\<close>

text \<open>The dependencies of a list of expanded steps, as edges.\<close>

definition step_edges :: "expanded_step list \<Rightarrow> (string \<times> string) set" where
  "step_edges expanded = {(d, xs_id s) | d s. s \<in> set expanded \<and> d \<in> set (xs_deps s)}"

definition deps_of :: "expanded_step list \<Rightarrow> string \<Rightarrow> string list" where
  "deps_of expanded x = (case map_of (map (\<lambda>s. (xs_id s, xs_deps s)) expanded) x of None \<Rightarrow> [] | Some ds \<Rightarrow> ds)"

lemma map_of_ids:
  assumes "distinct (map xs_id expanded)" "s \<in> set expanded"
  shows "map_of (map (\<lambda>s. (xs_id s, f s)) expanded) (xs_id s) = Some (f s)"
  by (rule map_of_is_SomeI) (use assms in \<open>auto simp: comp_def\<close>)

lemma workflow_levels_cases:
  assumes "expandSteps steps = Some (Inr expanded)" "expanded \<noteq> []"
  obtains ls where "greedy_levels (sort (map xs_id expanded)) (deps_of expanded) {} ls"
    "workflow_levels steps = Some
       (if length (concat ls) \<noteq> length expanded
        then Inl (Topological_sort (Cycle_detected (length (concat ls)) (length expanded)))
        else Inr (map (map (\<lambda>x. case map_of (map (\<lambda>s. (xs_id s, s)) expanded) x of None \<Rightarrow> zero_step | Some s \<Rightarrow> s)) ls,
                  map xs_id expanded))"
    "dep_edges (sort (map xs_id expanded)) (deps_of expanded) = step_edges expanded"
    "graph_ok (sort (map xs_id expanded)) (deps_of expanded)"
proof -
  let ?ids = "sort (map xs_id expanded)" and ?deps = "deps_of expanded"
  note ok = expandSteps_ok [OF assms(1)]
  have d: "deps_of expanded (xs_id s) = xs_deps s" if "s \<in> set expanded" for s
    using map_of_ids [OF ok(1) that, of xs_deps] by (simp add: deps_of_def)
  have g: "graph_ok ?ids ?deps" using ok d by (auto simp: graph_ok_def)
  let ?deg = "\<lambda>x. int (length (?deps x))"
  let ?ls = "kahn_levels ?ids ?deps (filter (\<lambda>x. ?deg x = 0) ?ids) ?deg"
  have "counts ?ids ?deps {} ?deg" using g by (auto simp: counts_def graph_ok_def distinct_card)
  moreover have "distinct (filter (\<lambda>x. ?deg x = 0) ?ids)" using ok(1) by simp
  moreover have "set (filter (\<lambda>x. ?deg x = 0) ?ids) = ready_set ?ids ?deps {} - {}" by (auto simp: ready_set_def)
  ultimately have gr: "greedy_levels ?ids ?deps {} ?ls" by (intro kahn_greedy [OF g]) auto
  have r: "resolveDeps expanded = Inr (?deps, map xs_id expanded)"
    using resolve_ids_Inr [of "[]" expanded] ok(1) by (simp add: resolveDeps_def deps_of_def [abs_def])
  have "dep_edges ?ids ?deps = step_edges expanded" using d by (auto simp: dep_edges_def step_edges_def)
  moreover have "workflow_levels steps = Some
       (if length (concat ?ls) \<noteq> length expanded
        then Inl (Topological_sort (Cycle_detected (length (concat ?ls)) (length expanded)))
        else Inr (map (map (\<lambda>x. case map_of (map (\<lambda>s. (xs_id s, s)) expanded) x of None \<Rightarrow> zero_step | Some s \<Rightarrow> s)) ?ls,
                  map xs_id expanded))"
  proof -
    have "workflow_levels steps = Some (case topoSortLevels (map_of (map (\<lambda>s. (xs_id s, s)) expanded)) (map xs_id expanded) ?deps of
        Inl e \<Rightarrow> Inl (Topological_sort e) | Inr levels \<Rightarrow> Inr (levels, map xs_id expanded))"
      using assms r by (simp add: workflow_levels_def wrapped_def)
    then show ?thesis by (simp add: topoSortLevels_def Let_def)
  qed
  ultimately show ?thesis using that [OF gr _ _ g] by blast
qed

text \<open>The step a level holds for an identifier.\<close>

lemma step_of_id:
  assumes "expandSteps steps = Some (Inr expanded)" "s \<in> set expanded"
  shows "(case map_of (map (\<lambda>s. (xs_id s, s)) expanded) (xs_id s) of None \<Rightarrow> zero_step | Some s \<Rightarrow> s) = s"
  using map_of_ids [OF expandSteps_ok(1) [OF assms(1)] assms(2), of "\<lambda>s. s"] by simp

lemma workflow_shape:
  assumes "workflow_levels steps = Some (Inr (levels, ids))"
  obtains expanded where "expandSteps steps = Some (Inr expanded)" "ids = map xs_id expanded"
    "distinct (map xs_id (concat levels))" "set (concat levels) = set expanded" "acyclic (step_edges expanded)"
    "\<forall>k < length levels. \<forall>s \<in> set (levels ! k). \<forall>d \<in> set (xs_deps s). \<exists>m < k. d \<in> xs_id ` set (levels ! m)"
proof -
  obtain expanded where x: "expandSteps steps = Some (Inr expanded)" "expanded \<noteq> []"
    using assms by (auto simp: workflow_levels_def and_then_Inr wrapped_Inr split: if_splits)
  let ?step = "\<lambda>x. case map_of (map (\<lambda>s. (xs_id s, s)) expanded) x of None \<Rightarrow> zero_step | Some s \<Rightarrow> s"
  obtain ls where
    g: "greedy_levels (sort (map xs_id expanded)) (deps_of expanded) {} ls" and
    w: "workflow_levels steps = Some (if length (concat ls) \<noteq> length expanded
        then Inl (Topological_sort (Cycle_detected (length (concat ls)) (length expanded)))
        else Inr (map (map ?step) ls, map xs_id expanded))" and
    e: "dep_edges (sort (map xs_id expanded)) (deps_of expanded) = step_edges expanded" and
    ok: "graph_ok (sort (map xs_id expanded)) (deps_of expanded)" by (rule workflow_levels_cases [OF x])
  have len: "length (concat ls) = length expanded" and lv: "levels = map (map ?step) ls" and ids: "ids = map xs_id expanded"
    using assms w by (auto split: if_splits)
  have mem: "distinct (concat ls)" "set (concat ls) \<subseteq> xs_id ` set expanded" using greedy_members [OF g] by auto
  have all: "set (concat ls) = xs_id ` set expanded"
  proof (rule card_subset_eq [OF _ mem(2)])
    show "card (set (concat ls)) = card (xs_id ` set expanded)"
      using distinct_card [OF mem(1)] len distinct_card [OF expandSteps_ok(1) [OF x(1)]] by simp
  qed simp
  have named: "xs_id (?step i) = i \<and> ?step i \<in> set expanded" if "i \<in> xs_id ` set expanded" for i
  proof -
    from that obtain s where s: "s \<in> set expanded" "i = xs_id s" by blast
    then show ?thesis using step_of_id [OF x(1) s(1)] by simp
  qed
  have "map xs_id (concat levels) = map (\<lambda>i. xs_id (?step i)) (concat ls)" unfolding lv by (simp add: map_concat comp_def)
  also have "\<dots> = concat ls" by (rule map_idI) (use named all in blast)
  finally have "map xs_id (concat levels) = concat ls" .
  then have "distinct (map xs_id (concat levels))" using mem(1) by simp
  moreover have "set (concat levels) = set expanded"
  proof -
    have "set (concat levels) = ?step ` set (concat ls)" unfolding lv by auto
    also have "\<dots> = ?step ` xs_id ` set expanded" using all by simp
    also have "\<dots> = set expanded" using step_of_id [OF x(1)] by (simp add: image_image)
    finally show ?thesis .
  qed
  moreover have "acyclic (step_edges expanded)" using greedy_acyclic [OF g] all e by simp
  moreover have "\<exists>m < k. d \<in> xs_id ` set (levels ! m)"
    if k: "k < length levels" "s \<in> set (levels ! k)" "d \<in> set (xs_deps s)" for k s d
  proof -
    have kl: "k < length ls" using k(1) lv by simp
    have "s \<in> ?step ` set (ls ! k)" using k(2) kl unfolding lv by simp
    then obtain i where i: "i \<in> set (ls ! k)" "s = ?step i" by blast
    have in_level: "j \<in> xs_id ` set expanded" if "m < length ls" "j \<in> set (ls ! m)" for j m
      using that nth_mem [OF that(1)] unfolding all [symmetric] set_concat by blast
    from in_level [OF kl i(1)] obtain t where t: "t \<in> set expanded" "i = xs_id t" by blast
    then have "s = t" using i(2) step_of_id [OF x(1) t(1)] by simp
    then have "deps_of expanded i = xs_deps s"
      using map_of_ids [OF expandSteps_ok(1) [OF x(1)] t(1), of xs_deps] t(2) by (simp add: deps_of_def)
    with greedy_order [OF g kl i(1), of d] k(3) obtain m where m: "m < k" "d \<in> set (ls ! m)" by auto
    then have ml: "m < length ls" using kl by simp
    have "d \<in> xs_id ` set expanded" by (rule in_level [OF ml m(2)])
    then have "xs_id (?step d) = d" using named by blast
    then have "d \<in> xs_id ` set (levels ! m)" using m(2) ml unfolding lv by (simp add: image_image image_iff) metis
    then show ?thesis using m(1) by blast
  qed
  ultimately show ?thesis using that x(1) ids by blast
qed

text \<open>
  C9: The levels a workflow runs hold every expanded step exactly once, and every dependency of a
  step lies in a level before its own.
\<close>

theorem levels_respect_dependencies:
  assumes "workflow_levels steps = Some (Inr (levels, ids))"
  shows "distinct (map xs_id (concat levels)) \<and> set (map xs_id (concat levels)) = set ids \<and>
    (\<forall>k < length levels. \<forall>s \<in> set (levels ! k). \<forall>d \<in> set (xs_deps s). \<exists>m < k. d \<in> xs_id ` set (levels ! m))"
proof -
  obtain expanded where
    e: "expandSteps steps = Some (Inr expanded)" "ids = map xs_id expanded" "distinct (map xs_id (concat levels))" "set (concat levels) = set expanded" "acyclic (step_edges expanded)"
      "\<forall>k < length levels. \<forall>s \<in> set (levels ! k). \<forall>d \<in> set (xs_deps s). \<exists>m < k. d \<in> xs_id ` set (levels ! m)"
    by (rule workflow_shape [OF assms])
  have "set (map xs_id (concat levels)) = set ids" unfolding set_map e(2,4) ..
  with e(3,6) show ?thesis by blast
qed

text \<open>
  C29: Once the steps are expanded, the only thing that stops a workflow is a cycle, and a cycle
  always does.
\<close>

theorem cycles_are_refused:
  assumes "expandSteps steps = Some (Inr expanded)" "expanded \<noteq> []"
  shows "(\<exists>e. workflow_levels steps = Some (Inl e)) \<longleftrightarrow> (\<exists>x. (x, x) \<in> (step_edges expanded)\<^sup>+)"
proof -
  let ?ids = "sort (map xs_id expanded)" and ?deps = "deps_of expanded"
  obtain ls where
    g: "greedy_levels ?ids ?deps {} ls" and
    w': "workflow_levels steps = Some (if length (concat ls) \<noteq> length expanded
        then Inl (Topological_sort (Cycle_detected (length (concat ls)) (length expanded)))
        else Inr (map (map (\<lambda>x. case map_of (map (\<lambda>s. (xs_id s, s)) expanded) x of None \<Rightarrow> zero_step | Some s \<Rightarrow> s)) ls,
                  map xs_id expanded))" and
    e: "dep_edges ?ids ?deps = step_edges expanded" and ok: "graph_ok ?ids ?deps"
    by (rule workflow_levels_cases [OF assms])
  have w: "(\<exists>e. workflow_levels steps = Some (Inl e)) \<longleftrightarrow> length (concat ls) \<noteq> length expanded" unfolding w' by simp
  have mem: "distinct (concat ls)" "set (concat ls) \<subseteq> set ?ids" using greedy_members [OF g] by auto
  have c: "card (set ?ids) = length expanded" using distinct_card [OF expandSteps_ok(1) [OF assms(1)]] by simp
  have "length (concat ls) = length expanded \<longleftrightarrow> set (concat ls) = set ?ids"
    using distinct_card [OF mem(1)] c card_subset_eq [OF _ mem(2)] by auto
  moreover have "set (concat ls) = set ?ids \<longleftrightarrow> acyclic (step_edges expanded)"
    using greedy_complete [OF g] greedy_acyclic [OF g] ok e by (auto simp: graph_ok_def)
  ultimately show ?thesis using w by (auto simp: acyclic_def)
qed

section \<open>The run\<close>

definition run_levels :: "step_runner \<Rightarrow> expanded_step list list \<Rightarrow> dag_outcome" where
  "run_levels run levels = fold (executeLevel run) levels (Map.empty, Map.empty)"

text \<open>A step has ended with what its runner gave for its prompt, made from the results \<open>R\<close>.\<close>

definition settled_with :: "step_runner \<Rightarrow> (string \<rightharpoonup> string) \<Rightarrow> dag_outcome \<Rightarrow> expanded_step \<Rightarrow> bool" where
  "settled_with run R re s \<longleftrightarrow>
     (case run (xs_id s) (step_prompt R s) of
        Inl e \<Rightarrow> snd re (xs_id s) = Some e \<and> fst re (xs_id s) = None
      | Inr r \<Rightarrow> fst re (xs_id s) = Some r \<and> snd re (xs_id s) = None)"

lemma record_all:
  "distinct (map fst os) \<Longrightarrow>
   fst (fold record_outcome os re) x = (case map_of os x of Some (Inr r) \<Rightarrow> Some r | _ \<Rightarrow> fst re x) \<and>
   snd (fold record_outcome os re) x = (case map_of os x of Some (Inl e) \<Rightarrow> Some e | _ \<Rightarrow> snd re x)"
proof (induction os arbitrary: re)
  case (Cons o1 os)
  obtain y out where o: "o1 = (y, out)" by (cases o1)
  have n: "map_of os y = None" using Cons.prems o by (auto simp: map_of_eq_None_iff)
  show ?case using Cons.IH [of "record_outcome o1 re"] Cons.prems n o
    by (cases re) (auto simp: record_outcome_def split: sum.splits option.splits)
qed simp

lemma level_outcome:
  assumes "distinct (map xs_id level)"
  shows "s \<in> set level \<Longrightarrow> fst re (xs_id s) = None \<Longrightarrow> snd re (xs_id s) = None \<Longrightarrow> settled_with run (fst re) (executeLevel run level re) s"
    and "x \<notin> xs_id ` set level \<Longrightarrow> fst (executeLevel run level re) x = fst re x \<and> snd (executeLevel run level re) x = snd re x"
    and "dom (fst (executeLevel run level re)) \<union> dom (snd (executeLevel run level re)) = dom (fst re) \<union> dom (snd re) \<union> xs_id ` set level"
proof -
  let ?os = "map (\<lambda>s. (xs_id s, run (xs_id s) (step_prompt (fst re) s))) level"
  have d: "distinct (map fst ?os)" using assms by (simp add: comp_def)
  note r = record_all [OF d, of re]
  have m: "map_of ?os (xs_id s) = Some (run (xs_id s) (step_prompt (fst re) s))" if "s \<in> set level" for s
    by (rule map_of_ids [OF assms that])
  have n: "map_of ?os x = None" if "x \<notin> xs_id ` set level" for x using that by (auto simp: map_of_eq_None_iff)
  show "settled_with run (fst re) (executeLevel run level re) s" if "s \<in> set level" "fst re (xs_id s) = None" "snd re (xs_id s) = None"
    using r [of "xs_id s"] m [OF that(1)] that(2,3) by (auto simp: settled_with_def executeLevel_def split: sum.splits)
  show u: "fst (executeLevel run level re) x = fst re x \<and> snd (executeLevel run level re) x = snd re x"
    if "x \<notin> xs_id ` set level" for x
    using r [of x] n [OF that] by (simp add: executeLevel_def)
  have "x \<in> dom (fst (executeLevel run level re)) \<union> dom (snd (executeLevel run level re))
      \<longleftrightarrow> x \<in> dom (fst re) \<union> dom (snd re) \<union> xs_id ` set level" for x
  proof (cases "x \<in> xs_id ` set level")
    case True
    then obtain s where "s \<in> set level" "x = xs_id s" by blast
    with m r [of x] show ?thesis by (cases "run (xs_id s) (step_prompt (fst re) s)") (auto simp: executeLevel_def dom_def)
  next
    case False
    with u show ?thesis by (auto simp: dom_def)
  qed
  then show "dom (fst (executeLevel run level re)) \<union> dom (snd (executeLevel run level re)) = dom (fst re) \<union> dom (snd re) \<union> xs_id ` set level"
    by blast
qed

lemma settled_later:
  "settled_with run R re s \<Longrightarrow> fst re' (xs_id s) = fst re (xs_id s) \<Longrightarrow> snd re' (xs_id s) = snd re (xs_id s) \<Longrightarrow>
   settled_with run R re' s"
  by (auto simp: settled_with_def split: sum.splits)

lemma run_levels_facts:
  assumes "distinct (map xs_id (concat levels))"
  shows "dom (fst (run_levels run levels)) \<union> dom (snd (run_levels run levels)) = xs_id ` set (concat levels)"
    and "k < length levels \<Longrightarrow> s \<in> set (levels ! k) \<Longrightarrow>
      settled_with run (fst (run_levels run (take k levels))) (run_levels run levels) s"
    and "m < k \<Longrightarrow> k \<le> length levels \<Longrightarrow> t \<in> set (levels ! m) \<Longrightarrow>
      fst (run_levels run (take k levels)) (xs_id t) = fst (run_levels run levels) (xs_id t)"
proof -
  have "dom (fst (run_levels run levels)) \<union> dom (snd (run_levels run levels)) = xs_id ` set (concat levels) \<and>
    (\<forall>k < length levels. \<forall>s \<in> set (levels ! k). settled_with run (fst (run_levels run (take k levels))) (run_levels run levels) s) \<and>
    (\<forall>k \<le> length levels. \<forall>m < k. \<forall>t \<in> set (levels ! m).
      fst (run_levels run (take k levels)) (xs_id t) = fst (run_levels run levels) (xs_id t))"
    using assms
  proof (induction levels rule: rev_induct)
    case Nil
    then show ?case by (simp add: run_levels_def)
  next
    case (snoc l levels)
    let ?re = "run_levels run levels" and ?re' = "executeLevel run l (run_levels run levels)"
    have e: "run_levels run (levels @ [l]) = ?re'" by (simp add: run_levels_def)
    have dl: "distinct (map xs_id l)" and ds: "distinct (map xs_id (concat levels))"
      and dj: "xs_id ` set (concat levels) \<inter> xs_id ` set l = {}" using snoc.prems by auto
    note ih = snoc.IH [OF ds] and o = level_outcome [OF dl]
    have old: "fst ?re' (xs_id t) = fst ?re (xs_id t)" "snd ?re' (xs_id t) = snd ?re (xs_id t)"
      if "m < length levels" "t \<in> set (levels ! m)" for m t
    proof -
      have "t \<in> set (concat levels)" using that nth_mem by auto
      then have "xs_id t \<notin> xs_id ` set l" using dj by blast
      then show "fst ?re' (xs_id t) = fst ?re (xs_id t)" "snd ?re' (xs_id t) = snd ?re (xs_id t)" using o(2) by blast+
    qed
    have dom: "dom (fst ?re') \<union> dom (snd ?re') = xs_id ` set (concat (levels @ [l]))"
      using o(3) [of run ?re] ih by (simp add: image_Un) 
    have settled: "settled_with run (fst (run_levels run (take k (levels @ [l])))) ?re' s"
      if k: "k < length (levels @ [l])" "s \<in> set ((levels @ [l]) ! k)" for k s
    proof (cases "k < length levels")
      case True
      with k ih have "settled_with run (fst (run_levels run (take k levels))) ?re s" "s \<in> set (levels ! k)"
        by (simp_all add: nth_append)
      with settled_later old [OF True] True show ?thesis by simp
    next
      case False
      then have "k = length levels" "s \<in> set l" using k by (simp_all add: nth_append)
      moreover have "fst ?re (xs_id s) = None \<and> snd ?re (xs_id s) = None"
      proof -
        have "xs_id s \<notin> xs_id ` set (concat levels)" using dj \<open>s \<in> set l\<close> by blast
        then have "xs_id s \<notin> dom (fst ?re) \<union> dom (snd ?re)" using ih [THEN conjunct1] by (simp only: not_False_eq_True)
        then show ?thesis by (simp add: domIff)
      qed
      ultimately show ?thesis using o(1) by simp
    qed
    have kept: "fst (run_levels run (take k (levels @ [l]))) (xs_id t) = fst ?re' (xs_id t)"
      if k: "k \<le> length (levels @ [l])" "m < k" "t \<in> set ((levels @ [l]) ! m)" for k m t
    proof (cases "k \<le> length levels")
      case True
      with k have m: "m < length levels" "t \<in> set (levels ! m)" by (simp_all add: nth_append)
      have "fst (run_levels run (take k levels)) (xs_id t) = fst ?re (xs_id t)" using ih True k(2) m(2) by blast
      then show ?thesis using old(1) [OF m] True by simp
    next
      case False
      then show ?thesis using k(1) e by simp
    qed
    show ?case unfolding e using dom settled kept by blast
  qed
  then show "dom (fst (run_levels run levels)) \<union> dom (snd (run_levels run levels)) = xs_id ` set (concat levels)"
    and "k < length levels \<Longrightarrow> s \<in> set (levels ! k) \<Longrightarrow>
      settled_with run (fst (run_levels run (take k levels))) (run_levels run levels) s"
    and "m < k \<Longrightarrow> k \<le> length levels \<Longrightarrow> t \<in> set (levels ! m) \<Longrightarrow>
      fst (run_levels run (take k levels)) (xs_id t) = fst (run_levels run levels) (xs_id t)"
    by blast+
qed

text \<open>
  C28: A workflow that starts settles every step, each exactly one way, with what its runner gives
  for a prompt that was filled with the final results of all its dependencies; no step is ever
  reported as not completed.
\<close>

theorem every_step_is_settled:
  assumes "workflow_levels steps = Some (Inr (levels, ids))"
  shows "dom (fst (run_levels run levels)) \<union> dom (snd (run_levels run levels)) = set ids \<and>
    (\<forall>s \<in> set (concat levels). \<exists>R. settled_with run R (run_levels run levels) s
       \<and> (\<forall>d \<in> set (xs_deps s). R d = fst (run_levels run levels) d))"
proof -
  obtain expanded where
    e: "expandSteps steps = Some (Inr expanded)" "ids = map xs_id expanded" "distinct (map xs_id (concat levels))"
      "set (concat levels) = set expanded" "acyclic (step_edges expanded)"
      "\<forall>k < length levels. \<forall>s \<in> set (levels ! k). \<forall>d \<in> set (xs_deps s). \<exists>m < k. d \<in> xs_id ` set (levels ! m)"
    by (rule workflow_shape [OF assms])
  note r = run_levels_facts [OF e(3), where run = run]
  have "dom (fst (run_levels run levels)) \<union> dom (snd (run_levels run levels)) = set ids"
    unfolding r(1) e(2,4) by simp
  moreover have "\<exists>R. settled_with run R (run_levels run levels) s \<and> (\<forall>d \<in> set (xs_deps s). R d = fst (run_levels run levels) d)"
    if "s \<in> set (concat levels)" for s
  proof -
    from that obtain l where "l \<in> set levels" "s \<in> set l" by auto
    then obtain k where k: "k < length levels" "s \<in> set (levels ! k)" by (auto simp: in_set_conv_nth)
    have "fst (run_levels run (take k levels)) d = fst (run_levels run levels) d" if d: "d \<in> set (xs_deps s)" for d
    proof -
      from e(6) k d obtain m t where "m < k" "t \<in> set (levels ! m)" "d = xs_id t" by blast
      then show ?thesis using r(3) [of m k t] k(1) by simp
    qed
    with r(2) [OF k] show ?thesis by blast
  qed
  ultimately show ?thesis by blast
qed

section \<open>When the expansion returns\<close>

lemma range_ids_returns:
  "start \<le> stop + 1 \<Longrightarrow> - (2 ^ 63) \<le> start \<Longrightarrow> stop < max_i64 \<Longrightarrow>
   range_ids pre start stop = Some (map (\<lambda>i. pre @ itoa i) [start..stop])"
proof (induction "nat (stop + 1 - start)" arbitrary: start)
  case (Suc n)
  then have "i64 (start + 1) = start + 1" by (intro i64_id) (auto simp: max_i64_def)
  moreover have "range_ids pre (start + 1) stop = Some (map (\<lambda>i. pre @ itoa i) [start + 1..stop])"
    by (rule Suc.hyps(1)) (use Suc.hyps(2) Suc.prems in linarith)+
  ultimately show ?case using Suc.hyps(2) by (simp add: range_ids.simps [of pre start] upto_rec1)
qed (simp add: range_ids.simps)

lemma range_ids_endless: "i \<le> max_i64 \<Longrightarrow> range_ids pre i max_i64 = None"
proof (rule ccontr)
  assume i: "i \<le> max_i64" "range_ids pre i max_i64 \<noteq> None"
  then obtain ids where r: "range_ids pre i max_i64 = Some ids" by blast
  have "stop = max_i64 \<longrightarrow> i \<le> max_i64 \<longrightarrow> False" if "range_ids pre i stop = Some ids" for pre i stop ids
  proof (rule range_ids.raw_induct [OF _ that])
    fix f :: "string \<Rightarrow> int \<Rightarrow> int \<Rightarrow> string list option" and pre0 i0 stop0 ids0
    assume ih: "\<And>pre i stop ids. f pre i stop = Some ids \<Longrightarrow> stop = max_i64 \<longrightarrow> i \<le> max_i64 \<longrightarrow> False"
      and r0: "(if stop0 < i0 then Some [] else Option.bind (f pre0 (i64 (i0 + 1)) stop0) (\<lambda>ids. Some ((pre0 @ itoa i0) # ids))) = Some ids0"
    show "stop0 = max_i64 \<longrightarrow> i0 \<le> max_i64 \<longrightarrow> False"
    proof (intro impI)
      assume s: "stop0 = max_i64" "i0 \<le> max_i64"
      with r0 obtain ids' where "f pre0 (i64 (i0 + 1)) stop0 = Some ids'"
        by (cases "f pre0 (i64 (i0 + 1)) stop0") auto
      from ih [OF this] s(1) i64_range(2) [of "i0 + 1"] show False by simp
    qed
  qed
  from this [OF r] i(1) show False by blast
qed

text \<open>A range that is not refused and ends with the largest 64-bit integer.\<close>

definition endless :: "string \<Rightarrow> bool" where
  "endless spec \<longleftrightarrow> (\<exists>pre s e start. match_range spec = Some (pre, s, e) \<and> e \<noteq> [] \<and> atoi_digits s = Some start
     \<and> atoi_digits e = Some max_i64 \<and> max_i64 - start \<le> 1000)"

lemma digit_byte: "is_digit c \<Longrightarrow> 48 \<le> byte c"
  by (auto simp: is_digit_def byte_def)

lemma atoi_bounds: "atoi_digits s = Some n \<Longrightarrow> list_all is_digit s \<Longrightarrow> 0 \<le> n \<and> n \<le> max_i64"
proof -
  have "0 \<le> foldl (\<lambda>n c. 10 * n + (byte c - 48)) a s" if "0 \<le> a" "list_all is_digit s" for a
    using that
  proof (induction s arbitrary: a)
    case (Cons c s)
    then have "0 \<le> 10 * a + (byte c - 48)" using digit_byte [of c] by simp
    with Cons show ?case by simp
  qed simp
  then show "atoi_digits s = Some n \<Longrightarrow> list_all is_digit s \<Longrightarrow> 0 \<le> n \<and> n \<le> max_i64"
    by (auto simp: atoi_digits_def number_value_def split: if_splits)
qed

lemma match_range_digits:
  "match_range spec = Some (pre, s, e) \<Longrightarrow> list_all is_digit s \<and> list_all is_digit e"
  by (auto simp: match_range_def Let_def list_all_iff split: if_splits list.splits dest: set_takeWhileD)

lemma expandStepID_returns: "expandStepID spec = None \<longleftrightarrow> endless spec"
proof (cases "match_range spec")
  case (Some m)
  obtain pre s e where m: "m = (pre, s, e)" by (cases m)
  have d: "list_all is_digit s" "list_all is_digit e" using match_range_digits [of spec] Some m by auto
  show ?thesis
  proof (cases "atoi_digits s")
    case start: (Some start)
    note b = atoi_bounds [OF start d(1)]
    show ?thesis
    proof (cases "e = [] \<or> atoi_digits e = None")
      case True
      then show ?thesis using Some m start by (auto simp: expandStepID_def endless_def)
    next
      case False
      then obtain stop where stop: "atoi_digits e = Some stop" by blast
      note c = atoi_bounds [OF stop d(2)]
      show ?thesis
      proof (cases "stop = max_i64")
        case True
        then show ?thesis using Some m start False stop b range_ids_endless [of start pre]
          by (auto simp: expandStepID_def endless_def)
      next
        case nm: False
        then have "\<not> endless spec" using Some m stop by (auto simp: endless_def)
        moreover have "range_ids pre start stop = Some (map (\<lambda>i. pre @ itoa i) [start..stop])" if "start \<le> stop"
          by (rule range_ids_returns) (use that nm b c in auto)
        ultimately show ?thesis using Some m start False stop by (simp add: expandStepID_def)
      qed
    qed
  qed (use Some m in \<open>auto simp: expandStepID_def endless_def\<close>)
qed (auto simp: expandStepID_def endless_def)

lemma and_then_None: "and_then x f = None \<longleftrightarrow> x = None \<or> (\<exists>a. x = Some (Inr a) \<and> f a = None)"
  by (cases "(x, f)" rule: and_then.cases) auto

lemma wrapped_None: "wrapped g x = None \<longleftrightarrow> x = None"
  by (simp add: wrapped_def)

lemma expand_groups_returns: "\<forall>s \<in> set ss. \<not> endless (sd_id s) \<Longrightarrow> expand_groups used ss \<noteq> None"
proof (induction ss arbitrary: used)
  case (Cons s ss)
  then have "expandStepID (sd_id s) \<noteq> None" by (simp add: expandStepID_returns)
  moreover have "expand_groups used' ss \<noteq> None" for used' using Cons by simp
  ultimately show ?case by (auto simp: and_then_None wrapped_None simp del: not_None_eq split: sum.split)
qed simp

lemma expand_groups_deps:
  "expand_groups used ss = Some (Inr (gs, all)) \<Longrightarrow> g \<in> set gs \<Longrightarrow> \<exists>s \<in> set ss. eg_deps g = sd_deps s"
proof (induction ss arbitrary: used gs)
  case (Cons s ss)
  from Cons.prems(1) obtain ids where i: "sd_id s \<noteq> []" "expandStepID (sd_id s) = Some (Inr ids)"
    by (auto simp: and_then_Inr wrapped_Inr split: if_splits)
  with Cons.prems(1) obtain used' gs' where "expand_groups used' ss = Some (Inr (gs', all))"
      "gs = \<lparr>eg_origin = sd_id s, eg_ids = ids, eg_prompt = sd_prompt s, eg_deps = sd_deps s\<rparr> # gs'"
    by (cases "take_ids used ids") (auto simp: and_then_Inr wrapped_def)
  with Cons.IH [of used' gs'] Cons.prems(2) show ?case by auto
qed simp

lemma expand_deps_returns: "\<forall>d \<in> set ds. \<not> endless d \<Longrightarrow> expand_deps acc ds \<noteq> None"
  by (induction ds arbitrary: acc) (auto simp: and_then_None wrapped_None expandStepID_returns)

lemma in_sequence_returns: "(\<And>x. x \<in> set xs \<Longrightarrow> x \<noteq> None) \<Longrightarrow> in_sequence xs \<noteq> None"
proof (induction xs)
  case (Cons x xs)
  from Cons.prems [of x] have "x \<noteq> None" by simp
  moreover have "in_sequence xs \<noteq> None" by (rule Cons.IH) (use Cons.prems in simp)
  ultimately show ?case by (simp add: and_then_None del: not_None_eq)
qed simp


section \<open>Failed and silent steps\<close>

definition fan_in :: "step_def list" where
  "fan_in =
     [\<lparr>sd_id = ''C1'', sd_prompt = ''sum {{B1.output}}'', sd_deps = [''B1-2'']\<rparr>,
      \<lparr>sd_id = ''B1-2'', sd_prompt = ''part {{self.index}}'', sd_deps = []\<rparr>]"

definition half_failing :: step_runner where
  "half_failing x prompt = (if x = ''B1'' then Inl ''boom'' else if x = ''B2'' then Inr [] else Inr prompt)"

text \<open>
  A failed dependency does not stop the steps behind it: they run on a placeholder that
  the template reserves for outputs that cannot be missing.  And a step without output leaves no
  line in the answer at all.
\<close>

theorem failed_dependency_is_run_over:
  "runDAGWorkflow True half_failing fan_in =
     Some (Inr (''C1: sum [output of B1 not yet available]'' @ [newline_c] @ ''B1: '' @ cross_rune @ '' boom'' @ [newline_c]))"
  by code_simp

section \<open>Witnesses\<close>

definition fan_in_levels :: "expanded_step list list" where
  "fan_in_levels =
     [[\<lparr>xs_id = ''B1'', xs_origin = ''B1-2'', xs_prompt = ''part {{self.index}}'', xs_deps = [], xs_index = 0, xs_count = 2\<rparr>,
       \<lparr>xs_id = ''B2'', xs_origin = ''B1-2'', xs_prompt = ''part {{self.index}}'', xs_deps = [], xs_index = 1, xs_count = 2\<rparr>],
      [\<lparr>xs_id = ''C1'', xs_origin = ''C1'', xs_prompt = ''sum {{B1.output}}'', xs_deps = [''B1'', ''B2''], xs_index = 0, xs_count = 1\<rparr>]]"

lemma fan_in_runs: "workflow_levels fan_in = Some (Inr (fan_in_levels, [''C1'', ''B1'', ''B2'']))"
  by code_simp

lemma levels_respect_dependencies_witness:
  "set (map xs_id (concat fan_in_levels)) = {''C1'', ''B1'', ''B2''}"
  using levels_respect_dependencies [OF fan_in_runs] by simp

lemma every_step_is_settled_witness:
  "dom (fst (run_levels half_failing fan_in_levels)) \<union> dom (snd (run_levels half_failing fan_in_levels)) = {''C1'', ''B1'', ''B2''}"
  using every_step_is_settled [OF fan_in_runs, of half_failing] by simp

definition self_loop :: "step_def list" where
  "self_loop = [\<lparr>sd_id = ''A1-2'', sd_prompt = [], sd_deps = [''A1'']\<rparr>]"

lemma cycles_are_refused_witness:
  "\<exists>e. workflow_levels self_loop = Some (Inl e)"
proof -
  let ?ex = "[\<lparr>xs_id = ''A1'', xs_origin = ''A1-2'', xs_prompt = [], xs_deps = [''A1''], xs_index = 0, xs_count = 2\<rparr>,
    \<lparr>xs_id = ''A2'', xs_origin = ''A1-2'', xs_prompt = [], xs_deps = [''A1''], xs_index = 1, xs_count = 2\<rparr>]"
  have x: "expandSteps self_loop = Some (Inr ?ex)" by code_simp
  have "(''A1'', ''A1'') \<in> step_edges ?ex" by (simp add: step_edges_def) (rule exI [of _ "hd ?ex"], simp)
  with cycles_are_refused [OF x] show ?thesis by blast
qed


end
