(* ===== verification/FsEdit.thy ===== *)
theory FsEdit
  imports Prelude
begin

text \<open>
  How the edit tools find the text they replace (\<open>internal/tools/fs_edit.go\<close>, \<open>applyOneEdit\<close> of
  \<open>fs_patch.go\<close> and the body of \<open>runEdit\<close> in \<open>fs.go\<close>): an exact search first, then one by
  lines that forgives white space.  A slice with bounds out of order or out of range is
  a panic, which is a value here.
\<close>

section \<open>Exact occurrences\<close>

text \<open>The text before and after the first occurrence.\<close>

fun break_on :: "string \<Rightarrow> string \<Rightarrow> (string \<times> string) option" where
  "break_on sub [] = (if sub = [] then Some ([], []) else None)"
| "break_on sub (c # s) =
     (if prefix sub (c # s) then Some ([], drop (length sub) (c # s))
      else map_option (\<lambda>(a, b). (c # a, b)) (break_on sub s))"

lemma break_on_Some: "break_on sub s = Some (a, b) \<Longrightarrow> s = a @ sub @ b"
  by (induction sub s arbitrary: a b rule: break_on.induct) (auto simp: prefix_def split: if_splits)

lemma break_on_None: "break_on sub s = None \<longleftrightarrow> \<not> contains s sub"
  by (induction sub s rule: break_on.induct) auto

text \<open>\<open>strings.Count\<close> for a text that is not empty: occurrences that do not overlap.\<close>

function count_sub :: "string \<Rightarrow> string \<Rightarrow> nat" where
  "count_sub sub s =
     (if sub = [] then 0 else case break_on sub s of None \<Rightarrow> 0 | Some (a, b) \<Rightarrow> Suc (count_sub sub b))"
  by pat_completeness auto
termination
  by (relation "measure (\<lambda>(sub, s). length s)") (auto dest!: break_on_Some)

declare count_sub.simps [simp del]

section \<open>Lines\<close>

record edit_range =
  er_start :: nat
  er_end :: nat

text \<open>\<open>splitLinesWithOffsets\<close>: each line without its terminator, with the offset of its start.\<close>

function lines_at :: "nat \<Rightarrow> string \<Rightarrow> (string \<times> nat) list" where
  "lines_at start s =
     (if s = [] then []
      else let l = takeWhile (\<lambda>c. c \<noteq> newline_c) s in
           (trim_suffix [cr_c] l, start) #
           (if length l < length s then lines_at (start + length l + 1) (drop (length l + 1) s) else []))"
  by pat_completeness auto
termination
  by (relation "measure (\<lambda>(start, s). length s)") auto

declare lines_at.simps [simp del]

definition splitLinesWithOffsets :: "string \<Rightarrow> (string \<times> nat) list" where
  "splitLinesWithOffsets s = lines_at 0 s"

definition fold_newlines :: "string \<Rightarrow> string" where
  "fold_newlines s = replace_byte cr_c newline_c (replace_all [cr_c, newline_c] [newline_c] s)"

definition splitLines :: "string \<Rightarrow> string list" where
  "splitLines s =
     (let parts = split_byte (fold_newlines s) newline_c in
      if last parts = [] then butlast parts else parts)"

definition indent_byte :: "char \<Rightarrow> bool" where
  "indent_byte c \<longleftrightarrow> c = CHR '' '' \<or> c = tab_c"

definition trim_right_indent :: "string \<Rightarrow> string" where
  "trim_right_indent s = rev (dropWhile indent_byte (rev s))"

definition normTabTrailing :: "string \<Rightarrow> string" where
  "normTabTrailing s = trim_right_indent (replace_all [tab_c] ''    '' s)"

definition normContentOnly :: "string \<Rightarrow> string" where
  "normContentOnly s = dropWhile indent_byte (trim_right_indent s)"

definition terminatorLen :: "string \<Rightarrow> nat \<Rightarrow> nat" where
  "terminatorLen s at =
     (case drop at s of
        [] \<Rightarrow> 0
      | c # rest \<Rightarrow>
          if c = cr_c \<and> rest \<noteq> [] \<and> hd rest = newline_c then 2
          else if c = newline_c \<or> c = cr_c then 1 else 0)"

definition line_range :: "string \<Rightarrow> (string \<times> nat) list \<Rightarrow> nat \<Rightarrow> bool \<Rightarrow> nat \<Rightarrow> edit_range" where
  "line_range s data n trailing i =
     (let (l, off) = data ! (i + n - 1); stop = off + length l in
      \<lparr>er_start = snd (data ! i), er_end = (if trailing then stop + terminatorLen s stop else stop)\<rparr>)"

definition matchLineSeq ::
    "string \<Rightarrow> (string \<times> nat) list \<Rightarrow> string list \<Rightarrow> bool \<Rightarrow> (string \<Rightarrow> string) \<Rightarrow> edit_range list" where
  "matchLineSeq s data olds trailing norm =
     (let n = length olds in
      if n = 0 \<or> n > length data then []
      else map (line_range s data n trailing)
             (filter (\<lambda>i. map (\<lambda>d. norm (fst d)) (take n (drop i data)) = map norm olds) [0..<length data - n + 1]))"

definition lenientFind :: "string \<Rightarrow> string \<Rightarrow> edit_range list" where
  "lenientFind s old =
     (let data = splitLinesWithOffsets s; olds = splitLines old in
      if olds = [] then []
      else let trailing = suffix [newline_c] (fold_newlines old);
               rs = matchLineSeq s data olds trailing normTabTrailing in
           if rs \<noteq> [] then rs else matchLineSeq s data olds trailing normContentOnly)"

section \<open>One edit\<close>

datatype edit_error =
    Empty_block
  | Many_sites nat
  | Not_found
  | Many_normalized nat
  | Slice_panic

text \<open>\<open>s[:start] + new + s[end:]\<close>.\<close>

definition splice :: "string \<Rightarrow> edit_range \<Rightarrow> string \<Rightarrow> string option" where
  "splice s r new =
     (if er_start r \<le> length s \<and> er_end r \<le> length s then Some (take (er_start r) s @ new @ drop (er_end r) s) else None)"

definition spliced :: "string \<Rightarrow> edit_range \<Rightarrow> string \<Rightarrow> edit_error + string" where
  "spliced s r new = (case splice s r new of None \<Rightarrow> Inl Slice_panic | Some t \<Rightarrow> Inr t)"

definition replace_first :: "string \<Rightarrow> string \<Rightarrow> string \<Rightarrow> string" where
  "replace_first s old new = (case break_on old s of None \<Rightarrow> s | Some (a, b) \<Rightarrow> a @ new @ b)"

definition applyOneEdit :: "string \<Rightarrow> string \<Rightarrow> string \<Rightarrow> edit_error + string" where
  "applyOneEdit src old new =
     (if old = [] then Inl Empty_block
      else if 1 \<le> count_sub old src then
        (if 1 < count_sub old src then Inl (Many_sites (count_sub old src)) else Inr (replace_first src old new))
      else case lenientFind src old of
             [] \<Rightarrow> Inl Not_found
           | [r] \<Rightarrow> spliced src r new
           | rs \<Rightarrow> Inl (Many_normalized (length rs)))"

text \<open>The replacement of every range, back to front, at the offsets of the original text.\<close>

definition replace_ranges :: "string \<Rightarrow> edit_range list \<Rightarrow> string \<Rightarrow> edit_error + string" where
  "replace_ranges src rs new =
     fold (\<lambda>r acc. case acc of Inl e \<Rightarrow> Inl e | Inr t \<Rightarrow> spliced t r new) (rev rs) (Inr src)"

text \<open>What \<open>runEdit\<close> writes, with the number of replacements it reports.\<close>

definition edit_text :: "string \<Rightarrow> string \<Rightarrow> string \<Rightarrow> bool \<Rightarrow> edit_error + string \<times> nat" where
  "edit_text src old new everywhere =
     (if old = [] then Inl Empty_block
      else let c = count_sub old src in
      if 1 \<le> c then
        (if 1 < c \<and> \<not> everywhere then Inl (Many_sites c)
         else Inr (if everywhere then replace_all old new src else replace_first src old new, c))
      else case lenientFind src old of
             [] \<Rightarrow> Inl Not_found
           | r # rs \<Rightarrow>
               if rs \<noteq> [] \<and> \<not> everywhere then Inl (Many_normalized (length (r # rs)))
               else if everywhere then map_sum id (\<lambda>t. (t, length (r # rs))) (replace_ranges src (r # rs) new)
               else map_sum id (\<lambda>t. (t, 1)) (spliced src r new))"

section \<open>The ranges the lenient search finds\<close>

lemma lines_at_unfold:
  "s \<noteq> [] \<Longrightarrow> lines_at start s =
     (trim_suffix [cr_c] (takeWhile (\<lambda>c. c \<noteq> newline_c) s), start) #
     (if length (takeWhile (\<lambda>c. c \<noteq> newline_c) s) < length s
      then lines_at (start + length (takeWhile (\<lambda>c. c \<noteq> newline_c) s) + 1)
             (drop (length (takeWhile (\<lambda>c. c \<noteq> newline_c) s) + 1) s) else [])"
  by (subst lines_at.simps) (simp add: Let_def)

lemma lines_at_Nil [simp]: "lines_at start [] = []"
  by (simp add: lines_at.simps)

lemma take_line: "newline_c \<notin> set w \<Longrightarrow> takeWhile (\<lambda>c. c \<noteq> newline_c) (w @ newline_c # r) = w"
  by (induction w) auto

lemma take_only_line: "newline_c \<notin> set s \<Longrightarrow> takeWhile (\<lambda>c. c \<noteq> newline_c) s = s"
  by (induction s) auto

text \<open>A text is its first line, a newline and the rest, or its one line.\<close>

lemma first_line:
  obtains (one) "newline_c \<notin> set s" "takeWhile (\<lambda>c. c \<noteq> newline_c) s = s"
  | (more) w r where "s = w @ newline_c # r" "newline_c \<notin> set w" "takeWhile (\<lambda>c. c \<noteq> newline_c) s = w"
proof (cases "newline_c \<in> set s")
  case True
  then obtain w r where w: "s = w @ newline_c # r" "newline_c \<notin> set w" using split_list_first by metis
  with that(2) take_line [of w r] show ?thesis by blast
next
  case False
  with that(1) take_only_line show ?thesis by blast
qed

lemma lines_at_one: "newline_c \<notin> set s \<Longrightarrow> s \<noteq> [] \<Longrightarrow> lines_at start s = [(trim_suffix [cr_c] s, start)]"
  by (simp add: lines_at_unfold take_only_line)

lemma lines_at_more:
  "newline_c \<notin> set w \<Longrightarrow> lines_at start (w @ newline_c # r) = (trim_suffix [cr_c] w, start) # lines_at (start + length w + 1) r"
  by (simp add: lines_at_unfold take_line)

text \<open>The lines from the \<open>i\<close>th on are those of the text from its offset on, a line start.\<close>

lemma lines_from:
  "i < length (lines_at st s) \<Longrightarrow>
   \<exists>k < length s. snd (lines_at st s ! i) = st + k \<and> drop i (lines_at st s) = lines_at (st + k) (drop k s)
     \<and> (k = 0 \<or> s ! (k - 1) = newline_c)"
proof (induction i arbitrary: st s)
  case 0
  then have "s \<noteq> []" by auto
  then show ?case by (intro exI [of _ 0]) (simp add: lines_at_unfold)
next
  case (Suc i)
  then have ne: "s \<noteq> []" by auto
  show ?case
  proof (cases rule: first_line [of s])
    case one
    with Suc.prems lines_at_one [OF one(1) ne] show ?thesis by simp
  next
    case (more w r)
    have e: "lines_at st s = (trim_suffix [cr_c] w, st) # lines_at (st + length w + 1) r"
      using lines_at_more [OF more(2)] more(1) by simp
    then have "i < length (lines_at (st + length w + 1) r)" using Suc.prems by simp
    from Suc.IH [OF this] obtain k where k: "k < length r"
      "snd (lines_at (st + length w + 1) r ! i) = st + length w + 1 + k"
      "drop i (lines_at (st + length w + 1) r) = lines_at (st + length w + 1 + k) (drop k r)"
      "k = 0 \<or> r ! (k - 1) = newline_c" by blast
    have "s ! (length w + k) = newline_c" using k(4) more(1) by (cases k) (auto simp: nth_append)
    with k e more(1) show ?thesis by (intro exI [of _ "length w + 1 + k"]) (simp add: add.assoc)
  qed
qed

text \<open>The lines of a region that ends with the content of its last one.\<close>

definition region_lines :: "string \<Rightarrow> string list" where
  "region_lines m = (let ps = split_byte m newline_c in map (trim_suffix [cr_c]) (butlast ps) @ [last ps])"

lemma trim_suffix_prefix: "\<exists>u. w = trim_suffix v w @ u"
  by (cases "suffix v w") (auto simp: trim_suffix_def suffix_def)

lemma lines_until:
  "n < length (lines_at st s) \<Longrightarrow> lines_at st s ! n = (l, off) \<Longrightarrow>
   st \<le> off \<and> off - st + length l \<le> length s
   \<and> region_lines (take (off - st + length l) s) = map fst (take (Suc n) (lines_at st s))"
proof (induction n arbitrary: st s)
  case 0
  then have ne: "s \<noteq> []" by auto
  have l: "l = trim_suffix [cr_c] (takeWhile (\<lambda>c. c \<noteq> newline_c) s)" "off = st"
    using 0(2) by (simp_all add: lines_at_unfold [OF ne])
  then obtain u where u: "takeWhile (\<lambda>c. c \<noteq> newline_c) s = l @ u" using trim_suffix_prefix by blast
  then have s: "s = l @ u @ dropWhile (\<lambda>c. c \<noteq> newline_c) s"
    using takeWhile_dropWhile_id [of "\<lambda>c. c \<noteq> newline_c" s] by simp
  have "newline_c \<notin> set (l @ u)" unfolding u [symmetric] by (auto dest: set_takeWhileD)
  then have n: "newline_c \<notin> set l" by simp
  have "take (length l) s = l" "length l \<le> length s" using arg_cong [OF s, of "take (length l)"] arg_cong [OF s, of length] by simp_all
  then show ?case using l n by (simp add: region_lines_def split_byte_absent lines_at_unfold [OF ne])
next
  case (Suc n)
  then have ne: "s \<noteq> []" by auto
  show ?case
  proof (cases rule: first_line [of s])
    case one
    with Suc.prems lines_at_one [OF one(1) ne] show ?thesis by simp
  next
    case (more w r)
    have e: "lines_at st s = (trim_suffix [cr_c] w, st) # lines_at (st + length w + 1) r"
      using lines_at_more [OF more(2)] more(1) by simp
    from Suc.prems e have "n < length (lines_at (st + length w + 1) r)" "lines_at (st + length w + 1) r ! n = (l, off)" by simp_all
    note ih = Suc.IH [OF this]
    let ?e = "off - (st + length w + 1) + length l"
    have "st + length w + 1 \<le> off" using ih by blast
    then have o: "off - st + length l = length w + 1 + ?e" by arith
    have "take (off - st + length l) s = w @ newline_c # take ?e r" unfolding o more(1) by simp
    then have reg: "region_lines (take (off - st + length l) s) = trim_suffix [cr_c] w # region_lines (take ?e r)"
      using split_byte_append [OF more(2), of "take ?e r"] by (simp add: region_lines_def Let_def)
    have "region_lines (take ?e r) = map fst (take (Suc n) (lines_at (st + length w + 1) r))" using ih by blast
    then have "region_lines (take (off - st + length l) s) = map fst (take (Suc (Suc n)) (lines_at st s))"
      unfolding reg e by (simp only: take_Suc_Cons list.map fst_conv)
    moreover have "?e \<le> length r" using ih by blast
    then have "off - st + length l \<le> length s" unfolding o more(1) by (simp only: length_append length_Cons)
    moreover have "st \<le> off" using \<open>st + length w + 1 \<le> off\<close> by simp
    ultimately show ?thesis by blast
  qed
qed

text \<open>
  What the lenient search takes for the old text: whole lines that agree with its lines up to
  white space, with the terminator of the last one where the old text ends in one.
\<close>

definition reads_like :: "string \<Rightarrow> string \<Rightarrow> bool" where
  "reads_like m old \<longleftrightarrow>
     (\<exists>body t norm. m = body @ t \<and> t \<in> {[], [newline_c], [cr_c], [cr_c, newline_c]} \<and> norm \<in> {normTabTrailing, normContentOnly}
        \<and> map norm (region_lines body) = map norm (splitLines old))"

definition line_start :: "string \<Rightarrow> bool" where
  "line_start a \<longleftrightarrow> a = [] \<or> last a = newline_c"

lemma terminator_text:
  "terminatorLen s at \<le> length s - at \<and> take (terminatorLen s at) (drop at s) \<in> {[], [newline_c], [cr_c], [cr_c, newline_c]}"
proof (cases "drop at s")
  case (Cons c rest)
  then have "length s - at = Suc (length rest)" by (metis length_drop length_Cons)
  with Cons show ?thesis by (cases rest) (auto simp: terminatorLen_def)
qed (simp add: terminatorLen_def)

lemma matched_range:
  assumes "r \<in> set (matchLineSeq s (lines_at 0 s) olds trailing norm)"
  obtains a body t b where "s = a @ body @ t @ b" "er_start r = length a" "er_end r = length a + length body + length t"
    "line_start a" "t \<in> {[], [newline_c], [cr_c], [cr_c, newline_c]}" "map norm (region_lines body) = map norm olds"
proof -
  let ?d = "lines_at 0 s" and ?n = "length olds"
  obtain i where i: "i + ?n \<le> length ?d" "0 < ?n" "r = line_range s ?d ?n trailing i"
      "map (\<lambda>d. norm (fst d)) (take ?n (drop i ?d)) = map norm olds"
  proof -
    have n: "0 < ?n" "?n \<le> length ?d" using assms by (auto simp: matchLineSeq_def Let_def split: if_splits)
    then have "r \<in> line_range s ?d ?n trailing ` {i. i < length ?d - ?n + 1 \<and> map (\<lambda>d. norm (fst d)) (take ?n (drop i ?d)) = map norm olds}"
      using assms by (simp add: matchLineSeq_def Let_def image_def conj_commute del: upt_Suc)
    then obtain i where "i < length ?d - ?n + 1" "r = line_range s ?d ?n trailing i"
      "map (\<lambda>d. norm (fst d)) (take ?n (drop i ?d)) = map norm olds" by blast
    with n that [of i] show ?thesis by simp
  qed
  obtain n' where n': "?n = Suc n'" using i(2) by (cases ?n) auto
  have "i < length ?d" using i(1) n' by simp
  from lines_from [OF this] obtain k where k: "k < length s" "snd (?d ! i) = k" "drop i ?d = lines_at k (drop k s)"
    "k = 0 \<or> s ! (k - 1) = newline_c" by auto
  obtain l off where lo: "?d ! (i + n') = (l, off)" by (cases "?d ! (i + n')")
  have "lines_at k (drop k s) ! n' = (l, off)" "n' < length (lines_at k (drop k s))"
    using lo i(1) n' unfolding k(3) [symmetric] by simp_all
  note u = lines_until [OF this(2,1)]
  let ?e = "off - k + length l" and ?stop = "off + length l"
  let ?w = "if trailing then terminatorLen s ?stop else 0"
  let ?t = "take ?w (drop ?stop s)"
  have st: "?stop = k + ?e" using u by simp
  have e: "?e \<le> length s - k" using u unfolding length_drop by blast
  then have stop: "?stop \<le> length s" using k(1) st by arith
  have "terminatorLen s ?stop \<le> length s - ?stop" using terminator_text [of s ?stop] by blast
  then have len: "?stop + ?w \<le> length s" using stop by (cases trailing) arith+
  have r: "er_start r = k" "er_end r = ?stop + ?w" using i(3) k(2) lo n' by (simp_all add: line_range_def Let_def)
  have d1: "drop ?e (drop k s) = drop ?stop s" unfolding st by (simp add: add.commute)
  have d2: "drop ?w (drop ?stop s) = drop (?stop + ?w) s" by (simp add: add.commute)
  have "s = take k s @ drop k s" by simp
  also have "drop k s = take ?e (drop k s) @ drop ?stop s" using append_take_drop_id [of ?e "drop k s"] unfolding d1 by (rule sym)
  also have "drop ?stop s = ?t @ drop (?stop + ?w) s" using append_take_drop_id [of ?w "drop ?stop s"] unfolding d2 by (rule sym)
  finally have "s = take k s @ take ?e (drop k s) @ ?t @ drop (?stop + ?w) s" .
  moreover have "line_start (take k s)"
    using k(1,4) by (cases k) (auto simp: line_start_def take_Suc_conv_app_nth)
  moreover have "?t \<in> {[], [newline_c], [cr_c], [cr_c, newline_c]}" using terminator_text [of s ?stop] by auto
  moreover have "map norm (region_lines (take ?e (drop k s))) = map norm olds"
  proof -
    have reg: "region_lines (take ?e (drop k s)) = map fst (take (Suc n') (lines_at k (drop k s)))" using u by blast
    show ?thesis unfolding reg using i(4) n' unfolding k(3) by (simp add: comp_def)
  qed
  moreover have "length (take k s) = k" "length (take ?e (drop k s)) = ?e" "length ?t = ?w" using e len k(1) by simp_all
  moreover have "er_end r = k + ?e + ?w" using r(2) st by (simp only:)
  ultimately show ?thesis using that [of "take k s" "take ?e (drop k s)" ?t "drop (?stop + ?w) s"] r(1) by (simp only:)
qed

lemma lenient_range:
  assumes "r \<in> set (lenientFind s old)"
  obtains a m b where "s = a @ m @ b" "er_start r = length a" "er_end r = length a + length m" "line_start a" "reads_like m old"
proof -
  obtain norm trailing where "norm \<in> {normTabTrailing, normContentOnly}"
    "r \<in> set (matchLineSeq s (lines_at 0 s) (splitLines old) trailing norm)"
    using assms by (auto simp: lenientFind_def Let_def splitLinesWithOffsets_def split: if_splits)
  note n = this
  obtain a body t b where x: "s = a @ body @ t @ b" "er_start r = length a" "er_end r = length a + length body + length t"
    "line_start a" "t \<in> {[], [newline_c], [cr_c], [cr_c, newline_c]}" "map norm (region_lines body) = map norm (splitLines old)"
    by (rule matched_range [OF n(2)])
  have "reads_like (body @ t) old" unfolding reads_like_def using x(5,6) n(1) by blast
  then show ?thesis using that [of a "body @ t" b] x by simp
qed

text \<open>
  C32: An edit is local: what an accepted edit returns is the text with one stretch replaced by the
  new one, and that stretch is the old text, which occurs there, or whole lines that agree with it up to
  white space.  The offsets are always in range, so an edit of one site never panics.
\<close>

theorem edit_is_local:
  "(case applyOneEdit src old new of
      Inr out \<Rightarrow> \<exists>a m b. src = a @ m @ b \<and> out = a @ new @ b \<and> (m = old \<or> (line_start a \<and> reads_like m old))
    | Inl e \<Rightarrow> e \<noteq> Slice_panic)"
proof -
  consider "old = []" | "old \<noteq> []" "1 \<le> count_sub old src" | "old \<noteq> []" "count_sub old src = 0" by fastforce
  then show ?thesis
  proof cases
    case 2
    then obtain a b where ab: "break_on old src = Some (a, b)" by (auto simp: count_sub.simps [of old src] split: option.splits)
    from break_on_Some [OF ab] 2 ab show ?thesis by (auto simp: applyOneEdit_def replace_first_def)
  next
    case 3
    show ?thesis
    proof (cases "lenientFind src old")
      case (Cons r rs)
      show ?thesis
      proof (cases rs)
        case Nil
        have "r \<in> set (lenientFind src old)" using Cons by simp
        then obtain a m b where x: "src = a @ m @ b" "er_start r = length a" "er_end r = length a + length m" "line_start a" "reads_like m old"
          by (rule lenient_range)
        then have "applyOneEdit src old new = Inr (a @ new @ b)"
          using 3 Cons Nil by (simp add: applyOneEdit_def spliced_def splice_def)
        with x show ?thesis by auto
      qed (use 3 Cons in \<open>simp add: applyOneEdit_def\<close>)
    qed (use 3 in \<open>simp add: applyOneEdit_def\<close>)
  qed (simp add: applyOneEdit_def)
qed

section \<open>Sites that overlap\<close>

definition three_lines :: string where
  "three_lines = ''x '' @ [newline_c] @ ''x '' @ [newline_c] @ ''x '' @ [newline_c]"

text \<open>
  Ranges of the lenient search may overlap, and \<open>replace_all\<close> splices them all at their original
  offsets: with a short new text the call panics, with a long one pieces of the new text itself are cut and kept.
\<close>

theorem overlapping_ranges_break_replace_all:
  "edit_text three_lines (''x'' @ [newline_c] @ ''x'') [] True = Inl Slice_panic
   \<and> edit_text three_lines (''x'' @ [newline_c] @ ''x'') ''abcdefgh'' True = Inr (''abcdefghcdefgh'' @ [newline_c], 2)"
  by code_simp

text \<open>Occurrences are counted without overlap, so a text at two overlapping sites passes for unique.\<close>

lemma overlapping_sites_count_once: "applyOneEdit ''aaa'' ''aa'' ''b'' = Inr ''ba''"
  by code_simp

end
