(* ===== verification/FsPatch.thy ===== *)
theory FsPatch
  imports FsEdit PathNorm
begin

text \<open>
  The patch tool: the reader of its envelope (\<open>internal/tools/fs_patch_parse.go\<close>), the path jail of the
  file tools (\<open>resolveWithinRoot\<close> in \<open>fs.go\<close>), and the two halves of an atomic patch
  (\<open>fs_patch.go\<close>): \<open>preparePatch\<close> checks every operation in memory, \<open>commitPatch\<close> writes the
  changes and rolls back when a write fails.  The disk is a map from resolved paths to
  contents; a path that cannot be read is taken for one that does not exist, as in the code.
  Which writes fail, and what a failed one leaves behind, is an argument.
\<close>

section \<open>Reading a patch\<close>

datatype patch_op =
    Add_file string string
  | Update_file string string string
  | Delete_file string
  | Move_file string string

datatype patch_error =
    Missing_begin
  | Missing_end
  | Empty_path string nat
  | Missing_to nat
  | Unexpected_line nat string
  | Empty_body nat
  | No_old_text nat
  | Bad_prefix nat string

definition begin_line :: string where "begin_line = ''*** Begin Patch''"
definition end_line :: string where "end_line = ''*** End Patch''"
definition add_header :: string where "add_header = ''*** Add File: ''"
definition update_header :: string where "update_header = ''*** Update File: ''"
definition delete_header :: string where "delete_header = ''*** Delete File: ''"
definition move_header :: string where "move_header = ''*** Move File: ''"
definition to_header :: string where "to_header = ''*** To: ''"
definition header_start :: string where "header_start = ''*** ''"

lemmas header_defs = begin_line_def end_line_def add_header_def update_header_def delete_header_def
  move_header_def to_header_def header_start_def

definition not_header :: "string \<Rightarrow> bool" where
  "not_header line \<longleftrightarrow> \<not> prefix header_start line"

text \<open>\<open>takeRawBody\<close>: the body, and the lines it leaves.\<close>

definition takeRawBody :: "string list \<Rightarrow> string \<times> string list" where
  "takeRawBody lines = (join_byte newline_c (takeWhile not_header lines), dropWhile not_header lines)"

fun update_parts :: "nat \<Rightarrow> string list \<Rightarrow> patch_error + string list \<times> string list" where
  "update_parts n [] = Inr ([], [])"
| "update_parts n (raw # ls) =
     (let rest = (\<lambda>os ns. map_sum id (\<lambda>(o1, n1). (os @ o1, ns @ n1)) (update_parts (Suc n) ls)) in
      case raw of
        [] \<Rightarrow> rest [[]] [[]]
      | c # t \<Rightarrow>
          if c = CHR '' '' then rest [t] [t]
          else if c = CHR ''-'' then rest [t] []
          else if c = CHR ''+'' then rest [] [t]
          else Inl (Bad_prefix n raw))"

definition parseUpdateBody :: "string \<Rightarrow> nat \<Rightarrow> patch_error + string \<times> string" where
  "parseUpdateBody body start =
     (if body = [] then Inl (Empty_body start)
      else case update_parts start (split_byte body newline_c) of
             Inl e \<Rightarrow> Inl e
           | Inr (os, ns) \<Rightarrow>
               if join_byte newline_c os = [] then Inl (No_old_text start)
               else Inr (join_byte newline_c os, join_byte newline_c ns))"

definition header_path :: "string \<Rightarrow> string \<Rightarrow> string" where
  "header_path h line = trim_space (trim_prefix h line)"

text \<open>The loop of \<open>parsePatch\<close> on the lines left, with the number of the first of them.\<close>

function parse_ops :: "nat \<Rightarrow> string list \<Rightarrow> patch_error + patch_op list" where
  "parse_ops i [] = Inl Missing_end"
| "parse_ops i (line # rest) =
     (let (body, rest') = takeRawBody rest; next = i + 1 + (length rest - length rest') in
      if prefix end_line line then Inr []
      else if prefix add_header line then
        (if header_path add_header line = [] then Inl (Empty_path ''Add File'' i)
         else map_sum id ((#) (Add_file (header_path add_header line) body)) (parse_ops next rest'))
      else if prefix update_header line then
        (if header_path update_header line = [] then Inl (Empty_path ''Update File'' i)
         else case parseUpdateBody body i of
                Inl e \<Rightarrow> Inl e
              | Inr (old, neu) \<Rightarrow>
                  map_sum id ((#) (Update_file (header_path update_header line) old neu)) (parse_ops next rest'))
      else if prefix delete_header line then
        (if header_path delete_header line = [] then Inl (Empty_path ''Delete File'' i)
         else map_sum id ((#) (Delete_file (header_path delete_header line))) (parse_ops (i + 1) rest))
      else if prefix move_header line then
        (if header_path move_header line = [] then Inl (Empty_path ''Move File'' i)
         else case rest of
                [] \<Rightarrow> Inl (Missing_to (i + 1))
              | to # rest2 \<Rightarrow>
                  if \<not> prefix to_header to then Inl (Missing_to (i + 1))
                  else if header_path to_header to = [] then Inl (Empty_path ''Move File'' (i + 1))
                  else map_sum id ((#) (Move_file (header_path move_header line) (header_path to_header to)))
                         (parse_ops (i + 2) rest2))
      else Inl (Unexpected_line i line))"
  by pat_completeness auto
termination
  by (relation "measure (\<lambda>(i, ls). length ls)") (auto simp: takeRawBody_def length_dropWhile_le le_imp_less_Suc)

declare parse_ops.simps(2) [simp del]

definition patch_lines :: "string \<Rightarrow> string list" where
  "patch_lines txt =
     (let ls = split_byte (replace_all [cr_c, newline_c] [newline_c] txt) newline_c in
      if last ls = [] then butlast ls else ls)"

definition parsePatch :: "string \<Rightarrow> patch_error + patch_op list" where
  "parsePatch txt =
     (case patch_lines txt of
        [] \<Rightarrow> Inl Missing_begin
      | first # rest \<Rightarrow> if trim_space first \<noteq> begin_line then Inl Missing_begin else parse_ops 2 rest)"

section \<open>The path jail\<close>

datatype jail_error = Empty_jail_path | Outside_root string | Dots_outside_root | Path_outside_root

definition join_path :: "string \<Rightarrow> string \<Rightarrow> string" where
  "join_path a b = (if a = [] \<and> b = [] then [] else if a = [] then path_clean b else if b = [] then path_clean a
     else path_clean (a @ ''/'' @ b))"

definition isAbsolutePath :: "string \<Rightarrow> bool" where
  "isAbsolutePath p \<longleftrightarrow> prefix ''/'' p \<or> prefix ''/'' (replace_byte bslash (CHR ''/'') p)
     \<or> (3 \<le> length p \<and> p ! 1 = CHR '':'' \<and> replace_byte bslash (CHR ''/'') p ! 2 = CHR ''/'')"

definition hasDotDot :: "string \<Rightarrow> bool" where
  "hasDotDot p \<longleftrightarrow> ''..'' \<in> set (split_byte (replace_byte bslash (CHR ''/'') p) (CHR ''/''))"

definition withinRoot :: "string \<Rightarrow> string \<Rightarrow> bool" where
  "withinRoot resolved root \<longleftrightarrow> resolved = root \<or> prefix (root @ ''/'') resolved"

text \<open>\<open>filepath.Rel\<close> for a path within the base, which is the only use of it here.\<close>

definition rel_within :: "string \<Rightarrow> string \<Rightarrow> string" where
  "rel_within base target = (if target = base then ''.'' else drop (length base + 1) target)"

definition resolveWithinRoot :: "string \<Rightarrow> string \<Rightarrow> string \<Rightarrow> jail_error + string" where
  "resolveWithinRoot cwd root p =
     (if p = [] then Inl Empty_jail_path
      else let cleanRoot = path_clean root;
               absRoot = (if prefix ''/'' cleanRoot then path_clean cleanRoot else join_path cwd cleanRoot);
               cleaned = path_clean p in
      if isAbsolutePath p \<and> \<not> withinRoot cleaned absRoot then Inl (Outside_root p)
      else let q = (if isAbsolutePath p then rel_within absRoot cleaned else p);
               resolved = path_clean (join_path root q) in
           if \<not> withinRoot resolved cleanRoot then Inl (if hasDotDot q then Dots_outside_root else Path_outside_root)
           else Inr resolved)"

section \<open>Preparing a patch\<close>

type_synonym disk = "string \<rightharpoonup> string"

record patch_entry =
  pe_rel :: string
  pe_orig :: "string option"
  pe_existed :: bool
  pe_content :: string
  pe_deleted :: bool

text \<open>The files touched so far, in the order of their first touch.\<close>

type_synonym patch_memory = "(string \<times> patch_entry) list"

definition fresh_entry :: "disk \<Rightarrow> string \<Rightarrow> string \<Rightarrow> patch_entry" where
  "fresh_entry d ap rel =
     (case d ap of
        Some data \<Rightarrow> \<lparr>pe_rel = rel, pe_orig = Some data, pe_existed = True, pe_content = data, pe_deleted = False\<rparr>
      | None \<Rightarrow> \<lparr>pe_rel = rel, pe_orig = None, pe_existed = False, pe_content = [], pe_deleted = False\<rparr>)"

definition ensure :: "disk \<Rightarrow> string \<Rightarrow> string \<Rightarrow> patch_memory \<Rightarrow> patch_memory" where
  "ensure d ap rel mem = (if map_of mem ap \<noteq> None then mem else mem @ [(ap, fresh_entry d ap rel)])"

definition entry_of :: "patch_memory \<Rightarrow> string \<Rightarrow> patch_entry" where
  "entry_of mem ap = the (map_of mem ap)"

definition set_entry :: "string \<Rightarrow> (patch_entry \<Rightarrow> patch_entry) \<Rightarrow> patch_memory \<Rightarrow> patch_memory" where
  "set_entry ap f mem = map (\<lambda>(a, e). (a, if a = ap then f e else e)) mem"

definition present :: "patch_entry \<Rightarrow> bool" where
  "present e \<longleftrightarrow> pe_existed e \<and> \<not> pe_deleted e"

datatype prepare_error =
    Jail nat jail_error
  | Already_exists nat string
  | Does_not_exist nat string
  | Edit_failed nat string edit_error

definition prepare_op :: "(string \<Rightarrow> jail_error + string) \<Rightarrow> disk \<Rightarrow> nat \<Rightarrow> patch_op \<Rightarrow> patch_memory \<Rightarrow> prepare_error + patch_memory" where
  "prepare_op resolve d i op mem =
     (case op of
        Add_file p body \<Rightarrow>
          (case resolve p of
             Inl e \<Rightarrow> Inl (Jail i e)
           | Inr ap \<Rightarrow>
               let m = ensure d ap p mem in
               if present (entry_of m ap) then Inl (Already_exists i p)
               else Inr (set_entry ap (\<lambda>e. e\<lparr>pe_content := body, pe_existed := True, pe_deleted := False\<rparr>) m))
      | Update_file p old neu \<Rightarrow>
          (case resolve p of
             Inl e \<Rightarrow> Inl (Jail i e)
           | Inr ap \<Rightarrow>
               let m = ensure d ap p mem in
               if \<not> present (entry_of m ap) then Inl (Does_not_exist i p)
               else case applyOneEdit (pe_content (entry_of m ap)) old neu of
                      Inl e \<Rightarrow> Inl (Edit_failed i p e)
                    | Inr t \<Rightarrow> Inr (set_entry ap (\<lambda>e. e\<lparr>pe_content := t\<rparr>) m))
      | Delete_file p \<Rightarrow>
          (case resolve p of
             Inl e \<Rightarrow> Inl (Jail i e)
           | Inr ap \<Rightarrow>
               let m = ensure d ap p mem in
               if \<not> present (entry_of m ap) then Inl (Does_not_exist i p)
               else Inr (set_entry ap (\<lambda>e. e\<lparr>pe_deleted := True\<rparr>) m))
      | Move_file p q \<Rightarrow>
          (case resolve p of
             Inl e \<Rightarrow> Inl (Jail i e)
           | Inr src \<Rightarrow>
               (case resolve q of
                  Inl e \<Rightarrow> Inl (Jail i e)
                | Inr dst \<Rightarrow>
                    let m = ensure d src p mem in
                    if \<not> present (entry_of m src) then Inl (Does_not_exist i p)
                    else let m' = ensure d dst q m in
                         if present (entry_of m' dst) then Inl (Already_exists i q)
                         else Inr (set_entry src (\<lambda>e. e\<lparr>pe_deleted := True\<rparr>)
                                (set_entry dst (\<lambda>e. e\<lparr>pe_content := pe_content (entry_of m' src), pe_existed := True,
                                   pe_deleted := False\<rparr>) m')))))"

fun prepare_ops :: "(string \<Rightarrow> jail_error + string) \<Rightarrow> disk \<Rightarrow> nat \<Rightarrow> patch_op list \<Rightarrow> patch_memory \<Rightarrow> prepare_error + patch_memory" where
  "prepare_ops resolve d i [] mem = Inr mem"
| "prepare_ops resolve d i (op # ops) mem =
     (case prepare_op resolve d i op mem of
        Inl e \<Rightarrow> Inl e
      | Inr mem' \<Rightarrow> prepare_ops resolve d (Suc i) ops mem')"

record staged_change =
  sc_rel :: string
  sc_abs :: string
  sc_orig :: "string option"
  sc_final :: "string option"

definition stage_entry :: "string \<times> patch_entry \<Rightarrow> staged_change option" where
  "stage_entry ae =
     (case ae of (ap, e) \<Rightarrow>
        if pe_deleted e \<and> pe_orig e = None then None
        else if \<not> pe_deleted e \<and> pe_orig e = Some (pe_content e) then None
        else Some \<lparr>sc_rel = pe_rel e, sc_abs = ap, sc_orig = pe_orig e,
                   sc_final = (if pe_deleted e then None else Some (pe_content e))\<rparr>)"

definition preparePatch :: "(string \<Rightarrow> jail_error + string) \<Rightarrow> disk \<Rightarrow> patch_op list \<Rightarrow> prepare_error + staged_change list" where
  "preparePatch resolve d ops = map_sum id (List.map_filter stage_entry) (prepare_ops resolve d 1 ops [])"

section \<open>Committing it\<close>

text \<open>A write succeeds, or fails and leaves the file in some state.\<close>

datatype write_result = Written | Failed "string option"

definition applyStaged :: "write_result \<Rightarrow> staged_change \<Rightarrow> disk \<Rightarrow> bool \<times> disk" where
  "applyStaged w c d =
     (case w of Written \<Rightarrow> (True, d(sc_abs c := sc_final c)) | Failed left \<Rightarrow> (False, d(sc_abs c := left)))"

text \<open>The restoring write of a rollback can fail as well; its error is dropped.\<close>

definition rollbackStaged :: "write_result \<Rightarrow> staged_change \<Rightarrow> disk \<Rightarrow> disk" where
  "rollbackStaged w c d = d(sc_abs c := (case w of Written \<Rightarrow> sc_orig c | Failed left \<Rightarrow> left))"

text \<open>
  The changes already applied are kept last first, the order of the rollback; \<open>undo j\<close> is what
  becomes of the write that restores change \<open>j\<close>.
\<close>

fun rollback :: "(nat \<Rightarrow> write_result) \<Rightarrow> staged_change list \<Rightarrow> disk \<Rightarrow> disk" where
  "rollback undo [] d = d"
| "rollback undo (c # applied) d = rollback undo applied (rollbackStaged (undo (length applied)) c d)"

fun commit_from :: "(nat \<Rightarrow> write_result) \<Rightarrow> (nat \<Rightarrow> write_result) \<Rightarrow> nat \<Rightarrow> staged_change list \<Rightarrow> staged_change list \<Rightarrow> disk
    \<Rightarrow> string option \<times> disk" where
  "commit_from io undo i applied [] d = (None, d)"
| "commit_from io undo i applied (c # cs) d =
     (case applyStaged (io i) c d of
        (True, d') \<Rightarrow> commit_from io undo (Suc i) (c # applied) cs d'
      | (False, d') \<Rightarrow> (Some (sc_rel c), rollback undo applied d'))"

definition commitPatch :: "(nat \<Rightarrow> write_result) \<Rightarrow> (nat \<Rightarrow> write_result) \<Rightarrow> staged_change list \<Rightarrow> disk \<Rightarrow> string option \<times> disk" where
  "commitPatch io undo staged d = commit_from io undo 0 [] staged d"

section \<open>The tool\<close>

definition opWritePaths :: "patch_op list \<Rightarrow> string list" where
  "opWritePaths ops =
     concat (map (\<lambda>op. case op of Move_file p q \<Rightarrow> [p, q] | Add_file p _ \<Rightarrow> [p] | Update_file p _ _ \<Rightarrow> [p] | Delete_file p \<Rightarrow> [p]) ops)"

datatype patch_answer =
    Empty_patch
  | Unreadable patch_error
  | No_operations
  | Denied
  | Not_prepared prepare_error
  | No_changes
  | Preview "staged_change list"
  | Write_failed string
  | Applied "staged_change list"

text \<open>\<open>allowed\<close> is the one authorisation for all paths of the patch.\<close>

definition runPatch ::
    "(string \<Rightarrow> jail_error + string) \<Rightarrow> (string list \<Rightarrow> bool) \<Rightarrow> (nat \<Rightarrow> write_result) \<Rightarrow> (nat \<Rightarrow> write_result) \<Rightarrow> string \<Rightarrow> bool \<Rightarrow> disk \<Rightarrow> patch_answer \<times> disk" where
  "runPatch resolve allowed io undo txt dry d =
     (if txt = [] then (Empty_patch, d)
      else case parsePatch txt of
             Inl e \<Rightarrow> (Unreadable e, d)
           | Inr ops \<Rightarrow>
               if ops = [] then (No_operations, d)
               else if \<not> allowed (opWritePaths ops) then (Denied, d)
               else case preparePatch resolve d ops of
                      Inl e \<Rightarrow> (Not_prepared e, d)
                    | Inr staged \<Rightarrow>
                        if staged = [] then (No_changes, d)
                        else if dry then (Preview staged, d)
                        else case commitPatch io undo staged d of
                               (Some rel, d') \<Rightarrow> (Write_failed rel, d')
                             | (None, d') \<Rightarrow> (Applied staged, d'))"

end
