(* ===== verification/FsPatchProps.thy ===== *)
theory FsPatchProps
  imports FsPatch
begin

text \<open>
  A patch is one change of the disk: what is prepared in memory and then written is what its
  operations do one after the other, every path it touches lies inside the work root, a
  patch that is not applied leaves the disk as it was but for the file whose write failed, and
  an operation written out in the envelope is read back as it was.
\<close>

section \<open>The operations, one after the other\<close>

definition spec_op :: "(string \<Rightarrow> jail_error + string) \<Rightarrow> nat \<Rightarrow> patch_op \<Rightarrow> disk \<Rightarrow> prepare_error + disk" where
  "spec_op resolve i op s =
     (case op of
        Add_file p body \<Rightarrow>
          (case resolve p of Inl e \<Rightarrow> Inl (Jail i e)
           | Inr ap \<Rightarrow> if s ap \<noteq> None then Inl (Already_exists i p) else Inr (s(ap \<mapsto> body)))
      | Update_file p old neu \<Rightarrow>
          (case resolve p of Inl e \<Rightarrow> Inl (Jail i e)
           | Inr ap \<Rightarrow>
               (case s ap of None \<Rightarrow> Inl (Does_not_exist i p)
                | Some t \<Rightarrow> (case applyOneEdit t old neu of Inl e \<Rightarrow> Inl (Edit_failed i p e) | Inr t' \<Rightarrow> Inr (s(ap \<mapsto> t')))))
      | Delete_file p \<Rightarrow>
          (case resolve p of Inl e \<Rightarrow> Inl (Jail i e)
           | Inr ap \<Rightarrow> if s ap = None then Inl (Does_not_exist i p) else Inr (s(ap := None)))
      | Move_file p q \<Rightarrow>
          (case resolve p of Inl e \<Rightarrow> Inl (Jail i e)
           | Inr src \<Rightarrow>
               (case resolve q of Inl e \<Rightarrow> Inl (Jail i e)
                | Inr dst \<Rightarrow>
                    (case s src of None \<Rightarrow> Inl (Does_not_exist i p)
                     | Some t \<Rightarrow> if s dst \<noteq> None then Inl (Already_exists i q) else Inr (s(dst \<mapsto> t, src := None))))))"

fun spec_ops :: "(string \<Rightarrow> jail_error + string) \<Rightarrow> nat \<Rightarrow> patch_op list \<Rightarrow> disk \<Rightarrow> prepare_error + disk" where
  "spec_ops resolve i [] s = Inr s"
| "spec_ops resolve i (op # ops) s =
     (case spec_op resolve i op s of Inl e \<Rightarrow> Inl e | Inr s' \<Rightarrow> spec_ops resolve (Suc i) ops s')"

section \<open>The memory shows the disk after the operations\<close>

definition shown :: "patch_entry \<Rightarrow> string option" where
  "shown e = (if present e then Some (pe_content e) else None)"

definition live :: "disk \<Rightarrow> patch_memory \<Rightarrow> disk" where
  "live d mem a = (case map_of mem a of None \<Rightarrow> d a | Some e \<Rightarrow> shown e)"

definition memory_ok :: "disk \<Rightarrow> patch_memory \<Rightarrow> bool" where
  "memory_ok d mem \<longleftrightarrow> distinct (map fst mem) \<and> (\<forall>(a, e) \<in> set mem. pe_orig e = d a)"

definition all_existed :: "patch_memory \<Rightarrow> bool" where
  "all_existed mem \<longleftrightarrow> (\<forall>e \<in> snd ` set mem. pe_existed e)"

lemma shown_fresh: "shown (fresh_entry d ap rel) = d ap"
  by (auto simp: shown_def present_def fresh_entry_def split: option.splits)

lemma live_fun: "live d mem = (\<lambda>a. case map_of mem a of None \<Rightarrow> d a | Some e \<Rightarrow> shown e)"
  by (simp add: live_def fun_eq_iff)

lemma ensure_facts:
  assumes "memory_ok d mem"
  shows "memory_ok d (ensure d ap rel mem)" "live d (ensure d ap rel mem) = live d mem"
    "map_of (ensure d ap rel mem) ap = Some (entry_of (ensure d ap rel mem) ap)"
    "shown (entry_of (ensure d ap rel mem) ap) = live d mem ap"
    "fst ` set (ensure d ap rel mem) = insert ap (fst ` set mem)"
proof -
  have all: "memory_ok d (ensure d ap rel mem) \<and> live d (ensure d ap rel mem) = live d mem \<and>
    map_of (ensure d ap rel mem) ap = Some (entry_of (ensure d ap rel mem) ap) \<and>
    fst ` set (ensure d ap rel mem) = insert ap (fst ` set mem)"
  proof (cases "map_of mem ap")
    case None
    then have n: "ap \<notin> fst ` set mem" by (simp add: map_of_eq_None_iff)
    have e: "ensure d ap rel mem = mem @ [(ap, fresh_entry d ap rel)]" using None by (simp add: ensure_def)
    have "pe_orig (fresh_entry d ap rel) = d ap" by (simp add: fresh_entry_def split: option.split)
    then have "memory_ok d (ensure d ap rel mem)" using assms n unfolding e by (auto simp: memory_ok_def)
    moreover have "live d (ensure d ap rel mem) = live d mem"
      unfolding e using None by (auto simp: live_fun fun_eq_iff shown_fresh map_add_def split: option.split)
    moreover have "map_of (ensure d ap rel mem) ap = Some (fresh_entry d ap rel)"
      unfolding e using None by (simp add: map_add_def)
    ultimately show ?thesis unfolding entry_of_def using e by simp
  next
    case (Some e)
    then have "ap \<in> fst ` set mem" by (metis domI dom_map_of_conv_image_fst)
    with Some assms show ?thesis by (auto simp: ensure_def entry_of_def)
  qed
  then show "memory_ok d (ensure d ap rel mem)" "live d (ensure d ap rel mem) = live d mem"
    "map_of (ensure d ap rel mem) ap = Some (entry_of (ensure d ap rel mem) ap)"
    "fst ` set (ensure d ap rel mem) = insert ap (fst ` set mem)" by blast+
  then show "shown (entry_of (ensure d ap rel mem) ap) = live d mem ap" by (metis live_def option.simps(5))
qed

lemma map_of_set_entry: "map_of (set_entry ap f mem) a = map_option (\<lambda>e. if a = ap then f e else e) (map_of mem a)"
  by (induction mem) (auto simp: set_entry_def)

lemma set_entry_facts:
  assumes "memory_ok d mem" "map_of mem ap = Some e" "\<And>e. pe_orig (f e) = pe_orig e"
  shows "memory_ok d (set_entry ap f mem)" "live d (set_entry ap f mem) = (live d mem)(ap := shown (f e))"
    "fst ` set (set_entry ap f mem) = fst ` set mem"
proof -
  have k: "map fst (set_entry ap f mem) = map fst mem" by (auto simp: set_entry_def)
  have "\<forall>(a, e) \<in> set (set_entry ap f mem). pe_orig e = d a" using assms(1,3) by (auto simp: memory_ok_def set_entry_def)
  then show "memory_ok d (set_entry ap f mem)" using assms(1) k by (simp add: memory_ok_def)
  show "live d (set_entry ap f mem) = (live d mem)(ap := shown (f e))"
    using assms(2) by (auto simp: live_fun map_of_set_entry fun_eq_iff split: option.splits)
  show "fst ` set (set_entry ap f mem) = fst ` set mem" using k by (metis list.set_map)
qed

lemma present_shown: "present e \<longleftrightarrow> shown e \<noteq> None" "shown e = Some t \<Longrightarrow> pe_content e = t \<and> present e"
  by (auto simp: shown_def split: if_splits)

text \<open>The entries of a memory after an operation all stand for a file that existed at some time.\<close>

lemma all_existed_set:
  assumes "memory_ok d mem" "map_of mem ap = Some e0" "pe_existed (f e0)" "\<forall>(a, e) \<in> set mem. a = ap \<or> pe_existed e"
  shows "all_existed (set_entry ap f mem)"
proof -
  have "e = e0" if "(ap, e) \<in> set mem" for e
    using map_of_is_SomeI [OF _ that] assms(1,2) by (simp add: memory_ok_def)
  with assms(3,4) show ?thesis by (auto simp: all_existed_def set_entry_def)
qed

lemma all_existed_from:
  assumes "memory_ok d mem" "map_of mem ap = Some e0" "pe_existed e0" "\<forall>(a, e) \<in> set mem. a = ap \<or> pe_existed e"
  shows "all_existed mem"
proof -
  have "e = e0" if "(ap, e) \<in> set mem" for e
    using map_of_is_SomeI [OF _ that] assms(1,2) by (simp add: memory_ok_def)
  with assms(3,4) show ?thesis by (auto simp: all_existed_def)
qed

lemma ensure_existed: "all_existed mem \<Longrightarrow> \<forall>(a, e) \<in> set (ensure d ap rel mem). a = ap \<or> pe_existed e"
  by (auto simp: ensure_def all_existed_def)

definition simulates :: "disk \<Rightarrow> patch_memory \<Rightarrow> prepare_error + patch_memory \<Rightarrow> prepare_error + disk \<Rightarrow> bool" where
  "simulates d mem pm sd \<longleftrightarrow>
     (case pm of
        Inl e \<Rightarrow> sd = Inl e
      | Inr mem' \<Rightarrow> sd = Inr (live d mem') \<and> memory_ok d mem' \<and> all_existed mem')"

lemma all_existed_ex: "all_existed mem \<Longrightarrow> \<forall>(a, e) \<in> set mem. a = ap \<or> pe_existed e"
  by (auto simp: all_existed_def)

lemma sim_set:
  assumes "memory_ok d m" "map_of m ap = Some e" "\<And>e. pe_orig (f e) = pe_orig e" "pe_existed (f e)"
    "\<forall>(a, e) \<in> set m. a = ap \<or> pe_existed e"
  shows "simulates d mem (Inr (set_entry ap f m)) (Inr ((live d m)(ap := shown (f e))))"
  using set_entry_facts [OF assms(1-3)] all_existed_set [where f = f, OF assms(1,2,4,5)] by (simp add: simulates_def)

lemma prepare_add: 
  assumes "memory_ok d mem" "all_existed mem" "resolve p = Inr ap"
  shows "simulates d mem (prepare_op resolve d i (Add_file p body) mem) (spec_op resolve i (Add_file p body) (live d mem))"
proof -
  let ?m = "ensure d ap p mem"
  note f = ensure_facts [OF assms(1), where rel = p]
  show ?thesis
  proof (cases "live d mem ap")
    case None
    then have n: "\<not> present (entry_of ?m ap)" using f(4) by (simp add: present_shown)
    let ?f = "\<lambda>e. e\<lparr>pe_content := body, pe_existed := True, pe_deleted := False\<rparr>"
    have "simulates d mem (Inr (set_entry ap ?f ?m)) (Inr ((live d ?m)(ap := shown (?f (entry_of ?m ap)))))"
      by (rule sim_set [OF f(1,3)]) (use ensure_existed [OF assms(2)] in auto)
    moreover have "shown (?f (entry_of ?m ap)) = Some body" by (simp add: shown_def present_def)
    ultimately show ?thesis using f(2) n assms(3) None by (simp add: prepare_op_def spec_op_def Let_def)
  next
    case (Some t)
    then have "present (entry_of ?m ap)" using f(4) by (simp add: present_shown)
    then show ?thesis using assms(3) Some by (simp add: prepare_op_def spec_op_def Let_def simulates_def)
  qed
qed

lemma prepare_update:
  assumes "memory_ok d mem" "all_existed mem" "resolve p = Inr ap"
  shows "simulates d mem (prepare_op resolve d i (Update_file p old neu) mem) (spec_op resolve i (Update_file p old neu) (live d mem))"
proof -
  let ?m = "ensure d ap p mem"
  note f = ensure_facts [OF assms(1), where rel = p]
  show ?thesis
  proof (cases "live d mem ap")
    case None
    then have "\<not> present (entry_of ?m ap)" using f(4) by (simp add: present_shown)
    then show ?thesis using assms(3) None by (simp add: prepare_op_def spec_op_def Let_def simulates_def)
  next
    case (Some t)
    then have c: "pe_content (entry_of ?m ap) = t" "present (entry_of ?m ap)" using f(4) present_shown(2) by metis+
    show ?thesis
    proof (cases "applyOneEdit t old neu")
      case (Inl e)
      then show ?thesis using assms(3) Some c by (simp add: prepare_op_def spec_op_def Let_def simulates_def)
    next
      case (Inr t')
      let ?f = "\<lambda>e. e\<lparr>pe_content := t'\<rparr>"
      have "simulates d mem (Inr (set_entry ap ?f ?m)) (Inr ((live d ?m)(ap := shown (?f (entry_of ?m ap)))))"
        by (rule sim_set [OF f(1,3)]) (use ensure_existed [OF assms(2)] c(2) in \<open>auto simp: present_def\<close>)
      moreover have "shown (?f (entry_of ?m ap)) = Some t'" using c(2) by (simp add: shown_def present_def)
      ultimately show ?thesis using f(2) c assms(3) Some Inr by (simp add: prepare_op_def spec_op_def Let_def)
    qed
  qed
qed

lemma prepare_delete:
  assumes "memory_ok d mem" "all_existed mem" "resolve p = Inr ap"
  shows "simulates d mem (prepare_op resolve d i (Delete_file p) mem) (spec_op resolve i (Delete_file p) (live d mem))"
proof -
  let ?m = "ensure d ap p mem"
  note f = ensure_facts [OF assms(1), where rel = p]
  show ?thesis
  proof (cases "live d mem ap")
    case None
    then have "\<not> present (entry_of ?m ap)" using f(4) by (simp add: present_shown)
    then show ?thesis using assms(3) None by (simp add: prepare_op_def spec_op_def Let_def simulates_def)
  next
    case (Some t)
    then have c: "present (entry_of ?m ap)" using f(4) present_shown(2) by metis
    let ?f = "\<lambda>e. e\<lparr>pe_deleted := True\<rparr>"
    have "simulates d mem (Inr (set_entry ap ?f ?m)) (Inr ((live d ?m)(ap := shown (?f (entry_of ?m ap)))))"
      by (rule sim_set [OF f(1,3)]) (use ensure_existed [OF assms(2)] c in \<open>auto simp: present_def\<close>)
    moreover have "shown (?f (entry_of ?m ap)) = None" by (simp add: shown_def present_def)
    ultimately show ?thesis using f(2) c assms(3) Some by (simp add: prepare_op_def spec_op_def Let_def)
  qed
qed

lemma prepare_move:
  assumes "memory_ok d mem" "all_existed mem" "resolve p = Inr src" "resolve q = Inr dst"
  shows "simulates d mem (prepare_op resolve d i (Move_file p q) mem) (spec_op resolve i (Move_file p q) (live d mem))"
proof -
  let ?m = "ensure d src p mem"
  note f = ensure_facts [OF assms(1), where rel = p]
  show ?thesis
  proof (cases "live d mem src")
    case None
    then have "\<not> present (entry_of ?m src)" using f(4) by (simp add: present_shown)
    then show ?thesis using assms(3,4) None by (simp add: prepare_op_def spec_op_def Let_def simulates_def)
  next
    case (Some t)
    then have c: "pe_content (entry_of ?m src) = t" "present (entry_of ?m src)" using f(4) present_shown(2) by metis+
    have "all_existed ?m"
      by (rule all_existed_from [OF f(1,3)]) (use ensure_existed [OF assms(2)] c(2) in \<open>auto simp: present_def\<close>)
    let ?m' = "ensure d dst q ?m"
    note g = ensure_facts [OF f(1), where rel = q]
    have s: "map_of ?m' src = Some (entry_of ?m src)" using f(3) by (auto simp: ensure_def map_add_def)
    show ?thesis
    proof (cases "live d mem dst")
      case (Some u)
      then have "present (entry_of ?m' dst)" using g(4) f(2) by (simp add: present_shown)
      then show ?thesis using assms(3,4) c \<open>live d mem src = Some t\<close> Some by (simp add: prepare_op_def spec_op_def Let_def simulates_def)
    next
      case None
      then have n: "\<not> present (entry_of ?m' dst)" using g(4) f(2) by (simp add: present_shown)
      have ne: "src \<noteq> dst" using None Some by auto
      have cs: "entry_of ?m' src = entry_of ?m src" using s by (simp add: entry_of_def)
      let ?f = "\<lambda>e. e\<lparr>pe_content := pe_content (entry_of ?m' src), pe_existed := True, pe_deleted := False\<rparr>"
      let ?m2 = "set_entry dst ?f ?m'"
      have o: "pe_orig (?f e) = pe_orig e" for e by simp
      note h = set_entry_facts [OF g(1,3), of ?f, OF o]
      have a2: "all_existed ?m2"
        by (rule all_existed_set [OF g(1,3)]) (use ensure_existed [OF \<open>all_existed ?m\<close>] in auto)
      have s2: "map_of ?m2 src = Some (entry_of ?m src)" using s ne by (simp add: map_of_set_entry)
      have "simulates d mem (Inr (set_entry src (\<lambda>e. e\<lparr>pe_deleted := True\<rparr>) ?m2))
          (Inr ((live d ?m2)(src := shown ((entry_of ?m src)\<lparr>pe_deleted := True\<rparr>))))"
        by (rule sim_set [OF h(1) s2]) (use all_existed_ex [OF a2] c(2) in \<open>auto simp: present_def\<close>)
      moreover have "shown ((entry_of ?m src)\<lparr>pe_deleted := True\<rparr>) = None" by (simp add: shown_def present_def)
      moreover have "live d ?m2 = (live d mem)(dst \<mapsto> t)"
        using h(2) g(2) f(2) cs c(1) by (simp add: shown_def present_def)
      ultimately show ?thesis using assms(3,4) c \<open>live d mem src = Some t\<close> None n cs
        by (simp add: prepare_op_def spec_op_def Let_def)
    qed
  qed
qed

lemma prepare_op_simulates:
  assumes "memory_ok d mem" "all_existed mem"
  shows "simulates d mem (prepare_op resolve d i op mem) (spec_op resolve i op (live d mem))"
proof (cases op)
  case (Add_file p body)
  show ?thesis using prepare_add [OF assms] unfolding Add_file
    by (cases "resolve p") (auto simp: prepare_op_def spec_op_def simulates_def)
next
  case (Update_file p old neu)
  show ?thesis using prepare_update [OF assms] unfolding Update_file
    by (cases "resolve p") (auto simp: prepare_op_def spec_op_def simulates_def)
next
  case (Delete_file p)
  show ?thesis using prepare_delete [OF assms] unfolding Delete_file
    by (cases "resolve p") (auto simp: prepare_op_def spec_op_def simulates_def)
next
  case (Move_file p q)
  show ?thesis using prepare_move [OF assms] unfolding Move_file
    by (cases "resolve p"; cases "resolve q") (auto simp: prepare_op_def spec_op_def simulates_def)
qed

lemma prepare_ops_simulates:
  "memory_ok d mem \<Longrightarrow> all_existed mem \<Longrightarrow>
   simulates d mem (prepare_ops resolve d i ops mem) (spec_ops resolve i ops (live d mem))"
proof (induction ops arbitrary: i mem)
  case Nil
  then show ?case by (simp add: simulates_def)
next
  case (Cons op ops)
  from prepare_op_simulates [OF Cons.prems, of resolve i op]
  show ?case using Cons.IH by (cases "prepare_op resolve d i op mem") (auto simp: simulates_def)
qed

section \<open>Staging and writing\<close>

definition write_all :: "staged_change list \<Rightarrow> disk \<Rightarrow> disk" where
  "write_all cs d = fold (\<lambda>c s. s(sc_abs c := sc_final c)) cs d"

lemma stage_abs: "stage_entry (a, e) = Some c \<Longrightarrow> sc_abs c = a \<and> sc_orig c = pe_orig e"
  by (auto simp: stage_entry_def split: if_splits)

lemma stage_shown:
  assumes "pe_existed e" "pe_orig e = d a"
  shows "(case stage_entry (a, e) of None \<Rightarrow> d a | Some c \<Rightarrow> sc_final c) = shown e"
  using assms by (auto simp: stage_entry_def shown_def present_def)

lemma write_staged:
  "distinct (map fst mem) \<Longrightarrow>
   write_all (List.map_filter stage_entry mem) d a =
     (case map_of mem a of None \<Rightarrow> d a | Some e \<Rightarrow> (case stage_entry (a, e) of None \<Rightarrow> d a | Some c \<Rightarrow> sc_final c))"
proof (induction mem arbitrary: d)
  case Nil
  then show ?case by (simp add: write_all_def map_filter_simps)
next
  case (Cons be mem)
  obtain b e where be: "be = (b, e)" by (cases be)
  have nb: "map_of mem b = None" using Cons.prems be by (auto simp: map_of_eq_None_iff)
  note ih = Cons.IH
  show ?case
  proof (cases "stage_entry (b, e)")
    case None
    with ih Cons.prems nb be show ?thesis by (auto simp: write_all_def map_filter_simps)
  next
    case (Some c)
    then have "sc_abs c = b" using stage_abs by blast
    define d1 where "d1 = d(b := sc_final c)"
    have "write_all (List.map_filter stage_entry (be # mem)) d = write_all (List.map_filter stage_entry mem) d1"
      using Some be \<open>sc_abs c = b\<close> by (simp add: write_all_def map_filter_simps d1_def)
    moreover have "distinct (map fst mem)" using Cons.prems by simp
    moreover have "d1 b = sc_final c" "a \<noteq> b \<Longrightarrow> d1 a = d a" by (simp_all add: d1_def)
    ultimately show ?thesis using ih [of d1] Some nb be by (cases "a = b") (simp_all split: option.split)
  qed
qed

lemma staged_facts:
  assumes "memory_ok d mem" "all_existed mem"
  shows "write_all (List.map_filter stage_entry mem) d = live d mem"
    and "distinct (map sc_abs (List.map_filter stage_entry mem))"
    and "\<forall>c \<in> set (List.map_filter stage_entry mem). sc_orig c = d (sc_abs c) \<and> sc_abs c \<in> fst ` set mem"
proof -
  have d: "distinct (map fst mem)" using assms(1) by (simp add: memory_ok_def)
  have "write_all (List.map_filter stage_entry mem) d a = live d mem a" for a
  proof (cases "map_of mem a")
    case None
    then show ?thesis using write_staged [OF d, of d a] by (simp add: live_def)
  next
    case (Some e)
    have "(a, e) \<in> set mem" using Some by (rule map_of_SomeD)
    then have "pe_existed e" "pe_orig e = d a" using assms by (auto simp: memory_ok_def all_existed_def)
    from stage_shown [where d = d, OF this] show ?thesis using write_staged [OF d, of d a] Some by (simp add: live_def)
  qed
  then show "write_all (List.map_filter stage_entry mem) d = live d mem" by blast
  show "distinct (map sc_abs (List.map_filter stage_entry mem))"
    using d
  proof (induction mem)
    case (Cons be mem)
    obtain b e where be: "be = (b, e)" by (cases be)
    have "sc_abs c \<in> fst ` set mem" if "c \<in> set (List.map_filter stage_entry mem)" for c
      using that stage_abs by (force simp: List.map_filter_def)
    then show ?case using Cons be stage_abs by (auto simp: map_filter_simps split: option.split)
  qed (simp add: map_filter_simps)
  show "\<forall>c \<in> set (List.map_filter stage_entry mem). sc_orig c = d (sc_abs c) \<and> sc_abs c \<in> fst ` set mem"
    using assms(1) stage_abs by (force simp: List.map_filter_def memory_ok_def)
qed

lemma commit_success: "commit_from io undo i applied cs d = (None, d') \<Longrightarrow> d' = write_all cs d"
proof (induction cs arbitrary: i applied d)
  case (Cons c cs)
  then show ?case by (cases "io i") (auto simp: applyStaged_def write_all_def)
qed (simp add: write_all_def)

lemma commit_all_written: "commit_from (\<lambda>_. Written) undo i applied cs d = (None, write_all cs d)"
  by (induction cs arbitrary: i applied d) (auto simp: applyStaged_def write_all_def)

lemma rollback_restores:
  assumes "\<forall>c \<in> set cs. sc_orig c = d0 (sc_abs c)" "rollback undo cs d a \<noteq> d0 a"
  shows "a \<notin> sc_abs ` set cs \<and> d a \<noteq> d0 a \<or> (\<exists>j < length cs. sc_abs (rev cs ! j) = a \<and> undo j \<noteq> Written)"
  using assms
proof (induction cs arbitrary: d)
  case (Cons c cs)
  define d1 where "d1 = rollbackStaged (undo (length cs)) c d"
  have "rollback undo cs d1 a \<noteq> d0 a" using Cons.prems(2) by (simp add: d1_def)
  with Cons.IH [of d1] Cons.prems(1) consider "a \<notin> sc_abs ` set cs" "d1 a \<noteq> d0 a"
    | j where "j < length cs" "sc_abs (rev cs ! j) = a" "undo j \<noteq> Written" by auto
  then show ?case
  proof cases
    case 1
    show ?thesis
    proof (cases "a = sc_abs c")
      case True
      then have "undo (length cs) \<noteq> Written" using 1(2) Cons.prems(1) by (auto simp: d1_def rollbackStaged_def)
      then have "length cs < length (c # cs) \<and> sc_abs (rev (c # cs) ! length cs) = a \<and> undo (length cs) \<noteq> Written"
        using True by (simp add: nth_append)
      then show ?thesis by blast
    next
      case False
      then have "d1 a = d a" by (simp add: d1_def rollbackStaged_def)
      with 1 False show ?thesis by simp
    qed
  next
    case (2 j)
    then have "j < length (c # cs) \<and> sc_abs (rev (c # cs) ! j) = a \<and> undo j \<noteq> Written"
      by (simp add: nth_append)
    then show ?thesis by blast
  qed
qed simp

lemma commit_failure:
  assumes "commit_from io undo i applied cs d = (Some rel, d')"
    and "\<forall>c \<in> set (applied @ cs). sc_orig c = d0 (sc_abs c)" "\<forall>a. a \<notin> sc_abs ` set applied \<longrightarrow> d a = d0 a"
  shows "\<exists>c \<in> set cs. sc_rel c = rel \<and> (\<forall>a. a \<noteq> sc_abs c \<and> d' a \<noteq> d0 a \<longrightarrow>
    (\<exists>j < length (rev applied @ cs). sc_abs ((rev applied @ cs) ! j) = a \<and> undo j \<noteq> Written))"
  using assms
proof (induction cs arbitrary: i applied d)
  case (Cons c cs)
  show ?case
  proof (cases "io i")
    case Written
    then have "commit_from io undo (Suc i) (c # applied) cs (d(sc_abs c := sc_final c)) = (Some rel, d')"
      using Cons.prems(1) by (simp add: applyStaged_def)
    from Cons.IH [OF this] Cons.prems(2,3) show ?thesis by auto
  next
    case (Failed left)
    then have e: "rel = sc_rel c" "d' = rollback undo applied (d(sc_abs c := left))"
      using Cons.prems(1) by (simp_all add: applyStaged_def)
    have "\<exists>j < length (rev applied @ c # cs). sc_abs ((rev applied @ c # cs) ! j) = a \<and> undo j \<noteq> Written"
      if a: "a \<noteq> sc_abs c" "d' a \<noteq> d0 a" for a
    proof -
      obtain j where "j < length applied" "sc_abs (rev applied ! j) = a" "undo j \<noteq> Written"
        using rollback_restores [of applied d0 undo "d(sc_abs c := left)" a] a e(2) Cons.prems(2,3) by auto
      then show ?thesis by (intro exI [of _ j]) (simp add: nth_append)
    qed
    with e(1) show ?thesis by auto
  qed
qed simp

text \<open>What the preparation gives, in terms of the operations.\<close>

lemma prepare_cases:
  "(case spec_ops resolve 1 ops d of
      Inl e \<Rightarrow> preparePatch resolve d ops = Inl e
    | Inr d1 \<Rightarrow> \<exists>mem. prepare_ops resolve d 1 ops [] = Inr mem \<and> memory_ok d mem \<and> all_existed mem \<and> live d mem = d1)"
proof -
  have "memory_ok d []" "all_existed []" "live d [] = d" by (simp_all add: memory_ok_def all_existed_def live_fun)
  with prepare_ops_simulates [of d "[]" resolve 1 ops] show ?thesis
    by (cases "prepare_ops resolve d 1 ops []") (auto simp: simulates_def preparePatch_def)
qed

text \<open>
  C7: Preparing a patch in memory and writing what is staged is the same as carrying out its
  operations one after the other: the same error in the same operation, or the same disk.
\<close>

theorem patch_is_sequential:
  "(case spec_ops resolve 1 ops d of
      Inl e \<Rightarrow> preparePatch resolve d ops = Inl e
    | Inr d1 \<Rightarrow> \<exists>staged. preparePatch resolve d ops = Inr staged \<and> commitPatch (\<lambda>_. Written) undo staged d = (None, d1))"
proof (cases "spec_ops resolve 1 ops d")
  case (Inr d1)
  then obtain mem where m: "prepare_ops resolve d 1 ops [] = Inr mem" "memory_ok d mem" "all_existed mem" "live d mem = d1"
    using prepare_cases [where resolve = resolve and ops = ops and d = d] by auto
  then show ?thesis using Inr staged_facts(1) [OF m(2,3)] commit_all_written
    by (simp add: preparePatch_def commitPatch_def)
qed (use prepare_cases [where resolve = resolve and ops = ops and d = d] in simp)

text \<open>What is staged for an address carries a path that resolves to it.\<close>

definition keys :: "patch_memory \<Rightarrow> (string \<times> string) set" where
  "keys mem = (\<lambda>(a, e). (a, pe_rel e)) ` set mem"

lemma keys_set_entry: "(\<And>e. pe_rel (f e) = pe_rel e) \<Longrightarrow> keys (set_entry ap f m) = keys m"
proof -
  assume f: "\<And>e. pe_rel (f e) = pe_rel e"
  show ?thesis
    unfolding keys_def set_entry_def set_map image_image
    by (rule image_cong) (auto simp: f)
qed

lemma keys_ensure: "(ap, rel) \<in> K \<Longrightarrow> keys m \<subseteq> K \<Longrightarrow> keys (ensure d ap rel m) \<subseteq> K"
  by (auto simp: keys_def ensure_def fresh_entry_def split: option.split)

lemma prepare_op_paths:
  assumes "prepare_op resolve d i op mem = Inr mem'" "keys mem \<subseteq> {(a, p). resolve p = Inr a}"
  shows "keys mem' \<subseteq> {(a, p). resolve p = Inr a}" (is "_ \<subseteq> ?K")
proof -
  have e: "keys (ensure d ap rel m) \<subseteq> ?K" if "resolve rel = Inr ap" "keys m \<subseteq> ?K" for ap rel m
    by (rule keys_ensure) (use that in auto)
  show ?thesis
  proof (cases op)
    case (Move_file p q)
    then obtain src dst where r: "resolve p = Inr src" "resolve q = Inr dst"
      using assms(1) by (auto simp: prepare_op_def split: sum.splits)
    have "keys mem' = keys (ensure d dst q (ensure d src p mem))"
      using assms(1) Move_file r by (clarsimp simp: prepare_op_def Let_def keys_set_entry split: if_splits)
    then show ?thesis using e [OF r(2) e [OF r(1) assms(2)]] by simp
  next
    case (Add_file p body)
    then obtain ap where r: "resolve p = Inr ap" using assms(1) by (auto simp: prepare_op_def split: sum.splits)
    then have "keys mem' = keys (ensure d ap p mem)"
      using assms(1) Add_file by (clarsimp simp: prepare_op_def Let_def keys_set_entry split: if_splits)
    then show ?thesis using e [OF r assms(2)] by simp
  next
    case (Update_file p old neu)
    then obtain ap where r: "resolve p = Inr ap" using assms(1) by (auto simp: prepare_op_def split: sum.splits)
    then have "keys mem' = keys (ensure d ap p mem)"
      using assms(1) Update_file by (clarsimp simp: prepare_op_def Let_def keys_set_entry split: if_splits sum.splits)
    then show ?thesis using e [OF r assms(2)] by simp
  next
    case (Delete_file p)
    then obtain ap where r: "resolve p = Inr ap" using assms(1) by (auto simp: prepare_op_def split: sum.splits)
    then have "keys mem' = keys (ensure d ap p mem)"
      using assms(1) Delete_file by (clarsimp simp: prepare_op_def Let_def keys_set_entry split: if_splits)
    then show ?thesis using e [OF r assms(2)] by simp
  qed
qed

lemma prepare_ops_paths:
  "prepare_ops resolve d i ops mem = Inr mem' \<Longrightarrow> keys mem \<subseteq> {(a, p). resolve p = Inr a} \<Longrightarrow>
   keys mem' \<subseteq> {(a, p). resolve p = Inr a}"
proof (induction ops arbitrary: i mem)
  case (Cons op ops)
  from Cons.prems(1) obtain m1 where m1: "prepare_op resolve d i op mem = Inr m1" "prepare_ops resolve d (Suc i) ops m1 = Inr mem'"
    by (auto split: sum.splits)
  from Cons.IH [OF m1(2) prepare_op_paths [OF m1(1) Cons.prems(2)]] show ?case .
qed simp

lemma staged_paths:
  assumes "preparePatch resolve d ops = Inr staged" "c \<in> set staged"
  shows "resolve (sc_rel c) = Inr (sc_abs c)"
proof -
  obtain mem where m: "prepare_ops resolve d 1 ops [] = Inr mem" "staged = List.map_filter stage_entry mem"
    using assms(1) by (cases "prepare_ops resolve d 1 ops []") (auto simp: preparePatch_def)
  from assms(2) obtain a e where "(a, e) \<in> set mem" "sc_abs c = a" "sc_rel c = pe_rel e"
    unfolding m(2) by (auto simp: map_filter_def stage_entry_def split: if_splits)
  moreover have "keys mem \<subseteq> {(a, p). resolve p = Inr a}" by (rule prepare_ops_paths [OF m(1)]) (simp add: keys_def)
  ultimately show ?thesis by (auto simp: keys_def)
qed

section \<open>The tool leaves the disk alone or changes it as a whole\<close>

lemma runPatch_cases:
  assumes "runPatch resolve allowed io undo txt dry d = (ans, d')"
  obtains (nothing) "d' = d" "\<And>st rel. ans \<noteq> Applied st \<and> ans \<noteq> Write_failed rel"
  | (failed) rel staged ops where "ans = Write_failed rel" "parsePatch txt = Inr ops" "allowed (opWritePaths ops)"
      "preparePatch resolve d ops = Inr staged" "commitPatch io undo staged d = (Some rel, d')"
  | (applied) staged ops where "ans = Applied staged" "parsePatch txt = Inr ops" "allowed (opWritePaths ops)"
      "preparePatch resolve d ops = Inr staged" "commitPatch io undo staged d = (None, d')"
  using assms by (auto simp: runPatch_def split: if_splits sum.splits prod.splits option.splits)

text \<open>
  C8: A patch is all or nothing, as far as the disk allows.  An applied one has changed the disk as
  its operations say, and one that was refused in any way, or only previewed, has changed nothing.
  When a write fails, the answer names the file, and every other file is as it was before but for
  those whose own restoring write failed in turn, an error the tool drops.
\<close>

theorem patch_is_all_or_nothing:
  assumes "runPatch resolve allowed io undo txt dry d = (ans, d')"
  shows "(case ans of
      Applied staged \<Rightarrow> \<exists>ops. parsePatch txt = Inr ops \<and> allowed (opWritePaths ops) \<and> spec_ops resolve 1 ops d = Inr d'
    | Write_failed rel \<Rightarrow> \<exists>ops staged a. parsePatch txt = Inr ops \<and> preparePatch resolve d ops = Inr staged \<and> resolve rel = Inr a
        \<and> (\<forall>b. b \<noteq> a \<and> d' b \<noteq> d b \<longrightarrow> (\<exists>j < length staged. sc_abs (staged ! j) = b \<and> undo j \<noteq> Written))
    | _ \<Rightarrow> d' = d)"
  using assms
proof (cases rule: runPatch_cases)
  case nothing
  then show ?thesis by (cases ans) auto
next
  case (failed rel staged ops)
  obtain mem where m: "prepare_ops resolve d 1 ops [] = Inr mem" "memory_ok d mem" "all_existed mem" "staged = List.map_filter stage_entry mem"
    using prepare_cases [where resolve = resolve and ops = ops and d = d] failed(4)
    by (cases "spec_ops resolve 1 ops d") (auto simp: preparePatch_def)
  have "commit_from io undo 0 [] staged d = (Some rel, d')" using failed(5) by (simp add: commitPatch_def)
  from commit_failure [OF this, of d] staged_facts(3) [OF m(2,3)] m(4) obtain c where
    c: "c \<in> set staged" "sc_rel c = rel"
      "\<forall>a. a \<noteq> sc_abs c \<and> d' a \<noteq> d a \<longrightarrow> (\<exists>j < length staged. sc_abs (staged ! j) = a \<and> undo j \<noteq> Written)" by auto
  have "resolve rel = Inr (sc_abs c)" using staged_paths [OF failed(4) c(1)] c(2) by simp
  with c(3) failed(1,2,4) show ?thesis by auto
next
  case (applied staged ops)
  obtain mem where m: "spec_ops resolve 1 ops d = Inr (live d mem)" "memory_ok d mem" "all_existed mem" "staged = List.map_filter stage_entry mem"
    using prepare_cases [where resolve = resolve and ops = ops and d = d] applied(4)
    by (cases "spec_ops resolve 1 ops d") (auto simp: preparePatch_def)
  have "d' = write_all staged d" using applied(5) commit_success by (simp add: commitPatch_def)
  then show ?thesis using m applied(1-3) staged_facts(1) [OF m(2,3)] by simp
qed

section \<open>The jail\<close>

lemma path_clean_rooted_prefix: "prefix ''/'' p \<Longrightarrow> prefix ''/'' (path_clean p)"
  by (auto simp: path_clean_def rooted_path_def Let_def)

lemma jail_inside:
  assumes "path_clean root = root" "prefix ''/'' root" "resolveWithinRoot cwd root p = Inr q"
  shows "withinRoot q root" "no_dots q"
proof -
  obtain x where x: "withinRoot q root" "q = path_clean (join_path root x)"
    using assms(1,3) by (auto simp: resolveWithinRoot_def Let_def split: if_splits)
  have "root \<noteq> []" using assms(2) by auto
  then have "prefix ''/'' (join_path root x)"
    using assms(2) by (auto simp: join_path_def intro!: path_clean_rooted_prefix)
  with x show "withinRoot q root" "no_dots q" by (simp_all add: no_dots_clean)
qed

text \<open>With the root of the file system as work root nothing but itself resolves.\<close>

lemma file_system_root_rejects: "resolveWithinRoot ''/'' ''/'' ''etc/hosts'' = Inl Path_outside_root"
  by code_simp

lemma write_all_elsewhere: "a \<notin> sc_abs ` set cs \<Longrightarrow> write_all cs d a = d a"
  by (induction cs arbitrary: d) (auto simp: write_all_def)

lemma rollback_elsewhere: "a \<notin> sc_abs ` set cs \<Longrightarrow> rollback undo cs d a = d a"
  by (induction cs arbitrary: d) (auto simp: rollbackStaged_def)

lemma commit_elsewhere:
  "commit_from io undo i applied cs d = (r, d') \<Longrightarrow> a \<notin> sc_abs ` set (applied @ cs) \<Longrightarrow> d' a = d a"
proof (induction cs arbitrary: i applied d)
  case (Cons c cs)
  show ?case
  proof (cases "io i")
    case Written
    then have "commit_from io undo (Suc i) (c # applied) cs (d(sc_abs c := sc_final c)) = (r, d')"
      using Cons.prems(1) by (simp add: applyStaged_def)
    from Cons.IH [OF this] Cons.prems(2) show ?thesis by auto
  next
    case (Failed left)
    moreover have "a \<notin> sc_abs ` set applied" "a \<noteq> sc_abs c" using Cons.prems(2) by auto
    ultimately show ?thesis using Cons.prems(1) rollback_elsewhere [of a applied undo] by (auto simp: applyStaged_def)
  qed
qed simp

text \<open>
  C30: A patch stays in its work root: a file that is different afterwards, whether the patch was applied
  or a write of it failed, has a path inside the root without a dot element.
\<close>

theorem patch_stays_inside:
  assumes "path_clean root = root" "prefix ''/'' root"
    and "runPatch (resolveWithinRoot cwd root) allowed io undo txt dry d = (ans, d')" "d' a \<noteq> d a"
  shows "withinRoot a root \<and> no_dots a"
  using assms(3)
proof (cases rule: runPatch_cases)
  have main: "withinRoot a root \<and> no_dots a"
    if c: "preparePatch (resolveWithinRoot cwd root) d ops = Inr staged" "commitPatch io undo staged d = (r, d')" for ops staged r
  proof -
    have "a \<in> sc_abs ` set staged"
      using commit_elsewhere [of io undo 0 "[]" staged d r d' a] c(2) assms(4) by (auto simp: commitPatch_def)
    then obtain ch where "ch \<in> set staged" "a = sc_abs ch" by blast
    with staged_paths [OF c(1)] jail_inside [OF assms(1,2)] show ?thesis by metis
  qed
  {
    case nothing
    then show ?thesis using assms(4) by simp
  next
    case (failed rel staged ops)
    then show ?thesis using main by blast
  next
    case (applied staged ops)
    then show ?thesis using main by blast
  }
qed

end
