(* ===== verification/FsPatchText.thy ===== *)
theory FsPatchText
  imports FsPatchProps
begin

text \<open>
  Operations written out in the envelope are read back as they were, what the reader does to an added
  file's last line, what a failed write leaves, and the witnesses of the patch tool's properties.
\<close>

section \<open>Writing operations out\<close>

fun render_op :: "patch_op \<Rightarrow> string list" where
  "render_op (Add_file p body) = (add_header @ p) # split_byte body newline_c"
| "render_op (Update_file p old neu) =
     (update_header @ p) # map ((#) (CHR ''-'')) (split_byte old newline_c) @ map ((#) (CHR ''+'')) (split_byte neu newline_c)"
| "render_op (Delete_file p) = [delete_header @ p]"
| "render_op (Move_file p q) = [move_header @ p, to_header @ q]"

definition render_patch :: "patch_op list \<Rightarrow> string" where
  "render_patch ops = join_byte newline_c (begin_line # concat (map render_op ops) @ [end_line])"

definition plain_path :: "string \<Rightarrow> bool" where
  "plain_path p \<longleftrightarrow> p \<noteq> [] \<and> trim_space p = p \<and> newline_c \<notin> set p \<and> cr_c \<notin> set p"

text \<open>Paths without outer blanks or line ends, no carriage return, and no header line in an added file.\<close>

fun printable :: "patch_op \<Rightarrow> bool" where
  "printable (Add_file p body) \<longleftrightarrow> plain_path p \<and> cr_c \<notin> set body \<and> list_all not_header (split_byte body newline_c)"
| "printable (Update_file p old neu) \<longleftrightarrow> plain_path p \<and> old \<noteq> [] \<and> cr_c \<notin> set old \<and> cr_c \<notin> set neu"
| "printable (Delete_file p) \<longleftrightarrow> plain_path p"
| "printable (Move_file p q) \<longleftrightarrow> plain_path p \<and> plain_path q"

section \<open>Reading them back\<close>

lemma header_path_of [simp]: "plain_path p \<Longrightarrow> header_path h (h @ p) = p"
  by (simp add: header_path_def trim_prefix_def plain_path_def)

text \<open>The lines after an operation: one that starts a header comes first.\<close>

definition resumes :: "string list \<Rightarrow> bool" where
  "resumes ls \<longleftrightarrow> (\<exists>l rest. ls = l # rest \<and> \<not> not_header l)"

lemma resumes_body:
  assumes "list_all not_header body" "resumes ls"
  shows "takeRawBody (body @ ls) = (join_byte newline_c body, ls)"
proof -
  obtain l rest where l: "ls = l # rest" "\<not> not_header l" using assms(2) by (auto simp: resumes_def)
  have "takeWhile not_header (body @ ls) = body" "dropWhile not_header (body @ ls) = ls"
    using assms(1) l by (simp_all add: takeWhile_append list_all_iff dropWhile_append)
  then show ?thesis by (simp add: takeRawBody_def)
qed

lemma update_parts_new: "update_parts n (map ((#) (CHR ''+'')) ns) = Inr ([], ns)"
  by (induction ns arbitrary: n) (simp_all add: Let_def)

lemma update_parts_lines:
  "update_parts n (map ((#) (CHR ''-'')) os @ map ((#) (CHR ''+'')) ns) = Inr (os, ns)"
  by (induction os arbitrary: n) (simp_all add: Let_def update_parts_new)

lemma parse_update_render:
  assumes "old \<noteq> []"
  shows "parseUpdateBody (join_byte newline_c (map ((#) (CHR ''-'')) (split_byte old newline_c)
           @ map ((#) (CHR ''+'')) (split_byte neu newline_c))) i = Inr (old, neu)"
proof -
  let ?ls = "map ((#) (CHR ''-'')) (split_byte old newline_c) @ map ((#) (CHR ''+'')) (split_byte neu newline_c)"
  have "list_all (\<lambda>e. newline_c \<notin> set e) ?ls"
    by (auto simp: list_all_iff dest: split_byte_no_sep)
  moreover have "?ls \<noteq> []" by simp
  ultimately have s: "split_byte (join_byte newline_c ?ls) newline_c = ?ls" by (rule split_join_byte)
  then have "join_byte newline_c ?ls \<noteq> []" by (cases "split_byte old newline_c"; cases "tl ?ls") auto
  then show ?thesis using assms s update_parts_lines by (simp add: parseUpdateBody_def)
qed

lemma not_header_update: "list_all not_header (map ((#) (CHR ''-'')) os @ map ((#) (CHR ''+'')) ns)"
  by (auto simp: list_all_iff not_header_def header_start_def)

lemma render_resumes: "resumes (concat (map render_op ops) @ [end_line])"
proof (cases ops)
  case Nil
  then show ?thesis by (simp add: resumes_def not_header_def header_defs)
next
  case (Cons op rest)
  then show ?thesis by (cases op) (simp_all add: resumes_def not_header_def header_defs)
qed

lemma parse_render_ops:
  "list_all printable ops \<Longrightarrow> parse_ops i (concat (map render_op ops) @ [end_line]) = Inr ops"
proof (induction ops arbitrary: i)
  case Nil
  then show ?case by (simp add: parse_ops.simps(2) Let_def split: prod.split)
next
  case (Cons op ops)
  let ?rest = "concat (map render_op ops) @ [end_line]"
  have ih: "parse_ops j ?rest = Inr ops" for j using Cons by simp
  have b: "takeRawBody (body @ ?rest) = (join_byte newline_c body, ?rest)" if "list_all not_header body" for body
    by (rule resumes_body [OF that render_resumes])
  show ?case
  proof (cases op)
    case (Add_file p body)
    with Cons.prems have p: "plain_path p" "list_all not_header (split_byte body newline_c)" "p \<noteq> []" by (simp_all add: plain_path_def)
    have h: "\<not> prefix end_line (add_header @ p)" "prefix add_header (add_header @ p)" by (simp_all add: header_defs)
    show ?thesis using Add_file p h b [OF p(2)] ih by (simp add: parse_ops.simps(2) Let_def)
  next
    case (Update_file p old neu)
    with Cons.prems have p: "plain_path p" "old \<noteq> []" "p \<noteq> []" by (simp_all add: plain_path_def)
    have h: "\<not> prefix end_line (update_header @ p)" "\<not> prefix add_header (update_header @ p)" "prefix update_header (update_header @ p)"
      by (simp_all add: header_defs)
    show ?thesis using Update_file p h b [OF not_header_update] parse_update_render [OF p(2)] ih
      by (simp add: parse_ops.simps(2) Let_def)
  next
    case (Delete_file p)
    with Cons.prems have p: "plain_path p" "p \<noteq> []" by (simp_all add: plain_path_def)
    have h: "\<not> prefix end_line (delete_header @ p)" "\<not> prefix add_header (delete_header @ p)"
        "\<not> prefix update_header (delete_header @ p)" "prefix delete_header (delete_header @ p)"
      by (simp_all add: header_defs)
    show ?thesis using Delete_file p h ih by (simp add: parse_ops.simps(2) Let_def split: prod.split)
  next
    case (Move_file p q)
    with Cons.prems have p: "plain_path p" "p \<noteq> []" "plain_path q" "q \<noteq> []" by (simp_all add: plain_path_def)
    have h: "\<not> prefix end_line (move_header @ p)" "\<not> prefix add_header (move_header @ p)"
        "\<not> prefix update_header (move_header @ p)" "\<not> prefix delete_header (move_header @ p)"
        "prefix move_header (move_header @ p)" "prefix to_header (to_header @ q)"
      by (simp_all add: header_defs)
    show ?thesis using Move_file p h ih by (simp add: parse_ops.simps(2) Let_def split: prod.split)
  qed
qed

lemma replace_all_absent: "c \<notin> set s \<Longrightarrow> replace_all (c # x) new s = s"
  by (induction s) auto

lemma set_join_byte: "set (join_byte c ls) \<subseteq> insert c (\<Union> (set ` set ls))"
  by (induction c ls rule: join_byte.induct) auto

lemma split_byte_subset: "e \<in> set (split_byte s c) \<Longrightarrow> set e \<subseteq> set s"
proof (induction s arbitrary: e)
  case (Cons d s)
  obtain p ps where p: "split_byte s c = p # ps" by (cases "split_byte s c") auto
  show ?case
  proof (cases "d = c \<and> e = []")
    case False
    then have "e \<in> set (p # ps) \<or> (e = d # p)" using Cons.prems p by (auto split: if_splits)
    then show ?thesis using Cons.IH [of p] Cons.IH [of e] p by auto
  qed simp
qed simp

lemma render_op_bytes:
  assumes "printable op" "l \<in> set (render_op op)"
  shows "cr_c \<notin> set l" "newline_c \<notin> set l"
proof -
  have part: "cr_c \<notin> set e \<and> newline_c \<notin> set e" if "e \<in> set (split_byte b newline_c)" "cr_c \<notin> set b" for e b
    using that split_byte_subset split_byte_no_sep by fast
  have "cr_c \<notin> set l \<and> newline_c \<notin> set l"
    using assms part by (cases op) (auto simp: plain_path_def header_defs)
  then show "cr_c \<notin> set l" "newline_c \<notin> set l" by blast+
qed

text \<open>
  C31: An envelope of operations that can be written as one is read back as those operations:
  added bodies byte for byte, updates as their old and new text, paths as they are.  That is, with
  paths that are not empty and have no outer blanks or line ends, no carriage return in a body,
  no line of an added body that starts like a header (\<open>*** \<close>), and an update with a text to find.
\<close>

theorem patches_are_read_back:
  assumes "list_all printable ops"
  shows "parsePatch (render_patch ops) = Inr ops"
proof -
  let ?ls = "begin_line # concat (map render_op ops) @ [end_line]"
  have bytes: "cr_c \<notin> set l \<and> newline_c \<notin> set l" if "l \<in> set ?ls" for l
  proof -
    have "cr_c \<notin> set begin_line \<and> newline_c \<notin> set begin_line" "cr_c \<notin> set end_line \<and> newline_c \<notin> set end_line"
      by (simp_all add: header_defs)
    with that show ?thesis using render_op_bytes assms by (auto simp: list_all_iff)
  qed
  have "cr_c \<notin> set (render_patch ops)"
    using set_join_byte [of newline_c ?ls] bytes unfolding render_patch_def by auto
  then have "replace_all [cr_c, newline_c] [newline_c] (render_patch ops) = render_patch ops" by (rule replace_all_absent)
  moreover have "split_byte (render_patch ops) newline_c = ?ls"
    unfolding render_patch_def by (rule split_join_byte) (use bytes in \<open>auto simp: list_all_iff\<close>)
  moreover have "last ?ls = end_line" "end_line \<noteq> []" by (simp_all add: end_line_def)
  ultimately have "patch_lines (render_patch ops) = ?ls" by (simp add: patch_lines_def Let_def del: last.simps)
  moreover have "trim_space begin_line = begin_line" by code_simp
  ultimately show ?thesis using parse_render_ops [OF assms] by (simp add: parsePatch_def)
qed

section \<open>A last line and a failed write\<close>

text \<open>
  The body of an added file is joined from its lines, so its last line gets no newline: a file written
  line by line as the format shows it does not end in one.
\<close>

lemma added_file_loses_last_newline:
  "parsePatch (''*** Begin Patch'' @ [newline_c] @ ''*** Add File: a'' @ [newline_c] @ ''x'' @ [newline_c] @ ''*** End Patch'' @ [newline_c])
     = Inr [Add_file ''a'' ''x'']"
  by code_simp

definition one_file :: disk where
  "one_file = [''/w/a'' \<mapsto> ''old'', ''/w/b'' \<mapsto> ''kept'']"

definition two_updates :: "patch_op list" where
  "two_updates = [Update_file ''b'' ''kept'' ''changed'', Update_file ''a'' ''old'' ''new'']"

text \<open>
  The rollback starts before the file whose write failed: when that write has already cut the file
  short, as a write to a full disk does, its contents are gone although the answer says rolled back.
\<close>

theorem failed_write_is_not_restored:
  "(case runPatch (resolveWithinRoot ''/w'' ''/w'') (\<lambda>_. True)
      (\<lambda>i. if i = 1 then Failed (Some []) else Written) (\<lambda>_. Written) (render_patch two_updates) False one_file of
      (ans, d) \<Rightarrow> ans = Write_failed ''a'' \<and> d ''/w/b'' = Some ''kept'' \<and> d ''/w/a'' = Some [])"
  by code_simp

section \<open>Witnesses\<close>

definition sample_ops :: "patch_op list" where
  "sample_ops = [Add_file ''n/c'' (''one'' @ [newline_c] @ ''two''), Update_file ''a'' ''old'' ''new'', Move_file ''b'' ''n/b'', Delete_file ''a'']"

lemma patches_are_read_back_witness: "parsePatch (render_patch sample_ops) = Inr sample_ops"
  by (rule patches_are_read_back) code_simp

lemma delete_run:
  "runPatch (resolveWithinRoot ''/w'' ''/w'') (\<lambda>_. True) (\<lambda>_. Written) (\<lambda>_. Written) (render_patch [Delete_file ''a'']) False one_file =
     (Applied [\<lparr>sc_rel = ''a'', sc_abs = ''/w/a'', sc_orig = Some ''old'', sc_final = None\<rparr>], one_file(''/w/a'' := None))"
proof -
  have p: "parsePatch (render_patch [Delete_file ''a'']) = Inr [Delete_file ''a'']" by code_simp
  have r: "resolveWithinRoot ''/w'' ''/w'' ''a'' = Inr ''/w/a''" by code_simp
  have n: "render_patch [Delete_file ''a''] \<noteq> []" by code_simp
  show ?thesis using p r n
    by (simp add: runPatch_def preparePatch_def prepare_op_def ensure_def fresh_entry_def one_file_def entry_of_def present_def
        set_entry_def map_filter_simps stage_entry_def commitPatch_def applyStaged_def Let_def)
qed

lemma patch_is_all_or_nothing_witness:
  "\<exists>ops. parsePatch (render_patch [Delete_file ''a'']) = Inr ops
     \<and> spec_ops (resolveWithinRoot ''/w'' ''/w'') 1 ops one_file = Inr (one_file(''/w/a'' := None))"
  using patch_is_all_or_nothing [OF delete_run] by auto

lemma patch_stays_inside_witness: "withinRoot ''/w/a'' ''/w'' \<and> no_dots ''/w/a''"
proof -
  have "path_clean ''/w'' = ''/w''" by code_simp
  moreover have "prefix ''/'' ''/w''" by simp
  moreover have "(one_file(''/w/a'' := None)) ''/w/a'' \<noteq> one_file ''/w/a''" by (simp add: one_file_def)
  ultimately show ?thesis using patch_stays_inside [OF _ _ delete_run, of "''/w/a''"] by blast
qed

end
