(* ===== verification/Spec2Isabelle.thy ===== *)
theory Spec2Isabelle
  imports ExecPolicy ExecListProps ExecPwsh TurnGuard NetPolicy Difflib Lease WorkProps ClassifyProps GoalTests GoalAudit CtxFold GeneralizeProps WorkflowProps FsPatchText
begin

text \<open>
  \<^bold>\<open>yanshi\<close> is a coding agent: a model proposes tool calls, and a Go program decides which of them
  run, under which permissions, for how long and with what record.  This development models the
  part of \<open>src/internal\<close> that decides.  It is a shallow embedding: each Go function, handler and
  SQL statement that is modelled is a HOL function under its Go name, with the branches and the
  early returns of the source, and the theorems are about those functions.  File and function
  names below are relative to \<open>src/internal\<close>.

  \<^bold>\<open>1. How the parts interact.\<close>
  A tool call enters through \<open>Authorize\<close> (\<open>tools/permctx.go\<close>).  It looks the tool up in the set of
  registered tools, asks the role, the permission profile and the plan mode, and then
  \<open>Guard.Check\<close> (\<open>guard/guard.go\<close>).  For a shell command the guard reads the command string
  several times: as a list of segments (\<open>execpolicy/commandlist.go\<close>, \<open>powershell.go\<close>), each of
  which the rule engine evaluates (\<open>execpolicy/policy.go\<close> over the strict lexer and parser); with
  its known parameters expanded (\<open>guard/expansion.go\<close>); and through the deletion classifier
  (\<open>guard/destructive.go\<close> with \<open>prefixrunner.go\<close>, \<open>ansic.go\<close>, \<open>argvwrite.go\<close>, \<open>storage.go\<close> and
  \<open>opaque.go\<close>), which looks through runners, wrappers and payloads.  File actions meet the path
  patterns and the built-in tables (\<open>guard/glob.go\<close>, \<open>pathnorm.go\<close>, \<open>sensitive.go\<close>).  A refusal
  that is not structural may be lifted by an approval on record (\<open>approval\<close>), by the rules a
  session has collected (\<open>guard/generalize.go\<close>, \<open>agent/orchestrator/sessionrules.go\<close>), or by the
  user or the permission mode behind the connection's gate (\<open>guard/mode.go\<close>,
  \<open>api/http/ws_perm.go\<close>).

  Around this decision stand the loops that call it.  One turn of the agent is watched by the loop
  guard (\<open>loopguard\<close>, driven by \<open>agent/orchestrator/loopguard.go\<close>) and, when its history grows, by
  context compaction (\<open>ctxcompact\<close>).  A goal is worked off by the goal loop (\<open>agent/goalloop\<close>),
  whose acceptance tests run only if the classifier lets them.  A workflow (\<open>tools/agent_dag.go\<close>)
  runs sub-agents in the order of their dependencies.  Longer work goes through the durable tasks
  (\<open>task/work\<close>), which submit to the broker (\<open>task/broker.go\<close>) over the table of tasks
  (\<open>store/task.go\<close>) and hear of its transitions through a mirror; processes exclude each other by
  leases (\<open>store/lease.go\<close> on \<open>store/kv.go\<close>).  What a tool may do to the disk and the network is the
  matter of the edit and patch tools (\<open>tools/fs_edit.go\<close>, \<open>fs_patch_parse.go\<close>, \<open>fs_patch.go\<close>) and
  of the host policy (\<open>netpolicy\<close>).

  \<^bold>\<open>2. Theories and code.\<close>

  \<^item> \<open>Prelude\<close>, \<open>Utf8\<close>: the functions of Go's packages \<open>strings\<close>, \<open>strconv\<close>, \<open>unicode\<close> and
    \<open>unicode/utf8\<close> the code calls, and the facts about lists and bytes all theories share.
  \<^item> \<open>ExecLex\<close>, \<open>ExecParse\<close>, \<open>ExecPolicy\<close>: \<open>execpolicy/lexer.go\<close>, \<open>parser.go\<close>, \<open>policy.go\<close>.  Shown:
    what a parsed command looks like (\<open>Parse_ok\<close>), that the engine fails closed, and that its
    verdict is the one of a declarative specification.
  \<^item> \<open>Ansic\<close>, \<open>ListScanner\<close>, \<open>ExecList\<close>, \<open>ExecListProps\<close>, \<open>ExecPwsh\<close>: \<open>ansic.go\<close>, \<open>commandlist.go\<close>,
    \<open>powershell.go\<close>.  The scanners are a record and a step per byte.  Shown: an accepted list of
    one line holds no substitution a shell would perform, the shell being a specification of its own
    and the corners where the reader parts from it theorems; the conservative outcomes of the
    PowerShell reader.
  \<^item> \<open>Glob\<close>, \<open>PathNorm\<close>, \<open>Expansion\<close>, \<open>GuardData\<close>, \<open>Sensitive\<close>, \<open>ShellLite\<close>, \<open>CommandSplit\<close>, \<open>GuardCheck\<close>,
    \<open>GuardProps\<close>: \<open>guard/glob.go\<close>, \<open>pathnorm.go\<close>, \<open>expansion.go\<close>, \<open>profile.go\<close>, \<open>sensitive.go\<close>,
    \<open>guard.go\<close> and the lexer and splitter of \<open>destructive.go\<close>.  Shown: exactly when an action is
    allowed, that a chain is as strict as its strictest part, and where structural refusals come
    from.
  \<^item> \<open>Unwrap\<close>, \<open>ArgvWrite\<close>, \<open>Storage\<close>, \<open>Classify\<close>, \<open>ClassifyProps\<close>: \<open>guard/prefixrunner.go\<close>, \<open>ansic.go\<close>,
    \<open>argvwrite.go\<close>, \<open>storage.go\<close>, \<open>opaque.go\<close>, \<open>destructive.go\<close>.  The specification is an inductive
    set of disasters, closed under runners, wrappers and chains to any depth.  Shown: each is
    refused in every context, and one behind an unknown runner is at least asked about.
  \<^item> \<open>Approval\<close>, \<open>ApprovalProps\<close>: \<open>approval/manager.go\<close>, \<open>types.go\<close>, over histories of operations.
  \<^item> \<open>Generalize\<close>, \<open>GeneralizeProps\<close>: \<open>guard/generalize.go\<close>, \<open>agent/orchestrator/sessionrules.go\<close>.
    Shown: what approvals can widen, and that the refusal of a command outlives every later approval.
  \<^item> \<open>PermMode\<close>, \<open>PermModeProps\<close>, \<open>Authorize\<close>, \<open>AuthorizeProps\<close>: \<open>guard/mode.go\<close>, \<open>autoapproval.go\<close>,
    \<open>api/http/ws_perm.go\<close>, \<open>toolreg/toolreg.go\<close>, \<open>tools/scripthash.go\<close>, \<open>tools/permctx.go\<close>.  The
    values the Go context carries are the record \<open>auth_context\<close>.  Shown: the only ways to a yes, and
    that a session approval is remembered while the script it was given for stays the same.
  \<^item> \<open>LoopGuard\<close>, \<open>LoopGuardProps\<close>, \<open>TurnGuard\<close>: \<open>loopguard\<close>, \<open>agent/orchestrator/loopguard.go\<close>.
  \<^item> \<open>NetPolicy\<close>: \<open>netpolicy/policy.go\<close>.  \<open>Difflib\<close>: \<open>difflib/difflib.go\<close>, with minimality of the script.
  \<^item> \<open>TaskStore\<close>, \<open>Lease\<close>, \<open>Broker\<close>, \<open>BrokerProps\<close>, \<open>WorkStore\<close>, \<open>WorkManager\<close>, \<open>WorkSync\<close>, \<open>WorkProps\<close>:
    \<open>store/task.go\<close>, \<open>kv.go\<close>, \<open>lease.go\<close>, \<open>task/broker.go\<close>, \<open>task/work\<close>.  Step relations with
    reachability; shown: exclusive claims and leases, bounded hand-outs, and what each durable row shows of its
    broker task.  The calls of the mirror are messages on their way, carried out in any order; a
    row that has ended is right in every history, and an orderly history keeps both in step.
  \<^item> \<open>Goal\<close>, \<open>GoalTier\<close>, \<open>GoalLoop\<close>, \<open>GoalLoopProps\<close>, \<open>GoalAudit\<close>, \<open>GoalTests\<close>: \<open>agent/goalloop\<close>.  Shown:
    no iteration runs twice over any number of processes killed one after the other, a killed run
    resumes where it stopped, and what a completed goal is backed by.
  \<^item> \<open>CtxMessage\<close>, \<open>CtxPairs\<close>, \<open>CtxPlan\<close>, \<open>CtxFold\<close>: \<open>ctxcompact\<close>.  Shown: the repair of tool-call
    pairs ends and repairs, and what a compacted history keeps.
  \<^item> \<open>Workflow\<close>, \<open>WorkflowProps\<close>: \<open>tools/agent_dag.go\<close>.  Shown: when its expansion returns, the order, the
    settling of every step, and the refusal of cycles as an equivalence.
  \<^item> \<open>FsEdit\<close>, \<open>FsPatch\<close>, \<open>FsPatchProps\<close>, \<open>FsPatchText\<close>: the edit and patch tools.  Shown: an edit is
    local, a patch is the sequence of its operations, all or nothing but for restoring writes that
    fail, inside the work root, and read back from its envelope as it was written.

  \<^bold>\<open>3. Interfaces.\<close>  \<open>segment_scanner\<close> (\<open>ListScanner\<close>) states what both command-list readers owe the
  guard, with the instances \<open>posix\<close> and \<open>pwsh\<close>; \<open>gate_interface\<close> the Go interface \<open>Gate\<close>, with
  \<open>gates\<close>; \<open>kv_interface\<close> the interface \<open>KV\<close>, with \<open>kv\<close>; \<open>dispatcher\<close> the port through which durable
  tasks reach the broker, with \<open>broker_port\<close>; \<open>approval_memory\<close> what \<open>Authorize\<close> expects of the
  approval manager, with \<open>approvals\<close>.

  \<^bold>\<open>4. Choices of the model.\<close>
  A Go string is a list of 8-bit characters, so lengths and indices are Go's; runes are decoded
  where the source ranges over runes.  Case folding is that of ASCII.  A Go \<open>int\<close> is an
  \<^typ>\<open>int\<close>, with the 64-bit wrap-around written out in the loop guard, whose counters are compared
  with limits, and in the ranges of workflow steps; word-sized addresses are words.  The build is the POSIX one.  A table of the
  database is a list of rows, and a statement is one atomic update of it.  Clock, random
  identifiers, environment variables, the digest of a script, the outcome of a write and the
  answers of models, of users and of sub-agents are arguments, quantified in the theorems; where
  Go ranges over a map the order is an argument as well.  A JSON text is the value it decodes to.
  Mutexes are left out: each exported method is one step.  Formatted messages are constructors
  with the data they print.

  \<^bold>\<open>5. Bounds and fuel.\<close>
  Loops over bytes recurse on the list or on a length that shrinks.  The classifier recurses with
  the budget of the source (8 levels), and reaching it is an answer of the source, not a cut of
  the model: the theorems on disasters hold for stacks of any depth.  The levels of a
  workflow are computed with the number of waiting steps, which each round lowers.  The repair of
  tool-call pairs has no bound in the source; it is a \<open>partial_function\<close> in the option monad, proved
  to return by a measure on the pinned set.  The loop over a range of workflow steps may really not
  end; it is a \<open>partial_function\<close> too, with \<^const>\<open>None\<close> for not returning, and the ranges on which it
  does not end are characterised.  The rounds of the goal loop recurse on the iterations
  left.  No theorem speaks only of the runs that end.

  \<^bold>\<open>6. Not modelled.\<close>
  Of the modelled packages: the files of task artifacts and their sweep (\<open>task/work/manager.go\<close>),
  which are file-system calls; the wording of the default approval prompt; the websocket upgrade
  and the audit rows of \<open>ws_perm.go\<close>; the prompts, the decoding of answers and the external
  implementer of the goal loop; the summarizer of context compaction with its redaction and
  scoring, and the token estimate, a sum of floating-point weights; the dry-run preview, the
  diagnostics and the version-control records of the patch tool; the ticker of the broker.
  Left out altogether: the model providers (\<open>llm\<close>), HTTP and websocket transport (\<open>api\<close>,
  \<open>appserver\<close>, \<open>proto\<close>), the external protocols (\<open>acp\<close>, \<open>mcp\<close>, \<open>lsp\<close>, \<open>ipc\<close>, \<open>ctl\<close>), the terminal
  interface (\<open>cli\<close>), sandboxes and processes (\<open>sandbox\<close>, \<open>harden\<close>, \<open>secproc\<close>, \<open>shell\<close>), configuration and wiring (\<open>bootstrap\<close>, \<open>config\<close>, \<open>cmd\<close>), logging and
  metrics, and the third-party code: they are I/O, or glue around code that is not in the
  repository, and a model of them would say nothing the code does not say itself.  The version
  control on the store (\<open>vcs\<close>), the sub-agent registry (\<open>agent/registry\<close>) and the tables of
  sessions and messages keep state of their own; they are the next candidates.
\<close>

end
